(* ===== verification/Prelude.thy ===== *)
theory Prelude
  imports Complex_Main "HOL-Library.List_Lexorder" "HOL-Library.Char_ord" "HOL-Library.Product_Lexorder"
begin

text \<open>
  What the components of the development share: the Python exceptions as values, the text
  functions of \<open>str\<close> the source calls, SQL tables as lists of rows, and the hints the component
  proofs collect.

  Text is a list of \<open>char\<close>, read as the code points 0 to 255; Python's text beyond Latin-1 is out of
  the model's range. The order on text is the order of the code points, which is Python's order on
  \<open>str\<close> and SQLite's binary collation.
\<close>

named_theorems table_simps \<open>facts on lookups, updates and counts of table rows\<close>

section \<open>Exceptions\<close>

type_synonym pystr = string

text \<open>
  \<open>ArenyxaError\<close> of \<^verbatim>\<open>domain/errors.py\<close> carries its domain and its code; the message, the
  severity and the diagnostic context decide nothing and are left out.
\<close>

datatype exc =
    ArenyxaError (err_domain: pystr) (err_code: pystr)
  | ValueError
  | KeyError
  | TypeError
  | RuntimeError
  | IntegrityError
  | OperationalError
  | OverflowError
  | AttributeError

text \<open>Sequencing of steps that may raise.\<close>

fun ebind :: "'e + 'a \<Rightarrow> ('a \<Rightarrow> 'e + 'b) \<Rightarrow> 'e + 'b" where
  "ebind (Inl e) f = Inl e"
| "ebind (Inr x) f = f x"

lemma ebind_Inr_iff [simp]: "ebind m f = Inr y \<longleftrightarrow> (\<exists>x. m = Inr x \<and> f x = Inr y)"
  by (cases m) auto

lemma ebind_Inr_iff_sym [simp]: "Inr y = ebind m f \<longleftrightarrow> (\<exists>x. m = Inr x \<and> f x = Inr y)"
  by (cases m) auto

lemma ebind_Inl_iff: "ebind m f = Inl e \<longleftrightarrow> m = Inl e \<or> (\<exists>x. m = Inr x \<and> f x = Inl e)"
  by (cases m) auto

definition require :: "bool \<Rightarrow> 'e \<Rightarrow> 'e + unit" where
  "require c e = (if c then Inr () else Inl e)"

lemma require_Inr_iff [simp]: "require c e = Inr u \<longleftrightarrow> c"
  by (simp add: require_def)

lemma require_True [simp]: "require True e = Inr ()"
  by (simp add: require_def)

lemma require_False [simp]: "require False e = Inl e"
  by (simp add: require_def)

text \<open>A loop over rows whose body may raise.\<close>

fun efold :: "('a \<Rightarrow> 's \<Rightarrow> 'e + 's) \<Rightarrow> 'a list \<Rightarrow> 's \<Rightarrow> 'e + 's" where
  "efold f [] s = Inr s"
| "efold f (x # xs) s = ebind (f x s) (efold f xs)"

lemma efold_invariant:
  assumes "efold f xs s = Inr s'" and "I s"
    and "\<And>x s s'. x \<in> set xs \<Longrightarrow> f x s = Inr s' \<Longrightarrow> I s \<Longrightarrow> I s'"
  shows "I s'"
  using assms
proof (induction xs arbitrary: s)
  case (Cons x xs)
  then obtain s1 where "f x s = Inr s1" "efold f xs s1 = Inr s'" by auto
  moreover from this(1) Cons.prems(2) have "I s1" by (intro Cons.prems(3) [of x s s1]) simp_all
  moreover have "\<And>y t t'. y \<in> set xs \<Longrightarrow> f y t = Inr t' \<Longrightarrow> I t \<Longrightarrow> I t'"
    by (rule Cons.prems(3)) simp_all
  ultimately show ?case using Cons.IH [of s1] by blast
qed simp

section \<open>Text\<close>

definition ord_c :: "char \<Rightarrow> nat" where
  "ord_c c = of_char c"

text \<open>\<open>str.isspace\<close> on the code points 0 to 255.\<close>

definition py_isspace :: "char \<Rightarrow> bool" where
  "py_isspace c = (let n = ord_c c in
     (9 \<le> n \<and> n \<le> 13) \<or> (28 \<le> n \<and> n \<le> 32) \<or> n = 133 \<or> n = 160)"

definition py_strip :: "pystr \<Rightarrow> pystr" where
  "py_strip s = rev (dropWhile py_isspace (rev (dropWhile py_isspace s)))"

text \<open>
  \<open>str.casefold\<close> on the code points 0 to 255: the capital letters get their small ones and the
  sharp s becomes two letters. (The micro sign folds to a Greek letter, beyond the model's range,
  and is kept.)
\<close>

definition casefold_c :: "char \<Rightarrow> pystr" where
  "casefold_c c = (let n = ord_c c in
     if (65 \<le> n \<and> n \<le> 90) \<or> (192 \<le> n \<and> n \<le> 222 \<and> n \<noteq> 215) then [char_of (n + 32)]
     else if n = 223 then ''ss'' else [c])"

definition py_casefold :: "pystr \<Rightarrow> pystr" where
  "py_casefold s = concat (map casefold_c s)"

definition utf8_len :: "pystr \<Rightarrow> nat" where
  "utf8_len s = sum_list (map (\<lambda>c. if ord_c c < 128 then 1 else 2) s)"

lemma utf8_len_Nil [simp]: "utf8_len [] = 0"
  by (simp add: utf8_len_def)

lemma utf8_len_Cons [simp]: "utf8_len (c # s) = (if ord_c c < 128 then 1 else 2) + utf8_len s"
  by (simp add: utf8_len_def)

lemma utf8_len_append [simp]: "utf8_len (s @ t) = utf8_len s + utf8_len t"
  by (simp add: utf8_len_def)

lemma utf8_len_le: "utf8_len s \<le> 2 * length s"
  by (induction s) auto

lemma length_le_utf8_len: "length s \<le> utf8_len s"
  by (induction s) auto

lemma strip_sublist: "\<exists>p q. s = p @ py_strip s @ q"
proof -
  let ?t = "dropWhile py_isspace s"
  have "s = takeWhile py_isspace s @ ?t"
    by (rule takeWhile_dropWhile_id [symmetric])
  moreover have "rev ?t = takeWhile py_isspace (rev ?t) @ dropWhile py_isspace (rev ?t)"
    by (rule takeWhile_dropWhile_id [symmetric])
  then have "?t = py_strip s @ rev (takeWhile py_isspace (rev ?t))"
    unfolding py_strip_def by (metis rev_append rev_rev_ident)
  ultimately show ?thesis by metis
qed

lemma length_strip_le: "length (py_strip s) \<le> length s"
  by (metis length_append le_add2 le_add1 le_trans strip_sublist)

text \<open>A stripped text has no space at its ends, and such a text is stripped.\<close>

lemma strip_ends: "py_strip s \<noteq> [] \<Longrightarrow> \<not> py_isspace (hd (py_strip s)) \<and> \<not> py_isspace (last (py_strip s))"
proof -
  assume *: "py_strip s \<noteq> []"
  let ?t = "dropWhile py_isspace s"
  let ?u = "dropWhile py_isspace (rev ?t)"
  have u: "?u \<noteq> []" using * by (simp add: py_strip_def)
  then have "last ?u = last (rev ?t)"
    using takeWhile_dropWhile_id [of py_isspace "rev ?t"] by (metis last_appendR)
  moreover have t: "?t \<noteq> []" using u by (metis dropWhile.simps(1) rev.simps(1))
  ultimately have "hd (py_strip s) = hd ?t" by (simp only: py_strip_def hd_rev last_rev)
  then show ?thesis
    using hd_dropWhile [OF t] hd_dropWhile [OF u] by (simp add: py_strip_def last_rev)
qed

lemma strip_fixed: "s = [] \<or> \<not> py_isspace (hd s) \<and> \<not> py_isspace (last s) \<Longrightarrow> py_strip s = s"
proof -
  assume "s = [] \<or> \<not> py_isspace (hd s) \<and> \<not> py_isspace (last s)"
  then have "dropWhile py_isspace s = s" "dropWhile py_isspace (rev s) = rev s"
    by (auto simp: dropWhile_eq_self_iff hd_rev)
  then show ?thesis by (simp add: py_strip_def)
qed

lemma strip_strip [simp]: "py_strip (py_strip s) = py_strip s"
  using strip_ends [of s] by (intro strip_fixed) blast

lemma strip_id: "\<forall>c \<in> set s. \<not> py_isspace c \<Longrightarrow> py_strip s = s"
proof -
  assume *: "\<forall>c \<in> set s. \<not> py_isspace c"
  have drop: "dropWhile py_isspace t = t" if "\<forall>c \<in> set t. \<not> py_isspace c" for t
    using that by (cases t) auto
  have "dropWhile py_isspace s = s" and "dropWhile py_isspace (rev s) = rev s"
    using * by (simp_all add: drop)
  then show ?thesis by (simp add: py_strip_def)
qed

section \<open>Tables\<close>

text \<open>
  A table is the list of its rows in insertion order. \<open>SELECT ... WHERE p LIMIT 1\<close> of a table with
  at most one such row is \<open>find\<close>, \<open>UPDATE\<close> is \<open>upd_where\<close>, and a statement's \<open>rowcount\<close> is
  \<open>count_where\<close>.
\<close>

definition row_of :: "('r \<Rightarrow> 'k) \<Rightarrow> 'k \<Rightarrow> 'r list \<Rightarrow> 'r option" where
  "row_of key k tbl = find (\<lambda>r. key r = k) tbl"

definition upd_where :: "('r \<Rightarrow> bool) \<Rightarrow> ('r \<Rightarrow> 'r) \<Rightarrow> 'r list \<Rightarrow> 'r list" where
  "upd_where p f tbl = map (\<lambda>r. if p r then f r else r) tbl"

definition count_where :: "('r \<Rightarrow> bool) \<Rightarrow> 'r list \<Rightarrow> nat" where
  "count_where p tbl = length (filter p tbl)"

lemma row_of_Nil [simp]: "row_of key k [] = None"
  by (simp add: row_of_def)

lemma row_of_Cons [simp]: "row_of key k (r # tbl) = (if key r = k then Some r else row_of key k tbl)"
  by (simp add: row_of_def)

lemma upd_where_Nil [simp]: "upd_where p f [] = []"
  by (simp add: upd_where_def)

lemma upd_where_Cons [simp]:
  "upd_where p f (r # tbl) = (if p r then f r else r) # upd_where p f tbl"
  by (simp add: upd_where_def)

lemma count_where_Nil [simp]: "count_where p [] = 0"
  by (simp add: count_where_def)

lemma count_where_Cons [simp]:
  "count_where p (r # tbl) = (if p r then Suc (count_where p tbl) else count_where p tbl)"
  by (simp add: count_where_def)

lemma count_where_append [simp]: "count_where p (xs @ ys) = count_where p xs + count_where p ys"
  by (simp add: count_where_def)

lemma count_where_pos: "r \<in> set tbl \<Longrightarrow> p r \<Longrightarrow> 0 < count_where p tbl"
  by (induction tbl) auto

lemma count_where_zero: "count_where p tbl = 0 \<longleftrightarrow> (\<forall>r \<in> set tbl. \<not> p r)"
  by (induction tbl) auto

lemma length_upd_where [simp]: "length (upd_where p f tbl) = length tbl"
  by (simp add: upd_where_def)

lemma set_upd_where: "set (upd_where p f tbl) = (\<lambda>r. if p r then f r else r) ` set tbl"
  by (simp add: upd_where_def)

lemma row_of_in: "row_of key k tbl = Some r \<Longrightarrow> r \<in> set tbl \<and> key r = k"
  by (induction tbl) (auto split: if_splits)

lemma row_of_None: "row_of key k tbl = None \<longleftrightarrow> k \<notin> key ` set tbl"
  by (induction tbl) auto

lemma row_of_append:
  "row_of key k (xs @ ys) = (case row_of key k xs of None \<Rightarrow> row_of key k ys | Some r \<Rightarrow> Some r)"
  by (induction xs) auto

lemma row_of_distinct:
  "distinct (map key tbl) \<Longrightarrow> r \<in> set tbl \<Longrightarrow> key r = k \<Longrightarrow> row_of key k tbl = Some r"
  by (induction tbl) (auto simp: image_iff)

lemma row_of_eq: "distinct (map key tbl) \<Longrightarrow> row_of key k tbl = Some r \<longleftrightarrow> r \<in> set tbl \<and> key r = k"
  using row_of_distinct [of key tbl r k] row_of_in [of key k tbl r] by blast

text \<open>
  An \<open>UPDATE\<close> that does not assign the key column: the interface every such statement offers to
  the lemmas below, whatever row it changes.
\<close>

locale key_stable =
  fixes key :: "'r \<Rightarrow> 'k" and f :: "'r \<Rightarrow> 'r"
  assumes key_stable: "key (f r) = key r"
begin

lemma map_key_upd: "map key (upd_where p f tbl) = map key tbl"
  by (induction tbl) (auto simp: key_stable)

lemma key_image_upd: "key ` set (upd_where p f tbl) = key ` set tbl"
  by (metis map_key_upd set_map)

lemma row_of_upd:
  "row_of key k (upd_where p f tbl) = map_option (\<lambda>r. if p r then f r else r) (row_of key k tbl)"
  by (induction tbl) (auto simp: key_stable)

lemma row_of_upd_key:
  "row_of key k' (upd_where (\<lambda>r. key r = k) f tbl) =
     (if k' = k then map_option f (row_of key k' tbl) else row_of key k' tbl)"
  by (induction tbl) (auto simp: key_stable)

lemma count_where_upd:
  assumes "distinct (map key tbl)" and "r \<in> set tbl" and "key r = k"
  shows "int (count_where q (upd_where (\<lambda>r. key r = k) f tbl)) =
    int (count_where q tbl) - (if q r then 1 else 0) + (if q (f r) then 1 else 0)"
  using assms
proof (induction tbl)
  case Nil
  then show ?case by simp
next
  case (Cons x tbl)
  show ?case
  proof (cases "key x = k")
    case True
    with Cons.prems have "x = r" and "k \<notin> key ` set tbl" by (auto simp: image_iff)
    then have "upd_where (\<lambda>r. key r = k) f tbl = tbl"
      by (auto simp: upd_where_def intro!: map_idI)
    with \<open>x = r\<close> True show ?thesis by simp
  next
    case False
    with Cons show ?thesis by auto
  qed
qed

end

lemma upd_where_none: "(\<And>r. r \<in> set tbl \<Longrightarrow> \<not> p r) \<Longrightarrow> upd_where p f tbl = tbl"
  by (auto simp: upd_where_def intro!: map_idI)

lemma map_other_upd: "(\<And>r. g (f r) = g r) \<Longrightarrow> map g (upd_where p f tbl) = map g tbl"
  by (induction tbl) auto

lemma count_where_cong: "(\<And>r. r \<in> set tbl \<Longrightarrow> p r = q r) \<Longrightarrow> count_where p tbl = count_where q tbl"
  by (induction tbl) auto

lemma count_where_upd_same:
  "(\<And>r. r \<in> set tbl \<Longrightarrow> p r \<Longrightarrow> q (f r) = q r) \<Longrightarrow>
    count_where q (upd_where p f tbl) = count_where q tbl"
  by (induction tbl) auto

lemma count_key_one:
  "distinct (map key tbl) \<Longrightarrow> r \<in> set tbl \<Longrightarrow> count_where (\<lambda>x. key x = key r) tbl = 1"
proof (induction tbl)
  case (Cons x tbl)
  show ?case
  proof (cases "x = r")
    case True
    with Cons.prems have "count_where (\<lambda>x. key x = key r) tbl = 0" by (auto simp: count_where_zero image_iff)
    with True show ?thesis by simp
  next
    case False
    with Cons show ?thesis by (auto simp: image_iff)
  qed
qed simp

lemma upd_where_cong:
  "(\<And>r. r \<in> set tbl \<Longrightarrow> p r = q r) \<Longrightarrow> (\<And>r. r \<in> set tbl \<Longrightarrow> q r \<Longrightarrow> f r = g r) \<Longrightarrow>
    upd_where p f tbl = upd_where q g tbl"
  by (simp add: upd_where_def)

lemmas table_basic = row_of_in row_of_None row_of_eq set_upd_where upd_where_none

end
