(* ===== verification/Json.thy ===== *)
theory Json
  imports Prelude
begin

text \<open>
  JSON values and the canonical text the distributed runtime stores and hashes: \<open>json.dumps\<close> with
  \<open>ensure_ascii=False\<close>, sorted keys and no spaces, as \<^verbatim>\<open>enterprise/distributed_protocol.py\<close> calls it.
  A floating-point leaf is the text Python's \<open>repr\<close> gives for it. An object is the list of its
  members in insertion order.
\<close>

datatype json =
    JNull
  | JBool bool
  | JInt int
  | JNum pystr
  | JStr pystr
  | JArr "json list"
  | JObj "(pystr \<times> json) list"

section \<open>Printing\<close>

definition hex_digit :: "nat \<Rightarrow> char" where
  "hex_digit n = ''0123456789abcdef'' ! n"

fun show_nat :: "nat \<Rightarrow> pystr" where
  "show_nat n = (if n < 10 then [hex_digit n] else show_nat (n div 10) @ [hex_digit (n mod 10)])"

declare show_nat.simps [simp del]

definition show_int :: "int \<Rightarrow> pystr" where
  "show_int i = (if i < 0 then ''-'' @ show_nat (nat (- i)) else show_nat (nat i))"

definition escape_c :: "char \<Rightarrow> pystr" where
  "escape_c c = (let n = ord_c c in
     if n = 34 then [char_of (92 :: nat), c]
     else if n = 92 then [c, c]
     else if n = 10 then [char_of (92 :: nat), CHR ''n'']
     else if n = 13 then [char_of (92 :: nat), CHR ''r'']
     else if n = 9 then [char_of (92 :: nat), CHR ''t'']
     else if n = 12 then [char_of (92 :: nat), CHR ''f'']
     else if n = 8 then [char_of (92 :: nat), CHR ''b'']
     else if n < 32 then char_of (92 :: nat) # ''u00'' @ [hex_digit (n div 16), hex_digit (n mod 16)]
     else [c])"

definition quote_str :: "pystr \<Rightarrow> pystr" where
  "quote_str s = char_of (34 :: nat) # concat (map escape_c s) @ [char_of (34 :: nat)]"

fun join_with :: "pystr \<Rightarrow> pystr list \<Rightarrow> pystr" where
  "join_with sep [] = []"
| "join_with sep [x] = x"
| "join_with sep (x # y # zs) = x @ sep @ join_with sep (y # zs)"

fun dumps :: "json \<Rightarrow> pystr" where
  "dumps JNull = ''null''"
| "dumps (JBool b) = (if b then ''true'' else ''false'')"
| "dumps (JInt i) = show_int i"
| "dumps (JNum t) = t"
| "dumps (JStr s) = quote_str s"
| "dumps (JArr xs) = ''['' @ join_with '','' (map dumps xs) @ '']''"
| "dumps (JObj kvs) = ''{'' @ join_with '',''
     (map (\<lambda>(k, t). quote_str k @ '':'' @ t)
       (sort_key fst (map (\<lambda>(k, v). (k, dumps v)) kvs))) @ ''}''"

section \<open>Sizes\<close>

text \<open>Bounds on the canonical text, so that the size guards of the event journal can be decided.\<close>

lemma length_show_nat: "n < 10 ^ k \<Longrightarrow> length (show_nat n) \<le> max 1 k"
proof (induction n arbitrary: k rule: show_nat.induct)
  case (1 n)
  show ?case
  proof (cases "n < 10")
    case True
    then show ?thesis by (subst show_nat.simps) simp
  next
    case False
    then obtain k' where k: "k = Suc k'" using "1.prems" by (cases k) auto
    with "1.prems" have "n div 10 < 10 ^ k'" by (simp add: less_mult_imp_div_less mult.commute)
    with False "1.IH" have "length (show_nat (n div 10)) \<le> max 1 k'" by simp
    moreover have "k' \<noteq> 0" using False "1.prems" k by (cases k') auto
    ultimately show ?thesis using False k by (subst show_nat.simps) simp
  qed
qed

lemma length_escape_c: "length (escape_c c) \<le> 6"
  by (simp add: escape_c_def Let_def)

lemma length_concat_escape: "length (concat (map escape_c s)) \<le> 6 * length s"
proof (induction s)
  case (Cons c s)
  with length_escape_c [of c] show ?case by simp
qed simp

lemma length_quote_str: "length (quote_str s) \<le> 6 * length s + 2"
  using length_concat_escape [of s] by (simp add: quote_str_def)

end
