(* ===== verification/PyJson.thy ===== *)
theory PyJson
  imports Json "HOL-Library.AList"
begin

text \<open>
  What Python's \<open>str\<close>, \<open>dict\<close>, \<open>list\<close> and \<open>or\<close> make of a JSON value, as the code that reads untrusted JSON uses them. A
  dictionary is the association list of its members in insertion order, and \<open>AList.update\<close> is its assignment: in
  place, or at the end. The \<open>str\<close> of a list or a dictionary is a parameter.
\<close>

definition truthy :: "json \<Rightarrow> bool" where
  "truthy v = (case v of
     JNull \<Rightarrow> False
   | JBool b \<Rightarrow> b
   | JInt i \<Rightarrow> i \<noteq> 0
   | JNum t \<Rightarrow> t \<noteq> ''0.0'' \<and> t \<noteq> ''-0.0''
   | JStr s \<Rightarrow> s \<noteq> []
   | JArr xs \<Rightarrow> xs \<noteq> []
   | JObj kvs \<Rightarrow> kvs \<noteq> [])"

definition str_of :: "(json \<Rightarrow> pystr) \<Rightarrow> json \<Rightarrow> pystr" where
  "str_of show v = (case v of
     JNull \<Rightarrow> ''None''
   | JBool b \<Rightarrow> if b then ''True'' else ''False''
   | JInt i \<Rightarrow> show_int i
   | JNum t \<Rightarrow> t
   | JStr s \<Rightarrow> s
   | _ \<Rightarrow> show v)"

text \<open>\<open>str(v or dflt)\<close> of a member that may be missing.\<close>

definition str_or :: "(json \<Rightarrow> pystr) \<Rightarrow> json option \<Rightarrow> pystr \<Rightarrow> pystr" where
  "str_or show v dflt = (case v of
     None \<Rightarrow> dflt
   | Some j \<Rightarrow> if truthy j then str_of show j else dflt)"

lemma str_or_JStr: "str_or show (Some (JStr s)) dflt = (if s = [] then dflt else s)"
  by (simp add: str_or_def truthy_def str_of_def)

text \<open>\<open>dict(v or {})\<close>. A list is read as a list of pairs, with keys of any hashable kind.\<close>

definition pair_of :: "json \<Rightarrow> exc + (json \<times> json)" where
  "pair_of x = (case x of
     JArr [JArr _, _] \<Rightarrow> Inl TypeError
   | JArr [JObj _, _] \<Rightarrow> Inl TypeError
   | JArr [k, v] \<Rightarrow> Inr (k, v)
   | JArr _ \<Rightarrow> Inl ValueError
   | JStr [a, b] \<Rightarrow> Inr (JStr [a], JStr [b])
   | JStr _ \<Rightarrow> Inl ValueError
   | JObj [(k1, _), (k2, _)] \<Rightarrow> Inr (JStr k1, JStr k2)
   | JObj _ \<Rightarrow> Inl ValueError
   | _ \<Rightarrow> Inl TypeError)"

definition dict_of :: "json \<Rightarrow> exc + (json \<times> json) list" where
  "dict_of v =
     (if \<not> truthy v then Inr []
      else (case v of
          JObj kvs \<Rightarrow> Inr (map (\<lambda>(k, x). (JStr k, x)) kvs)
        | JArr xs \<Rightarrow> efold (\<lambda>x d. ebind (pair_of x) (\<lambda>(k, y). Inr (AList.update k y d))) xs []
        | JStr _ \<Rightarrow> Inl ValueError
        | _ \<Rightarrow> Inl TypeError))"

text \<open>\<open>list(v or [])\<close>.\<close>

definition list_of :: "json \<Rightarrow> exc + json list" where
  "list_of v =
     (if \<not> truthy v then Inr []
      else (case v of
          JArr xs \<Rightarrow> Inr xs
        | JStr s \<Rightarrow> Inr (map (\<lambda>c. JStr [c]) s)
        | JObj kvs \<Rightarrow> Inr (map (\<lambda>(k, _). JStr k) kvs)
        | _ \<Rightarrow> Inl TypeError))"

text \<open>A member of a mapping, \<open>None\<close> (JSON null) where it is missing.\<close>

definition member_or_null :: "(pystr \<times> json) list \<Rightarrow> pystr \<Rightarrow> json" where
  "member_or_null kvs k = (case map_of kvs k of None \<Rightarrow> JNull | Some v \<Rightarrow> v)"

text \<open>\<open>json.dumps\<close> without sorted keys\<close>

fun dumps_plain :: "json \<Rightarrow> pystr" where
  "dumps_plain (JArr xs) = ''['' @ join_with '','' (map dumps_plain xs) @ '']''"
| "dumps_plain (JObj kvs) = ''{'' @ join_with '','' (map (\<lambda>(k, v). quote_str k @ '':'' @ dumps_plain v) kvs) @ ''}''"
| "dumps_plain v = dumps v"

end
