(* ===== verification/PlatformJobs.thy ===== *)
theory PlatformJobs
  imports PyJson
begin

text \<open>
  The durable rows of the platform jobs (\<^verbatim>\<open>infrastructure/database_jobs.py\<close>). The column \<open>result_json\<close> holds the value its text
  stands for; the text itself matters for its size. Instants are the texts of \<open>utc_now\<close>, drawn by the caller. Every
  operation is one transaction: it raises and changes nothing, or it commits.
\<close>

section \<open>Rows\<close>

datatype pjob_state = PQueued | PRunning | PSucceeded | PFailed | PCancelled | PTimedOut | PInterrupted

definition active_states :: "pjob_state list" where
  "active_states = [PQueued, PRunning]"

definition parse_job_state :: "pystr \<Rightarrow> exc + pjob_state" where
  "parse_job_state s =
     (let t = py_casefold (py_strip s) in
      if t = ''queued'' then Inr PQueued else if t = ''running'' then Inr PRunning
      else if t = ''succeeded'' then Inr PSucceeded else if t = ''failed'' then Inr PFailed
      else if t = ''cancelled'' then Inr PCancelled else if t = ''timed_out'' then Inr PTimedOut
      else if t = ''interrupted'' then Inr PInterrupted else Inl ValueError)"

record pjob =
  pj_id :: pystr
  pj_kind :: pystr
  pj_surface :: pystr
  pj_state :: pjob_state
  pj_progress :: rat
  pj_message :: pystr
  pj_result :: json
  pj_error_code :: pystr
  pj_error_message :: pystr
  pj_actor :: pystr
  pj_correlation :: pystr
  pj_timeout :: rat
  pj_created :: pystr
  pj_started :: "pystr option"
  pj_finished :: "pystr option"
  pj_updated :: pystr

section \<open>Creation\<close>

record new_pjob =
  np_id :: pystr
  np_kind :: pystr
  np_surface :: pystr
  np_state :: pystr
  np_progress :: rat
  np_message :: pystr
  np_actor :: pystr
  np_correlation :: pystr
  np_timeout :: rat
  np_created :: pystr

definition create_platform_job :: "new_pjob \<Rightarrow> pjob list \<Rightarrow> exc + pjob list" where
  "create_platform_job n tbl =
     ebind (parse_job_state (np_state n)) (\<lambda>st.
     let job_id = py_strip (np_id n); kind = py_strip (np_kind n); surface = py_strip (np_surface n) in
     if job_id = [] \<or> 160 < length job_id then Inl ValueError
     else if kind = [] \<or> 128 < length kind \<or> surface = [] \<or> 64 < length surface then Inl ValueError
     else if row_of pj_id job_id tbl \<noteq> None \<or> \<not> (0 \<le> np_progress n \<and> np_progress n \<le> 1) \<or>
       \<not> (0 < np_timeout n \<and> np_timeout n \<le> 86400) then Inl IntegrityError
     else Inr (tbl @ [\<lparr>pj_id = job_id, pj_kind = kind, pj_surface = surface, pj_state = st, pj_progress = np_progress n,
       pj_message = take 1024 (np_message n), pj_result = JNull, pj_error_code = [], pj_error_message = [],
       pj_actor = take 256 (np_actor n), pj_correlation = take 256 (np_correlation n), pj_timeout = np_timeout n,
       pj_created = np_created n, pj_started = None, pj_finished = None, pj_updated = np_created n\<rparr>]))"

section \<open>Updates\<close>

definition MAX_RESULT :: nat where "MAX_RESULT = 1024 * 1024"

definition oversized :: "json \<Rightarrow> bool" where
  "oversized v \<longleftrightarrow> MAX_RESULT < utf8_len (dumps_plain v)"

text \<open>What an update assigns, \<open>None\<close> where it assigns nothing, and the states it expects, none where it expects any.\<close>

record pjob_update =
  pu_state :: "pjob_state option"
  pu_progress :: "rat option"
  pu_message :: "pystr option"
  pu_result :: "json option"
  pu_error_code :: "pystr option"
  pu_error_message :: "pystr option"
  pu_started :: "pystr option"
  pu_finished :: "pystr option"
  pu_expected :: "pjob_state list"

definition or_old :: "'a option \<Rightarrow> 'a \<Rightarrow> 'a" where
  "or_old v old = (case v of None \<Rightarrow> old | Some x \<Rightarrow> x)"

definition apply_update :: "pystr \<Rightarrow> pjob_update \<Rightarrow> pjob \<Rightarrow> pjob" where
  "apply_update now u r = r\<lparr>pj_updated := now, pj_state := or_old (pu_state u) (pj_state r),
     pj_progress := or_old (map_option (\<lambda>p. max 0 (min 1 p)) (pu_progress u)) (pj_progress r),
     pj_message := or_old (map_option (take 1024) (pu_message u)) (pj_message r),
     pj_result := or_old (pu_result u) (pj_result r),
     pj_error_code := or_old (map_option (take 128) (pu_error_code u)) (pj_error_code r),
     pj_error_message := or_old (map_option (take 4096) (pu_error_message u)) (pj_error_message r),
     pj_started := or_old (map_option Some (pu_started u)) (pj_started r),
     pj_finished := or_old (map_option Some (pu_finished u)) (pj_finished r)\<rparr>"

definition expects :: "pjob_update \<Rightarrow> pjob \<Rightarrow> bool" where
  "expects u r \<longleftrightarrow> pu_expected u = [] \<or> pj_state r \<in> set (pu_expected u)"

definition update_platform_job :: "pystr \<Rightarrow> pystr \<Rightarrow> pjob_update \<Rightarrow> pjob list \<Rightarrow> exc + (bool \<times> pjob list)" where
  "update_platform_job now job_id u tbl =
     (if (case pu_result u of None \<Rightarrow> False | Some v \<Rightarrow> oversized v) then Inl ValueError
      else let hit = (\<lambda>r. pj_id r = job_id \<and> expects u r)
           in Inr (count_where hit tbl = 1, upd_where hit (apply_update now u) tbl))"

section \<open>Views and recovery\<close>

definition get_platform_job :: "pystr \<Rightarrow> pjob list \<Rightarrow> pjob option" where
  "get_platform_job job_id tbl = row_of pj_id job_id tbl"

definition newest_first :: "pjob list \<Rightarrow> pjob list" where
  "newest_first rows = rev (sort_key pj_created (rev rows))"

definition list_platform_jobs :: "int \<Rightarrow> pystr \<Rightarrow> pjob list \<Rightarrow> exc + pjob list" where
  "list_platform_jobs limit state tbl =
     (let bounded = nat (max 1 (min 1000 limit)); wanted = py_casefold (py_strip state) in
      if wanted = [] then Inr (take bounded (newest_first tbl))
      else ebind (parse_job_state wanted) (\<lambda>st. Inr (take bounded (newest_first (filter (\<lambda>r. pj_state r = st) tbl)))))"

definition is_active :: "pjob \<Rightarrow> bool" where
  "is_active r \<longleftrightarrow> pj_state r \<in> set active_states"

definition interrupt_row :: "pystr \<Rightarrow> pjob \<Rightarrow> pjob" where
  "interrupt_row now r = r\<lparr>pj_state := PInterrupted, pj_progress := min (pj_progress r) (99 / 100),
     pj_error_code := ''JOB_PROCESS_INTERRUPTED'',
     pj_error_message := ''The owning Arenyxa process stopped before this job reached a terminal state.'',
     pj_finished := Some now, pj_updated := now\<rparr>"

definition recover_platform_jobs :: "pystr \<Rightarrow> pjob list \<Rightarrow> nat \<times> pjob list" where
  "recover_platform_jobs now tbl = (count_where is_active tbl, upd_where is_active (interrupt_row now) tbl)"

section \<open>Facts\<close>

lemma apply_update_id [simp]: "pj_id (apply_update now u r) = pj_id r"
  by (simp add: apply_update_def)

lemma interrupt_row_id [simp]: "pj_id (interrupt_row now r) = pj_id r"
  by (simp add: interrupt_row_def)

lemma is_active_iff: "is_active r \<longleftrightarrow> pj_state r = PQueued \<or> pj_state r = PRunning"
  by (auto simp: is_active_def active_states_def)

lemma active_states_set [simp]: "set active_states = {PQueued, PRunning}"
  by (simp add: active_states_def)

interpretation updates: key_stable pj_id "apply_update now u" for now u
  by unfold_locales simp

interpretation interrupts: key_stable pj_id "interrupt_row now" for now
  by unfold_locales simp

text \<open>The rows of an identifier after each operation.\<close>

abbreviation pjob_row :: "pystr \<Rightarrow> pjob list \<Rightarrow> pjob option" where
  "pjob_row k tbl \<equiv> row_of pj_id k tbl"

lemma row_after_update:
  assumes "update_platform_job now k u tbl = Inr (hit, tbl')"
  shows "pjob_row i tbl' = (case pjob_row i tbl of None \<Rightarrow> None
    | Some r \<Rightarrow> Some (if i = k \<and> expects u r then apply_update now u r else r))"
proof -
  have "tbl' = upd_where (\<lambda>r. pj_id r = k \<and> expects u r) (apply_update now u) tbl"
    using assms by (auto simp: update_platform_job_def Let_def split: if_splits)
  then have "pjob_row i tbl' = map_option (\<lambda>r. if pj_id r = k \<and> expects u r then apply_update now u r else r) (pjob_row i tbl)"
    by (simp add: updates.row_of_upd)
  then show ?thesis using row_of_in [of pj_id i tbl] by (auto split: option.splits)
qed

lemma update_hit:
  assumes "distinct (map pj_id tbl)" and "update_platform_job now k u tbl = Inr (hit, tbl')"
  shows "hit \<longleftrightarrow> (\<exists>r. pjob_row k tbl = Some r \<and> expects u r)"
proof -
  have hit: "hit \<longleftrightarrow> count_where (\<lambda>r. pj_id r = k \<and> expects u r) tbl = 1"
    using assms(2) by (auto simp: update_platform_job_def Let_def split: if_splits)
  show ?thesis
  proof (cases "\<exists>r. pjob_row k tbl = Some r \<and> expects u r")
    case True
    then obtain r where r: "pjob_row k tbl = Some r" "expects u r" by blast
    have "x = r" if "x \<in> set tbl" "pj_id x = k" for x using row_of_distinct [OF assms(1) that] r(1) by simp
    then have "count_where (\<lambda>r. pj_id r = k \<and> expects u r) tbl = count_where (\<lambda>x. pj_id x = pj_id r) tbl"
      using row_of_in [OF r(1)] r(2) by (intro count_where_cong) metis
    then show ?thesis using hit True count_key_one [OF assms(1)] row_of_in [OF r(1)] by auto
  next
    case False
    then have "\<not> expects u r" if "r \<in> set tbl" "pj_id r = k" for r using row_of_distinct [OF assms(1) that] by blast
    then have "count_where (\<lambda>r. pj_id r = k \<and> expects u r) tbl = 0" by (auto simp: count_where_zero)
    with hit False show ?thesis by simp
  qed
qed

lemma update_ids: "update_platform_job now k u tbl = Inr (hit, tbl') \<Longrightarrow> map pj_id tbl' = map pj_id tbl"
  by (auto simp: update_platform_job_def Let_def updates.map_key_upd split: if_splits)

lemma create_row:
  assumes "create_platform_job n tbl = Inr tbl'"
  shows "\<exists>r. tbl' = tbl @ [r] \<and> pj_id r = py_strip (np_id n) \<and> pjob_row (py_strip (np_id n)) tbl = None \<and>
    Inr (pj_state r) = parse_job_state (np_state n)"
  using assms by (auto simp: create_platform_job_def Let_def split: if_splits)

lemma row_after_recovery:
  "pjob_row i (snd (recover_platform_jobs now tbl)) =
     map_option (\<lambda>r. if is_active r then interrupt_row now r else r) (pjob_row i tbl)"
  by (simp add: recover_platform_jobs_def interrupts.row_of_upd)

lemma recovery_ids: "map pj_id (snd (recover_platform_jobs now tbl)) = map pj_id tbl"
  by (simp add: recover_platform_jobs_def interrupts.map_key_upd)

lemma no_active_after_recovery: "r \<in> set (snd (recover_platform_jobs now tbl)) \<Longrightarrow> \<not> is_active r"
  by (auto simp: recover_platform_jobs_def set_upd_where is_active_iff interrupt_row_def split: if_splits)

end
