(* ===== verification/WorkerIdentity.thy ===== *)
theory WorkerIdentity
  imports Prelude
begin

text \<open>
  Worker identities: the canonical base64url text of a public key and the identity algorithms of
  \<^verbatim>\<open>security/worker_identity.py\<close> (the decoder of \<^verbatim>\<open>enterprise/distributed_protocol.py\<close> is the same check
  under another error code). Bytes are numbers below 256. Whether the cryptography package accepts the
  raw key is the argument \<open>key_ok\<close>.
\<close>

section \<open>Base64url\<close>

definition b64_alphabet :: pystr where
  "b64_alphabet = ''ABCDEFGHIJKLMNOPQRSTUVWXYZabcdefghijklmnopqrstuvwxyz0123456789-_''"

definition b64_char :: "nat \<Rightarrow> char" where
  "b64_char n = b64_alphabet ! n"

text \<open>
  The value of a character for \<open>base64.urlsafe_b64decode\<close>, which maps \<open>-\<close> and \<open>_\<close> to \<open>+\<close> and \<open>/\<close> first, so
  that these are read too. Other characters are skipped.
\<close>

definition b64_val :: "char \<Rightarrow> nat option" where
  "b64_val c = (let n = ord_c c in
     if 65 \<le> n \<and> n \<le> 90 then Some (n - 65)
     else if 97 \<le> n \<and> n \<le> 122 then Some (n - 71)
     else if 48 \<le> n \<and> n \<le> 57 then Some (n + 4)
     else if n = 43 \<or> n = 45 then Some 62
     else if n = 47 \<or> n = 95 then Some 63
     else None)"

fun sextets :: "nat list \<Rightarrow> nat list" where
  "sextets [] = []"
| "sextets [a] = [a div 4, (a mod 4) * 16]"
| "sextets [a, b] = [a div 4, (a mod 4) * 16 + b div 16, (b mod 16) * 4]"
| "sextets (a # b # c # r) =
     [a div 4, (a mod 4) * 16 + b div 16, (b mod 16) * 4 + c div 64, c mod 64] @ sextets r"

fun unsextets :: "nat list \<Rightarrow> nat list option" where
  "unsextets [] = Some []"
| "unsextets [a] = None"
| "unsextets [a, b] = Some [(a * 4 + b div 16) mod 256]"
| "unsextets [a, b, c] = Some [(a * 4 + b div 16) mod 256, ((b mod 16) * 16 + c div 4) mod 256]"
| "unsextets (a # b # c # d # r) = map_option (\<lambda>t.
     (a * 4 + b div 16) mod 256 # ((b mod 16) * 16 + c div 4) mod 256 # ((c mod 4) * 64 + d) mod 256 # t)
     (unsextets r)"

text \<open>\<open>b64u\<close>: the encoding without padding.\<close>

definition b64u :: "nat list \<Rightarrow> pystr" where
  "b64u bs = map b64_char (sextets bs)"

text \<open>
  \<open>b64u_decode\<close>. The padding the code appends completes the last group, and every way to fail has the
  same code, so a skipped character ends in the comparison with the canonical text.
\<close>

definition b64u_decode :: "exc \<Rightarrow> nat \<Rightarrow> pystr \<Rightarrow> exc + nat list" where
  "b64u_decode err max_bytes value =
     (let text = py_strip value in
      if text = [] \<or> CHR ''='' \<in> set text \<or> max_bytes * 2 < length text then Inl err
      else (case unsextets (List.map_filter b64_val text) of
              None \<Rightarrow> Inl err
            | Some raw \<Rightarrow> if max_bytes < length raw \<or> b64u raw \<noteq> text then Inl err else Inr raw))"

section \<open>Algorithms\<close>

definition identity_fail :: "pystr \<Rightarrow> exc" where
  "identity_fail code = ArenyxaError ''ENTERPRISE_WORKER_IDENTITY'' code"

definition ED25519 :: pystr where "ED25519 = ''ED25519''"
definition ECDSA_P256_SHA256 :: pystr where "ECDSA_P256_SHA256 = ''ECDSA_P256_SHA256''"

text \<open>\<open>str.upper\<close> on the code points 0 to 255 (the micro sign and the y with diaeresis are kept).\<close>

definition upper_c :: "char \<Rightarrow> pystr" where
  "upper_c c = (let n = ord_c c in
     if (97 \<le> n \<and> n \<le> 122) \<or> (224 \<le> n \<and> n \<le> 254 \<and> n \<noteq> 247) then [char_of (n - 32)]
     else if n = 223 then ''SS'' else [c])"

definition py_upper :: "pystr \<Rightarrow> pystr" where
  "py_upper s = concat (map upper_c s)"

definition dash_to_underscore :: "pystr \<Rightarrow> pystr" where
  "dash_to_underscore s = map (\<lambda>c. if c = CHR ''-'' then CHR ''_'' else c) s"

text \<open>\<open>normalize_algorithm\<close>\<close>

definition normalize_algorithm :: "pystr \<Rightarrow> exc + pystr" where
  "normalize_algorithm value =
     (let text = dash_to_underscore (py_upper (py_strip (if value = [] then ED25519 else value)));
          text' = (if text = ''ED_25519'' then ED25519
                   else if text \<in> {''ECDSA_P256'', ''ECDSA_P_256_SHA256'', ''P256''} then ECDSA_P256_SHA256
                   else text)
      in if text' \<in> {ED25519, ECDSA_P256_SHA256} then Inr text'
         else Inl (identity_fail ''WORKER_IDENTITY_ALGORITHM_UNSUPPORTED''))"

text \<open>\<open>validate_public_key\<close>\<close>

definition validate_public_key :: "(pystr \<Rightarrow> nat list \<Rightarrow> bool) \<Rightarrow> pystr \<Rightarrow> pystr \<Rightarrow> exc + nat list" where
  "validate_public_key key_ok algorithm key =
     ebind (normalize_algorithm algorithm) (\<lambda>normalized.
     ebind (b64u_decode (identity_fail ''WORKER_IDENTITY_ENCODING_INVALID'') 256 key) (\<lambda>raw.
     if normalized = ED25519 then
       (if length raw \<noteq> 32 then Inl (identity_fail ''WORKER_IDENTITY_PUBLIC_KEY_INVALID'')
        else if key_ok normalized raw then Inr raw else Inl ValueError)
     else if length raw \<noteq> 65 \<or> hd raw \<noteq> 4 then Inl (identity_fail ''WORKER_IDENTITY_PUBLIC_KEY_INVALID'')
     else if key_ok normalized raw then Inr raw
     else Inl (identity_fail ''WORKER_IDENTITY_PUBLIC_KEY_INVALID'')))"

section \<open>Facts\<close>

lemma length_b64_alphabet: "length b64_alphabet = 64"
  by (simp add: b64_alphabet_def)

lemma b64_table: "map b64_val b64_alphabet = map Some [0..<64]"
  by (simp add: b64_alphabet_def b64_val_def ord_c_def upt_conv_Cons)

lemma b64_val_char: "n < 64 \<Longrightarrow> b64_val (b64_char n) = Some n"
  using arg_cong [OF b64_table, of "\<lambda>xs. xs ! n"] by (simp add: b64_char_def length_b64_alphabet)

lemma b64_table_plain: "list_all (\<lambda>c. c \<noteq> CHR ''='' \<and> \<not> py_isspace c) b64_alphabet"
  by (simp add: b64_alphabet_def py_isspace_def ord_c_def)

lemma b64_char_plain: "n < 64 \<Longrightarrow> b64_char n \<noteq> CHR ''='' \<and> \<not> py_isspace (b64_char n)"
  using b64_table_plain by (simp add: list_all_length b64_char_def length_b64_alphabet)

lemma sextets_bound: "\<forall>b \<in> set bs. b < 256 \<Longrightarrow> n \<in> set (sextets bs) \<Longrightarrow> n < 64"
  by (induction bs rule: sextets.induct) auto

lemma byte_split1:
  assumes "a < 256" and "b < 256"
  shows "(a div 4 * 4 + ((a mod 4) * 16 + b div 16) div 16) mod 256 = (a :: nat)"
proof -
  have "b div 16 < 16" using assms by auto
  then have "((a mod 4) * 16 + b div 16) div 16 = a mod 4" by simp
  with assms show ?thesis by simp
qed

lemma byte_split2:
  assumes "b < 256" and "c < 256"
  shows "(((a mod 4) * 16 + b div 16) mod 16 * 16 + ((b mod 16) * 4 + c div 64) div 4) mod 256 = (b :: nat)"
proof -
  have "b div 16 < 16" and "c div 64 < 4" using assms by auto
  then have "((a mod 4) * 16 + b div 16) mod 16 = b div 16" and "((b mod 16) * 4 + c div 64) div 4 = b mod 16"
    by simp_all
  with assms show ?thesis by simp
qed

lemma byte_split3:
  assumes "c < 256"
  shows "(((b mod 16) * 4 + c div 64) mod 4 * 64 + c mod 64) mod 256 = (c :: nat)"
proof -
  have "c div 64 < 4" using assms by auto
  then have "((b mod 16) * 4 + c div 64) mod 4 = c div 64" by simp
  with assms show ?thesis by simp
qed

lemma unsextets_sextets: "\<forall>b \<in> set bs. b < 256 \<Longrightarrow> unsextets (sextets bs) = Some bs"
proof (induction bs rule: sextets.induct)
  case (2 a)
  then show ?case using byte_split1 [of a 0] by simp
next
  case (3 a b)
  then show ?case using byte_split1 [of a b] byte_split2 [of b 0 a] by simp
next
  case (4 a b c r)
  then have "a < 256" "b < 256" "c < 256" and r: "unsextets (sextets r) = Some r" by simp_all
  note e = byte_split1 [OF this(1,2)] byte_split2 [OF this(2,3)] byte_split3 [OF this(3)]
  show ?case by (simp only: sextets.simps append.simps unsextets.simps r option.map e)
qed simp

lemma map_filter_b64: "\<forall>n \<in> set ns. n < 64 \<Longrightarrow> List.map_filter b64_val (map b64_char ns) = ns"
  by (induction ns) (auto simp: b64_val_char List.map_filter_def)

lemma length_sextets: "length (sextets bs) = (4 * length bs + 2) div 3"
  by (induction bs rule: sextets.induct) auto

lemma b64u_no_space: "\<forall>b \<in> set bs. b < 256 \<Longrightarrow> c \<in> set (b64u bs) \<Longrightarrow> \<not> py_isspace c \<and> c \<noteq> CHR ''=''"
  by (auto simp: b64u_def dest!: sextets_bound b64_char_plain)

lemma b64u_roundtrip:
  assumes "\<forall>b \<in> set bs. b < 256" and "bs \<noteq> []" and "length bs \<le> max_bytes"
  shows "b64u_decode err max_bytes (b64u bs) = Inr bs"
proof -
  have strip: "py_strip (b64u bs) = b64u bs"
    using b64u_no_space [OF assms(1)] by (intro strip_id) blast
  have "CHR ''='' \<notin> set (b64u bs)" using b64u_no_space [OF assms(1)] by blast
  moreover have "length (b64u bs) = (4 * length bs + 2) div 3" by (simp add: b64u_def length_sextets)
  moreover have "(4 * length bs + 2) div 3 \<le> max_bytes * 2" using assms(2,3) by (cases bs) auto
  moreover have "(4 * length bs + 2) div 3 \<noteq> 0" using assms(2) by (cases bs) auto
  moreover have "unsextets (List.map_filter b64_val (b64u bs)) = Some bs"
    using sextets_bound [OF assms(1)] by (simp add: b64u_def map_filter_b64 unsextets_sextets assms(1))
  ultimately show ?thesis
    using assms(3) by (auto simp: b64u_decode_def Let_def strip)
qed

lemma b64u_decode_canonical: "b64u_decode err n v = Inr bs \<Longrightarrow> b64u bs = py_strip v \<and> length bs \<le> n"
  by (auto simp: b64u_decode_def Let_def split: if_splits option.splits)

lemma normalize_algorithm_range: "normalize_algorithm v = Inr a \<Longrightarrow> a = ED25519 \<or> a = ECDSA_P256_SHA256"
  by (auto simp: normalize_algorithm_def Let_def split: if_splits)

definition upper_plain :: "char \<Rightarrow> bool" where
  "upper_plain c \<longleftrightarrow> upper_c c = [c] \<and> \<not> py_isspace c \<and> c \<noteq> CHR ''-''"

lemma upper_plain_id:
  assumes "list_all upper_plain s" shows "dash_to_underscore (py_upper (py_strip s)) = s"
proof -
  have "py_strip s = s" using assms by (intro strip_id) (auto simp: list_all_iff upper_plain_def)
  moreover have "py_upper s = s" using assms by (induction s) (auto simp: py_upper_def upper_plain_def)
  moreover have "dash_to_underscore s = s"
    using assms by (induction s) (auto simp: dash_to_underscore_def upper_plain_def)
  ultimately show ?thesis by simp
qed

lemma algorithms_plain: "list_all upper_plain ED25519" "list_all upper_plain ECDSA_P256_SHA256"
  by (simp_all add: ED25519_def ECDSA_P256_SHA256_def upper_plain_def upper_c_def py_isspace_def ord_c_def)

lemma normalize_algorithm_idem: "normalize_algorithm v = Inr a \<Longrightarrow> normalize_algorithm a = Inr a"
proof (drule normalize_algorithm_range, elim disjE)
  assume a: "a = ED25519"
  have "normalize_algorithm ED25519 = Inr ED25519"
    unfolding normalize_algorithm_def Let_def if_cancel upper_plain_id [OF algorithms_plain(1)]
    by (simp add: ED25519_def)
  with a show ?thesis by simp
next
  assume a: "a = ECDSA_P256_SHA256"
  have "normalize_algorithm ECDSA_P256_SHA256 = Inr ECDSA_P256_SHA256"
    unfolding normalize_algorithm_def Let_def if_not_P [OF list.distinct(2)]
    using upper_plain_id [OF algorithms_plain(2)] by (simp add: ECDSA_P256_SHA256_def ED25519_def)
  with a show ?thesis by simp
qed

lemma validate_public_key_length:
  "validate_public_key ok a k = Inr raw \<Longrightarrow> length raw = 32 \<or> length raw = 65"
  by (auto simp: validate_public_key_def split: if_splits)

end
