(* ===== verification/JobSystem.thy ===== *)
theory JobSystem
  imports PlatformJobs WorkerIdentity
begin

text \<open>
  The executor of platform jobs (\<^verbatim>\<open>application/job_system.py\<close>) with all its threads: the submitting threads, the workers of
  the thread pool, the callbacks that retire a job, the callers of \<open>cancel\<close> and of \<open>shutdown\<close>. A step is a section the
  code runs under one lock, one transaction of the store or one call on the future; any thread may take the next
  one. Where a call may fail (the store, the pool) the event says whether it did. Telemetry and the audit of a
  finished job decide nothing here: an audit that raises makes the outcome a failure, which the event of the outcome says.
\<close>

section \<open>Submissions\<close>

record platform_request =
  jr_kind :: pystr
  jr_surface :: pystr
  jr_timeout :: rat
  jr_workload :: pystr

definition job_fail :: "pystr \<Rightarrow> exc" where
  "job_fail code = ArenyxaError ''JOB'' code"

definition normalize_submission :: "platform_request \<Rightarrow> exc + pystr \<times> pystr \<times> rat \<times> pystr" where
  "normalize_submission q =
     (let kind = py_casefold (py_strip (jr_kind q)); surface = py_casefold (py_strip (jr_surface q)) in
      if kind = [] \<or> 128 < length kind then Inl ValueError
      else if surface = [] \<or> 64 < length surface then Inl ValueError
      else if jr_timeout q \<le> 0 \<or> 24 * 60 * 60 < jr_timeout q then Inl ValueError
      else let workload = py_casefold (py_strip (if jr_workload q = [] then ''standard'' else jr_workload q)) in
        if workload \<notin> {''standard'', ''heavy'', ''write'', ''diagnostics''} then Inl ValueError
        else Inr (kind, surface, jr_timeout q, workload))"

text \<open>What the survivability provider answers: there is none, it raised, or it gave a dictionary.\<close>

datatype admission = NoProvider | ProviderRaised | Admission "(pystr \<times> bool) list"

definition admits :: "(pystr \<times> bool) list \<Rightarrow> pystr \<Rightarrow> bool" where
  "admits d k = (case map_of d k of None \<Rightarrow> True | Some b \<Rightarrow> b)"

definition check_admission :: "admission \<Rightarrow> pystr \<Rightarrow> exc + unit" where
  "check_admission prov workload = (case prov of
     NoProvider \<Rightarrow> Inr ()
   | ProviderRaised \<Rightarrow> Inl (job_fail ''JOB_ADMISSION_UNKNOWN'')
   | Admission d \<Rightarrow>
       if workload = ''heavy'' \<and> \<not> admits d ''new_heavy_jobs'' then Inl (job_fail ''JOB_ADMISSION_DEGRADED'')
       else if workload = ''write'' \<and> \<not> admits d ''noncritical_writes'' then Inl (job_fail ''JOB_READ_ONLY'')
       else Inr ())"

text \<open>The checks before a slot is taken; \<open>auth\<close> is the outcome of the kernel's \<open>require\<close>.\<close>

definition submission_checks :: "platform_request \<Rightarrow> exc + unit \<Rightarrow> admission \<Rightarrow> exc + pystr \<times> pystr \<times> rat" where
  "submission_checks q auth prov =
     ebind (normalize_submission q) (\<lambda>(kind, surface, timeout, workload).
     ebind auth (\<lambda>_. ebind (check_admission prov workload) (\<lambda>_. Inr (kind, surface, timeout))))"

definition submitted_row :: "pystr \<Rightarrow> pystr \<times> pystr \<times> rat \<Rightarrow> pystr \<Rightarrow> pystr \<Rightarrow> pystr \<Rightarrow> new_pjob" where
  "submitted_row k wanted actor correlation now =
     (let (kind, surface, timeout) = wanted in
      \<lparr>np_id = k, np_kind = kind, np_surface = surface, np_state = ''queued'', np_progress = 0, np_message = ''Queued'',
       np_actor = actor, np_correlation = correlation, np_timeout = timeout, np_created = now\<rparr>)"

section \<open>State\<close>

text \<open>
  Where a submitting thread is: counted, holding a slot, with its row stored, unwinding with an exception (the flag says
  whether its row still has to be marked), past the handoff, or on its way out.
\<close>

datatype submission = Entered | Holding "pystr \<times> pystr \<times> rat" | Stored | Failing bool exc | Owned | Leaving

text \<open>A future ends with what its function raised, as the name of the type and the text, or with nothing.\<close>

datatype future = Waiting | Active | CancelledF | Finished "(pystr \<times> pystr) option"

datatype run_phase = Starting | Body | Deciding pjob_update | Writing

datatype retire_phase = Begun | Written | Released | Unwritten

record job_system =
  js_table :: "pjob list"
  js_capacity :: nat
  js_free :: nat
  js_accepting :: bool
  js_pending :: nat
  js_subs :: "pystr \<rightharpoonup> submission"
  js_futures :: "pystr \<rightharpoonup> future"
  js_runs :: "pystr \<rightharpoonup> run_phase"
  js_cancelled :: "pystr \<Rightarrow> bool"
  js_retiring :: "pystr \<rightharpoonup> retire_phase"
  js_failed :: "pystr list"
  js_intents :: "pystr \<rightharpoonup> pjob_update"
  js_persisted :: "pystr set"
  js_started :: bool
  js_cancelling :: bool
  js_shutdown_failed :: bool

definition new_job_system :: "int \<Rightarrow> int \<Rightarrow> pystr \<Rightarrow> pjob list \<Rightarrow> job_system" where
  "new_job_system max_workers queue_capacity now tbl =
     (let cap = nat (max 1 (min 32 max_workers)) + nat (max 1 (min 10000 queue_capacity)) in
      \<lparr>js_table = snd (recover_platform_jobs now tbl), js_capacity = cap, js_free = cap, js_accepting = True, js_pending = 0,
       js_subs = Map.empty, js_futures = Map.empty, js_runs = Map.empty, js_cancelled = (\<lambda>k. False), js_retiring = Map.empty,
       js_failed = [], js_intents = Map.empty, js_persisted = {}, js_started = False, js_cancelling = False,
       js_shutdown_failed = False\<rparr>)"

section \<open>What is written at the end of a job\<close>

datatype job_outcome = Returned json | RaisedCancelled pystr | RaisedTimeout pystr | RaisedError pystr pystr

definition failure_update :: "pjob_state \<Rightarrow> pystr \<Rightarrow> pystr \<Rightarrow> pystr \<Rightarrow> pjob_update" where
  "failure_update st code message now = \<lparr>pu_state = Some st, pu_progress = Some 1, pu_message = Some message,
     pu_result = None, pu_error_code = Some code, pu_error_message = Some message, pu_started = None,
     pu_finished = Some now, pu_expected = [PQueued, PRunning, st]\<rparr>"

definition success_update :: "json \<Rightarrow> pystr \<Rightarrow> pjob_update" where
  "success_update v now = \<lparr>pu_state = Some PSucceeded, pu_progress = Some 1, pu_message = Some ''Completed'',
     pu_result = Some v, pu_error_code = Some [], pu_error_message = Some [], pu_started = None,
     pu_finished = Some now, pu_expected = [PRunning, PSucceeded]\<rparr>"

fun outcome_update :: "job_outcome \<Rightarrow> pystr \<Rightarrow> pjob_update" where
  "outcome_update (Returned v) now = success_update v now"
| "outcome_update (RaisedCancelled m) now = failure_update PCancelled ''JOB_CANCELLED'' m now"
| "outcome_update (RaisedTimeout m) now = failure_update PTimedOut ''JOB_TIMEOUT'' m now"
| "outcome_update (RaisedError name m) now = failure_update PFailed (take 128 (py_upper name)) m now"

text \<open>The outcome \<open>_retire\<close> writes for a future that ended without one.\<close>

definition orphan_update :: "future \<Rightarrow> pystr \<Rightarrow> pjob_update" where
  "orphan_update f now = (case f of
     Finished (Some (name, m)) \<Rightarrow> failure_update PFailed (py_upper name) m now
   | Finished None \<Rightarrow> failure_update PFailed ''NONETYPE'' ''Missing terminal job outcome'' now
   | _ \<Rightarrow> failure_update PCancelled ''JOB_CANCELLED'' ''Cancelled before execution'' now)"

definition rejected_update :: "exc \<Rightarrow> pystr \<Rightarrow> pystr \<Rightarrow> pjob_update" where
  "rejected_update x m now =
     (let stopping = (case x of ArenyxaError _ c \<Rightarrow> c = ''JOB_SYSTEM_STOPPING'' | _ \<Rightarrow> False) in
      \<lparr>pu_state = Some (if stopping then PCancelled else PFailed), pu_progress = Some 1,
       pu_message = Some ''Rejected before execution'', pu_result = None,
       pu_error_code = Some (if stopping then ''JOB_SYSTEM_STOPPING'' else ''JOB_SUBMIT_FAILED''),
       pu_error_message = Some m, pu_started = None, pu_finished = Some now, pu_expected = [PQueued]\<rparr>)"

definition start_update :: "bool \<Rightarrow> pystr \<Rightarrow> pjob_update" where
  "start_update cancelled now = \<lparr>pu_state = Some PRunning, pu_progress = Some 0,
     pu_message = Some (if cancelled then ''Cancellation requested'' else ''Running''), pu_result = None, pu_error_code = None,
     pu_error_message = None, pu_started = Some now, pu_finished = None, pu_expected = [PQueued]\<rparr>"

definition note_update :: "rat option \<Rightarrow> pystr \<Rightarrow> pjob_state list \<Rightarrow> pjob_update" where
  "note_update p m expected = \<lparr>pu_state = None, pu_progress = p, pu_message = Some m, pu_result = None, pu_error_code = None,
     pu_error_message = None, pu_started = None, pu_finished = None, pu_expected = expected\<rparr>"

text \<open>A write to the store: whether it raised or was rejected, and the rows after it.\<close>

definition store_write :: "bool \<Rightarrow> pystr \<Rightarrow> pystr \<Rightarrow> pjob_update \<Rightarrow> pjob list \<Rightarrow> bool \<times> pjob list" where
  "store_write db now k u tbl =
     (if \<not> db then (False, tbl)
      else (case update_platform_job now k u tbl of Inl _ \<Rightarrow> (False, tbl) | Inr (hit, tbl') \<Rightarrow> (hit, tbl')))"

section \<open>Submitting\<close>

text \<open>The identifier of the job, drawn by \<open>new_id\<close> later on, names the submission from its start: it is fresh and has no
  space around it.\<close>

definition enter_submission :: "pystr \<Rightarrow> job_system \<Rightarrow> job_system option" where
  "enter_submission k s =
     (if js_accepting s \<and> js_subs s k = None \<and> js_futures s k = None \<and> pjob_row k (js_table s) = None \<and> py_strip k = k
      then Some (s\<lparr>js_pending := js_pending s + 1, js_subs := (js_subs s)(k \<mapsto> Entered)\<rparr>)
      else None)"

text \<open>The end of \<open>submit\<close>: by an exception before a slot was taken, after the handoff, or after the clean-up.\<close>

definition leave_submission :: "pystr \<Rightarrow> job_system \<Rightarrow> job_system option" where
  "leave_submission k s = (case js_subs s k of
     Some Entered \<Rightarrow> Some (s\<lparr>js_pending := js_pending s - 1, js_subs := (js_subs s)(k := None)\<rparr>)
   | Some Owned \<Rightarrow> Some (s\<lparr>js_pending := js_pending s - 1, js_subs := (js_subs s)(k := None)\<rparr>)
   | Some Leaving \<Rightarrow> Some (s\<lparr>js_pending := js_pending s - 1, js_subs := (js_subs s)(k := None)\<rparr>)
   | _ \<Rightarrow> None)"

definition acquire_slot :: "pystr \<Rightarrow> platform_request \<Rightarrow> exc + unit \<Rightarrow> admission \<Rightarrow> job_system \<Rightarrow> job_system option" where
  "acquire_slot k q auth prov s = (case (js_subs s k, submission_checks q auth prov) of
     (Some Entered, Inr wanted) \<Rightarrow>
       if js_accepting s \<and> 0 < js_free s
       then Some (s\<lparr>js_free := js_free s - 1, js_subs := (js_subs s)(k \<mapsto> Holding wanted)\<rparr>) else None
   | _ \<Rightarrow> None)"

definition create_row :: "pystr \<Rightarrow> bool \<Rightarrow> pystr \<Rightarrow> pystr \<Rightarrow> pystr \<Rightarrow> job_system \<Rightarrow> job_system option" where
  "create_row k db actor correlation now s = (case js_subs s k of
     Some (Holding wanted) \<Rightarrow>
       (case (if db then create_platform_job (submitted_row k wanted actor correlation now) (js_table s)
              else Inl OperationalError) of
          Inl x \<Rightarrow> Some (s\<lparr>js_subs := (js_subs s)(k \<mapsto> Failing False x)\<rparr>)
        | Inr tbl \<Rightarrow> Some (s\<lparr>js_table := tbl, js_subs := (js_subs s)(k \<mapsto> Stored)\<rparr>))
   | _ \<Rightarrow> None)"

definition hand_off :: "pystr \<Rightarrow> bool \<Rightarrow> job_system \<Rightarrow> job_system option" where
  "hand_off k pool_ok s = (case js_subs s k of
     Some Stored \<Rightarrow>
       if \<not> js_accepting s
       then Some (s\<lparr>js_subs := (js_subs s)(k \<mapsto> Failing True (job_fail ''JOB_SYSTEM_STOPPING''))\<rparr>)
       else if \<not> pool_ok then Some (s\<lparr>js_subs := (js_subs s)(k \<mapsto> Failing True RuntimeError)\<rparr>)
       else Some (s\<lparr>js_futures := (js_futures s)(k \<mapsto> Waiting), js_subs := (js_subs s)(k \<mapsto> Owned)\<rparr>)
   | _ \<Rightarrow> None)"

text \<open>The clean-up marks the row, whatever comes of that, and gives the slot back.\<close>

definition reject_row :: "pystr \<Rightarrow> bool \<Rightarrow> pystr \<Rightarrow> pystr \<Rightarrow> job_system \<Rightarrow> job_system option" where
  "reject_row k db m now s = (case js_subs s k of
     Some (Failing True x) \<Rightarrow> Some (s\<lparr>js_table := snd (store_write db now k (rejected_update x m now) (js_table s)),
       js_subs := (js_subs s)(k \<mapsto> Failing False x)\<rparr>)
   | _ \<Rightarrow> None)"

definition release_slot_of :: "pystr \<Rightarrow> job_system \<Rightarrow> job_system option" where
  "release_slot_of k s = (case js_subs s k of
     Some (Failing False x) \<Rightarrow> Some (s\<lparr>js_free := js_free s + 1, js_subs := (js_subs s)(k \<mapsto> Leaving)\<rparr>)
   | _ \<Rightarrow> None)"

section \<open>Running\<close>

definition pick_job :: "pystr \<Rightarrow> job_system \<Rightarrow> job_system option" where
  "pick_job k s = (if js_futures s k = Some Waiting
     then Some (s\<lparr>js_futures := (js_futures s)(k \<mapsto> Active), js_runs := (js_runs s)(k \<mapsto> Starting)\<rparr>) else None)"

definition end_run :: "pystr \<Rightarrow> (pystr \<times> pystr) option \<Rightarrow> job_system \<Rightarrow> job_system" where
  "end_run k e s = s\<lparr>js_runs := (js_runs s)(k := None), js_futures := (js_futures s)(k \<mapsto> Finished e)\<rparr>"

definition start_run :: "pystr \<Rightarrow> bool \<Rightarrow> pystr \<Rightarrow> job_system \<Rightarrow> job_system option" where
  "start_run k db now s =
     (if js_runs s k \<noteq> Some Starting then None
      else if \<not> db then Some (end_run k (Some (''OperationalError'', [])) s)
      else Some (s\<lparr>js_table := snd (store_write True now k (start_update (js_cancelled s k) now) (js_table s)),
        js_runs := (js_runs s)(k \<mapsto> Body)\<rparr>))"

definition report_progress :: "pystr \<Rightarrow> bool \<Rightarrow> pystr \<Rightarrow> rat \<Rightarrow> pystr \<Rightarrow> job_system \<Rightarrow> job_system option" where
  "report_progress k db now p m s =
     (if js_runs s k \<noteq> Some Body then None
      else if js_cancelled s k then Some s
      else Some (s\<lparr>js_table := snd (store_write db now k (note_update (Some (max 0 (min 1 p))) m [PRunning]) (js_table s))\<rparr>))"

text \<open>The operation ends. It cannot return its result once the cancellation is set: \<open>check_cancelled\<close> comes after it.\<close>

definition decide_outcome :: "pystr \<Rightarrow> job_outcome \<Rightarrow> pystr \<Rightarrow> job_system \<Rightarrow> job_system option" where
  "decide_outcome k out now s =
     (if js_runs s k \<noteq> Some Body \<or> (case out of Returned _ \<Rightarrow> js_cancelled s k | _ \<Rightarrow> False) then None
      else Some (s\<lparr>js_runs := (js_runs s)(k \<mapsto> Deciding (outcome_update out now))\<rparr>))"

text \<open>The operation raises what \<open>_run\<close> does not catch (an interrupt of the process).\<close>

definition abort_run :: "pystr \<Rightarrow> pystr \<Rightarrow> pystr \<Rightarrow> job_system \<Rightarrow> job_system option" where
  "abort_run k name m s = (if js_runs s k = Some Body then Some (end_run k (Some (name, m)) s) else None)"

definition set_intent :: "pystr \<Rightarrow> job_system \<Rightarrow> job_system option" where
  "set_intent k s = (case js_runs s k of
     Some (Deciding u) \<Rightarrow> Some (s\<lparr>js_intents := (js_intents s)(k \<mapsto> u), js_runs := (js_runs s)(k \<mapsto> Writing)\<rparr>)
   | _ \<Rightarrow> None)"

definition persist_terminal :: "pystr \<Rightarrow> pjob_update \<Rightarrow> bool \<Rightarrow> pystr \<Rightarrow> job_system \<Rightarrow> bool \<times> job_system" where
  "persist_terminal k u db now s =
     (let w = store_write db now k u (js_table s) in
      (fst w, s\<lparr>js_table := snd w, js_persisted := (if fst w then insert k (js_persisted s) else js_persisted s)\<rparr>))"

definition write_outcome :: "pystr \<Rightarrow> bool \<Rightarrow> pystr \<Rightarrow> job_system \<Rightarrow> job_system option" where
  "write_outcome k db now s = (case (js_runs s k, js_intents s k) of
     (Some Writing, Some u) \<Rightarrow>
       (let w = persist_terminal k u db now s
        in Some (end_run k (if fst w then None else Some (''RuntimeError'', [])) (snd w)))
   | _ \<Rightarrow> None)"

section \<open>Retiring\<close>

definition is_ended :: "future option \<Rightarrow> bool" where
  "is_ended f = (case f of Some CancelledF \<Rightarrow> True | Some (Finished _) \<Rightarrow> True | _ \<Rightarrow> False)"

definition retire_begin :: "pystr \<Rightarrow> job_system \<Rightarrow> job_system option" where
  "retire_begin k s = (if is_ended (js_futures s k) \<and> js_retiring s k = None
     then Some (s\<lparr>js_retiring := (js_retiring s)(k \<mapsto> Begun), js_failed := removeAll k (js_failed s)\<rparr>) else None)"

definition retire_write :: "pystr \<Rightarrow> bool \<Rightarrow> pystr \<Rightarrow> job_system \<Rightarrow> job_system option" where
  "retire_write k db now s = (case (js_retiring s k, js_futures s k) of
     (Some Begun, Some f) \<Rightarrow>
       if k \<in> js_persisted s then Some (s\<lparr>js_retiring := (js_retiring s)(k \<mapsto> Written)\<rparr>)
       else
         let u = (case js_intents s k of Some u \<Rightarrow> u | None \<Rightarrow> orphan_update f now);
             w = persist_terminal k u db now (s\<lparr>js_intents := (js_intents s)(k \<mapsto> u)\<rparr>)
         in Some ((snd w)\<lparr>js_retiring := (js_retiring s)(k \<mapsto> if fst w then Written else Unwritten)\<rparr>)
   | _ \<Rightarrow> None)"

definition retire_release :: "pystr \<Rightarrow> job_system \<Rightarrow> job_system option" where
  "retire_release k s = (if js_retiring s k = Some Written
     then Some (s\<lparr>js_free := js_free s + 1, js_retiring := (js_retiring s)(k \<mapsto> Released)\<rparr>) else None)"

definition retire_end :: "pystr \<Rightarrow> job_system \<Rightarrow> job_system option" where
  "retire_end k s = (case js_retiring s k of
     Some Released \<Rightarrow> Some (s\<lparr>js_retiring := (js_retiring s)(k := None), js_futures := (js_futures s)(k := None),
       js_cancelled := (js_cancelled s)(k := False), js_intents := (js_intents s)(k := None),
       js_persisted := js_persisted s - {k}\<rparr>)
   | Some Unwritten \<Rightarrow> Some (s\<lparr>js_retiring := (js_retiring s)(k := None), js_failed := List.insert k (js_failed s),
       js_started := False, js_shutdown_failed := True\<rparr>)
   | _ \<Rightarrow> None)"

section \<open>Cancelling and stopping\<close>

definition set_cancelled :: "pystr \<Rightarrow> job_system \<Rightarrow> job_system option" where
  "set_cancelled k s = (if js_futures s k \<noteq> None then Some (s\<lparr>js_cancelled := (js_cancelled s)(k := True)\<rparr>) else None)"

definition cancel_future :: "pystr \<Rightarrow> job_system \<Rightarrow> job_system option" where
  "cancel_future k s = Some (if js_futures s k = Some Waiting then s\<lparr>js_futures := (js_futures s)(k \<mapsto> CancelledF)\<rparr> else s)"

definition cancel_note :: "pystr \<Rightarrow> bool \<Rightarrow> pystr \<Rightarrow> job_system \<Rightarrow> job_system option" where
  "cancel_note k db now s = Some (s\<lparr>js_table := snd (store_write db now k
     (note_update None ''Cancellation requested'' active_states) (js_table s))\<rparr>)"

definition begin_shutdown :: "job_system \<Rightarrow> job_system" where
  "begin_shutdown s =
     (let s1 = s\<lparr>js_accepting := False\<rparr> in
      if js_cancelling s \<or> (js_started s \<and> js_failed s = []) then s1
      else s1\<lparr>js_started := True, js_shutdown_failed := False, js_cancelling := True,
        js_cancelled := (\<lambda>k. js_cancelled s k \<or> js_futures s k \<noteq> None)\<rparr>)"

definition end_shutdown :: "bool \<Rightarrow> job_system \<Rightarrow> job_system option" where
  "end_shutdown cleanup_ok s =
     (if \<not> js_cancelling s then None
      else let failed = (\<not> cleanup_ok \<or> js_failed s \<noteq> []) in
        Some (s\<lparr>js_shutdown_failed := failed, js_started := \<not> failed, js_cancelling := False\<rparr>))"

text \<open>What \<open>drain\<close> answers when its wait is over.\<close>

definition drained :: "bool \<Rightarrow> job_system \<Rightarrow> bool" where
  "drained include_submissions s \<longleftrightarrow> js_futures s = Map.empty \<and> \<not> js_cancelling s \<and>
     (include_submissions \<longrightarrow> js_pending s = 0) \<and> \<not> js_shutdown_failed s"

section \<open>All the threads\<close>

datatype job_event =
    EEnter pystr | ELeave pystr | EAcquire pystr platform_request "exc + unit" admission
  | ECreate pystr bool pystr pystr pystr | EHandOff pystr bool | EReject pystr bool pystr pystr | ERelease pystr
  | EPick pystr | EStart pystr bool pystr | EProgress pystr bool pystr rat pystr | EDecide pystr job_outcome pystr
  | EAbort pystr pystr pystr | EIntent pystr | EWrite pystr bool pystr
  | ERetireBegin pystr | ERetireWrite pystr bool pystr | ERetireRelease pystr | ERetireEnd pystr
  | ECancel pystr | ECancelFuture pystr | ECancelNote pystr bool pystr
  | EShutdown | EShutdownEnd bool

fun job_step :: "job_event \<Rightarrow> job_system \<Rightarrow> job_system option" where
  "job_step (EEnter k) s = enter_submission k s"
| "job_step (ELeave k) s = leave_submission k s"
| "job_step (EAcquire k q auth prov) s = acquire_slot k q auth prov s"
| "job_step (ECreate k db actor correlation now) s = create_row k db actor correlation now s"
| "job_step (EHandOff k pool_ok) s = hand_off k pool_ok s"
| "job_step (EReject k db m now) s = reject_row k db m now s"
| "job_step (ERelease k) s = release_slot_of k s"
| "job_step (EPick k) s = pick_job k s"
| "job_step (EStart k db now) s = start_run k db now s"
| "job_step (EProgress k db now p m) s = report_progress k db now p m s"
| "job_step (EDecide k out now) s = decide_outcome k out now s"
| "job_step (EAbort k name m) s = abort_run k name m s"
| "job_step (EIntent k) s = set_intent k s"
| "job_step (EWrite k db now) s = write_outcome k db now s"
| "job_step (ERetireBegin k) s = retire_begin k s"
| "job_step (ERetireWrite k db now) s = retire_write k db now s"
| "job_step (ERetireRelease k) s = retire_release k s"
| "job_step (ERetireEnd k) s = retire_end k s"
| "job_step (ECancel k) s = set_cancelled k s"
| "job_step (ECancelFuture k) s = cancel_future k s"
| "job_step (ECancelNote k db now) s = cancel_note k db now s"
| "job_step EShutdown s = Some (begin_shutdown s)"
| "job_step (EShutdownEnd cleanup_ok) s = end_shutdown cleanup_ok s"

text \<open>A process runs from its start to any point; the next one starts on the rows it left.\<close>

inductive job_reach :: "job_system \<Rightarrow> bool" where
  job_first: "distinct (map pj_id tbl) \<Longrightarrow> job_reach (new_job_system w q now tbl)"
| job_next: "job_reach s \<Longrightarrow> job_step e s = Some s' \<Longrightarrow> job_reach s'"
| job_restart: "job_reach s \<Longrightarrow> job_reach (new_job_system w q now (js_table s))"

end
