(* ===== verification/JobInvariant.thy ===== *)
theory JobInvariant
  imports JobSystem
begin

text \<open>
  The invariant of the job executor. What the registries and the store say of one job is its view; a step changes the
  view of one job only, so the invariant is a predicate on one view and an account of the slots.
\<close>

section \<open>Writes to the store\<close>

definition fits :: "pjob_update \<Rightarrow> bool" where
  "fits u \<longleftrightarrow> (case pu_result u of None \<Rightarrow> True | Some v \<Rightarrow> \<not> oversized v)"

lemma update_misfit: "\<not> fits u \<Longrightarrow> update_platform_job now k u tbl = Inl ValueError"
  by (simp add: update_platform_job_def fits_def split: option.splits)

lemma update_fits: "fits u \<Longrightarrow> \<exists>hit tbl'. update_platform_job now k u tbl = Inr (hit, tbl')"
  by (auto simp: update_platform_job_def fits_def Let_def split: option.splits)

lemma row_after_write:
  "pjob_row i (snd (store_write db now k u tbl)) = (case pjob_row i tbl of None \<Rightarrow> None
     | Some r \<Rightarrow> Some (if i = k \<and> db \<and> fits u \<and> expects u r then apply_update now u r else r))"
proof (cases "db \<and> fits u")
  case True
  then obtain hit tbl' where u: "update_platform_job now k u tbl = Inr (hit, tbl')"
    using update_fits [of u now k tbl] by auto
  then have "snd (store_write db now k u tbl) = tbl'" using True by (simp add: store_write_def)
  then show ?thesis using row_after_update [OF u, of i] True by (auto split: option.splits)
next
  case False
  then have "snd (store_write db now k u tbl) = tbl"
    by (auto simp: store_write_def update_misfit)
  with False show ?thesis by (auto split: option.splits)
qed

lemma write_succeeds:
  assumes "distinct (map pj_id tbl)"
  shows "fst (store_write db now k u tbl) \<longleftrightarrow> db \<and> fits u \<and> (\<exists>r. pjob_row k tbl = Some r \<and> expects u r)"
proof (cases "db \<and> fits u")
  case True
  then obtain hit tbl' where u: "update_platform_job now k u tbl = Inr (hit, tbl')"
    using update_fits [of u now k tbl] by auto
  then have "fst (store_write db now k u tbl) = hit" using True by (simp add: store_write_def)
  then show ?thesis using update_hit [OF assms u] True by simp
next
  case False
  then show ?thesis by (auto simp: store_write_def update_misfit)
qed

lemma ids_after_write: "map pj_id (snd (store_write db now k u tbl)) = map pj_id tbl"
  by (auto simp: store_write_def dest: update_ids split: sum.splits)

lemma note_fits: "fits (note_update p m ex)" "fits (start_update c now)" "fits (rejected_update x m now)"
    "fits (failure_update st cd m now)" "fits (orphan_update f now)"
  by (simp_all add: fits_def note_update_def start_update_def rejected_update_def failure_update_def orphan_update_def Let_def
      split: future.split option.split prod.split)

section \<open>Views\<close>

record job_view =
  v_sub :: "submission option"
  v_fut :: "future option"
  v_run :: "run_phase option"
  v_ret :: "retire_phase option"
  v_intent :: "pjob_update option"
  v_pers :: bool
  v_row :: "pjob option"

definition view :: "pystr \<Rightarrow> job_system \<Rightarrow> job_view" where
  "view k s = \<lparr>v_sub = js_subs s k, v_fut = js_futures s k, v_run = js_runs s k, v_ret = js_retiring s k,
     v_intent = js_intents s k, v_pers = (k \<in> js_persisted s), v_row = pjob_row k (js_table s)\<rparr>"

fun event_job :: "job_event \<Rightarrow> pystr option" where
  "event_job (EEnter k) = Some k" | "event_job (ELeave k) = Some k" | "event_job (EAcquire k q auth prov) = Some k"
| "event_job (ECreate k db actor c now) = Some k" | "event_job (EHandOff k ok) = Some k"
| "event_job (EReject k db m now) = Some k" | "event_job (ERelease k) = Some k" | "event_job (EPick k) = Some k"
| "event_job (EStart k db now) = Some k" | "event_job (EProgress k db now p m) = Some k"
| "event_job (EDecide k out now) = Some k" | "event_job (EAbort k nm m) = Some k" | "event_job (EIntent k) = Some k"
| "event_job (EWrite k db now) = Some k" | "event_job (ERetireBegin k) = Some k" | "event_job (ERetireWrite k db now) = Some k"
| "event_job (ERetireRelease k) = Some k" | "event_job (ERetireEnd k) = Some k" | "event_job (ECancel k) = Some k"
| "event_job (ECancelFuture k) = Some k" | "event_job (ECancelNote k db now) = Some k"
| "event_job EShutdown = None" | "event_job (EShutdownEnd ok) = None"

lemma create_other_row:
  assumes "create_platform_job n tbl = Inr tbl'" and "i \<noteq> py_strip (np_id n)"
  shows "pjob_row i tbl' = pjob_row i tbl"
proof -
  obtain r where "tbl' = tbl @ [r]" "pj_id r = py_strip (np_id n)" using create_row [OF assms(1)] by blast
  then show ?thesis using assms(2) by (simp add: row_of_append split: option.split)
qed

lemma submitted_row_id: "np_id (submitted_row k w a c now) = k" "np_state (submitted_row k w a c now) = ''queued''"
  by (simp_all add: submitted_row_def split: prod.split)

definition own_id :: "pystr \<Rightarrow> job_system \<Rightarrow> bool" where
  "own_id k s \<longleftrightarrow> (js_subs s k \<noteq> None \<longrightarrow> py_strip k = k)"

lemma other_row_after_write: "i \<noteq> k \<Longrightarrow> pjob_row i (snd (store_write db now k u tbl)) = pjob_row i tbl"
  by (simp add: row_after_write split: option.split)

text \<open>A step of one job leaves the view of another, operation by operation.\<close>

lemma frame_submission:
  assumes "i \<noteq> k"
  shows "enter_submission k s = Some s' \<Longrightarrow> view i s' = view i s"
    and "leave_submission k s = Some s' \<Longrightarrow> view i s' = view i s"
    and "acquire_slot k q auth prov s = Some s' \<Longrightarrow> view i s' = view i s"
    and "hand_off k ok s = Some s' \<Longrightarrow> view i s' = view i s"
    and "release_slot_of k s = Some s' \<Longrightarrow> view i s' = view i s"
    and "reject_row k db m now s = Some s' \<Longrightarrow> view i s' = view i s"
  using assms
  by (auto simp: enter_submission_def leave_submission_def acquire_slot_def hand_off_def release_slot_of_def reject_row_def view_def
      other_row_after_write split: if_splits option.splits submission.splits sum.splits bool.splits)

lemma frame_run:
  assumes "i \<noteq> k"
  shows "pick_job k s = Some s' \<Longrightarrow> view i s' = view i s"
    and "start_run k db now s = Some s' \<Longrightarrow> view i s' = view i s"
    and "report_progress k db now p m s = Some s' \<Longrightarrow> view i s' = view i s"
    and "decide_outcome k out now s = Some s' \<Longrightarrow> view i s' = view i s"
    and "abort_run k nm m s = Some s' \<Longrightarrow> view i s' = view i s"
    and "set_intent k s = Some s' \<Longrightarrow> view i s' = view i s"
  using assms
  by (auto simp: pick_job_def start_run_def report_progress_def decide_outcome_def abort_run_def set_intent_def end_run_def view_def
      other_row_after_write split: if_splits option.splits run_phase.splits)

lemma frame_persist: "i \<noteq> k \<Longrightarrow> view i (snd (persist_terminal k u db now s)) = view i s"
  using other_row_after_write [of i k db now u "js_table s"]
  by (auto simp: persist_terminal_def view_def Let_def)

lemma frame_end_run: "i \<noteq> k \<Longrightarrow> view i (end_run k e s) = view i s"
  by (simp add: view_def end_run_def)

lemma frame_write:
  assumes "i \<noteq> k" and "write_outcome k db now s = Some s'"
  shows "view i s' = view i s"
proof -
  obtain u where "s' = end_run k (if fst (persist_terminal k u db now s) then None else Some (''RuntimeError'', []))
      (snd (persist_terminal k u db now s))"
    using assms(2) by (auto simp: write_outcome_def Let_def split: option.splits run_phase.splits)
  with assms(1) show ?thesis by (simp add: frame_end_run frame_persist)
qed

lemma frame_retire:
  assumes "i \<noteq> k"
  shows "retire_begin k s = Some s' \<Longrightarrow> view i s' = view i s"
    and "retire_release k s = Some s' \<Longrightarrow> view i s' = view i s"
    and "retire_end k s = Some s' \<Longrightarrow> view i s' = view i s"
  using assms by (auto simp: retire_begin_def retire_release_def retire_end_def view_def split: if_splits option.splits retire_phase.splits)

lemma frame_retire_write:
  assumes "i \<noteq> k" and "retire_write k db now s = Some s'"
  shows "view i s' = view i s"
proof -
  obtain f where f: "js_retiring s k = Some Begun" "js_futures s k = Some f"
    using assms(2) by (auto simp: retire_write_def split: option.splits retire_phase.splits)
  show ?thesis
  proof (cases "k \<in> js_persisted s")
    case True
    with assms f show ?thesis by (auto simp: retire_write_def view_def)
  next
    case False
    define u where "u = (case js_intents s k of Some u \<Rightarrow> u | None \<Rightarrow> orphan_update f now)"
    let ?s = "s\<lparr>js_intents := (js_intents s)(k \<mapsto> u)\<rparr>"
    let ?p = "snd (persist_terminal k u db now ?s)"
    have "s' = ?p\<lparr>js_retiring := (js_retiring s)(k \<mapsto> if fst (persist_terminal k u db now ?s) then Written else Unwritten)\<rparr>"
      using assms(2) f False by (simp add: retire_write_def u_def Let_def)
    moreover have "js_retiring ?p = js_retiring s" by (simp add: persist_terminal_def Let_def)
    ultimately have "view i s' = view i ?p" using assms(1) by (simp add: view_def)
    also have "\<dots> = view i ?s" by (rule frame_persist [OF assms(1)])
    also have "\<dots> = view i s" using assms(1) by (simp add: view_def)
    finally show ?thesis .
  qed
qed

lemma frame_cancel:
  assumes "i \<noteq> k"
  shows "set_cancelled k s = Some s' \<Longrightarrow> view i s' = view i s"
    and "cancel_future k s = Some s' \<Longrightarrow> view i s' = view i s"
    and "cancel_note k db now s = Some s' \<Longrightarrow> view i s' = view i s"
  using assms by (auto simp: set_cancelled_def cancel_future_def cancel_note_def view_def other_row_after_write split: if_splits)

lemma frame_create:
  assumes "i \<noteq> k" and "create_row k db actor c now s = Some s'" and "own_id k s"
  shows "view i s' = view i s"
proof -
  obtain w where w: "js_subs s k = Some (Holding w)" using assms(2) by (auto simp: create_row_def split: option.splits submission.splits)
  with assms(3) have k: "py_strip k = k" by (simp add: own_id_def)
  show ?thesis
    using assms(1,2) w k create_other_row [of "submitted_row k w actor c now" "js_table s" _ i]
    by (auto simp: create_row_def view_def submitted_row_id split: sum.splits if_splits)
qed

lemma frame_shutdown:
  "view i (begin_shutdown s) = view i s" "end_shutdown ok s = Some s' \<Longrightarrow> view i s' = view i s"
  by (auto simp: begin_shutdown_def end_shutdown_def view_def Let_def split: if_splits)

text \<open>A step leaves the views of all jobs but its own.\<close>

lemma view_other:
  assumes "job_step e s = Some s'" and "event_job e \<noteq> Some i" and "\<And>k. own_id k s"
  shows "view i s' = view i s"
proof (cases e)
  case (EEnter k)
  with assms(1,2) show ?thesis by (intro frame_submission(1) [of i k]) (simp_all add: assms(3))
next
  case (ELeave k)
  with assms(1,2) show ?thesis by (intro frame_submission(2) [of i k]) (simp_all add: assms(3))
next
  case (EAcquire k q auth prov)
  with assms(1,2) show ?thesis by (intro frame_submission(3) [of i k]) (simp_all add: assms(3))
next
  case (EHandOff k ok)
  with assms(1,2) show ?thesis by (intro frame_submission(4) [of i k]) (simp_all add: assms(3))
next
  case (ERelease k)
  with assms(1,2) show ?thesis by (intro frame_submission(5) [of i k]) (simp_all add: assms(3))
next
  case (EReject k db m now)
  with assms(1,2) show ?thesis by (intro frame_submission(6) [of i k]) (simp_all add: assms(3))
next
  case (ECreate k db actor c now)
  with assms(1,2) show ?thesis by (intro frame_create [of i k]) (simp_all add: assms(3))
next
  case (EPick k)
  with assms(1,2) show ?thesis by (intro frame_run(1) [of i k]) (simp_all add: assms(3))
next
  case (EStart k db now)
  with assms(1,2) show ?thesis by (intro frame_run(2) [of i k]) (simp_all add: assms(3))
next
  case (EProgress k db now p m)
  with assms(1,2) show ?thesis by (intro frame_run(3) [of i k]) (simp_all add: assms(3))
next
  case (EDecide k out now)
  with assms(1,2) show ?thesis by (intro frame_run(4) [of i k]) (simp_all add: assms(3))
next
  case (EAbort k nm m)
  with assms(1,2) show ?thesis by (intro frame_run(5) [of i k]) (simp_all add: assms(3))
next
  case (EIntent k)
  with assms(1,2) show ?thesis by (intro frame_run(6) [of i k]) (simp_all add: assms(3))
next
  case (EWrite k db now)
  with assms(1,2) show ?thesis by (intro frame_write [of i k]) (simp_all add: assms(3))
next
  case (ERetireBegin k)
  with assms(1,2) show ?thesis by (intro frame_retire(1) [of i k]) (simp_all add: assms(3))
next
  case (ERetireRelease k)
  with assms(1,2) show ?thesis by (intro frame_retire(2) [of i k]) (simp_all add: assms(3))
next
  case (ERetireEnd k)
  with assms(1,2) show ?thesis by (intro frame_retire(3) [of i k]) (simp_all add: assms(3))
next
  case (ERetireWrite k db now)
  with assms(1,2) show ?thesis by (intro frame_retire_write [of i k]) (simp_all add: assms(3))
next
  case (ECancel k)
  with assms(1,2) show ?thesis by (intro frame_cancel(1) [of i k]) (simp_all add: assms(3))
next
  case (ECancelFuture k)
  with assms(1,2) show ?thesis by (intro frame_cancel(2) [of i k]) (simp_all add: assms(3))
next
  case (ECancelNote k db now)
  with assms(1,2) show ?thesis by (intro frame_cancel(3) [of i k]) (simp_all add: assms(3))
next
  case EShutdown
  with assms(1) show ?thesis by (auto simp: frame_shutdown(1))
next
  case (EShutdownEnd ok)
  with assms(1) show ?thesis by (simp add: frame_shutdown(2))
qed

section \<open>The invariant of one job\<close>

text \<open>An update that ends a job whose row is \<open>r\<close>.\<close>

definition ending :: "pjob_update \<Rightarrow> bool" where
  "ending u \<longleftrightarrow> (\<exists>t. pu_state u = Some t \<and> t \<notin> {PQueued, PRunning} \<and> set (pu_expected u) \<subseteq> {PQueued, PRunning, t} \<and>
     PRunning \<in> set (pu_expected u))"

definition ends_row :: "pjob_update \<Rightarrow> pjob \<Rightarrow> bool" where
  "ends_row u r \<longleftrightarrow> ending u \<and> expects u r \<and> (pj_state r = PQueued \<longrightarrow> pu_state u \<in> {Some PFailed, Some PCancelled})"

definition sub_ok :: "job_view \<Rightarrow> bool" where
  "sub_ok v \<longleftrightarrow> (v_sub v \<noteq> None \<and> v_sub v \<noteq> Some Owned \<longrightarrow> v_fut v = None) \<and>
     ((v_sub v = Some Stored \<or> (\<exists>x. v_sub v = Some (Failing True x))) \<longrightarrow> (\<exists>r. v_row v = Some r \<and> pj_state r = PQueued))"

definition phase_ok :: "job_view \<Rightarrow> bool" where
  "phase_ok v \<longleftrightarrow> (v_fut v = None \<longrightarrow> v_ret v = None \<and> v_intent v = None) \<and>
     (v_run v \<noteq> None \<longleftrightarrow> v_fut v = Some Active) \<and> (v_ret v \<noteq> None \<longrightarrow> is_ended (v_fut v)) \<and>
     (v_pers v \<longrightarrow> v_intent v \<noteq> None \<and> is_ended (v_fut v)) \<and>
     (v_ret v = Some Written \<or> v_ret v = Some Released \<longrightarrow> v_pers v) \<and> (v_ret v = Some Unwritten \<longrightarrow> \<not> v_pers v \<and> v_intent v \<noteq> None)"

definition intent_ok :: "job_view \<Rightarrow> bool" where
  "intent_ok v \<longleftrightarrow> (v_fut v = Some Waiting \<longrightarrow> v_intent v = None) \<and>
     (v_fut v = Some Active \<longrightarrow> (v_intent v \<noteq> None \<longleftrightarrow> v_run v = Some Writing)) \<and>
     (\<forall>u. v_run v = Some (Deciding u) \<longrightarrow> ending u) \<and>
     (\<forall>u. v_intent v = Some u \<longrightarrow> \<not> v_pers v \<longrightarrow> (\<exists>r. v_row v = Some r \<and> ends_row u r))"

definition row_ok :: "job_view \<Rightarrow> bool" where
  "row_ok v \<longleftrightarrow> (v_fut v \<noteq> None \<longrightarrow> (\<exists>r. v_row v = Some r \<and> (v_pers v \<longleftrightarrow> \<not> is_active r) \<and>
     (v_fut v = Some Waiting \<or> v_run v = Some Starting \<longrightarrow> pj_state r = PQueued) \<and>
     (v_fut v = Some Active \<and> v_run v \<noteq> Some Starting \<longrightarrow> pj_state r = PRunning)))"

definition local_ok :: "job_view \<Rightarrow> bool" where
  "local_ok v \<longleftrightarrow> sub_ok v \<and> phase_ok v \<and> intent_ok v \<and> row_ok v"

fun slot_sub :: "submission option \<Rightarrow> bool" where
  "slot_sub (Some (Holding w)) = True"
| "slot_sub (Some Stored) = True"
| "slot_sub (Some (Failing b x)) = True"
| "slot_sub _ = False"

definition holds_slot :: "job_view \<Rightarrow> bool" where
  "holds_slot v \<longleftrightarrow> slot_sub (v_sub v) \<or> v_fut v \<noteq> None \<and> v_ret v \<noteq> Some Released"

text \<open>The states a row may go through; a row that is not active any more does not change at all.\<close>

definition legal_move :: "pjob_state \<Rightarrow> pjob_state \<Rightarrow> bool" where
  "legal_move a b \<longleftrightarrow> a = b \<or> a = PQueued \<and> b \<in> {PRunning, PFailed, PCancelled, PInterrupted} \<or>
     a = PRunning \<and> b \<notin> {PQueued, PRunning}"

definition row_moves :: "pjob option \<Rightarrow> pjob option \<Rightarrow> bool" where
  "row_moves r r' \<longleftrightarrow> (case r of None \<Rightarrow> (\<forall>x. r' = Some x \<longrightarrow> pj_state x = PQueued)
     | Some x \<Rightarrow> (\<exists>y. r' = Some y \<and> legal_move (pj_state x) (pj_state y) \<and> (\<not> is_active x \<longrightarrow> y = x)))"

definition count1 :: "bool \<Rightarrow> nat" where
  "count1 b = (if b then 1 else 0)"

definition local_step :: "pystr \<Rightarrow> job_system \<Rightarrow> job_system \<Rightarrow> bool" where
  "local_step k s s' \<longleftrightarrow> local_ok (view k s') \<and>
     js_free s' + count1 (holds_slot (view k s')) = js_free s + count1 (holds_slot (view k s)) \<and>
     js_pending s' + count1 (js_subs s k \<noteq> None) = js_pending s + count1 (js_subs s' k \<noteq> None) \<and>
     row_moves (v_row (view k s)) (v_row (view k s'))"

definition step_pre :: "pystr \<Rightarrow> job_system \<Rightarrow> bool" where
  "step_pre k s \<longleftrightarrow> local_ok (view k s) \<and> distinct (map pj_id (js_table s)) \<and> (js_subs s k \<noteq> None \<longrightarrow> 0 < js_pending s) \<and> own_id k s"

lemma row_moves_refl [simp]: "row_moves r r"
  by (auto simp: row_moves_def legal_move_def split: option.split)

lemma view_fields [simp]:
  "v_sub (view k s) = js_subs s k" "v_fut (view k s) = js_futures s k" "v_run (view k s) = js_runs s k"
  "v_ret (view k s) = js_retiring s k" "v_intent (view k s) = js_intents s k" "v_pers (view k s) \<longleftrightarrow> k \<in> js_persisted s"
  "v_row (view k s) = pjob_row k (js_table s)"
  by (simp_all add: view_def)

lemma view_parts [simp]:
  "phase_ok (v\<lparr>v_sub := x\<rparr>) = phase_ok v" "intent_ok (v\<lparr>v_sub := x\<rparr>) = intent_ok v" "row_ok (v\<lparr>v_sub := x\<rparr>) = row_ok v"
  "sub_ok (v\<lparr>v_run := rn\<rparr>) = sub_ok v" "sub_ok (v\<lparr>v_ret := rt\<rparr>) = sub_ok v" "sub_ok (v\<lparr>v_intent := u\<rparr>) = sub_ok v"
  "sub_ok (v\<lparr>v_pers := b\<rparr>) = sub_ok v" "intent_ok (v\<lparr>v_ret := rt\<rparr>) = intent_ok v" "row_ok (v\<lparr>v_ret := rt\<rparr>) = row_ok v"
  "row_ok (v\<lparr>v_intent := u\<rparr>) = row_ok v" "phase_ok (v\<lparr>v_row := r\<rparr>) = phase_ok v"
  by (simp_all add: sub_ok_def phase_ok_def intent_ok_def row_ok_def)

lemma local_stepI:
  assumes "view k s' = v" and "sub_ok v" "phase_ok v" "intent_ok v" "row_ok v"
    and "js_free s' + count1 (holds_slot v) = js_free s + count1 (holds_slot (view k s))"
    and "js_pending s' + count1 (js_subs s k \<noteq> None) = js_pending s + count1 (v_sub v \<noteq> None)"
    and "row_moves (pjob_row k (js_table s)) (v_row v)"
  shows "local_step k s s'"
proof -
  have "js_subs s' k = v_sub v" using assms(1) by (metis view_fields(1))
  with assms show ?thesis by (simp add: local_step_def local_ok_def)
qed

lemma step_preD:
  assumes "step_pre k s"
  shows "sub_ok (view k s)" "phase_ok (view k s)" "intent_ok (view k s)" "row_ok (view k s)" "distinct (map pj_id (js_table s))"
    "js_subs s k \<noteq> None \<Longrightarrow> 0 < js_pending s" "js_subs s k \<noteq> None \<Longrightarrow> py_strip k = k"
  using assms by (auto simp: step_pre_def local_ok_def own_id_def)

section \<open>One job, operation by operation\<close>

lemma step_enter:
  assumes "enter_submission k s = Some s'" and pre: "step_pre k s"
  shows "local_step k s s'"
proof -
  have c: "js_subs s k = None" "js_futures s k = None" and s': "s' = s\<lparr>js_pending := js_pending s + 1, js_subs := (js_subs s)(k \<mapsto> Entered)\<rparr>"
    using assms(1) by (auto simp: enter_submission_def split: if_splits)
  show ?thesis
  proof (rule local_stepI [where v = "(view k s)\<lparr>v_sub := Some Entered\<rparr>"])
    show "view k s' = (view k s)\<lparr>v_sub := Some Entered\<rparr>" by (simp add: s' view_def)
  qed (use step_preD(2-4) [OF pre] c in \<open>simp_all add: s' sub_ok_def holds_slot_def count1_def\<close>)
qed

lemma step_leave:
  assumes "leave_submission k s = Some s'" and pre: "step_pre k s"
  shows "local_step k s s'"
proof -
  have c: "js_subs s k = Some Entered \<or> js_subs s k = Some Owned \<or> js_subs s k = Some Leaving"
    and s': "s' = s\<lparr>js_pending := js_pending s - 1, js_subs := (js_subs s)(k := None)\<rparr>"
    using assms(1) by (auto simp: leave_submission_def split: option.splits submission.splits bool.splits)
  have p: "0 < js_pending s" using step_preD(6) [OF pre] c by auto
  show ?thesis
  proof (rule local_stepI [where v = "(view k s)\<lparr>v_sub := None\<rparr>"])
    show "view k s' = (view k s)\<lparr>v_sub := None\<rparr>" by (simp add: s' view_def)
    show "js_free s' + count1 (holds_slot ((view k s)\<lparr>v_sub := None\<rparr>)) = js_free s + count1 (holds_slot (view k s))"
      using c by (elim disjE) (simp_all add: s' holds_slot_def)
  qed (use step_preD(2-4) [OF pre] c p in \<open>auto simp: s' sub_ok_def count1_def\<close>)
qed

lemma step_acquire:
  assumes "acquire_slot k q auth prov s = Some s'" and pre: "step_pre k s"
  shows "local_step k s s'"
proof -
  obtain w where c: "js_subs s k = Some Entered" "0 < js_free s"
    and s': "s' = s\<lparr>js_free := js_free s - 1, js_subs := (js_subs s)(k \<mapsto> Holding w)\<rparr>"
    using assms(1) by (auto simp: acquire_slot_def split: option.splits submission.splits sum.splits if_splits)
  have fut: "js_futures s k = None" using step_preD(1) [OF pre] c by (simp add: sub_ok_def)
  show ?thesis
  proof (rule local_stepI [where v = "(view k s)\<lparr>v_sub := Some (Holding w)\<rparr>"])
    show "view k s' = (view k s)\<lparr>v_sub := Some (Holding w)\<rparr>" by (simp add: s' view_def)
  qed (use step_preD(2-4) [OF pre] c fut in \<open>simp_all add: s' sub_ok_def holds_slot_def count1_def\<close>)
qed

lemma step_create:
  assumes "create_row k db actor c now s = Some s'" and pre: "step_pre k s"
  shows "local_step k s s'"
proof -
  obtain w where w: "js_subs s k = Some (Holding w)" using assms(1) by (auto simp: create_row_def split: option.splits submission.splits)
  have k: "py_strip k = k" and fut: "js_futures s k = None"
    using step_preD [OF pre] w by (auto simp: sub_ok_def)
  have st: "parse_job_state ''queued'' = Inr PQueued" by code_simp
  show ?thesis
  proof (cases "if db then create_platform_job (submitted_row k w actor c now) (js_table s) else Inl OperationalError")
    case (Inl x)
    with assms w have s': "s' = s\<lparr>js_subs := (js_subs s)(k \<mapsto> Failing False x)\<rparr>" by (simp add: create_row_def)
    show ?thesis
    proof (rule local_stepI [where v = "(view k s)\<lparr>v_sub := Some (Failing False x)\<rparr>"])
      show "view k s' = (view k s)\<lparr>v_sub := Some (Failing False x)\<rparr>" by (simp add: s' view_def)
    qed (use step_preD(2-4) [OF pre] w fut in \<open>simp_all add: s' sub_ok_def holds_slot_def count1_def\<close>)
  next
    case (Inr tbl)
    then obtain r where r: "tbl = js_table s @ [r]" "pj_id r = k" "pjob_row k (js_table s) = None" "pj_state r = PQueued"
      using create_row [of "submitted_row k w actor c now" "js_table s" tbl] k st by (auto simp: submitted_row_id split: if_splits)
    have row: "pjob_row k tbl = Some r" using r by (simp add: row_of_append)
    have s': "s' = s\<lparr>js_table := tbl, js_subs := (js_subs s)(k \<mapsto> Stored)\<rparr>" using assms(1) w Inr by (simp add: create_row_def)
    show ?thesis
    proof (rule local_stepI [where v = "(view k s)\<lparr>v_sub := Some Stored, v_row := Some r\<rparr>"])
      show "intent_ok ((view k s)\<lparr>v_sub := Some Stored, v_row := Some r\<rparr>)"
        using step_preD(2,3) [OF pre] fut by (simp add: intent_ok_def phase_ok_def is_ended_def)
      show "phase_ok ((view k s)\<lparr>v_sub := Some Stored, v_row := Some r\<rparr>)"
        using step_preD(2) [OF pre] by (simp add: phase_ok_def)
      show "row_ok ((view k s)\<lparr>v_sub := Some Stored, v_row := Some r\<rparr>)" using fut by (simp add: row_ok_def)
      show "sub_ok ((view k s)\<lparr>v_sub := Some Stored, v_row := Some r\<rparr>)" using fut r by (simp add: sub_ok_def)
      show "view k s' = (view k s)\<lparr>v_sub := Some Stored, v_row := Some r\<rparr>" by (simp add: s' view_def row)
    qed (use w r fut in \<open>simp_all add: s' holds_slot_def count1_def row_moves_def\<close>)
  qed
qed

lemma step_hand_off:
  assumes "hand_off k ok s = Some s'" and pre: "step_pre k s"
  shows "local_step k s s'"
proof -
  have c: "js_subs s k = Some Stored" using assms(1) by (auto simp: hand_off_def split: option.splits submission.splits)
  with step_preD(1) [OF pre] obtain r where r: "pjob_row k (js_table s) = Some r" "pj_state r = PQueued" and fut: "js_futures s k = None"
    by (auto simp: sub_ok_def)
  have ph: "js_retiring s k = None" "js_intents s k = None" "js_runs s k = None" "k \<notin> js_persisted s"
    using step_preD(2) [OF pre] fut by (auto simp: phase_ok_def is_ended_def)
  show ?thesis
  proof (cases "js_accepting s \<and> ok")
    case True
    with assms(1) c have s': "s' = s\<lparr>js_futures := (js_futures s)(k \<mapsto> Waiting), js_subs := (js_subs s)(k \<mapsto> Owned)\<rparr>"
      by (simp add: hand_off_def)
    show ?thesis
    proof (rule local_stepI [where v = "(view k s)\<lparr>v_sub := Some Owned, v_fut := Some Waiting\<rparr>"])
      show "sub_ok ((view k s)\<lparr>v_sub := Some Owned, v_fut := Some Waiting\<rparr>)" by (simp add: sub_ok_def)
      show "phase_ok ((view k s)\<lparr>v_sub := Some Owned, v_fut := Some Waiting\<rparr>)" using ph by (simp add: phase_ok_def)
      show "intent_ok ((view k s)\<lparr>v_sub := Some Owned, v_fut := Some Waiting\<rparr>)" using ph by (simp add: intent_ok_def)
      show "row_ok ((view k s)\<lparr>v_sub := Some Owned, v_fut := Some Waiting\<rparr>)" using ph r by (simp add: row_ok_def is_active_iff)
      show "view k s' = (view k s)\<lparr>v_sub := Some Owned, v_fut := Some Waiting\<rparr>" by (simp add: s' view_def)
    qed (use c ph in \<open>simp_all add: s' holds_slot_def count1_def\<close>)
  next
    case False
    with assms(1) c obtain x where s': "s' = s\<lparr>js_subs := (js_subs s)(k \<mapsto> Failing True x)\<rparr>"
      by (auto simp: hand_off_def split: if_splits)
    show ?thesis
    proof (rule local_stepI [where v = "(view k s)\<lparr>v_sub := Some (Failing True x)\<rparr>"])
      show "view k s' = (view k s)\<lparr>v_sub := Some (Failing True x)\<rparr>" by (simp add: s' view_def)
    qed (use step_preD(2-4) [OF pre] c fut r in \<open>simp_all add: s' sub_ok_def holds_slot_def count1_def\<close>)
  qed
qed

text \<open>A job that runs, and a job that is over.\<close>

lemma runningD:
  assumes "step_pre k s" and "js_runs s k = Some ph"
  shows "js_futures s k = Some Active" "js_retiring s k = None" "k \<notin> js_persisted s" "js_intents s k \<noteq> None \<longleftrightarrow> ph = Writing"
    "slot_sub (js_subs s k) = False" "js_subs s k = None \<or> js_subs s k = Some Owned"
    "\<exists>r. pjob_row k (js_table s) = Some r \<and> pj_state r = (if ph = Starting then PQueued else PRunning)"
proof -
  show f: "js_futures s k = Some Active" using step_preD(2) [OF assms(1)] assms(2) by (auto simp: phase_ok_def)
  show "js_retiring s k = None" using step_preD(2) [OF assms(1)] f by (auto simp: phase_ok_def is_ended_def)
  show "k \<notin> js_persisted s" using step_preD(2) [OF assms(1)] f by (auto simp: phase_ok_def is_ended_def)
  show "js_intents s k \<noteq> None \<longleftrightarrow> ph = Writing" using step_preD(3) [OF assms(1)] f assms(2) by (simp add: intent_ok_def)
  show o: "js_subs s k = None \<or> js_subs s k = Some Owned" using step_preD(1) [OF assms(1)] f by (auto simp: sub_ok_def)
  then show "slot_sub (js_subs s k) = False" by auto
  show "\<exists>r. pjob_row k (js_table s) = Some r \<and> pj_state r = (if ph = Starting then PQueued else PRunning)"
    using step_preD(4) [OF assms(1)] f assms(2) by (auto simp: row_ok_def)
qed

lemma is_endedD: "is_ended f \<Longrightarrow> f \<noteq> None \<and> f \<noteq> Some Active \<and> f \<noteq> Some Waiting"
  by (auto simp: is_ended_def split: option.splits)

lemma endedD:
  assumes "step_pre k s" and "is_ended (js_futures s k)"
  shows "js_runs s k = None" "js_futures s k \<noteq> None" "js_futures s k \<noteq> Some Active" "js_futures s k \<noteq> Some Waiting"
    "slot_sub (js_subs s k) = False" "js_subs s k = None \<or> js_subs s k = Some Owned"
    "\<exists>r. pjob_row k (js_table s) = Some r \<and> (k \<in> js_persisted s \<longleftrightarrow> \<not> is_active r)"
    "\<And>u. js_intents s k = Some u \<Longrightarrow> k \<notin> js_persisted s \<Longrightarrow> \<exists>r. pjob_row k (js_table s) = Some r \<and> ends_row u r"
proof -
  show n: "js_futures s k \<noteq> None" "js_futures s k \<noteq> Some Active" "js_futures s k \<noteq> Some Waiting"
    using is_endedD [OF assms(2)] by blast+
  show "js_runs s k = None" using step_preD(2) [OF assms(1)] n by (auto simp: phase_ok_def)
  show o: "js_subs s k = None \<or> js_subs s k = Some Owned" using step_preD(1) [OF assms(1)] n by (auto simp: sub_ok_def)
  then show "slot_sub (js_subs s k) = False" by auto
  show "\<exists>r. pjob_row k (js_table s) = Some r \<and> (k \<in> js_persisted s \<longleftrightarrow> \<not> is_active r)"
    using step_preD(4) [OF assms(1)] n by (auto simp: row_ok_def)
  show "\<exists>r. pjob_row k (js_table s) = Some r \<and> ends_row u r" if "js_intents s k = Some u" "k \<notin> js_persisted s" for u
    using step_preD(3) [OF assms(1)] that by (simp add: intent_ok_def)
qed

lemma updated_state: "pj_state (apply_update now u r) = or_old (pu_state u) (pj_state r)"
  by (simp add: apply_update_def)

lemma ending_failure: "t \<notin> {PQueued, PRunning} \<Longrightarrow> ending (failure_update t c m now)"
  by (simp add: ending_def failure_update_def)

lemma ending_outcome: "ending (outcome_update out now)"
  by (cases out) (simp_all add: ending_failure, simp add: ending_def success_update_def)

lemma orphan_form: "\<exists>t c m. orphan_update f now = failure_update t c m now \<and> t \<in> {PFailed, PCancelled}"
  by (auto simp: orphan_update_def split: future.split option.split)

lemma orphan_ends_row:
  assumes "is_active r"
  shows "ends_row (orphan_update f now) r"
proof -
  obtain t c m where o: "orphan_update f now = failure_update t c m now" and t: "t \<in> {PFailed, PCancelled}" using orphan_form by metis
  have e: "ending (failure_update t c m now)" using t by (intro ending_failure) auto
  show ?thesis unfolding o using assms t e by (auto simp: ends_row_def expects_def is_active_iff failure_update_def)
qed

lemma ending_ends_row: "ending u \<Longrightarrow> pj_state r = PRunning \<Longrightarrow> ends_row u r"
  by (auto simp: ends_row_def ending_def expects_def)

lemma ended_row:
  assumes "ends_row u r" and "is_active r"
  shows "\<not> is_active (apply_update now u r)" and "row_moves (Some r) (Some (apply_update now u r))"
  using assms by (auto simp: ends_row_def ending_def is_active_iff updated_state or_old_def row_moves_def legal_move_def)

lemma local_step_same:
  assumes "step_pre k s" and "view k s' = view k s" and "js_free s' = js_free s" and "js_pending s' = js_pending s"
  shows "local_step k s s'"
proof -
  have "js_subs s' k = js_subs s k" using assms(2) by (metis view_fields(1))
  with assms show ?thesis by (simp add: local_step_def step_pre_def)
qed

lemma step_reject:
  assumes "reject_row k db m now s = Some s'" and pre: "step_pre k s"
  shows "local_step k s s'"
proof -
  obtain x where c: "js_subs s k = Some (Failing True x)"
    using assms(1) by (auto simp: reject_row_def split: option.splits submission.splits bool.splits)
  define u where "u = rejected_update x m now"
  from c assms(1) have s': "s' = s\<lparr>js_table := snd (store_write db now k u (js_table s)), js_subs := (js_subs s)(k \<mapsto> Failing False x)\<rparr>"
    by (simp add: reject_row_def u_def)
  obtain r where r: "pjob_row k (js_table s) = Some r" "pj_state r = PQueued" and fut: "js_futures s k = None"
    using step_preD(1) [OF pre] c by (auto simp: sub_ok_def)
  have ph: "js_retiring s k = None" "js_intents s k = None" "js_runs s k = None" "k \<notin> js_persisted s"
    using step_preD(2) [OF pre] fut by (auto simp: phase_ok_def is_ended_def)
  have st: "pu_state u = Some PFailed \<or> pu_state u = Some PCancelled" by (simp add: u_def rejected_update_def Let_def)
  define r' where "r' = (if db \<and> fits u \<and> expects u r then apply_update now u r else r)"
  have row: "pjob_row k (snd (store_write db now k u (js_table s))) = Some r'" by (simp add: row_after_write r r'_def)
  have moves: "row_moves (Some r) (Some r')" using st r(2) by (auto simp: r'_def row_moves_def legal_move_def updated_state or_old_def is_active_iff)
  let ?v = "(view k s)\<lparr>v_sub := Some (Failing False x), v_row := Some r'\<rparr>"
  show ?thesis
  proof (rule local_stepI [where v = ?v])
    show "view k s' = ?v" by (simp add: s' view_def row)
    show "sub_ok ?v" using fut by (simp add: sub_ok_def)
    show "phase_ok ?v" using step_preD(2) [OF pre] by simp
    show "intent_ok ?v" using fut ph by (simp add: intent_ok_def)
    show "row_ok ?v" using fut by (simp add: row_ok_def)
  qed (use c r moves in \<open>simp_all add: s' holds_slot_def\<close>)
qed

lemma step_release:
  assumes "release_slot_of k s = Some s'" and pre: "step_pre k s"
  shows "local_step k s s'"
proof -
  obtain x where c: "js_subs s k = Some (Failing False x)"
    using assms(1) by (auto simp: release_slot_of_def split: option.splits submission.splits bool.splits)
  with assms(1) have s': "s' = s\<lparr>js_free := js_free s + 1, js_subs := (js_subs s)(k \<mapsto> Leaving)\<rparr>"
    by (simp add: release_slot_of_def)
  have fut: "js_futures s k = None" using step_preD(1) [OF pre] c by (simp add: sub_ok_def)
  show ?thesis
  proof (rule local_stepI [where v = "(view k s)\<lparr>v_sub := Some Leaving\<rparr>"])
    show "view k s' = (view k s)\<lparr>v_sub := Some Leaving\<rparr>" by (simp add: s' view_def)
  qed (use step_preD(2-4) [OF pre] c fut in \<open>simp_all add: s' sub_ok_def holds_slot_def count1_def\<close>)
qed

lemma step_pick:
  assumes "pick_job k s = Some s'" and pre: "step_pre k s"
  shows "local_step k s s'"
proof -
  have c: "js_futures s k = Some Waiting"
    and s': "s' = s\<lparr>js_futures := (js_futures s)(k \<mapsto> Active), js_runs := (js_runs s)(k \<mapsto> Starting)\<rparr>"
    using assms(1) by (auto simp: pick_job_def split: if_splits)
  have ph: "js_retiring s k = None" "k \<notin> js_persisted s" using step_preD(2) [OF pre] c by (auto simp: phase_ok_def is_ended_def)
  have int: "js_intents s k = None" using step_preD(3) [OF pre] c by (simp add: intent_ok_def)
  obtain r where r: "pjob_row k (js_table s) = Some r" "pj_state r = PQueued" using step_preD(4) [OF pre] c by (auto simp: row_ok_def)
  have sub: "js_subs s k = None \<or> js_subs s k = Some Owned" using step_preD(1) [OF pre] c by (auto simp: sub_ok_def)
  let ?v = "(view k s)\<lparr>v_fut := Some Active, v_run := Some Starting\<rparr>"
  show ?thesis
  proof (rule local_stepI [where v = ?v])
    show "view k s' = ?v" by (simp add: s' view_def)
    show "sub_ok ?v" using sub by (auto simp: sub_ok_def)
    show "phase_ok ?v" using ph by (simp add: phase_ok_def)
    show "intent_ok ?v" using int by (simp add: intent_ok_def)
    show "row_ok ?v" using r ph by (simp add: row_ok_def is_active_iff)
  qed (use c in \<open>simp_all add: s' holds_slot_def\<close>)
qed

text \<open>A run that ends without a terminal write, and a run that goes on.\<close>

lemma step_end_run:
  assumes c: "js_runs s k = Some ph" "ph \<noteq> Writing" and pre: "step_pre k s"
  shows "local_step k s (end_run k e s)"
proof -
  note R = runningD [OF pre c(1)]
  obtain r where r: "pjob_row k (js_table s) = Some r" "is_active r" using R(7) by (auto simp: is_active_iff split: if_splits)
  let ?v = "(view k s)\<lparr>v_run := None, v_fut := Some (Finished e)\<rparr>"
  show ?thesis
  proof (rule local_stepI [where v = ?v])
    show "view k (end_run k e s) = ?v" by (simp add: end_run_def view_def)
    show "sub_ok ?v" using R(6) by (auto simp: sub_ok_def)
    show "phase_ok ?v" using R(2,3) by (simp add: phase_ok_def)
    show "intent_ok ?v" using R(4) c(2) by (simp add: intent_ok_def)
    show "row_ok ?v" using r R(3) by (simp add: row_ok_def)
  qed (use R(1,2) in \<open>simp_all add: end_run_def holds_slot_def\<close>)
qed

lemma step_abort: "abort_run k nm m s = Some s' \<Longrightarrow> step_pre k s \<Longrightarrow> local_step k s s'"
  by (auto simp: abort_run_def intro: step_end_run split: if_splits)

lemma step_start:
  assumes "start_run k db now s = Some s'" and pre: "step_pre k s"
  shows "local_step k s s'"
proof (cases db)
  case False
  with assms show ?thesis by (auto simp: start_run_def intro: step_end_run split: if_splits)
next
  case True
  have c: "js_runs s k = Some Starting" using assms(1) by (simp add: start_run_def split: if_splits)
  define u where "u = start_update (js_cancelled s k) now"
  have s': "s' = s\<lparr>js_table := snd (store_write True now k u (js_table s)), js_runs := (js_runs s)(k \<mapsto> Body)\<rparr>"
    using assms(1) c True by (simp add: start_run_def u_def)
  note R = runningD [OF pre c]
  obtain r where r: "pjob_row k (js_table s) = Some r" "pj_state r = PQueued" using R(7) by auto
  have u: "fits u" "expects u r" "pu_state u = Some PRunning" using r by (simp_all add: u_def note_fits) (simp_all add: start_update_def expects_def)
  have row: "pjob_row k (snd (store_write True now k u (js_table s))) = Some (apply_update now u r)"
    using r u by (simp add: row_after_write)
  let ?v = "(view k s)\<lparr>v_run := Some Body, v_row := Some (apply_update now u r)\<rparr>"
  show ?thesis
  proof (rule local_stepI [where v = ?v])
    show "view k s' = ?v" by (simp add: s' view_def row)
    show "sub_ok ?v" using R(6) by (auto simp: sub_ok_def)
    show "phase_ok ?v" using R(1-3) by (simp add: phase_ok_def)
    show "intent_ok ?v" using R(1,4) by (simp add: intent_ok_def)
    show "row_ok ?v" using R(1,3) u by (simp add: row_ok_def updated_state or_old_def is_active_iff)
    show "row_moves (pjob_row k (js_table s)) (v_row ?v)"
      using r u by (simp add: row_moves_def legal_move_def updated_state or_old_def is_active_iff)
  qed (use R(1,2) in \<open>simp_all add: s' holds_slot_def\<close>)
qed

text \<open>A note changes the row of an active job and leaves its state.\<close>

lemma step_note:
  assumes pre: "step_pre k s" and u: "pu_state u = None" "\<And>r. expects u r \<Longrightarrow> is_active r"
  shows "local_step k s (s\<lparr>js_table := snd (store_write db now k u (js_table s))\<rparr>)"
proof (cases "pjob_row k (js_table s)")
  case None
  then have "view k (s\<lparr>js_table := snd (store_write db now k u (js_table s))\<rparr>) = view k s" by (simp add: view_def row_after_write)
  then show ?thesis using pre by (intro local_step_same) simp_all
next
  case (Some r)
  define r' where "r' = (if db \<and> fits u \<and> expects u r then apply_update now u r else r)"
  have row: "pjob_row k (snd (store_write db now k u (js_table s))) = Some r'" by (simp add: row_after_write Some r'_def)
  have st: "pj_state r' = pj_state r" by (simp add: r'_def updated_state u or_old_def)
  have keep: "\<not> is_active r \<Longrightarrow> r' = r" using u(2) by (auto simp: r'_def)
  have act: "is_active r' = is_active r" "\<And>w. ends_row w r' = ends_row w r" by (simp_all add: is_active_iff st ends_row_def expects_def)
  let ?v = "(view k s)\<lparr>v_row := Some r'\<rparr>"
  show ?thesis
  proof (rule local_stepI [where v = ?v])
    show "view k (s\<lparr>js_table := snd (store_write db now k u (js_table s))\<rparr>) = ?v" by (simp add: view_def row)
    show "sub_ok ?v" using step_preD(1) [OF pre] Some st by (simp add: sub_ok_def)
    show "phase_ok ?v" using step_preD(2) [OF pre] by simp
    show "intent_ok ?v" using step_preD(3) [OF pre] Some act by (simp add: intent_ok_def)
    show "row_ok ?v" using step_preD(4) [OF pre] Some st act by (simp add: row_ok_def)
    show "row_moves (pjob_row k (js_table s)) (v_row ?v)" using Some st keep by (simp add: row_moves_def legal_move_def)
  qed (simp_all add: holds_slot_def)
qed

lemma note_active: "expects (note_update p m [PRunning]) r \<Longrightarrow> is_active r" "expects (note_update p m active_states) r \<Longrightarrow> is_active r"
    "pu_state (note_update p m ex) = None"
  by (auto simp: expects_def note_update_def is_active_iff active_states_def)

lemma step_progress:
  assumes "report_progress k db now p m s = Some s'" and pre: "step_pre k s"
  shows "local_step k s s'"
proof (cases "js_cancelled s k")
  case True
  with assms(1) have "s' = s" by (simp add: report_progress_def split: if_splits)
  then show ?thesis using pre by (intro local_step_same) simp_all
next
  case False
  with assms(1) have "s' = s\<lparr>js_table := snd (store_write db now k (note_update (Some (max 0 (min 1 p))) m [PRunning]) (js_table s))\<rparr>"
    by (simp add: report_progress_def split: if_splits)
  then show ?thesis using note_active step_note [OF pre] by blast
qed

lemma step_cancel_note: "cancel_note k db now s = Some s' \<Longrightarrow> step_pre k s \<Longrightarrow> local_step k s s'"
  using note_active step_note by (auto simp: cancel_note_def)

lemma step_decide:
  assumes "decide_outcome k out now s = Some s'" and pre: "step_pre k s"
  shows "local_step k s s'"
proof -
  have c: "js_runs s k = Some Body" and s': "s' = s\<lparr>js_runs := (js_runs s)(k \<mapsto> Deciding (outcome_update out now))\<rparr>"
    using assms(1) by (simp_all add: decide_outcome_def split: if_splits)
  note R = runningD [OF pre c]
  let ?v = "(view k s)\<lparr>v_run := Some (Deciding (outcome_update out now))\<rparr>"
  show ?thesis
  proof (rule local_stepI [where v = ?v])
    show "view k s' = ?v" by (simp add: s' view_def)
    show "sub_ok ?v" using step_preD(1) [OF pre] by simp
    show "phase_ok ?v" using step_preD(2) [OF pre] R(1) by (simp add: phase_ok_def)
    show "intent_ok ?v" using R(1,4) by (simp add: intent_ok_def ending_outcome)
    show "row_ok ?v" using R(1,3,7) by (auto simp: row_ok_def is_active_iff)
  qed (simp_all add: s' holds_slot_def)
qed

lemma step_intent:
  assumes "set_intent k s = Some s'" and pre: "step_pre k s"
  shows "local_step k s s'"
proof -
  obtain u where c: "js_runs s k = Some (Deciding u)"
    and s': "s' = s\<lparr>js_intents := (js_intents s)(k \<mapsto> u), js_runs := (js_runs s)(k \<mapsto> Writing)\<rparr>"
    using assms(1) by (auto simp: set_intent_def split: option.splits run_phase.splits)
  note R = runningD [OF pre c]
  have u: "ending u" using step_preD(3) [OF pre] c by (simp add: intent_ok_def)
  obtain r where r: "pjob_row k (js_table s) = Some r" "pj_state r = PRunning" using R(7) by auto
  let ?v = "(view k s)\<lparr>v_intent := Some u, v_run := Some Writing\<rparr>"
  show ?thesis
  proof (rule local_stepI [where v = ?v])
    show "view k s' = ?v" by (simp add: s' view_def)
    show "sub_ok ?v" using step_preD(1) [OF pre] by simp
    show "phase_ok ?v" using step_preD(2) [OF pre] R(1,3) by (simp add: phase_ok_def)
    show "intent_ok ?v" using R(1) r ending_ends_row [OF u r(2)] by (simp add: intent_ok_def)
    show "row_ok ?v" using R(1,3) r by (simp add: row_ok_def is_active_iff)
  qed (simp_all add: s' holds_slot_def)
qed

text \<open>The attempt to write the outcome of an active job.\<close>

lemma persist_cases:
  assumes "distinct (map pj_id (js_table s))" and "pjob_row k (js_table s) = Some r" and "ends_row u r"
  shows "fst (persist_terminal k u db now s) \<longleftrightarrow> db \<and> fits u"
    and "k \<in> js_persisted (snd (persist_terminal k u db now s)) \<longleftrightarrow> k \<in> js_persisted s \<or> db \<and> fits u"
    and "pjob_row k (js_table (snd (persist_terminal k u db now s))) = Some (if db \<and> fits u then apply_update now u r else r)"
proof -
  have ex: "expects u r" using assms(3) by (simp add: ends_row_def)
  show f: "fst (persist_terminal k u db now s) \<longleftrightarrow> db \<and> fits u"
    using assms(2) ex by (simp add: persist_terminal_def Let_def write_succeeds [OF assms(1)])
  show "k \<in> js_persisted (snd (persist_terminal k u db now s)) \<longleftrightarrow> k \<in> js_persisted s \<or> db \<and> fits u"
    using assms(2) ex by (auto simp: persist_terminal_def Let_def write_succeeds [OF assms(1)])
  show "pjob_row k (js_table (snd (persist_terminal k u db now s))) = Some (if db \<and> fits u then apply_update now u r else r)"
    using assms(2) ex by (simp add: persist_terminal_def Let_def row_after_write)
qed

lemma persist_frame [simp]:
  "js_free (snd (persist_terminal k u db now s)) = js_free s" "js_pending (snd (persist_terminal k u db now s)) = js_pending s"
  "js_retiring (snd (persist_terminal k u db now s)) = js_retiring s" "js_subs (snd (persist_terminal k u db now s)) = js_subs s"
  "js_futures (snd (persist_terminal k u db now s)) = js_futures s" "js_runs (snd (persist_terminal k u db now s)) = js_runs s"
  "js_intents (snd (persist_terminal k u db now s)) = js_intents s" "js_failed (snd (persist_terminal k u db now s)) = js_failed s"
  by (simp_all add: persist_terminal_def Let_def)

lemma step_write:
  assumes "write_outcome k db now s = Some s'" and pre: "step_pre k s"
  shows "local_step k s s'"
proof -
  obtain u where c: "js_runs s k = Some Writing" "js_intents s k = Some u"
    using assms(1) by (auto simp: write_outcome_def split: option.splits run_phase.splits)
  note R = runningD [OF pre c(1)]
  obtain r where r: "pjob_row k (js_table s) = Some r" "pj_state r = PRunning" "ends_row u r"
    using R(3,7) c(2) step_preD(3) [OF pre] by (auto simp: intent_ok_def)
  have act: "is_active r" using r(2) by (simp add: is_active_iff)
  let ?p = "persist_terminal k u db now s"
  define e where "e = (if fst ?p then None else Some (''RuntimeError'', [] :: pystr))"
  have s': "s' = end_run k e (snd ?p)" using assms(1) c by (simp add: write_outcome_def Let_def e_def)
  note P = persist_cases [OF step_preD(5) [OF pre] r(1,3), of db now]
  define ok where "ok = (db \<and> fits u)"
  let ?v = "(view k s)\<lparr>v_run := None, v_fut := Some (Finished e), v_pers := ok, v_row := Some (if ok then apply_update now u r else r)\<rparr>"
  have view: "view k s' = ?v" using R(3) by (simp add: s' end_run_def view_def P ok_def)
  show ?thesis
  proof (rule local_stepI [where v = ?v])
    show "view k s' = ?v" by (rule view)
    show "sub_ok ?v" using R(6) by (auto simp: sub_ok_def)
    show "phase_ok ?v" using R(2,3) c by (simp add: phase_ok_def is_ended_def)
    show "intent_ok ?v" using c r by (simp add: intent_ok_def)
    show "row_ok ?v" using ended_row(1) [OF r(3) act] act by (simp add: row_ok_def)
    show "row_moves (pjob_row k (js_table s)) (v_row ?v)" using ended_row(2) [OF r(3) act] r(1) by simp
  qed (use R(1,2) in \<open>simp_all add: s' end_run_def holds_slot_def\<close>)
qed

lemma step_retire_begin:
  assumes "retire_begin k s = Some s'" and pre: "step_pre k s"
  shows "local_step k s s'"
proof -
  have c: "is_ended (js_futures s k)" "js_retiring s k = None"
    and s': "s' = s\<lparr>js_retiring := (js_retiring s)(k \<mapsto> Begun), js_failed := removeAll k (js_failed s)\<rparr>"
    using assms(1) by (auto simp: retire_begin_def split: if_splits)
  let ?v = "(view k s)\<lparr>v_ret := Some Begun\<rparr>"
  show ?thesis
  proof (rule local_stepI [where v = ?v])
    show "view k s' = ?v" by (simp add: s' view_def)
    show "phase_ok ?v" using step_preD(2) [OF pre] c is_endedD [OF c(1)] by (simp add: phase_ok_def)
  qed (use step_preD(1,3,4) [OF pre] c in \<open>simp_all add: s' holds_slot_def\<close>)
qed

text \<open>What \<open>_retire\<close> has in hand once it has set the outcome it writes.\<close>

definition retire_choice :: "pystr \<Rightarrow> pystr \<Rightarrow> future \<Rightarrow> job_system \<Rightarrow> pjob_update" where
  "retire_choice k now f s = (case js_intents s k of Some u \<Rightarrow> u | None \<Rightarrow> orphan_update f now)"

lemma step_retire_write:
  assumes "retire_write k db now s = Some s'" and pre: "step_pre k s"
  shows "local_step k s s'"
proof -
  obtain f where c: "js_retiring s k = Some Begun" "js_futures s k = Some f"
    using assms(1) by (auto simp: retire_write_def split: option.splits retire_phase.splits)
  have en: "is_ended (js_futures s k)" using step_preD(2) [OF pre] c by (simp add: phase_ok_def)
  note E = endedD [OF pre en]
  show ?thesis
  proof (cases "k \<in> js_persisted s")
    case True
    then have s': "s' = s\<lparr>js_retiring := (js_retiring s)(k \<mapsto> Written)\<rparr>" using assms(1) c by (simp add: retire_write_def)
    let ?v = "(view k s)\<lparr>v_ret := Some Written\<rparr>"
    show ?thesis
    proof (rule local_stepI [where v = ?v])
      show "view k s' = ?v" by (simp add: s' view_def)
      show "phase_ok ?v" using step_preD(2) [OF pre] c en True by (simp add: phase_ok_def)
    qed (use step_preD(1,3,4) [OF pre] c in \<open>simp_all add: s' holds_slot_def\<close>)
  next
    case False
    define u where "u = retire_choice k now f s"
    obtain r where r: "pjob_row k (js_table s) = Some r" "is_active r" using E(7) False by auto
    have ends: "ends_row u r"
      using E(8) False r orphan_ends_row [OF r(2)] by (auto simp: u_def retire_choice_def split: option.split)
    let ?s = "s\<lparr>js_intents := (js_intents s)(k \<mapsto> u)\<rparr>"
    let ?p = "persist_terminal k u db now ?s"
    have s': "s' = (snd ?p)\<lparr>js_retiring := (js_retiring s)(k \<mapsto> if fst ?p then Written else Unwritten)\<rparr>"
      using assms(1) c False by (simp add: retire_write_def Let_def u_def retire_choice_def)
    have d: "distinct (map pj_id (js_table ?s))" "pjob_row k (js_table ?s) = Some r" using step_preD(5) [OF pre] r by simp_all
    note P = persist_cases [OF d ends, of db now]
    define ok where "ok = (db \<and> fits u)"
    let ?v = "(view k s)\<lparr>v_intent := Some u, v_ret := Some (if ok then Written else Unwritten), v_pers := ok,
      v_row := Some (if ok then apply_update now u r else r)\<rparr>"
    have view: "view k s' = ?v" using False by (simp add: s' view_def P ok_def)
    show ?thesis
    proof (rule local_stepI [where v = ?v])
      show "view k s' = ?v" by (rule view)
      show "sub_ok ?v" using E(6) by (auto simp: sub_ok_def)
      show "phase_ok ?v" using E(1,2,3) en by (simp add: phase_ok_def)
      show "intent_ok ?v" using E(1,3,4) r ends by (simp add: intent_ok_def)
      show "row_ok ?v" using ended_row(1) [OF ends r(2)] r(2) E(3,4) E(1) by (simp add: row_ok_def)
      show "row_moves (pjob_row k (js_table s)) (v_row ?v)" using ended_row(2) [OF ends r(2)] r(1) by simp
    qed (use c in \<open>simp_all add: s' holds_slot_def\<close>)
  qed
qed

lemma step_retire_release:
  assumes "retire_release k s = Some s'" and pre: "step_pre k s"
  shows "local_step k s s'"
proof -
  have c: "js_retiring s k = Some Written"
    and s': "s' = s\<lparr>js_free := js_free s + 1, js_retiring := (js_retiring s)(k \<mapsto> Released)\<rparr>"
    using assms(1) by (auto simp: retire_release_def split: if_splits)
  have en: "is_ended (js_futures s k)" using step_preD(2) [OF pre] c by (simp add: phase_ok_def)
  note E = endedD [OF pre en]
  let ?v = "(view k s)\<lparr>v_ret := Some Released\<rparr>"
  show ?thesis
  proof (rule local_stepI [where v = ?v])
    show "view k s' = ?v" by (simp add: s' view_def)
    show "phase_ok ?v" using step_preD(2) [OF pre] c by (simp add: phase_ok_def)
  qed (use step_preD(1,3,4) [OF pre] E(2,5) c in \<open>simp_all add: s' holds_slot_def count1_def\<close>)
qed

lemma step_retire_end:
  assumes "retire_end k s = Some s'" and pre: "step_pre k s"
  shows "local_step k s s'"
proof -
  have c: "js_retiring s k = Some Released \<or> js_retiring s k = Some Unwritten"
    using assms(1) by (auto simp: retire_end_def split: option.splits retire_phase.splits)
  then have en: "is_ended (js_futures s k)" using step_preD(2) [OF pre] by (auto simp: phase_ok_def)
  note E = endedD [OF pre en]
  from c show ?thesis
  proof
    assume c: "js_retiring s k = Some Released"
    with assms(1) have s': "s' = s\<lparr>js_retiring := (js_retiring s)(k := None), js_futures := (js_futures s)(k := None),
       js_cancelled := (js_cancelled s)(k := False), js_intents := (js_intents s)(k := None), js_persisted := js_persisted s - {k}\<rparr>"
      by (simp add: retire_end_def)
    let ?v = "(view k s)\<lparr>v_ret := None, v_fut := None, v_intent := None, v_pers := False\<rparr>"
    show ?thesis
    proof (rule local_stepI [where v = ?v])
      show "view k s' = ?v" by (simp add: s' view_def)
      show "sub_ok ?v" using E(6) by (auto simp: sub_ok_def)
      show "phase_ok ?v" using E(1) by (simp add: phase_ok_def)
      show "intent_ok ?v" using E(1) by (simp add: intent_ok_def)
      show "row_ok ?v" by (simp add: row_ok_def)
    qed (use E(5) c in \<open>simp_all add: s' holds_slot_def\<close>)
  next
    assume c: "js_retiring s k = Some Unwritten"
    with assms(1) have s': "s' = s\<lparr>js_retiring := (js_retiring s)(k := None), js_failed := List.insert k (js_failed s),
       js_started := False, js_shutdown_failed := True\<rparr>" by (simp add: retire_end_def)
    let ?v = "(view k s)\<lparr>v_ret := None\<rparr>"
    show ?thesis
    proof (rule local_stepI [where v = ?v])
      show "view k s' = ?v" by (simp add: s' view_def)
      show "phase_ok ?v" using step_preD(2) [OF pre] by (simp add: phase_ok_def)
    qed (use step_preD(1,3,4) [OF pre] c in \<open>simp_all add: s' holds_slot_def\<close>)
  qed
qed

lemma step_set_cancelled: "set_cancelled k s = Some s' \<Longrightarrow> step_pre k s \<Longrightarrow> local_step k s s'"
  by (intro local_step_same) (auto simp: set_cancelled_def view_def split: if_splits)

lemma step_cancel_future:
  assumes "cancel_future k s = Some s'" and pre: "step_pre k s"
  shows "local_step k s s'"
proof (cases "js_futures s k = Some Waiting")
  case False
  with assms(1) have "s' = s" by (simp add: cancel_future_def)
  then show ?thesis using pre by (intro local_step_same) simp_all
next
  case True
  with assms(1) have s': "s' = s\<lparr>js_futures := (js_futures s)(k \<mapsto> CancelledF)\<rparr>" by (auto simp: cancel_future_def)
  have ph: "js_retiring s k = None" "k \<notin> js_persisted s" "js_runs s k = None"
    using step_preD(2) [OF pre] True by (auto simp: phase_ok_def is_ended_def)
  have int: "js_intents s k = None" using step_preD(3) [OF pre] True by (simp add: intent_ok_def)
  let ?v = "(view k s)\<lparr>v_fut := Some CancelledF\<rparr>"
  show ?thesis
  proof (rule local_stepI [where v = ?v])
    show "view k s' = ?v" by (simp add: s' view_def)
    show "sub_ok ?v" using step_preD(1) [OF pre] True by (auto simp: sub_ok_def)
    show "phase_ok ?v" using ph by (simp add: phase_ok_def)
    show "intent_ok ?v" using int ph by (simp add: intent_ok_def)
    show "row_ok ?v" using step_preD(4) [OF pre] True ph by (auto simp: row_ok_def)
  qed (use True in \<open>simp_all add: s' holds_slot_def\<close>)
qed

lemma step_local:
  assumes "job_step e s = Some s'" and "event_job e = Some k" and "step_pre k s"
  shows "local_step k s s'"
  using assms
  by (cases e) (simp_all add: step_enter step_leave step_acquire step_create step_hand_off step_reject step_release step_pick step_start
      step_progress step_decide step_abort step_intent step_write step_retire_begin step_retire_write step_retire_release
      step_retire_end step_set_cancelled step_cancel_future step_cancel_note)

end
