(* ===== verification/JobSlots.thy ===== *)
theory JobSlots
  imports JobInvariant
begin

text \<open>
  The invariant of the whole executor: every job satisfies its own, the count of pending submissions is the number of them,
  and the free slots and the held ones make up the capacity.
\<close>

section \<open>The invariant of the executor\<close>

text \<open>What no step changes, and the identifiers of the rows.\<close>

lemma static_submission:
  "enter_submission k s = Some s' \<Longrightarrow> js_capacity s' = js_capacity s \<and> js_table s' = js_table s \<and> (js_subs s' i \<noteq> None \<longrightarrow> js_subs s i \<noteq> None \<or> py_strip i = i)"
  "leave_submission k s = Some s' \<Longrightarrow> js_capacity s' = js_capacity s \<and> js_table s' = js_table s \<and> (js_subs s' i \<noteq> None \<longrightarrow> js_subs s i \<noteq> None)"
  "acquire_slot k q auth prov s = Some s' \<Longrightarrow> js_capacity s' = js_capacity s \<and> js_table s' = js_table s \<and> (js_subs s' i \<noteq> None \<longrightarrow> js_subs s i \<noteq> None)"
  "hand_off k ok s = Some s' \<Longrightarrow> js_capacity s' = js_capacity s \<and> js_table s' = js_table s \<and> (js_subs s' i \<noteq> None \<longrightarrow> js_subs s i \<noteq> None)"
  "release_slot_of k s = Some s' \<Longrightarrow> js_capacity s' = js_capacity s \<and> js_table s' = js_table s \<and> (js_subs s' i \<noteq> None \<longrightarrow> js_subs s i \<noteq> None)"
  by (auto simp: enter_submission_def leave_submission_def acquire_slot_def hand_off_def release_slot_of_def
      split: if_splits option.splits submission.splits sum.splits bool.splits)

definition same_ids :: "job_system \<Rightarrow> job_system \<Rightarrow> bool" where
  "same_ids s s' \<longleftrightarrow> js_capacity s' = js_capacity s \<and> map pj_id (js_table s') = map pj_id (js_table s) \<and>
     (\<forall>i. js_subs s' i \<noteq> None \<longrightarrow> js_subs s i \<noteq> None)"

lemma same_ids_run:
  "pick_job k s = Some s' \<Longrightarrow> same_ids s s'"
  "start_run k db now s = Some s' \<Longrightarrow> same_ids s s'"
  "report_progress k db now p m s = Some s' \<Longrightarrow> same_ids s s'"
  "decide_outcome k out now s = Some s' \<Longrightarrow> same_ids s s'"
  "abort_run k nm m s = Some s' \<Longrightarrow> same_ids s s'"
  "set_intent k s = Some s' \<Longrightarrow> same_ids s s'"
  "reject_row k db m now s = Some s' \<Longrightarrow> same_ids s s'"
  by (auto simp: same_ids_def pick_job_def start_run_def report_progress_def decide_outcome_def abort_run_def set_intent_def reject_row_def
      end_run_def ids_after_write split: if_splits option.splits run_phase.splits submission.splits bool.splits)

lemma same_ids_persist: "same_ids s (snd (persist_terminal k u db now s))"
  by (simp add: same_ids_def persist_terminal_def Let_def ids_after_write)

lemma same_ids_end:
  "write_outcome k db now s = Some s' \<Longrightarrow> same_ids s s'"
  "retire_begin k s = Some s' \<Longrightarrow> same_ids s s'"
  "retire_write k db now s = Some s' \<Longrightarrow> same_ids s s'"
  "retire_release k s = Some s' \<Longrightarrow> same_ids s s'"
  "retire_end k s = Some s' \<Longrightarrow> same_ids s s'"
  by (auto simp: same_ids_def write_outcome_def retire_begin_def retire_write_def retire_release_def retire_end_def persist_terminal_def
      end_run_def ids_after_write Let_def split: if_splits option.splits run_phase.splits retire_phase.splits)

lemma same_ids_stop:
  "set_cancelled k s = Some s' \<Longrightarrow> same_ids s s'"
  "cancel_future k s = Some s' \<Longrightarrow> same_ids s s'"
  "cancel_note k db now s = Some s' \<Longrightarrow> same_ids s s'"
  "end_shutdown ok s = Some s' \<Longrightarrow> same_ids s s'"
  "same_ids s (begin_shutdown s)"
  by (auto simp: same_ids_def set_cancelled_def cancel_future_def cancel_note_def end_shutdown_def begin_shutdown_def
      ids_after_write Let_def split: if_splits)

lemma step_create_ids:
  assumes "create_row k db actor c now s = Some s'" and "own_id k s" and "distinct (map pj_id (js_table s))"
  shows "js_capacity s' = js_capacity s" and "distinct (map pj_id (js_table s'))" and "js_subs s' i \<noteq> None \<longrightarrow> js_subs s i \<noteq> None"
proof -
  obtain w where w: "js_subs s k = Some (Holding w)" using assms(1) by (auto simp: create_row_def split: option.splits submission.splits)
  have c: "js_capacity s' = js_capacity s \<and> (\<exists>x. js_subs s' = (js_subs s)(k \<mapsto> x))"
    using assms(1) w by (auto simp: create_row_def split: sum.splits)
  then show "js_capacity s' = js_capacity s" by simp
  show "js_subs s' i \<noteq> None \<longrightarrow> js_subs s i \<noteq> None" using c w by (cases "i = k") auto
  show "distinct (map pj_id (js_table s'))"
  proof (cases "create_platform_job (submitted_row k w actor c now) (js_table s)")
    case (Inl x)
    with assms(1,3) w show ?thesis by (auto simp: create_row_def split: if_splits)
  next
    case (Inr tbl)
    obtain r where r: "tbl = js_table s @ [r]" "pj_id r = py_strip k" "pjob_row (py_strip k) (js_table s) = None"
      using create_row [OF Inr] by (auto simp: submitted_row_id)
    then have "pj_id r \<notin> set (map pj_id (js_table s))" by (auto simp: row_of_None)
    with r(1) assms(1,3) w Inr show ?thesis by (auto simp: create_row_def split: if_splits)
  qed
qed

lemma step_ids:
  assumes "job_step e s = Some s'" and "\<And>k. own_id k s" and "distinct (map pj_id (js_table s))"
  shows "js_capacity s' = js_capacity s \<and> distinct (map pj_id (js_table s')) \<and> own_id i s'"
proof -
  have "js_capacity s' = js_capacity s \<and> distinct (map pj_id (js_table s')) \<and>
      (js_subs s' i \<noteq> None \<longrightarrow> js_subs s i \<noteq> None \<or> py_strip i = i)"
  proof (cases "\<exists>k db actor c now. e = ECreate k db actor c now")
    case True
    then obtain k db actor c now where c: "create_row k db actor c now s = Some s'" using assms(1) by auto
    show ?thesis using step_create_ids(1,2) [OF c assms(2,3)] step_create_ids(3) [OF c assms(2,3), of i] by simp
  next
    case other: False
    show ?thesis
    proof (cases "same_ids s s'")
      case True
      then show ?thesis using assms(3) unfolding same_ids_def by metis
    next
      case False
      then show ?thesis using assms(1,3) other static_submission [where i = i]
        by (cases e) (auto simp: same_ids_run same_ids_end same_ids_stop)
    qed
  qed
  then show ?thesis using assms(2) by (auto simp: own_id_def)
qed

definition job_inv :: "job_system \<Rightarrow> bool" where
  "job_inv s \<longleftrightarrow> distinct (map pj_id (js_table s)) \<and> (\<forall>k. local_ok (view k s)) \<and> (\<forall>k. own_id k s) \<and>
     finite (dom (js_subs s)) \<and> finite (dom (js_futures s)) \<and> js_pending s = card (dom (js_subs s)) \<and>
     js_free s + card {k. holds_slot (view k s)} = js_capacity s"

lemma job_invD:
  assumes "job_inv s"
  shows "distinct (map pj_id (js_table s))" "local_ok (view k s)" "own_id k s" "finite (dom (js_subs s))"
    "finite (dom (js_futures s))" "js_pending s = card (dom (js_subs s))" "js_free s + card {k. holds_slot (view k s)} = js_capacity s"
  using assms by (simp_all add: job_inv_def)

lemma job_inv_pre:
  assumes "job_inv s"
  shows "step_pre k s"
proof -
  have "0 < js_pending s" if "js_subs s k \<noteq> None"
    using that job_invD(4,6) [OF assms] by (auto simp: card_gt_0_iff)
  then show ?thesis using job_invD [OF assms] by (simp add: step_pre_def)
qed

lemma slot_sub_some: "slot_sub f \<Longrightarrow> f \<noteq> None"
  by (cases f) simp_all

lemma holders_finite:
  assumes "finite (dom (js_subs s))" and "finite (dom (js_futures s))"
  shows "finite {k. holds_slot (view k s)}"
proof (rule finite_subset)
  show "{k. holds_slot (view k s)} \<subseteq> dom (js_subs s) \<union> dom (js_futures s)"
    using slot_sub_some by (fastforce simp: holds_slot_def)
qed (use assms in simp)

text \<open>A set that changes in one element\<close>

lemma card_one_changed:
  assumes "finite A" and "\<And>i. i \<noteq> k \<Longrightarrow> i \<in> A \<longleftrightarrow> i \<in> B"
  shows "finite B" and "card B + count1 (k \<in> A) = card A + count1 (k \<in> B)"
proof -
  have AB: "A - {k} = B - {k}" using assms(2) by blast
  have "finite (B - {k})" using assms(1) unfolding AB [symmetric] by (rule finite_Diff)
  then show fin: "finite B" by simp
  have "card C = card (C - {k}) + count1 (k \<in> C)" if "finite C" for C
    using card_Suc_Diff1 [OF that, of k] by (cases "k \<in> C") (simp_all add: count1_def)
  from this [OF assms(1)] this [OF fin] show "card B + count1 (k \<in> A) = card A + count1 (k \<in> B)" using AB by simp
qed

lemma job_inv_quiet:
  assumes "job_inv s" and "\<And>i. view i s' = view i s" and "js_free s' = js_free s" and "js_pending s' = js_pending s"
    and "js_capacity s' = js_capacity s" and "map pj_id (js_table s') = map pj_id (js_table s)"
  shows "job_inv s'"
proof -
  have "js_subs s' i = js_subs s i" "js_futures s' i = js_futures s i" for i
    using assms(2) [of i] view_fields(1,2) [of i s] view_fields(1,2) [of i s'] by simp_all
  then have "js_subs s' = js_subs s" "js_futures s' = js_futures s" by (simp_all add: fun_eq_iff)
  then show ?thesis using assms by (simp add: job_inv_def own_id_def)
qed

lemma job_inv_one:
  assumes inv: "job_inv s" and step: "job_step e s = Some s'" and k: "event_job e = Some k"
  shows "job_inv s'"
proof -
  have loc: "local_step k s s'" by (rule step_local [OF step k job_inv_pre [OF inv]])
  have other: "view i s' = view i s" if "i \<noteq> k" for i
    using view_other [OF step _ job_invD(3) [OF inv]] k that by simp
  have ids: "js_capacity s' = js_capacity s \<and> distinct (map pj_id (js_table s')) \<and> own_id i s'" for i
    by (rule step_ids [OF step job_invD(3,1) [OF inv]])
  have subs: "i \<in> dom (js_subs s) \<longleftrightarrow> i \<in> dom (js_subs s')" and futs: "i \<in> dom (js_futures s) \<longleftrightarrow> i \<in> dom (js_futures s')" if "i \<noteq> k" for i
    using other [OF that] view_fields(1,2) [of i s] view_fields(1,2) [of i s'] by (simp_all add: dom_def)
  note S = card_one_changed [where k = k, OF job_invD(4) [OF inv] subs]
  note F = card_one_changed(1) [where k = k, OF job_invD(5) [OF inv] futs]
  have slots: "i \<in> {k. holds_slot (view k s)} \<longleftrightarrow> i \<in> {k. holds_slot (view k s')}" if "i \<noteq> k" for i using other [OF that] by simp
  note H = card_one_changed(2) [where k = k, OF holders_finite [OF job_invD(4,5) [OF inv]] slots]
  have "local_ok (view i s')" for i
    using loc other [of i] job_invD(2) [OF inv, of i] by (cases "i = k") (simp_all add: local_step_def)
  moreover have "js_pending s' = card (dom (js_subs s'))"
    using S(2) loc job_invD(6) [OF inv] by (simp add: local_step_def dom_def)
  moreover have "js_free s' + card {k. holds_slot (view k s')} = js_capacity s'"
    using H loc job_invD(7) [OF inv] ids by (simp add: local_step_def)
  ultimately show ?thesis using ids S(1) F by (simp add: job_inv_def)
qed

lemma job_inv_step:
  assumes inv: "job_inv s" and step: "job_step e s = Some s'"
  shows "job_inv s'"
proof (cases "event_job e")
  case (Some k)
  then show ?thesis by (rule job_inv_one [OF inv step])
next
  case None
  then have v: "view i s' = view i s" for i by (intro view_other [OF step _ job_invD(3) [OF inv]]) simp
  from None step have "same_ids s s' \<and> js_free s' = js_free s \<and> js_pending s' = js_pending s"
    by (cases e) (auto simp: same_ids_def begin_shutdown_def end_shutdown_def Let_def split: if_splits)
  then show ?thesis by (intro job_inv_quiet [OF inv v]) (simp_all add: same_ids_def)
qed

lemma job_inv_new: "distinct (map pj_id tbl) \<Longrightarrow> job_inv (new_job_system w q now tbl)"
  by (simp add: job_inv_def new_job_system_def Let_def view_def local_ok_def sub_ok_def phase_ok_def intent_ok_def row_ok_def
      holds_slot_def own_id_def recovery_ids)

theorem job_inv_reach: "job_reach s \<Longrightarrow> job_inv s"
  by (induction rule: job_reach.induct) (auto intro: job_inv_new job_inv_step dest: job_invD)

end
