(* ===== verification/JobProperties.thy ===== *)
theory JobProperties
  imports JobSlots
begin

text \<open>
  What the executor of the platform jobs promises, over any interleaving of its threads: its slots, its rows, what a drain
  that succeeded means, the job that can never be retired, and the way out for every other one.
\<close>

fun run_jobs :: "job_event list \<Rightarrow> job_system \<Rightarrow> job_system option" where
  "run_jobs [] s = Some s"
| "run_jobs (e # es) s = (case job_step e s of None \<Rightarrow> None | Some t \<Rightarrow> run_jobs es t)"

text \<open>A later state, with restarts of the process on the way.\<close>

inductive job_later :: "job_system \<Rightarrow> job_system \<Rightarrow> bool" where
  later_refl: "job_later s s"
| later_step: "job_later s t \<Longrightarrow> job_step e t = Some u \<Longrightarrow> job_later s u"
| later_restart: "job_later s t \<Longrightarrow> job_later s (new_job_system w q now (js_table t))"

lemma reach_later: "job_later s t \<Longrightarrow> job_reach s \<Longrightarrow> job_reach t"
  by (induction rule: job_later.induct) (auto intro: job_next job_restart)

lemma reach_run: "run_jobs es s = Some t \<Longrightarrow> job_reach s \<Longrightarrow> job_reach t"
  by (induction es arbitrary: s) (auto intro: job_next split: option.splits)

lemma run_later: "run_jobs es s = Some t \<Longrightarrow> job_later r s \<Longrightarrow> job_later r t"
  by (induction es arbitrary: s) (auto intro: later_step split: option.splits)

section \<open>Rows\<close>

text \<open>How a step moves the row of any job.\<close>

lemma step_row:
  assumes "job_reach s" and "job_step e s = Some s'"
  shows "row_moves (pjob_row k (js_table s)) (pjob_row k (js_table s'))"
proof (cases "event_job e = Some k")
  case True
  from step_local [OF assms(2) True job_inv_pre [OF job_inv_reach [OF assms(1)]]] show ?thesis by (simp add: local_step_def)
next
  case False
  have "view k s' = view k s" by (rule view_other [OF assms(2) False job_invD(3) [OF job_inv_reach [OF assms(1)]]])
  then have "pjob_row k (js_table s') = pjob_row k (js_table s)" using view_fields(7) [of k s] view_fields(7) [of k s'] by simp
  then show ?thesis by simp
qed

lemma restart_row:
  "row_moves (pjob_row k (js_table s)) (pjob_row k (js_table (new_job_system w q now (js_table s))))"
  by (auto simp: new_job_system_def Let_def row_after_recovery row_moves_def legal_move_def is_active_iff interrupt_row_def
      split: option.split)

lemma later_row:
  assumes "job_later s t" and "job_reach s" and "pjob_row k (js_table s) = Some r"
  shows "\<exists>r'. pjob_row k (js_table t) = Some r' \<and> (\<not> is_active r \<longrightarrow> r' = r) \<and> (pj_state r \<noteq> PQueued \<longrightarrow> pj_state r' \<noteq> PQueued)"
  using assms
proof (induction rule: job_later.induct)
  case (later_refl s)
  then show ?case by simp
next
  case (later_step s t e u)
  then obtain x where x: "pjob_row k (js_table t) = Some x" "\<not> is_active r \<longrightarrow> x = r" "pj_state r \<noteq> PQueued \<longrightarrow> pj_state x \<noteq> PQueued" by blast
  from step_row [OF reach_later [OF later_step.hyps(1) later_step.prems(1)] later_step.hyps(2), of k] x
  show ?case by (auto simp: row_moves_def legal_move_def)
next
  case (later_restart s t w q now)
  then obtain x where x: "pjob_row k (js_table t) = Some x" "\<not> is_active r \<longrightarrow> x = r" "pj_state r \<noteq> PQueued \<longrightarrow> pj_state x \<noteq> PQueued" by blast
  from restart_row [of k t w q now] x show ?case by (auto simp: row_moves_def legal_move_def)
qed

section \<open>The job that cannot be retired\<close>

text \<open>An outcome the store refuses: it is decided, or it is the terminal intent and not written.\<close>

definition doomed :: "pystr \<Rightarrow> job_system \<Rightarrow> bool" where
  "doomed k s \<longleftrightarrow> (\<exists>u. \<not> fits u \<and> k \<notin> js_persisted s \<and>
     (js_runs s k = Some (Deciding u) \<or> js_intents s k = Some u)) \<and> js_retiring s k \<noteq> Some Written \<and> js_retiring s k \<noteq> Some Released"

definition doomed_view :: "job_view \<Rightarrow> bool" where
  "doomed_view v \<longleftrightarrow> (\<exists>u. \<not> fits u \<and> \<not> v_pers v \<and> (v_run v = Some (Deciding u) \<or> v_intent v = Some u)) \<and>
     v_ret v \<noteq> Some Written \<and> v_ret v \<noteq> Some Released"

lemma doomed_iff: "doomed k s = doomed_view (view k s)"
  by (simp add: doomed_def doomed_view_def)

lemma misfit_persist:
  assumes "\<not> fits u"
  shows "persist_terminal k u db now s = (False, s)"
  using assms by (simp add: persist_terminal_def store_write_def update_misfit Let_def)

lemma doomed_cases:
  assumes "doomed k s" and "step_pre k s"
  obtains u where "\<not> fits u" "k \<notin> js_persisted s" "js_runs s k = Some (Deciding u)" "js_futures s k = Some Active" "js_retiring s k = None"
  | u where "\<not> fits u" "k \<notin> js_persisted s" "js_runs s k = Some Writing" "js_intents s k = Some u" "js_futures s k = Some Active"
      "js_retiring s k = None"
  | u where "\<not> fits u" "k \<notin> js_persisted s" "js_runs s k = None" "js_intents s k = Some u" "is_ended (js_futures s k)"
      "js_retiring s k \<noteq> Some Written" "js_retiring s k \<noteq> Some Released"
proof -
  obtain u where u: "\<not> fits u" "k \<notin> js_persisted s" "js_runs s k = Some (Deciding u) \<or> js_intents s k = Some u"
    and ret: "js_retiring s k \<noteq> Some Written" "js_retiring s k \<noteq> Some Released"
    using assms(1) by (auto simp: doomed_def)
  show ?thesis
  proof (cases "js_runs s k")
    case None
    with u(3) have i: "js_intents s k = Some u" by simp
    have "js_futures s k \<noteq> None" "js_futures s k \<noteq> Some Active"
      using step_preD(2) [OF assms(2)] i None by (auto simp: phase_ok_def)
    moreover have "js_futures s k \<noteq> Some Waiting" using step_preD(3) [OF assms(2)] i by (auto simp: intent_ok_def)
    ultimately have "is_ended (js_futures s k)" by (auto simp: is_ended_def split: option.split future.split)
    with that(3) u i ret None show ?thesis by blast
  next
    case (Some ph)
    note R = runningD [OF assms(2) Some]
    show ?thesis
    proof (cases "ph = Writing")
      case True
      with u(3) Some have "js_intents s k = Some u" by simp
      with that(2) u R(1,2) Some True show ?thesis by blast
    next
      case False
      with R(4) have "js_intents s k = None" by simp
      with u(3) have "js_runs s k = Some (Deciding u)" by simp
      with that(1) u R(1,2) show ?thesis by blast
    qed
  qed
qed

lemma doomed_registered:
  assumes "doomed k s" and "step_pre k s"
  shows "js_futures s k \<noteq> None" "js_futures s k \<noteq> Some Waiting" "slot_sub (js_subs s k) = False"
    "js_subs s k = None \<or> js_subs s k = Some Owned"
proof -
  show f: "js_futures s k \<noteq> None" "js_futures s k \<noteq> Some Waiting"
    by (rule doomed_cases [OF assms]; auto dest: is_endedD)+
  show o: "js_subs s k = None \<or> js_subs s k = Some Owned" using step_preD(1) [OF assms(2)] f by (auto simp: sub_ok_def)
  then show "slot_sub (js_subs s k) = False" by auto
qed

lemma doomed_quiet:
  assumes "doomed k s" and "js_persisted s' = js_persisted s" "js_runs s' = js_runs s" "js_intents s' = js_intents s" "js_retiring s' = js_retiring s"
  shows "doomed k s'"
  using assms by (simp add: doomed_def)

lemma doomed_early:
  assumes d: "doomed k s" and pre: "step_pre k s"
  shows "enter_submission k s = None" "acquire_slot k q auth prov s = None" "create_row k db actor c now s = None" "hand_off k ok s = None"
    "reject_row k db m now s = None" "release_slot_of k s = None" "pick_job k s = None" "start_run k db now s = None"
    "report_progress k db now p m s = None" "decide_outcome k out now s = None" "abort_run k nm m s = None" "retire_release k s = None"
proof -
  note D = doomed_registered [OF d pre]
  have r: "js_runs s k \<noteq> Some Starting" "js_runs s k \<noteq> Some Body" by (rule doomed_cases [OF d pre]; simp)+
  show "start_run k db now s = None" "report_progress k db now p m s = None" "decide_outcome k out now s = None" "abort_run k nm m s = None"
    using r by (simp_all add: start_run_def report_progress_def decide_outcome_def abort_run_def)
  show "enter_submission k s = None" "pick_job k s = None" using D(1,2) by (simp_all add: enter_submission_def pick_job_def)
  show "retire_release k s = None" using d by (simp add: retire_release_def doomed_def)
  show "acquire_slot k q auth prov s = None" "create_row k db actor c now s = None" "hand_off k ok s = None" "reject_row k db m now s = None"
    "release_slot_of k s = None"
    using D(4) by (auto simp: acquire_slot_def create_row_def hand_off_def reject_row_def release_slot_of_def)
qed

lemma doomed_intent:
  assumes "set_intent k s = Some s'" and d: "doomed k s" and pre: "step_pre k s"
  shows "doomed k s'"
  using doomed_cases [OF d pre]
proof cases
  case (1 u)
  with assms(1) have "s' = s\<lparr>js_intents := (js_intents s)(k \<mapsto> u), js_runs := (js_runs s)(k \<mapsto> Writing)\<rparr>" by (simp add: set_intent_def)
  with 1 show ?thesis by (simp add: doomed_def)
qed (use assms(1) in \<open>simp_all add: set_intent_def\<close>)

lemma doomed_write:
  assumes "write_outcome k db now s = Some s'" and d: "doomed k s" and pre: "step_pre k s"
  shows "doomed k s'"
  using doomed_cases [OF d pre]
proof cases
  case (2 u)
  with assms(1) have "s' = end_run k (Some (''RuntimeError'', [])) s" by (simp add: write_outcome_def misfit_persist)
  with 2 show ?thesis by (simp add: doomed_def end_run_def)
qed (use assms(1) in \<open>simp_all add: write_outcome_def\<close>)

lemma doomed_retire:
  assumes d: "doomed k s" and pre: "step_pre k s"
  shows "retire_begin k s = Some s' \<Longrightarrow> doomed k s'" "retire_write k db now s = Some s' \<Longrightarrow> doomed k s'" "retire_end k s = Some s' \<Longrightarrow> doomed k s'"
proof -
  show "doomed k s'" if "retire_begin k s = Some s'"
    using doomed_cases [OF d pre] by cases (use that in \<open>auto simp: retire_begin_def doomed_def is_ended_def split: if_splits\<close>)
  show "doomed k s'" if e: "retire_end k s = Some s'"
    using doomed_cases [OF d pre]
  proof cases
    case (3 u)
    with e have "s' = s\<lparr>js_retiring := (js_retiring s)(k := None), js_failed := List.insert k (js_failed s), js_started := False,
        js_shutdown_failed := True\<rparr>" by (auto simp: retire_end_def split: option.splits retire_phase.splits)
    with 3 show ?thesis by (simp add: doomed_def)
  qed (use e in \<open>simp_all add: retire_end_def\<close>)
  show "doomed k s'" if e: "retire_write k db now s = Some s'"
    using doomed_cases [OF d pre]
  proof cases
    case (3 u)
    then obtain f where "js_futures s k = Some f" by (cases "js_futures s k") (simp_all add: is_ended_def)
    moreover have "(js_intents s)(k \<mapsto> u) = js_intents s" using 3(4) by auto
    ultimately have "s' = s\<lparr>js_retiring := (js_retiring s)(k \<mapsto> Unwritten)\<rparr>"
      using e 3 by (auto simp: retire_write_def misfit_persist Let_def split: option.splits retire_phase.splits)
    with 3 show ?thesis by (simp add: doomed_def)
  qed (use e in \<open>simp_all add: retire_write_def\<close>)
qed

lemma doomed_own:
  assumes "job_step e s = Some s'" and d: "doomed k s" and pre: "step_pre k s" and "event_job e = Some k"
  shows "doomed k s'"
proof (cases "(\<exists>db now. e = ECancelNote k db now) \<or> e = ECancel k \<or> e = ECancelFuture k \<or> e = ELeave k")
  case True
  then have "js_persisted s' = js_persisted s \<and> js_runs s' = js_runs s \<and> js_intents s' = js_intents s \<and> js_retiring s' = js_retiring s"
    using assms(1) by (auto simp: cancel_note_def set_cancelled_def cancel_future_def leave_submission_def
        split: if_splits option.splits submission.splits bool.splits)
  then show ?thesis by (intro doomed_quiet [OF d]) simp_all
next
  case False
  with assms(1,4) show ?thesis
    by (cases e) (simp_all add: doomed_early [OF d pre] doomed_intent [OF _ d pre] doomed_write [OF _ d pre] doomed_retire [OF d pre])
qed

lemma doomed_step:
  assumes "job_reach s" and "job_step e s = Some s'" and "doomed k s"
  shows "doomed k s'"
proof (cases "event_job e = Some k")
  case True
  then show ?thesis using doomed_own assms job_inv_pre [OF job_inv_reach] by blast
next
  case False
  have "view k s' = view k s" by (rule view_other [OF assms(2) False job_invD(3) [OF job_inv_reach [OF assms(1)]]])
  with assms(3) show ?thesis by (simp add: doomed_iff)
qed

lemma doomed_run: "run_jobs es s = Some t \<Longrightarrow> job_reach s \<Longrightarrow> doomed k s \<Longrightarrow> doomed k t"
  by (induction es arbitrary: s) (auto intro: doomed_step job_next split: option.splits)

section \<open>The way out of a job\<close>

text \<open>The next step of the thread that owns a job, when the store answers.\<close>

definition owner_next :: "pystr \<Rightarrow> job_outcome \<Rightarrow> pystr \<Rightarrow> job_system \<Rightarrow> job_event option" where
  "owner_next k out now s = (case js_futures s k of
     None \<Rightarrow> None
   | Some Waiting \<Rightarrow> Some (EPick k)
   | Some Active \<Rightarrow> (case js_runs s k of
       None \<Rightarrow> None
     | Some Starting \<Rightarrow> Some (EStart k True now)
     | Some Body \<Rightarrow> Some (EDecide k (if js_cancelled s k then RaisedCancelled [] else out) now)
     | Some (Deciding u) \<Rightarrow> Some (EIntent k)
     | Some Writing \<Rightarrow> Some (EWrite k True now))
   | _ \<Rightarrow> (case js_retiring s k of
       None \<Rightarrow> Some (ERetireBegin k)
     | Some Begun \<Rightarrow> Some (ERetireWrite k True now)
     | Some Written \<Rightarrow> Some (ERetireRelease k)
     | _ \<Rightarrow> Some (ERetireEnd k)))"

fun drive :: "nat \<Rightarrow> pystr \<Rightarrow> job_outcome \<Rightarrow> pystr \<Rightarrow> job_system \<Rightarrow> job_system" where
  "drive 0 k out now s = s"
| "drive (Suc n) k out now s = (case owner_next k out now s of None \<Rightarrow> s
     | Some e \<Rightarrow> (case job_step e s of None \<Rightarrow> s | Some t \<Rightarrow> drive n k out now t))"

definition work_left :: "pystr \<Rightarrow> job_system \<Rightarrow> nat" where
  "work_left k s = (case js_futures s k of
     None \<Rightarrow> 0 | Some Waiting \<Rightarrow> 10
   | Some Active \<Rightarrow> (case js_runs s k of None \<Rightarrow> 0 | Some Starting \<Rightarrow> 9 | Some Body \<Rightarrow> 8 | Some (Deciding u) \<Rightarrow> 7 | Some Writing \<Rightarrow> 6)
   | _ \<Rightarrow> (case js_retiring s k of None \<Rightarrow> 4 | Some Unwritten \<Rightarrow> 5 | Some Begun \<Rightarrow> 3 | Some Written \<Rightarrow> 2 | Some Released \<Rightarrow> 1))"

definition storable :: "pystr \<Rightarrow> job_system \<Rightarrow> bool" where
  "storable k s \<longleftrightarrow> (case js_intents s k of None \<Rightarrow> True | Some u \<Rightarrow> fits u) \<and>
     (case js_runs s k of Some (Deciding u) \<Rightarrow> fits u | _ \<Rightarrow> True)"

definition fits_outcome :: "job_outcome \<Rightarrow> bool" where
  "fits_outcome out \<longleftrightarrow> (case out of Returned v \<Rightarrow> \<not> oversized v | _ \<Rightarrow> True)"

lemma outcome_fits: "fits_outcome out \<Longrightarrow> fits (outcome_update out now)"
  by (cases out) (simp_all add: fits_outcome_def fits_def success_update_def failure_update_def)

text \<open>One step on the way: the work shrinks, and the last step leaves a row that is over and no slot.\<close>

definition advances :: "pystr \<Rightarrow> job_system \<Rightarrow> job_system \<Rightarrow> bool" where
  "advances k s t \<longleftrightarrow> work_left k t < work_left k s \<and> storable k t \<and>
     (js_futures t k = None \<longrightarrow> \<not> holds_slot (view k t) \<and> (\<exists>r. pjob_row k (js_table t) = Some r \<and> \<not> is_active r))"

lemma advance_run:
  assumes pre: "step_pre k s" and st: "storable k s" and out: "fits_outcome out" and f: "js_futures s k = Some Active"
  shows "\<exists>e t. owner_next k out now s = Some e \<and> job_step e s = Some t \<and> advances k s t"
proof -
  obtain ph where ph: "js_runs s k = Some ph" using step_preD(2) [OF pre] f by (auto simp: phase_ok_def)
  note R = runningD [OF pre ph]
  show ?thesis
  proof (cases ph)
    case Starting
    then show ?thesis using ph f st R(4) by (auto simp: owner_next_def start_run_def advances_def work_left_def storable_def)
  next
    case Body
    then show ?thesis using ph f st R(4) outcome_fits [OF out] outcome_fits [of "RaisedCancelled []" now]
      by (auto simp: owner_next_def decide_outcome_def advances_def work_left_def storable_def fits_outcome_def split: job_outcome.split)
  next
    case (Deciding u)
    then show ?thesis using ph f st by (auto simp: owner_next_def set_intent_def advances_def work_left_def storable_def)
  next
    case Writing
    then obtain u where u: "js_intents s k = Some u" using R(4) by auto
    then have "\<exists>e. write_outcome k True now s = Some (end_run k e (snd (persist_terminal k u True now s)))"
      using ph Writing by (auto simp: write_outcome_def Let_def)
    then obtain e where "write_outcome k True now s = Some (end_run k e (snd (persist_terminal k u True now s)))" by blast
    then show ?thesis using ph f st u R(2) Writing
      by (auto simp: owner_next_def advances_def work_left_def storable_def end_run_def)
  qed
qed

lemma advance_retire:
  assumes pre: "step_pre k s" and st: "storable k s" and en: "is_ended (js_futures s k)"
  shows "\<exists>e t. owner_next k out now s = Some e \<and> job_step e s = Some t \<and> advances k s t"
proof -
  note E = endedD [OF pre en]
  obtain f where f: "js_futures s k = Some f" "f \<noteq> Waiting" "f \<noteq> Active" using E(2-4) by (cases "js_futures s k") auto
  have own: "owner_next k out now s = (case js_retiring s k of None \<Rightarrow> Some (ERetireBegin k)
     | Some Begun \<Rightarrow> Some (ERetireWrite k True now) | Some Written \<Rightarrow> Some (ERetireRelease k) | _ \<Rightarrow> Some (ERetireEnd k))"
    using f by (cases f) (simp_all add: owner_next_def)
  have work: "work_left k t = (case js_retiring t k of None \<Rightarrow> 4 | Some Unwritten \<Rightarrow> 5 | Some Begun \<Rightarrow> 3 | Some Written \<Rightarrow> 2 | Some Released \<Rightarrow> 1)"
    if "js_futures t k = Some f" for t using that f by (cases f) (simp_all add: work_left_def)
  show ?thesis
  proof (cases "js_retiring s k")
    case None
    then show ?thesis using own work f en st by (auto simp: retire_begin_def advances_def storable_def)
  next
    case (Some ph)
    show ?thesis
    proof (cases ph)
      case Begun
      show ?thesis
      proof (cases "k \<in> js_persisted s")
        case True
        with Some Begun show ?thesis using own work f st by (auto simp: retire_write_def advances_def storable_def)
      next
        case False
        define u where "u = retire_choice k now f s"
        obtain r where r: "pjob_row k (js_table s) = Some r" "is_active r" using E(7) False by auto
        have ends: "ends_row u r"
          using E(8) False r orphan_ends_row [OF r(2)] by (auto simp: u_def retire_choice_def split: option.split)
        have fits: "fits u" using st note_fits(5) by (auto simp: u_def retire_choice_def storable_def split: option.splits)
        let ?s = "s\<lparr>js_intents := (js_intents s)(k \<mapsto> u)\<rparr>"
        have d: "distinct (map pj_id (js_table ?s))" "pjob_row k (js_table ?s) = Some r" using step_preD(5) [OF pre] r by simp_all
        have ok: "fst (persist_terminal k u True now ?s)" using persist_cases(1) [OF d ends] fits by simp
        have "retire_write k True now s = Some ((snd (persist_terminal k u True now ?s))\<lparr>js_retiring := (js_retiring s)(k \<mapsto> Written)\<rparr>)"
          using Some Begun f(1) False ok by (simp add: retire_write_def Let_def u_def retire_choice_def)
        with Some Begun show ?thesis using own work f(1) fits E(1) by (auto simp: advances_def storable_def)
      qed
    next
      case Written
      with Some show ?thesis using own work f(1) st by (auto simp: retire_release_def advances_def storable_def)
    next
      case Unwritten
      with Some show ?thesis using own work f(1) st by (auto simp: retire_end_def advances_def storable_def)
    next
      case Released
      have "k \<in> js_persisted s" using step_preD(2) [OF pre] Some Released by (simp add: phase_ok_def)
      then obtain r where "pjob_row k (js_table s) = Some r" "\<not> is_active r" using E(7) by auto
      with Some Released show ?thesis using own work [OF f(1)] st E(1,5)
        by (auto simp: retire_end_def advances_def storable_def work_left_def holds_slot_def)
    qed
  qed
qed

lemma owner_advances:
  assumes "step_pre k s" and "storable k s" and "fits_outcome out" and "js_futures s k \<noteq> None"
  shows "\<exists>e t. owner_next k out now s = Some e \<and> job_step e s = Some t \<and> advances k s t"
proof -
  obtain f where "js_futures s k = Some f" using assms(4) by auto
  then consider (waiting) "js_futures s k = Some Waiting" | (active) "js_futures s k = Some Active" | (over) "is_ended (js_futures s k)"
    by (cases f) (simp_all add: is_ended_def)
  then show ?thesis
  proof cases
    case waiting
    moreover have "js_intents s k = None" using step_preD(3) [OF assms(1)] waiting by (simp add: intent_ok_def)
    ultimately show ?thesis by (auto simp: owner_next_def pick_job_def advances_def work_left_def storable_def)
  next
    case active
    show ?thesis by (rule advance_run [OF assms(1-3) active])
  next
    case over
    show ?thesis by (rule advance_retire [OF assms(1,2) over])
  qed
qed

lemma drive_done: "js_futures s k = None \<Longrightarrow> drive n k out now s = s"
  by (cases n) (simp_all add: owner_next_def)

lemma drive_finishes:
  assumes "job_inv s" and "storable k s" and "fits_outcome out" and "js_futures s k \<noteq> None" and "work_left k s \<le> n"
  shows "js_futures (drive n k out now s) k = None \<and> \<not> holds_slot (view k (drive n k out now s)) \<and>
    (\<exists>r. pjob_row k (js_table (drive n k out now s)) = Some r \<and> \<not> is_active r)"
  using assms
proof (induction n arbitrary: s)
  case 0
  obtain t where "advances k s t" using owner_advances [OF job_inv_pre [OF 0(1)] 0(2-4)] by blast
  with 0(5) show ?case by (simp add: advances_def)
next
  case (Suc n)
  obtain e t where t: "owner_next k out now s = Some e" "job_step e s = Some t" "advances k s t"
    using owner_advances [OF job_inv_pre [OF Suc(2)] Suc(3-5)] by blast
  then have drive: "drive (Suc n) k out now s = drive n k out now t" by simp
  show ?case
  proof (cases "js_futures t k = None")
    case True
    with t(3) show ?thesis unfolding drive by (simp add: drive_done advances_def)
  next
    case False
    show ?thesis unfolding drive
      by (rule Suc.IH [OF job_inv_step [OF Suc(2) t(2)] _ Suc(4) False]) (use t(3) Suc(6) in \<open>simp_all add: advances_def\<close>)
  qed
qed

lemma work_bound: "work_left k s \<le> 10"
  by (simp add: work_left_def split: option.split future.split run_phase.split retire_phase.split)

section \<open>After a drain\<close>

definition quiescent :: "job_system \<Rightarrow> bool" where
  "quiescent s \<longleftrightarrow> job_inv s \<and> \<not> js_accepting s \<and> js_subs s = Map.empty \<and> js_futures s = Map.empty"

definition row_states :: "pjob list \<Rightarrow> (pystr \<times> pjob_state) list" where
  "row_states tbl = map (\<lambda>r. (pj_id r, pj_state r)) tbl"

lemma quiescent_parts:
  assumes "quiescent s"
  shows "js_runs s k = None" "js_retiring s k = None" "js_free s = js_capacity s" "js_pending s = 0"
proof -
  have inv: "job_inv s" and e: "js_subs s = Map.empty" "js_futures s = Map.empty" using assms by (simp_all add: quiescent_def)
  show "js_runs s k = None" "js_retiring s k = None"
    using step_preD(2) [OF job_inv_pre [OF inv, of k]] e by (auto simp: phase_ok_def)
  have h: "{k. holds_slot (view k s)} = {}" using e by (simp add: holds_slot_def)
  show "js_free s = js_capacity s" using job_invD(7) [OF inv] by (simp add: h)
  show "js_pending s = 0" using job_invD(6) [OF inv] e by simp
qed

lemma drained_quiescent:
  assumes "job_reach s" and "drained True s" and "\<not> js_accepting s"
  shows "quiescent s"
proof -
  have inv: "job_inv s" by (rule job_inv_reach [OF assms(1)])
  have "js_subs s = Map.empty" using job_invD(4,6) [OF inv] assms(2) by (simp add: drained_def)
  with inv assms show ?thesis by (simp add: quiescent_def drained_def)
qed

lemma note_states:
  assumes "pu_state u = None"
  shows "row_states (snd (store_write db now k u tbl)) = row_states tbl"
proof -
  have "row_states (upd_where p (apply_update now u) tbl) = row_states tbl" for p
    by (induction tbl) (simp_all add: row_states_def upd_where_def updated_state assms or_old_def)
  then show ?thesis by (auto simp: store_write_def update_platform_job_def Let_def)
qed

lemma quiescent_step:
  assumes q: "quiescent s" and step: "job_step e s = Some t"
  shows "quiescent t \<and> row_states (js_table t) = row_states (js_table s) \<and> js_capacity t = js_capacity s"
proof -
  note Q = quiescent_parts [OF q]
  have e: "js_subs s = Map.empty" "js_futures s = Map.empty" "\<not> js_accepting s" and inv: "job_inv s" using q by (simp_all add: quiescent_def)
  have "(\<exists>k db now. e = ECancelNote k db now) \<or> (\<exists>k. e = ECancelFuture k) \<or> e = EShutdown \<or> (\<exists>ok. e = EShutdownEnd ok)"
    using step e Q
    by (cases e) (simp_all add: enter_submission_def leave_submission_def acquire_slot_def create_row_def hand_off_def reject_row_def
      release_slot_of_def pick_job_def start_run_def report_progress_def decide_outcome_def abort_run_def set_intent_def
      write_outcome_def retire_begin_def retire_write_def retire_release_def retire_end_def set_cancelled_def is_ended_def)
  then have "js_subs t = js_subs s \<and> js_futures t = js_futures s \<and> \<not> js_accepting t \<and> row_states (js_table t) = row_states (js_table s) \<and>
      js_capacity t = js_capacity s"
    using step e by (auto simp: cancel_note_def cancel_future_def begin_shutdown_def end_shutdown_def Let_def note_states note_active(3) split: if_splits)
  with e job_inv_step [OF inv step] show ?thesis by (simp add: quiescent_def)
qed

lemma quiescent_run:
  "run_jobs es s = Some t \<Longrightarrow> quiescent s \<Longrightarrow> quiescent t \<and> row_states (js_table t) = row_states (js_table s) \<and> js_capacity t = js_capacity s"
proof (induction es arbitrary: s)
  case (Cons e es)
  then obtain u where u: "job_step e s = Some u" "run_jobs es u = Some t" by (auto split: option.splits)
  from quiescent_step [OF Cons.prems(2) u(1)] Cons.IH [OF u(2)] show ?case by simp
qed simp

end
