(* ===== verification/JobPromises.thy ===== *)
theory JobPromises
  imports JobProperties
begin

text \<open>
  The properties of the executor of the platform jobs, each with its witness on one process that runs one job.
\<close>

section \<open>One job of one process\<close>

definition demo_request :: platform_request where
  "demo_request = \<lparr>jr_kind = ''Scan'', jr_surface = ''cli'', jr_timeout = 60, jr_workload = []\<rparr>"

definition demo_start :: job_system where
  "demo_start = new_job_system 1 1 ''t0'' []"

definition demo_running :: job_system where
  "demo_running = the (run_jobs [EEnter ''j'', EAcquire ''j'' demo_request (Inr ()) NoProvider, ECreate ''j'' True ''me'' ''c'' ''t1'',
     EHandOff ''j'' True, ELeave ''j'', EPick ''j'', EStart ''j'' True ''t2''] demo_start)"

text \<open>The pool refuses the job, and the process stops.\<close>

definition demo_stopped :: job_system where
  "demo_stopped = the (run_jobs [EEnter ''j'', EAcquire ''j'' demo_request (Inr ()) NoProvider, ECreate ''j'' True ''me'' ''c'' ''t1'',
     EHandOff ''j'' False, EReject ''j'' True ''full'' ''t2'', ERelease ''j'', ELeave ''j'', EShutdown, EShutdownEnd True] demo_start)"

lemma reach_the:
  assumes "job_reach s" and "\<not> Option.is_none (run_jobs es s)"
  shows "job_reach (the (run_jobs es s))"
  using assms reach_run by (cases "run_jobs es s") auto

lemma demo_reach: "job_reach demo_running"
  unfolding demo_running_def
  by (rule reach_the, unfold demo_start_def, rule job_first, simp) code_simp

lemma demo_stopped_reach: "job_reach demo_stopped"
  unfolding demo_stopped_def
  by (rule reach_the, unfold demo_start_def, rule job_first, simp) code_simp

lemma demo_body: "js_runs demo_running ''j'' = Some Body" by code_simp
lemma demo_active: "js_futures demo_running ''j'' = Some Active" by code_simp
lemma demo_not_cancelled: "\<not> js_cancelled demo_running ''j''" by code_simp
lemma demo_intent: "js_intents demo_running ''j'' = None" by code_simp
lemma demo_free: "js_free demo_running = 1 \<and> js_capacity demo_running = 2" by code_simp

section \<open>The slots\<close>

lemma releasing_holds:
  assumes "step_pre k s" and "release_slot_of k s \<noteq> None \<or> retire_release k s \<noteq> None"
  shows "holds_slot (view k s)"
  using assms(2)
proof
  assume "release_slot_of k s \<noteq> None"
  then show ?thesis by (auto simp: release_slot_of_def holds_slot_def split: option.splits submission.splits bool.splits)
next
  assume r: "retire_release k s \<noteq> None"
  then have w: "js_retiring s k = Some Written" by (auto simp: retire_release_def split: if_splits)
  then have "js_futures s k \<noteq> None" using step_preD(2) [OF assms(1)] by (auto simp: phase_ok_def)
  with w show ?thesis by (simp add: holds_slot_def)
qed

text \<open>C6: Whatever the interleaving of submitters, workers, retirements, cancellations and shutdown, over any number of restarts, the
  free slots of the semaphore and the jobs that hold one make up its capacity, the count of pending submissions is the number
  of them, and where a slot is about to be given back the semaphore is not full, so its release never raises.\<close>

theorem slots_exact:
  assumes "job_reach s"
  shows "js_free s + card {k. holds_slot (view k s)} = js_capacity s \<and> js_pending s = card (dom (js_subs s)) \<and>
    (release_slot_of k s \<noteq> None \<or> retire_release k s \<noteq> None \<longrightarrow> js_free s < js_capacity s)"
proof -
  have inv: "job_inv s" by (rule job_inv_reach [OF assms])
  have fin: "finite {k. holds_slot (view k s)}" by (rule holders_finite [OF job_invD(4,5) [OF inv]])
  have "0 < card {k. holds_slot (view k s)}" if "release_slot_of k s \<noteq> None \<or> retire_release k s \<noteq> None"
    using releasing_holds [OF job_inv_pre [OF inv] that] fin by (auto simp: card_gt_0_iff)
  then show ?thesis using job_invD(6,7) [OF inv] by auto
qed

theorem slots_exact_witness: "card {k. holds_slot (view k demo_running)} = 1"
  using slots_exact [OF demo_reach, of "''j''"] demo_free by linarith

section \<open>The rows\<close>


lemma demo_stopped_row: "map_option pj_state (pjob_row ''j'' (js_table demo_stopped)) = Some PFailed" by code_simp


text \<open>What the constraints of the table and the limits of its columns ask of a row.\<close>

definition row_wf :: "pjob \<Rightarrow> bool" where
  "row_wf r \<longleftrightarrow> pj_id r \<noteq> [] \<and> length (pj_id r) \<le> 160 \<and> pj_kind r \<noteq> [] \<and> length (pj_kind r) \<le> 128 \<and>
     pj_surface r \<noteq> [] \<and> length (pj_surface r) \<le> 64 \<and> 0 \<le> pj_progress r \<and> pj_progress r \<le> 1 \<and>
     length (pj_message r) \<le> 1024 \<and> length (pj_error_code r) \<le> 128 \<and> length (pj_error_message r) \<le> 4096 \<and>
     length (pj_actor r) \<le> 256 \<and> length (pj_correlation r) \<le> 256 \<and> 0 < pj_timeout r \<and> pj_timeout r \<le> 86400 \<and>
     \<not> oversized (pj_result r)"

lemma null_fits: "\<not> oversized JNull"
  using utf8_len_le [of "''null''"] by (simp add: oversized_def MAX_RESULT_def)

lemma created_wf:
  assumes "create_platform_job n tbl = Inr tbl'"
  shows "\<exists>r. tbl' = tbl @ [r] \<and> row_wf r"
proof -
  obtain st where p: "parse_job_state (np_state n) = Inr st"
    using assms by (cases "parse_job_state (np_state n)") (simp_all add: create_platform_job_def)
  have g: "\<not> (py_strip (np_id n) = [] \<or> 160 < length (py_strip (np_id n)))"
    "\<not> (py_strip (np_kind n) = [] \<or> 128 < length (py_strip (np_kind n)) \<or> py_strip (np_surface n) = [] \<or> 64 < length (py_strip (np_surface n)))"
    "\<not> (row_of pj_id (py_strip (np_id n)) tbl \<noteq> None \<or> \<not> (0 \<le> np_progress n \<and> np_progress n \<le> 1) \<or> \<not> (0 < np_timeout n \<and> np_timeout n \<le> 86400))"
    using assms by (simp_all add: create_platform_job_def p Let_def split: if_splits)
  then show ?thesis using assms unfolding create_platform_job_def p Let_def ebind.simps
    by (simp only: if_False simp_thms sum.inject) (clarsimp simp: row_wf_def null_fits not_less not_le)
qed

lemma wf_created:
  assumes "create_platform_job n tbl = Inr tbl'" and "\<forall>r\<in>set tbl. row_wf r"
  shows "\<forall>r\<in>set tbl'. row_wf r"
proof -
  obtain r where "tbl' = tbl @ [r]" "row_wf r" using created_wf [OF assms(1)] by blast
  with assms(2) show ?thesis by simp
qed

lemma or_old_bounds:
  "length old \<le> n \<Longrightarrow> length (or_old (map_option (take n) t) old) \<le> n"
  "0 \<le> (q :: rat) \<Longrightarrow> 0 \<le> or_old (map_option (\<lambda>p. max 0 (min 1 p)) p) q"
  "q \<le> 1 \<Longrightarrow> or_old (map_option (\<lambda>p. max 0 (min 1 p)) p) q \<le> 1"
  by (cases t; simp add: or_old_def) (cases p; simp add: or_old_def)+

lemma wf_updated:
  assumes "row_wf r" and "fits u"
  shows "row_wf (apply_update now u r)"
proof -
  have "\<not> oversized (or_old (pu_result u) (pj_result r))"
    using assms by (cases "pu_result u") (simp_all add: or_old_def fits_def row_wf_def)
  with assms(1) show ?thesis by (simp add: row_wf_def apply_update_def or_old_bounds)
qed

lemma wf_written: "\<forall>r\<in>set tbl. row_wf r \<Longrightarrow> \<forall>r\<in>set (snd (store_write db now k u tbl)). row_wf r"
proof (cases "fits u")
  case True
  assume "\<forall>r\<in>set tbl. row_wf r"
  with True wf_updated show ?thesis
    by (auto simp: store_write_def update_platform_job_def Let_def set_upd_where split: if_splits option.splits)
next
  case False
  then show "\<forall>r\<in>set tbl. row_wf r \<Longrightarrow> ?thesis" by (simp add: store_write_def update_misfit)
qed

lemma wf_recovered: "\<forall>r\<in>set tbl. row_wf r \<Longrightarrow> \<forall>r\<in>set (snd (recover_platform_jobs now tbl)). row_wf r"
  by (auto simp: recover_platform_jobs_def set_upd_where row_wf_def interrupt_row_def split: if_splits)

text \<open>A step writes the table once, creates a row in it, or leaves it.\<close>

definition table_step :: "pjob list \<Rightarrow> pjob list \<Rightarrow> bool" where
  "table_step tbl tbl' \<longleftrightarrow> tbl' = tbl \<or> (\<exists>db now k u. tbl' = snd (store_write db now k u tbl)) \<or>
     (\<exists>n. create_platform_job n tbl = Inr tbl')"

lemma table_stepI:
  "table_step tbl tbl" "table_step tbl (snd (store_write db now k u tbl))" "create_platform_job n tbl = Inr tbl' \<Longrightarrow> table_step tbl tbl'"
  by (auto simp: table_step_def)

lemma step_table:
  assumes "job_step e s = Some s'"
  shows "table_step (js_table s) (js_table s')"
proof (cases e)
  case (ECreate k db actor c now)
  with assms show ?thesis by (auto simp: create_row_def table_stepI split: option.splits submission.splits sum.splits if_splits)
next
  case (EReject k db m now)
  with assms show ?thesis by (auto simp: reject_row_def table_stepI split: option.splits submission.splits bool.splits)
next
  case (EStart k db now)
  with assms show ?thesis by (auto simp: start_run_def end_run_def table_stepI split: if_splits)
next
  case (EProgress k db now p m)
  with assms show ?thesis by (auto simp: report_progress_def table_stepI split: if_splits)
next
  case (EWrite k db now)
  with assms show ?thesis
    by (auto simp: write_outcome_def end_run_def persist_terminal_def Let_def table_stepI split: option.splits run_phase.splits)
next
  case (ERetireWrite k db now)
  with assms show ?thesis
    by (auto simp: retire_write_def persist_terminal_def Let_def table_stepI split: option.splits retire_phase.splits if_splits)
next
  case (ECancelNote k db now)
  with assms show ?thesis by (auto simp: cancel_note_def table_stepI)
qed (use assms in \<open>auto simp: enter_submission_def leave_submission_def acquire_slot_def hand_off_def release_slot_of_def pick_job_def
    decide_outcome_def abort_run_def end_run_def set_intent_def retire_begin_def retire_release_def retire_end_def set_cancelled_def
    cancel_future_def begin_shutdown_def end_shutdown_def Let_def table_stepI
    split: option.splits submission.splits sum.splits bool.splits if_splits run_phase.splits retire_phase.splits\<close>)

text \<open>C34: Every row the executor and its store ever leave satisfies the constraints of the table and the limits of its columns: texts
  within their lengths, progress between 0 and 1, a timeout of at most a day and a result of at most 1 MiB.\<close>

theorem stored_rows_wellformed:
  assumes "job_later s t" and "\<forall>r\<in>set (js_table s). row_wf r"
  shows "\<forall>r\<in>set (js_table t). row_wf r"
  using assms
proof (induction rule: job_later.induct)
  case (later_step s t e u)
  then have wf: "\<forall>r\<in>set (js_table t). row_wf r" by blast
  from step_table [OF later_step.hyps(2)] show ?case unfolding table_step_def using wf wf_written [OF wf] wf_created [OF _ wf] by auto
next
  case (later_restart s t w q now)
  then show ?case by (simp add: new_job_system_def Let_def wf_recovered)
qed simp

lemma later_the: "\<not> Option.is_none (run_jobs es s) \<Longrightarrow> job_later s (the (run_jobs es s))"
  using run_later [OF _ later_refl] by (cases "run_jobs es s") auto

lemma demo_stopped_later: "job_later demo_start demo_stopped"
  unfolding demo_stopped_def by (rule later_the) code_simp

theorem stored_rows_wellformed_witness: "list_all row_wf (js_table demo_stopped) \<and> length (js_table demo_stopped) = 1"
proof -
  have n: "length (js_table demo_stopped) = 1" by code_simp
  have "\<forall>r\<in>set (js_table demo_start). row_wf r" by (simp add: demo_start_def new_job_system_def Let_def recover_platform_jobs_def upd_where_def)
  from stored_rows_wellformed [OF demo_stopped_later this] n show ?thesis by (simp add: list_all_iff)
qed

section \<open>Stopping\<close>


definition demo_idle :: job_system where
  "demo_idle = the (run_jobs [EShutdown, EShutdownEnd True] demo_start)"

lemma demo_idle_eq: "demo_idle = demo_start\<lparr>js_accepting := False, js_started := True\<rparr>"
  by (simp add: demo_idle_def demo_start_def new_job_system_def begin_shutdown_def end_shutdown_def Let_def)

lemma demo_idle_reach: "job_reach demo_idle"
  unfolding demo_idle_def
  by (rule reach_the, unfold demo_start_def, rule job_first, simp) code_simp


section \<open>A result the store refuses\<close>

lemma decided:
  assumes "job_inv s" and "decide_outcome k (Returned v) now s = Some s1"
  shows "js_runs s k = Some Body" and "s1 = s\<lparr>js_runs := (js_runs s)(k \<mapsto> Deciding (success_update v now))\<rparr>"
    and "map_option pj_state (pjob_row k (js_table s1)) = Some PRunning"
proof -
  show b: "js_runs s k = Some Body" and e: "s1 = s\<lparr>js_runs := (js_runs s)(k \<mapsto> Deciding (success_update v now))\<rparr>"
    using assms(2) by (simp_all add: decide_outcome_def split: if_splits)
  show "map_option pj_state (pjob_row k (js_table s1)) = Some PRunning"
    using runningD(7) [OF job_inv_pre [OF assms(1)] b] by (auto simp: e)
qed

lemma decided_doomed:
  assumes "job_inv s" and "decide_outcome k (Returned v) now s = Some s1" and "oversized v"
  shows "doomed k s1"
proof -
  note D = decided [OF assms(1,2)]
  have "\<not> fits (success_update v now)" using assms(3) by (simp add: fits_def success_update_def)
  then show ?thesis using runningD(2,3) [OF job_inv_pre [OF assms(1)] D(1)] by (auto simp: doomed_def D(2))
qed

lemma doomed_holds:
  assumes "job_inv t" and "doomed k t"
  shows "js_futures t k \<noteq> None" and "js_free t < js_capacity t" and "\<exists>r. pjob_row k (js_table t) = Some r \<and> is_active r"
proof -
  note pre = job_inv_pre [OF assms(1)]
  show f: "js_futures t k \<noteq> None" by (rule doomed_registered(1) [OF assms(2) pre])
  have "k \<in> {k. holds_slot (view k t)}" using f assms(2) by (simp add: holds_slot_def doomed_def)
  then have "0 < card {k. holds_slot (view k t)}" using holders_finite [OF job_invD(4,5) [OF assms(1)]] by (auto simp: card_gt_0_iff)
  then show "js_free t < js_capacity t" using job_invD(7) [OF assms(1)] by linarith
  have "k \<notin> js_persisted t" using assms(2) by (auto simp: doomed_def)
  then show "\<exists>r. pjob_row k (js_table t) = Some r \<and> is_active r" using step_preD(4) [OF pre, of k] f by (auto simp: row_ok_def)
qed

lemma doomed_running:
  assumes "job_reach s" and "map_option pj_state (pjob_row k (js_table s)) = Some PRunning" and "run_jobs es s = Some t" and "doomed k t"
  shows "map_option pj_state (pjob_row k (js_table t)) = Some PRunning"
proof -
  obtain r where r: "pjob_row k (js_table s) = Some r" "pj_state r = PRunning" using assms(2) by auto
  obtain r' where r': "pjob_row k (js_table t) = Some r'" "pj_state r' \<noteq> PQueued"
    using later_row [OF run_later [OF assms(3) later_refl] assms(1) r(1)] r(2) by auto
  then show ?thesis using doomed_holds(3) [OF job_inv_reach [OF reach_run [OF assms(3,1)]] assms(4)] by (auto simp: is_active_iff)
qed

text \<open>C32: A job whose operation returns a result of more than 1 MiB of JSON can never be retired. Its terminal write raises
  each time it is tried, whatever the store does, so the job stays registered, its row stays running, its slot is lost to
  every later submission and no drain of the process succeeds.\<close>

theorem oversized_result_never_retires:
  assumes "job_reach s" and "decide_outcome k (Returned v) now s = Some s1" and "oversized v" and "run_jobs es s1 = Some t"
  shows "js_futures t k \<noteq> None \<and> map_option pj_state (pjob_row k (js_table t)) = Some PRunning \<and> js_free t < js_capacity t \<and>
    \<not> drained subs t"
proof -
  have step: "job_step (EDecide k (Returned v) now) s = Some s1" using assms(2) by simp
  have r1: "job_reach s1" by (rule job_next [OF assms(1) step])
  have d1: "doomed k s1" by (rule decided_doomed [OF job_inv_reach [OF assms(1)] assms(2,3)])
  have rt: "job_reach t" by (rule reach_run [OF assms(4) r1])
  have dt: "doomed k t" by (rule doomed_run [OF assms(4) r1 d1])
  note held = doomed_holds [OF job_inv_reach [OF rt] dt]
  have "map_option pj_state (pjob_row k (js_table t)) = Some PRunning"
    by (rule doomed_running [OF r1 decided(3) [OF job_inv_reach [OF assms(1)] assms(2)] assms(4) dt])
  then show ?thesis using held(1,2) by (auto simp: drained_def)
qed

lemma large_text: "MAX_RESULT < n \<Longrightarrow> oversized (JStr (replicate n CHR ''a''))"
proof -
  assume n: "MAX_RESULT < n"
  have "escape_c CHR ''a'' = ''a''" by code_simp
  then have "length (concat (map escape_c (replicate n CHR ''a''))) = n" by (induction n) simp_all
  then have "n \<le> length (dumps_plain (JStr (replicate n CHR ''a'')))" by (simp add: quote_str_def)
  with n show ?thesis using length_le_utf8_len [of "dumps_plain (JStr (replicate n CHR ''a''))"] by (simp add: oversized_def)
qed

theorem oversized_result_never_retires_witness:
  "\<exists>v s1. decide_outcome ''j'' (Returned v) ''t3'' demo_running = Some s1 \<and> \<not> drained False s1 \<and> js_free s1 < js_capacity s1"
proof -
  define v where "v = JStr (replicate (Suc MAX_RESULT) CHR ''a'')"
  have big: "oversized v" unfolding v_def by (rule large_text) simp
  obtain s1 where s1: "decide_outcome ''j'' (Returned v) ''t3'' demo_running = Some s1"
    using demo_body demo_not_cancelled by (simp add: decide_outcome_def)
  have r: "run_jobs [] s1 = Some s1" by simp
  from oversized_result_never_retires [OF demo_reach s1 big r, of False] s1 show ?thesis by blast
qed

section \<open>Every other job\<close>



end
