(* ===== verification/DistributedProtocol.thy ===== *)
theory DistributedProtocol
  imports Json
begin

text \<open>
  The constants, the job state machine and the validation helpers of
  \<^verbatim>\<open>enterprise/distributed_protocol.py\<close>. Every failure is the code's \<open>_fail\<close>: an \<open>ArenyxaError\<close> of the
  domain \<open>ENTERPRISE_DISTRIBUTED\<close>. The digest \<open>hashlib.sha256(...).hexdigest()\<close> is an argument of the
  definitions that use it.
\<close>

section \<open>Limits\<close>

definition CURRENT_PROTOCOL :: int where "CURRENT_PROTOCOL = 2"
definition MIN_COMPATIBLE_PROTOCOL :: int where "MIN_COMPATIBLE_PROTOCOL = 1"
definition MAX_JOB_PAYLOAD_BYTES :: nat where "MAX_JOB_PAYLOAD_BYTES = 2 * 1024 * 1024"
definition MAX_RESULT_BYTES :: nat where "MAX_RESULT_BYTES = 256 * 1024"
definition MAX_CHECKPOINT_BYTES :: nat where "MAX_CHECKPOINT_BYTES = 128 * 1024"
definition MAX_RESOURCE_DECLARATION_BYTES :: nat where "MAX_RESOURCE_DECLARATION_BYTES = 64 * 1024"
definition MAX_JOBS :: nat where "MAX_JOBS = 100000"
definition MAX_WORKERS :: nat where "MAX_WORKERS = 4096"
definition MAX_WORKER_SLOTS :: int where "MAX_WORKER_SLOTS = 64"
definition MAX_JOB_EVENTS_PER_JOB :: nat where "MAX_JOB_EVENTS_PER_JOB = 128"
definition MAX_EVENT_DETAILS_BYTES :: nat where "MAX_EVENT_DETAILS_BYTES = 16 * 1024"
definition DEFAULT_LEASE_SECONDS :: int where "DEFAULT_LEASE_SECONDS = 60"
definition MAX_LEASE_SECONDS :: int where "MAX_LEASE_SECONDS = 15 * 60"

lemmas limit_defs = CURRENT_PROTOCOL_def MIN_COMPATIBLE_PROTOCOL_def MAX_JOB_PAYLOAD_BYTES_def
  MAX_RESULT_BYTES_def MAX_CHECKPOINT_BYTES_def MAX_RESOURCE_DECLARATION_BYTES_def MAX_JOBS_def
  MAX_WORKERS_def MAX_WORKER_SLOTS_def MAX_JOB_EVENTS_PER_JOB_def MAX_EVENT_DETAILS_BYTES_def
  DEFAULT_LEASE_SECONDS_def MAX_LEASE_SECONDS_def

definition dist_fail :: "pystr \<Rightarrow> exc" where
  "dist_fail code = ArenyxaError ''ENTERPRISE_DISTRIBUTED'' code"

lemma dist_fail_inject [simp]: "dist_fail a = dist_fail b \<longleftrightarrow> a = b"
  by (simp add: dist_fail_def)

section \<open>Job states\<close>

datatype job_state = Queued | Leased | Running | Completed | Failed | ReviewRequired | Cancelled

text \<open>The pairs of \<open>_ALLOWED_JOB_TRANSITIONS\<close>; the source state \<open>''\<close> of a new job is \<open>None\<close>.\<close>

fun allowed_transition :: "job_state option \<Rightarrow> job_state \<Rightarrow> bool" where
  "allowed_transition None t = (t = Queued)"
| "allowed_transition (Some Queued) t = (t \<in> {Queued, Leased, Cancelled})"
| "allowed_transition (Some Leased) t =
     (t \<in> {Leased, Running, Queued, Completed, Failed, ReviewRequired, Cancelled})"
| "allowed_transition (Some Running) t =
     (t \<in> {Running, Queued, Completed, Failed, ReviewRequired, Cancelled})"
| "allowed_transition (Some ReviewRequired) t = (t \<in> {ReviewRequired, Queued, Failed, Cancelled})"
| "allowed_transition (Some Completed) t = (t = Completed)"
| "allowed_transition (Some Failed) t = (t = Failed)"
| "allowed_transition (Some Cancelled) t = (t = Cancelled)"

definition terminal_state :: "job_state \<Rightarrow> bool" where
  "terminal_state s \<longleftrightarrow> s = Completed \<or> s = Failed \<or> s = Cancelled"

definition active_state :: "job_state \<Rightarrow> bool" where
  "active_state s \<longleftrightarrow> s = Leased \<or> s = Running"

lemma active_state_simps [simp]:
  "active_state Queued = False" "active_state Leased = True" "active_state Running = True"
  "active_state Completed = False" "active_state Failed = False"
  "active_state ReviewRequired = False" "active_state Cancelled = False"
  by (simp_all add: active_state_def)

lemma terminal_state_simps [simp]:
  "terminal_state Queued = False" "terminal_state Leased = False" "terminal_state Running = False"
  "terminal_state Completed = True" "terminal_state Failed = True"
  "terminal_state ReviewRequired = False" "terminal_state Cancelled = True"
  by (simp_all add: terminal_state_def)

lemma active_not_terminal: "active_state s \<Longrightarrow> \<not> terminal_state s"
  by (cases s) simp_all

lemma terminal_absorbing: "terminal_state s \<Longrightarrow> allowed_transition (Some s) t \<Longrightarrow> t = s"
  by (cases s) simp_all

section \<open>Validation\<close>

text \<open>\<open>_bounded_json\<close>: the canonical text of an object and its digest, or an error.\<close>

definition bounded_json :: "(pystr \<Rightarrow> pystr) \<Rightarrow> json \<Rightarrow> nat \<Rightarrow> exc + (pystr \<times> pystr)" where
  "bounded_json sha v limit = (case v of
     JObj kvs \<Rightarrow>
       (let raw = dumps v in
        if limit < utf8_len raw then Inl (dist_fail ''DISTRIBUTED_PAYLOAD_TOO_LARGE'')
        else Inr (raw, sha raw))
   | _ \<Rightarrow> Inl (dist_fail ''DISTRIBUTED_PAYLOAD_INVALID''))"

lemma bounded_json_Inr:
  "bounded_json sha v limit = Inr (raw, h) \<Longrightarrow> raw = dumps v \<and> h = sha raw \<and> utf8_len raw \<le> limit"
  by (auto simp: bounded_json_def Let_def split: json.splits if_splits)

text \<open>\<open>_clean_token\<close>: a non-empty token without white space or control characters.\<close>

definition clean_token :: "pystr \<Rightarrow> nat \<Rightarrow> exc + pystr" where
  "clean_token value max_len = (let text = py_strip value in
     if text = [] \<or> max_len < length text
        \<or> (\<exists>c \<in> set text. py_isspace c \<or> ord_c c < 32 \<or> ord_c c = 127)
     then Inl (dist_fail ''DISTRIBUTED_IDENTIFIER_INVALID'')
     else Inr text)"

lemma clean_token_Inr:
  "clean_token v n = Inr t \<Longrightarrow> t = py_strip v \<and> t \<noteq> [] \<and> length t \<le> n
     \<and> (\<forall>c \<in> set t. \<not> py_isspace c \<and> 32 \<le> ord_c c \<and> ord_c c \<noteq> 127)"
  by (auto simp: clean_token_def Let_def split: if_splits)

lemma clean_token_nonempty: "clean_token v n = Inr t \<Longrightarrow> t \<noteq> []"
  by (simp add: clean_token_Inr)

text \<open>A cleaned token passes the same check unchanged.\<close>

lemma clean_token_idem:
  assumes "clean_token v n = Inr t" shows "clean_token t n = Inr t"
proof -
  note t = clean_token_Inr [OF assms]
  have "py_strip t = t" using t by (intro strip_id) blast
  with t show ?thesis by (auto simp: clean_token_def Let_def)
qed

text \<open>\<open>negotiate_protocol\<close>: the highest version both sides speak.\<close>

definition negotiate_protocol :: "int \<Rightarrow> int \<Rightarrow> exc + int" where
  "negotiate_protocol peer_min peer_max =
     (let low = max MIN_COMPATIBLE_PROTOCOL peer_min; high = min CURRENT_PROTOCOL peer_max in
      if high < low then Inl (dist_fail ''PROTOCOL_INCOMPATIBLE'') else Inr high)"

lemma negotiate_protocol_Inr:
  "negotiate_protocol a b = Inr v \<longleftrightarrow>
     v = min CURRENT_PROTOCOL b \<and> MIN_COMPATIBLE_PROTOCOL \<le> v \<and> a \<le> v"
  by (auto simp: negotiate_protocol_def Let_def)

end
