(* ===== verification/TraceContext.thy ===== *)
theory TraceContext
  imports Prelude
begin

text \<open>
  The W3C trace context of \<^verbatim>\<open>observability/trace_context.py\<close> as the job queue persists it: parsing,
  printing and the normalisation of a job's \<open>traceparent\<close>. The random identifiers a new root context
  draws are arguments.
\<close>

fun split_on :: "char \<Rightarrow> pystr \<Rightarrow> pystr list" where
  "split_on sep [] = [[]]"
| "split_on sep (c # cs) =
     (if c = sep then [] # split_on sep cs
      else (case split_on sep cs of [] \<Rightarrow> [[c]] | w # ws \<Rightarrow> (c # w) # ws))"

definition is_hex :: "char \<Rightarrow> bool" where
  "is_hex c \<longleftrightarrow> c \<in> set ''0123456789abcdef''"

definition hex_val :: "char \<Rightarrow> nat" where
  "hex_val c = (let n = ord_c c in if n < 58 then n - 48 else n - 87)"

text \<open>\<open>_valid_hex\<close>\<close>

definition valid_hex :: "pystr \<Rightarrow> nat \<Rightarrow> bool" where
  "valid_hex value n \<longleftrightarrow> length value = n \<and> (\<exists>c \<in> set value. c \<noteq> CHR ''0'') \<and> list_all is_hex value"

record trace_context =
  trace_id :: pystr
  span_id :: pystr
  parent_span_id :: pystr
  sampled :: bool
  tracestate :: pystr

definition trace_flags :: "trace_context \<Rightarrow> pystr" where
  "trace_flags t = (if sampled t then ''01'' else ''00'')"

definition traceparent :: "trace_context \<Rightarrow> pystr" where
  "traceparent t = ''00-'' @ trace_id t @ ''-'' @ span_id t @ ''-'' @ trace_flags t"

text \<open>\<open>_sanitize_tracestate\<close>: at most 512 ASCII characters, none of them a line break.\<close>

definition sanitize_tracestate :: "pystr \<Rightarrow> pystr" where
  "sanitize_tracestate value =
     (let text = py_strip value in
      if text = [] then []
      else (let s = take 512 (filter (\<lambda>c. ord_c c < 128) text) in
        if char_of (13 :: nat) \<notin> set s \<and> char_of (10 :: nat) \<notin> set s then s else []))"

text \<open>\<open>TraceContext.parse\<close>\<close>

definition parse_traceparent :: "pystr \<Rightarrow> pystr \<Rightarrow> trace_context option" where
  "parse_traceparent value state =
     (case split_on (CHR ''-'') (py_casefold (py_strip value)) of
        [version, tid, sid, flags] \<Rightarrow>
          if version \<noteq> ''00'' then None
          else if \<not> valid_hex tid 32 \<or> \<not> valid_hex sid 16 then None
          else if length flags \<noteq> 2 \<or> \<not> list_all is_hex flags then None
          else Some \<lparr>trace_id = tid, span_id = sid, parent_span_id = [],
                 sampled = odd (16 * hex_val (flags ! 0) + hex_val (flags ! 1)),
                 tracestate = sanitize_tracestate state\<rparr>
      | _ \<Rightarrow> None)"

text \<open>\<open>TraceContext.new\<close> with the two drawn identifiers\<close>

definition new_trace :: "pystr \<Rightarrow> pystr \<Rightarrow> pystr \<Rightarrow> trace_context" where
  "new_trace tid sid state = \<lparr>trace_id = tid, span_id = sid, parent_span_id = [], sampled = True,
     tracestate = sanitize_tracestate state\<rparr>"

text \<open>\<open>persisted_trace_fields\<close>\<close>

definition persisted_trace_fields :: "pystr \<Rightarrow> pystr \<Rightarrow> pystr \<Rightarrow> pystr \<Rightarrow> pystr \<times> pystr" where
  "persisted_trace_fields tid sid parent_text state_text =
     (let state = sanitize_tracestate state_text;
          t = (case parse_traceparent parent_text state of
                 None \<Rightarrow> new_trace tid sid state | Some t \<Rightarrow> t)
      in (traceparent t, tracestate t))"

text \<open>\<open>child_trace_context\<close> of a parent\<close>

definition child_trace_context :: "pystr \<Rightarrow> trace_context \<Rightarrow> trace_context" where
  "child_trace_context sid parent = \<lparr>trace_id = trace_id parent, span_id = sid,
     parent_span_id = span_id parent, sampled = sampled parent, tracestate = tracestate parent\<rparr>"

section \<open>Facts\<close>

lemma split_on_nonempty: "split_on sep s \<noteq> []"
  by (induction s) (auto split: list.splits)

lemma split_on_no_sep: "sep \<notin> set s \<Longrightarrow> split_on sep s = [s]"
  by (induction s) auto

lemma split_on_append:
  "sep \<notin> set a \<Longrightarrow> split_on sep (a @ sep # s) = a # split_on sep s"
  by (induction a) (auto split: list.splits simp: split_on_nonempty)

lemma hex_table:
  "list_all (\<lambda>c. casefold_c c = [c] \<and> \<not> py_isspace c \<and> c \<noteq> CHR ''-'') ''0123456789abcdef''"
  by (simp add: casefold_c_def py_isspace_def ord_c_def)

lemma is_hex_plain: "is_hex c \<Longrightarrow> casefold_c c = [c] \<and> \<not> py_isspace c \<and> c \<noteq> CHR ''-''"
  using hex_table unfolding is_hex_def list_all_iff by blast

lemma casefold_hex: "list_all is_hex s \<Longrightarrow> py_casefold s = s"
  by (induction s) (auto simp: py_casefold_def is_hex_plain)

lemma casefold_append: "py_casefold (s @ t) = py_casefold s @ py_casefold t"
  by (simp add: py_casefold_def)

lemma casefold_dash: "py_casefold (CHR ''-'' # s) = CHR ''-'' # py_casefold s"
  by (simp add: py_casefold_def casefold_c_def ord_c_def)

definition wf_trace :: "trace_context \<Rightarrow> bool" where
  "wf_trace t \<longleftrightarrow> valid_hex (trace_id t) 32 \<and> valid_hex (span_id t) 16"

lemma valid_hex_all: "valid_hex s n \<Longrightarrow> list_all is_hex s"
  by (simp add: valid_hex_def)

lemma hex_no_dash: "list_all is_hex s \<Longrightarrow> CHR ''-'' \<notin> set s"
  by (induction s) (auto dest: is_hex_plain)

lemma hex_no_space: "list_all is_hex s \<Longrightarrow> c \<in> set s \<Longrightarrow> \<not> py_isspace c"
  by (induction s) (auto simp: is_hex_plain)

lemma trace_flags_hex: "list_all is_hex (trace_flags t)" "length (trace_flags t) = 2"
  by (simp_all add: trace_flags_def is_hex_def)

lemma flags_sampled:
  "odd (16 * hex_val (trace_flags t ! 0) + hex_val (trace_flags t ! 1)) = sampled t"
  by (simp add: trace_flags_def hex_val_def ord_c_def)

lemma traceparent_no_space:
  assumes "wf_trace t" and "c \<in> set (traceparent t)" shows "\<not> py_isspace c"
proof -
  have "c \<in> set (trace_id t) \<or> c \<in> set (span_id t) \<or> c \<in> set (trace_flags t)
     \<or> c \<in> {CHR ''0'', CHR ''-''}"
    using assms(2) by (auto simp: traceparent_def)
  moreover have "\<not> py_isspace (CHR ''0'')" "\<not> py_isspace (CHR ''-'')"
    by (simp_all add: py_isspace_def ord_c_def)
  moreover have "list_all is_hex (trace_id t)" "list_all is_hex (span_id t)"
    using assms(1) valid_hex_all unfolding wf_trace_def by blast+
  note this [THEN hex_no_space] trace_flags_hex(1) [of t, THEN hex_no_space]
  ultimately show ?thesis by blast
qed

text \<open>Printing a well-formed context and parsing it back gives the context, without its parent span.\<close>

lemma parse_print:
  assumes "wf_trace t"
  shows "parse_traceparent (traceparent t) s =
    Some (t\<lparr>parent_span_id := [], tracestate := sanitize_tracestate s\<rparr>)"
proof -
  have hex: "list_all is_hex (trace_id t)" "list_all is_hex (span_id t)"
    using assms valid_hex_all by (auto simp: wf_trace_def)
  have strip: "py_strip (traceparent t) = traceparent t"
    using traceparent_no_space [OF assms] by (intro strip_id) blast
  have fold00: "py_casefold ''00'' = ''00''"
    by (rule casefold_hex) (simp add: is_hex_def)
  have "traceparent t = ''00'' @ CHR ''-'' # trace_id t @ CHR ''-'' # span_id t @ CHR ''-'' # trace_flags t"
    by (simp add: traceparent_def)
  then have "py_casefold (traceparent t) =
      ''00'' @ CHR ''-'' # trace_id t @ CHR ''-'' # span_id t @ CHR ''-'' # trace_flags t"
    using fold00 hex trace_flags_hex by (simp only: casefold_append casefold_dash casefold_hex)
  moreover have "split_on (CHR ''-'')
      (''00'' @ CHR ''-'' # trace_id t @ CHR ''-'' # span_id t @ CHR ''-'' # trace_flags t) =
      [''00'', trace_id t, span_id t, trace_flags t]"
    using hex_no_dash [OF hex(1)] hex_no_dash [OF hex(2)] hex_no_dash [OF trace_flags_hex(1)]
    by (simp add: split_on_append split_on_no_sep)
  ultimately have "split_on (CHR ''-'') (py_casefold (py_strip (traceparent t))) =
      [''00'', trace_id t, span_id t, trace_flags t]"
    by (simp only: strip)
  with assms show ?thesis
    unfolding parse_traceparent_def wf_trace_def
    by (simp only: list.case if_False if_True trace_flags_hex flags_sampled not_True_eq_False simp_thms) simp
qed

lemma parse_traceparent_wf: "parse_traceparent v s = Some t \<Longrightarrow> wf_trace t"
  by (auto simp: parse_traceparent_def wf_trace_def split: list.splits if_splits)

lemma traceparent_upd [simp]:
  "traceparent (t\<lparr>parent_span_id := a, tracestate := b\<rparr>) = traceparent t"
  by (simp add: traceparent_def trace_flags_def)

lemma wf_new_trace: "valid_hex tid 32 \<Longrightarrow> valid_hex sid 16 \<Longrightarrow> wf_trace (new_trace tid sid s)"
  by (simp add: wf_trace_def new_trace_def)

lemma persisted_trace_wf:
  assumes "valid_hex tid 32" "valid_hex sid 16"
  shows "\<exists>t. wf_trace t \<and> fst (persisted_trace_fields tid sid p s) = traceparent t"
proof (cases "parse_traceparent p (sanitize_tracestate s)")
  case None
  then have "fst (persisted_trace_fields tid sid p s) =
      traceparent (new_trace tid sid (sanitize_tracestate s))"
    by (simp add: persisted_trace_fields_def Let_def)
  with wf_new_trace [OF assms] show ?thesis by blast
next
  case (Some t)
  then have "fst (persisted_trace_fields tid sid p s) = traceparent t"
    by (simp add: persisted_trace_fields_def Let_def)
  with parse_traceparent_wf [OF Some] show ?thesis by blast
qed

text \<open>The stored fields are a normal form: persisting them again keeps the trace parent.\<close>

lemma persisted_trace_idem:
  assumes "valid_hex tid 32" "valid_hex sid 16"
  shows "fst (persisted_trace_fields tid' sid' (fst (persisted_trace_fields tid sid p s)) s') =
    fst (persisted_trace_fields tid sid p s)"
proof -
  obtain t where t: "wf_trace t" "fst (persisted_trace_fields tid sid p s) = traceparent t"
    using persisted_trace_wf [OF assms] by blast
  have "fst (persisted_trace_fields tid' sid' (traceparent t) s') = traceparent t"
    unfolding persisted_trace_fields_def Let_def parse_print [OF t(1)] by simp
  with t(2) show ?thesis by simp
qed

end
