(* ===== verification/Timebase.thy ===== *)
theory Timebase
  imports Prelude
begin

text \<open>
  The stable epoch clock of \<^verbatim>\<open>infrastructure/timebase.py\<close>: epoch seconds anchored once and advanced
  by a monotonic clock only. Clock values are finite, as the code checks, and are rationals here; the
  two system clocks are the readings passed to each operation.

  The locale \<open>monotone_readings\<close> is the interface the lease code relies on: readings in program order
  never go back. It is interpreted on the readings of the modelled clock.
\<close>

record stable_clock =
  wall_anchor :: rat
  mono_anchor :: rat
  last_epoch :: rat

text \<open>\<open>StableEpochClock.__init__\<close>, with the two readings it takes.\<close>

definition clock_init :: "rat \<Rightarrow> rat \<Rightarrow> stable_clock" where
  "clock_init wall ticks = \<lparr>wall_anchor = wall, mono_anchor = ticks, last_epoch = wall\<rparr>"

text \<open>\<open>StableEpochClock.anchored\<close>: a clock on a durable anchor of the same boot domain.\<close>

definition clock_anchored :: "rat \<Rightarrow> rat \<Rightarrow> stable_clock" where
  "clock_anchored epoch ticks = \<lparr>wall_anchor = epoch, mono_anchor = ticks, last_epoch = epoch\<rparr>"

text \<open>\<open>StableEpochClock.stable_epoch\<close>, with the reading of the monotonic clock.\<close>

definition stable_epoch :: "rat \<Rightarrow> stable_clock \<Rightarrow> rat \<times> stable_clock" where
  "stable_epoch ticks c =
     (let candidate = wall_anchor c + max 0 (ticks - mono_anchor c);
          candidate' = (if candidate < last_epoch c then last_epoch c else candidate)
      in (candidate', c\<lparr>last_epoch := candidate'\<rparr>))"

definition deadline_epoch :: "rat \<Rightarrow> rat \<Rightarrow> stable_clock \<Rightarrow> rat \<times> stable_clock" where
  "deadline_epoch ticks seconds c =
     (let duration = max 0 seconds; (now, c') = stable_epoch ticks c in (now + duration, c'))"

record clock_snapshot =
  snap_stable :: rat
  snap_wall :: rat
  snap_mono :: rat
  snap_drift :: rat

text \<open>\<open>StableEpochClock.snapshot\<close>: two readings of the monotonic clock, one of the wall clock.\<close>

definition clock_snapshot_of :: "rat \<Rightarrow> rat \<Rightarrow> rat \<Rightarrow> stable_clock \<Rightarrow> clock_snapshot \<times> stable_clock" where
  "clock_snapshot_of ticks1 wall ticks2 c =
     (let (stable, c') = stable_epoch ticks1 c
      in (\<lparr>snap_stable = stable, snap_wall = wall, snap_mono = ticks2, snap_drift = wall - stable\<rparr>, c'))"

text \<open>The clock after the first \<open>n\<close> readings, and the \<open>n\<close>-th reading, for a sequence of monotonic readings.\<close>

fun clock_after :: "stable_clock \<Rightarrow> (nat \<Rightarrow> rat) \<Rightarrow> nat \<Rightarrow> stable_clock" where
  "clock_after c m 0 = c"
| "clock_after c m (Suc n) = snd (stable_epoch (m n) (clock_after c m n))"

definition clock_reading :: "stable_clock \<Rightarrow> (nat \<Rightarrow> rat) \<Rightarrow> nat \<Rightarrow> rat" where
  "clock_reading c m n = fst (stable_epoch (m n) (clock_after c m n))"

section \<open>The interface: readings that never go back\<close>

locale monotone_readings =
  fixes reading :: "nat \<Rightarrow> rat"
  assumes reading_step: "reading n \<le> reading (Suc n)"
begin

lemma reading_mono: "i \<le> j \<Longrightarrow> reading i \<le> reading j"
  by (induction j) (auto simp: le_Suc_eq intro: order_trans reading_step)

text \<open>A deadline taken later is no earlier, and an expired deadline stays expired.\<close>

lemma expired_stays: "e \<le> reading i \<Longrightarrow> i \<le> j \<Longrightarrow> e \<le> reading j"
  using reading_mono [of i j] by linarith

lemma deadline_after: "0 < d \<Longrightarrow> i \<le> j \<Longrightarrow> reading i < reading j + d"
  using reading_mono [of i j] by linarith

end

lemma stable_epoch_ge_last: "last_epoch c \<le> fst (stable_epoch m c)"
  by (simp add: stable_epoch_def Let_def)

lemma stable_epoch_last: "last_epoch (snd (stable_epoch m c)) = fst (stable_epoch m c)"
  by (simp add: stable_epoch_def Let_def)

interpretation stable_readings: monotone_readings "clock_reading c m" for c m
  by unfold_locales (metis clock_reading_def clock_after.simps(2) stable_epoch_ge_last stable_epoch_last)

lemma stable_epoch_ge_anchor: "wall_anchor c \<le> fst (stable_epoch m c)"
  by (auto simp: stable_epoch_def Let_def max_def split: if_splits)

lemma stable_epoch_anchor [simp]: "wall_anchor (snd (stable_epoch m c)) = wall_anchor c"
  "mono_anchor (snd (stable_epoch m c)) = mono_anchor c"
  by (simp_all add: stable_epoch_def Let_def)

lemma clock_after_anchor [simp]: "wall_anchor (clock_after c m n) = wall_anchor c"
  "mono_anchor (clock_after c m n) = mono_anchor c"
  by (induction n) simp_all

lemma clock_reading_ge_anchor: "wall_anchor c \<le> clock_reading c m n"
  using stable_epoch_ge_anchor [of "clock_after c m n" "m n"] by (simp add: clock_reading_def)

end
