(* ===== verification/QueueState.thy ===== *)
theory QueueState
  imports DistributedProtocol TraceContext Timebase WorkerIdentity
begin

text \<open>
  The durable state of the distributed job queue (\<^verbatim>\<open>enterprise/distributed_queue.py\<close>) on its SQLite
  backend: the rows of the tables of \<^verbatim>\<open>runtime_storage_schema.py\<close>, the transaction discipline, the
  event journal and the terminal fences.

  An operation gets an \<open>env\<close>: what it reads from outside. \<open>clk i\<close> is its \<open>i\<close>-th reading of the lease
  clock (\<open>_now\<close>), \<open>tok i\<close> the \<open>i\<close>-th drawn lease token, \<open>utc\<close> the ISO time stamp of the operation,
  \<open>sha256\<close> the hexadecimal digest, \<open>key_ok\<close> whether the cryptography package accepts a raw public key, and
  the other fields are the random identifiers the operation draws.
\<close>

record env =
  clk :: "nat \<Rightarrow> rat"
  utc :: pystr
  tok :: "nat \<Rightarrow> pystr"
  fresh_id :: pystr
  fresh_trace :: pystr
  fresh_span :: pystr
  sha256 :: "pystr \<Rightarrow> pystr"
  key_ok :: "pystr \<Rightarrow> nat list \<Rightarrow> bool"

section \<open>Rows\<close>

datatype side_mode = Idempotent | NonIdempotent

datatype side_effect = EffNone | EffStarted | EffCompleted

text \<open>A row of \<open>distributed_jobs\<close>. The JSON columns hold text.\<close>

record job =
  j_id :: pystr
  j_kind :: pystr
  j_state :: job_state
  j_payload :: pystr
  j_payload_sha :: pystr
  j_traceparent :: pystr
  j_tracestate :: pystr
  j_resource :: pystr
  j_permission :: pystr
  j_idem :: pystr
  j_mode :: side_mode
  j_effect :: side_effect
  j_attempt :: int
  j_max :: int
  j_protocol :: int
  j_priority :: int
  j_worker :: pystr
  j_token :: pystr
  j_expires :: rat
  j_checkpoint :: pystr
  j_checkpoint_seq :: int
  j_result :: pystr
  j_result_sha :: pystr
  j_term_worker :: pystr
  j_term_token :: pystr
  j_term_at :: pystr
  j_error :: pystr
  j_created :: pystr
  j_updated :: pystr

datatype worker_state = WActive | WDraining | WRevoked

text \<open>A row of \<open>distributed_workers\<close>.\<close>

record worker =
  w_id :: pystr
  w_display :: pystr
  w_key :: pystr
  w_algorithm :: pystr
  w_metadata :: pystr
  w_pmin :: int
  w_pmax :: int
  w_negotiated :: int
  w_compat :: pystr
  w_resources :: pystr
  w_slots :: int
  w_leases :: int
  w_state :: worker_state
  w_created :: pystr
  w_updated :: pystr
  w_heartbeat :: rat
  w_revoked_at :: pystr

text \<open>
  A row of \<open>distributed_job_idempotency\<close>: the fence a terminal job leaves. The receipt is the decoded
  list of the \<open>terminal_receipt\<close> column.
\<close>

record fence =
  f_idem :: pystr
  f_job :: pystr
  f_kind :: pystr
  f_payload_sha :: pystr
  f_resource :: pystr
  f_permission :: pystr
  f_mode :: side_mode
  f_state :: job_state
  f_receipt :: "pystr list"
  f_created :: pystr
  f_terminal_at :: pystr
  f_updated :: pystr

text \<open>A row of \<open>distributed_job_events\<close>; the source state of a new job is \<open>None\<close>.\<close>

record event =
  ev_id :: nat
  ev_job :: pystr
  ev_type :: pystr
  ev_from :: "job_state option"
  ev_to :: job_state
  ev_worker :: pystr
  ev_code :: pystr
  ev_details :: pystr
  ev_created :: pystr

text \<open>
  The queue: its four tables, the journal's next row id, the \<open>lease_clock_anchor\<close> entry of
  \<open>distributed_meta\<close> (boot domain, monotonic reading, epoch), and the process-local attributes the
  operations read (\<open>_idempotency_backfill_complete\<close>, \<open>_lease_grace_seconds\<close>,
  \<open>_worker_heartbeat_timeout_seconds\<close>, \<open>_last_expiry_scan_monotonic\<close>, \<open>_expiry_scan_interval_seconds\<close>).
\<close>

record qstate =
  q_jobs :: "job list"
  q_workers :: "worker list"
  q_fences :: "fence list"
  q_events :: "event list"
  q_next_event :: nat
  q_anchor :: "(pystr \<times> rat \<times> rat) option"
  q_backfilled :: bool
  q_grace :: rat
  q_heartbeat_timeout :: rat
  q_last_scan :: rat
  q_scan_interval :: rat

definition empty_queue :: "rat \<Rightarrow> qstate" where
  "empty_queue grace = \<lparr>q_jobs = [], q_workers = [], q_fences = [], q_events = [], q_next_event = 1,
     q_anchor = None, q_backfilled = True, q_grace = max 0 (min 120 grace),
     q_heartbeat_timeout = max 10 (min 45 (of_int DEFAULT_LEASE_SECONDS * (3 / 4))),
     q_last_scan = 0, q_scan_interval = 1 / 2\<rparr>"

section \<open>Transactions\<close>

text \<open>
  \<open>with self._lock, self._connection()\<close> around \<open>BEGIN IMMEDIATE\<close>: a body that raises leaves the tables as
  they were (the connection manager rolls back), one that returns has committed. A body that rolls
  back and returns gives back the state it started from.
\<close>

definition transact :: "(qstate \<Rightarrow> exc + ('r \<times> qstate)) \<Rightarrow> qstate \<Rightarrow> (exc + 'r) \<times> qstate" where
  "transact body s = (case body s of Inl e \<Rightarrow> (Inl e, s) | Inr (r, s') \<Rightarrow> (Inr r, s'))"

lemma transact_Inr [simp]: "transact body s = (Inr r, s') \<longleftrightarrow> body s = Inr (r, s')"
  by (auto simp: transact_def split: sum.splits prod.splits)

lemma transact_Inl [simp]: "transact body s = (Inl e, s') \<longleftrightarrow> body s = Inl e \<and> s' = s"
  by (auto simp: transact_def split: sum.splits prod.splits)

lemma transact_cases:
  obtains (error) e where "body s = Inl e" "transact body s = (Inl e, s)"
  | (commit) r s' where "body s = Inr (r, s')" "transact body s = (Inr r, s')"
  by (cases "body s") (auto simp: transact_def)

abbreviation job_row :: "pystr \<Rightarrow> qstate \<Rightarrow> job option" where
  "job_row k s \<equiv> row_of j_id k (q_jobs s)"

abbreviation worker_row :: "pystr \<Rightarrow> qstate \<Rightarrow> worker option" where
  "worker_row k s \<equiv> row_of w_id k (q_workers s)"

abbreviation fence_row :: "pystr \<Rightarrow> qstate \<Rightarrow> fence option" where
  "fence_row k s \<equiv> row_of f_idem k (q_fences s)"

definition upd_job :: "pystr \<Rightarrow> (job \<Rightarrow> job) \<Rightarrow> qstate \<Rightarrow> qstate" where
  "upd_job k f s = s\<lparr>q_jobs := upd_where (\<lambda>j. j_id j = k) f (q_jobs s)\<rparr>"

definition upd_worker :: "pystr \<Rightarrow> (worker \<Rightarrow> worker) \<Rightarrow> qstate \<Rightarrow> qstate" where
  "upd_worker k f s = s\<lparr>q_workers := upd_where (\<lambda>w. w_id w = k) f (q_workers s)\<rparr>"

section \<open>Terminal fences\<close>

text \<open>\<open>_same_job_identity\<close> of a fence and a job row\<close>

definition same_job_identity :: "fence \<Rightarrow> job \<Rightarrow> bool" where
  "same_job_identity f j \<longleftrightarrow> f_job f = j_id j \<and> f_kind f = j_kind j \<and>
     f_payload_sha f = j_payload_sha j \<and> f_resource f = j_resource j \<and>
     f_permission f = j_permission j \<and> f_mode f = j_mode j"

definition fence_of :: "job \<Rightarrow> fence" where
  "fence_of j = \<lparr>f_idem = j_idem j, f_job = j_id j, f_kind = j_kind j, f_payload_sha = j_payload_sha j,
     f_resource = j_resource j, f_permission = j_permission j, f_mode = j_mode j, f_state = j_state j,
     f_receipt = [j_term_worker j, j_term_token j, j_result_sha j], f_created = j_created j,
     f_terminal_at = (if j_term_at j \<noteq> [] then j_term_at j else j_updated j), f_updated = j_updated j\<rparr>"

text \<open>
  \<open>_store_terminal_fence\<close>: insert the fence, or refresh the state, the receipt and the times of the one
  its key already has.
\<close>

definition store_terminal_fence :: "job \<Rightarrow> qstate \<Rightarrow> exc + qstate" where
  "store_terminal_fence j s =
     (case fence_row (j_idem j) s of
        Some f \<Rightarrow>
          if \<not> same_job_identity f j then Inl (dist_fail ''DISTRIBUTED_IDEMPOTENCY_COLLISION'')
          else Inr (s\<lparr>q_fences := upd_where (\<lambda>r. f_idem r = j_idem j)
            (\<lambda>r. r\<lparr>f_state := j_state j, f_terminal_at := f_terminal_at (fence_of j),
                   f_updated := j_updated j, f_receipt := f_receipt (fence_of j)\<rparr>) (q_fences s)\<rparr>)
      | None \<Rightarrow> Inr (s\<lparr>q_fences := q_fences s @ [fence_of j]\<rparr>))"

section \<open>The event journal\<close>

text \<open>The backend's \<open>record_event\<close>: insert, then keep the newest \<open>n\<close> events of the job.\<close>

definition prune_events :: "pystr \<Rightarrow> nat \<Rightarrow> event list \<Rightarrow> event list" where
  "prune_events k n evs =
     (let keep = take n (rev (sort (map ev_id (filter (\<lambda>e. ev_job e = k) evs))))
      in filter (\<lambda>e. ev_job e \<noteq> k \<or> ev_id e \<in> set keep) evs)"

definition insert_event :: "event \<Rightarrow> nat \<Rightarrow> qstate \<Rightarrow> exc + qstate" where
  "insert_event e n s =
     (if job_row (ev_job e) s = None then Inl IntegrityError
      else Inr (s\<lparr>q_events := prune_events (ev_job e) (max 1 n) (q_events s @ [e\<lparr>ev_id := q_next_event s\<rparr>]),
                 q_next_event := Suc (q_next_event s)\<rparr>))"

text \<open>
  \<open>_record_event_locked\<close>: the transition is checked, the details are bounded, a terminal target stores
  the fence of the job's row, and the event is inserted.
\<close>

definition record_event_locked ::
  "env \<Rightarrow> pystr \<Rightarrow> pystr \<Rightarrow> job_state option \<Rightarrow> job_state \<Rightarrow> pystr \<Rightarrow> pystr \<Rightarrow> json \<Rightarrow> qstate \<Rightarrow> exc + qstate"
where
  "record_event_locked env k etype source target wid code details s =
     ebind (require (allowed_transition source target)
              (dist_fail ''DISTRIBUTED_STATE_TRANSITION_INVALID'')) (\<lambda>_.
     ebind (clean_token etype 96) (\<lambda>ev.
     ebind (bounded_json (sha256 env) details MAX_EVENT_DETAILS_BYTES) (\<lambda>detail.
     ebind (if terminal_state target
            then (case job_row k s of None \<Rightarrow> Inl TypeError | Some j \<Rightarrow> store_terminal_fence j s)
            else Inr s) (\<lambda>s'.
     insert_event \<lparr>ev_id = 0, ev_job = k, ev_type = ev, ev_from = source, ev_to = target,
         ev_worker = wid, ev_code = take 128 code, ev_details = fst detail, ev_created = utc env\<rparr>
       MAX_JOB_EVENTS_PER_JOB s'))))"

section \<open>Facts\<close>

lemma upd_job_sel [simp]:
  "q_workers (upd_job k f s) = q_workers s" "q_fences (upd_job k f s) = q_fences s"
  "q_events (upd_job k f s) = q_events s" "q_next_event (upd_job k f s) = q_next_event s"
  "q_jobs (upd_job k f s) = upd_where (\<lambda>j. j_id j = k) f (q_jobs s)"
  "q_anchor (upd_job k f s) = q_anchor s" "q_backfilled (upd_job k f s) = q_backfilled s" "q_grace (upd_job k f s) = q_grace s"
  "q_heartbeat_timeout (upd_job k f s) = q_heartbeat_timeout s"
  "q_last_scan (upd_job k f s) = q_last_scan s" "q_scan_interval (upd_job k f s) = q_scan_interval s"
  by (simp_all add: upd_job_def)

lemma upd_worker_sel [simp]:
  "q_jobs (upd_worker k f s) = q_jobs s" "q_fences (upd_worker k f s) = q_fences s"
  "q_events (upd_worker k f s) = q_events s" "q_next_event (upd_worker k f s) = q_next_event s"
  "q_workers (upd_worker k f s) = upd_where (\<lambda>w. w_id w = k) f (q_workers s)"
  "q_anchor (upd_worker k f s) = q_anchor s" "q_backfilled (upd_worker k f s) = q_backfilled s" "q_grace (upd_worker k f s) = q_grace s"
  "q_heartbeat_timeout (upd_worker k f s) = q_heartbeat_timeout s"
  "q_last_scan (upd_worker k f s) = q_last_scan s" "q_scan_interval (upd_worker k f s) = q_scan_interval s"
  by (simp_all add: upd_worker_def)

lemma store_terminal_fence_sel:
  assumes "store_terminal_fence j s = Inr s'"
  shows "q_jobs s' = q_jobs s" "q_workers s' = q_workers s" "q_events s' = q_events s"
    "q_next_event s' = q_next_event s"
  using assms by (auto simp: store_terminal_fence_def split: option.splits if_splits)

lemma insert_event_sel:
  assumes "insert_event e n s = Inr s'"
  shows "q_jobs s' = q_jobs s" "q_workers s' = q_workers s" "q_fences s' = q_fences s"
  using assms by (auto simp: insert_event_def split: if_splits)

lemma record_event_cases:
  assumes "record_event_locked env k et src tgt wid code d s = Inr s'"
  obtains s1 e where "allowed_transition src tgt"
    "if terminal_state tgt then \<exists>j. job_row k s = Some j \<and> store_terminal_fence j s = Inr s1 else s1 = s"
    "ev_job e = k" "ev_from e = src" "ev_to e = tgt" "ev_worker e = wid" "ev_code e = take 128 code"
    "insert_event e MAX_JOB_EVENTS_PER_JOB s1 = Inr s'"
proof -
  from assms obtain ev s1 and detail :: "pystr \<times> pystr" where allowed: "allowed_transition src tgt"
    and fence: "(if terminal_state tgt
        then (case job_row k s of None \<Rightarrow> Inl TypeError | Some j \<Rightarrow> store_terminal_fence j s)
        else Inr s) = Inr s1"
    and ins: "insert_event \<lparr>ev_id = 0, ev_job = k, ev_type = ev, ev_from = src, ev_to = tgt,
         ev_worker = wid, ev_code = take 128 code, ev_details = fst detail, ev_created = utc env\<rparr>
       MAX_JOB_EVENTS_PER_JOB s1 = Inr s'"
    unfolding record_event_locked_def ebind_Inr_iff require_Inr_iff by blast
  from fence have "if terminal_state tgt
      then \<exists>j. job_row k s = Some j \<and> store_terminal_fence j s = Inr s1 else s1 = s"
    by (simp split: if_splits option.splits)
  from that [OF allowed this _ _ _ _ _ ins] show ?thesis by simp
qed

lemma record_event_sel:
  assumes "record_event_locked env k et src tgt wid code d s = Inr s'"
  shows "q_jobs s' = q_jobs s" "q_workers s' = q_workers s"
proof -
  from assms obtain s1 e where
    fence: "if terminal_state tgt then \<exists>j. job_row k s = Some j \<and> store_terminal_fence j s = Inr s1 else s1 = s"
    and ins: "insert_event e MAX_JOB_EVENTS_PER_JOB s1 = Inr s'"
    by (rule record_event_cases)
  from fence have "q_jobs s1 = q_jobs s \<and> q_workers s1 = q_workers s"
    by (cases "terminal_state tgt") (auto dest: store_terminal_fence_sel)
  then show "q_jobs s' = q_jobs s" "q_workers s' = q_workers s"
    using insert_event_sel [OF ins] by simp_all
qed

lemma record_event_allowed:
  "record_event_locked env k et src tgt wid code d s = Inr s' \<Longrightarrow> allowed_transition src tgt"
  by (rule record_event_cases)

end
