(* ===== verification/QueueRecovery.thy ===== *)
theory QueueRecovery
  imports QueueState
begin

text \<open>
  Taking work back: the recovery passes over leases and the worker registry of
  \<^verbatim>\<open>enterprise/distributed_queue_workers.py\<close>, and \<open>reconcile_durable_state\<close> of
  \<^verbatim>\<open>distributed_queue.py\<close>. Where SQL leaves the row order open, rows come in insertion order.
\<close>

section \<open>Shared statements\<close>

text \<open>
  The assignment every pass uses: \<open>SET state=?, lease_worker_id='', lease_token_sha256='',
  lease_expires_at=0, error_code=?, updated_at=?\<close>.
\<close>

definition release_job :: "env \<Rightarrow> job_state \<Rightarrow> pystr \<Rightarrow> job \<Rightarrow> job" where
  "release_job env target code j = j\<lparr>j_state := target, j_worker := [], j_token := [], j_expires := 0,
     j_error := code, j_updated := utc env\<rparr>"

definition effect_may_have_run :: "job \<Rightarrow> bool" where
  "effect_may_have_run j \<longleftrightarrow> j_mode j = NonIdempotent \<and> j_effect j = EffStarted"

text \<open>Where a released job goes, with the code for each of the three outcomes.\<close>

definition recovery_choice :: "job \<Rightarrow> pystr \<Rightarrow> pystr \<Rightarrow> pystr \<Rightarrow> job_state \<times> pystr" where
  "recovery_choice j review_code queued_code failed_code =
     (if effect_may_have_run j then (ReviewRequired, review_code)
      else if j_attempt j < j_max j then (Queued, queued_code)
      else (Failed, failed_code))"

text \<open>\<open>_recovery_target\<close>\<close>

definition recovery_target :: "job \<Rightarrow> pystr \<Rightarrow> job_state \<times> pystr" where
  "recovery_target j exhausted_code =
     recovery_choice j ''LEASE_STATE_LOST_AFTER_SIDE_EFFECT_START'' ''LEASE_STATE_RECONCILED'' exhausted_code"

text \<open>The dictionary \<open>recovered_by_worker\<close>, and the counter updates it ends in.\<close>

fun bump :: "pystr \<Rightarrow> (pystr \<times> int) list \<Rightarrow> (pystr \<times> int) list" where
  "bump k [] = [(k, 1)]"
| "bump k ((k', n) # m) = (if k' = k then (k', n + 1) # m else (k', n) # bump k m)"

fun release_slots :: "env \<Rightarrow> (pystr \<times> int) list \<Rightarrow> qstate \<Rightarrow> qstate" where
  "release_slots env [] s = s"
| "release_slots env ((k, n) # m) s =
     release_slots env m
       (upd_worker k (\<lambda>w. w\<lparr>w_leases := max 0 (w_leases w - n), w_updated := utc env\<rparr>) s)"

section \<open>Reconciliation\<close>

text \<open>\<open>invalid_lease_candidates_sql\<close>: active rows whose lease cannot be real.\<close>

definition invalid_lease :: "rat \<Rightarrow> qstate \<Rightarrow> job \<Rightarrow> bool" where
  "invalid_lease horizon s j \<longleftrightarrow> active_state (j_state j) \<and>
     (j_worker j = [] \<or> j_token j = [] \<or> j_expires j \<le> 0 \<or> horizon < j_expires j \<or>
      (case worker_row (j_worker j) s of None \<Rightarrow> True | Some w \<Rightarrow> w_state w = WRevoked))"

definition reconcile_lease :: "env \<Rightarrow> job \<Rightarrow> qstate \<times> nat \<Rightarrow> exc + (qstate \<times> nat)" where
  "reconcile_lease env row st =
     (let (s, n) = st; (target, code) = recovery_target row ''LEASE_STATE_INVALID_MAX_ATTEMPTS'' in
      ebind (record_event_locked env (j_id row) ''lease_reconciled'' (Some (j_state row)) target
               (j_worker row) code (JObj []) (upd_job (j_id row) (release_job env target code) s))
        (\<lambda>s'. Inr (s', Suc n)))"

text \<open>The number of active leases the job table attributes to a worker.\<close>

definition active_of :: "pystr \<Rightarrow> job list \<Rightarrow> nat" where
  "active_of k jobs = count_where (\<lambda>j. active_state (j_state j) \<and> j_worker j \<noteq> [] \<and> j_worker j = k) jobs"

definition repair_counter :: "env \<Rightarrow> qstate \<Rightarrow> worker \<Rightarrow> worker" where
  "repair_counter env s w =
     (let actual = int (active_of (w_id w) (q_jobs s)) in
      if actual \<noteq> w_leases w then w\<lparr>w_leases := actual, w_updated := utc env\<rparr> else w)"

text \<open>\<open>reconcile_durable_state\<close>: (worker counters repaired, leases recovered).\<close>

definition reconcile_durable_state :: "env \<Rightarrow> qstate \<Rightarrow> (exc + (nat \<times> nat)) \<times> qstate" where
  "reconcile_durable_state env = transact (\<lambda>s.
     let horizon = clk env 0 + of_int MAX_LEASE_SECONDS + 60 in
     ebind (efold (reconcile_lease env) (filter (invalid_lease horizon s) (q_jobs s)) (s, 0))
       (\<lambda>(s1, recovered).
         Inr ((count_where (\<lambda>w. int (active_of (w_id w) (q_jobs s1)) \<noteq> w_leases w) (q_workers s1), recovered),
              s1\<lparr>q_workers := map (repair_counter env s1) (q_workers s1)\<rparr>)))"

section \<open>The declared invariants\<close>

definition has_lease :: "job \<Rightarrow> bool" where
  "has_lease j \<longleftrightarrow> j_worker j \<noteq> [] \<or> j_token j \<noteq> [] \<or> 0 < j_expires j"

datatype violation =
    ActiveStateMissingLease pystr
  | InactiveStateRetainsLease pystr
  | ActiveLeases pystr int int
  | SlotBound pystr int

definition job_violations :: "job \<Rightarrow> violation list" where
  "job_violations j =
     (if active_state (j_state j) \<and> \<not> (j_worker j \<noteq> [] \<and> j_token j \<noteq> [] \<and> 0 < j_expires j)
      then [ActiveStateMissingLease (j_id j)]
      else if \<not> active_state (j_state j) \<and> has_lease j then [InactiveStateRetainsLease (j_id j)]
      else [])"

definition worker_violations :: "job list \<Rightarrow> worker \<Rightarrow> violation list" where
  "worker_violations jobs w =
     (let reported = w_leases w; expected = int (active_of (w_id w) jobs) in
      (if reported \<noteq> expected then [ActiveLeases (w_id w) reported expected] else []) @
      (if reported < 0 \<or> w_slots w < reported then [SlotBound (w_id w) reported] else []))"

text \<open>\<open>invariant_violations\<close>\<close>

definition invariant_violations :: "qstate \<Rightarrow> violation list" where
  "invariant_violations s =
     concat (map job_violations (q_jobs s)) @ concat (map (worker_violations (q_jobs s)) (q_workers s))"

section \<open>Recovery of expired leases and of silent workers\<close>

type_synonym recovery = "qstate \<times> (pystr \<times> int) list \<times> nat"

text \<open>
  The conditional \<open>UPDATE\<close> of one candidate row: only a row that still is as the scan saw it is
  released; a row another writer changed is skipped.
\<close>

definition recover_row ::
  "env \<Rightarrow> pystr \<Rightarrow> json \<Rightarrow> (job \<Rightarrow> bool) \<Rightarrow> job_state \<times> pystr \<Rightarrow> job \<Rightarrow> recovery \<Rightarrow> exc + recovery"
where
  "recover_row env etype details still_lost outcome row st =
     (let (s, recovered, affected) = st; (target, code) = outcome;
          hit = (\<lambda>j. j_id j = j_id row \<and> j_state j = j_state row \<and> j_worker j = j_worker row \<and>
                    j_token j = j_token row \<and> still_lost j)
      in if count_where hit (q_jobs s) \<noteq> 1 then Inr st
         else ebind (record_event_locked env (j_id row) etype (Some (j_state row)) target (j_worker row)
                       code details (s\<lparr>q_jobs := upd_where hit (release_job env target code) (q_jobs s)\<rparr>))
           (\<lambda>s'. Inr (s', bump (j_worker row) recovered, Suc affected)))"

text \<open>\<open>expired_lease_candidates_sql\<close> and the loop of \<open>recover_expired_leases\<close>\<close>

definition expired_candidates :: "rat \<Rightarrow> job list \<Rightarrow> job list" where
  "expired_candidates cutoff jobs =
     sort_key (\<lambda>j. (j_worker j, j_id j))
       (filter (\<lambda>j. active_state (j_state j) \<and> 0 < j_expires j \<and> j_expires j \<le> cutoff) jobs)"

definition recover_expired_row :: "env \<Rightarrow> rat \<Rightarrow> job \<Rightarrow> recovery \<Rightarrow> exc + recovery" where
  "recover_expired_row env cutoff row =
     recover_row env ''lease_expired'' (JObj []) (\<lambda>j. 0 < j_expires j \<and> j_expires j \<le> cutoff)
       (recovery_choice row ''LEASE_LOST_AFTER_SIDE_EFFECT_START'' ''LEASE_EXPIRED_REQUEUED''
          ''LEASE_EXPIRED_MAX_ATTEMPTS'') row"

definition recover_expired_body :: "env \<Rightarrow> rat \<Rightarrow> qstate \<Rightarrow> exc + (nat \<times> qstate)" where
  "recover_expired_body env cutoff s =
     ebind (efold (recover_expired_row env cutoff) (expired_candidates cutoff (q_jobs s)) (s, [], 0))
       (\<lambda>(s', recovered, affected). Inr (affected, release_slots env recovered s'))"

text \<open>
  \<open>recover_expired_leases\<close>. Without an explicit time the lease clock is read, the grace period applies
  and the scan time (the reading \<open>ticks\<close> of the monotonic clock) is noted.
\<close>

definition recover_expired_leases :: "env \<Rightarrow> rat \<Rightarrow> rat option \<Rightarrow> qstate \<Rightarrow> (exc + nat) \<times> qstate" where
  "recover_expired_leases env ticks now s =
     (let current = (case now of None \<Rightarrow> clk env 0 | Some t \<Rightarrow> t);
          cutoff = current - (if now = None then q_grace s else 0);
          (r, s') = transact (recover_expired_body env cutoff) s
      in (r, if now = None \<and> isl r = False then s'\<lparr>q_last_scan := ticks\<rparr> else s'))"

text \<open>The join of \<open>recover_stale_worker_leases\<close>: live leases of workers whose heartbeat is too old.\<close>

definition stale_candidates :: "rat \<Rightarrow> rat \<Rightarrow> qstate \<Rightarrow> (job \<times> rat) list" where
  "stale_candidates cutoff current s =
     concat (map (\<lambda>j. map (\<lambda>w. (j, w_heartbeat w))
       (filter (\<lambda>w. w_id w = j_worker j \<and> active_state (j_state j) \<and> j_worker j \<noteq> [] \<and>
          0 < w_heartbeat w \<and> w_heartbeat w \<le> cutoff \<and> current < j_expires j) (q_workers s))) (q_jobs s))"

definition recover_stale_row ::
  "env \<Rightarrow> rat \<Rightarrow> rat \<Rightarrow> job \<times> rat \<Rightarrow> recovery \<Rightarrow> exc + recovery"
where
  "recover_stale_row env cutoff current cand st =
     (let (row, heartbeat) = cand; (s, _, _) = st in
      case job_row (j_id row) s of
        None \<Rightarrow> Inr st
      | Some fresh \<Rightarrow>
          if j_state fresh \<noteq> j_state row \<or> j_worker fresh \<noteq> j_worker row \<or> j_token fresh \<noteq> j_token row
          then Inr st
          else recover_row env ''worker_heartbeat_lost''
            (JObj [(''heartbeat_timeout_seconds'', JNum ''45.0'')])
            (\<lambda>j. current < j_expires j \<and> (\<exists>w \<in> set (q_workers s). w_id w = j_worker row \<and>
               w_heartbeat w = heartbeat \<and> 0 < w_heartbeat w \<and> w_heartbeat w \<le> cutoff))
            (recovery_choice fresh ''WORKER_HEARTBEAT_LOST_AFTER_SIDE_EFFECT_START''
               ''WORKER_HEARTBEAT_LOST_REQUEUED'' ''WORKER_HEARTBEAT_LOST_MAX_ATTEMPTS'') row st)"

definition recover_stale_body :: "env \<Rightarrow> rat \<Rightarrow> qstate \<Rightarrow> exc + (nat \<times> qstate)" where
  "recover_stale_body env current s =
     (let cutoff = current - q_heartbeat_timeout s in
      ebind (efold (recover_stale_row env cutoff current) (stale_candidates cutoff current s) (s, [], 0))
        (\<lambda>(s', recovered, affected). Inr (affected, release_slots env recovered s')))"

definition recover_stale_worker_leases :: "env \<Rightarrow> rat option \<Rightarrow> qstate \<Rightarrow> (exc + nat) \<times> qstate" where
  "recover_stale_worker_leases env now =
     transact (recover_stale_body env (case now of None \<Rightarrow> clk env 0 | Some t \<Rightarrow> t))"

definition shift_env :: "nat \<Rightarrow> env \<Rightarrow> env" where
  "shift_env n env = env\<lparr>clk := (\<lambda>i. clk env (i + n))\<rparr>"

text \<open>
  \<open>_recover_expired_leases_if_due\<close>: at most once per scan interval of the monotonic clock (readings
  \<open>t0\<close>, \<open>t1\<close> and, after the sweep, \<open>t2\<close>), and not while another thread scans.
\<close>

definition recover_if_due :: "env \<Rightarrow> rat \<Rightarrow> rat \<Rightarrow> rat \<Rightarrow> bool \<Rightarrow> qstate \<Rightarrow> (exc + nat) \<times> qstate" where
  "recover_if_due env t0 t1 t2 scan_busy s =
     (if t0 - q_last_scan s < q_scan_interval s then (Inr 0, s)
      else if scan_busy then (Inr 0, s)
      else if t1 - q_last_scan s < q_scan_interval s then (Inr 0, s)
      else (case recover_stale_worker_leases env None s of
              (Inl e, s1) \<Rightarrow> (Inl e, s1)
            | (Inr n, s1) \<Rightarrow>
                (case recover_expired_leases (shift_env 1 env) t2 None s1 of
                   (Inl e, s2) \<Rightarrow> (Inl e, s2)
                 | (Inr m, s2) \<Rightarrow> (Inr (n + m), s2))))"

section \<open>The worker registry\<close>

text \<open>The checks of \<open>register_worker\<close> before its transaction: (id, algorithm, protocol, resources, metadata).\<close>

definition register_checks ::
  "env \<Rightarrow> pystr \<Rightarrow> pystr \<Rightarrow> json \<Rightarrow> int \<Rightarrow> int \<Rightarrow> pystr \<Rightarrow> json \<Rightarrow> exc + (pystr \<times> pystr \<times> int \<times> pystr \<times> pystr)"
where
  "register_checks env worker_id public_key resources protocol_min protocol_max identity_algorithm
     identity_metadata =
     ebind (clean_token worker_id 160) (\<lambda>wid.
     ebind (normalize_algorithm identity_algorithm) (\<lambda>algorithm.
     ebind (validate_public_key (key_ok env) algorithm public_key) (\<lambda>_.
     ebind (negotiate_protocol protocol_min protocol_max) (\<lambda>negotiated.
     ebind (bounded_json (sha256 env) resources MAX_RESOURCE_DECLARATION_BYTES) (\<lambda>res.
     ebind (bounded_json (sha256 env) identity_metadata (16 * 1024)) (\<lambda>meta.
       Inr (wid, algorithm, negotiated, fst res, fst meta)))))))"

text \<open>
  Its transaction, on the values the checks gave. \<open>fresh\<close> is the row a new worker gets; a known worker
  keeps its identity, state, counter and creation time.
\<close>

definition register_body :: "bool \<Rightarrow> worker \<Rightarrow> qstate \<Rightarrow> exc + (worker \<times> qstate)" where
  "register_body enforce_capacity fresh s =
     (let wid = w_id fresh in
      if enforce_capacity \<and>
         16 \<le> sum_list (map w_slots (filter (\<lambda>w. w_state w \<noteq> WRevoked \<and> w_id w \<noteq> wid) (q_workers s)))
                + w_slots fresh
      then Inl (dist_fail ''SQLITE_DISTRIBUTED_CAPACITY_EXCEEDED'')
      else (case worker_row wid s of
        None \<Rightarrow>
          if MAX_WORKERS \<le> length (q_workers s) then Inl (dist_fail ''DISTRIBUTED_WORKER_LIMIT'')
          else Inr (fresh, s\<lparr>q_workers := q_workers s @ [fresh]\<rparr>)
      | Some existing \<Rightarrow>
          if w_state existing = WRevoked then Inl (dist_fail ''WORKER_REVOKED'')
          else ebind (normalize_algorithm (w_algorithm existing)) (\<lambda>existing_algorithm.
            if w_key existing \<noteq> w_key fresh \<or> existing_algorithm \<noteq> w_algorithm fresh
            then Inl (dist_fail ''WORKER_IDENTITY_MISMATCH'')
            else (let f = (\<lambda>w. w\<lparr>w_display := w_display fresh, w_metadata := w_metadata fresh,
                    w_pmin := w_pmin fresh, w_pmax := w_pmax fresh, w_negotiated := w_negotiated fresh,
                    w_compat := w_compat fresh, w_resources := w_resources fresh, w_slots := w_slots fresh,
                    w_updated := w_updated fresh, w_heartbeat := w_heartbeat fresh\<rparr>)
                  in Inr (f existing, upd_worker wid f s)))))"

definition register_worker ::
  "env \<Rightarrow> bool \<Rightarrow> pystr \<Rightarrow> pystr \<Rightarrow> json \<Rightarrow> pystr \<Rightarrow> int \<Rightarrow> int \<Rightarrow> pystr \<Rightarrow> int \<Rightarrow> pystr \<Rightarrow> json \<Rightarrow>
   qstate \<Rightarrow> (exc + worker) \<times> qstate"
where
  "register_worker env enforce_capacity worker_id public_key resources display_name protocol_min
     protocol_max app_compat_version max_slots identity_algorithm identity_metadata s =
     (case register_checks env worker_id public_key resources protocol_min protocol_max identity_algorithm
             identity_metadata of
        Inl e \<Rightarrow> (Inl e, s)
      | Inr (wid, algorithm, negotiated, resources_json, metadata_json) \<Rightarrow>
          let shown = take 160 (py_strip display_name) in
          transact (register_body enforce_capacity
            \<lparr>w_id = wid, w_display = (if shown = [] then wid else shown), w_key = public_key,
             w_algorithm = algorithm, w_metadata = metadata_json, w_pmin = protocol_min,
             w_pmax = protocol_max, w_negotiated = negotiated, w_compat = take 64 app_compat_version,
             w_resources = resources_json, w_slots = max 1 (min MAX_WORKER_SLOTS max_slots), w_leases = 0,
             w_state = WActive, w_created = utc env, w_updated = utc env, w_heartbeat = clk env 0,
             w_revoked_at = []\<rparr>) s)"

text \<open>\<open>heartbeat\<close>\<close>

definition heartbeat :: "env \<Rightarrow> pystr \<Rightarrow> json option \<Rightarrow> qstate \<Rightarrow> (exc + unit) \<times> qstate" where
  "heartbeat env worker_id resources s =
     (case (case resources of None \<Rightarrow> Inr None
            | Some r \<Rightarrow> ebind (bounded_json (sha256 env) r MAX_RESOURCE_DECLARATION_BYTES) (\<lambda>x. Inr (Some (fst x)))) of
        Inl e \<Rightarrow> (Inl e, s)
      | Inr resources_json \<Rightarrow> transact (\<lambda>s.
          (case worker_row worker_id s of
             None \<Rightarrow> Inl (dist_fail ''WORKER_UNKNOWN'')
           | Some w \<Rightarrow>
               if w_state w = WRevoked then Inl (dist_fail ''WORKER_REVOKED'')
               else Inr ((), upd_worker worker_id (\<lambda>w.
                 (case resources_json of
                    None \<Rightarrow> w\<lparr>w_heartbeat := clk env 0, w_updated := utc env\<rparr>
                  | Some r \<Rightarrow> w\<lparr>w_heartbeat := clk env 0, w_updated := utc env, w_resources := r\<rparr>)) s))) s)"

text \<open>\<open>set_worker_drain\<close>\<close>

definition set_worker_drain :: "env \<Rightarrow> pystr \<Rightarrow> bool \<Rightarrow> qstate \<Rightarrow> (exc + unit) \<times> qstate" where
  "set_worker_drain env worker_id drain = transact (\<lambda>s.
     (case worker_row worker_id s of
        None \<Rightarrow> Inl (dist_fail ''WORKER_UNKNOWN'')
      | Some w \<Rightarrow>
          if w_state w = WRevoked then Inl (dist_fail ''WORKER_REVOKED'')
          else Inr ((), upd_worker worker_id
            (\<lambda>w. w\<lparr>w_state := (if drain then WDraining else WActive), w_updated := utc env\<rparr>) s)))"

text \<open>The loop of \<open>_recover_worker_jobs_locked\<close>\<close>

definition recover_worker_job :: "env \<Rightarrow> pystr \<Rightarrow> pystr \<Rightarrow> job \<Rightarrow> qstate \<times> nat \<Rightarrow> exc + (qstate \<times> nat)" where
  "recover_worker_job env worker_id error_code candidate st =
     (let (s, affected) = st in
      case job_row (j_id candidate) s of
        None \<Rightarrow> Inr st
      | Some row \<Rightarrow>
          if j_worker row \<noteq> worker_id \<or> \<not> active_state (j_state row) then Inr st
          else (let target = fst (recovery_choice row [] [] []) in
            ebind (record_event_locked env (j_id row) ''worker_lease_recovered'' (Some (j_state row)) target
                     worker_id error_code (JObj [])
                     (upd_job (j_id row) (release_job env target error_code) s))
              (\<lambda>s'. Inr (s', Suc affected))))"

text \<open>\<open>revoke_worker\<close>: revoke, zero the counter, take every lease back.\<close>

definition revoke_worker :: "env \<Rightarrow> pystr \<Rightarrow> qstate \<Rightarrow> (exc + nat) \<times> qstate" where
  "revoke_worker env worker_id = transact (\<lambda>s.
     (case worker_row worker_id s of
        None \<Rightarrow> Inl (dist_fail ''WORKER_UNKNOWN'')
      | Some _ \<Rightarrow>
          let s1 = upd_worker worker_id (\<lambda>w. w\<lparr>w_state := WRevoked, w_revoked_at := utc env,
                     w_updated := utc env, w_leases := 0\<rparr>) s
          in ebind (efold (recover_worker_job env worker_id ''WORKER_REVOKED'')
                      (filter (\<lambda>j. j_worker j = worker_id \<and> active_state (j_state j)) (q_jobs s1)) (s1, 0))
               (\<lambda>(s2, affected). Inr (affected, s2))))"

end
