(* ===== verification/QueueMaintenance.thy ===== *)
theory QueueMaintenance
  imports QueueRecovery
begin

text \<open>
  \<^verbatim>\<open>enterprise/distributed_queue_maintenance.py\<close> and the start-up of the queue: bounded terminal history,
  the durable anchor of the lease clock, and the passes \<open>initialize\<close> makes before work is admitted.
\<close>

section \<open>Terminal history\<close>

record retention_report =
  jobs_pruned :: nat
  tombstones_pruned :: nat
  pruning_disabled :: bool
  jobs_remaining :: nat
  idempotent_remaining :: nat
  non_idempotent_remaining :: nat

text \<open>\<open>DELETE\<close> of a terminal row; its events go with it (\<open>ON DELETE CASCADE\<close>).\<close>

definition delete_terminal_job :: "pystr \<Rightarrow> qstate \<Rightarrow> nat \<times> qstate" where
  "delete_terminal_job k s =
     (let hit = (\<lambda>j. j_id j = k \<and> terminal_state (j_state j)); n = count_where hit (q_jobs s) in
      (n, if n = 0 then s
          else s\<lparr>q_jobs := filter (\<lambda>j. \<not> hit j) (q_jobs s),
                 q_events := filter (\<lambda>e. ev_job e \<noteq> k) (q_events s)\<rparr>))"

definition prune_job :: "job \<Rightarrow> qstate \<times> nat \<Rightarrow> exc + (qstate \<times> nat)" where
  "prune_job row st =
     (let (s, pruned) = st in
      ebind (store_terminal_fence row s) (\<lambda>s1.
        let (n, s2) = delete_terminal_job (j_id row) s1 in Inr (s2, pruned + n)))"

text \<open>The fences of idempotent jobs beyond the bound go, unless their job is still there.\<close>

definition prune_fence :: "pystr \<Rightarrow> qstate \<times> nat \<Rightarrow> qstate \<times> nat" where
  "prune_fence k st =
     (let (s, pruned) = st;
          hit = (\<lambda>f. f_idem f = k \<and> f_mode f = Idempotent \<and> \<not> (\<exists>j \<in> set (q_jobs s). j_idem j = f_idem f))
      in (s\<lparr>q_fences := filter (\<lambda>f. \<not> hit f) (q_fences s)\<rparr>, pruned + count_where hit (q_fences s)))"

definition terminal_jobs_newest_first :: "job list \<Rightarrow> job list" where
  "terminal_jobs_newest_first jobs =
     rev (sort_key (\<lambda>j. (j_updated j, j_id j)) (filter (\<lambda>j. terminal_state (j_state j)) jobs))"

definition idempotent_fences_newest_first :: "fence list \<Rightarrow> fence list" where
  "idempotent_fences_newest_first fences =
     rev (sort_key (\<lambda>f. (f_terminal_at f, f_idem f)) (filter (\<lambda>f. f_mode f = Idempotent) fences))"

text \<open>\<open>_retain_terminal_locked\<close>\<close>

definition retain_terminal_locked :: "int \<Rightarrow> int \<Rightarrow> qstate \<Rightarrow> exc + (retention_report \<times> qstate)" where
  "retain_terminal_locked max_terminal max_tombstones s =
     ebind (if q_backfilled s
            then ebind (efold prune_job
                   (drop (nat (max 0 max_terminal)) (terminal_jobs_newest_first (q_jobs s))) (s, 0))
                 (\<lambda>(s1, jobs). Inr (jobs, fold (\<lambda>f. prune_fence (f_idem f))
                   (drop (nat (max 0 max_tombstones)) (idempotent_fences_newest_first (q_fences s1))) (s1, 0)))
            else Inr (0, s, 0))
       (\<lambda>(jobs, s2, tombstones).
          Inr (\<lparr>jobs_pruned = jobs, tombstones_pruned = tombstones, pruning_disabled = (\<not> q_backfilled s),
                jobs_remaining = length (q_jobs s2),
                idempotent_remaining = count_where (\<lambda>f. f_mode f = Idempotent) (q_fences s2),
                non_idempotent_remaining = count_where (\<lambda>f. f_mode f = NonIdempotent) (q_fences s2)\<rparr>, s2))"

definition retain_terminal_jobs :: "int \<Rightarrow> int \<Rightarrow> qstate \<Rightarrow> (exc + retention_report) \<times> qstate" where
  "retain_terminal_jobs max_terminal max_tombstones =
     transact (retain_terminal_locked max_terminal max_tombstones)"

text \<open>\<open>_job_count_guard\<close> of \<^verbatim>\<open>distributed_queue.py\<close>\<close>

definition job_count_guard :: "qstate \<Rightarrow> exc + qstate" where
  "job_count_guard s =
     ebind (if MAX_JOBS \<le> length (q_jobs s)
            then ebind (retain_terminal_locked (max 0 (int MAX_JOBS div 2 - 1)) (int MAX_JOBS) s)
                   (\<lambda>(_, s'). Inr s')
            else Inr s)
       (\<lambda>s'. if MAX_JOBS \<le> length (q_jobs s') then Inl (dist_fail ''DISTRIBUTED_QUEUE_FULL'') else Inr s')"

section \<open>Looking a key up\<close>

datatype keyed_job = LiveJob job | PrunedJob fence

text \<open>\<open>job_for_idempotency\<close>: the row, else the fence that outlives it.\<close>

definition job_for_idempotency :: "pystr \<Rightarrow> qstate \<Rightarrow> exc + keyed_job option" where
  "job_for_idempotency key s =
     ebind (clean_token key 192) (\<lambda>token.
       case row_of j_idem token (q_jobs s) of
         Some j \<Rightarrow> Inr (Some (LiveJob j))
       | None \<Rightarrow> Inr (map_option PrunedJob (fence_row token s)))"

section \<open>Start-up\<close>

text \<open>
  \<open>_initialize_lease_clock\<close> on the embedded backend: an anchor of the same boot domain that is not ahead of
  the monotonic clock is adopted; otherwise the deadlines of all active leases are void, since no
  trusted clock measured them, and a new anchor is stored. The result is the clock to continue with.
\<close>

definition initialize_lease_clock :: "pystr \<Rightarrow> rat \<Rightarrow> rat \<Rightarrow> stable_clock \<Rightarrow> qstate \<Rightarrow> stable_clock \<times> qstate" where
  "initialize_lease_clock domain ticks epoch clock s =
     (case q_anchor s of
        Some (d, m, e) \<Rightarrow>
          if d = domain \<and> m \<le> ticks then (clock_anchored e m, s)
          else (clock, s\<lparr>q_jobs := upd_where (\<lambda>j. active_state (j_state j)) (\<lambda>j. j\<lparr>j_expires := 1\<rparr>) (q_jobs s),
                         q_anchor := Some (domain, ticks, epoch)\<rparr>)
      | None \<Rightarrow>
          (clock, s\<lparr>q_jobs := upd_where (\<lambda>j. active_state (j_state j)) (\<lambda>j. j\<lparr>j_expires := 1\<rparr>) (q_jobs s),
                    q_anchor := Some (domain, ticks, epoch)\<rparr>))"

definition backfill_fences :: "qstate \<Rightarrow> exc + (unit \<times> qstate)" where
  "backfill_fences s =
     ebind (efold store_terminal_fence (filter (\<lambda>j. terminal_state (j_state j)) (q_jobs s)) s)
       (\<lambda>s'. Inr ((), s'))"

text \<open>
  \<open>initialize\<close> after the schema is in place: (clock, summary of the three recovery passes). A pass that
  raises ends the start-up.
\<close>

definition initialize :: "env \<Rightarrow> pystr \<Rightarrow> rat \<Rightarrow> rat \<Rightarrow> rat \<Rightarrow> stable_clock \<Rightarrow> qstate \<Rightarrow>
    (exc + (stable_clock \<times> (nat \<times> nat) \<times> nat \<times> nat)) \<times> qstate" where
  "initialize env domain ticks epoch scan_ticks clock s =
     (let (clock', s0) = initialize_lease_clock domain ticks epoch clock s in
      case transact backfill_fences (s0\<lparr>q_backfilled := False\<rparr>) of
        (Inl e, s1) \<Rightarrow> (Inl e, s1)
      | (Inr _, s1) \<Rightarrow>
          (case reconcile_durable_state env (s1\<lparr>q_backfilled := True\<rparr>) of
             (Inl e, s2) \<Rightarrow> (Inl e, s2)
           | (Inr summary, s2) \<Rightarrow>
               (case recover_stale_worker_leases (shift_env 1 env) None s2 of
                  (Inl e, s3) \<Rightarrow> (Inl e, s3)
                | (Inr stale, s3) \<Rightarrow>
                    (case recover_expired_leases (shift_env 2 env) scan_ticks None s3 of
                       (Inl e, s4) \<Rightarrow> (Inl e, s4)
                     | (Inr expired, s4) \<Rightarrow> (Inr (clock', summary, stale, expired), s4)))))"

end
