(* ===== verification/QueueOps.thy ===== *)
theory QueueOps
  imports QueueMaintenance
begin

text \<open>
  The operations of \<open>DurableDistributedQueue\<close> (\<^verbatim>\<open>enterprise/distributed_queue.py\<close>) on the embedded SQLite
  backend, where the single-statement paths of the PostgreSQL backend are absent: admission, leasing,
  the operations fenced by a lease, and the storage circuit breaker around leasing.
\<close>

section \<open>Admission\<close>

record job_request =
  r_kind :: pystr
  r_payload :: json
  r_resource :: pystr
  r_permission :: pystr
  r_idem :: pystr
  r_mode :: pystr
  r_max_attempts :: int
  r_priority :: int
  r_protocol :: int
  r_traceparent :: pystr
  r_tracestate :: pystr
  r_prefix :: pystr
  r_prefix_limit :: "int option"

definition parse_mode :: "pystr \<Rightarrow> exc + side_mode" where
  "parse_mode value =
     (let mode = py_casefold (py_strip value) in
      if mode = ''idempotent'' then Inr Idempotent
      else if mode = ''non_idempotent'' then Inr NonIdempotent
      else Inl (dist_fail ''DISTRIBUTED_SIDE_EFFECT_MODE_INVALID''))"

definition show_mode :: "side_mode \<Rightarrow> pystr" where
  "show_mode m = (case m of Idempotent \<Rightarrow> ''idempotent'' | NonIdempotent \<Rightarrow> ''non_idempotent'')"

text \<open>The checks of \<open>enqueue\<close> before the transaction, and the row they lead to.\<close>

definition new_job :: "env \<Rightarrow> job_request \<Rightarrow> exc + job" where
  "new_job env r =
     ebind (clean_token (r_kind r) 160) (\<lambda>kind.
     ebind (clean_token (r_resource r) 256) (\<lambda>resource.
     ebind (clean_token (r_permission r) 128) (\<lambda>capability.
     ebind (clean_token (r_idem r) 192) (\<lambda>idem.
     ebind (parse_mode (r_mode r)) (\<lambda>mode.
     ebind (require (MIN_COMPATIBLE_PROTOCOL \<le> r_protocol r \<and> r_protocol r \<le> CURRENT_PROTOCOL)
              (dist_fail ''PROTOCOL_INCOMPATIBLE'')) (\<lambda>_.
     ebind (bounded_json (sha256 env) (r_payload r) MAX_JOB_PAYLOAD_BYTES) (\<lambda>payload.
     let trace = persisted_trace_fields (fresh_trace env) (fresh_span env) (r_traceparent r) (r_tracestate r) in
     Inr \<lparr>j_id = fresh_id env, j_kind = kind, j_state = Queued, j_payload = fst payload,
       j_payload_sha = snd payload, j_traceparent = fst trace, j_tracestate = snd trace,
       j_resource = resource, j_permission = capability, j_idem = idem, j_mode = mode,
       j_effect = EffNone, j_attempt = 0, j_max = max 1 (min 20 (r_max_attempts r)),
       j_protocol = r_protocol r, j_priority = max (- 1000) (min 1000 (r_priority r)),
       j_worker = [], j_token = [], j_expires = 0, j_checkpoint = ''{}'', j_checkpoint_seq = 0,
       j_result = ''{}'', j_result_sha = [], j_term_worker = [], j_term_token = [], j_term_at = [],
       j_error = [], j_created = utc env, j_updated = utc env\<rparr>)))))))"

text \<open>A row or a fence that holds the key, seen as \<open>(job_id, kind, payload, resource, permission, mode)\<close>.\<close>

definition identity_of_job :: "job \<Rightarrow> pystr \<times> pystr \<times> pystr \<times> pystr \<times> pystr \<times> side_mode" where
  "identity_of_job j = (j_id j, j_kind j, j_payload_sha j, j_resource j, j_permission j, j_mode j)"

definition identity_of_fence :: "fence \<Rightarrow> pystr \<times> pystr \<times> pystr \<times> pystr \<times> pystr \<times> side_mode" where
  "identity_of_fence f = (f_job f, f_kind f, f_payload_sha f, f_resource f, f_permission f, f_mode f)"

definition holder_of_key :: "pystr \<Rightarrow> qstate \<Rightarrow> (pystr \<times> pystr \<times> pystr \<times> pystr \<times> pystr \<times> side_mode) option" where
  "holder_of_key key s =
     (case row_of j_idem key (q_jobs s) of
        Some j \<Rightarrow> Some (identity_of_job j)
      | None \<Rightarrow> map_option identity_of_fence (fence_row key s))"

definition prefix_count :: "pystr \<Rightarrow> job list \<Rightarrow> nat" where
  "prefix_count prefix jobs = count_where (\<lambda>j. take (length prefix) (j_idem j) = prefix) jobs"

definition prefix_guard :: "job_request \<Rightarrow> qstate \<Rightarrow> exc + unit" where
  "prefix_guard r s =
     (case r_prefix_limit r of
        None \<Rightarrow> Inr ()
      | Some n \<Rightarrow> ebind (clean_token (r_prefix r) 192) (\<lambda>prefix.
          require (int (prefix_count prefix (q_jobs s)) < max 1 (min (int MAX_JOBS) n))
            (dist_fail ''DISTRIBUTED_PREFIX_LIMIT'')))"

definition enqueue_details :: "job \<Rightarrow> json" where
  "enqueue_details j = JObj [(''kind'', JStr (j_kind j)), (''side_effect_mode'', JStr (show_mode (j_mode j))),
     (''protocol_version'', JInt (j_protocol j)),
     (''trace_id'', JStr (split_on (CHR ''-'') (j_traceparent j) ! 1))]"

definition enqueue_body :: "env \<Rightarrow> job_request \<Rightarrow> job \<Rightarrow> qstate \<Rightarrow> exc + (pystr \<times> qstate)" where
  "enqueue_body env r j s =
     (case holder_of_key (j_idem j) s of
        Some (existing_id, identity) \<Rightarrow>
          if identity = snd (identity_of_job j) then Inr (existing_id, s)
          else Inl (dist_fail ''DISTRIBUTED_IDEMPOTENCY_COLLISION'')
      | None \<Rightarrow>
          ebind (prefix_guard r s) (\<lambda>_.
          ebind (job_count_guard s) (\<lambda>s1.
          if j_id j \<in> j_id ` set (q_jobs s1) then Inl IntegrityError
          else ebind (record_event_locked env (j_id j) ''enqueued'' None Queued [] [] (enqueue_details j)
                        (s1\<lparr>q_jobs := q_jobs s1 @ [j]\<rparr>))
                 (\<lambda>s2. Inr (j_id j, s2)))))"

definition enqueue :: "env \<Rightarrow> job_request \<Rightarrow> qstate \<Rightarrow> (exc + pystr) \<times> qstate" where
  "enqueue env r s =
     (case new_job env r of Inl e \<Rightarrow> (Inl e, s) | Inr j \<Rightarrow> transact (enqueue_body env r j) s)"

section \<open>Leasing\<close>

text \<open>A lease as the worker gets it; the plain token is in no table. Payload and checkpoint are the stored texts.\<close>

record lease =
  l_job :: pystr
  l_worker :: pystr
  l_token :: pystr
  l_expires :: rat
  l_kind :: pystr
  l_payload :: pystr
  l_resource :: pystr
  l_permission :: pystr
  l_attempt :: int
  l_max :: int
  l_mode :: side_mode
  l_checkpoint :: pystr
  l_checkpoint_seq :: int
  l_protocol :: int
  l_traceparent :: pystr
  l_tracestate :: pystr

definition lease_from_row :: "job \<Rightarrow> pystr \<Rightarrow> pystr \<Rightarrow> rat \<Rightarrow> int \<Rightarrow> lease" where
  "lease_from_row j worker token expires attempt =
     \<lparr>l_job = j_id j, l_worker = worker, l_token = token, l_expires = expires, l_kind = j_kind j,
      l_payload = j_payload j, l_resource = j_resource j, l_permission = j_permission j,
      l_attempt = attempt, l_max = j_max j, l_mode = j_mode j, l_checkpoint = j_checkpoint j,
      l_checkpoint_seq = j_checkpoint_seq j, l_protocol = j_protocol j,
      l_traceparent = j_traceparent j, l_tracestate = j_tracestate j\<rparr>"

text \<open>\<open>lease_candidate_sql\<close>: highest priority first, then oldest; equals in insertion order.\<close>

definition lease_candidate :: "int \<Rightarrow> int \<Rightarrow> job list \<Rightarrow> job option" where
  "lease_candidate pmin pmax jobs =
     (case sort_key (\<lambda>j. (- j_priority j, j_created j))
             (filter (\<lambda>j. j_state j = Queued \<and> pmin \<le> j_protocol j \<and> j_protocol j \<le> pmax) jobs) of
        [] \<Rightarrow> None | j # _ \<Rightarrow> Some j)"

definition clamp_lease :: "int \<Rightarrow> int" where
  "clamp_lease seconds = max 15 (min MAX_LEASE_SECONDS seconds)"

definition grant_lease :: "env \<Rightarrow> pystr \<Rightarrow> pystr \<Rightarrow> rat \<Rightarrow> job \<Rightarrow> job" where
  "grant_lease env worker digest expires j = j\<lparr>j_state := Leased, j_attempt := j_attempt j + 1,
     j_worker := worker, j_token := digest, j_expires := expires, j_error := [], j_updated := utc env\<rparr>"

text \<open>\<open>claim_worker_slot_sql\<close>\<close>

definition slot_open :: "pystr \<Rightarrow> worker \<Rightarrow> bool" where
  "slot_open worker w \<longleftrightarrow> w_id w = worker \<and> w_state w = WActive \<and> w_leases w < w_slots w"

definition claim_slot :: "env \<Rightarrow> rat \<Rightarrow> worker \<Rightarrow> worker" where
  "claim_slot env now w = w\<lparr>w_leases := w_leases w + 1, w_heartbeat := now, w_updated := utc env\<rparr>"

datatype grant = NoGrant | SlotLost | Granted lease qstate

text \<open>
  One candidate granted to a worker: the conditional update of its row, the conditional claim of a
  slot, the event. Readings \<open>2 i\<close> and \<open>2 i + 1\<close> of the clock and token \<open>i\<close> are used.
\<close>

definition grant_candidate ::
  "env \<Rightarrow> nat \<Rightarrow> pystr \<Rightarrow> int \<Rightarrow> (pystr \<times> json) list \<Rightarrow> job \<Rightarrow> qstate \<Rightarrow> exc + grant"
where
  "grant_candidate env i worker duration extra row s =
     (let token = tok env i; digest = sha256 env token; expires = clk env (2 * i) + of_int duration;
          attempt = j_attempt row + 1;
          hit = (\<lambda>j. j_id j = j_id row \<and> j_state j = Queued)
      in if count_where hit (q_jobs s) \<noteq> 1 then Inr NoGrant
         else (let s1 = s\<lparr>q_jobs := upd_where hit (grant_lease env worker digest expires) (q_jobs s)\<rparr> in
           if count_where (slot_open worker) (q_workers s1) \<noteq> 1 then Inr SlotLost
           else (let s2 = s1\<lparr>q_workers := upd_where (slot_open worker) (claim_slot env (clk env (2 * i + 1)))
                               (q_workers s1)\<rparr> in
             ebind (record_event_locked env (j_id row) ''leased'' (Some Queued) Leased worker []
                      (JObj ([(''attempt'', JInt attempt), (''lease_seconds'', JInt duration)] @ extra @
                             [(''clock'', JStr ''stable-monotonic-epoch'')])) s2)
               (\<lambda>s3. Inr (Granted (lease_from_row row worker token expires attempt) s3)))))"

text \<open>The transaction of \<open>_lease_next_storage\<close>; a rollback that returns gives the state back unchanged.\<close>

definition lease_next_body :: "env \<Rightarrow> pystr \<Rightarrow> int \<Rightarrow> qstate \<Rightarrow> exc + (lease option \<times> qstate)" where
  "lease_next_body env worker duration s =
     (case worker_row worker s of
        None \<Rightarrow> Inl (dist_fail ''WORKER_UNKNOWN'')
      | Some w \<Rightarrow>
          if w_state w = WRevoked then Inl (dist_fail ''WORKER_REVOKED'')
          else if w_state w \<noteq> WActive then Inr (None, s)
          else if w_slots w \<le> w_leases w then Inr (None, s)
          else (case lease_candidate (w_pmin w) (w_pmax w) (q_jobs s) of
                  None \<Rightarrow> Inr (None, s)
                | Some row \<Rightarrow> ebind (grant_candidate env 0 worker duration [] row s)
                    (\<lambda>g. case g of Granted l s' \<Rightarrow> Inr (Some l, s') | _ \<Rightarrow> Inr (None, s))))"

text \<open>
  \<open>_lease_next_storage\<close>: the sweep of expired leases when it is due, then the transaction. The sweep has
  its own transactions, so what it recovered stays recovered when leasing raises.
\<close>

record scan =
  scan_t0 :: rat
  scan_t1 :: rat
  scan_t2 :: rat
  scan_busy :: bool

definition lease_next_storage :: "env \<Rightarrow> scan \<Rightarrow> pystr \<Rightarrow> int \<Rightarrow> qstate \<Rightarrow> (exc + lease option) \<times> qstate" where
  "lease_next_storage env sc worker seconds s =
     (case recover_if_due env (scan_t0 sc) (scan_t1 sc) (scan_t2 sc) (scan_busy sc) s of
        (Inl e, s1) \<Rightarrow> (Inl e, s1)
      | (Inr _, s1) \<Rightarrow> transact (lease_next_body (shift_env 2 env) worker (clamp_lease seconds)) s1)"

text \<open>
  The loop of \<open>_lease_many_storage\<close>: \<open>n\<close> rounds are left and \<open>i\<close> were made. A candidate that was taken
  meanwhile is skipped; a lost slot rolls the whole batch back, which is \<open>None\<close>.
\<close>

fun lease_rounds :: "env \<Rightarrow> nat \<Rightarrow> nat \<Rightarrow> pystr \<Rightarrow> int \<Rightarrow> int \<Rightarrow> int \<Rightarrow> qstate \<Rightarrow> exc + (lease list \<times> qstate) option" where
  "lease_rounds env i 0 worker duration pmin pmax s = Inr (Some ([], s))"
| "lease_rounds env i (Suc n) worker duration pmin pmax s =
     (case lease_candidate pmin pmax (q_jobs s) of
        None \<Rightarrow> Inr (Some ([], s))
      | Some row \<Rightarrow>
          ebind (grant_candidate env i worker duration [(''batch'', JBool True)] row s) (\<lambda>g.
            case g of
              NoGrant \<Rightarrow> lease_rounds env (Suc i) n worker duration pmin pmax s
            | SlotLost \<Rightarrow> Inr None
            | Granted l s' \<Rightarrow>
                ebind (lease_rounds env (Suc i) n worker duration pmin pmax s')
                  (\<lambda>rest. Inr (map_option (\<lambda>(ls, s''). (l # ls, s'')) rest))))"

definition lease_many_body :: "env \<Rightarrow> pystr \<Rightarrow> int \<Rightarrow> int \<Rightarrow> qstate \<Rightarrow> exc + (lease list \<times> qstate)" where
  "lease_many_body env worker limit duration s =
     (case worker_row worker s of
        None \<Rightarrow> Inl (dist_fail ''WORKER_UNKNOWN'')
      | Some w \<Rightarrow>
          if w_state w \<noteq> WActive
          then (if w_state w = WRevoked then Inl (dist_fail ''WORKER_REVOKED'') else Inr ([], s))
          else (let available = max 0 (min limit (w_slots w - w_leases w)) in
            if available \<le> 0 then Inr ([], s)
            else ebind (lease_rounds env 0 (nat available) worker duration (w_pmin w) (w_pmax w) s)
              (\<lambda>res. Inr (case res of None \<Rightarrow> ([], s) | Some ls \<Rightarrow> ls))))"

definition lease_many_storage :: "env \<Rightarrow> scan \<Rightarrow> pystr \<Rightarrow> int \<Rightarrow> int \<Rightarrow> qstate \<Rightarrow> (exc + lease list) \<times> qstate" where
  "lease_many_storage env sc worker max_items seconds s =
     (case recover_if_due env (scan_t0 sc) (scan_t1 sc) (scan_t2 sc) (scan_busy sc) s of
        (Inl e, s1) \<Rightarrow> (Inl e, s1)
      | (Inr _, s1) \<Rightarrow> transact (lease_many_body (shift_env 2 env) worker
                         (max 1 (min MAX_WORKER_SLOTS max_items)) (clamp_lease seconds)) s1)"

section \<open>Operations fenced by a lease\<close>

text \<open>\<open>_require_lease_locked\<close> on a row already read: the guard before every operation of a lease holder.\<close>

definition lease_check :: "env \<Rightarrow> rat \<Rightarrow> worker option \<Rightarrow> job \<Rightarrow> pystr \<Rightarrow> pystr \<Rightarrow> exc + job" where
  "lease_check env now w row worker_id lease_token =
     (if (case w of None \<Rightarrow> True | Some w \<Rightarrow> w_state w = WRevoked) \<or> \<not> active_state (j_state row)
         \<or> j_worker row \<noteq> worker_id
      then Inl (dist_fail ''DISTRIBUTED_LEASE_STALE'')
      else if j_token row = [] \<or> j_token row \<noteq> sha256 env lease_token
      then Inl (dist_fail ''DISTRIBUTED_LEASE_STALE'')
      else if j_expires row \<le> now then Inl (dist_fail ''DISTRIBUTED_LEASE_EXPIRED'')
      else if now + of_int MAX_LEASE_SECONDS + 60 < j_expires row
      then Inl (dist_fail ''DISTRIBUTED_LEASE_TIME_INVALID'')
      else Inr row)"

definition require_lease :: "env \<Rightarrow> pystr \<Rightarrow> pystr \<Rightarrow> pystr \<Rightarrow> qstate \<Rightarrow> exc + job" where
  "require_lease env job_id worker_id lease_token s =
     (case job_row job_id s of
        None \<Rightarrow> Inl (dist_fail ''DISTRIBUTED_JOB_UNKNOWN'')
      | Some row \<Rightarrow> lease_check env (clk env 0) (worker_row worker_id s) row worker_id lease_token)"

text \<open>\<open>UPDATE distributed_workers SET active_leases=max(0,active_leases-1), heartbeat_at=?\<close>\<close>

definition release_slot :: "env \<Rightarrow> worker \<Rightarrow> worker" where
  "release_slot env w = w\<lparr>w_leases := max 0 (w_leases w - 1), w_heartbeat := clk env 1, w_updated := utc env\<rparr>"

definition start_job :: "env \<Rightarrow> pystr \<Rightarrow> pystr \<Rightarrow> pystr \<Rightarrow> qstate \<Rightarrow> (exc + unit) \<times> qstate" where
  "start_job env job_id worker_id lease_token = transact (\<lambda>s.
     ebind (require_lease env job_id worker_id lease_token s) (\<lambda>row.
       if j_state row \<noteq> Running
       then ebind (record_event_locked env job_id ''started'' (Some (j_state row)) Running worker_id [] (JObj [])
                     (upd_job job_id (\<lambda>j. j\<lparr>j_state := Running, j_updated := utc env\<rparr>) s))
              (\<lambda>s'. Inr ((), s'))
       else Inr ((), s)))"

definition renew_lease :: "env \<Rightarrow> pystr \<Rightarrow> pystr \<Rightarrow> pystr \<Rightarrow> int \<Rightarrow> qstate \<Rightarrow> (exc + rat) \<times> qstate" where
  "renew_lease env job_id worker_id lease_token seconds = transact (\<lambda>s.
     ebind (require_lease env job_id worker_id lease_token s) (\<lambda>_.
       let expires = clk env 1 + of_int (clamp_lease seconds) in
       Inr (expires,
         upd_worker worker_id (\<lambda>w. w\<lparr>w_heartbeat := clk env 2, w_updated := utc env\<rparr>)
           (upd_job job_id (\<lambda>j. j\<lparr>j_expires := expires, j_updated := utc env\<rparr>) s))))"

definition handover_lease :: "env \<Rightarrow> pystr \<Rightarrow> pystr \<Rightarrow> pystr \<Rightarrow> pystr \<Rightarrow> qstate \<Rightarrow> (exc + job_state) \<times> qstate" where
  "handover_lease env job_id worker_id lease_token reason s =
     (case clean_token (if reason = [] then ''WORKER_HANDOVER'' else reason) 128 of
        Inl e \<Rightarrow> (Inl e, s)
      | Inr code \<Rightarrow> transact (\<lambda>s.
          ebind (require_lease env job_id worker_id lease_token s) (\<lambda>row.
            let (target, code') = recovery_choice row ''HANDOVER_AFTER_SIDE_EFFECT_START'' code
                                    ''HANDOVER_MAX_ATTEMPTS'';
                s1 = upd_worker worker_id (release_slot env)
                       (upd_job job_id (release_job env target code') s)
            in ebind (record_event_locked env job_id ''lease_handover'' (Some (j_state row)) target worker_id
                        code' (JObj [(''review_required'', JBool (target = ReviewRequired))]) s1)
                 (\<lambda>s'. Inr (target, s')))) s)"

definition checkpoint :: "env \<Rightarrow> pystr \<Rightarrow> pystr \<Rightarrow> pystr \<Rightarrow> json \<Rightarrow> qstate \<Rightarrow> (exc + int) \<times> qstate" where
  "checkpoint env job_id worker_id lease_token value s =
     (case bounded_json (sha256 env) value MAX_CHECKPOINT_BYTES of
        Inl e \<Rightarrow> (Inl e, s)
      | Inr (payload, _) \<Rightarrow> transact (\<lambda>s.
          ebind (require_lease env job_id worker_id lease_token s) (\<lambda>row.
            let sequence = j_checkpoint_seq row + 1 in
            Inr (sequence, upd_job job_id (\<lambda>j. j\<lparr>j_checkpoint := payload, j_checkpoint_seq := sequence,
                                            j_updated := utc env\<rparr>) s))) s)"

definition mark_side_effect_started :: "env \<Rightarrow> pystr \<Rightarrow> pystr \<Rightarrow> pystr \<Rightarrow> qstate \<Rightarrow> (exc + unit) \<times> qstate" where
  "mark_side_effect_started env job_id worker_id lease_token = transact (\<lambda>s.
     ebind (require_lease env job_id worker_id lease_token s) (\<lambda>row.
       if j_mode row \<noteq> NonIdempotent then Inr ((), s)
       else if j_effect row = EffStarted
       then Inl (dist_fail ''DISTRIBUTED_SIDE_EFFECT_ALREADY_STARTED'')
       else (let hit = (\<lambda>j. j_id j = job_id \<and> j_effect j \<noteq> EffStarted \<and> j_worker j = worker_id \<and>
                           j_token j = sha256 env lease_token) in
         if count_where hit (q_jobs s) \<noteq> 1
         then Inl (dist_fail ''DISTRIBUTED_SIDE_EFFECT_FENCE_CONFLICT'')
         else ebind (record_event_locked env job_id ''side_effect_started'' (Some (j_state row)) (j_state row)
                       worker_id ''NON_IDEMPOTENT_FENCE'' (JObj [])
                       (s\<lparr>q_jobs := upd_where hit (\<lambda>j. j\<lparr>j_effect := EffStarted, j_updated := utc env\<rparr>)
                                     (q_jobs s)\<rparr>))
                (\<lambda>s'. Inr ((), s')))))"

definition finish_job :: "env \<Rightarrow> pystr \<Rightarrow> pystr \<Rightarrow> pystr \<Rightarrow> pystr \<Rightarrow> side_effect \<Rightarrow> job \<Rightarrow> job" where
  "finish_job env worker_id digest result result_sha effect j =
     j\<lparr>j_state := Completed, j_result := result, j_result_sha := result_sha, j_effect := effect,
       j_term_worker := worker_id, j_term_token := digest, j_term_at := utc env, j_worker := [],
       j_token := [], j_expires := 0, j_error := [], j_updated := utc env\<rparr>"

text \<open>
  \<open>complete\<close>. A repeated completion with the same worker, token and result is accepted and changes nothing,
  from the row or, when retention has deleted it, from the receipt of its fence; any other late
  completion is a conflict.
\<close>

definition complete_body :: "env \<Rightarrow> pystr \<Rightarrow> pystr \<Rightarrow> pystr \<Rightarrow> pystr \<Rightarrow> pystr \<Rightarrow> qstate \<Rightarrow> exc + (unit \<times> qstate)" where
  "complete_body env job_id worker_id lease_token result result_sha s =
     (let digest = sha256 env lease_token in
      case job_row job_id s of
        None \<Rightarrow>
          (case row_of f_job job_id (q_fences s) of
             None \<Rightarrow> Inl (dist_fail ''DISTRIBUTED_JOB_UNKNOWN'')
           | Some f \<Rightarrow>
               if f_state f = Completed
               then (if f_receipt f = [worker_id, digest, result_sha] then Inr ((), s)
                     else Inl (dist_fail ''DISTRIBUTED_TERMINAL_CONFLICT''))
               else Inl (dist_fail ''DISTRIBUTED_JOB_UNKNOWN''))
      | Some existing \<Rightarrow>
          if j_state existing = Completed
          then (if j_term_worker existing = worker_id \<and> j_term_token existing = digest \<and>
                   j_result_sha existing = result_sha
                then Inr ((), s) else Inl (dist_fail ''DISTRIBUTED_TERMINAL_CONFLICT''))
          else ebind (lease_check env (clk env 0) (worker_row worker_id s) existing worker_id lease_token)
            (\<lambda>row.
              let effect = (if j_effect row = EffStarted then EffCompleted else j_effect row);
                  hit = (\<lambda>j. j_id j = job_id \<and> active_state (j_state j) \<and> j_worker j = worker_id \<and>
                            j_token j = digest)
              in if count_where hit (q_jobs s) \<noteq> 1 then Inl (dist_fail ''DISTRIBUTED_TERMINAL_CONFLICT'')
                 else (let s1 = upd_worker worker_id (release_slot env)
                         (s\<lparr>q_jobs := upd_where hit (finish_job env worker_id digest result result_sha effect)
                                       (q_jobs s)\<rparr>) in
                   ebind (record_event_locked env job_id ''completed'' (Some (j_state row)) Completed worker_id []
                            (JObj [(''result_sha256'', JStr result_sha)]) s1)
                     (\<lambda>s'. Inr ((), s')))))"

definition complete :: "env \<Rightarrow> pystr \<Rightarrow> pystr \<Rightarrow> pystr \<Rightarrow> json \<Rightarrow> qstate \<Rightarrow> (exc + unit) \<times> qstate" where
  "complete env job_id worker_id lease_token result s =
     (case bounded_json (sha256 env) result MAX_RESULT_BYTES of
        Inl e \<Rightarrow> (Inl e, s)
      | Inr (text, result_sha) \<Rightarrow> transact (complete_body env job_id worker_id lease_token text result_sha) s)"

definition fail_details :: "bool \<Rightarrow> job \<Rightarrow> json" where
  "fail_details retryable row = JObj [(''retryable'', JBool retryable), (''attempt'', JInt (j_attempt row)),
     (''max_attempts'', JInt (j_max row))]"

definition fail_job :: "env \<Rightarrow> pystr \<Rightarrow> pystr \<Rightarrow> pystr \<Rightarrow> pystr \<Rightarrow> bool \<Rightarrow> qstate \<Rightarrow> (exc + job_state) \<times> qstate" where
  "fail_job env job_id worker_id lease_token error_code retryable s =
     (case clean_token (if error_code = [] then ''WORKER_EXECUTION_FAILED'' else error_code) 128 of
        Inl e \<Rightarrow> (Inl e, s)
      | Inr code \<Rightarrow> transact (\<lambda>s.
          ebind (require_lease env job_id worker_id lease_token s) (\<lambda>row.
            let target = (if effect_may_have_run row then ReviewRequired
                          else if retryable \<and> j_attempt row < j_max row then Queued else Failed)
            in ebind (record_event_locked env job_id ''execution_failed'' (Some (j_state row)) target worker_id
                        code (fail_details retryable row) (upd_job job_id (release_job env target code) s))
                 (\<lambda>s'. Inr (target, upd_worker worker_id (release_slot env) s')))) s)"

definition retry_review_required :: "env \<Rightarrow> pystr \<Rightarrow> qstate \<Rightarrow> (exc + unit) \<times> qstate" where
  "retry_review_required env job_id = transact (\<lambda>s.
     (case job_row job_id s of
        None \<Rightarrow> Inl (dist_fail ''DISTRIBUTED_JOB_UNKNOWN'')
      | Some row \<Rightarrow>
          if j_state row \<noteq> ReviewRequired then Inl (dist_fail ''DISTRIBUTED_JOB_STATE'')
          else ebind (record_event_locked env job_id ''operator_retry'' (Some ReviewRequired) Queued []
                        ''OPERATOR_RETRY_APPROVED'' (JObj [])
                        (upd_job job_id (\<lambda>j. j\<lparr>j_state := Queued, j_effect := EffNone,
                            j_error := ''OPERATOR_RETRY_APPROVED'', j_updated := utc env\<rparr>) s))
                 (\<lambda>s'. Inr ((), s'))))"

section \<open>Queries\<close>

text \<open>\<open>job_events\<close>: the newest events of a job first.\<close>

definition job_events :: "pystr \<Rightarrow> int \<Rightarrow> qstate \<Rightarrow> event list" where
  "job_events job_id limit s =
     take (nat (max 1 (min (int MAX_JOB_EVENTS_PER_JOB) limit)))
       (rev (sort_key ev_id (filter (\<lambda>e. ev_job e = job_id) (q_events s))))"

definition list_jobs :: "job_state option \<Rightarrow> int \<Rightarrow> qstate \<Rightarrow> job list" where
  "list_jobs state limit s =
     take (nat (max 1 (min 2000 limit)))
       (rev (sort_key j_created (filter (\<lambda>j. case state of None \<Rightarrow> True | Some st \<Rightarrow> j_state j = st) (q_jobs s))))"

definition count_jobs_by_idempotency_prefix :: "pystr \<Rightarrow> job_state option \<Rightarrow> qstate \<Rightarrow> exc + nat" where
  "count_jobs_by_idempotency_prefix prefix state s =
     ebind (clean_token prefix 192) (\<lambda>token. Inr (count_where (\<lambda>j. take (length token) (j_idem j) = token \<and>
       (case state of None \<Rightarrow> True | Some st \<Rightarrow> j_state j = st)) (q_jobs s)))"

definition list_jobs_by_idempotency_prefix :: "pystr \<Rightarrow> job_state option \<Rightarrow> int \<Rightarrow> qstate \<Rightarrow> exc + job list" where
  "list_jobs_by_idempotency_prefix prefix state limit s =
     ebind (clean_token prefix 192) (\<lambda>token. Inr (take (nat (max 1 (min 5000 limit)))
       (sort_key j_created (filter (\<lambda>j. take (length token) (j_idem j) = token \<and>
         (case state of None \<Rightarrow> True | Some st \<Rightarrow> j_state j = st)) (q_jobs s)))))"

section \<open>The storage circuit breaker\<close>

record circuit =
  c_failures :: nat
  c_open_until :: rat
  c_last_error :: pystr

definition closed_circuit :: circuit where
  "closed_circuit = \<lparr>c_failures = 0, c_open_until = 0, c_last_error = []\<rparr>"

definition CIRCUIT_THRESHOLD :: nat where "CIRCUIT_THRESHOLD = 3"
definition CIRCUIT_COOLDOWN :: rat where "CIRCUIT_COOLDOWN = 2"

text \<open>\<open>_storage_circuit_preflight\<close> at a reading of the monotonic clock\<close>

definition circuit_preflight :: "rat \<Rightarrow> circuit \<Rightarrow> (exc + unit) \<times> circuit" where
  "circuit_preflight ticks c =
     (if ticks < c_open_until c then (Inl (dist_fail ''DISTRIBUTED_STORAGE_CIRCUIT_OPEN''), c)
      else if c_open_until c \<noteq> 0 then (Inr (), c\<lparr>c_open_until := 0\<rparr>)
      else (Inr (), c))"

definition circuit_success :: "circuit \<Rightarrow> circuit" where
  "circuit_success c = \<lparr>c_failures = 0, c_open_until = 0, c_last_error = []\<rparr>"

definition circuit_failure :: "rat \<Rightarrow> pystr \<Rightarrow> circuit \<Rightarrow> exc \<times> circuit" where
  "circuit_failure ticks error c =
     (let failures = Suc (c_failures c); opened = (CIRCUIT_THRESHOLD \<le> failures) in
      (dist_fail (if opened then ''DISTRIBUTED_STORAGE_CIRCUIT_OPEN'' else ''DISTRIBUTED_STORAGE_BACKPRESSURE''),
       c\<lparr>c_failures := failures, c_last_error := take 256 error,
         c_open_until := (if opened then ticks + CIRCUIT_COOLDOWN else c_open_until c)\<rparr>))"

datatype circuit_state = CircuitOpen | CircuitHalfOpen | CircuitClosed

definition circuit_state_at :: "rat \<Rightarrow> circuit \<Rightarrow> circuit_state" where
  "circuit_state_at ticks c =
     (if ticks < c_open_until c then CircuitOpen
      else if c_failures c \<noteq> 0 then CircuitHalfOpen else CircuitClosed)"

text \<open>
  The wrapper \<open>lease_next\<close> and \<open>lease_many\<close> put around the storage call: \<open>fault\<close> is the text of a storage
  exception (\<open>sqlite3.OperationalError\<close>, \<open>TimeoutError\<close>, \<open>OSError\<close>) the call ends in, if it does.
\<close>

definition with_circuit ::
  "rat \<Rightarrow> rat \<Rightarrow> pystr option \<Rightarrow> (qstate \<Rightarrow> (exc + 'r) \<times> qstate) \<Rightarrow> circuit \<times> qstate \<Rightarrow> (exc + 'r) \<times> circuit \<times> qstate"
where
  "with_circuit t0 t1 fault op cs =
     (let (c, s) = cs in
      case circuit_preflight t0 c of
        (Inl e, c') \<Rightarrow> (Inl e, c', s)
      | (Inr _, c') \<Rightarrow>
          (case fault of
             Some error \<Rightarrow> (let (e, c'') = circuit_failure t1 error c' in (Inl e, c'', s))
           | None \<Rightarrow>
               (case op s of
                  (Inl e, s') \<Rightarrow> (Inl e, c', s')
                | (Inr r, s') \<Rightarrow> (Inr r, circuit_success c', s'))))"

definition lease_next ::
  "env \<Rightarrow> scan \<Rightarrow> rat \<Rightarrow> rat \<Rightarrow> pystr option \<Rightarrow> pystr \<Rightarrow> int \<Rightarrow> circuit \<times> qstate \<Rightarrow>
   (exc + lease option) \<times> circuit \<times> qstate"
where
  "lease_next env sc t0 t1 fault worker seconds =
     with_circuit t0 t1 fault (lease_next_storage env sc worker seconds)"

definition lease_many ::
  "env \<Rightarrow> scan \<Rightarrow> rat \<Rightarrow> rat \<Rightarrow> pystr option \<Rightarrow> pystr \<Rightarrow> int \<Rightarrow> int \<Rightarrow> circuit \<times> qstate \<Rightarrow>
   (exc + lease list) \<times> circuit \<times> qstate"
where
  "lease_many env sc t0 t1 fault worker max_items seconds =
     with_circuit t0 t1 fault (lease_many_storage env sc worker max_items seconds)"

end
