(* ===== verification/QueueInvariant.thy ===== *)
theory QueueInvariant
  imports QueueOps
begin

text \<open>
  The invariant of the durable queue and the lemmas that carry it through the statements the operations
  are made of. \<open>core m\<close> is the agreement of the job and the worker table while the slot releases of the
  dictionary \<open>m\<close> are still pending; between operations nothing is pending.
\<close>

section \<open>The invariant\<close>

definition job_wf :: "job \<Rightarrow> bool" where
  "job_wf j \<longleftrightarrow>
     (if active_state (j_state j) then j_worker j \<noteq> [] \<and> j_token j \<noteq> [] \<and> 0 < j_expires j
      else j_worker j = [] \<and> j_token j = [] \<and> j_expires j = 0) \<and>
     (effect_may_have_run j \<longrightarrow> active_state (j_state j) \<or> j_state j = ReviewRequired) \<and>
     (j_effect j = EffCompleted \<longrightarrow> j_state j = Completed) \<and>
     (j_mode j = Idempotent \<longrightarrow> j_effect j = EffNone)"

definition holds :: "pystr \<Rightarrow> job \<Rightarrow> bool" where
  "holds k j \<longleftrightarrow> active_state (j_state j) \<and> j_worker j \<noteq> [] \<and> j_worker j = k"

definition jobs_ok :: "job list \<Rightarrow> bool" where
  "jobs_ok jobs \<longleftrightarrow> distinct (map j_id jobs) \<and> distinct (map j_idem jobs) \<and> (\<forall>j \<in> set jobs. job_wf j)"

definition pending :: "(pystr \<times> int) list \<Rightarrow> pystr \<Rightarrow> int" where
  "pending m k = sum_list (map snd (filter (\<lambda>e. fst e = k) m))"

definition counters_ok :: "(pystr \<times> int) list \<Rightarrow> job list \<Rightarrow> worker list \<Rightarrow> bool" where
  "counters_ok m jobs workers \<longleftrightarrow> distinct (map w_id workers) \<and>
     (\<forall>w \<in> set workers. w_leases w = int (active_of (w_id w) jobs) + pending m (w_id w))"

definition owners_ok :: "job list \<Rightarrow> worker list \<Rightarrow> bool" where
  "owners_ok jobs workers \<longleftrightarrow>
     (\<forall>j \<in> set jobs. active_state (j_state j) \<longrightarrow>
        (\<exists>w \<in> set workers. w_id w = j_worker j \<and> w_state w \<noteq> WRevoked))"

definition core :: "(pystr \<times> int) list \<Rightarrow> job list \<Rightarrow> worker list \<Rightarrow> bool" where
  "core m jobs workers \<longleftrightarrow> jobs_ok jobs \<and> counters_ok m jobs workers \<and> owners_ok jobs workers"

definition fences_ok :: "job list \<Rightarrow> fence list \<Rightarrow> bool" where
  "fences_ok jobs fences \<longleftrightarrow> distinct (map f_idem fences) \<and>
     (\<forall>f \<in> set fences. \<forall>j \<in> set jobs. f_idem f = j_idem j \<longrightarrow> same_job_identity f j)"

text \<open>\<open>good m\<close> is the invariant inside an operation, \<open>queue_inv\<close> the one between operations.\<close>

definition good :: "(pystr \<times> int) list \<Rightarrow> qstate \<Rightarrow> bool" where
  "good m s \<longleftrightarrow> core m (q_jobs s) (q_workers s) \<and> fences_ok (q_jobs s) (q_fences s) \<and>
     (\<forall>w \<in> set (q_workers s). w_id w \<noteq> [])"

definition queue_inv :: "qstate \<Rightarrow> bool" where
  "queue_inv s \<longleftrightarrow> good [] s"

lemma active_of_holds: "active_of k jobs = count_where (holds k) jobs"
  by (simp add: active_of_def holds_def [abs_def])

section \<open>Columns the statements keep\<close>

text \<open>The identity columns of a job: no operation assigns them after the insert.\<close>

definition same_columns :: "job \<Rightarrow> job \<Rightarrow> bool" where
  "same_columns j' j \<longleftrightarrow> j_id j' = j_id j \<and> j_idem j' = j_idem j \<and> j_kind j' = j_kind j \<and>
     j_payload_sha j' = j_payload_sha j \<and> j_resource j' = j_resource j \<and>
     j_permission j' = j_permission j \<and> j_mode j' = j_mode j"

lemma same_columns_refl [simp]: "same_columns j j"
  by (simp add: same_columns_def)

lemma release_job_sel [simp]:
  "j_state (release_job env t c j) = t" "j_worker (release_job env t c j) = []"
  "j_token (release_job env t c j) = []" "j_expires (release_job env t c j) = 0"
  "j_mode (release_job env t c j) = j_mode j" "j_effect (release_job env t c j) = j_effect j"
  "j_attempt (release_job env t c j) = j_attempt j" "j_max (release_job env t c j) = j_max j"
  "j_id (release_job env t c j) = j_id j" "same_columns (release_job env t c j) j"
  "j_error (release_job env t c j) = c"
  by (simp_all add: release_job_def same_columns_def)

lemma grant_lease_sel [simp]:
  "j_state (grant_lease env w d e j) = Leased" "j_worker (grant_lease env w d e j) = w"
  "j_token (grant_lease env w d e j) = d" "j_expires (grant_lease env w d e j) = e"
  "j_mode (grant_lease env w d e j) = j_mode j" "j_effect (grant_lease env w d e j) = j_effect j"
  "j_attempt (grant_lease env w d e j) = j_attempt j + 1" "j_max (grant_lease env w d e j) = j_max j"
  "j_id (grant_lease env w d e j) = j_id j" "same_columns (grant_lease env w d e j) j"
  by (simp_all add: grant_lease_def same_columns_def)

lemma finish_job_sel [simp]:
  "j_state (finish_job env w d r h e j) = Completed" "j_worker (finish_job env w d r h e j) = []"
  "j_token (finish_job env w d r h e j) = []" "j_expires (finish_job env w d r h e j) = 0"
  "j_mode (finish_job env w d r h e j) = j_mode j" "j_effect (finish_job env w d r h e j) = e"
  "j_id (finish_job env w d r h e j) = j_id j" "same_columns (finish_job env w d r h e j) j"
  "j_term_worker (finish_job env w d r h e j) = w" "j_term_token (finish_job env w d r h e j) = d"
  "j_result_sha (finish_job env w d r h e j) = h"
  "j_attempt (finish_job env w d r h e j) = j_attempt j" "j_max (finish_job env w d r h e j) = j_max j"
  by (simp_all add: finish_job_def same_columns_def)

lemma recovery_choice_wf:
  "job_wf j \<Longrightarrow> active_state (j_state j) \<Longrightarrow> job_wf (release_job env (fst (recovery_choice j a b c)) code j)"
  by (auto simp: job_wf_def recovery_choice_def effect_may_have_run_def)

lemma recovery_choice_inactive: "\<not> active_state (fst (recovery_choice j a b c))"
  by (simp add: recovery_choice_def)

section \<open>Updates of one row\<close>

lemma hit_upd:
  assumes "distinct (map key tbl)" and "count_where hit tbl = 1" and "\<And>r. hit r \<Longrightarrow> key r = k"
  obtains r where "r \<in> set tbl" "hit r" "key r = k" "row_of key k tbl = Some r"
    "\<And>f. upd_where hit f tbl = upd_where (\<lambda>x. key x = k) f tbl"
proof -
  from assms(2) obtain r where r: "r \<in> set tbl" "hit r"
    using count_where_zero [of hit tbl] by (metis zero_neq_one)
  from assms(3) [OF this(2)] have key: "key r = k" .
  have only: "x = r" if "x \<in> set tbl" "key x = k" for x
    using that r(1) key assms(1) by (metis distinct_map inj_onD)
  have "upd_where hit f tbl = upd_where (\<lambda>x. key x = k) f tbl" for f
  proof -
    have "hit x \<longleftrightarrow> key x = k" if "x \<in> set tbl" for x
      using only [OF that] r(2) assms(3) by auto
    then show ?thesis by (simp add: upd_where_def)
  qed
  with that r key assms(1) show ?thesis by (simp add: row_of_eq)
qed

lemma set_upd_job:
  assumes "distinct (map j_id jobs)" and "row_of j_id k jobs = Some j"
    and "x \<in> set (upd_where (\<lambda>j. j_id j = k) f jobs)"
  shows "x = f j \<or> (x \<in> set jobs \<and> j_id x \<noteq> k)"
proof -
  from assms(1,2) have "y = j" if "y \<in> set jobs" "j_id y = k" for y
    using that row_of_distinct by fastforce
  with assms(3) show ?thesis by (auto simp: set_upd_where split: if_splits)
qed

text \<open>
  What the statements that assign to job rows have in common: the identity columns stay. The lemmas give
  the effect of such a statement on the three parts of the invariant.
\<close>

locale job_update =
  fixes f :: "job \<Rightarrow> job"
  assumes columns: "same_columns (f j) j"

sublocale job_update \<subseteq> key_stable j_id f
  by unfold_locales (use columns in \<open>simp add: same_columns_def\<close>)

context job_update
begin

lemma jobs_ok_upd:
  assumes "jobs_ok jobs" and "row_of j_id k jobs = Some j" and "job_wf (f j)"
  shows "jobs_ok (upd_where (\<lambda>j. j_id j = k) f jobs)"
proof -
  have keys: "map j_idem (upd_where p f jobs) = map j_idem jobs" for p
    by (rule map_other_upd) (use columns in \<open>simp add: same_columns_def\<close>)
  have "job_wf x" if "x \<in> set (upd_where (\<lambda>j. j_id j = k) f jobs)" for x
    using set_upd_job [OF _ assms(2) that] assms(1,3) by (auto simp: jobs_ok_def)
  with assms(1) show ?thesis by (simp add: jobs_ok_def map_key_upd keys)
qed

lemma fences_ok_upd: "fences_ok jobs fences \<Longrightarrow> fences_ok (upd_where p f jobs) fences"
  unfolding fences_ok_def set_upd_where
  using columns by (auto simp: same_columns_def same_job_identity_def)

lemma active_of_upd:
  assumes "distinct (map j_id jobs)" and "row_of j_id k jobs = Some j"
  shows "int (active_of w (upd_where (\<lambda>j. j_id j = k) f jobs)) =
    int (active_of w jobs) - (if holds w j then 1 else 0) + (if holds w (f j) then 1 else 0)"
proof -
  from assms have "j \<in> set jobs" "j_id j = k" by (auto dest: row_of_in)
  with assms(1) show ?thesis unfolding active_of_holds by (rule count_where_upd)
qed

text \<open>The three ways a row can move: its lease stays, is released, or is granted.\<close>

lemma core_stay:
  assumes "core m jobs workers" and "row_of j_id k jobs = Some j" and "job_wf (f j)"
    and "active_state (j_state (f j)) = active_state (j_state j)" and "j_worker (f j) = j_worker j"
  shows "core m (upd_where (\<lambda>j. j_id j = k) f jobs) workers"
proof -
  have ids: "distinct (map j_id jobs)" using assms(1) by (simp add: core_def jobs_ok_def)
  have "holds w (f j) = holds w j" for w using assms(4,5) by (simp add: holds_def)
  then have act: "int (active_of w (upd_where (\<lambda>j. j_id j = k) f jobs)) = int (active_of w jobs)" for w
    by (simp add: active_of_upd [OF ids assms(2)])
  have "owners_ok (upd_where (\<lambda>j. j_id j = k) f jobs) workers"
    unfolding owners_ok_def
  proof (intro ballI impI)
    fix x assume x: "x \<in> set (upd_where (\<lambda>j. j_id j = k) f jobs)" "active_state (j_state x)"
    from row_of_in [OF assms(2)] have "j \<in> set jobs" by simp
    with set_upd_job [OF ids assms(2) x(1)] x(2) assms(1,4,5)
    show "\<exists>w \<in> set workers. w_id w = j_worker x \<and> w_state w \<noteq> WRevoked"
      by (auto simp: core_def owners_ok_def)
  qed
  with assms(1) jobs_ok_upd [OF _ assms(2,3)] show ?thesis
    by (simp add: core_def counters_ok_def act)
qed

lemma core_release:
  assumes "core m jobs workers" and "row_of j_id k jobs = Some j" and "job_wf (f j)"
    and "active_state (j_state j)" and "\<not> active_state (j_state (f j))"
    and "\<And>w. pending m' w = pending m w + (if w = j_worker j then 1 else 0)"
  shows "core m' (upd_where (\<lambda>j. j_id j = k) f jobs) workers"
proof -
  have ids: "distinct (map j_id jobs)" using assms(1) by (simp add: core_def jobs_ok_def)
  from row_of_in [OF assms(2)] have j: "j \<in> set jobs" by simp
  with assms(1,4) have "j_worker j \<noteq> []" by (auto simp: core_def jobs_ok_def job_wf_def)
  with assms(4,5) have "holds w j \<longleftrightarrow> w = j_worker j" "\<not> holds w (f j)" for w
    by (auto simp: holds_def)
  then have act: "int (active_of w (upd_where (\<lambda>j. j_id j = k) f jobs)) =
      int (active_of w jobs) - (if w = j_worker j then 1 else 0)" for w
    by (simp add: active_of_upd [OF ids assms(2)])
  have "owners_ok (upd_where (\<lambda>j. j_id j = k) f jobs) workers"
    using set_upd_job [OF ids assms(2)] assms(1,5) by (auto simp: core_def owners_ok_def)
  with assms(1) jobs_ok_upd [OF _ assms(2,3)] show ?thesis
    by (simp add: core_def counters_ok_def act assms(6))
qed

lemma core_grant:
  assumes "core m jobs workers" and "row_of j_id k jobs = Some j" and "job_wf (f j)"
    and "\<not> active_state (j_state j)" and "active_state (j_state (f j))"
    and "w \<in> set workers" and "w_id w = j_worker (f j)" and "w_state w \<noteq> WRevoked"
  shows "core ((j_worker (f j), - 1) # m) (upd_where (\<lambda>j. j_id j = k) f jobs) workers"
proof -
  have ids: "distinct (map j_id jobs)" using assms(1) by (simp add: core_def jobs_ok_def)
  from assms(3,5) have "j_worker (f j) \<noteq> []" by (simp add: job_wf_def)
  with assms(4,5) have "\<not> holds v j" "holds v (f j) \<longleftrightarrow> v = j_worker (f j)" for v
    by (auto simp: holds_def)
  then have act: "int (active_of v (upd_where (\<lambda>j. j_id j = k) f jobs)) =
      int (active_of v jobs) + (if v = j_worker (f j) then 1 else 0)" for v
    by (simp add: active_of_upd [OF ids assms(2)])
  have "owners_ok (upd_where (\<lambda>j. j_id j = k) f jobs) workers"
    using set_upd_job [OF ids assms(2)] assms(1,6-8) by (auto simp: core_def owners_ok_def)
  with assms(1) jobs_ok_upd [OF _ assms(2,3)] show ?thesis
    by (auto simp: core_def counters_ok_def act pending_def)
qed

end

interpretation release_update: job_update "release_job env target code" for env target code
  by unfold_locales simp

interpretation grant_update: job_update "grant_lease env worker digest expires" for env worker digest expires
  by unfold_locales simp

interpretation finish_update: job_update "finish_job env worker digest result result_sha effect"
  for env worker digest result result_sha effect
  by unfold_locales simp

end
