(* ===== verification/QueueProgress.thy ===== *)
theory QueueProgress
  imports QueueInvariant
begin

text \<open>
  What no transaction of the queue may do to the rows that were there before it: \<open>advance\<close> is the
  preorder every statement of every operation stays in. With \<open>op\<close> an operator's retry is admitted.
\<close>

section \<open>The order on rows and on states\<close>

text \<open>The external effect of a non-idempotent job has been started (and perhaps completed).\<close>

definition kept :: "job \<Rightarrow> bool" where
  "kept j \<longleftrightarrow> j_mode j = NonIdempotent \<and> j_effect j \<noteq> EffNone"

definition evolve :: "bool \<Rightarrow> job \<Rightarrow> job \<Rightarrow> bool" where
  "evolve op j j' \<longleftrightarrow> same_columns j' j \<and> j_attempt j \<le> j_attempt j' \<and>
     (terminal_state (j_state j) \<longrightarrow> j' = j) \<and>
     (kept j \<and> \<not> op \<longrightarrow> kept j' \<and> j_attempt j' = j_attempt j)"

lemma evolve_refl [simp]: "evolve op j j"
  by (simp add: evolve_def)

lemma same_columns_trans: "same_columns a b \<Longrightarrow> same_columns b c \<Longrightarrow> same_columns a c"
  by (simp add: same_columns_def)

lemma evolve_trans: "evolve op a b \<Longrightarrow> evolve op b c \<Longrightarrow> evolve op a c"
  unfolding evolve_def by (auto intro: same_columns_trans)

definition fenced :: "job \<Rightarrow> fence list \<Rightarrow> bool" where
  "fenced j fences \<longleftrightarrow> (\<exists>f \<in> set fences. f_idem f = j_idem j \<and> same_job_identity f j)"

definition same_fence :: "fence \<Rightarrow> fence \<Rightarrow> bool" where
  "same_fence f g \<longleftrightarrow> f_idem f = f_idem g \<and> identity_of_fence f = identity_of_fence g"

text \<open>A non-idempotent job that retention has deleted: its fence is there and no row has its key.\<close>

definition settled :: "job \<Rightarrow> qstate \<Rightarrow> bool" where
  "settled j s \<longleftrightarrow> fenced j (q_fences s) \<and> j_idem j \<notin> j_idem ` set (q_jobs s)"

text \<open>
  The journal: every event is an allowed transition of a job that is there, and a job has at most
  \<open>MAX_JOB_EVENTS_PER_JOB\<close> of them.
\<close>

definition journal_ok :: "qstate \<Rightarrow> bool" where
  "journal_ok s \<longleftrightarrow> distinct (map ev_id (q_events s)) \<and>
     (\<forall>e \<in> set (q_events s). ev_id e < q_next_event s \<and> allowed_transition (ev_from e) (ev_to e) \<and>
        ev_job e \<in> j_id ` set (q_jobs s)) \<and>
     (\<forall>k. count_where (\<lambda>e. ev_job e = k) (q_events s) \<le> MAX_JOB_EVENTS_PER_JOB)"

definition keeps_fences :: "qstate \<Rightarrow> qstate \<Rightarrow> bool" where
  "keeps_fences s s' \<longleftrightarrow>
     (\<forall>f \<in> set (q_fences s). f_mode f = NonIdempotent \<longrightarrow> (\<exists>g \<in> set (q_fences s'). same_fence g f))"

definition keeps_rows :: "bool \<Rightarrow> qstate \<Rightarrow> qstate \<Rightarrow> bool" where
  "keeps_rows op s s' \<longleftrightarrow>
     (\<forall>j \<in> set (q_jobs s). (\<exists>j' \<in> set (q_jobs s'). evolve op j j') \<or> (j_mode j = NonIdempotent \<longrightarrow> settled j s'))"

definition new_rows :: "qstate \<Rightarrow> qstate \<Rightarrow> bool" where
  "new_rows s s' \<longleftrightarrow>
     (\<forall>j' \<in> set (q_jobs s'). (\<exists>j \<in> set (q_jobs s). same_columns j' j) \<or>
        \<not> (\<exists>f \<in> set (q_fences s). f_mode f = NonIdempotent \<and> f_idem f = j_idem j'))"

definition advance :: "bool \<Rightarrow> qstate \<Rightarrow> qstate \<Rightarrow> bool" where
  "advance op s s' \<longleftrightarrow> keeps_rows op s s' \<and> keeps_fences s s' \<and> new_rows s s' \<and>
     (journal_ok s \<longrightarrow> journal_ok s')"

lemma same_fence_refl [simp]: "same_fence f f"
  by (simp add: same_fence_def)

lemma keeps_fences_refl: "q_fences s' = q_fences s \<Longrightarrow> keeps_fences s s'"
  by (auto simp: keeps_fences_def intro: same_fence_refl)

lemma keeps_rows_refl: "q_jobs s' = q_jobs s \<Longrightarrow> keeps_rows op s s'"
  by (auto simp: keeps_rows_def intro: evolve_refl)

lemma new_rows_refl: "q_jobs s' = q_jobs s \<Longrightarrow> new_rows s s'"
  by (auto simp: new_rows_def intro: same_columns_refl)

lemma advance_refl [simp]: "advance op s s"
  by (simp add: advance_def keeps_fences_refl keeps_rows_refl new_rows_refl)

lemma fenced_cong: "same_columns j' j \<Longrightarrow> fenced j' fences = fenced j fences"
  by (simp add: fenced_def same_columns_def same_job_identity_def)

lemma settled_cong: "same_columns j' j \<Longrightarrow> settled j' s = settled j s"
  using fenced_cong [of j' j] by (simp add: settled_def same_columns_def)

lemma keeps_fences_trans: "keeps_fences s t \<Longrightarrow> keeps_fences t u \<Longrightarrow> keeps_fences s u"
  unfolding keeps_fences_def same_fence_def identity_of_fence_def by (simp, metis)

lemma fenced_keep:
  assumes "fenced j (q_fences s)" and "j_mode j = NonIdempotent" and "keeps_fences s s'"
  shows "fenced j (q_fences s')"
proof -
  from assms(1) obtain f where f: "f \<in> set (q_fences s)" "f_idem f = j_idem j" "same_job_identity f j"
    by (auto simp: fenced_def)
  with assms(2) have "f_mode f = NonIdempotent" by (simp add: same_job_identity_def)
  with assms(3) f(1) obtain g where "g \<in> set (q_fences s')" "same_fence g f" unfolding keeps_fences_def by blast
  with f show ?thesis
    by (auto simp: fenced_def same_fence_def identity_of_fence_def same_job_identity_def)
qed

lemma settled_keep:
  assumes "settled j s" and "j_mode j = NonIdempotent" and "keeps_fences s s'" and "new_rows s s'"
  shows "settled j s'"
proof -
  from assms(1) obtain f where f: "f \<in> set (q_fences s)" "f_idem f = j_idem j" "same_job_identity f j"
    and none: "j_idem j \<notin> j_idem ` set (q_jobs s)" by (auto simp: settled_def fenced_def)
  with assms(2) have mode: "f_mode f = NonIdempotent" by (simp add: same_job_identity_def)
  have "j_idem i \<noteq> j_idem j" if "i \<in> set (q_jobs s')" for i
  proof -
    from assms(4) that consider (old) i0 where "i0 \<in> set (q_jobs s)" "same_columns i i0"
      | (new) "\<not> (\<exists>f \<in> set (q_fences s). f_mode f = NonIdempotent \<and> f_idem f = j_idem i)"
      unfolding new_rows_def by blast
    then show ?thesis
    proof cases
      case old
      then have "j_idem i = j_idem i0" by (simp add: same_columns_def)
      with none old(1) show ?thesis by (metis image_eqI)
    next
      case new
      with f(1,2) mode show ?thesis by metis
    qed
  qed
  moreover have "fenced j (q_fences s')" using fenced_keep [OF _ assms(2,3)] assms(1) by (simp add: settled_def)
  ultimately show ?thesis unfolding settled_def by (metis imageE)
qed

lemma new_rows_trans:
  assumes "new_rows s t" and "new_rows t u" and "keeps_fences s t"
  shows "new_rows s u"
  unfolding new_rows_def
proof (intro ballI)
  fix j'' assume "j'' \<in> set (q_jobs u)"
  with assms(2) consider (row) j' where "j' \<in> set (q_jobs t)" "same_columns j'' j'"
    | (new) "\<not> (\<exists>f \<in> set (q_fences t). f_mode f = NonIdempotent \<and> f_idem f = j_idem j'')"
    unfolding new_rows_def by blast
  then show "(\<exists>j \<in> set (q_jobs s). same_columns j'' j) \<or>
      \<not> (\<exists>f \<in> set (q_fences s). f_mode f = NonIdempotent \<and> f_idem f = j_idem j'')"
  proof cases
    case row
    then have "j_idem j' = j_idem j''" by (simp add: same_columns_def)
    moreover from row(1) assms(1) have "(\<exists>j \<in> set (q_jobs s). same_columns j' j) \<or>
        \<not> (\<exists>f \<in> set (q_fences s). f_mode f = NonIdempotent \<and> f_idem f = j_idem j')"
      unfolding new_rows_def by blast
    ultimately show ?thesis using same_columns_trans [OF row(2)] by auto
  next
    case new
    with assms(3) show ?thesis
      unfolding keeps_fences_def same_fence_def identity_of_fence_def by (metis prod.inject)
  qed
qed

lemma keeps_rows_trans:
  assumes "keeps_rows op s t" and "keeps_rows op t u" and "keeps_fences t u" and "new_rows t u"
  shows "keeps_rows op s u"
  unfolding keeps_rows_def
proof (intro ballI)
  fix j assume "j \<in> set (q_jobs s)"
  with assms(1) consider (row) j' where "j' \<in> set (q_jobs t)" "evolve op j j'"
    | (fence) "j_mode j = NonIdempotent \<longrightarrow> settled j t"
    unfolding keeps_rows_def by blast
  then show "(\<exists>j' \<in> set (q_jobs u). evolve op j j') \<or> (j_mode j = NonIdempotent \<longrightarrow> settled j u)"
  proof cases
    case row
    then have cols: "same_columns j' j" by (simp add: evolve_def)
    then have mode: "j_mode j' = j_mode j" by (simp add: same_columns_def)
    from row(1) assms(2) have "(\<exists>j'' \<in> set (q_jobs u). evolve op j' j'') \<or>
        (j_mode j' = NonIdempotent \<longrightarrow> settled j' u)"
      unfolding keeps_rows_def by blast
    then show ?thesis
      unfolding mode settled_cong [OF cols] using evolve_trans [OF row(2)] by blast
  next
    case fence
    with assms(3,4) settled_keep show ?thesis by blast
  qed
qed

lemma advance_trans: "advance op s t \<Longrightarrow> advance op t u \<Longrightarrow> advance op s u"
  unfolding advance_def using keeps_rows_trans keeps_fences_trans new_rows_trans by blast

section \<open>The statements advance\<close>

lemma journal_other:
  assumes "journal_ok s" and "q_events s' = q_events s" and "q_next_event s' = q_next_event s"
    and "j_id ` set (q_jobs s) \<subseteq> j_id ` set (q_jobs s')"
  shows "journal_ok s'"
  using assms unfolding journal_ok_def by auto

lemma advance_other:
  "q_jobs s' = q_jobs s \<Longrightarrow> q_fences s' = q_fences s \<Longrightarrow> q_events s' = q_events s \<Longrightarrow>
    q_next_event s' = q_next_event s \<Longrightarrow> advance op s s'"
  using journal_other [of s s'] by (simp add: advance_def keeps_fences_refl keeps_rows_refl new_rows_refl)

lemma advance_upd:
  assumes "\<And>j. j \<in> set (q_jobs s) \<Longrightarrow> p j \<Longrightarrow> evolve op j (f j)"
    and "q_jobs s' = upd_where p f (q_jobs s)" and "q_fences s' = q_fences s"
    and "q_events s' = q_events s" and "q_next_event s' = q_next_event s"
  shows "advance op s s'"
proof -
  let ?f = "\<lambda>j. if p j then f j else j"
  have jobs: "set (q_jobs s') = ?f ` set (q_jobs s)" by (simp add: assms(2) set_upd_where)
  have ev: "evolve op j (?f j)" if "j \<in> set (q_jobs s)" for j
    using assms(1) [OF that] by simp
  then have cols: "same_columns (?f j) j" if "j \<in> set (q_jobs s)" for j
    using that by (simp add: evolve_def)
  have "keeps_rows op s s'" unfolding keeps_rows_def jobs using ev by blast
  moreover have "new_rows s s'" unfolding new_rows_def jobs using cols by blast
  moreover have "j_id ` set (q_jobs s) \<subseteq> j_id ` set (q_jobs s')"
  proof
    fix k assume "k \<in> j_id ` set (q_jobs s)"
    then obtain j where "j \<in> set (q_jobs s)" "k = j_id j" by blast
    with cols [of j] have "j_id (?f j) = k" by (simp add: same_columns_def)
    with \<open>j \<in> set (q_jobs s)\<close> show "k \<in> j_id ` set (q_jobs s')" unfolding jobs by blast
  qed
  ultimately show ?thesis
    using journal_other [of s s'] assms(3-5) by (simp add: advance_def keeps_fences_refl)
qed

lemma advance_fences:
  assumes "q_jobs s' = q_jobs s" and "q_events s' = q_events s" and "q_next_event s' = q_next_event s"
    and "\<And>f. f \<in> set (q_fences s) \<Longrightarrow> f_mode f = NonIdempotent \<Longrightarrow> \<exists>g \<in> set (q_fences s'). same_fence g f"
  shows "advance op s s'"
  using assms journal_other [of s s']
  by (simp add: advance_def keeps_rows_refl new_rows_refl keeps_fences_def)

lemma advance_store:
  assumes "store_terminal_fence j s = Inr s'"
  shows "advance op s s'"
proof (rule advance_fences)
  fix f assume f: "f \<in> set (q_fences s)"
  show "\<exists>g \<in> set (q_fences s'). same_fence g f"
  proof (cases "fence_row (j_idem j) s")
    case None
    with assms f show ?thesis by (auto simp: store_terminal_fence_def same_fence_def)
  next
    case (Some h)
    define upd :: "fence \<Rightarrow> fence" where "upd = (\<lambda>r. r\<lparr>f_state := j_state j, f_terminal_at := f_terminal_at (fence_of j),
                   f_updated := j_updated j, f_receipt := f_receipt (fence_of j)\<rparr>)"
    have same: "same_fence (if p r then upd r else r) r" for p r
      by (simp add: upd_def same_fence_def identity_of_fence_def)
    from Some assms have "q_fences s' = upd_where (\<lambda>r. f_idem r = j_idem j) upd (q_fences s)"
      by (auto simp: store_terminal_fence_def upd_def split: if_splits)
    then have "(if f_idem f = j_idem j then upd f else f) \<in> set (q_fences s')"
      using f by (simp add: set_upd_where)
    then show ?thesis by (rule rev_bexI) (rule same [of "\<lambda>r. f_idem r = j_idem j" f])
  qed
qed (simp_all add: store_terminal_fence_sel [OF assms])

text \<open>Pruning keeps at most \<open>n\<close> events of the job and touches no other.\<close>

lemma distinct_map_filterI: "distinct (map f xs) \<Longrightarrow> distinct (map f (filter p xs))"
  by (induction xs) auto

lemma prune_events_count:
  assumes "distinct (map ev_id evs)"
  shows "count_where (\<lambda>e. ev_job e = k) (prune_events k n evs) \<le> n"
proof -
  let ?keep = "take n (rev (sort (map ev_id (filter (\<lambda>e. ev_job e = k) evs))))"
  let ?kept = "filter (\<lambda>e. ev_job e = k) (prune_events k n evs)"
  have "distinct (map ev_id ?kept)"
    using assms by (simp add: prune_events_def Let_def distinct_map_filterI)
  then have "length ?kept = card (set (map ev_id ?kept))"
    by (metis distinct_card length_map)
  also have "\<dots> \<le> card (set ?keep)"
    by (rule card_mono) (auto simp: prune_events_def Let_def)
  also have "\<dots> \<le> n" using card_length [of ?keep] by simp
  finally show ?thesis by (simp add: count_where_def)
qed

lemma prune_events_other:
  "k' \<noteq> k \<Longrightarrow> count_where (\<lambda>e. ev_job e = k') (prune_events k n evs) = count_where (\<lambda>e. ev_job e = k') evs"
  unfolding prune_events_def Let_def count_where_def filter_filter
  by (intro arg_cong [of _ _ length] filter_cong) auto

lemma set_prune_events: "set (prune_events k n evs) \<subseteq> set evs"
  by (auto simp: prune_events_def Let_def)

lemma journal_insert:
  assumes "journal_ok s" and "allowed_transition (ev_from e) (ev_to e)"
    and "insert_event e MAX_JOB_EVENTS_PER_JOB s = Inr s'"
  shows "journal_ok s'"
proof -
  let ?e = "e\<lparr>ev_id := q_next_event s\<rparr>"
  let ?evs = "q_events s @ [?e]"
  have s': "q_events s' = prune_events (ev_job e) MAX_JOB_EVENTS_PER_JOB ?evs"
      "q_next_event s' = Suc (q_next_event s)" "q_jobs s' = q_jobs s"
    and here: "ev_job e \<in> j_id ` set (q_jobs s)"
    using assms(3) by (auto simp: insert_event_def row_of_None limit_defs split: if_splits)
  have dist: "distinct (map ev_id ?evs)" using assms(1) by (auto simp: journal_ok_def)
  then have "distinct (map ev_id (q_events s'))"
    unfolding s' prune_events_def Let_def by (rule distinct_map_filterI)
  moreover have "ev_id x < q_next_event s' \<and> allowed_transition (ev_from x) (ev_to x) \<and>
      ev_job x \<in> j_id ` set (q_jobs s')" if "x \<in> set (q_events s')" for x
  proof -
    from that set_prune_events have "x \<in> set ?evs" unfolding s' by blast
    with assms(1,2) here show ?thesis by (auto simp: journal_ok_def s')
  qed
  moreover have "count_where (\<lambda>x. ev_job x = k) (q_events s') \<le> MAX_JOB_EVENTS_PER_JOB" for k
  proof (cases "k = ev_job e")
    case True
    with prune_events_count [OF dist] show ?thesis unfolding s' by blast
  next
    case False
    with assms(1) show ?thesis by (simp add: s' prune_events_other journal_ok_def)
  qed
  ultimately show ?thesis by (simp add: journal_ok_def)
qed

lemma advance_insert_event:
  "allowed_transition (ev_from e) (ev_to e) \<Longrightarrow> insert_event e MAX_JOB_EVENTS_PER_JOB s = Inr s' \<Longrightarrow> advance op s s'"
  unfolding advance_def
  by (simp add: journal_insert keeps_rows_refl keeps_fences_refl new_rows_refl insert_event_sel)

lemma advance_record_event:
  assumes "record_event_locked env k et src tgt wid code d s = Inr s'"
  shows "advance op s s'"
proof -
  from assms obtain s1 e where allowed: "allowed_transition (ev_from e) (ev_to e)" and
    fence: "if terminal_state tgt then \<exists>j. job_row k s = Some j \<and> store_terminal_fence j s = Inr s1 else s1 = s"
    and ins: "insert_event e MAX_JOB_EVENTS_PER_JOB s1 = Inr s'"
    by (rule record_event_cases) blast
  from fence have "advance op s s1"
    by (cases "terminal_state tgt") (auto intro: advance_store)
  then show ?thesis using advance_insert_event [OF allowed ins] by (rule advance_trans)
qed

end
