(* ===== verification/QueueSafety.thy ===== *)
theory QueueSafety
  imports QueueProgress
begin

text \<open>
  Every operation of the queue keeps the invariant and advances the rows: first the statements the
  operations share, then the operations one by one.
\<close>

section \<open>The statements keep the invariant\<close>

lemma good_jobs:
  assumes "good m s"
  shows "distinct (map j_id (q_jobs s))" "distinct (map j_idem (q_jobs s))"
    "j \<in> set (q_jobs s) \<Longrightarrow> job_wf j" "distinct (map w_id (q_workers s))"
  using assms by (auto simp: good_def core_def jobs_ok_def counters_ok_def)

lemma good_same:
  "good m s \<Longrightarrow> q_jobs s' = q_jobs s \<Longrightarrow> q_workers s' = q_workers s \<Longrightarrow> q_fences s' = q_fences s \<Longrightarrow> good m s'"
  by (simp add: good_def)

lemma good_pending: "good m s \<Longrightarrow> (\<And>k. pending m' k = pending m k) \<Longrightarrow> good m' s"
  by (simp add: good_def core_def counters_ok_def)

text \<open>Fences: a terminal row stores its own identity.\<close>

lemma fences_ok_store:
  assumes inv: "fences_ok (q_jobs s) (q_fences s)" and idem: "distinct (map j_idem (q_jobs s))"
    and "j \<in> set (q_jobs s)" and "store_terminal_fence j s = Inr s'"
  shows "fences_ok (q_jobs s') (q_fences s')"
proof -
  note jobs = store_terminal_fence_sel(1) [OF assms(4)]
  have own: "i = j" if "i \<in> set (q_jobs s)" "j_idem i = j_idem j" for i
    using that assms(3) idem by (metis distinct_map inj_onD)
  have "fences_ok (q_jobs s) (q_fences s')"
  proof (cases "fence_row (j_idem j) s")
    case None
    then have "j_idem j \<notin> f_idem ` set (q_fences s)" by (simp add: row_of_None)
    moreover have "same_job_identity (fence_of j) j" "f_idem (fence_of j) = j_idem j"
      by (simp_all add: same_job_identity_def fence_of_def)
    moreover have "q_fences s' = q_fences s @ [fence_of j]"
      using assms(4) None by (auto simp: store_terminal_fence_def)
    ultimately show ?thesis using inv own by (auto simp: fences_ok_def)
  next
    case (Some f)
    define upd :: "fence \<Rightarrow> fence" where "upd = (\<lambda>r. r\<lparr>f_state := j_state j, f_terminal_at := f_terminal_at (fence_of j),
                   f_updated := j_updated j, f_receipt := f_receipt (fence_of j)\<rparr>)"
    have fences: "q_fences s' = upd_where (\<lambda>r. f_idem r = j_idem j) upd (q_fences s)"
      using assms(4) Some by (auto simp: store_terminal_fence_def upd_def split: if_splits)
    have keys: "map f_idem (upd_where p upd tbl) = map f_idem tbl" for p tbl
      by (rule map_other_upd) (simp add: upd_def)
    have same: "f_idem (if p r then upd r else r) = f_idem r"
      "same_job_identity (if p r then upd r else r) i = same_job_identity r i" for p r i
      by (simp_all add: upd_def same_job_identity_def)
    have "same_job_identity h i" if "h \<in> set (q_fences s')" "i \<in> set (q_jobs s)" "f_idem h = j_idem i" for h i
    proof -
      from that(1) obtain r where "r \<in> set (q_fences s)" "h = (if f_idem r = j_idem j then upd r else r)"
        unfolding fences set_upd_where by blast
      with that(2,3) inv same [of "\<lambda>r. f_idem r = j_idem j" r] show ?thesis by (simp add: fences_ok_def)
    qed
    with inv show ?thesis by (simp add: fences_ok_def fences keys)
  qed
  then show ?thesis by (simp add: jobs)
qed

lemma good_store:
  assumes "good m s" and "j \<in> set (q_jobs s)" and "store_terminal_fence j s = Inr s'"
  shows "good m s'"
  using assms(1) fences_ok_store [OF _ good_jobs(2) [OF assms(1)] assms(2,3)]
    store_terminal_fence_sel [OF assms(3)] by (simp add: good_def)

lemma fences_ok_record:
  assumes inv: "fences_ok (q_jobs s) (q_fences s)" "distinct (map j_idem (q_jobs s))"
    and "record_event_locked env k et src tgt wid code d s = Inr s'"
  shows "fences_ok (q_jobs s') (q_fences s')"
proof -
  from assms(3) obtain s1 e where
    fence: "if terminal_state tgt then \<exists>j. job_row k s = Some j \<and> store_terminal_fence j s = Inr s1 else s1 = s"
    and ins: "insert_event e MAX_JOB_EVENTS_PER_JOB s1 = Inr s'"
    by (rule record_event_cases)
  from fence inv have "fences_ok (q_jobs s1) (q_fences s1)"
    by (cases "terminal_state tgt") (auto dest!: row_of_in intro: fences_ok_store)
  then show ?thesis by (simp add: insert_event_sel [OF ins])
qed

lemma good_record_event:
  assumes "good m s" and "record_event_locked env k et src tgt wid code d s = Inr s'"
  shows "good m s'"
  using assms(1) fences_ok_record [OF _ good_jobs(2) [OF assms(1)] assms(2)]
    record_event_sel [OF assms(2)] by (simp add: good_def)

text \<open>Rows of the job table.\<close>

context job_update
begin

lemma advance_job:
  assumes "good m s" and "job_row k s = Some j" and "evolve op j (f j)"
  shows "advance op s (upd_job k f s)"
proof (rule advance_upd)
  fix i assume "i \<in> set (q_jobs s)" "j_id i = k"
  with assms(2) row_of_distinct [OF good_jobs(1) [OF assms(1)]] have "i = j" by fastforce
  with assms(3) show "evolve op i (f i)" by simp
qed simp_all

lemma good_stay:
  assumes "good m s" and "job_row k s = Some j" and "job_wf (f j)"
    and "active_state (j_state (f j)) = active_state (j_state j)" and "j_worker (f j) = j_worker j"
  shows "good m (upd_job k f s)"
  using assms by (auto simp: good_def intro: core_stay fences_ok_upd)

lemma good_release:
  assumes "good m s" and "job_row k s = Some j" and "job_wf (f j)"
    and "active_state (j_state j)" and "\<not> active_state (j_state (f j))"
    and "\<And>w. pending m' w = pending m w + (if w = j_worker j then 1 else 0)"
  shows "good m' (upd_job k f s)"
  using assms by (auto simp: good_def intro: core_release fences_ok_upd)

lemma good_grant:
  assumes "good m s" and "job_row k s = Some j" and "job_wf (f j)"
    and "\<not> active_state (j_state j)" and "active_state (j_state (f j))"
    and "worker_row (j_worker (f j)) s = Some w" and "w_state w \<noteq> WRevoked"
  shows "good ((j_worker (f j), - 1) # m) (upd_job k f s)"
  using assms row_of_in [OF assms(6)] by (auto simp: good_def intro: core_grant fences_ok_upd)

end

text \<open>Rows of the worker table: what a statement adds to a counter is paid from the pending releases.\<close>

lemma owners_ok_upd:
  assumes "owners_ok jobs workers" and "\<And>w. w_id (g w) = w_id w"
    and "\<And>w. w_state (g w) = WRevoked \<Longrightarrow> w_state w = WRevoked"
  shows "owners_ok jobs (upd_where p g workers)"
  unfolding owners_ok_def
proof (intro ballI impI)
  fix j assume "j \<in> set jobs" "active_state (j_state j)"
  with assms(1) obtain w where w: "w \<in> set workers" "w_id w = j_worker j" "w_state w \<noteq> WRevoked"
    by (auto simp: owners_ok_def)
  then have "(if p w then g w else w) \<in> set (upd_where p g workers)" by (simp add: set_upd_where)
  moreover have "w_id (if p w then g w else w) = j_worker j" using w(2) assms(2) by simp
  moreover have "w_state (if p w then g w else w) \<noteq> WRevoked" using w(3) assms(3) by auto
  ultimately show "\<exists>w \<in> set (upd_where p g workers). w_id w = j_worker j \<and> w_state w \<noteq> WRevoked" by blast
qed

lemma good_worker_pay:
  assumes "good ((k, n) # m) s"
    and "\<And>w. w_id (g w) = w_id w" and "\<And>w. w_state (g w) = w_state w"
    and "\<And>w. w \<in> set (q_workers s) \<Longrightarrow> w_id w = k \<Longrightarrow>
           w_leases w = int (active_of k (q_jobs s)) + n + pending m k \<Longrightarrow> w_leases (g w) = w_leases w - n"
  shows "good m (upd_worker k g s)"
proof -
  have inv: "counters_ok ((k, n) # m) (q_jobs s) (q_workers s)" "owners_ok (q_jobs s) (q_workers s)"
    using assms(1) by (simp_all add: good_def core_def)
  have "map w_id (upd_where p g tbl) = map w_id tbl" for p tbl
    by (rule map_other_upd) (rule assms(2))
  moreover have "w_leases (g w) = int (active_of k (q_jobs s)) + pending m k"
    if "w \<in> set (q_workers s)" "w_id w = k" for w
  proof -
    have "w_leases w = int (active_of k (q_jobs s)) + n + pending m k"
      using inv(1) that by (simp add: counters_ok_def pending_def)
    with assms(4) [OF that] show ?thesis by simp
  qed
  ultimately have "counters_ok m (q_jobs s) (upd_where (\<lambda>w. w_id w = k) g (q_workers s))"
    using inv(1) assms(2) by (auto simp: counters_ok_def set_upd_where pending_def)
  moreover have "owners_ok (q_jobs s) (upd_where (\<lambda>w. w_id w = k) g (q_workers s))"
    using inv(2) by (rule owners_ok_upd) (simp_all add: assms(2,3))
  ultimately show ?thesis
    using assms(1,2) by (auto simp: good_def core_def set_upd_where)
qed

lemma good_worker:
  assumes "good m s" and "\<And>w. w_id (g w) = w_id w" and "\<And>w. w_leases (g w) = w_leases w"
    and "\<And>w. w_state (g w) = WRevoked \<Longrightarrow> w_state w = WRevoked"
  shows "good m (upd_worker k g s)"
proof -
  have keys: "map w_id (upd_where p g tbl) = map w_id tbl" for p tbl
    by (rule map_other_upd) (rule assms(2))
  have inv: "counters_ok m (q_jobs s) (q_workers s)" using assms(1) by (simp add: good_def core_def)
  have "w_leases w = int (active_of (w_id w) (q_jobs s)) + pending m (w_id w)"
    if "w \<in> set (upd_where (\<lambda>w. w_id w = k) g (q_workers s))" for w
  proof -
    from that obtain v where "v \<in> set (q_workers s)" "w = (if w_id v = k then g v else v)"
      unfolding set_upd_where by blast
    moreover from this(2) have "w_id w = w_id v" "w_leases w = w_leases v" using assms(2,3) by simp_all
    ultimately show ?thesis using inv by (simp add: counters_ok_def)
  qed
  with inv have "counters_ok m (q_jobs s) (upd_where (\<lambda>w. w_id w = k) g (q_workers s))"
    by (simp add: counters_ok_def keys)
  moreover have "owners_ok (q_jobs s) (upd_where (\<lambda>w. w_id w = k) g (q_workers s))"
    by (rule owners_ok_upd) (use assms in \<open>auto simp: good_def core_def\<close>)
  ultimately show ?thesis
    using assms(1,2) by (auto simp: good_def core_def set_upd_where)
qed

text \<open>The dictionary of pending releases.\<close>

lemma pending_simps [simp]:
  "pending [] k = 0" "pending ((k', n) # m) k = (if k' = k then n else 0) + pending m k"
  by (simp_all add: pending_def)

lemma pending_bump [simp]: "pending (bump k m) w = pending m w + (if w = k then 1 else 0)"
  by (induction k m rule: bump.induct) auto

definition nonneg :: "(pystr \<times> int) list \<Rightarrow> bool" where
  "nonneg m \<longleftrightarrow> (\<forall>e \<in> set m. 0 \<le> snd e)"

lemma nonneg_bump: "nonneg m \<Longrightarrow> nonneg (bump k m)"
  by (induction k m rule: bump.induct) (auto simp: nonneg_def)

lemma pending_nonneg: "nonneg m \<Longrightarrow> 0 \<le> pending m k"
  by (induction m) (auto simp: nonneg_def)

lemma good_release_slots:
  "nonneg m \<Longrightarrow> good m s \<Longrightarrow> good [] (release_slots env m s)"
proof (induction env m s rule: release_slots.induct)
  case (2 env k n m s)
  then have "good m (upd_worker k (\<lambda>w. w\<lparr>w_leases := max 0 (w_leases w - n), w_updated := utc env\<rparr>) s)"
    using pending_nonneg [of m k] by (intro good_worker_pay) (auto simp: nonneg_def)
  with 2 show ?case by (simp add: nonneg_def)
qed simp

lemma release_slots_sel [simp]:
  "q_jobs (release_slots env m s) = q_jobs s" "q_fences (release_slots env m s) = q_fences s"
  "q_events (release_slots env m s) = q_events s" "q_next_event (release_slots env m s) = q_next_event s"
  by (induction env m s rule: release_slots.induct) simp_all

lemma good_release_slot:
  "good [(k, 1)] s \<Longrightarrow> good [] (upd_worker k (release_slot env) s)"
  by (rule good_worker_pay) (auto simp: release_slot_def)

lemma advance_worker [simp]: "advance op s (upd_worker k g s)"
  by (rule advance_other) simp_all

lemma advance_release_slots [simp]: "advance op s (release_slots env m s)"
  by (rule advance_other) simp_all

lemma evolve_release [simp]:
  "active_state (j_state j) \<Longrightarrow> evolve op j (release_job env target code j)"
  by (auto simp: evolve_def kept_def release_job_def same_columns_def dest: active_not_terminal)

end
