(* ===== verification/QueueTransactions.thy ===== *)
theory QueueTransactions
  imports QueueSafety
begin

text \<open>
  The transactions of the queue one by one: a committed body keeps the invariant and advances the rows.
  \<open>env_ok\<close> is what is asked of the outside: a digest is never empty and the lease clock, an epoch time,
  is not negative. \<open>moves op m s m' s'\<close> is the step from \<open>s\<close> with the slot releases \<open>m\<close> pending to \<open>s'\<close>
  with \<open>m'\<close> pending; the statements give such steps, and the operations compose them.
\<close>

definition env_ok :: "env \<Rightarrow> bool" where
  "env_ok env \<longleftrightarrow> (\<forall>t. sha256 env t \<noteq> []) \<and> (\<forall>i. 0 \<le> clk env i)"

definition moves :: "bool \<Rightarrow> (pystr \<times> int) list \<Rightarrow> qstate \<Rightarrow> (pystr \<times> int) list \<Rightarrow> qstate \<Rightarrow> bool" where
  "moves op m s m' s' \<longleftrightarrow> (good m s \<longrightarrow> good m' s' \<and> advance op s s')"

definition safe :: "bool \<Rightarrow> qstate \<Rightarrow> qstate \<Rightarrow> bool" where
  "safe op s s' \<longleftrightarrow> moves op [] s [] s'"

definition safe_body :: "bool \<Rightarrow> (qstate \<Rightarrow> exc + ('r \<times> qstate)) \<Rightarrow> bool" where
  "safe_body op body \<longleftrightarrow> (\<forall>s r s'. body s = Inr (r, s') \<longrightarrow> safe op s s')"

lemma moves_refl [simp]: "moves op m s m s"
  by (simp add: moves_def)

lemma moves_trans [trans]: "moves op m s m1 t \<Longrightarrow> moves op m1 t m2 u \<Longrightarrow> moves op m s m2 u"
  unfolding moves_def using advance_trans by blast

lemma safe_refl [simp]: "safe op s s"
  by (simp add: safe_def)

lemma safe_trans [trans]: "safe op s t \<Longrightarrow> safe op t u \<Longrightarrow> safe op s u"
  unfolding safe_def by (rule moves_trans)

lemma safe_bodyI: "(\<And>s r s'. body s = Inr (r, s') \<Longrightarrow> safe op s s') \<Longrightarrow> safe_body op body"
  by (simp add: safe_body_def)

lemma safe_transact: "safe_body op body \<Longrightarrow> safe op s (snd (transact body s))"
  by (cases rule: transact_cases [of body s]) (auto simp: safe_body_def transact_def)

lemma advance_weaken: "advance False s s' \<Longrightarrow> advance op s s'"
  unfolding advance_def keeps_rows_def evolve_def by blast

lemma safe_weaken: "safe False s s' \<Longrightarrow> safe op s s'"
  unfolding safe_def moves_def using advance_weaken by blast

section \<open>Steps of the statements\<close>

lemma good_wf: "good m s \<Longrightarrow> job_row k s = Some j \<Longrightarrow> job_wf j"
  by (auto dest: row_of_in simp: good_def core_def jobs_ok_def)

lemma moves_same:
  "q_jobs s' = q_jobs s \<Longrightarrow> q_workers s' = q_workers s \<Longrightarrow> q_fences s' = q_fences s \<Longrightarrow>
    q_events s' = q_events s \<Longrightarrow> q_next_event s' = q_next_event s \<Longrightarrow> moves op m s m s'"
  unfolding moves_def by (blast intro: good_same advance_other)

lemma moves_record:
  "record_event_locked env k et src tgt wid code d s = Inr s' \<Longrightarrow> moves op m s m s'"
  unfolding moves_def by (blast intro: good_record_event advance_record_event)

lemma moves_worker:
  assumes "\<And>w. w_id (g w) = w_id w" and "\<And>w. w_leases (g w) = w_leases w"
    and "\<And>w. w_state (g w) = WRevoked \<Longrightarrow> w_state w = WRevoked"
  shows "moves op m s m (upd_worker k g s)"
  unfolding moves_def using good_worker [OF _ assms] by simp

lemma moves_release_slot: "moves op [(k, 1)] s [] (upd_worker k (release_slot env) s)"
  unfolding moves_def by (simp add: good_release_slot)

lemma moves_release_slots: "nonneg m \<Longrightarrow> moves op m s [] (release_slots env m s)"
  unfolding moves_def by (simp add: good_release_slots)

context job_update
begin

lemma moves_stay:
  assumes "job_row k s = Some j" and "job_wf j \<Longrightarrow> job_wf (f j)"
    and "active_state (j_state (f j)) = active_state (j_state j)" and "j_worker (f j) = j_worker j"
    and "evolve op j (f j)"
  shows "moves op m s m (upd_job k f s)"
  unfolding moves_def using assms good_wf good_stay advance_job by blast

lemma moves_release:
  assumes "job_row k s = Some j" and "job_wf j \<Longrightarrow> job_wf (f j)"
    and "active_state (j_state j)" and "\<not> active_state (j_state (f j))" and "evolve op j (f j)"
    and "\<And>w. pending m' w = pending m w + (if w = j_worker j then 1 else 0)"
  shows "moves op m s m' (upd_job k f s)"
  unfolding moves_def using assms(1-5) good_wf good_release [OF _ _ _ _ _ assms(6)] advance_job by blast

end

lemma moves_release_job:
  assumes "job_row k s = Some j" and "active_state (j_state j)"
    and "job_wf j \<Longrightarrow> job_wf (release_job env target code j)" and "\<not> active_state target"
    and "\<And>w. pending m' w = pending m w + (if w = j_worker j then 1 else 0)"
  shows "moves op m s m' (upd_job k (release_job env target code) s)"
  by (rule release_update.moves_release [OF assms(1) _ _ _ _ assms(5)]) (use assms in auto)

text \<open>A conditional \<open>UPDATE\<close> that hit exactly the row with the given id.\<close>

lemma hit_job:
  assumes "good m s" and "count_where hit (q_jobs s) = 1" and "\<And>j. hit j \<Longrightarrow> j_id j = k"
  obtains j where "job_row k s = Some j" "hit j"
    "\<And>f. s\<lparr>q_jobs := upd_where hit f (q_jobs s)\<rparr> = upd_job k f s"
  using hit_upd [where key = j_id, OF good_jobs(1) [OF assms(1)] assms(2,3)] unfolding upd_job_def by metis

section \<open>Operations fenced by a lease\<close>

lemma lease_check_Inr:
  "lease_check env now w row wid token = Inr r \<longleftrightarrow> r = row \<and> (\<exists>v. w = Some v \<and> w_state v \<noteq> WRevoked) \<and>
     active_state (j_state row) \<and> j_worker row = wid \<and> j_token row \<noteq> [] \<and> j_token row = sha256 env token \<and>
     now < j_expires row \<and> j_expires row \<le> now + of_int MAX_LEASE_SECONDS + 60"
  by (auto simp: lease_check_def split: option.splits)

lemma require_lease_Inr:
  "require_lease env k wid token s = Inr row \<longleftrightarrow> job_row k s = Some row \<and>
     (\<exists>v. worker_row wid s = Some v \<and> w_state v \<noteq> WRevoked) \<and>
     active_state (j_state row) \<and> j_worker row = wid \<and> j_token row \<noteq> [] \<and> j_token row = sha256 env token \<and>
     clk env 0 < j_expires row \<and> j_expires row \<le> clk env 0 + of_int MAX_LEASE_SECONDS + 60"
  by (auto simp: require_lease_def lease_check_Inr split: option.splits)

lemma safe_start: "safe op s (snd (start_job env k w t s))"
  unfolding start_job_def
proof (intro safe_transact safe_bodyI, goal_cases)
  case (1 s r s')
  let ?f = "\<lambda>j. j\<lparr>j_state := Running, j_updated := utc env\<rparr>"
  have ju: "job_update ?f" by unfold_locales (simp add: same_columns_def)
  from 1 obtain row where job: "job_row k s = Some row" "active_state (j_state row)"
    and *: "s' = s \<or> record_event_locked env k ''started'' (Some (j_state row)) Running w [] (JObj [])
                     (upd_job k ?f s) = Inr s'"
    by (auto simp: require_lease_Inr split: if_splits)
  have "moves op [] s [] (upd_job k ?f s)"
    by (rule job_update.moves_stay [OF ju job(1)])
      (use job(2) in \<open>auto simp: job_wf_def effect_may_have_run_def evolve_def same_columns_def kept_def
         dest: active_not_terminal\<close>)
  with * show ?case unfolding safe_def by (blast intro: moves_refl moves_trans moves_record)
qed

lemma safe_renew:
  assumes "env_ok env" shows "safe op s (snd (renew_lease env k w t n s))"
  unfolding renew_lease_def
proof (intro safe_transact safe_bodyI, goal_cases)
  case (1 s r s')
  let ?e = "clk env 1 + of_int (clamp_lease n)"
  let ?f = "\<lambda>j. j\<lparr>j_expires := ?e, j_updated := utc env\<rparr>"
  have ju: "job_update ?f" by unfold_locales (simp add: same_columns_def)
  from assms have "0 \<le> clk env 1" by (simp add: env_ok_def)
  moreover have "(0 :: rat) < of_int (clamp_lease n)" by (simp add: clamp_lease_def)
  ultimately have pos: "0 < ?e" by simp
  from 1 obtain row where job: "job_row k s = Some row" "active_state (j_state row)"
    and s': "s' = upd_worker w (\<lambda>w. w\<lparr>w_heartbeat := clk env 2, w_updated := utc env\<rparr>) (upd_job k ?f s)"
    by (auto simp: require_lease_Inr Let_def)
  have "moves op [] s [] (upd_job k ?f s)"
    by (rule job_update.moves_stay [OF ju job(1)])
      (use job(2) pos in \<open>auto simp: job_wf_def effect_may_have_run_def evolve_def same_columns_def kept_def
         dest: active_not_terminal\<close>)
  moreover have "moves op [] (upd_job k ?f s) [] s'"
    unfolding s' by (rule moves_worker) simp_all
  ultimately show ?case unfolding safe_def by (rule moves_trans)
qed

lemma safe_checkpoint: "safe op s (snd (checkpoint env k w t v s))"
proof (cases "bounded_json (sha256 env) v MAX_CHECKPOINT_BYTES")
  case (Inr p)
  obtain payload digest where p: "p = (payload, digest)" by (cases p)
  show ?thesis
    unfolding checkpoint_def Inr p sum.case prod.case
  proof (intro safe_transact safe_bodyI, goal_cases)
    case (1 s r s')
    then obtain row where job: "job_row k s = Some row" "active_state (j_state row)"
      and s': "s' = upd_job k (\<lambda>j. j\<lparr>j_checkpoint := payload, j_checkpoint_seq := j_checkpoint_seq row + 1,
                                            j_updated := utc env\<rparr>) s"
      by (auto simp: require_lease_Inr Let_def)
    show ?case
      unfolding safe_def s'
      by (rule job_update.moves_stay [OF _ job(1)], unfold_locales)
        (use job(2) in \<open>auto simp: job_wf_def effect_may_have_run_def evolve_def same_columns_def kept_def
           dest: active_not_terminal\<close>)
  qed
qed (simp add: checkpoint_def)

lemma safe_handover: "safe op s (snd (handover_lease env k w t reason s))"
proof (cases "clean_token (if reason = [] then ''WORKER_HANDOVER'' else reason) 128")
  case (Inr code)
  show ?thesis
    unfolding handover_lease_def Inr sum.case
  proof (intro safe_transact safe_bodyI, goal_cases)
    case (1 s r s')
    then obtain row where job: "job_row k s = Some row" "active_state (j_state row)" "j_worker row = w"
      and lease: "require_lease env k w t s = Inr row"
      by (auto simp: require_lease_Inr)
    obtain target code' where choice: "recovery_choice row ''HANDOVER_AFTER_SIDE_EFFECT_START'' code
        ''HANDOVER_MAX_ATTEMPTS'' = (target, code')" by fastforce
    from 1 lease choice have rec: "record_event_locked env k ''lease_handover'' (Some (j_state row)) target w code'
        (JObj [(''review_required'', JBool (target = ReviewRequired))])
        (upd_worker w (release_slot env) (upd_job k (release_job env target code') s)) = Inr s'"
      by (auto simp: Let_def)
    have "moves op [] s [(w, 1)] (upd_job k (release_job env target code') s)"
      by (rule moves_release_job [OF job(1,2)])
        (use recovery_choice_wf [OF _ job(2)] recovery_choice_inactive job(3) in \<open>metis choice fst_conv,
          metis choice fst_conv, simp\<close>)
    also have "moves op [(w, 1)] (upd_job k (release_job env target code') s)
        [] (upd_worker w (release_slot env) (upd_job k (release_job env target code') s))"
      by (rule moves_release_slot)
    also have "moves op [] (upd_worker w (release_slot env) (upd_job k (release_job env target code') s)) [] s'"
      using rec by (rule moves_record)
    finally show ?case by (simp add: safe_def)
  qed
qed (simp add: handover_lease_def)

lemma safe_side_effect: "safe op s (snd (mark_side_effect_started env k w t s))"
  unfolding mark_side_effect_started_def
proof (intro safe_transact safe_bodyI, goal_cases)
  case (1 s r s')
  let ?hit = "\<lambda>j. j_id j = k \<and> j_effect j \<noteq> EffStarted \<and> j_worker j = w \<and> j_token j = sha256 env t"
  let ?f = "\<lambda>j. j\<lparr>j_effect := EffStarted, j_updated := utc env\<rparr>"
  have ju: "job_update ?f" by unfold_locales (simp add: same_columns_def)
  from 1 obtain row where lease: "require_lease env k w t s = Inr row" by auto
  then have job: "job_row k s = Some row" "active_state (j_state row)" by (simp_all add: require_lease_Inr)
  from 1 lease consider (idle) "s' = s"
    | (mark) "j_mode row = NonIdempotent" "count_where ?hit (q_jobs s) = 1"
        "record_event_locked env k ''side_effect_started'' (Some (j_state row)) (j_state row) w
           ''NON_IDEMPOTENT_FENCE'' (JObj []) (s\<lparr>q_jobs := upd_where ?hit ?f (q_jobs s)\<rparr>) = Inr s'"
    by (auto simp: Let_def split: if_splits)
  then show ?case
  proof cases
    case mark
    show ?thesis
      unfolding safe_def moves_def
    proof (intro impI)
      assume g: "good [] s"
      obtain j where j: "job_row k s = Some j" "?hit j"
        "s\<lparr>q_jobs := upd_where ?hit ?f (q_jobs s)\<rparr> = upd_job k ?f s"
        by (rule hit_job [OF g mark(2)], simp, blast)
      with job have [simp]: "j = row" by simp
      from j(2) good_wf [OF g job(1)] mark(1) job(2) have none: "j_effect row = EffNone"
        by (cases "j_effect row") (auto simp: job_wf_def)
      have "moves op [] s [] (upd_job k ?f s)"
        by (rule job_update.moves_stay [OF ju job(1)])
          (use job(2) none mark(1) in \<open>auto simp: job_wf_def effect_may_have_run_def evolve_def
             same_columns_def kept_def dest: active_not_terminal\<close>)
      moreover have "moves op [] (upd_job k ?f s) [] s'"
        using mark(3) unfolding j(3) by (rule moves_record)
      ultimately show "good [] s' \<and> advance op s s'"
        using g moves_trans unfolding moves_def by (meson advance_trans)
    qed
  qed simp
qed

lemma safe_fail: "safe op s (snd (fail_job env k w t error retryable s))"
proof (cases "clean_token (if error = [] then ''WORKER_EXECUTION_FAILED'' else error) 128")
  case (Inr code)
  show ?thesis
    unfolding fail_job_def Inr sum.case
  proof (intro safe_transact safe_bodyI, goal_cases)
    case (1 s r s')
    then obtain row s1 target where lease: "require_lease env k w t s = Inr row"
      and target: "target = (if effect_may_have_run row then ReviewRequired
                          else if retryable \<and> j_attempt row < j_max row then Queued else Failed)"
      and rec: "record_event_locked env k ''execution_failed'' (Some (j_state row)) target w
          code (fail_details retryable row) (upd_job k (release_job env target code) s) = Inr s1"
      and s': "s' = upd_worker w (release_slot env) s1"
      by (auto simp: Let_def)
    from lease have job: "job_row k s = Some row" "active_state (j_state row)" "j_worker row = w"
      by (simp_all add: require_lease_Inr)
    have "moves op [] s [(w, 1)] (upd_job k (release_job env target code) s)"
      by (rule moves_release_job [OF job(1,2)])
        (use job target in \<open>auto simp: job_wf_def effect_may_have_run_def\<close>)
    also have "moves op [(w, 1)] (upd_job k (release_job env target code) s) [(w, 1)] s1"
      using rec by (rule moves_record)
    also have "moves op [(w, 1)] s1 [] s'"
      unfolding s' by (rule moves_release_slot)
    finally show ?case by (simp add: safe_def)
  qed
qed (simp add: fail_job_def)

lemma safe_retry: "safe True s (snd (retry_review_required env k s))"
  unfolding retry_review_required_def
proof (intro safe_transact safe_bodyI, goal_cases)
  case (1 s r s')
  let ?f = "\<lambda>j. j\<lparr>j_state := Queued, j_effect := EffNone, j_error := ''OPERATOR_RETRY_APPROVED'',
     j_updated := utc env\<rparr>"
  have ju: "job_update ?f" by unfold_locales (simp add: same_columns_def)
  from 1 obtain row where job: "job_row k s = Some row" "j_state row = ReviewRequired"
    and rec: "record_event_locked env k ''operator_retry'' (Some ReviewRequired) Queued []
                        ''OPERATOR_RETRY_APPROVED'' (JObj []) (upd_job k ?f s) = Inr s'"
    by (auto split: option.splits if_splits)
  have "moves True [] s [] (upd_job k ?f s)"
    by (rule job_update.moves_stay [OF ju job(1)])
      (use job(2) in \<open>auto simp: job_wf_def effect_may_have_run_def evolve_def same_columns_def\<close>)
  then show ?case unfolding safe_def using moves_record [OF rec] by (rule moves_trans)
qed

lemma safe_complete: "safe op s (snd (complete env k w t result s))"
proof (cases "bounded_json (sha256 env) result MAX_RESULT_BYTES")
  case (Inr p)
  obtain raw h where p: "p = (raw, h)" by (cases p)
  show ?thesis
    unfolding complete_def Inr p sum.case prod.case
  proof (intro safe_transact safe_bodyI, goal_cases)
    case (1 s r s')
    let ?d = "sha256 env t"
    let ?hit = "\<lambda>j. j_id j = k \<and> active_state (j_state j) \<and> j_worker j = w \<and> j_token j = ?d"
    let ?e = "\<lambda>row. if j_effect row = EffStarted then EffCompleted else j_effect row"
    from 1 consider (idle) "s' = s" | (finish) row where "job_row k s = Some row"
        "lease_check env (clk env 0) (worker_row w s) row w t = Inr row"
        "count_where ?hit (q_jobs s) = 1"
        "record_event_locked env k ''completed'' (Some (j_state row)) Completed w []
           (JObj [(''result_sha256'', JStr h)]) (upd_worker w (release_slot env)
             (s\<lparr>q_jobs := upd_where ?hit (finish_job env w ?d raw h (?e row)) (q_jobs s)\<rparr>)) = Inr s'"
      by (auto simp: complete_body_def Let_def lease_check_Inr split: option.splits if_splits)
    then show ?case
    proof cases
      case finish
      let ?f = "finish_job env w ?d raw h (?e row)"
      from finish(2) have act: "active_state (j_state row)" "j_worker row = w" by (simp_all add: lease_check_Inr)
      show ?thesis
        unfolding safe_def moves_def
      proof (intro impI)
        assume g: "good [] s"
        obtain j where j: "s\<lparr>q_jobs := upd_where ?hit ?f (q_jobs s)\<rparr> = upd_job k ?f s"
          by (rule hit_job [OF g finish(3)], simp, blast)
        have "moves op [] s [(w, 1)] (upd_job k ?f s)"
          by (rule finish_update.moves_release [OF finish(1)])
            (use act in \<open>auto simp: job_wf_def effect_may_have_run_def evolve_def kept_def
              dest: active_not_terminal split: if_splits\<close>)
        also have "moves op [(w, 1)] (upd_job k ?f s) [] (upd_worker w (release_slot env) (upd_job k ?f s))"
          by (rule moves_release_slot)
        also have "moves op [] (upd_worker w (release_slot env) (upd_job k ?f s)) [] s'"
          using finish(4) unfolding j by (rule moves_record)
        finally show "good [] s' \<and> advance op s s'" using g by (simp add: moves_def)
      qed
    qed simp
  qed
qed (simp add: complete_def)

end
