(* ===== verification/QueueAdmission.thy ===== *)
theory QueueAdmission
  imports QueueTransactions
begin

text \<open>
  Retention, admission and leasing keep the invariant and advance the rows.
\<close>

section \<open>Retention\<close>

lemma moves_store:
  "j \<in> set (q_jobs s) \<Longrightarrow> store_terminal_fence j s = Inr s' \<Longrightarrow> moves op m s m s'"
  unfolding moves_def by (blast intro: good_store advance_store)

lemma store_terminal_fence_fenced:
  assumes "store_terminal_fence j s = Inr s'"
  shows "fenced j (q_fences s')"
proof (cases "fence_row (j_idem j) s")
  case None
  with assms have "fence_of j \<in> set (q_fences s')" by (auto simp: store_terminal_fence_def)
  moreover have "f_idem (fence_of j) = j_idem j" "same_job_identity (fence_of j) j"
    by (simp_all add: fence_of_def same_job_identity_def)
  ultimately show ?thesis by (auto simp: fenced_def)
next
  case (Some f)
  define upd :: "fence \<Rightarrow> fence" where "upd = (\<lambda>r. r\<lparr>f_state := j_state j, f_terminal_at := f_terminal_at (fence_of j),
                   f_updated := j_updated j, f_receipt := f_receipt (fence_of j)\<rparr>)"
  from Some assms have fences: "q_fences s' = upd_where (\<lambda>r. f_idem r = j_idem j) upd (q_fences s)"
    and same: "same_job_identity f j"
    by (auto simp: store_terminal_fence_def upd_def split: if_splits)
  from row_of_in [OF Some] have "upd f \<in> set (q_fences s')" "f_idem (upd f) = j_idem j"
    by (auto simp: fences set_upd_where upd_def)
  moreover have "same_job_identity (upd f) j" using same by (simp add: upd_def same_job_identity_def)
  ultimately show ?thesis by (auto simp: fenced_def)
qed

lemma count_where_filter: "(\<And>r. q r \<Longrightarrow> p r) \<Longrightarrow> count_where q (filter p tbl) = count_where q tbl"
  by (induction tbl) auto

lemma count_where_filter_le: "count_where q (filter p tbl) \<le> count_where q tbl"
  by (induction tbl) auto

lemma moves_delete:
  assumes "\<And>j. j \<in> set (q_jobs s) \<Longrightarrow> j_id j = k \<Longrightarrow> terminal_state (j_state j) \<Longrightarrow> fenced j (q_fences s)"
  shows "moves op m s m (snd (delete_terminal_job k s))"
proof -
  let ?hit = "\<lambda>j. j_id j = k \<and> terminal_state (j_state j)"
  let ?s = "s\<lparr>q_jobs := filter (\<lambda>j. \<not> ?hit j) (q_jobs s), q_events := filter (\<lambda>e. ev_job e \<noteq> k) (q_events s)\<rparr>"
  have act: "active_of w (filter (\<lambda>j. \<not> ?hit j) (q_jobs s)) = active_of w (q_jobs s)" for w
    unfolding active_of_def by (rule count_where_filter) (auto dest: active_not_terminal)
  have "moves op m s m ?s"
    unfolding moves_def
  proof (intro impI conjI)
    assume g: "good m s"
    then have "jobs_ok (q_jobs ?s)" "fences_ok (q_jobs ?s) (q_fences ?s)"
      by (auto simp: good_def core_def jobs_ok_def fences_ok_def distinct_map_filter)
    moreover have "counters_ok m (q_jobs ?s) (q_workers ?s)" "owners_ok (q_jobs ?s) (q_workers ?s)"
      using g by (simp_all add: good_def core_def counters_ok_def act [simplified] owners_ok_def)
    ultimately show "good m ?s" using g by (simp add: good_def core_def)
    have rows: "keeps_rows op s ?s"
      unfolding keeps_rows_def
    proof (intro ballI)
      fix j assume j: "j \<in> set (q_jobs s)"
      show "(\<exists>j' \<in> set (q_jobs ?s). evolve op j j') \<or> (j_mode j = NonIdempotent \<longrightarrow> settled j ?s)"
      proof (cases "?hit j")
        case False
        with j have "j \<in> set (q_jobs ?s)" by simp
        then show ?thesis using evolve_refl by blast
      next
        case True
        have "i = j" if "i \<in> set (q_jobs s)" "j_idem i = j_idem j" for i
          using that j good_jobs(2) [OF g] by (metis distinct_map inj_onD)
        with True assms [OF j] show ?thesis by (auto simp: settled_def)
      qed
    qed
    have "journal_ok s \<longrightarrow> journal_ok ?s"
    proof
      assume *: "journal_ok s"
      have "ev_job e \<in> j_id ` set (q_jobs ?s)" if "e \<in> set (q_events s)" "ev_job e \<noteq> k" for e
        using * that by (auto simp: journal_ok_def image_iff)
      moreover have "count_where (\<lambda>e. ev_job e = k') (q_events ?s) \<le> MAX_JOB_EVENTS_PER_JOB" for k'
        using * count_where_filter_le [of "\<lambda>e. ev_job e = k'" "\<lambda>e. ev_job e \<noteq> k" "q_events s"]
        by (auto simp: journal_ok_def intro: le_trans)
      ultimately show "journal_ok ?s"
        using * by (auto simp: journal_ok_def distinct_map_filterI)
    qed
    moreover have "new_rows s ?s" unfolding new_rows_def using same_columns_refl by fastforce
    ultimately show "advance op s ?s"
      using rows keeps_fences_refl [of ?s s] by (simp add: advance_def)
  qed
  then show ?thesis by (simp add: delete_terminal_job_def Let_def)
qed

lemma moves_prune_job:
  assumes "row \<in> set (q_jobs s)" and "prune_job row (s, n) = Inr (s', n')"
  shows "moves op m s m s'"
proof -
  from assms(2) obtain s1 where store: "store_terminal_fence row s = Inr s1"
    and s': "s' = snd (delete_terminal_job (j_id row) s1)"
    by (auto simp: prune_job_def case_prod_unfold Let_def)
  show ?thesis
    unfolding moves_def
  proof (intro impI)
    assume g: "good m s"
    have s1: "moves op m s m s1" using assms(1) store by (rule moves_store)
    with g have g1: "good m s1" by (simp add: moves_def)
    have jobs: "q_jobs s1 = q_jobs s" by (rule store_terminal_fence_sel [OF store])
    have only: "j = row" if "j \<in> set (q_jobs s1)" "j_id j = j_id row" for j
      using that assms(1) good_jobs(1) [OF g] by (metis jobs distinct_map inj_onD)
    have "moves op m s1 m s'"
      unfolding s' using only store_terminal_fence_fenced [OF store] by (intro moves_delete) auto
    with s1 g show "good m s' \<and> advance op s s'"
      using moves_trans unfolding moves_def by (meson advance_trans)
  qed
qed

text \<open>The loop: rows not yet pruned are still there.\<close>

lemma prune_job_rest:
  assumes "prune_job row (s, n) = Inr (s', n')" and "i \<in> set (q_jobs s)" and "j_id i \<noteq> j_id row"
  shows "i \<in> set (q_jobs s')"
  using assms by (auto simp: prune_job_def delete_terminal_job_def Let_def
      dest!: store_terminal_fence_sel(1) split: if_splits)

lemma moves_prune_jobs:
  assumes "efold prune_job rows (s, n) = Inr (s', n')" and "set rows \<subseteq> set (q_jobs s)"
    and "distinct (map j_id rows)"
  shows "moves op m s m s'"
  using assms
proof (induction rows arbitrary: s n)
  case (Cons row rows)
  then obtain s1 n1 where step: "prune_job row (s, n) = Inr (s1, n1)"
    and rest: "efold prune_job rows (s1, n1) = Inr (s', n')" by auto
  have "i \<in> set (q_jobs s1)" if "i \<in> set rows" for i
    by (rule prune_job_rest [OF step]) (use that Cons.prems(2,3) in \<open>auto simp: image_iff\<close>)
  then have "moves op m s1 m s'" using Cons.IH [OF rest] Cons.prems(3) by auto
  moreover have "moves op m s m s1" using Cons.prems(2) step by (intro moves_prune_job) auto
  ultimately show ?case using moves_trans by blast
qed simp

lemma moves_prune_fence: "moves op m s m (fst (prune_fence k (s, n)))"
  unfolding moves_def
proof (intro impI conjI)
  assume "good m s"
  then show "good m (fst (prune_fence k (s, n)))"
    by (auto simp: prune_fence_def Let_def good_def fences_ok_def distinct_map_filterI)
  show "advance op s (fst (prune_fence k (s, n)))"
    by (rule advance_fences) (auto simp: prune_fence_def Let_def intro: same_fence_refl)
qed

lemma moves_prune_fences: "moves op m s m (fst (fold (\<lambda>f. prune_fence (f_idem f)) fences (s, n)))"
proof (induction fences arbitrary: s n)
  case (Cons f fences)
  have "moves op m s m (fst (prune_fence (f_idem f) (s, n)))" by (rule moves_prune_fence)
  also have "moves op m (fst (prune_fence (f_idem f) (s, n))) m
      (fst (fold (\<lambda>f. prune_fence (f_idem f)) fences (prune_fence (f_idem f) (s, n))))"
    using Cons.IH by (metis prod.collapse)
  finally show ?case by simp
qed simp

lemma moves_retain:
  assumes "retain_terminal_locked a b s = Inr (r, s')"
  shows "moves op m s m s'"
proof (cases "q_backfilled s")
  case True
  let ?rows = "drop (nat (max 0 a)) (terminal_jobs_newest_first (q_jobs s))"
  from assms True obtain s1 n1 n2 where jobs: "efold prune_job ?rows (s, 0) = Inr (s1, n1)"
    and s': "fold (\<lambda>f. prune_fence (f_idem f))
      (drop (nat (max 0 b)) (idempotent_fences_newest_first (q_fences s1))) (s1, 0) = (s', n2)"
    unfolding retain_terminal_locked_def by (auto simp: case_prod_unfold)
  show ?thesis
    unfolding moves_def
  proof (intro impI)
    assume g: "good m s"
    have "set ?rows \<subseteq> set (q_jobs s)"
      using set_drop_subset by (fastforce simp: terminal_jobs_newest_first_def)
    moreover have "distinct (map j_id ?rows)"
    proof -
      have "distinct (map j_id (sort_key (\<lambda>j. (j_updated j, j_id j)) (filter (\<lambda>j. terminal_state (j_state j)) (q_jobs s))))"
        using good_jobs(1) [OF g] by (auto simp: distinct_map inj_on_def)
      then show ?thesis
        by (simp add: terminal_jobs_newest_first_def drop_map [symmetric] rev_map [symmetric])
    qed
    ultimately have "moves op m s m s1" by (rule moves_prune_jobs [OF jobs])
    moreover have "moves op m s1 m s'" using s' moves_prune_fences [of op m s1] by (metis fst_conv)
    ultimately show "good m s' \<and> advance op s s'"
      using g moves_trans unfolding moves_def by (meson advance_trans)
  qed
next
  case False
  with assms show ?thesis by (simp add: retain_terminal_locked_def)
qed

lemma safe_retain: "safe op s (snd (retain_terminal_jobs a b s))"
  unfolding retain_terminal_jobs_def
  by (intro safe_transact safe_bodyI) (simp add: safe_def moves_retain)

section \<open>Admission\<close>

text \<open>Retention frees no key and takes none that no job held.\<close>

lemma store_terminal_fence_keys:
  "store_terminal_fence j s = Inr s' \<Longrightarrow> f_idem ` set (q_fences s') \<subseteq> insert (j_idem j) (f_idem ` set (q_fences s))"
  by (auto simp: store_terminal_fence_def set_upd_where fence_of_def split: option.splits if_splits)

lemma prune_job_keys:
  assumes "prune_job row (s, n) = Inr (s', n')"
  shows "set (q_jobs s') \<subseteq> set (q_jobs s)"
    "f_idem ` set (q_fences s') \<subseteq> insert (j_idem row) (f_idem ` set (q_fences s))"
proof -
  from assms obtain s1 where store: "store_terminal_fence row s = Inr s1"
    and s': "s' = snd (delete_terminal_job (j_id row) s1)"
    by (auto simp: prune_job_def case_prod_unfold Let_def)
  have "set (q_jobs s') \<subseteq> set (q_jobs s1)" "q_fences s' = q_fences s1"
    unfolding s' by (auto simp: delete_terminal_job_def Let_def)
  with store_terminal_fence_sel(1) [OF store] store_terminal_fence_keys [OF store]
  show "set (q_jobs s') \<subseteq> set (q_jobs s)"
    "f_idem ` set (q_fences s') \<subseteq> insert (j_idem row) (f_idem ` set (q_fences s))" by simp_all
qed

lemma prune_jobs_keys:
  assumes "efold prune_job rows (s, n) = Inr (s', n')"
  shows "set (q_jobs s') \<subseteq> set (q_jobs s) \<and>
    f_idem ` set (q_fences s') \<subseteq> j_idem ` set rows \<union> f_idem ` set (q_fences s)"
  using assms
proof (induction rows arbitrary: s n)
  case (Cons row rows)
  then obtain s1 n1 where "prune_job row (s, n) = Inr (s1, n1)"
    and rest: "efold prune_job rows (s1, n1) = Inr (s', n')" by auto
  note prune_job_keys [OF this(1)] Cons.IH [OF rest]
  then show ?case by (simp add: subset_iff) blast
qed simp

lemma prune_fences_keys:
  "fold (\<lambda>f. prune_fence (f_idem f)) fences (s, n) = (s', n') \<Longrightarrow>
    q_jobs s' = q_jobs s \<and> set (q_fences s') \<subseteq> set (q_fences s)"
proof (induction fences arbitrary: s n)
  case (Cons f fences)
  obtain s1 n1 where step: "prune_fence (f_idem f) (s, n) = (s1, n1)" by fastforce
  then have "q_jobs s1 = q_jobs s" "set (q_fences s1) \<subseteq> set (q_fences s)"
    by (auto simp: prune_fence_def Let_def)
  with Cons.IH [of s1 n1] Cons.prems step show ?case by auto
qed simp

lemma retain_keys:
  assumes "retain_terminal_locked a b s = Inr (r, s')"
  shows "set (q_jobs s') \<subseteq> set (q_jobs s)"
    "f_idem ` set (q_fences s') \<subseteq> j_idem ` set (q_jobs s) \<union> f_idem ` set (q_fences s)"
proof -
  have "set (q_jobs s') \<subseteq> set (q_jobs s) \<and>
    f_idem ` set (q_fences s') \<subseteq> j_idem ` set (q_jobs s) \<union> f_idem ` set (q_fences s)"
  proof (cases "q_backfilled s")
    case True
    let ?rows = "drop (nat (max 0 a)) (terminal_jobs_newest_first (q_jobs s))"
    from assms True obtain s1 n1 n2 where jobs: "efold prune_job ?rows (s, 0) = Inr (s1, n1)"
      and s': "fold (\<lambda>f. prune_fence (f_idem f))
        (drop (nat (max 0 b)) (idempotent_fences_newest_first (q_fences s1))) (s1, 0) = (s', n2)"
      unfolding retain_terminal_locked_def by (auto simp: case_prod_unfold)
    have "set ?rows \<subseteq> set (q_jobs s)"
      using set_drop_subset by (fastforce simp: terminal_jobs_newest_first_def)
    then have "j_idem ` set ?rows \<subseteq> j_idem ` set (q_jobs s)" by (rule image_mono)
    moreover from prune_fences_keys [OF s'] have "f_idem ` set (q_fences s') \<subseteq> f_idem ` set (q_fences s1)"
      by (simp add: image_mono)
    ultimately show ?thesis
      using prune_jobs_keys [OF jobs] prune_fences_keys [OF s'] by (simp add: subset_iff) blast
  next
    case False
    with assms show ?thesis by (auto simp: retain_terminal_locked_def)
  qed
  then show "set (q_jobs s') \<subseteq> set (q_jobs s)"
    "f_idem ` set (q_fences s') \<subseteq> j_idem ` set (q_jobs s) \<union> f_idem ` set (q_fences s)" by simp_all
qed

lemma job_count_guard_cases:
  assumes "job_count_guard s = Inr s'"
  obtains "s' = s" | a b r where "retain_terminal_locked a b s = Inr (r, s')"
  using assms by (auto simp: job_count_guard_def split: if_splits)

lemma holder_of_key_None:
  "holder_of_key key s = None \<longleftrightarrow> key \<notin> j_idem ` set (q_jobs s) \<and> key \<notin> f_idem ` set (q_fences s)"
  by (simp add: holder_of_key_def row_of_None [symmetric] split: option.splits)

lemma new_job_Inr:
  assumes "new_job env r = Inr j"
  shows "j_state j = Queued" "j_effect j = EffNone" "j_attempt j = 0" "j_id j = fresh_id env"
    "job_wf j" "1 \<le> j_max j" "j_idem j \<noteq> []"
  using assms clean_token_nonempty
  by (auto simp: new_job_def Let_def job_wf_def effect_may_have_run_def)

lemma moves_append:
  assumes "job_wf j" and "\<not> active_state (j_state j)" and "j_id j \<notin> j_id ` set (q_jobs s)"
    and "j_idem j \<notin> j_idem ` set (q_jobs s)" and "j_idem j \<notin> f_idem ` set (q_fences s)"
  shows "moves op m s m (s\<lparr>q_jobs := q_jobs s @ [j]\<rparr>)"
proof -
  have "active_of w (q_jobs s @ [j]) = active_of w (q_jobs s)" for w
    using assms(2) by (simp add: active_of_def)
  with assms show ?thesis
    unfolding moves_def
    by (auto simp: good_def core_def jobs_ok_def counters_ok_def owners_ok_def fences_ok_def
        advance_def keeps_rows_def keeps_fences_def new_rows_def image_iff
        intro: evolve_refl same_columns_refl same_fence_refl elim!: journal_other)
qed

lemma enqueue_body_moves:
  assumes "new_job env r = Inr j" and "enqueue_body env r j s = Inr (i, s')"
  shows "moves op m s m s'"
proof (cases "holder_of_key (j_idem j) s")
  case (Some h)
  with assms(2) show ?thesis by (auto simp: enqueue_body_def split: prod.splits if_splits)
next
  case None
  with assms(2) obtain s1 where guard: "job_count_guard s = Inr s1"
    and fresh: "j_id j \<notin> j_id ` set (q_jobs s1)"
    and rec: "record_event_locked env (j_id j) ''enqueued'' None Queued [] [] (enqueue_details j)
       (s1\<lparr>q_jobs := q_jobs s1 @ [j]\<rparr>) = Inr s'"
    by (auto simp: enqueue_body_def split: if_splits)
  from guard have "moves op m s m s1 \<and> j_idem j \<notin> j_idem ` set (q_jobs s1) \<and> j_idem j \<notin> f_idem ` set (q_fences s1)"
  proof (cases rule: job_count_guard_cases)
    case 1
    with None show ?thesis by (simp add: holder_of_key_None)
  next
    case (2 a b r)
    with None retain_keys [OF 2] moves_retain [OF 2] show ?thesis
      unfolding holder_of_key_None by blast
  qed
  moreover from this have "moves op m s1 m (s1\<lparr>q_jobs := q_jobs s1 @ [j]\<rparr>)"
    by (intro moves_append) (use new_job_Inr(1,5) [OF assms(1)] fresh in simp_all)
  moreover note moves_record [OF rec, of op m]
  ultimately show ?thesis by (blast intro: moves_trans)
qed

lemma safe_enqueue: "safe op s (snd (enqueue env r s))"
proof (cases "new_job env r")
  case (Inr j)
  then show ?thesis
    unfolding enqueue_def Inr sum.case
    by (intro safe_transact safe_bodyI) (simp add: safe_def enqueue_body_moves [OF Inr])
qed (simp add: enqueue_def)

end
