(* ===== verification/QueueSweeps.thy ===== *)
theory QueueSweeps
  imports QueueAdmission
begin

text \<open>
  Leasing, the recovery passes, the worker registry and start-up keep the invariant and advance the rows.
\<close>

section \<open>Recovery passes\<close>

text \<open>
  A pass counts its pending releases in a dictionary. The outcome of a row is chosen on the row as the
  scan saw it and applied to the row as it is now; the two agree on the columns the choice depends on,
  because a pass does nothing but release rows.
\<close>

definition effects :: "job list \<Rightarrow> (pystr \<times> side_mode \<times> side_effect) list" where
  "effects jobs = map (\<lambda>j. (j_id j, j_mode j, j_effect j)) jobs"

definition pass_ok :: "bool \<Rightarrow> qstate \<Rightarrow> recovery \<Rightarrow> bool" where
  "pass_ok op s0 st \<longleftrightarrow> (case st of (s, m, n) \<Rightarrow>
     nonneg m \<and> good m s \<and> advance op s0 s \<and> effects (q_jobs s) = effects (q_jobs s0))"

lemma effects_release [simp]: "effects (upd_where p (release_job env target code) jobs) = effects jobs"
  unfolding effects_def by (rule map_other_upd) simp

lemma effects_agree:
  assumes "effects (q_jobs s) = effects (q_jobs s0)" and "good m s" and "job_row k s = Some j"
    and "row \<in> set (q_jobs s0)" and "j_id row = k"
  shows "effect_may_have_run j = effect_may_have_run row"
proof -
  have "(j_id row, j_mode row, j_effect row) \<in> set (effects (q_jobs s))"
    using assms(4) unfolding assms(1) by (simp add: effects_def)
  then obtain i where "i \<in> set (q_jobs s)" "j_id i = k" "j_mode i = j_mode row" "j_effect i = j_effect row"
    using assms(5) by (auto simp: effects_def)
  moreover from this have "i = j"
    using assms(3) row_of_distinct [OF good_jobs(1) [OF assms(2)]] by fastforce
  ultimately show ?thesis by (simp add: effect_may_have_run_def)
qed

lemma recovery_choice_wf':
  "job_wf j \<Longrightarrow> active_state (j_state j) \<Longrightarrow> effect_may_have_run j = effect_may_have_run row \<Longrightarrow>
    job_wf (release_job env (fst (recovery_choice row a b c)) code j)"
  by (auto simp: job_wf_def recovery_choice_def effect_may_have_run_def)

lemma recover_row_pass:
  assumes "recover_row env et d lost (recovery_choice row' a b c) row st = Inr st'" and "pass_ok op s0 st"
    and "row \<in> set (q_jobs s0)" and "active_state (j_state row)"
    and "effect_may_have_run row' = effect_may_have_run row"
  shows "pass_ok op s0 st'"
proof -
  obtain s m n where st: "st = (s, m, n)" by (cases st) auto
  obtain target code where out: "recovery_choice row' a b c = (target, code)" by fastforce
  let ?hit = "\<lambda>j. j_id j = j_id row \<and> j_state j = j_state row \<and> j_worker j = j_worker row \<and>
                    j_token j = j_token row \<and> lost j"
  let ?f = "release_job env target code"
  have ok: "nonneg m" "good m s" "advance op s0 s" "effects (q_jobs s) = effects (q_jobs s0)"
    using assms(2) by (simp_all add: pass_ok_def st)
  show ?thesis
  proof (cases "count_where ?hit (q_jobs s) = 1")
    case False
    with assms(1,2) show ?thesis by (simp add: recover_row_def st out Let_def)
  next
    case True
    obtain j where j: "job_row (j_id row) s = Some j" "?hit j"
      and upd: "s\<lparr>q_jobs := upd_where ?hit ?f (q_jobs s)\<rparr> = upd_job (j_id row) ?f s"
      by (rule hit_job [OF ok(2) True], simp, blast)
    from assms(1) True obtain s1 where
      rec: "record_event_locked env (j_id row) et (Some (j_state row)) target (j_worker row)
                       code d (upd_job (j_id row) ?f s) = Inr s1"
      and st': "st' = (s1, bump (j_worker row) m, Suc n)"
      by (auto simp: recover_row_def st out Let_def upd)
    have same: "effect_may_have_run j = effect_may_have_run row'"
      using effects_agree [OF ok(4,2) j(1) assms(3)] assms(5) by simp
    have "moves op m s (bump (j_worker row) m) (upd_job (j_id row) ?f s)"
    proof (rule moves_release_job [OF j(1)])
      show "job_wf j \<Longrightarrow> job_wf (?f j)"
        using recovery_choice_wf' [OF _ _ same, of env a b c code] j(2) assms(4) by (simp add: out)
      show "\<not> active_state target" using recovery_choice_inactive [of row' a b c] by (simp add: out)
    qed (use j(2) assms(4) in simp_all)
    also have "moves op (bump (j_worker row) m) (upd_job (j_id row) ?f s) (bump (j_worker row) m) s1"
      using rec by (rule moves_record)
    finally show ?thesis
      using ok nonneg_bump record_event_sel(1) [OF rec]
      by (auto simp: pass_ok_def st' moves_def intro: advance_trans)
  qed
qed

lemma efold_pass:
  assumes "efold step rows (s, [], 0) = Inr (s', m, n)"
    and "\<And>row st st'. row \<in> set rows \<Longrightarrow> step row st = Inr st' \<Longrightarrow> pass_ok op s st \<Longrightarrow> pass_ok op s st'"
  shows "moves op [] s [] (release_slots env m s')"
  unfolding moves_def
proof (intro impI)
  assume "good [] s"
  then have start: "pass_ok op s (s, [], 0)" by (simp add: pass_ok_def nonneg_def)
  have "pass_ok op s (s', m, n)"
    by (rule efold_invariant [where I = "pass_ok op s", OF assms(1) start assms(2)])
  then have final: "nonneg m" "good m s'" "advance op s s'" by (simp_all add: pass_ok_def)
  show "good [] (release_slots env m s') \<and> advance op s (release_slots env m s')"
    by (intro conjI good_release_slots [OF final(1,2)] advance_trans [OF final(3) advance_release_slots])
qed

lemma safe_recover_expired: "safe op s (snd (recover_expired_leases env ticks now s))"
proof -
  let ?c = "(case now of None \<Rightarrow> clk env 0 | Some t \<Rightarrow> t) - (if now = None then q_grace s else 0)"
  have "safe_body op (recover_expired_body env ?c)"
  proof (intro safe_bodyI, goal_cases)
    case (1 s r s')
    then obtain m s1 where loop: "efold (recover_expired_row env ?c) (expired_candidates ?c (q_jobs s)) (s, [], 0) = Inr (s1, m, r)"
      and s': "s' = release_slots env m s1" by (auto simp: recover_expired_body_def)
    show ?case
      unfolding safe_def s'
      by (rule efold_pass [OF loop], unfold recover_expired_row_def, erule recover_row_pass)
        (auto simp: expired_candidates_def)
  qed
  then have "safe op s (snd (transact (recover_expired_body env ?c) s))" by (rule safe_transact)
  moreover have "safe op t (t\<lparr>q_last_scan := ticks\<rparr>)" for t
    unfolding safe_def by (rule moves_same) simp_all
  ultimately show ?thesis
    by (auto simp: recover_expired_leases_def Let_def case_prod_unfold intro: safe_trans)
qed

lemma safe_recover_stale: "safe op s (snd (recover_stale_worker_leases env now s))"
  unfolding recover_stale_worker_leases_def
proof (intro safe_transact safe_bodyI, goal_cases)
  case (1 s r s')
  let ?t = "case now of None \<Rightarrow> clk env 0 | Some t \<Rightarrow> t"
  let ?c = "?t - q_heartbeat_timeout s"
  from 1 obtain m s1 where
    loop: "efold (recover_stale_row env ?c ?t) (stale_candidates ?c ?t s) (s, [], 0) = Inr (s1, m, r)"
    and s': "s' = release_slots env m s1" by (auto simp: recover_stale_body_def Let_def)
  show ?case
    unfolding safe_def s'
  proof (rule efold_pass [OF loop])
    fix cand st st'
    assume cand: "cand \<in> set (stale_candidates ?c ?t s)" and step: "recover_stale_row env ?c ?t cand st = Inr st'"
      and ok: "pass_ok op s st"
    obtain row hb where row: "cand = (row, hb)" by fastforce
    from cand row have in_s: "row \<in> set (q_jobs s)" "active_state (j_state row)"
      by (auto simp: stale_candidates_def)
    obtain s2 m2 n2 where st: "st = (s2, m2, n2)" by (cases st) auto
    show "pass_ok op s st'"
    proof (cases "job_row (j_id row) s2")
      case None
      with step ok show ?thesis by (simp add: recover_stale_row_def row st)
    next
      case (Some fresh)
      show ?thesis
      proof (cases "j_state fresh \<noteq> j_state row \<or> j_worker fresh \<noteq> j_worker row \<or> j_token fresh \<noteq> j_token row")
        case True
        with step ok Some show ?thesis by (simp add: recover_stale_row_def row st)
      next
        case False
        have "effects (q_jobs s2) = effects (q_jobs s)" "good m2 s2" using ok by (auto simp: pass_ok_def st)
        from effects_agree [OF this Some in_s(1) refl] show ?thesis
          using step Some False unfolding recover_stale_row_def row
          by (auto simp: st intro: recover_row_pass [OF _ ok in_s])
      qed
    qed
  qed
qed

lemma safe_recover_if_due: "safe op s (snd (recover_if_due env t0 t1 t2 busy s))"
proof -
  obtain r s1 where stale: "recover_stale_worker_leases env None s = (r, s1)" by fastforce
  obtain r2 s2 where exp: "recover_expired_leases (shift_env 1 env) t2 None s1 = (r2, s2)" by fastforce
  have "safe op s s1" using safe_recover_stale [of op s env None] by (simp add: stale)
  moreover have "safe op s1 s2" using safe_recover_expired [of op s1 "shift_env 1 env" t2 None] unfolding exp by simp
  ultimately show ?thesis
    by (auto simp: recover_if_due_def stale exp [simplified] intro: safe_trans split: sum.splits)
qed

section \<open>Leasing\<close>

lemma hit_worker:
  assumes "good m s" and "count_where hit (q_workers s) = 1" and "\<And>w. hit w \<Longrightarrow> w_id w = k"
  obtains w where "worker_row k s = Some w" "hit w"
    "\<And>g. upd_where hit g (q_workers s) = upd_where (\<lambda>w. w_id w = k) g (q_workers s)"
  using hit_upd [where key = w_id, OF good_jobs(4) [OF assms(1)] assms(2,3)] by metis

text \<open>What a granted candidate is: a queued row and an open slot, one update of each, and the event.\<close>

lemma grant_shape:
  assumes "grant_candidate env i worker duration extra row s = Inr (Granted l s')" and g: "good [] s"
  obtains j w d where "job_row (j_id row) s = Some j" "j_state j = Queued"
    "worker_row worker s = Some w" "slot_open worker w"
    "record_event_locked env (j_id row) ''leased'' (Some Queued) Leased worker [] d
       (upd_worker worker (claim_slot env (clk env (2 * i + 1))) (upd_job (j_id row)
         (grant_lease env worker (sha256 env (tok env i)) (clk env (2 * i) + of_int duration)) s)) = Inr s'"
    "l = lease_from_row row worker (tok env i) (clk env (2 * i) + of_int duration) (j_attempt row + 1)"
proof -
  let ?hit = "\<lambda>j. j_id j = j_id row \<and> j_state j = Queued"
  let ?f = "grant_lease env worker (sha256 env (tok env i)) (clk env (2 * i) + of_int duration)"
  let ?claim = "claim_slot env (clk env (2 * i + 1))"
  from assms(1) obtain d where
    one: "count_where ?hit (q_jobs s) = 1" "count_where (slot_open worker) (q_workers s) = 1"
    and rec: "record_event_locked env (j_id row) ''leased'' (Some Queued) Leased worker [] d
       (s\<lparr>q_jobs := upd_where ?hit ?f (q_jobs s), q_workers := upd_where (slot_open worker) ?claim (q_workers s)\<rparr>) = Inr s'"
    and l: "l = lease_from_row row worker (tok env i) (clk env (2 * i) + of_int duration) (j_attempt row + 1)"
    by (auto simp: grant_candidate_def Let_def split: if_splits)
  obtain j where j: "job_row (j_id row) s = Some j" "?hit j"
    and upd: "s\<lparr>q_jobs := upd_where ?hit ?f (q_jobs s)\<rparr> = upd_job (j_id row) ?f s"
    by (rule hit_job [OF g one(1)], simp, blast)
  obtain w where w: "worker_row worker s = Some w" "slot_open worker w"
    and updw: "upd_where (slot_open worker) ?claim (q_workers s) = upd_where (\<lambda>w. w_id w = worker) ?claim (q_workers s)"
    by (rule hit_worker [OF g one(2)]) (simp add: slot_open_def, blast)
  have "s\<lparr>q_jobs := upd_where ?hit ?f (q_jobs s), q_workers := upd_where (slot_open worker) ?claim (q_workers s)\<rparr>
      = upd_worker worker ?claim (upd_job (j_id row) ?f s)"
    unfolding upd updw upd_worker_def upd_job_sel ..
  with rec j w l that show ?thesis by simp
qed

lemma moves_grant:
  assumes "grant_candidate env i worker duration extra row s = Inr (Granted l s')"
    and "env_ok env" and "0 < duration"
  shows "moves op [] s [] s'"
  unfolding moves_def
proof (intro impI)
  assume g: "good [] s"
  let ?digest = "sha256 env (tok env i)"
  let ?expires = "clk env (2 * i) + of_int duration"
  let ?f = "grant_lease env worker ?digest ?expires"
  let ?claim = "claim_slot env (clk env (2 * i + 1))"
  obtain j w d where j: "job_row (j_id row) s = Some j" "j_state j = Queued"
    and w: "worker_row worker s = Some w" "slot_open worker w"
    and rec: "record_event_locked env (j_id row) ''leased'' (Some Queued) Leased worker [] d
       (upd_worker worker ?claim (upd_job (j_id row) ?f s)) = Inr s'"
    by (rule grant_shape [OF assms(1) g])
  have "0 \<le> clk env (2 * i)" "?digest \<noteq> []" using assms(2) by (simp_all add: env_ok_def)
  with assms(3) have pos: "0 < ?expires" by (simp add: add_nonneg_pos)
  from row_of_in [OF w(1)] g have "worker \<noteq> []" by (auto simp: good_def)
  with pos \<open>?digest \<noteq> []\<close> good_wf [OF g j(1)] j(2) have wf: "job_wf (?f j)"
    by (auto simp: job_wf_def effect_may_have_run_def)
  have ev: "evolve op j (?f j)"
    using good_wf [OF g j(1)] j(2) by (cases "j_effect j") (auto simp: evolve_def kept_def job_wf_def effect_may_have_run_def)
  have good1: "good [(worker, - 1)] (upd_job (j_id row) ?f s)"
    using grant_update.good_grant [OF g j(1) wf] j(2) w by (simp add: slot_open_def)
  have "good [] (upd_worker worker ?claim (upd_job (j_id row) ?f s))"
    by (rule good_worker_pay [OF good1]) (simp_all add: claim_slot_def)
  then have "good [] s'" using rec by (rule good_record_event)
  moreover have "advance op s (upd_job (j_id row) ?f s)"
    by (rule grant_update.advance_job [OF g j(1) ev])
  then have "advance op s s'"
    using advance_worker advance_record_event [OF rec] by (blast intro: advance_trans)
  ultimately show "good [] s' \<and> advance op s s'" ..
qed

text \<open>The two tables after a grant.\<close>

lemma grant_effect:
  assumes "grant_candidate env i worker duration extra row s = Inr (Granted l s')" and g: "good [] s"
  obtains j w where "job_row (l_job l) s = Some j" "j_state j = Queued"
    "worker_row worker s = Some w" "slot_open worker w" "worker_row worker s' = Some (claim_slot env (clk env (2 * i + 1)) w)"
    "\<And>k. job_row k s' = (if k = l_job l then Some (grant_lease env worker (sha256 env (l_token l)) (l_expires l) j)
        else job_row k s)"
    "l_job l = j_id row" "l_attempt l = j_attempt row + 1" "l_token l = tok env i"
    "l_expires l = clk env (2 * i) + of_int duration"
proof -
  let ?f = "grant_lease env worker (sha256 env (tok env i)) (clk env (2 * i) + of_int duration)"
  let ?claim = "claim_slot env (clk env (2 * i + 1))"
  obtain j w d where j: "job_row (j_id row) s = Some j" "j_state j = Queued"
    and w: "worker_row worker s = Some w" "slot_open worker w"
    and rec: "record_event_locked env (j_id row) ''leased'' (Some Queued) Leased worker [] d
       (upd_worker worker ?claim (upd_job (j_id row) ?f s)) = Inr s'"
    and l: "l = lease_from_row row worker (tok env i) (clk env (2 * i) + of_int duration) (j_attempt row + 1)"
    by (rule grant_shape [OF assms(1) g])
  have "worker_row worker s' = Some (?claim w)"
    using w(1) key_stable.row_of_upd_key [of w_id ?claim worker worker "q_workers s"]
    by (simp add: record_event_sel [OF rec] key_stable_def claim_slot_def)
  moreover have "job_row k s' = (if k = j_id row then Some (?f j) else job_row k s)" for k
    using j(1) by (simp add: record_event_sel [OF rec] grant_update.row_of_upd_key)
  ultimately show ?thesis
    using that j w by (simp add: l lease_from_row_def)
qed

lemma env_ok_shift [simp]: "env_ok env \<Longrightarrow> env_ok (shift_env n env)"
  by (simp add: env_ok_def shift_env_def)

lemma clamp_lease_pos: "0 < clamp_lease n"
  by (simp add: clamp_lease_def)

lemma moves_lease_rounds:
  assumes "lease_rounds env i n worker duration pmin pmax s = Inr (Some (ls, s'))"
    and "env_ok env" and "0 < duration"
  shows "moves op [] s [] s'"
  using assms
proof (induction env i n worker duration pmin pmax s arbitrary: ls s' rule: lease_rounds.induct)
  case (2 env i n worker duration pmin pmax s)
  show ?case
  proof (cases "lease_candidate pmin pmax (q_jobs s)")
    case None
    with 2 show ?thesis by simp
  next
    case (Some row)
    with "2.prems" obtain g where g: "grant_candidate env i worker duration [(''batch'', JBool True)] row s = Inr g"
      by auto
    show ?thesis
    proof (cases g)
      case NoGrant
      with 2 Some g show ?thesis by simp
    next
      case SlotLost
      with "2.prems" Some g show ?thesis by simp
    next
      case (Granted l s1)
      with "2.prems" Some g obtain ls' where
        rest: "lease_rounds env (Suc i) n worker duration pmin pmax s1 = Inr (Some (ls', s'))"
        by (auto split: option.splits prod.splits)
      from g Granted have "moves op [] s [] s1"
        using "2.prems"(2,3) by (blast intro: moves_grant)
      then show ?thesis
        using "2.IH"(2) [OF Some rest "2.prems"(2,3)] by (rule moves_trans)
    qed
  qed
qed simp

lemma safe_lease_next_body:
  assumes "env_ok env" and "0 < duration" shows "safe_body op (lease_next_body env worker duration)"
proof (rule safe_bodyI)
  fix s r s' assume *: "lease_next_body env worker duration s = Inr (r, s')"
  then consider "s' = s" | row l where "grant_candidate env 0 worker duration [] row s = Inr (Granted l s')"
    by (auto simp: lease_next_body_def split: option.splits if_splits grant.splits)
      (metis grant.exhaust)
  then show "safe op s s'"
    using moves_grant [OF _ assms] by cases (auto simp: safe_def)
qed

lemma safe_lease_many_body:
  assumes "env_ok env" and "0 < duration" shows "safe_body op (lease_many_body env worker limit duration)"
proof (rule safe_bodyI)
  fix s r s' assume *: "lease_many_body env worker limit duration s = Inr (r, s')"
  then consider "s' = s" | n pmin pmax where
      "lease_rounds env 0 n worker duration pmin pmax s = Inr (Some (r, s'))"
    by (auto simp: lease_many_body_def Let_def split: option.splits if_splits)
  then show "safe op s s'"
    using moves_lease_rounds [OF _ assms] by cases (auto simp: safe_def)
qed

section \<open>The worker registry\<close>

lemma moves_new_worker:
  assumes "w_id w \<noteq> []" and "w_leases w = 0" and "worker_row (w_id w) s = None"
  shows "moves op [] s [] (s\<lparr>q_workers := q_workers s @ [w]\<rparr>)"
  unfolding moves_def
proof (intro impI conjI)
  assume g: "good [] s"
  have "active_of (w_id w) (q_jobs s) = 0"
    unfolding active_of_def count_where_zero
    using g assms(3) by (auto simp: good_def core_def owners_ok_def row_of_None image_iff) metis
  with g assms show "good [] (s\<lparr>q_workers := q_workers s @ [w]\<rparr>)"
    by (auto simp: good_def core_def counters_ok_def owners_ok_def row_of_None)
qed (rule advance_other, simp_all)

lemma register_body_cases:
  assumes "register_body cap w s = Inr (r, s')"
  obtains (new) "worker_row (w_id w) s = None" "s' = s\<lparr>q_workers := q_workers s @ [w]\<rparr>"
  | (again) v g where "worker_row (w_id w) s = Some v" "s' = upd_worker (w_id w) g s"
      "w_state v \<noteq> WRevoked" "w_key v = w_key w" "normalize_algorithm (w_algorithm v) = Inr (w_algorithm w)"
      "\<And>v. w_id (g v) = w_id v" "\<And>v. w_leases (g v) = w_leases v" "\<And>v. w_state (g v) = w_state v"
      "\<And>v. w_slots (g v) = w_slots w" "\<And>v. w_key (g v) = w_key v"
  using assms by (auto simp: register_body_def Let_def split: option.splits if_splits)

lemma register_checks_id:
  "register_checks env wid key res lo hi alg meta = Inr (k, rest) \<Longrightarrow> clean_token wid 160 = Inr k"
  by (auto simp: register_checks_def)

lemma safe_register:
  "safe op s (snd (register_worker env cap wid key res disp lo hi version slots alg meta s))"
proof (cases "register_checks env wid key res lo hi alg meta")
  case (Inr x)
  obtain k a n rj mj where x: "x = (k, a, n, rj, mj)" by (cases x) auto
  have k: "k \<noteq> []" using register_checks_id [OF Inr [unfolded x]] clean_token_nonempty by blast
  show ?thesis
    unfolding register_worker_def Inr x sum.case prod.case Let_def
  proof (intro safe_transact safe_bodyI, goal_cases)
    case (1 s r s')
    then show ?case
    proof (cases rule: register_body_cases)
      case new
      with k show ?thesis unfolding safe_def by (auto intro: moves_new_worker)
    next
      case (again v g)
      then show ?thesis unfolding safe_def by (auto intro: moves_worker)
    qed
  qed
qed (simp add: register_worker_def)

lemma safe_heartbeat: "safe op s (snd (heartbeat env wid res s))"
proof (cases "case res of None \<Rightarrow> Inr None
            | Some r \<Rightarrow> ebind (bounded_json (sha256 env) r MAX_RESOURCE_DECLARATION_BYTES) (\<lambda>x. Inr (Some (fst x)))")
  case (Inr rj)
  show ?thesis
    unfolding heartbeat_def Inr sum.case
  proof (intro safe_transact safe_bodyI, goal_cases)
    case (1 s r s')
    then obtain g where "s' = upd_worker wid g s" "\<And>w. w_id (g w) = w_id w"
        "\<And>w. w_leases (g w) = w_leases w" "\<And>w. w_state (g w) = w_state w"
      by (auto split: option.splits if_splits)
    then show ?case unfolding safe_def by (auto intro: moves_worker)
  qed
qed (simp add: heartbeat_def)

lemma safe_drain: "safe op s (snd (set_worker_drain env wid drain s))"
  unfolding set_worker_drain_def
proof (intro safe_transact safe_bodyI, goal_cases)
  case (1 s r s')
  then have "s' = upd_worker wid (\<lambda>w. w\<lparr>w_state := (if drain then WDraining else WActive), w_updated := utc env\<rparr>) s"
    by (auto split: option.splits if_splits)
  then show ?case unfolding safe_def by (auto intro!: moves_worker split: if_splits)
qed

end
