(* ===== verification/QueueRepair.thy ===== *)
theory QueueRepair
  imports QueueSweeps
begin

text \<open>
  The operations that run with the counters out of step: the revocation of a worker, the reconciliation of
  a damaged state, and start-up. Reconciliation is proved from a precondition weaker than the invariant.
\<close>

section \<open>Damaged states\<close>

text \<open>What the loops below keep whatever the counters say.\<close>

definition tables_ok :: "qstate \<Rightarrow> bool" where
  "tables_ok s \<longleftrightarrow> distinct (map j_id (q_jobs s)) \<and> distinct (map j_idem (q_jobs s)) \<and>
     distinct (map w_id (q_workers s)) \<and> (\<forall>w \<in> set (q_workers s). w_id w \<noteq> []) \<and>
     fences_ok (q_jobs s) (q_fences s)"

text \<open>
  A row that reconciliation can deal with: an active row may have lost its lease, but an inactive one
  must not hold one.
\<close>

definition repairable :: "job \<Rightarrow> bool" where
  "repairable j \<longleftrightarrow> (\<not> active_state (j_state j) \<longrightarrow> j_worker j = [] \<and> j_token j = [] \<and> j_expires j = 0) \<and>
     (effect_may_have_run j \<longrightarrow> active_state (j_state j) \<or> j_state j = ReviewRequired) \<and>
     (j_effect j = EffCompleted \<longrightarrow> j_state j = Completed) \<and>
     (j_mode j = Idempotent \<longrightarrow> j_effect j = EffNone)"

lemma job_wf_repairable: "job_wf j \<Longrightarrow> repairable j"
  by (auto simp: job_wf_def repairable_def)

lemma repairable_wf:
  "repairable j \<Longrightarrow> (active_state (j_state j) \<Longrightarrow> j_worker j \<noteq> [] \<and> j_token j \<noteq> [] \<and> 0 < j_expires j) \<Longrightarrow> job_wf j"
  by (auto simp: job_wf_def repairable_def)

lemma queue_inv_tables: "queue_inv s \<Longrightarrow> tables_ok s"
  by (simp add: queue_inv_def good_def core_def jobs_ok_def counters_ok_def tables_ok_def)

section \<open>Releasing a row without its counter\<close>

text \<open>One release in such a loop: \<open>moved k f s s'\<close> says \<open>s'\<close> has \<open>f\<close> applied to row \<open>k\<close>, and a fence more.\<close>

lemma release_event:
  assumes "tables_ok s" and "job_row k s = Some j" and "active_state (j_state j)"
    and "record_event_locked env k et src tgt wid code d (upd_job k (release_job env target code') s) = Inr s'"
  shows "tables_ok s'" "q_workers s' = q_workers s" "advance op s s'"
    "q_jobs s' = upd_where (\<lambda>i. j_id i = k) (release_job env target code') (q_jobs s)"
proof -
  let ?f = "release_job env target code'"
  have jobs: "q_jobs s' = upd_where (\<lambda>i. j_id i = k) ?f (q_jobs s)" and workers: "q_workers s' = q_workers s"
    using record_event_sel [OF assms(4)] by simp_all
  have keys: "map j_idem (upd_where p ?f jobs) = map j_idem jobs" for p jobs
    by (rule map_other_upd) (simp add: release_job_def)
  have "fences_ok (q_jobs (upd_job k ?f s)) (q_fences (upd_job k ?f s))"
    using assms(1) by (simp add: tables_ok_def release_update.fences_ok_upd)
  then have "fences_ok (q_jobs s') (q_fences s')"
    using assms(1) by (intro fences_ok_record [OF _ _ assms(4)]) (simp_all add: keys tables_ok_def)
  then show "tables_ok s'"
    using assms(1) by (simp add: tables_ok_def workers jobs release_update.map_key_upd keys)
  have "advance op s (upd_job k ?f s)"
  proof (rule advance_upd)
    fix i assume "i \<in> set (q_jobs s)" "j_id i = k"
    with assms(1,2) row_of_distinct [of j_id "q_jobs s" i k] have "i = j" by (simp add: tables_ok_def)
    with assms(3) show "evolve op i (?f i)" by simp
  qed simp_all
  then show "advance op s s'" using advance_record_event [OF assms(4)] by (rule advance_trans)
  show "q_workers s' = q_workers s" "q_jobs s' = upd_where (\<lambda>i. j_id i = k) ?f (q_jobs s)"
    by (fact workers, fact jobs)
qed

text \<open>
  The state of a loop that started at \<open>s0\<close> and has released rows: the rows that are active now were
  active before and are unchanged, and the rows of \<open>todo\<close> are still as they were.
\<close>

definition releasing :: "bool \<Rightarrow> qstate \<Rightarrow> job list \<Rightarrow> qstate \<Rightarrow> bool" where
  "releasing op s0 todo s \<longleftrightarrow> tables_ok s \<and> q_workers s = q_workers s0 \<and> advance op s0 s \<and>
     (\<forall>j \<in> set (q_jobs s). active_state (j_state j) \<longrightarrow> j \<in> set (q_jobs s0)) \<and> set todo \<subseteq> set (q_jobs s) \<and>
     ((\<forall>j \<in> set (q_jobs s0). repairable j) \<longrightarrow> (\<forall>j \<in> set (q_jobs s). repairable j))"

lemma releasing_step:
  assumes "releasing op s0 (row # todo) s" and "distinct (map j_id (row # todo))"
    and "active_state (j_state row)"
    and "record_event_locked env (j_id row) et src tgt wid code d
           (upd_job (j_id row) (release_job env (fst (recovery_choice row a b c)) code') s) = Inr s'"
  shows "releasing op s0 todo s'"
    and "q_jobs s' = upd_where (\<lambda>i. j_id i = j_id row)
      (release_job env (fst (recovery_choice row a b c)) code') (q_jobs s)"
proof -
  let ?t = "fst (recovery_choice row a b c)"
  let ?f = "release_job env ?t code'"
  have s: "tables_ok s" "row \<in> set (q_jobs s)" using assms(1) by (simp_all add: releasing_def)
  then have row: "job_row (j_id row) s = Some row" by (simp add: row_of_distinct tables_ok_def)
  note rel = release_event [OF s(1) row assms(3,4)]
  have cases: "i = ?f row \<or> (i \<in> set (q_jobs s) \<and> j_id i \<noteq> j_id row)" if "i \<in> set (q_jobs s')" for i
    using set_upd_job [OF _ row] s(1) that by (simp add: rel(4) tables_ok_def)
  have "\<not> active_state ?t" by (rule recovery_choice_inactive)
  then have active: "j \<in> set (q_jobs s0)" if "j \<in> set (q_jobs s')" "active_state (j_state j)" for j
    using cases [OF that(1)] that(2) assms(1) unfolding releasing_def by auto
  have rest: "i \<in> set (q_jobs s')" if "i \<in> set todo" for i
  proof -
    from that assms(1,2) have "i \<in> set (q_jobs s)" "j_id i \<noteq> j_id row"
      by (auto simp: releasing_def image_iff)
    then show ?thesis unfolding rel(4) set_upd_where by force
  qed
  have repair: "repairable j" if "\<forall>j \<in> set (q_jobs s). repairable j" "j \<in> set (q_jobs s')" for j
  proof -
    have "repairable row" using that(1) s(2) by blast
    then have "repairable (?f row)"
      using assms(3) by (auto simp: repairable_def recovery_choice_def effect_may_have_run_def)
    with cases [OF that(2)] that(1) show ?thesis by auto
  qed
  have adv: "advance op s0 s'" using assms(1) advance_trans [OF _ rel(3)] unfolding releasing_def by blast
  have before: "\<forall>j \<in> set (q_jobs s0). repairable j \<Longrightarrow> \<forall>j \<in> set (q_jobs s). repairable j"
    "q_workers s = q_workers s0"
    using assms(1) unfolding releasing_def by blast+
  show "releasing op s0 todo s'"
    unfolding releasing_def
  proof (intro conjI ballI impI subsetI)
    show "tables_ok s'" by (rule rel(1))
    show "q_workers s' = q_workers s0" using rel(2) before(2) by simp
    show "advance op s0 s'" by (rule adv)
  qed (use active rest repair before(1) in blast)+
  show "q_jobs s' = upd_where (\<lambda>i. j_id i = j_id row) ?f (q_jobs s)" by (rule rel(4))
qed

section \<open>Reconciliation\<close>

lemma reconcile_loop:
  assumes "efold (reconcile_lease env) rows (s, n) = Inr (s', n')" and "releasing op s0 rows s"
    and "distinct (map j_id rows)" and "\<forall>row \<in> set rows. active_state (j_state row)"
  shows "releasing op s0 [] s' \<and> (\<forall>row \<in> set rows. \<forall>j \<in> set (q_jobs s'). j_id j = j_id row \<longrightarrow> \<not> active_state (j_state j))
    \<and> (\<forall>j \<in> set (q_jobs s'). active_state (j_state j) \<longrightarrow> j \<in> set (q_jobs s))"
  using assms
proof (induction rows arbitrary: s n)
  case (Cons row rows)
  obtain t c where choice: "recovery_target row ''LEASE_STATE_INVALID_MAX_ATTEMPTS'' = (t, c)" by fastforce
  then have t: "t = fst (recovery_choice row ''LEASE_STATE_LOST_AFTER_SIDE_EFFECT_START''
      ''LEASE_STATE_RECONCILED'' ''LEASE_STATE_INVALID_MAX_ATTEMPTS'')" by (simp add: recovery_target_def)
  from Cons.prems(1) choice obtain s1 where
    rec: "record_event_locked env (j_id row) ''lease_reconciled'' (Some (j_state row)) t
               (j_worker row) c (JObj []) (upd_job (j_id row) (release_job env t c) s) = Inr s1"
    and rest: "efold (reconcile_lease env) rows (s1, Suc n) = Inr (s', n')"
    by (auto simp: reconcile_lease_def [of env row "(s, n)"])
  have act: "active_state (j_state row)" using Cons.prems(4) by simp
  note step = releasing_step [OF Cons.prems(2,3) act rec [unfolded t]]
  from Cons.IH [OF rest step(1)] Cons.prems(3,4) have IH: "releasing op s0 [] s'"
    "\<forall>row \<in> set rows. \<forall>j \<in> set (q_jobs s'). j_id j = j_id row \<longrightarrow> \<not> active_state (j_state j)"
    "\<forall>j \<in> set (q_jobs s'). active_state (j_state j) \<longrightarrow> j \<in> set (q_jobs s1)" by simp_all
  have s: "tables_ok s" "row \<in> set (q_jobs s)" using Cons.prems(2) by (simp_all add: releasing_def)
  then have row: "job_row (j_id row) s = Some row" by (simp add: row_of_distinct tables_ok_def)
  have cases: "i = release_job env t c row \<or> (i \<in> set (q_jobs s) \<and> j_id i \<noteq> j_id row)" if "i \<in> set (q_jobs s1)" for i
    using set_upd_job [OF _ row] s(1) that by (simp add: step(2) t tables_ok_def)
  have "\<not> active_state t" unfolding t by (rule recovery_choice_inactive)
  then have now: "j \<in> set (q_jobs s) \<and> j_id j \<noteq> j_id row" if "j \<in> set (q_jobs s1)" "active_state (j_state j)" for j
    using cases [OF that(1)] that(2) by auto
  from IH now show ?case by auto
qed simp

text \<open>
  What the pass leaves: the whole invariant, whatever was wrong with leases, owners and counters.
\<close>

lemma reconcile_repairs:
  assumes "reconcile_durable_state env s = (Inr r, s')" and "tables_ok s"
    and "\<forall>j \<in> set (q_jobs s). repairable j"
  shows "queue_inv s'" "advance op s s'"
proof -
  let ?h = "clk env 0 + of_int MAX_LEASE_SECONDS + 60"
  let ?rows = "filter (invalid_lease ?h s) (q_jobs s)"
  from assms(1) obtain s1 n where
    loop: "efold (reconcile_lease env) ?rows (s, 0) = Inr (s1, n)"
    and s': "s' = s1\<lparr>q_workers := map (repair_counter env s1) (q_workers s1)\<rparr>"
    by (auto simp: reconcile_durable_state_def Let_def)
  have start: "releasing op s ?rows s" using assms(2) by (auto simp: releasing_def)
  have dist: "distinct (map j_id ?rows)" using assms(2) by (auto simp: tables_ok_def distinct_map inj_on_def)
  have act: "\<forall>row \<in> set ?rows. active_state (j_state row)" by (simp add: invalid_lease_def)
  have rel: "releasing op s [] s1"
    and gone: "\<forall>row \<in> set ?rows. \<forall>j \<in> set (q_jobs s1). j_id j = j_id row \<longrightarrow> \<not> active_state (j_state j)"
    and from_s: "\<forall>j \<in> set (q_jobs s1). active_state (j_state j) \<longrightarrow> j \<in> set (q_jobs s)"
    using reconcile_loop [OF loop start dist act] by blast+
  have valid: "j_worker j \<noteq> [] \<and> j_token j \<noteq> [] \<and> 0 < j_expires j \<and>
      (\<exists>w. worker_row (j_worker j) s = Some w \<and> w_state w \<noteq> WRevoked)"
    if "j \<in> set (q_jobs s1)" "active_state (j_state j)" for j
  proof -
    from that from_s gone have "\<not> invalid_lease ?h s j" by auto
    with that(2) show ?thesis by (auto simp: invalid_lease_def split: option.splits)
  qed
  have rep: "\<forall>j \<in> set (q_jobs s1). repairable j" using rel assms(3) by (simp add: releasing_def)
  have tabs: "tables_ok s1" "q_workers s1 = q_workers s" "advance op s s1"
    using rel by (simp_all add: releasing_def)
  have keep: "w_id (repair_counter env s1 w) = w_id w" "w_state (repair_counter env s1 w) = w_state w"
    "w_leases (repair_counter env s1 w) = int (active_of (w_id w) (q_jobs s1))" for w
    by (simp_all add: repair_counter_def Let_def)
  have "jobs_ok (q_jobs s')"
    using tabs(1) rep valid repairable_wf by (auto simp: jobs_ok_def s' tables_ok_def)
  moreover have "counters_ok [] (q_jobs s') (q_workers s')"
    using tabs(1) by (simp add: counters_ok_def s' keep tables_ok_def o_def)
  moreover have "owners_ok (q_jobs s') (q_workers s')"
    unfolding owners_ok_def
  proof (intro ballI impI)
    fix j assume j: "j \<in> set (q_jobs s')" "active_state (j_state j)"
    with valid obtain w where "worker_row (j_worker j) s = Some w" "w_state w \<noteq> WRevoked" by (auto simp: s')
    then show "\<exists>w \<in> set (q_workers s'). w_id w = j_worker j \<and> w_state w \<noteq> WRevoked"
      by (auto simp: s' tabs(2) keep dest: row_of_in)
  qed
  ultimately show "queue_inv s'"
    using tabs(1) by (auto simp: queue_inv_def good_def core_def s' keep tables_ok_def)
  have "advance op s1 s'" by (rule advance_other) (simp_all add: s')
  with tabs(3) show "advance op s s'" by (rule advance_trans)
qed

lemma safe_reconcile: "safe op s (snd (reconcile_durable_state env s))"
proof (cases "reconcile_durable_state env s")
  case (Pair r s')
  show ?thesis
  proof (cases r)
    case (Inl e)
    with Pair have "s' = s" unfolding reconcile_durable_state_def by simp
    with Pair show ?thesis by simp
  next
    case (Inr x)
    have "queue_inv s \<Longrightarrow> \<forall>j \<in> set (q_jobs s). repairable j"
      by (auto simp: queue_inv_def dest: good_jobs(3) job_wf_repairable)
    then show ?thesis
      using reconcile_repairs(1) [of env s x s'] reconcile_repairs(2) [of env s x s' op] queue_inv_tables [of s] Pair Inr
      by (auto simp: safe_def moves_def queue_inv_def)
  qed
qed

section \<open>Revocation\<close>

lemma revoke_loop:
  assumes "efold (recover_worker_job env wid code) rows (s, n) = Inr (s', n')" and "releasing op s0 rows s"
    and "distinct (map j_id rows)" and "\<forall>row \<in> set rows. active_state (j_state row) \<and> j_worker row = wid"
  shows "releasing op s0 [] s' \<and> (\<forall>k. k \<noteq> wid \<longrightarrow> active_of k (q_jobs s') = active_of k (q_jobs s))
    \<and> (\<forall>j \<in> set (q_jobs s'). active_state (j_state j) \<longrightarrow> j \<in> set (q_jobs s) \<and> j_id j \<notin> j_id ` set rows)
    \<and> n' = n + length rows"
  using assms
proof (induction rows arbitrary: s n)
  case (Cons row rows)
  let ?t = "fst (recovery_choice row [] [] [])"
  have s: "tables_ok s" "row \<in> set (q_jobs s)" using Cons.prems(2) by (simp_all add: releasing_def)
  then have row: "job_row (j_id row) s = Some row" by (simp add: row_of_distinct tables_ok_def)
  have act: "active_state (j_state row)" "j_worker row = wid" using Cons.prems(4) by simp_all
  from Cons.prems(1) row act obtain s1 where
    rec: "record_event_locked env (j_id row) ''worker_lease_recovered'' (Some (j_state row)) ?t
               wid code (JObj []) (upd_job (j_id row) (release_job env ?t code) s) = Inr s1"
    and rest: "efold (recover_worker_job env wid code) rows (s1, Suc n) = Inr (s', n')"
    by (auto simp: recover_worker_job_def [of env wid code row "(s, n)"] Let_def)
  note step = releasing_step [OF Cons.prems(2,3) act(1) rec]
  from Cons.IH [OF rest step(1)] Cons.prems(3,4) have IH: "releasing op s0 [] s'"
    "\<forall>k. k \<noteq> wid \<longrightarrow> active_of k (q_jobs s') = active_of k (q_jobs s1)"
    "\<forall>j \<in> set (q_jobs s'). active_state (j_state j) \<longrightarrow> j \<in> set (q_jobs s1) \<and> j_id j \<notin> j_id ` set rows"
    "n' = Suc n + length rows" by simp_all
  have quiet: "\<not> active_state ?t" by (rule recovery_choice_inactive)
  have now: "j \<in> set (q_jobs s) \<and> j_id j \<noteq> j_id row" if "j \<in> set (q_jobs s1)" "active_state (j_state j)" for j
    using set_upd_job [OF _ row that(1) [unfolded step(2)]] s(1) that(2) quiet by (auto simp: tables_ok_def)
  have "active_of k (q_jobs s1) = active_of k (q_jobs s)" if "k \<noteq> wid" for k
  proof -
    have "int (active_of k (q_jobs s1)) = int (active_of k (q_jobs s)) - (if holds k row then 1 else 0) +
        (if holds k (release_job env ?t code row) then 1 else 0)"
      unfolding step(2) by (rule release_update.active_of_upd [OF _ row]) (use s(1) in \<open>simp add: tables_ok_def\<close>)
    with that act(2) quiet show ?thesis by (simp add: holds_def)
  qed
  with IH now show ?case by auto
qed simp

lemma revoke_worker_Inr:
  assumes "revoke_worker env wid s = (Inr n, s')" and inv: "queue_inv s"
  shows "queue_inv s'" "advance op s s'" "active_of wid (q_jobs s') = 0" "n = active_of wid (q_jobs s)"
    "\<exists>w. worker_row wid s' = Some w \<and> w_state w = WRevoked"
proof -
  let ?g = "\<lambda>w. w\<lparr>w_state := WRevoked, w_revoked_at := utc env, w_updated := utc env, w_leases := 0\<rparr>"
  let ?s1 = "upd_worker wid ?g s"
  let ?rows = "filter (\<lambda>j. j_worker j = wid \<and> active_state (j_state j)) (q_jobs s)"
  from assms(1) obtain w where w: "worker_row wid s = Some w"
    and loop: "efold (recover_worker_job env wid ''WORKER_REVOKED'') ?rows (?s1, 0) = Inr (s', n)"
    by (auto simp: revoke_worker_def Let_def split: option.splits)
  have good: "good [] s" using inv by (simp add: queue_inv_def)
  have keys: "map w_id (upd_where p ?g tbl) = map w_id tbl" for p tbl by (rule map_other_upd) simp
  have tabs: "tables_ok ?s1"
    using queue_inv_tables [OF inv] by (auto simp: tables_ok_def keys set_upd_where)
  have start: "releasing op ?s1 ?rows ?s1" using tabs by (auto simp: releasing_def)
  have dist: "distinct (map j_id ?rows)" using tabs by (auto simp: tables_ok_def distinct_map inj_on_def)
  have res: "releasing op ?s1 [] s'" "\<forall>k. k \<noteq> wid \<longrightarrow> active_of k (q_jobs s') = active_of k (q_jobs s)"
    "\<forall>j \<in> set (q_jobs s'). active_state (j_state j) \<longrightarrow> j \<in> set (q_jobs s) \<and> j_id j \<notin> j_id ` set ?rows"
    "n = length ?rows"
    using revoke_loop [OF loop start dist] by simp_all
  then have active: "j \<in> set (q_jobs s) \<and> j_worker j \<noteq> wid"
    if "j \<in> set (q_jobs s')" "active_state (j_state j)" for j
    using that by (auto simp: image_iff)
  have tabs': "tables_ok s'" "q_workers s' = q_workers ?s1" "advance op ?s1 s'"
    using res(1) by (simp_all add: releasing_def)
  have rep: "repairable j" if "j \<in> set (q_jobs s')" for j
    using res(1) that good_jobs(3) [OF good] job_wf_repairable unfolding releasing_def by simp
  have "job_wf j" if "j \<in> set (q_jobs s')" for j
    using rep [OF that] active [OF that] good_jobs(3) [OF good, of j]
    by (intro repairable_wf) (auto simp: job_wf_def)
  then have jobs: "jobs_ok (q_jobs s')" using tabs'(1) by (simp add: jobs_ok_def tables_ok_def)
  show none: "active_of wid (q_jobs s') = 0"
    unfolding active_of_def count_where_zero using active by auto
  have counters: "counters_ok [] (q_jobs s') (q_workers s')"
    using good res(2) none
    by (auto simp: tabs'(2) counters_ok_def good_def core_def keys set_upd_where)
  have owners: "owners_ok (q_jobs s') (q_workers s')"
    unfolding owners_ok_def
  proof (intro ballI impI)
    fix j assume j: "j \<in> set (q_jobs s')" "active_state (j_state j)"
    with active good obtain v where "v \<in> set (q_workers s)" "w_id v = j_worker j" "w_state v \<noteq> WRevoked"
      unfolding good_def core_def owners_ok_def by blast
    moreover from this(2) active [OF j] have "w_id v \<noteq> wid" by simp
    ultimately show "\<exists>v \<in> set (q_workers s'). w_id v = j_worker j \<and> w_state v \<noteq> WRevoked"
      by (auto simp: tabs'(2) set_upd_where image_iff)
  qed
  show "queue_inv s'"
    using jobs counters owners tabs'(1) by (auto simp: queue_inv_def good_def core_def tables_ok_def)
  have "advance op s ?s1" by simp
  then show "advance op s s'" using tabs'(3) by (rule advance_trans)
  have "wid \<noteq> []" using row_of_in [OF w] good by (auto simp: good_def)
  then show "n = active_of wid (q_jobs s)"
    unfolding res(4) active_of_def count_where_def by (intro arg_cong [of _ _ length] filter_cong) auto
  have "worker_row wid ?s1 = Some (?g w)"
    using w key_stable.row_of_upd_key [of w_id ?g wid wid "q_workers s"] by (simp add: key_stable_def)
  then show "\<exists>w. worker_row wid s' = Some w \<and> w_state w = WRevoked" by (simp add: tabs'(2))
qed

lemma safe_revoke: "safe op s (snd (revoke_worker env wid s))"
proof (cases "revoke_worker env wid s")
  case (Pair r s')
  show ?thesis
  proof (cases r)
    case (Inl e)
    with Pair have "s' = s" unfolding revoke_worker_def by simp
    with Pair show ?thesis by simp
  next
    case (Inr n)
    with Pair revoke_worker_Inr(1) [of env wid s n s'] revoke_worker_Inr(2) [of env wid s n s' op]
    show ?thesis by (auto simp: safe_def moves_def queue_inv_def)
  qed
qed

section \<open>Start-up\<close>

lemma safe_lease_clock: "safe op s (snd (initialize_lease_clock domain ticks epoch clock s))"
proof -
  let ?f = "\<lambda>j. j\<lparr>j_expires := 1\<rparr>"
  let ?jobs = "upd_where (\<lambda>j. active_state (j_state j)) ?f (q_jobs s)"
  have keys: "map j_id ?jobs = map j_id (q_jobs s)" "map j_idem ?jobs = map j_idem (q_jobs s)"
    by (rule map_other_upd, simp)+
  have act: "active_of k ?jobs = active_of k (q_jobs s)" for k
    unfolding active_of_def by (rule count_where_upd_same) simp
  have "safe op s (s\<lparr>q_jobs := ?jobs, q_anchor := a\<rparr>)" for a
    unfolding safe_def moves_def
  proof (intro impI conjI)
    assume g: "good [] s"
    have "job_wf j" if "j \<in> set ?jobs" for j
      using that good_jobs(3) [OF g] by (auto simp: set_upd_where job_wf_def effect_may_have_run_def)
    then have "jobs_ok ?jobs" using g by (simp add: jobs_ok_def keys good_def core_def)
    moreover have "owners_ok ?jobs (q_workers s)" "counters_ok [] ?jobs (q_workers s)"
      using g by (auto simp: good_def core_def owners_ok_def counters_ok_def set_upd_where act)
    moreover have "fences_ok ?jobs (q_fences s)"
      using g by (auto simp: good_def fences_ok_def set_upd_where same_job_identity_def)
    ultimately show "good [] (s\<lparr>q_jobs := ?jobs, q_anchor := a\<rparr>)"
      using g by (simp add: good_def core_def)
    show "advance op s (s\<lparr>q_jobs := ?jobs, q_anchor := a\<rparr>)"
      by (rule advance_upd [where p = "\<lambda>j. active_state (j_state j)" and f = ?f])
        (auto simp: evolve_def same_columns_def kept_def dest: active_not_terminal)
  qed
  then show ?thesis by (auto simp: initialize_lease_clock_def split: option.splits)
qed

lemma backfill_loop:
  assumes "efold store_terminal_fence rows s = Inr s'" and "set rows \<subseteq> set (q_jobs s)"
  shows "moves op m s m s'"
  using assms
proof (induction rows arbitrary: s)
  case (Cons row rows)
  then obtain s1 where step: "store_terminal_fence row s = Inr s1"
    and rest: "efold store_terminal_fence rows s1 = Inr s'" by auto
  have "moves op m s m s1" using Cons.prems(2) step by (intro moves_store) auto
  also have "moves op m s1 m s'"
    using Cons.IH [OF rest] Cons.prems(2) store_terminal_fence_sel(1) [OF step] by simp
  finally show ?case .
qed simp

lemma safe_backfill: "safe_body op backfill_fences"
  by (rule safe_bodyI) (auto simp: backfill_fences_def safe_def intro: backfill_loop)

lemma safe_flag [simp]: "safe op s (s\<lparr>q_backfilled := b\<rparr>)"
  unfolding safe_def by (rule moves_same) simp_all

end
