(* ===== verification/QueueHistory.thy ===== *)
theory QueueHistory
  imports QueueRepair
begin

text \<open>
  Histories of the queue: the operations as data, the state each leads to, and what holds along every
  sequence of them. A sequence may interleave the calls of any number of workers and operators: each
  operation is one transaction, or a chain of transactions that are operations of their own (the sweeps
  before leasing, which a busy scan lock skips).
\<close>

datatype queue_op =
    OpEnqueue job_request
  | OpLeaseNext scan pystr int
  | OpLeaseMany scan pystr int int
  | OpStart pystr pystr pystr
  | OpRenew pystr pystr pystr int
  | OpHandover pystr pystr pystr pystr
  | OpCheckpoint pystr pystr pystr json
  | OpSideEffect pystr pystr pystr
  | OpComplete pystr pystr pystr json
  | OpFail pystr pystr pystr pystr bool
  | OpRetryReview pystr
  | OpRecoverExpired rat "rat option"
  | OpRecoverStale "rat option"
  | OpReconcile
  | OpRegister bool pystr pystr json pystr int int pystr int pystr json
  | OpHeartbeat pystr "json option"
  | OpDrain pystr bool
  | OpRevoke pystr
  | OpRetain int int
  | OpInitialize pystr rat rat rat stable_clock

definition run_op :: "env \<Rightarrow> queue_op \<Rightarrow> qstate \<Rightarrow> qstate" where
  "run_op env oper s = (case oper of
     OpEnqueue r \<Rightarrow> snd (enqueue env r s)
   | OpLeaseNext sc w n \<Rightarrow> snd (lease_next_storage env sc w n s)
   | OpLeaseMany sc w m n \<Rightarrow> snd (lease_many_storage env sc w m n s)
   | OpStart k w t \<Rightarrow> snd (start_job env k w t s)
   | OpRenew k w t n \<Rightarrow> snd (renew_lease env k w t n s)
   | OpHandover k w t reason \<Rightarrow> snd (handover_lease env k w t reason s)
   | OpCheckpoint k w t v \<Rightarrow> snd (checkpoint env k w t v s)
   | OpSideEffect k w t \<Rightarrow> snd (mark_side_effect_started env k w t s)
   | OpComplete k w t v \<Rightarrow> snd (complete env k w t v s)
   | OpFail k w t code again \<Rightarrow> snd (fail_job env k w t code again s)
   | OpRetryReview k \<Rightarrow> snd (retry_review_required env k s)
   | OpRecoverExpired ticks now \<Rightarrow> snd (recover_expired_leases env ticks now s)
   | OpRecoverStale now \<Rightarrow> snd (recover_stale_worker_leases env now s)
   | OpReconcile \<Rightarrow> snd (reconcile_durable_state env s)
   | OpRegister cap w key res disp lo hi version slots alg meta \<Rightarrow>
       snd (register_worker env cap w key res disp lo hi version slots alg meta s)
   | OpHeartbeat w res \<Rightarrow> snd (heartbeat env w res s)
   | OpDrain w drain \<Rightarrow> snd (set_worker_drain env w drain s)
   | OpRevoke w \<Rightarrow> snd (revoke_worker env w s)
   | OpRetain a b \<Rightarrow> snd (retain_terminal_jobs a b s)
   | OpInitialize domain ticks epoch scan_ticks clock \<Rightarrow>
       snd (initialize env domain ticks epoch scan_ticks clock s))"

definition operator_retry :: "queue_op \<Rightarrow> bool" where
  "operator_retry oper \<longleftrightarrow> (\<exists>k. oper = OpRetryReview k)"

text \<open>\<open>history op s s'\<close>: operations lead from \<open>s\<close> to \<open>s'\<close>; operator retries among them only if \<open>op\<close>.\<close>

inductive history :: "bool \<Rightarrow> qstate \<Rightarrow> qstate \<Rightarrow> bool" for op s where
  start: "history op s s"
| step: "history op s t \<Longrightarrow> env_ok env \<Longrightarrow> operator_retry oper \<longrightarrow> op \<Longrightarrow> history op s (run_op env oper t)"

definition reachable :: "qstate \<Rightarrow> bool" where
  "reachable s \<longleftrightarrow> (\<exists>grace. history True (empty_queue grace) s)"

section \<open>Every operation is safe\<close>

lemma safe_lease_next: "env_ok env \<Longrightarrow> safe op s (snd (lease_next_storage env sc w n s))"
  using safe_recover_if_due [of op s env "scan_t0 sc" "scan_t1 sc" "scan_t2 sc" "scan_busy sc"]
    safe_transact [OF safe_lease_next_body [OF env_ok_shift clamp_lease_pos]]
  by (auto simp: lease_next_storage_def split: sum.splits prod.splits intro: safe_trans)

lemma safe_lease_many: "env_ok env \<Longrightarrow> safe op s (snd (lease_many_storage env sc w m n s))"
  using safe_recover_if_due [of op s env "scan_t0 sc" "scan_t1 sc" "scan_t2 sc" "scan_busy sc"]
    safe_transact [OF safe_lease_many_body [OF env_ok_shift clamp_lease_pos]]
  by (auto simp: lease_many_storage_def split: sum.splits prod.splits intro: safe_trans)

lemma safe_initialize: "safe op s (snd (initialize env domain ticks epoch scan_ticks clock s))"
proof -
  obtain c s0 where clock: "initialize_lease_clock domain ticks epoch clock s = (c, s0)" by fastforce
  obtain r1 s1 where fill: "transact backfill_fences (s0\<lparr>q_backfilled := False\<rparr>) = (r1, s1)" by fastforce
  obtain r2 s2 where rec: "reconcile_durable_state env (s1\<lparr>q_backfilled := True\<rparr>) = (r2, s2)" by fastforce
  obtain r3 s3 where stale: "recover_stale_worker_leases (shift_env 1 env) None s2 = (r3, s3)" by fastforce
  obtain r4 s4 where exp: "recover_expired_leases (shift_env 2 env) scan_ticks None s3 = (r4, s4)" by fastforce
  have "safe op s s0" using safe_lease_clock [of op s domain ticks epoch clock] by (simp add: clock)
  then have s0: "safe op s (s0\<lparr>q_backfilled := False\<rparr>)" using safe_flag by (rule safe_trans)
  with safe_transact [OF safe_backfill, of op "s0\<lparr>q_backfilled := False\<rparr>"] have s1: "safe op s s1"
    unfolding fill by (auto intro: safe_trans)
  then have "safe op s (s1\<lparr>q_backfilled := True\<rparr>)" using safe_flag by (rule safe_trans)
  with safe_reconcile [of op "s1\<lparr>q_backfilled := True\<rparr>" env] have s2: "safe op s s2"
    unfolding rec by (auto intro: safe_trans)
  with safe_recover_stale [of op s2 "shift_env 1 env" None] have s3: "safe op s s3"
    unfolding stale by (auto intro: safe_trans)
  with safe_recover_expired [of op s3 "shift_env 2 env" scan_ticks None] have s4: "safe op s s4"
    unfolding exp by (auto intro: safe_trans)
  show ?thesis
    unfolding initialize_def clock fill Let_def prod.case
    using s1 s2 s3 s4 rec stale exp by (auto split: sum.splits)
qed

lemma safe_run_op:
  assumes "env_ok env" shows "safe (operator_retry oper) s (run_op env oper s)"
  by (cases oper)
    (simp_all add: run_op_def operator_retry_def assms safe_enqueue safe_lease_next safe_lease_many safe_start
      safe_renew safe_handover safe_checkpoint safe_side_effect safe_complete safe_fail safe_retry
      safe_recover_expired safe_recover_stale safe_reconcile safe_register safe_heartbeat safe_drain
      safe_revoke safe_retain safe_initialize)

lemma history_safe: "history op s s' \<Longrightarrow> safe op s s'"
proof (induction rule: history.induct)
  case (step t env oper)
  have "safe op t (run_op env oper t)"
    using safe_run_op [OF step.hyps(2), of oper t] step.hyps(3) safe_weaken [of t "run_op env oper t" op]
    by (cases "operator_retry oper") auto
  with step.IH show ?case by (rule safe_trans)
qed simp

lemma history_keeps: "history op s s' \<Longrightarrow> queue_inv s \<Longrightarrow> queue_inv s' \<and> advance op s s'"
  using history_safe by (simp add: safe_def moves_def queue_inv_def)

lemma empty_queue_inv: "queue_inv (empty_queue grace)" "journal_ok (empty_queue grace)"
  by (simp_all add: queue_inv_def good_def core_def jobs_ok_def counters_ok_def owners_ok_def fences_ok_def
      journal_ok_def empty_queue_def)

lemma reachable_inv: "reachable s \<Longrightarrow> queue_inv s" "reachable s \<Longrightarrow> journal_ok s"
  unfolding reachable_def using history_keeps empty_queue_inv by (auto simp: advance_def)

lemma reachable_run:
  "reachable s \<Longrightarrow> env_ok env \<Longrightarrow> reachable (run_op env oper s)"
  unfolding reachable_def by (blast intro: history.step)

end
