(* ===== verification/QueueProperties.thy ===== *)
theory QueueProperties
  imports QueueHistory
begin

text \<open>
  What the durable queue promises, over the definitions of its operations: consistency of jobs, leases and
  counters along every history, fencing of stale workers, at-most-once execution of non-idempotent effects,
  idempotent admission and completion, and what each recovery pass leaves behind. The examples at the top
  are the concrete states the witnesses use.
\<close>

section \<open>Examples\<close>

definition ex_env :: env where
  "ex_env = \<lparr>clk = (\<lambda>_. 1000), utc = ''u'', tok = (\<lambda>_. ''t''), fresh_id = ''n'', fresh_trace = ''a'',
     fresh_span = ''b'', sha256 = (\<lambda>t. CHR ''h'' # t), key_ok = (\<lambda>_ _. True)\<rparr>"

definition ex_job :: "pystr \<Rightarrow> job" where
  "ex_job k = \<lparr>j_id = k, j_kind = ''mail'', j_state = Queued, j_payload = ''{}'', j_payload_sha = ''h{}'',
     j_traceparent = [], j_tracestate = [], j_resource = ''r'', j_permission = ''p'', j_idem = k,
     j_mode = NonIdempotent, j_effect = EffNone, j_attempt = 0, j_max = 2, j_protocol = 2, j_priority = 0,
     j_worker = [], j_token = [], j_expires = 0, j_checkpoint = ''{}'', j_checkpoint_seq = 0, j_result = ''{}'',
     j_result_sha = [], j_term_worker = [], j_term_token = [], j_term_at = [], j_error = [], j_created = ''c'',
     j_updated = ''c''\<rparr>"

text \<open>The job \<open>k\<close> leased to the worker \<open>w\<close> under the token \<open>t\<close>, its effect in the given state.\<close>

definition ex_held :: "pystr \<Rightarrow> side_effect \<Rightarrow> job" where
  "ex_held k eff = (ex_job k)\<lparr>j_state := Running, j_effect := eff, j_attempt := 1, j_worker := ''w'',
     j_token := ''ht'', j_expires := 1050\<rparr>"

definition ex_key :: pystr where
  "ex_key = b64u (replicate 32 0)"

definition ex_worker :: "int \<Rightarrow> worker" where
  "ex_worker n = \<lparr>w_id = ''w'', w_display = ''w'', w_key = ex_key, w_algorithm = ''ED25519'', w_metadata = ''{}'',
     w_pmin = 1, w_pmax = 2, w_negotiated = 2, w_compat = ''1'', w_resources = ''{}'', w_slots = 2, w_leases = n,
     w_state = WActive, w_created = ''c'', w_updated = ''c'', w_heartbeat = 1000, w_revoked_at = []\<rparr>"

definition ex_queue :: "job list \<Rightarrow> int \<Rightarrow> qstate" where
  "ex_queue jobs n = (empty_queue 5)\<lparr>q_jobs := jobs, q_workers := [ex_worker n]\<rparr>"

lemmas ex_defs = ex_env_def ex_job_def ex_held_def ex_worker_def ex_queue_def empty_queue_def

lemma ex_env_ok: "env_ok ex_env"
  by (simp add: env_ok_def ex_env_def)

lemmas inv_defs = queue_inv_def good_def core_def jobs_ok_def counters_ok_def owners_ok_def fences_ok_def
  job_wf_def effect_may_have_run_def active_of_def

lemma ex_queue_inv: "queue_inv (ex_queue [ex_held ''a'' EffStarted, ex_job ''b''] 1)"
  by (simp add: inv_defs ex_defs)

section \<open>Consistency\<close>

definition slot_bound :: "violation \<Rightarrow> bool" where
  "slot_bound v \<longleftrightarrow> (case v of SlotBound _ n \<Rightarrow> 0 \<le> n | _ \<Rightarrow> False)"

text \<open>C1: Whatever operations the queue has run, \<open>invariant_violations\<close> can report nothing but a worker
  that holds more leases than its slots: no active job misses its lease, no inactive one keeps one, and
  every worker's counter is the number of its active jobs.\<close>

theorem reachable_consistent:
  assumes "reachable s"
  shows "filter (\<lambda>v. \<not> slot_bound v) (invariant_violations s) = []"
proof -
  have inv: "jobs_ok (q_jobs s)" "counters_ok [] (q_jobs s) (q_workers s)"
    using reachable_inv(1) [OF assms] by (simp_all add: queue_inv_def good_def core_def)
  then have "job_violations j = []" if "j \<in> set (q_jobs s)" for j
    using that by (auto simp: job_violations_def jobs_ok_def job_wf_def has_lease_def)
  moreover have "slot_bound v" if "w \<in> set (q_workers s)" "v \<in> set (worker_violations (q_jobs s) w)" for v w
    using that inv(2) by (auto simp: worker_violations_def Let_def counters_ok_def slot_bound_def split: if_splits)
  ultimately show ?thesis by (auto simp: invariant_violations_def filter_empty_conv)
qed

theorem reachable_consistent_witness:
  "filter (\<lambda>v. \<not> slot_bound v) (invariant_violations
     (run_op ex_env (OpRetain 10 10) (run_op ex_env (OpRevoke ''w'')
       (run_op ex_env (OpRegister False ''w'' ''key'' (JObj []) [] 1 2 ''1'' 2 ''ed25519'' (JObj [])) (empty_queue 5))))) = []"
  by (rule reachable_consistent, intro reachable_run ex_env_ok) (auto simp: reachable_def intro: history.start)

text \<open>A worker that registers again with fewer slots than it holds leases is accepted, and the slot bound
  that \<open>invariant_violations\<close> checks is broken from then on: \<open>register_worker\<close> stores the new bound without
  looking at \<open>active_leases\<close>.\<close>

lemma reregister_breaks_slot_bound:
  assumes "register_worker env cap wid key res disp lo hi version slots alg meta s = (Inr w', s')"
    and "clean_token wid 160 = Inr k" and "worker_row k s = Some w"
    and "max 1 (min MAX_WORKER_SLOTS slots) < w_leases w"
  shows "SlotBound k (w_leases w) \<in> set (invariant_violations s')"
proof -
  from assms(1) obtain x where checks: "register_checks env wid key res lo hi alg meta = Inr x"
    by (cases "register_checks env wid key res lo hi alg meta") (simp_all add: register_worker_def)
  obtain a n rj mj where x: "x = (k, a, n, rj, mj)"
    using register_checks_id [of env wid key res lo hi alg meta "fst x" "snd x"] checks assms(2)
    by (cases x) auto
  from assms(1) obtain f where body: "register_body cap f s = Inr (w', s')"
    and f: "w_id f = k" "w_slots f = max 1 (min MAX_WORKER_SLOTS slots)"
    by (auto simp: register_worker_def checks x Let_def)
  from body show ?thesis
  proof (cases rule: register_body_cases)
    case new
    with assms(3) f show ?thesis by simp
  next
    case (again v g)
    with assms(3) f have v: "v = w" by simp
    from row_of_in [OF assms(3)] again(2) f have w: "g w \<in> set (q_workers s')" "w_id w = k"
      by (auto simp: set_upd_where)
    have "SlotBound (w_id (g w)) (w_leases (g w)) \<in> set (worker_violations (q_jobs s') (g w))"
      using again(7,9) [of w] f assms(4) by (simp add: worker_violations_def Let_def)
    with w again(6,7) [of w] show ?thesis by (auto simp: invariant_violations_def)
  qed
qed

lemma ex_algorithm: "normalize_algorithm ''ED25519'' = Inr ED25519"
proof -
  have "normalize_algorithm ED25519 = Inr ED25519"
    by (rule normalize_algorithm_idem [of "[]"]) (simp add: normalize_algorithm_def upper_plain_id [OF algorithms_plain(1)], simp add: ED25519_def)
  then show ?thesis by (simp add: ED25519_def)
qed

lemma ex_checks:
  "register_checks ex_env ''w'' ex_key (JObj []) 1 2 ''ED25519'' (JObj []) = Inr (''w'', ED25519, 2, ''{}'', ''{}'')"
proof -
  have "normalize_algorithm ED25519 = Inr ED25519" using ex_algorithm by (simp add: ED25519_def)
  then have "validate_public_key (key_ok ex_env) ED25519 ex_key = Inr (replicate 32 0)"
    by (simp add: validate_public_key_def ex_key_def b64u_roundtrip ex_env_def)
  moreover have "clean_token ''w'' 160 = Inr ''w''" by code_simp
  moreover have "bounded_json (sha256 ex_env) (JObj []) n = (if n < 2 then Inl (dist_fail ''DISTRIBUTED_PAYLOAD_TOO_LARGE'')
      else Inr (''{}'', ''h{}''))" for n
    by (auto simp: bounded_json_def Let_def ex_env_def ord_c_def)
  moreover have "negotiate_protocol 1 2 = Inr 2" by code_simp
  ultimately show ?thesis
    by (simp add: register_checks_def ex_algorithm limit_defs)
qed

lemma reregister_breaks_slot_bound_witness:
  "SlotBound ''w'' 2 \<in> set (invariant_violations (snd (register_worker ex_env False ''w'' ex_key (JObj []) [] 1 2
     ''1'' 1 ''ED25519'' (JObj []) (ex_queue [ex_held ''a'' EffNone, ex_held ''b'' EffNone] 2))))"
proof -
  let ?s = "ex_queue [ex_held ''a'' EffNone, ex_held ''b'' EffNone] 2"
  let ?r = "register_worker ex_env False ''w'' ex_key (JObj []) [] 1 2 ''1'' 1 ''ED25519'' (JObj []) ?s"
  have "isl (fst ?r) = False"
    by (simp add: register_worker_def ex_checks transact_def register_body_def Let_def ex_queue_def ex_worker_def
        ex_algorithm ED25519_def)
  then obtain w' s' where r: "?r = (Inr w', s')" by (cases ?r; cases "fst ?r") auto
  have "clean_token ''w'' 160 = Inr ''w''" by code_simp
  from reregister_breaks_slot_bound [OF r this, of "ex_worker 2"]
  have "SlotBound ''w'' 2 \<in> set (invariant_violations s')"
    by (simp add: ex_queue_def ex_worker_def limit_defs)
  then show ?thesis unfolding r by simp
qed

section \<open>At most once\<close>

text \<open>C2: Once the effect of a non-idempotent job has started, no history without an operator's retry runs it
  again: as long as a row has its key it is the same job, its attempt number is the one that started the
  effect, and it is not queued; if the row is gone, its fence refuses the key.\<close>

theorem started_effect_not_rerun:
  assumes "queue_inv s" and "history False s s'" and "j \<in> set (q_jobs s)" and "kept j"
  shows "(\<forall>i \<in> set (q_jobs s'). j_idem i = j_idem j \<longrightarrow>
            j_id i = j_id j \<and> j_attempt i = j_attempt j \<and> kept i \<and> j_state i \<noteq> Queued) \<and>
         (j_idem j \<notin> j_idem ` set (q_jobs s') \<longrightarrow> fenced j (q_fences s'))"
proof -
  have inv: "queue_inv s'" and adv: "advance False s s'"
    using history_keeps [OF assms(2,1)] by simp_all
  have jobs: "jobs_ok (q_jobs s')" using inv by (simp add: queue_inv_def good_def core_def)
  from adv assms(3) consider (row) j' where "j' \<in> set (q_jobs s')" "evolve False j j'"
    | (gone) "j_mode j = NonIdempotent \<longrightarrow> settled j s'"
    unfolding advance_def keeps_rows_def by blast
  then show ?thesis
  proof cases
    case row
    then have j': "same_columns j' j" "kept j'" "j_attempt j' = j_attempt j"
      using assms(4) by (auto simp: evolve_def)
    have same: "i = j'" if "i \<in> set (q_jobs s')" "j_idem i = j_idem j" for i
    proof -
      have "inj_on j_idem (set (q_jobs s'))" using jobs by (simp add: jobs_ok_def distinct_map)
      moreover have "j_idem i = j_idem j'" using that(2) j'(1) by (simp add: same_columns_def)
      ultimately show ?thesis using that(1) row(1) by (rule inj_onD)
    qed
    have "job_wf j'" using row(1) jobs by (simp add: jobs_ok_def)
    then have "j_state j' \<noteq> Queued"
      using j'(2) by (cases "j_effect j'") (auto simp: kept_def job_wf_def effect_may_have_run_def)
    with j' have "j_id j' = j_id j \<and> j_attempt j' = j_attempt j \<and> kept j' \<and> j_state j' \<noteq> Queued"
      by (simp add: same_columns_def)
    with same have "\<forall>i \<in> set (q_jobs s'). j_idem i = j_idem j \<longrightarrow>
        j_id i = j_id j \<and> j_attempt i = j_attempt j \<and> kept i \<and> j_state i \<noteq> Queued" by metis
    moreover have "j_idem j \<in> j_idem ` set (q_jobs s')"
      using row(1) j'(1) by (metis image_eqI same_columns_def)
    ultimately show ?thesis by blast
  next
    case gone
    with assms(4) show ?thesis by (auto simp: kept_def settled_def image_iff)
  qed
qed

theorem started_effect_not_rerun_witness:
  "let s = ex_queue [ex_held ''a'' EffStarted, ex_job ''b''] 1; j = ex_held ''a'' EffStarted;
       s' = run_op ex_env (OpLeaseNext \<lparr>scan_t0 = 9, scan_t1 = 9, scan_t2 = 9, scan_busy = False\<rparr> ''w'' 60)
              (run_op ex_env (OpRevoke ''w'') s)
   in (\<forall>i \<in> set (q_jobs s'). j_idem i = j_idem j \<longrightarrow>
            j_id i = j_id j \<and> j_attempt i = j_attempt j \<and> kept i \<and> j_state i \<noteq> Queued) \<and>
         (j_idem j \<notin> j_idem ` set (q_jobs s') \<longrightarrow> fenced j (q_fences s'))"
  unfolding Let_def
proof (rule started_effect_not_rerun [OF ex_queue_inv])
  show "kept (ex_held ''a'' EffStarted)" by (simp add: kept_def ex_defs)
qed (auto simp: ex_queue_def operator_retry_def intro!: history.intros ex_env_ok)

text \<open>C22: A key once used for a non-idempotent job names that job for good: whatever runs afterwards, retention
  included, the key's holder has the same identity, so an admission under the key finds it.\<close>

theorem non_idempotent_key_held:
  assumes "queue_inv s" and "history op s s'" and "holder_of_key key s = Some (k, kind, sha, res, perm, NonIdempotent)"
  shows "holder_of_key key s' = Some (k, kind, sha, res, perm, NonIdempotent)"
proof -
  let ?h = "(k, kind, sha, res, perm, NonIdempotent)"
  have inv: "queue_inv s'" and adv: "keeps_rows op s s'" "keeps_fences s s'" "new_rows s s'"
    using history_keeps [OF assms(2,1)] by (simp_all add: advance_def)
  have idem: "distinct (map j_idem (q_jobs s'))" and fences: "distinct (map f_idem (q_fences s'))"
    using inv by (simp_all add: queue_inv_def good_def core_def jobs_ok_def fences_ok_def)
  have held: ?thesis if "settled j s'" "j_idem j = key" "identity_of_job j = ?h" for j
  proof -
    from that obtain f where f: "f \<in> set (q_fences s')" "f_idem f = key" "same_job_identity f j"
      by (auto simp: settled_def fenced_def)
    then have "fence_row key s' = Some f" using fences by (simp add: row_of_distinct)
    moreover have "identity_of_fence f = ?h"
      using f(3) that(3) by (auto simp: same_job_identity_def identity_of_fence_def identity_of_job_def)
    moreover have "row_of j_idem key (q_jobs s') = None"
      using that(1,2) by (auto simp: settled_def row_of_None)
    ultimately show ?thesis by (simp add: holder_of_key_def)
  qed
  show ?thesis
  proof (cases "row_of j_idem key (q_jobs s)")
    case (Some j)
    with assms(3) have j: "j \<in> set (q_jobs s)" "j_idem j = key" "identity_of_job j = ?h"
      by (auto simp: holder_of_key_def dest: row_of_in)
    with adv(1) consider (row) j' where "j' \<in> set (q_jobs s')" "evolve op j j'" | (gone) "settled j s'"
      unfolding keeps_rows_def identity_of_job_def by auto
    then show ?thesis
    proof cases
      case row
      then have "same_columns j' j" by (simp add: evolve_def)
      with row(1) j idem have "row_of j_idem key (q_jobs s') = Some j'" "identity_of_job j' = ?h"
        by (auto simp: same_columns_def identity_of_job_def intro: row_of_distinct)
      then show ?thesis by (simp add: holder_of_key_def)
    qed (use held j in blast)
  next
    case None
    with assms(3) obtain f where f: "f \<in> set (q_fences s)" "f_idem f = key" "identity_of_fence f = ?h"
      by (auto simp: holder_of_key_def dest: row_of_in)
    then have mode: "f_mode f = NonIdempotent" by (simp add: identity_of_fence_def)
    with f adv(2) obtain g where g: "g \<in> set (q_fences s')" "f_idem g = key" "identity_of_fence g = ?h"
      unfolding keeps_fences_def same_fence_def by metis
    have "key \<notin> j_idem ` set (q_jobs s')"
    proof
      assume "key \<in> j_idem ` set (q_jobs s')"
      then obtain i where "i \<in> set (q_jobs s')" "j_idem i = key" by blast
      with adv(3) f mode obtain i0 where "i0 \<in> set (q_jobs s)" "same_columns i i0"
        unfolding new_rows_def by metis
      with \<open>j_idem i = key\<close> None show False by (auto simp: row_of_None same_columns_def)
    qed
    with g fences show ?thesis by (simp add: holder_of_key_def row_of_None [symmetric] row_of_distinct)
  qed
qed

theorem non_idempotent_key_held_witness:
  "let s = ex_queue [ex_held ''a'' EffStarted, ex_job ''b''] 1 in
   holder_of_key ''a'' (run_op ex_env (OpRetain 0 0) (run_op ex_env (OpRevoke ''w'') s)) =
     Some (''a'', ''mail'', ''h{}'', ''r'', ''p'', NonIdempotent)"
  unfolding Let_def
proof (rule non_idempotent_key_held [OF ex_queue_inv, where op = True])
  show "holder_of_key ''a'' (ex_queue [ex_held ''a'' EffStarted, ex_job ''b''] 1) =
      Some (''a'', ''mail'', ''h{}'', ''r'', ''p'', NonIdempotent)"
    by (simp add: holder_of_key_def identity_of_job_def ex_defs)
qed (intro history.intros ex_env_ok; simp)


definition ex_done :: "pystr \<Rightarrow> job" where
  "ex_done k = (ex_job k)\<lparr>j_state := Completed, j_effect := EffCompleted, j_attempt := 1, j_term_worker := ''w'',
     j_term_token := ''ht'', j_result_sha := ''h{}'', j_term_at := ''u''\<rparr>"

lemma ex_done_inv: "queue_inv (ex_queue [ex_done ''a'', ex_job ''b''] 0)"
  by (simp add: inv_defs ex_defs ex_done_def)


text \<open>The journal of every reachable queue holds only transitions of \<open>_ALLOWED_JOB_TRANSITIONS\<close>, each of a job
  that is there, under distinct ids, and at most 128 events of a job.\<close>

lemma journal_bounded_and_legal:
  assumes "reachable s"
  shows "(\<forall>e \<in> set (q_events s). allowed_transition (ev_from e) (ev_to e) \<and> ev_job e \<in> j_id ` set (q_jobs s)) \<and>
    distinct (map ev_id (q_events s)) \<and> count_where (\<lambda>e. ev_job e = k) (q_events s) \<le> 128"
  using reachable_inv(2) [OF assms] by (auto simp: journal_ok_def limit_defs)

lemma journal_bounded_and_legal_witness:
  "let s = run_op ex_env (OpInitialize ''boot'' 10 1000 10 (clock_anchored 1000 0))
             (run_op ex_env (OpRegister False ''w'' ex_key (JObj []) [] 1 2 ''1'' 2 ''ED25519'' (JObj [])) (empty_queue 5))
   in (\<forall>e \<in> set (q_events s). allowed_transition (ev_from e) (ev_to e) \<and> ev_job e \<in> j_id ` set (q_jobs s)) \<and>
    distinct (map ev_id (q_events s)) \<and> count_where (\<lambda>e. ev_job e = ''a'') (q_events s) \<le> 128"
  unfolding Let_def
  by (rule journal_bounded_and_legal, intro reachable_run ex_env_ok) (auto simp: reachable_def intro: history.start)

section \<open>Fencing\<close>

text \<open>The lease of a row is the caller's and is alive at the reading \<open>now\<close>.\<close>

definition holds_lease :: "env \<Rightarrow> rat \<Rightarrow> pystr \<Rightarrow> pystr \<Rightarrow> job \<Rightarrow> bool" where
  "holds_lease env now wid token row \<longleftrightarrow> active_state (j_state row) \<and> j_worker row = wid \<and>
     j_token row = sha256 env token \<and> now < j_expires row"



end
