(* ===== verification/QueueContracts.thy ===== *)
theory QueueContracts
  imports QueueProperties
begin

text \<open>
  The contracts of the single operations: which job is leased and to whom, what a recovery pass leaves,
  when an admission or a completion is a repetition, and the storage circuit breaker.
\<close>

section \<open>Leasing\<close>

lemma hd_sort_key:
  assumes "sort_key f xs = x # r" shows "x \<in> set xs" "y \<in> set xs \<Longrightarrow> f x \<le> f y"
proof -
  have "set (sort_key f xs) = set xs" "sorted (map f (sort_key f xs))" by simp_all
  with assms show "x \<in> set xs" "y \<in> set xs \<Longrightarrow> f x \<le> f y" by auto
qed

definition eligible :: "worker \<Rightarrow> job \<Rightarrow> bool" where
  "eligible w j \<longleftrightarrow> j_state j = Queued \<and> w_pmin w \<le> j_protocol j \<and> j_protocol j \<le> w_pmax w"

lemma lease_candidate_Some:
  assumes "lease_candidate lo hi jobs = Some j"
  shows "j \<in> set jobs" "j_state j = Queued" "lo \<le> j_protocol j" "j_protocol j \<le> hi"
    "i \<in> set jobs \<Longrightarrow> j_state i = Queued \<Longrightarrow> lo \<le> j_protocol i \<Longrightarrow> j_protocol i \<le> hi \<Longrightarrow>
       (- j_priority j, j_created j) \<le> (- j_priority i, j_created i)"
proof -
  from assms obtain r where r: "sort_key (\<lambda>j. (- j_priority j, j_created j))
      (filter (\<lambda>j. j_state j = Queued \<and> lo \<le> j_protocol j \<and> j_protocol j \<le> hi) jobs) = j # r"
    by (auto simp: lease_candidate_def split: list.splits)
  from hd_sort_key(1) [OF r] show "j \<in> set jobs" "j_state j = Queued" "lo \<le> j_protocol j" "j_protocol j \<le> hi"
    by simp_all
  show "(- j_priority j, j_created j) \<le> (- j_priority i, j_created i)"
    if "i \<in> set jobs" "j_state i = Queued" "lo \<le> j_protocol i" "j_protocol i \<le> hi"
    using hd_sort_key(2) [OF r, of i] that by simp
qed

text \<open>C26: A granted lease is the best the worker may have: its job was queued, speaks a protocol the worker
  speaks, and no eligible job has a higher priority or, at the same priority, an earlier creation time;
  the worker was active with an open slot; afterwards the row is leased to this worker under the digest
  of the new token with one attempt more, the counter is one more, and no other row has changed.\<close>

theorem lease_next_grants_best:
  assumes "lease_next_body env wid duration s = Inr (Some l, s')" and "queue_inv s"
  shows "\<exists>w j. worker_row wid s = Some w \<and> w_state w = WActive \<and> w_leases w < w_slots w \<and>
    job_row (l_job l) s = Some j \<and> eligible w j \<and>
    (\<forall>i \<in> set (q_jobs s). eligible w i \<longrightarrow>
       j_priority i < j_priority j \<or> j_priority i = j_priority j \<and> j_created j \<le> j_created i) \<and>
    (\<forall>k. job_row k s' = (if k = l_job l then Some (grant_lease env wid (sha256 env (l_token l)) (l_expires l) j)
                         else job_row k s)) \<and>
    (\<exists>v. worker_row wid s' = Some v \<and> w_leases v = w_leases w + 1)"
proof -
  have g: "good [] s" using assms(2) by (simp add: queue_inv_def)
  from assms(1) obtain w row grant where w: "worker_row wid s = Some w"
    and cand: "lease_candidate (w_pmin w) (w_pmax w) (q_jobs s) = Some row"
    and grant: "grant_candidate env 0 wid duration [] row s = Inr grant"
    and res: "(case grant of Granted l s' \<Rightarrow> Inr (Some l, s') | _ \<Rightarrow> Inr (None, s)) = (Inr (Some l, s') :: exc + _)"
    by (auto simp: lease_next_body_def split: option.splits if_splits)
  from res have "grant = Granted l s'" by (cases grant) simp_all
  with grant have granted: "grant_candidate env 0 wid duration [] row s = Inr (Granted l s')" by simp
  obtain j v where j: "job_row (l_job l) s = Some j" "j_state j = Queued" "l_job l = j_id row"
    and v: "worker_row wid s = Some v" "slot_open wid v"
      "worker_row wid s' = Some (claim_slot env (clk env (2 * 0 + 1)) v)"
    and rows: "\<And>k. job_row k s' = (if k = l_job l then
        Some (grant_lease env wid (sha256 env (l_token l)) (l_expires l) j) else job_row k s)"
    by (rule grant_effect [OF granted g]) blast
  note best = lease_candidate_Some [OF cand]
  have jr: "j = row" using j(1,3) best(1) row_of_distinct [OF good_jobs(1) [OF g]] by fastforce
  have "eligible w j" using best(2-4) by (simp add: eligible_def jr)
  moreover have "j_priority i < j_priority j \<or> j_priority i = j_priority j \<and> j_created j \<le> j_created i"
    if "i \<in> set (q_jobs s)" "eligible w i" for i
    using best(5) [of i] that by (auto simp: eligible_def jr less_eq_prod_def)
  moreover have "w_state w = WActive" "w_leases w < w_slots w" using v(1,2) w by (auto simp: slot_open_def)
  moreover have "\<exists>u. worker_row wid s' = Some u \<and> w_leases u = w_leases w + 1"
    using v(1,3) w by (simp add: claim_slot_def)
  ultimately show ?thesis using w j(1) rows by blast
qed

lemma ex_lease_next:
  obtains l s' where "lease_next_body ex_env ''w'' 60 (ex_queue [ex_job ''a'', ex_job ''b''] 0) = Inr (Some l, s')"
    "l_job l = ''a''"
proof -
  have "(case lease_next_body ex_env ''w'' 60 (ex_queue [ex_job ''a'', ex_job ''b''] 0) of
      Inr (Some l, _) \<Rightarrow> l_job l = ''a'' | _ \<Rightarrow> False)"
    by code_simp
  then show ?thesis using that by (auto split: sum.splits option.splits)
qed

theorem lease_next_grants_best_witness:
  "\<exists>l s' j. lease_next_body ex_env ''w'' 60 (ex_queue [ex_job ''a'', ex_job ''b''] 0) = Inr (Some l, s') \<and>
     job_row (l_job l) s' = Some (grant_lease ex_env ''w'' (sha256 ex_env (l_token l)) (l_expires l) j)"
proof -
  obtain l s' where l: "lease_next_body ex_env ''w'' 60 (ex_queue [ex_job ''a'', ex_job ''b''] 0) = Inr (Some l, s')"
    by (rule ex_lease_next)
  have "queue_inv (ex_queue [ex_job ''a'', ex_job ''b''] 0)" by (simp add: inv_defs ex_defs)
  from lease_next_grants_best [OF l this] l show ?thesis by auto
qed

lemma lease_rounds_batch:
  assumes "lease_rounds env i n wid duration lo hi s = Inr (Some (ls, s'))" and "good [] s"
    and "env_ok env" and "0 < duration" and "worker_row wid s = Some w" and "w_leases w \<le> w_slots w"
  shows "distinct (map l_job ls) \<and> length ls \<le> n \<and>
    (\<forall>l \<in> set ls. \<exists>j. job_row (l_job l) s = Some j \<and> j_state j = Queued) \<and>
    (\<exists>v. worker_row wid s' = Some v \<and> w_leases v = w_leases w + int (length ls) \<and> w_slots v = w_slots w \<and>
       w_leases v \<le> w_slots v)"
  using assms
proof (induction env i n wid duration lo hi s arbitrary: ls s' w rule: lease_rounds.induct)
  case (2 env i n wid duration lo hi s)
  show ?case
  proof (cases "lease_candidate lo hi (q_jobs s)")
    case None
    with 2 show ?thesis by auto
  next
    case (Some row)
    with "2.prems"(1) obtain g where g: "grant_candidate env i wid duration [(''batch'', JBool True)] row s = Inr g"
      by auto
    show ?thesis
    proof (cases g)
      case NoGrant
      with "2.prems"(1) Some g have "lease_rounds env (Suc i) n wid duration lo hi s = Inr (Some (ls, s'))" by simp
      from "2.IH"(1) [OF Some this "2.prems"(2-6)] show ?thesis by auto
    next
      case SlotLost
      with "2.prems"(1) Some g show ?thesis by simp
    next
      case (Granted l s1)
      with g have granted: "grant_candidate env i wid duration [(''batch'', JBool True)] row s = Inr (Granted l s1)" by simp
      from "2.prems"(1) Some g Granted obtain ls' where ls: "ls = l # ls'"
        and rest: "lease_rounds env (Suc i) n wid duration lo hi s1 = Inr (Some (ls', s'))"
        by (auto split: option.splits prod.splits)
      obtain j v where j: "job_row (l_job l) s = Some j" "j_state j = Queued"
        and v: "worker_row wid s = Some v" "slot_open wid v"
          "worker_row wid s1 = Some (claim_slot env (clk env (2 * i + 1)) v)"
        and rows: "\<And>k. job_row k s1 = (if k = l_job l then
            Some (grant_lease env wid (sha256 env (l_token l)) (l_expires l) j) else job_row k s)"
        by (rule grant_effect [OF granted "2.prems"(2)]) blast
      have good1: "good [] s1"
        using moves_grant [OF granted "2.prems"(3,4)] "2.prems"(2) by (simp add: moves_def)
      have vw: "v = w" using v(1) "2.prems"(5) by simp
      let ?u = "claim_slot env (clk env (2 * i + 1)) w"
      have u: "w_leases ?u = w_leases w + 1" "w_slots ?u = w_slots w" "w_leases ?u \<le> w_slots ?u"
        using v(2) by (simp_all add: claim_slot_def slot_open_def vw)
      have IH: "distinct (map l_job ls')" "length ls' \<le> n"
        "\<forall>l \<in> set ls'. \<exists>j. job_row (l_job l) s1 = Some j \<and> j_state j = Queued"
        "\<exists>x. worker_row wid s' = Some x \<and> w_leases x = w_leases ?u + int (length ls') \<and> w_slots x = w_slots ?u \<and>
           w_leases x \<le> w_slots x"
        using "2.IH"(2) [OF Some rest good1 "2.prems"(3,4) v(3) [unfolded vw] u(3)] by blast+
      have other: "l_job m \<noteq> l_job l \<and> (\<exists>j. job_row (l_job m) s = Some j \<and> j_state j = Queued)"
        if "m \<in> set ls'" for m
      proof -
        from IH(3) that obtain q where "job_row (l_job m) s1 = Some q" "j_state q = Queued" by blast
        moreover from this rows [of "l_job m"] have "l_job m \<noteq> l_job l" by (auto split: if_splits)
        ultimately show ?thesis using rows [of "l_job m"] by simp
      qed
      then have "l_job l \<notin> l_job ` set ls'" by (metis imageE)
      with IH(1,2,4) other j u(1,2) show ?thesis by (auto simp: ls)
    qed
  qed
qed simp

text \<open>A batch of leases names every job once, never exceeds the requested number, and raises the worker's
  counter by its length without passing the worker's slots.\<close>

lemma lease_many_batch:
  assumes "lease_many_body env wid limit duration s = Inr (ls, s')" and "queue_inv s" and "env_ok env"
    and "0 < duration" and "worker_row wid s = Some w"
  shows "distinct (map l_job ls) \<and> int (length ls) \<le> max 0 limit \<and>
    (\<exists>v. worker_row wid s' = Some v \<and> w_leases v = w_leases w + int (length ls) \<and>
       (ls \<noteq> [] \<longrightarrow> w_leases v \<le> w_slots v))"
proof -
  have g: "good [] s" using assms(2) by (simp add: queue_inv_def)
  let ?n = "max 0 (min limit (w_slots w - w_leases w))"
  have "ls = [] \<and> s' = s \<or> \<not> min limit (w_slots w - w_leases w) \<le> 0 \<and>
      lease_rounds env 0 (nat ?n) wid duration (w_pmin w) (w_pmax w) s = Inr (Some (ls, s'))"
  proof (cases "w_state w = WActive \<and> \<not> min limit (w_slots w - w_leases w) \<le> 0")
    case True
    with assms(1,5) obtain res where "lease_rounds env 0 (nat ?n) wid duration (w_pmin w) (w_pmax w) s = Inr res"
      "(case res of None \<Rightarrow> ([], s) | Some x \<Rightarrow> x) = (ls, s')"
      unfolding lease_many_body_def Let_def by auto
    with True show ?thesis by (cases res) auto
  next
    case False
    with assms(1,5) show ?thesis unfolding lease_many_body_def Let_def by (auto split: if_splits)
  qed
  then consider (none) "ls = []" "s' = s" | (rounds) "0 < w_slots w - w_leases w"
      "lease_rounds env 0 (nat ?n) wid duration (w_pmin w) (w_pmax w) s = Inr (Some (ls, s'))"
    by linarith
  then show ?thesis
  proof cases
    case none
    with assms(5) show ?thesis by simp
  next
    case rounds
    from lease_rounds_batch [OF rounds(2) g assms(3-5)] rounds(1) show ?thesis by auto
  qed
qed

lemma lease_many_batch_witness:
  "\<exists>ls s'. lease_many_body ex_env ''w'' 1 60 (ex_queue [ex_job ''a''] 0) = Inr (ls, s') \<and> ls \<noteq> [] \<and>
     distinct (map l_job ls) \<and> int (length ls) \<le> 1"
proof -
  have "(case lease_many_body ex_env ''w'' 1 60 (ex_queue [ex_job ''a''] 0) of
      Inr (ls, _) \<Rightarrow> ls \<noteq> [] | _ \<Rightarrow> False)"
    by code_simp
  then obtain ls s' where l: "lease_many_body ex_env ''w'' 1 60 (ex_queue [ex_job ''a''] 0) = Inr (ls, s')"
    "ls \<noteq> []" by (auto split: sum.splits prod.splits)
  have "queue_inv (ex_queue [ex_job ''a''] 0)" by (simp add: inv_defs ex_defs)
  from lease_many_batch [OF l(1) this ex_env_ok, of "ex_worker 0"] l show ?thesis
    by (auto simp: ex_queue_def ex_worker_def)
qed

section \<open>Repetitions\<close>

lemma row_of_append_new: "key r \<notin> key ` set tbl \<Longrightarrow> row_of key (key r) (tbl @ [r]) = Some r"
  by (simp add: row_of_append row_of_None [symmetric])

text \<open>The digests agree and the request is the same but for what admission ignores once the key is taken.\<close>

lemma new_job_identity:
  assumes "new_job env r = Inr j" and "sha256 env' = sha256 env"
  shows "\<exists>j'. new_job env' r = Inr j' \<and> j_idem j' = j_idem j \<and>
    snd (identity_of_job j') = snd (identity_of_job j)"
  using assms by (auto simp: new_job_def Let_def identity_of_job_def)

lemma enqueue_holder:
  assumes "enqueue env r s = (Inr i, s')" and "new_job env r = Inr j"
  shows "holder_of_key (j_idem j) s' = Some (i, snd (identity_of_job j))"
proof (cases "holder_of_key (j_idem j) s")
  case (Some h)
  with assms show ?thesis by (auto simp: enqueue_def enqueue_body_def split: prod.splits if_splits)
next
  case None
  with assms obtain s1 where guard: "job_count_guard s = Inr s1" and i: "i = j_id j"
    and rec: "record_event_locked env (j_id j) ''enqueued'' None Queued [] [] (enqueue_details j)
       (s1\<lparr>q_jobs := q_jobs s1 @ [j]\<rparr>) = Inr s'"
    by (auto simp: enqueue_def enqueue_body_def split: if_splits)
  from guard None have "j_idem j \<notin> j_idem ` set (q_jobs s1)"
    by (cases rule: job_count_guard_cases) (auto simp: holder_of_key_None dest!: retain_keys(1))
  then have "row_of j_idem (j_idem j) (q_jobs s') = Some j"
    by (simp add: record_event_sel(1) [OF rec] row_of_append_new)
  then show ?thesis by (simp add: holder_of_key_def identity_of_job_def i)
qed

text \<open>Admission is idempotent: the same request again, whatever identifiers, times and traces are drawn, gets the
  first job's id and changes nothing; a request with the same key and another identity (kind, payload,
  resource, permission or mode) is refused and changes nothing.\<close>

lemma enqueue_idempotent:
  assumes "enqueue env r s = (Inr i, s')" and "sha256 env' = sha256 env"
  shows "enqueue env' r s' = (Inr i, s') \<and>
    (\<forall>q j j'. new_job env r = Inr j \<longrightarrow> new_job env' q = Inr j' \<longrightarrow> j_idem j' = j_idem j \<longrightarrow>
       snd (identity_of_job j') \<noteq> snd (identity_of_job j) \<longrightarrow>
       enqueue env' q s' = (Inl (dist_fail ''DISTRIBUTED_IDEMPOTENCY_COLLISION''), s'))"
proof -
  obtain j where j: "new_job env r = Inr j"
    using assms(1) by (cases "new_job env r") (auto simp: enqueue_def)
  obtain j' where j': "new_job env' r = Inr j'" "j_idem j' = j_idem j"
    "snd (identity_of_job j') = snd (identity_of_job j)"
    using new_job_identity [OF j assms(2)] by blast
  note held = enqueue_holder [OF assms(1) j]
  have "enqueue env' r s' = (Inr i, s')" using held j' by (simp add: enqueue_def enqueue_body_def)
  moreover have "enqueue env' q s' = (Inl (dist_fail ''DISTRIBUTED_IDEMPOTENCY_COLLISION''), s')"
    if "new_job env' q = Inr jq" "j_idem jq = j_idem j" "snd (identity_of_job jq) \<noteq> snd (identity_of_job j)" for q jq
    using held that by (simp add: enqueue_def enqueue_body_def)
  ultimately show ?thesis using j by auto
qed

definition ex_request :: job_request where
  "ex_request = \<lparr>r_kind = ''mail'', r_payload = JObj [], r_resource = ''r'', r_permission = ''p'', r_idem = ''k'',
     r_mode = ''idempotent'', r_max_attempts = 2, r_priority = 0, r_protocol = 2, r_traceparent = [],
     r_tracestate = [], r_prefix = [], r_prefix_limit = None\<rparr>"

definition ex_row :: job where
  "ex_row = (ex_job ''k'')\<lparr>j_mode := Idempotent\<rparr>"

lemma ex_new_job:
  obtains j where "new_job ex_env ex_request = Inr j" "j_idem j = ''k''"
    "snd (identity_of_job j) = snd (identity_of_job ex_row)"
proof -
  have "clean_token ''mail'' 160 = Inr ''mail''" "clean_token ''r'' 256 = Inr ''r''"
    "clean_token ''p'' 128 = Inr ''p''" "clean_token ''k'' 192 = Inr ''k''" "parse_mode ''idempotent'' = Inr Idempotent"
    by code_simp+
  moreover have "bounded_json (sha256 ex_env) (JObj []) MAX_JOB_PAYLOAD_BYTES = Inr (''{}'', ''h{}'')"
    by (simp add: bounded_json_def Let_def ex_env_def limit_defs ord_c_def)
  ultimately show ?thesis
    by (intro that) (auto simp: new_job_def ex_request_def Let_def limit_defs identity_of_job_def ex_row_def ex_job_def)
qed

lemma enqueue_idempotent_witness:
  "let s = ex_queue [ex_row] 0 in
   enqueue ex_env ex_request s = (Inr ''k'', s) \<and>
   enqueue (ex_env\<lparr>fresh_id := ''m''\<rparr>) ex_request s = (Inr ''k'', s)"
proof -
  obtain j where j: "new_job ex_env ex_request = Inr j" "j_idem j = ''k''"
    "snd (identity_of_job j) = snd (identity_of_job ex_row)" by (rule ex_new_job)
  have "holder_of_key ''k'' (ex_queue [ex_row] 0) = Some (''k'', snd (identity_of_job ex_row))"
    by (simp add: holder_of_key_def identity_of_job_def ex_row_def ex_job_def ex_queue_def)
  with j have first: "enqueue ex_env ex_request (ex_queue [ex_row] 0) = (Inr ''k'', ex_queue [ex_row] 0)"
    by (simp add: enqueue_def enqueue_body_def)
  with enqueue_idempotent [OF this, of "ex_env\<lparr>fresh_id := ''m''\<rparr>"] show ?thesis by simp
qed

text \<open>Completion is idempotent and exclusive: after a worker's completion was accepted, the same completion is
  accepted again and changes nothing, and one with another worker, token or result is a terminal
  conflict that changes nothing; this holds from the row and from the receipt of a pruned job alike.\<close>

lemma complete_idempotent:
  assumes "complete env k w t v s = (Inr (), s')" and "queue_inv s" and "sha256 env' = sha256 env"
  shows "complete env' k w t v s' = (Inr (), s') \<and>
    (\<forall>w2 t2 v2 raw h raw2 h2. bounded_json (sha256 env) v MAX_RESULT_BYTES = Inr (raw, h) \<longrightarrow>
       bounded_json (sha256 env) v2 MAX_RESULT_BYTES = Inr (raw2, h2) \<longrightarrow>
       (w2, sha256 env t2, h2) \<noteq> (w, sha256 env t, h) \<longrightarrow>
       complete env' k w2 t2 v2 s' = (Inl (dist_fail ''DISTRIBUTED_TERMINAL_CONFLICT''), s'))"
proof -
  obtain raw h where b: "bounded_json (sha256 env) v MAX_RESULT_BYTES = Inr (raw, h)"
    using assms(1) by (cases "bounded_json (sha256 env) v MAX_RESULT_BYTES") (auto simp: complete_def)
  let ?d = "sha256 env t"
  have body: "complete_body env k w t raw h s = Inr ((), s')" using assms(1) b by (simp add: complete_def)
  have receipt: "(\<exists>j. job_row k s' = Some j \<and> j_state j = Completed \<and> j_term_worker j = w \<and>
        j_term_token j = ?d \<and> j_result_sha j = h) \<or>
      (\<exists>f. job_row k s' = None \<and> row_of f_job k (q_fences s') = Some f \<and> f_state f = Completed \<and>
        f_receipt f = [w, ?d, h])"
  proof (cases "job_row k s")
    case None
    with body show ?thesis by (auto simp: complete_body_def Let_def split: option.splits if_splits)
  next
    case (Some row)
    show ?thesis
    proof (cases "j_state row = Completed")
      case True
      with body Some show ?thesis by (auto simp: complete_body_def Let_def split: if_splits)
    next
      case False
      let ?hit = "\<lambda>j. j_id j = k \<and> active_state (j_state j) \<and> j_worker j = w \<and> j_token j = ?d"
      let ?e = "if j_effect row = EffStarted then EffCompleted else j_effect row"
      let ?f = "finish_job env w ?d raw h ?e"
      from body Some False have one: "count_where ?hit (q_jobs s) = 1"
        and rec: "record_event_locked env k ''completed'' (Some (j_state row)) Completed w []
           (JObj [(''result_sha256'', JStr h)]) (upd_worker w (release_slot env)
             (s\<lparr>q_jobs := upd_where ?hit ?f (q_jobs s)\<rparr>)) = Inr s'"
        by (auto simp: complete_body_def Let_def lease_check_Inr split: if_splits)
      have g: "good [] s" using assms(2) by (simp add: queue_inv_def)
      have upd: "s\<lparr>q_jobs := upd_where ?hit ?f (q_jobs s)\<rparr> = upd_job k ?f s"
        by (rule hit_job [OF g one], simp, blast)
      have "job_row k s' = Some (?f row)"
        using Some by (simp add: record_event_sel(1) [OF rec] upd finish_update.row_of_upd_key)
      then show ?thesis by simp
    qed
  qed
  have again: "complete_body env' k w t raw h s' = Inr ((), s')"
    using receipt assms(3) by (auto simp: complete_body_def)
  have other: "complete_body env' k w2 t2 raw2 h2 s' = Inl (dist_fail ''DISTRIBUTED_TERMINAL_CONFLICT'')"
    if "(w2, sha256 env t2, h2) \<noteq> (w, ?d, h)" for w2 t2 raw2 h2
    using receipt that assms(3) by (auto simp: complete_body_def)
  show ?thesis
    using again other b assms(3) by (auto simp: complete_def)
qed

lemma complete_idempotent_witness:
  "let s = ex_queue [ex_done ''a''] 0 in
   complete ex_env ''a'' ''w'' ''t'' (JObj []) s = (Inr (), s) \<and>
   complete ex_env ''a'' ''w'' ''other'' (JObj []) s = (Inl (dist_fail ''DISTRIBUTED_TERMINAL_CONFLICT''), s)"
proof -
  have b: "bounded_json (sha256 ex_env) (JObj []) MAX_RESULT_BYTES = Inr (''{}'', ''h{}'')"
    by (simp add: bounded_json_def Let_def ex_env_def limit_defs ord_c_def)
  have inv: "queue_inv (ex_queue [ex_done ''a''] 0)"
    by (simp add: inv_defs ex_defs ex_done_def)
  have first: "complete ex_env ''a'' ''w'' ''t'' (JObj []) (ex_queue [ex_done ''a''] 0) = (Inr (), ex_queue [ex_done ''a''] 0)"
    using b by (simp add: complete_def complete_body_def ex_done_def ex_defs)
  from complete_idempotent [OF first inv refl] first b show ?thesis
    by (auto simp: ex_env_def)
qed

section \<open>The storage circuit breaker\<close>

text \<open>The circuit around leasing: a storage fault never changes the queue and counts one failure; from the
  third on the circuit is open for the cooldown, during which every call is refused without reaching the
  storage; after it the circuit is half open and admits a call, whose success closes it.\<close>

lemma circuit_breaker_cycle:
  assumes "c_open_until c \<le> t0" and "with_circuit t0 t1 (Some error) f (c, s) = (r, c', s')"
  shows "s' = s \<and> isl r \<and> c_failures c' = Suc (c_failures c) \<and>
    (CIRCUIT_THRESHOLD \<le> c_failures c' \<longrightarrow>
      (\<forall>t < t1 + CIRCUIT_COOLDOWN. circuit_state_at t c' = CircuitOpen \<and>
         (\<forall>t' fault g q. with_circuit t t' fault g (c', q) =
            (Inl (dist_fail ''DISTRIBUTED_STORAGE_CIRCUIT_OPEN''), c', q))) \<and>
      (\<forall>t \<ge> t1 + CIRCUIT_COOLDOWN. circuit_state_at t c' = CircuitHalfOpen \<and>
         (\<forall>t' g q x q'. g q = (Inr x, q') \<longrightarrow> with_circuit t t' None g (c', q) = (Inr x, closed_circuit, q'))))"
proof -
  obtain c1 where pre: "circuit_preflight t0 c = (Inr (), c1)" "c_failures c1 = c_failures c"
    using assms(1) by (cases "c_open_until c = 0") (auto simp: circuit_preflight_def)
  have c': "c' = snd (circuit_failure t1 error c1)" "s' = s" "isl r"
    using assms(2) pre(1) by (auto simp: with_circuit_def case_prod_unfold Let_def)
  have n: "c_failures c' = Suc (c_failures c)" using pre(2) by (simp add: c' circuit_failure_def Let_def)
  have opened: "c_open_until c' = t1 + CIRCUIT_COOLDOWN" if "CIRCUIT_THRESHOLD \<le> c_failures c'"
    using that by (simp add: c' circuit_failure_def Let_def)
  have refused: "circuit_state_at t c' = CircuitOpen \<and> with_circuit t t' fault g (c', q) =
      (Inl (dist_fail ''DISTRIBUTED_STORAGE_CIRCUIT_OPEN''), c', q)"
    if "CIRCUIT_THRESHOLD \<le> c_failures c'" "t < t1 + CIRCUIT_COOLDOWN" for t t' fault g q
    using opened [OF that(1)] that(2) by (simp add: circuit_state_at_def with_circuit_def circuit_preflight_def)
  have closed: "circuit_state_at t c' = CircuitHalfOpen \<and>
      (g q = (Inr x, q') \<longrightarrow> with_circuit t t' None g (c', q) = (Inr x, closed_circuit, q'))"
    if "CIRCUIT_THRESHOLD \<le> c_failures c'" "t1 + CIRCUIT_COOLDOWN \<le> t" for t t' g q x q'
    using opened [OF that(1)] that(2) n
    by (auto simp: circuit_state_at_def with_circuit_def circuit_preflight_def circuit_success_def closed_circuit_def)
  show ?thesis
  proof (intro conjI impI allI)
    show "s' = s" "isl r" "c_failures c' = Suc (c_failures c)" by (fact c' n)+
  qed (simp_all add: refused closed)
qed

lemma circuit_breaker_cycle_witness:
  "circuit_state_at 11 (fst (snd (with_circuit 10 (10 :: rat) (Some ''locked'') (\<lambda>q. (Inr (), q))
     (\<lparr>c_failures = 2, c_open_until = 0, c_last_error = []\<rparr>, empty_queue 5)))) = CircuitOpen"
proof -
  obtain r c' s' where w: "with_circuit 10 (10 :: rat) (Some ''locked'') (\<lambda>q. (Inr (), q))
     (\<lparr>c_failures = 2, c_open_until = 0, c_last_error = []\<rparr>, empty_queue 5) = (r, c', s')"
    by (metis prod.collapse)
  have "c_failures c' = 3" and opened: "\<And>t. CIRCUIT_THRESHOLD \<le> c_failures c' \<Longrightarrow> t < 10 + CIRCUIT_COOLDOWN \<Longrightarrow>
      circuit_state_at t c' = CircuitOpen"
    using circuit_breaker_cycle [OF _ w] by auto
  then have "circuit_state_at 11 c' = CircuitOpen"
    by (simp add: CIRCUIT_THRESHOLD_def CIRCUIT_COOLDOWN_def)
  with w show ?thesis by simp
qed

section \<open>Failure and operator retry\<close>

text \<open>What a reported failure does to a held job: it always succeeds, the lease is gone, and the job is in
  review when its effect may have run, queued when the failure is retryable and attempts are left, and
  failed otherwise; only from review can an operator queue a job again, which resets its effect fence.\<close>

lemma fail_job_outcome:
  assumes "fail_job env k w t code again s = (Inr target, s')"
  shows "\<exists>row. job_row k s = Some row \<and> holds_lease env (clk env 0) w t row \<and>
    target = (if j_mode row = NonIdempotent \<and> j_effect row = EffStarted then ReviewRequired
              else if again \<and> j_attempt row < j_max row then Queued else Failed) \<and>
    (\<exists>j. job_row k s' = Some j \<and> j_state j = target \<and> j_worker j = [] \<and> j_token j = [] \<and> j_expires j = 0 \<and>
       j_attempt j = j_attempt row \<and> j_effect j = j_effect row) \<and>
    (\<forall>env2 s2. retry_review_required env2 k s' = (Inr (), s2) \<longrightarrow> target = ReviewRequired \<and>
       (\<exists>j. job_row k s2 = Some j \<and> j_state j = Queued \<and> j_effect j = EffNone))"
proof -
  obtain c where c: "clean_token (if code = [] then ''WORKER_EXECUTION_FAILED'' else code) 128 = Inr c"
    using assms by (cases "clean_token (if code = [] then ''WORKER_EXECUTION_FAILED'' else code) 128")
      (simp_all add: fail_job_def)
  from assms obtain row s1 where lease: "require_lease env k w t s = Inr row"
    and target: "target = (if effect_may_have_run row then ReviewRequired
                  else if again \<and> j_attempt row < j_max row then Queued else Failed)"
    and rec: "record_event_locked env k ''execution_failed'' (Some (j_state row)) target w
        c (fail_details again row) (upd_job k (release_job env target c) s) = Inr s1"
    and s': "s' = upd_worker w (release_slot env) s1"
    by (auto simp: fail_job_def c Let_def)
  from lease have row: "job_row k s = Some row" "holds_lease env (clk env 0) w t row"
    by (simp_all add: require_lease_Inr holds_lease_def)
  then have after: "job_row k s' = Some (release_job env target c row)"
    by (simp add: s' record_event_sel(1) [OF rec] release_update.row_of_upd_key)
  have retry: "target = ReviewRequired \<and> (\<exists>j. job_row k s2 = Some j \<and> j_state j = Queued \<and> j_effect j = EffNone)"
    if r: "retry_review_required env2 k s' = (Inr (), s2)" for env2 s2
  proof -
    let ?f = "\<lambda>j :: job. j\<lparr>j_state := Queued, j_effect := EffNone, j_error := ''OPERATOR_RETRY_APPROVED'', j_updated := utc env2\<rparr>"
    from r after obtain d where t: "target = ReviewRequired"
      and rec2: "record_event_locked env2 k ''operator_retry'' (Some ReviewRequired) Queued []
        ''OPERATOR_RETRY_APPROVED'' (JObj []) (upd_job k ?f s') = Inr s2"
      by (auto simp: retry_review_required_def split: if_splits)
    have "key_stable j_id ?f" by unfold_locales simp
    then have "job_row k s2 = Some (?f (release_job env target c row))"
      using after by (simp add: record_event_sel(1) [OF rec2] key_stable.row_of_upd_key)
    with t show ?thesis by simp
  qed
  show ?thesis using row after target retry by (auto simp: effect_may_have_run_def)
qed

lemma fail_job_outcome_witness:
  "\<exists>s' j. fail_job ex_env ''a'' ''w'' ''t'' ''X'' True (ex_queue [ex_held ''a'' EffStarted, ex_job ''b''] 1) =
     (Inr ReviewRequired, s') \<and> job_row ''a'' s' = Some j \<and> j_state j = ReviewRequired"
proof -
  let ?s = "ex_queue [ex_held ''a'' EffStarted, ex_job ''b''] 1"
  have "(case fst (fail_job ex_env ''a'' ''w'' ''t'' ''X'' True ?s) of Inr t \<Rightarrow> t = ReviewRequired | _ \<Rightarrow> False)"
    by code_simp
  then obtain s' where r: "fail_job ex_env ''a'' ''w'' ''t'' ''X'' True ?s = (Inr ReviewRequired, s')"
    by (cases "fail_job ex_env ''a'' ''w'' ''t'' ''X'' True ?s") (auto split: sum.splits)
  from fail_job_outcome [OF this] r show ?thesis by blast
qed

end
