(* ===== verification/JobLifecycle.thy ===== *)
theory JobLifecycle
  imports QueueContracts
begin

text \<open>
  \<^verbatim>\<open>enterprise/job_lifecycle.py\<close>: the facade a worker uses to take, start, finish and give back a job
  without holding a connection. What it relies on is the locale \<open>lease_store\<close>, interpreted on the queue.
\<close>

section \<open>The facade\<close>

text \<open>\<open>ClaimedJob\<close>: frozen token data\<close>

record claimed_job =
  cj_job :: pystr
  cj_worker :: pystr
  cj_token :: pystr
  cj_expires :: rat
  cj_kind :: pystr
  cj_payload :: pystr
  cj_attempt :: int
  cj_max :: int

definition claimed_of :: "pystr \<Rightarrow> lease \<Rightarrow> claimed_job" where
  "claimed_of worker l = \<lparr>cj_job = l_job l, cj_worker = worker, cj_token = l_token l, cj_expires = l_expires l,
     cj_kind = l_kind l, cj_payload = l_payload l, cj_attempt = l_attempt l, cj_max = l_max l\<rparr>"

text \<open>
  \<open>start_job\<close>: a lease whose start raises is given back as a retryable failure, and the error of the start
  surfaces whatever became of that. The storage may raise by itself in either call: \<open>f1\<close> and \<open>f2\<close>. The
  two calls read the clock at different times: \<open>env\<close> and \<open>env'\<close>.
\<close>

definition lifecycle_start ::
  "env \<Rightarrow> env \<Rightarrow> exc option \<Rightarrow> exc option \<Rightarrow> pystr \<Rightarrow> pystr \<Rightarrow> pystr \<Rightarrow> qstate \<Rightarrow> (exc + unit) \<times> qstate"
where
  "lifecycle_start env env' f1 f2 k w t s =
     (case (case f1 of Some e \<Rightarrow> (Inl e, s) | None \<Rightarrow> start_job env k w t s) of
        (Inr u, s1) \<Rightarrow> (Inr u, s1)
      | (Inl e, s1) \<Rightarrow>
          (Inl e, case f2 of Some _ \<Rightarrow> s1
                  | None \<Rightarrow> snd (fail_job env' k w t ''JOB_START_FAILED'' True s1)))"

definition acquire_job ::
  "env \<Rightarrow> env \<Rightarrow> env \<Rightarrow> scan \<Rightarrow> rat \<Rightarrow> rat \<Rightarrow> pystr option \<Rightarrow> exc option \<Rightarrow> exc option \<Rightarrow> pystr \<Rightarrow> int \<Rightarrow>
   circuit \<times> qstate \<Rightarrow> (exc + claimed_job option) \<times> circuit \<times> qstate"
where
  "acquire_job env env1 env2 sc t0 t1 fault f1 f2 worker seconds cs =
     (case lease_next env sc t0 t1 fault worker seconds cs of
        (Inl e, cs') \<Rightarrow> (Inl e, cs')
      | (Inr None, cs') \<Rightarrow> (Inr None, cs')
      | (Inr (Some l), c, s) \<Rightarrow>
          (case lifecycle_start env1 env2 f1 f2 (l_job l) worker (l_token l) s of
             (Inl e, s') \<Rightarrow> (Inl e, c, s')
           | (Inr _, s') \<Rightarrow> (Inr (Some (claimed_of worker l)), c, s')))"

definition complete_job :: "env \<Rightarrow> claimed_job \<Rightarrow> json \<Rightarrow> qstate \<Rightarrow> (exc + unit) \<times> qstate" where
  "complete_job env c result = complete env (cj_job c) (cj_worker c) (cj_token c) result"

definition fail_claimed :: "env \<Rightarrow> claimed_job \<Rightarrow> pystr \<Rightarrow> bool \<Rightarrow> qstate \<Rightarrow> (exc + job_state) \<times> qstate" where
  "fail_claimed env c error_code retryable = fail_job env (cj_job c) (cj_worker c) (cj_token c) error_code retryable"

section \<open>What the facade relies on\<close>

text \<open>
  A store of leases: an operation that raises changes nothing, a started job is held, a failed one is not.
  \<open>held s k w d\<close>: the worker \<open>w\<close> holds the job \<open>k\<close> under the digest \<open>d\<close>.
\<close>

locale lease_store =
  fixes start :: "'k \<Rightarrow> 'w \<Rightarrow> 't \<Rightarrow> 's \<Rightarrow> ('e + unit) \<times> 's"
    and give_back :: "'k \<Rightarrow> 'w \<Rightarrow> 't \<Rightarrow> 's \<Rightarrow> ('e + 'r) \<times> 's"
    and held :: "'s \<Rightarrow> 'k \<Rightarrow> 'w \<Rightarrow> 't \<Rightarrow> bool"
  assumes start_error: "start k w t s = (Inl e, s') \<Longrightarrow> s' = s"
    and start_held: "start k w t s = (Inr u, s') \<Longrightarrow> held s' k w t"
    and give_back_error: "give_back k w t s = (Inl e, s') \<Longrightarrow> s' = s"
    and give_back_released: "give_back k w t s = (Inr r, s') \<Longrightarrow> \<not> held s' k w t"
begin

definition start_or_release :: "'e option \<Rightarrow> 'e option \<Rightarrow> 'k \<Rightarrow> 'w \<Rightarrow> 't \<Rightarrow> 's \<Rightarrow> ('e + unit) \<times> 's" where
  "start_or_release f1 f2 k w t s =
     (case (case f1 of Some e \<Rightarrow> (Inl e, s) | None \<Rightarrow> start k w t s) of
        (Inr u, s1) \<Rightarrow> (Inr u, s1)
      | (Inl e, s1) \<Rightarrow> (Inl e, case f2 of Some _ \<Rightarrow> s1 | None \<Rightarrow> snd (give_back k w t s1)))"

lemma started_is_held: "start_or_release f1 f2 k w t s = (Inr u, s') \<Longrightarrow> held s' k w t"
  by (auto simp: start_or_release_def start_held split: option.splits sum.splits prod.splits)

lemma not_orphaned:
  assumes "start_or_release f1 f2 k w t s = (Inl e, s')"
  shows "s' = s \<and> (f2 \<noteq> None \<or> isl (fst (give_back k w t s))) \<or> \<not> held s' k w t"
proof -
  have st: "(case f1 of Some e \<Rightarrow> (Inl e, s) | None \<Rightarrow> start k w t s) = (Inl e, s)"
    using assms start_error
    by (auto simp: start_or_release_def split: option.splits sum.splits prod.splits)
  then have s': "s' = (case f2 of Some _ \<Rightarrow> s | None \<Rightarrow> snd (give_back k w t s))"
    using assms by (simp add: start_or_release_def)
  obtain r s2 where g: "give_back k w t s = (r, s2)" by fastforce
  show ?thesis
  proof (cases f2)
    case None
    show ?thesis
    proof (cases r)
      case (Inl e2)
      with give_back_error g s' None show ?thesis by auto
    next
      case (Inr x)
      with give_back_released g s' None show ?thesis by auto
    qed
  qed (simp add: s')
qed

end

text \<open>The queue is such a store.\<close>

definition held_under :: "env \<Rightarrow> qstate \<Rightarrow> pystr \<Rightarrow> pystr \<Rightarrow> pystr \<Rightarrow> bool" where
  "held_under env s k w t \<longleftrightarrow> (\<exists>row. job_row k s = Some row \<and> active_state (j_state row) \<and>
     j_worker row = w \<and> j_token row = sha256 env t)"

lemma fail_job_releases:
  assumes "fail_job env k w t code again s = (Inr target, s')"
  shows "\<exists>row. job_row k s' = Some row \<and> \<not> active_state (j_state row)"
proof -
  obtain c where c: "clean_token (if code = [] then ''WORKER_EXECUTION_FAILED'' else code) 128 = Inr c"
    using assms by (cases "clean_token (if code = [] then ''WORKER_EXECUTION_FAILED'' else code) 128")
      (simp_all add: fail_job_def)
  from assms obtain row s1 where lease: "require_lease env k w t s = Inr row"
    and target: "target = (if effect_may_have_run row then ReviewRequired
                  else if again \<and> j_attempt row < j_max row then Queued else Failed)"
    and rec: "record_event_locked env k ''execution_failed'' (Some (j_state row)) target w
        c (fail_details again row) (upd_job k (release_job env target c) s) = Inr s1"
    and s': "s' = upd_worker w (release_slot env) s1"
    by (auto simp: fail_job_def c Let_def)
  from lease have "job_row k s' = Some (release_job env target c row)"
    by (simp add: s' record_event_sel(1) [OF rec] release_update.row_of_upd_key require_lease_Inr)
  with target show ?thesis by simp
qed

lemma start_job_held:
  assumes "start_job env k w t s = (Inr u, s')"
  shows "held_under env s' k w t"
proof -
  from assms obtain row where lease: "require_lease env k w t s = Inr row"
    and s': "s' = s \<or> record_event_locked env k ''started'' (Some (j_state row)) Running w [] (JObj [])
      (upd_job k (\<lambda>j. j\<lparr>j_state := Running, j_updated := utc env\<rparr>) s) = Inr s'"
    by (auto simp: start_job_def split: if_splits)
  let ?f = "\<lambda>j :: job. j\<lparr>j_state := Running, j_updated := utc env\<rparr>"
  have "key_stable j_id ?f" by unfold_locales simp
  then have "job_row k (upd_job k ?f s) = map_option ?f (job_row k s)"
    by (simp add: key_stable.row_of_upd_key)
  with s' lease show ?thesis
    by (auto simp: held_under_def require_lease_Inr dest!: record_event_sel(1))
qed

lemma transact_error: "transact body s = (Inl e, s') \<Longrightarrow> s' = s"
  by simp

lemma start_job_error: "start_job env k w t s = (Inl e, s') \<Longrightarrow> s' = s"
  unfolding start_job_def by (rule transact_error)

lemma fail_job_error: "fail_job env k w t c a s = (Inl e, s') \<Longrightarrow> s' = s"
  by (cases "clean_token (if c = [] then ''WORKER_EXECUTION_FAILED'' else c) 128")
    (auto simp: fail_job_def dest: transact_error)

interpretation queue_store: lease_store "start_job env"
    "\<lambda>k w t. fail_job env' k w t ''JOB_START_FAILED'' True" "held_under env" for env env'
  by unfold_locales (auto dest: start_job_error start_job_held fail_job_error fail_job_releases simp: held_under_def)

lemma lifecycle_start_eq:
  "lifecycle_start env env' f1 f2 k w t s = queue_store.start_or_release env env' f1 f2 k w t s"
  by (simp add: lifecycle_start_def queue_store.start_or_release_def)

text \<open>A job that \<open>acquire_job\<close> has leased is never orphaned: either the caller gets the claimed job and holds it,
  or the error of the start surfaces and the lease has been given back; the lease stays only when giving
  it back raised as well.\<close>

lemma acquired_or_released:
  assumes "lease_next env sc t0 t1 fault w n cs = (Inr (Some l), c, s)"
  shows "case acquire_job env env1 env2 sc t0 t1 fault f1 f2 w n cs of
      (Inr None, _) \<Rightarrow> False
    | (Inr (Some cj), c', s') \<Rightarrow> cj = claimed_of w l \<and> held_under env1 s' (l_job l) w (l_token l)
    | (Inl e, c', s') \<Rightarrow> \<not> held_under env1 s' (l_job l) w (l_token l) \<or>
        s' = s \<and> (f2 \<noteq> None \<or> isl (fst (fail_job env2 (l_job l) w (l_token l) ''JOB_START_FAILED'' True s)))"
proof -
  obtain r s' where start: "lifecycle_start env1 env2 f1 f2 (l_job l) w (l_token l) s = (r, s')" by fastforce
  show ?thesis
  proof (cases r)
    case (Inl e)
    with queue_store.not_orphaned [OF start [unfolded lifecycle_start_eq Inl]] assms start
    show ?thesis by (auto simp: acquire_job_def)
  next
    case (Inr u)
    with queue_store.started_is_held [OF start [unfolded lifecycle_start_eq Inr]] assms start
    show ?thesis by (simp add: acquire_job_def)
  qed
qed

definition ex_busy :: scan where
  "ex_busy = \<lparr>scan_t0 = 9, scan_t1 = 9, scan_t2 = 9, scan_busy = True\<rparr>"

lemma acquired_or_released_witness:
  "\<exists>l :: lease. case acquire_job ex_env ex_env ex_env ex_busy 0 0 None (Some OperationalError) None ''w'' 60
        (closed_circuit, ex_queue [ex_job ''a'', ex_job ''b''] 0) of
      (Inr _, _) \<Rightarrow> False
    | (Inl e, c', s') \<Rightarrow> e = OperationalError \<and> (\<not> held_under ex_env s' (l_job l) ''w'' (l_token l) \<or>
        isl (fst (fail_job ex_env (l_job l) ''w'' (l_token l) ''JOB_START_FAILED'' True s')))"
proof -
  obtain l s1 where l: "lease_next_body ex_env ''w'' 60 (ex_queue [ex_job ''a'', ex_job ''b''] 0) = Inr (Some l, s1)"
    by (rule ex_lease_next)
  have "shift_env 2 ex_env = ex_env" by (simp add: shift_env_def ex_env_def)
  with l have "lease_next ex_env ex_busy 0 0 None ''w'' 60 (closed_circuit, ex_queue [ex_job ''a'', ex_job ''b''] 0) =
      (Inr (Some l), closed_circuit, s1)"
    by (simp add: lease_next_def with_circuit_def circuit_preflight_def closed_circuit_def circuit_success_def
        lease_next_storage_def recover_if_due_def ex_busy_def clamp_lease_def limit_defs transact_def)
  note leased = this
  obtain s2 where st: "lifecycle_start ex_env ex_env (Some OperationalError) None (l_job l) ''w'' (l_token l) s1 =
      (Inl OperationalError, s2)" by (simp add: lifecycle_start_def)
  have out: "acquire_job ex_env ex_env ex_env ex_busy 0 0 None (Some OperationalError) None ''w'' 60
        (closed_circuit, ex_queue [ex_job ''a'', ex_job ''b''] 0) = (Inl OperationalError, closed_circuit, s2)"
    by (simp add: acquire_job_def leased st)
  from acquired_or_released [OF leased, where ?env1.0 = ex_env and ?env2.0 = ex_env and ?f1.0 = "Some OperationalError"
      and ?f2.0 = None]
  have "\<not> held_under ex_env s2 (l_job l) ''w'' (l_token l) \<or>
      isl (fst (fail_job ex_env (l_job l) ''w'' (l_token l) ''JOB_START_FAILED'' True s2))"
    by (auto simp: out)
  then show ?thesis unfolding out sum.case prod.case by blast
qed

end
