(* ===== verification/QueuePasses.thy ===== *)
theory QueuePasses
  imports QueueProperties
begin

text \<open>
  The recovery passes as functions of the job table: what the sweeps, the reconciliation and the
  revocation do to the rows, and that they succeed.
\<close>

section \<open>The recovery passes\<close>

text \<open>When the journal accepts an event.\<close>

lemma store_terminal_fence_ok:
  assumes "fences_ok (q_jobs s) (q_fences s)" and "j \<in> set (q_jobs s)"
  shows "\<exists>s'. store_terminal_fence j s = Inr s'"
  using assms by (auto simp: store_terminal_fence_def fences_ok_def split: option.splits dest!: row_of_in)

lemma record_event_ok:
  assumes "allowed_transition src tgt" and "clean_token et 96 = Inr ev"
    and "bounded_json (sha256 env) d MAX_EVENT_DETAILS_BYTES = Inr detail"
    and "job_row k s = Some j" and "fences_ok (q_jobs s) (q_fences s)"
  shows "\<exists>s'. record_event_locked env k et src tgt wid code d s = Inr s'"
proof -
  from row_of_in [OF assms(4)] have "j \<in> set (q_jobs s)" by simp
  then obtain s1 where s1: "(if terminal_state tgt
      then (case job_row k s of None \<Rightarrow> Inl TypeError | Some j \<Rightarrow> store_terminal_fence j s) else Inr s) = Inr s1"
    using store_terminal_fence_ok [OF assms(5)] assms(4) by (cases "terminal_state tgt") auto
  then have "q_jobs s1 = q_jobs s"
    using assms(4) by (auto split: if_splits dest: store_terminal_fence_sel(1))
  with assms(4) s1 show ?thesis
    by (simp add: record_event_locked_def assms(1-3) insert_event_def del: terminal_state_simps)
qed

definition expired :: "rat \<Rightarrow> job \<Rightarrow> bool" where
  "expired cutoff j \<longleftrightarrow> active_state (j_state j) \<and> j_expires j \<le> cutoff"

definition expire :: "env \<Rightarrow> job \<Rightarrow> job" where
  "expire env j = (let (target, code) = recovery_choice j ''LEASE_LOST_AFTER_SIDE_EFFECT_START''
       ''LEASE_EXPIRED_REQUEUED'' ''LEASE_EXPIRED_MAX_ATTEMPTS'' in release_job env target code j)"

lemma expire_sel: "\<not> active_state (j_state (expire env j))" "j_id (expire env j) = j_id j"
  using recovery_choice_inactive by (auto simp: expire_def case_prod_unfold Let_def)

lemma lease_expired_token: "clean_token ''lease_expired'' 96 = Inr ''lease_expired''"
  by code_simp

lemma empty_details: "bounded_json sha (JObj []) MAX_EVENT_DETAILS_BYTES = Inr (''{}'', sha ''{}'')"
  by (simp add: bounded_json_def limit_defs ord_c_def Let_def)

lemma recovery_choice_allowed:
  "active_state (j_state j) \<Longrightarrow> allowed_transition (Some (j_state j)) (fst (recovery_choice j a b c))"
  by (cases "j_state j") (auto simp: recovery_choice_def)

text \<open>One step of the loop on a row that is still there: it happens, and it is \<open>expire\<close>.\<close>

lemma recover_expired_step:
  assumes "pass_ok op s0 (s, m, n)" and "row \<in> set (q_jobs s)" and "expired cutoff row" and "0 < j_expires row"
    and "row \<in> set (q_jobs s0)"
  obtains s' where "recover_expired_row env cutoff row (s, m, n) = Inr (s', bump (j_worker row) m, Suc n)"
    "q_jobs s' = upd_where (\<lambda>j. j_id j = j_id row) (expire env) (q_jobs s)"
    "pass_ok op s0 (s', bump (j_worker row) m, Suc n)"
proof -
  let ?ch = "recovery_choice row ''LEASE_LOST_AFTER_SIDE_EFFECT_START'' ''LEASE_EXPIRED_REQUEUED''
          ''LEASE_EXPIRED_MAX_ATTEMPTS''"
  obtain t c where ch: "?ch = (t, c)" by fastforce
  let ?hit = "\<lambda>j. j_id j = j_id row \<and> j_state j = j_state row \<and> j_worker j = j_worker row \<and>
                    j_token j = j_token row \<and> 0 < j_expires j \<and> j_expires j \<le> cutoff"
  have g: "good m s" using assms(1) by (simp add: pass_ok_def)
  note ids = good_jobs(1) [OF g]
  have only: "j = row" if "j \<in> set (q_jobs s)" "j_id j = j_id row" for j
    using that assms(2) ids by (metis distinct_map inj_onD)
  have hit: "?hit j \<longleftrightarrow> j_id j = j_id row" if "j \<in> set (q_jobs s)" for j
    using only [OF that] assms(3,4) by (auto simp: expired_def)
  have one: "count_where ?hit (q_jobs s) = 1"
    using count_where_cong [of "q_jobs s" ?hit "\<lambda>j. j_id j = j_id row"] hit count_key_one [OF ids assms(2)] by simp
  have upd: "s\<lparr>q_jobs := upd_where ?hit (release_job env t c) (q_jobs s)\<rparr> = upd_job (j_id row) (release_job env t c) s"
    unfolding upd_job_def using upd_where_cong [of "q_jobs s" ?hit "\<lambda>j. j_id j = j_id row"] hit by simp
  have row: "job_row (j_id row) s = Some row" using assms(2) ids by (simp add: row_of_distinct)
  let ?s1 = "upd_job (j_id row) (release_job env t c) s"
  have "job_row (j_id row) ?s1 = Some (release_job env t c row)"
    using row by (simp add: release_update.row_of_upd_key)
  moreover have "fences_ok (q_jobs ?s1) (q_fences ?s1)"
    using g by (simp add: good_def release_update.fences_ok_upd)
  moreover have "allowed_transition (Some (j_state row)) t"
    using recovery_choice_allowed assms(3) ch unfolding expired_def by (metis fst_conv)
  ultimately obtain s' where rec: "record_event_locked env (j_id row) ''lease_expired'' (Some (j_state row)) t
      (j_worker row) c (JObj []) ?s1 = Inr s'"
    using record_event_ok [OF _ lease_expired_token empty_details] by metis
  have step: "recover_expired_row env cutoff row (s, m, n) = Inr (s', bump (j_worker row) m, Suc n)"
    using one rec by (simp add: recover_expired_row_def recover_row_def ch Let_def upd)
  show ?thesis
  proof (rule that [OF step])
    have "release_job env t c j = expire env j" if "j \<in> set (q_jobs s)" "j_id j = j_id row" for j
      using only [OF that] ch by (simp add: expire_def)
    then show "q_jobs s' = upd_where (\<lambda>j. j_id j = j_id row) (expire env) (q_jobs s)"
      using record_event_sel(1) [OF rec] by (auto intro: upd_where_cong)
    show "pass_ok op s0 (s', bump (j_worker row) m, Suc n)"
      using recover_row_pass [OF step [unfolded recover_expired_row_def] assms(1,5)] assms(3)
      by (simp add: expired_def)
  qed
qed

lemma recover_expired_loop:
  assumes "pass_ok op s0 (s, m, n)" and "set rows \<subseteq> set (q_jobs s)" and "distinct (map j_id rows)"
    and "\<forall>row \<in> set rows. expired cutoff row \<and> 0 < j_expires row \<and> row \<in> set (q_jobs s0)"
  shows "\<exists>s' m'. efold (recover_expired_row env cutoff) rows (s, m, n) = Inr (s', m', n + length rows) \<and>
    q_jobs s' = map (\<lambda>j. if j \<in> set rows then expire env j else j) (q_jobs s)"
  using assms
proof (induction rows arbitrary: s m n)
  case (Cons row rows)
  have here: "row \<in> set (q_jobs s)" "expired cutoff row" "0 < j_expires row" "row \<in> set (q_jobs s0)"
    using Cons.prems(2,4) by auto
  obtain s1 where step: "recover_expired_row env cutoff row (s, m, n) = Inr (s1, bump (j_worker row) m, Suc n)"
    and jobs: "q_jobs s1 = upd_where (\<lambda>j. j_id j = j_id row) (expire env) (q_jobs s)"
    and ok: "pass_ok op s0 (s1, bump (j_worker row) m, Suc n)"
    by (rule recover_expired_step [OF Cons.prems(1) here])
  have ids: "distinct (map j_id (q_jobs s))" using Cons.prems(1) good_jobs(1) by (auto simp: pass_ok_def)
  have only: "j_id j = j_id row \<longleftrightarrow> j = row" if "j \<in> set (q_jobs s)" for j
    using that here(1) ids by (auto simp: distinct_map dest: inj_onD)
  have rest: "i \<noteq> row \<and> i \<in> set (q_jobs s1)" if "i \<in> set rows" for i
  proof -
    have "j_id row \<notin> j_id ` set rows" using Cons.prems(3) by simp
    then have "j_id i \<noteq> j_id row" using imageI [OF that, of j_id] by metis
    moreover have "i \<in> set (q_jobs s)" using that Cons.prems(2) by auto
    ultimately show ?thesis by (auto simp: jobs set_upd_where image_iff)
  qed
  then have "set rows \<subseteq> set (q_jobs s1)" by blast
  from Cons.IH [OF ok this] Cons.prems(3,4) obtain s' m' where
    loop: "efold (recover_expired_row env cutoff) rows (s1, bump (j_worker row) m, Suc n) = Inr (s', m', Suc n + length rows)"
    and s': "q_jobs s' = map (\<lambda>j. if j \<in> set rows then expire env j else j) (q_jobs s1)" by auto
  have new: "expire env row \<notin> set rows"
    using Cons.prems(4) expire_sel(1) [of env row] by (auto simp: expired_def)
  have "q_jobs s' = map (\<lambda>j. if j \<in> set (row # rows) then expire env j else j) (q_jobs s)"
    unfolding s' jobs upd_where_def map_map
    using only new rest by (intro map_cong) (auto simp: o_def)
  with step loop show ?case by simp
qed auto

text \<open>The sweep over expired leases always succeeds, releases exactly the active jobs whose lease ended at or
  before the cutoff (requeued while attempts are left, failed when they are used up, in review when an
  effect may have run), leaves every other row as it is, and reports their number.\<close>

lemma recover_expired_exact:
  assumes "queue_inv s"
  shows "\<exists>s'. recover_expired_body env cutoff s = Inr (count_where (expired cutoff) (q_jobs s), s') \<and>
    q_jobs s' = map (\<lambda>j. if expired cutoff j then expire env j else j) (q_jobs s)"
proof -
  let ?rows = "expired_candidates cutoff (q_jobs s)"
  have g: "good [] s" using assms by (simp add: queue_inv_def)
  have pos: "0 < j_expires j" if "j \<in> set (q_jobs s)" "active_state (j_state j)" for j
    using good_jobs(3) [OF g] that by (auto simp: job_wf_def)
  have cands: "j \<in> set ?rows \<longleftrightarrow> j \<in> set (q_jobs s) \<and> expired cutoff j" for j
    using pos by (auto simp: expired_candidates_def expired_def)
  have len: "length ?rows = count_where (expired cutoff) (q_jobs s)"
    unfolding expired_candidates_def count_where_def length_sort expired_def
    using pos by (intro arg_cong [of _ _ length] filter_cong) auto
  have dist: "distinct (map j_id ?rows)"
    using good_jobs(1) [OF g] by (auto simp: expired_candidates_def distinct_map inj_on_def)
  have "pass_ok False s (s, [], 0)" using g by (simp add: pass_ok_def nonneg_def)
  from recover_expired_loop [OF this _ dist, of cutoff env] cands pos obtain s' m' where
    loop: "efold (recover_expired_row env cutoff) ?rows (s, [], 0) = Inr (s', m', length ?rows)"
    and jobs: "q_jobs s' = map (\<lambda>j. if j \<in> set ?rows then expire env j else j) (q_jobs s)"
    by (auto simp: expired_def)
  have "q_jobs s' = map (\<lambda>j. if expired cutoff j then expire env j else j) (q_jobs s)"
    unfolding jobs using cands by (intro map_cong) auto
  with loop show ?thesis by (simp add: recover_expired_body_def len)
qed

lemma recover_expired_exact_witness:
  "\<exists>s'. recover_expired_body ex_env 2000 (ex_queue [ex_held ''a'' EffStarted, ex_job ''b''] 1) = Inr (1, s') \<and>
    map j_state (q_jobs s') = [ReviewRequired, Queued]"
  using recover_expired_exact [OF ex_queue_inv, of ex_env 2000]
  by (auto simp: expired_def expire_def ex_defs recovery_choice_def effect_may_have_run_def release_job_def)

lemma lease_reconciled_token: "clean_token ''lease_reconciled'' 96 = Inr ''lease_reconciled''"
  by code_simp

lemma worker_lease_recovered_token: "clean_token ''worker_lease_recovered'' 96 = Inr ''worker_lease_recovered''"
  by code_simp

text \<open>The loops of the reconciliation and of the revocation do not raise.\<close>

lemma release_event_ok:
  assumes "releasing op s0 (row # todo) s" and "active_state (j_state row)" and "clean_token et 96 = Inr ev"
  shows "\<exists>s'. record_event_locked env (j_id row) et (Some (j_state row)) (fst (recovery_choice row a b c)) wid code
     (JObj []) (upd_job (j_id row) (release_job env (fst (recovery_choice row a b c)) code') s) = Inr s'"
proof -
  let ?f = "release_job env (fst (recovery_choice row a b c)) code'"
  have s: "tables_ok s" "row \<in> set (q_jobs s)" using assms(1) by (simp_all add: releasing_def)
  then have "job_row (j_id row) (upd_job (j_id row) ?f s) = Some (?f row)"
    by (simp add: release_update.row_of_upd_key row_of_distinct tables_ok_def)
  moreover have "fences_ok (q_jobs (upd_job (j_id row) ?f s)) (q_fences (upd_job (j_id row) ?f s))"
    using s(1) by (simp add: tables_ok_def release_update.fences_ok_upd)
  ultimately show ?thesis
    using record_event_ok [OF recovery_choice_allowed [OF assms(2)] assms(3) empty_details] by metis
qed

lemma reconcile_total:
  assumes "releasing op s0 rows s" and "distinct (map j_id rows)" and "\<forall>row \<in> set rows. active_state (j_state row)"
  shows "\<exists>s' n'. efold (reconcile_lease env) rows (s, n) = Inr (s', n')"
  using assms
proof (induction rows arbitrary: s n)
  case (Cons row rows)
  let ?ch = "recovery_choice row ''LEASE_STATE_LOST_AFTER_SIDE_EFFECT_START''
      ''LEASE_STATE_RECONCILED'' ''LEASE_STATE_INVALID_MAX_ATTEMPTS''"
  have act: "active_state (j_state row)" using Cons.prems(3) by simp
  obtain s1 where rec: "record_event_locked env (j_id row) ''lease_reconciled'' (Some (j_state row)) (fst ?ch)
      (j_worker row) (snd ?ch) (JObj []) (upd_job (j_id row) (release_job env (fst ?ch) (snd ?ch)) s) = Inr s1"
    using release_event_ok [OF Cons.prems(1) act lease_reconciled_token] by blast
  then have "reconcile_lease env row (s, n) = Inr (s1, Suc n)"
    by (simp add: reconcile_lease_def recovery_target_def case_prod_unfold)
  with Cons.IH [OF releasing_step(1) [OF Cons.prems(1,2) act rec], of "Suc n"] Cons.prems(2,3) show ?case by simp
qed simp

lemma revoke_total:
  assumes "releasing op s0 rows s" and "distinct (map j_id rows)"
    and "\<forall>row \<in> set rows. active_state (j_state row) \<and> j_worker row = wid"
  shows "\<exists>s' n'. efold (recover_worker_job env wid code) rows (s, n) = Inr (s', n')"
  using assms
proof (induction rows arbitrary: s n)
  case (Cons row rows)
  let ?t = "fst (recovery_choice row [] [] [])"
  have act: "active_state (j_state row)" "j_worker row = wid" using Cons.prems(3) by simp_all
  have "job_row (j_id row) s = Some row"
    using Cons.prems(1) by (auto simp: releasing_def tables_ok_def row_of_distinct)
  moreover obtain s1 where rec: "record_event_locked env (j_id row) ''worker_lease_recovered'' (Some (j_state row))
      ?t wid code (JObj []) (upd_job (j_id row) (release_job env ?t code) s) = Inr s1"
    using release_event_ok [OF Cons.prems(1) act(1) worker_lease_recovered_token] by blast
  ultimately have "recover_worker_job env wid code row (s, n) = Inr (s1, Suc n)"
    using act by (simp add: recover_worker_job_def Let_def)
  with Cons.IH [OF releasing_step(1) [OF Cons.prems(1,2) act(1) rec], of "Suc n"] Cons.prems(2,3) show ?case
    by simp
qed simp

text \<open>C39: The reconciliation repairs a damaged state: whatever leases, owners and counters say, as long as keys are
  unique and no inactive row keeps a lease, it succeeds and the whole invariant holds afterwards.\<close>

theorem reconcile_restores_invariant:
  assumes "tables_ok s" and "\<forall>j \<in> set (q_jobs s). repairable j"
  shows "\<exists>r s'. reconcile_durable_state env s = (Inr r, s') \<and> queue_inv s'"
proof -
  let ?rows = "filter (invalid_lease (clk env 0 + of_int MAX_LEASE_SECONDS + 60) s) (q_jobs s)"
  have "releasing False s ?rows s" using assms(1) by (auto simp: releasing_def)
  moreover have "distinct (map j_id ?rows)" using assms(1) by (auto simp: tables_ok_def distinct_map inj_on_def)
  moreover have "\<forall>row \<in> set ?rows. active_state (j_state row)" by (simp add: invalid_lease_def)
  ultimately obtain s1 n where "efold (reconcile_lease env) ?rows (s, 0) = Inr (s1, n)"
    using reconcile_total by blast
  then obtain r s' where "reconcile_durable_state env s = (Inr r, s')"
    by (simp add: reconcile_durable_state_def Let_def)
  with reconcile_repairs(1) [OF this assms] show ?thesis by blast
qed

theorem reconcile_restores_invariant_witness:
  "\<exists>r s'. reconcile_durable_state ex_env (ex_queue [(ex_held ''a'' EffStarted)\<lparr>j_token := []\<rparr>, ex_job ''b''] 7) = (Inr r, s') \<and>
     queue_inv s'"
  by (rule reconcile_restores_invariant)
    (simp_all add: tables_ok_def fences_ok_def repairable_def effect_may_have_run_def ex_defs ex_key_def)

text \<open>Revoking a known worker always succeeds, takes back exactly its active leases, and leaves the worker
  revoked without an active job, with the invariant intact.\<close>

lemma revoke_takes_all_back:
  assumes "queue_inv s" and "worker_row wid s = Some w"
  shows "\<exists>s'. revoke_worker env wid s = (Inr (active_of wid (q_jobs s)), s') \<and> queue_inv s' \<and>
    active_of wid (q_jobs s') = 0 \<and> (\<exists>v. worker_row wid s' = Some v \<and> w_state v = WRevoked)"
proof -
  let ?g = "\<lambda>w. w\<lparr>w_state := WRevoked, w_revoked_at := utc env, w_updated := utc env, w_leases := 0\<rparr>"
  let ?s1 = "upd_worker wid ?g s"
  let ?rows = "filter (\<lambda>j. j_worker j = wid \<and> active_state (j_state j)) (q_jobs s)"
  have keys: "map w_id (upd_where p ?g tbl) = map w_id tbl" for p tbl by (rule map_other_upd) simp
  have tabs: "tables_ok ?s1"
    using queue_inv_tables [OF assms(1)] by (auto simp: tables_ok_def keys set_upd_where)
  then have "releasing False ?s1 ?rows ?s1" by (auto simp: releasing_def)
  moreover have "distinct (map j_id ?rows)" using tabs by (auto simp: tables_ok_def distinct_map inj_on_def)
  ultimately obtain s' n where "efold (recover_worker_job env wid ''WORKER_REVOKED'') ?rows (?s1, 0) = Inr (s', n)"
    using revoke_total by fastforce
  then have "revoke_worker env wid s = (Inr n, s')"
    using assms(2) by (simp add: revoke_worker_def Let_def)
  with revoke_worker_Inr [OF this assms(1)] show ?thesis by blast
qed

lemma revoke_takes_all_back_witness:
  "\<exists>s'. revoke_worker ex_env ''w'' (ex_queue [ex_held ''a'' EffStarted, ex_job ''b''] 1) = (Inr 1, s') \<and>
     queue_inv s' \<and> active_of ''w'' (q_jobs s') = 0"
  using revoke_takes_all_back [OF ex_queue_inv, of "''w''" "ex_worker 1" ex_env]
  by (auto simp: active_of_def ex_defs)

end
