(* ===== verification/ResourceGovernor.thy ===== *)
theory ResourceGovernor
  imports Prelude
begin

text \<open>
  The resource governance of \<^verbatim>\<open>application/reliability.py\<close>: the limits, the governor that lowers its ceilings
  at once under pressure and gives them back one at a time, and the pool of resource leases. A measured float is a
  rational, or not finite; the limits are rationals. Every method runs under its lock, so a
  history is a sequence of calls.
\<close>

section \<open>Limits\<close>

record resource_limits =
  max_request_concurrency :: int
  max_worker_count :: int
  max_browser_instances :: int
  cpu_soft_percent :: rat
  cpu_critical_percent :: rat
  memory_soft_percent :: rat
  memory_critical_percent :: rat
  min_free_disk_bytes :: int
  critical_free_disk_bytes :: int

definition normalized_limits :: "resource_limits \<Rightarrow> resource_limits" where
  "normalized_limits l =
     (let cpu_soft = max 10 (min 99 (cpu_soft_percent l));
          memory_soft = max 10 (min 99 (memory_soft_percent l));
          critical_disk = max 0 (critical_free_disk_bytes l)
      in \<lparr>max_request_concurrency = max 1 (min 256 (max_request_concurrency l)),
          max_worker_count = max 1 (min 128 (max_worker_count l)),
          max_browser_instances = max 0 (min 64 (max_browser_instances l)),
          cpu_soft_percent = cpu_soft, cpu_critical_percent = max cpu_soft (min 100 (cpu_critical_percent l)),
          memory_soft_percent = memory_soft, memory_critical_percent = max memory_soft (min 100 (memory_critical_percent l)),
          min_free_disk_bytes = max critical_disk (min_free_disk_bytes l), critical_free_disk_bytes = critical_disk\<rparr>)"

lemma normalized_bounds:
  "1 \<le> max_request_concurrency (normalized_limits l)" "max_request_concurrency (normalized_limits l) \<le> 256"
  "1 \<le> max_worker_count (normalized_limits l)" "max_worker_count (normalized_limits l) \<le> 128"
  "0 \<le> max_browser_instances (normalized_limits l)" "max_browser_instances (normalized_limits l) \<le> 64"
  by (simp_all add: normalized_limits_def Let_def)

lemma normalized_idem: "normalized_limits (normalized_limits l) = normalized_limits l"
  by (simp add: normalized_limits_def Let_def max_def min_def)

section \<open>Samples and decisions\<close>

datatype measure = Finite rat | NotFinite

record resource_snapshot =
  cpu_percent :: "measure option"
  memory_percent :: "measure option"
  disk_free_bytes :: "int option"
  active_browser_instances :: int

datatype pressure = Normal | Elevated | CriticalPressure

record resource_decision =
  rd_pressure :: pressure
  rd_requests :: int
  rd_workers :: int
  rd_browsers :: int
  rd_admit_runs :: bool
  rd_admit_browser :: bool
  rd_reasons :: "pystr list"

definition at_least :: "measure option \<Rightarrow> rat \<Rightarrow> bool" where
  "at_least v threshold = (case v of Some (Finite x) \<Rightarrow> threshold \<le> x | _ \<Rightarrow> False)"

text \<open>The two lists of reasons, in the code's order.\<close>

definition disk_critical :: "resource_limits \<Rightarrow> resource_snapshot \<Rightarrow> bool" where
  "disk_critical l s = (case disk_free_bytes s of None \<Rightarrow> False | Some n \<Rightarrow> n \<le> critical_free_disk_bytes l)"

definition disk_low :: "resource_limits \<Rightarrow> resource_snapshot \<Rightarrow> bool" where
  "disk_low l s = (case disk_free_bytes s of None \<Rightarrow> False
     | Some n \<Rightarrow> critical_free_disk_bytes l < n \<and> n \<le> min_free_disk_bytes l)"

definition browser_saturated :: "resource_limits \<Rightarrow> resource_snapshot \<Rightarrow> bool" where
  "browser_saturated l s \<longleftrightarrow> 0 < max_browser_instances l \<and> max_browser_instances l \<le> active_browser_instances s"

definition critical_reasons :: "resource_limits \<Rightarrow> resource_snapshot \<Rightarrow> pystr list" where
  "critical_reasons l s =
     (if at_least (cpu_percent s) (cpu_critical_percent l) then [''cpu-critical''] else []) @
     (if at_least (memory_percent s) (memory_critical_percent l) then [''memory-critical''] else []) @
     (if disk_critical l s then [''disk-critical''] else [])"

definition soft_reasons :: "resource_limits \<Rightarrow> resource_snapshot \<Rightarrow> pystr list" where
  "soft_reasons l s =
     (if \<not> at_least (cpu_percent s) (cpu_critical_percent l) \<and> at_least (cpu_percent s) (cpu_soft_percent l)
      then [''cpu-high''] else []) @
     (if \<not> at_least (memory_percent s) (memory_critical_percent l) \<and> at_least (memory_percent s) (memory_soft_percent l)
      then [''memory-high''] else []) @
     (if disk_low l s then [''disk-low''] else []) @
     (if browser_saturated l s then [''browser-saturated''] else [])"

section \<open>The governor\<close>

record governor =
  gv_limits :: resource_limits
  gv_requests :: int
  gv_workers :: int
  gv_streak :: nat
  gv_last :: resource_decision

definition new_governor :: "resource_limits \<Rightarrow> governor" where
  "new_governor limits =
     (let l = normalized_limits limits in
      \<lparr>gv_limits = l, gv_requests = max_request_concurrency l, gv_workers = max_worker_count l, gv_streak = 0,
       gv_last = \<lparr>rd_pressure = Normal, rd_requests = max_request_concurrency l, rd_workers = max_worker_count l,
         rd_browsers = max_browser_instances l, rd_admit_runs = True, rd_admit_browser = True, rd_reasons = []\<rparr>\<rparr>)"

text \<open>The ceilings and the streak after a sample.\<close>

definition move_ceilings :: "bool \<Rightarrow> bool \<Rightarrow> governor \<Rightarrow> governor" where
  "move_ceilings is_critical is_soft g =
     (let l = gv_limits g in
      if is_critical then g\<lparr>gv_streak := 0,
        gv_requests := max 1 (min (gv_requests g) (max 1 (max_request_concurrency l div 4))),
        gv_workers := max 1 (min (gv_workers g) (max 1 (max_worker_count l div 2)))\<rparr>
      else if is_soft then g\<lparr>gv_streak := 0,
        gv_requests := max 1 (min (gv_requests g) (max 1 ((max_request_concurrency l + 1) div 2))),
        gv_workers := max 1 (min (gv_workers g) (max 1 ((max_worker_count l + 1) div 2)))\<rparr>
      else if 3 \<le> Suc (gv_streak g) then g\<lparr>gv_streak := 0,
        gv_requests := min (max_request_concurrency l) (gv_requests g + 1),
        gv_workers := min (max_worker_count l) (gv_workers g + 1)\<rparr>
      else g\<lparr>gv_streak := Suc (gv_streak g)\<rparr>)"

definition pressure_decision :: "int \<Rightarrow> int \<Rightarrow> int \<Rightarrow> pystr list \<Rightarrow> pystr list \<Rightarrow> resource_decision" where
  "pressure_decision b requests workers crit soft =
     (let answer = (\<lambda>p browsers runs browser reasons. \<lparr>rd_pressure = p, rd_requests = requests, rd_workers = workers,
        rd_browsers = browsers, rd_admit_runs = runs, rd_admit_browser = browser, rd_reasons = reasons\<rparr>)
      in if crit \<noteq> [] then
           answer CriticalPressure (if ''disk-critical'' \<in> set crit then 0 else max 0 (min b 1))
             (''disk-critical'' \<notin> set crit) False crit
         else if soft \<noteq> [] then
           answer Elevated (if b \<noteq> 0 then max 0 (min b (max 1 (b div 2))) else 0) True
             (''browser-saturated'' \<notin> set soft) soft
         else answer Normal b True True [])"

definition govern :: "resource_snapshot \<Rightarrow> governor \<Rightarrow> resource_decision \<times> governor" where
  "govern s g =
     (let l = gv_limits g; crit = critical_reasons l s; soft = soft_reasons l s;
          g' = move_ceilings (crit \<noteq> []) (soft \<noteq> []) g;
          d = pressure_decision (max_browser_instances l) (gv_requests g') (gv_workers g') crit soft
      in (d, g'\<lparr>gv_last := d\<rparr>))"

definition governor_snapshot :: "governor \<Rightarrow> resource_decision" where
  "governor_snapshot g = gv_last g"

text \<open>The governor after a sequence of samples.\<close>

definition govern_all :: "resource_snapshot list \<Rightarrow> governor \<Rightarrow> governor" where
  "govern_all ss g = fold (\<lambda>s g. snd (govern s g)) ss g"

lemma govern_all_simps [simp]:
  "govern_all [] g = g" "govern_all (s # ss) g = govern_all ss (snd (govern s g))"
  "govern_all (ss @ ts) g = govern_all ts (govern_all ss g)"
  by (simp_all add: govern_all_def)

definition calm :: "resource_limits \<Rightarrow> resource_snapshot \<Rightarrow> bool" where
  "calm l s \<longleftrightarrow> critical_reasons l s = [] \<and> soft_reasons l s = []"

section \<open>Bounds\<close>

definition limits_ok :: "resource_limits \<Rightarrow> bool" where
  "limits_ok l \<longleftrightarrow> 1 \<le> max_request_concurrency l \<and> 1 \<le> max_worker_count l \<and> 0 \<le> max_browser_instances l"

definition governor_ok :: "resource_limits \<Rightarrow> governor \<Rightarrow> bool" where
  "governor_ok l g \<longleftrightarrow> gv_limits g = l \<and> 1 \<le> gv_requests g \<and> gv_requests g \<le> max_request_concurrency l \<and>
     1 \<le> gv_workers g \<and> gv_workers g \<le> max_worker_count l \<and> gv_streak g < 3"

lemma limits_ok_normalized: "limits_ok (normalized_limits l)"
  by (simp add: limits_ok_def normalized_bounds)

lemma governor_ok_new: "governor_ok (normalized_limits l) (new_governor l)"
  using normalized_bounds [of l] by (simp add: governor_ok_def new_governor_def Let_def)

lemma gv_limits_update:
  "gv_limits (g\<lparr>gv_streak := n, gv_requests := r, gv_workers := w\<rparr>) = gv_limits g"
  "gv_limits (g\<lparr>gv_streak := n\<rparr>) = gv_limits g"
  by simp_all

lemma move_ceilings_limits [simp]: "gv_limits (move_ceilings c s g) = gv_limits g"
  unfolding move_ceilings_def Let_def by (simp only: if_distrib [of gv_limits] gv_limits_update if_cancel)

lemma govern_limits [simp]: "gv_limits (snd (govern s g)) = gv_limits g"
  by (simp add: govern_def Let_def)

lemma govern_state:
  "gv_requests (snd (govern s g)) = gv_requests (move_ceilings (critical_reasons (gv_limits g) s \<noteq> []) (soft_reasons (gv_limits g) s \<noteq> []) g)"
  "gv_workers (snd (govern s g)) = gv_workers (move_ceilings (critical_reasons (gv_limits g) s \<noteq> []) (soft_reasons (gv_limits g) s \<noteq> []) g)"
  "gv_streak (snd (govern s g)) = gv_streak (move_ceilings (critical_reasons (gv_limits g) s \<noteq> []) (soft_reasons (gv_limits g) s \<noteq> []) g)"
  by (simp_all add: govern_def Let_def)

lemma move_ceilings_ok:
  assumes "limits_ok l" and "governor_ok l g"
  shows "governor_ok l (move_ceilings c s g)"
proof -
  have m: "1 \<le> max_request_concurrency l" "1 \<le> max_worker_count l" using assms(1) by (simp_all add: limits_ok_def)
  have g: "gv_limits g = l" "1 \<le> gv_requests g" "gv_requests g \<le> max_request_concurrency l"
      "1 \<le> gv_workers g" "gv_workers g \<le> max_worker_count l" "gv_streak g < 3"
    using assms(2) by (simp_all add: governor_ok_def)
  consider "c" | "\<not> c" "s" | "\<not> c" "\<not> s" "gv_streak g = 2" | "\<not> c" "\<not> s" "gv_streak g < 2"
    using g(6) by linarith
  then show ?thesis
  proof cases
    case 1
    with m g show ?thesis by (simp add: governor_ok_def move_ceilings_def Let_def min.coboundedI1)
  next
    case 2
    have "1 \<le> (max_request_concurrency l + 1) div 2" "1 \<le> (max_worker_count l + 1) div 2" using m by presburger+
    with 2 m g show ?thesis by (simp add: governor_ok_def move_ceilings_def Let_def min.coboundedI1)
  next
    case 3
    with m g show ?thesis by (simp add: governor_ok_def move_ceilings_def Let_def)
  next
    case 4
    with g show ?thesis by (simp add: governor_ok_def move_ceilings_def Let_def)
  qed
qed

lemma govern_ok:
  assumes "limits_ok l" and "governor_ok l g"
  shows "governor_ok l (snd (govern s g))"
proof -
  note ok = move_ceilings_ok [OF assms, of "critical_reasons (gv_limits g) s \<noteq> []" "soft_reasons (gv_limits g) s \<noteq> []"]
  have "gv_limits g = l" using assms(2) by (simp only: governor_ok_def)
  with ok show ?thesis unfolding governor_ok_def by (simp only: govern_state govern_limits)
qed

lemma govern_all_ok: "limits_ok l \<Longrightarrow> governor_ok l g \<Longrightarrow> governor_ok l (govern_all ss g)"
  by (induction ss arbitrary: g) (simp_all add: govern_ok)

lemma governor_reachable_ok: "governor_ok (normalized_limits l) (govern_all ss (new_governor l))"
  by (intro govern_all_ok limits_ok_normalized governor_ok_new)

text \<open>The reasons and the decision.\<close>

lemma disk_critical_reason: "''disk-critical'' \<in> set (critical_reasons l s) \<longleftrightarrow> disk_critical l s"
  by (simp add: critical_reasons_def)

lemma govern_answer:
  "fst (govern s g) = pressure_decision (max_browser_instances (gv_limits g)) (gv_requests (snd (govern s g)))
     (gv_workers (snd (govern s g))) (critical_reasons (gv_limits g) s) (soft_reasons (gv_limits g) s)"
  "gv_last (snd (govern s g)) = fst (govern s g)"
  by (simp_all add: govern_def Let_def)

lemma pressure_decision_ceilings:
  "rd_requests (pressure_decision b r w crit soft) = r" "rd_workers (pressure_decision b r w crit soft) = w"
  "rd_admit_runs (pressure_decision b r w crit soft) \<longleftrightarrow> ''disk-critical'' \<notin> set crit"
  "rd_pressure (pressure_decision b r w crit soft) =
     (if crit \<noteq> [] then CriticalPressure else if soft \<noteq> [] then Elevated else Normal)"
  by (simp_all add: pressure_decision_def Let_def)

lemma pressure_decision_browsers:
  assumes "0 \<le> b"
  shows "0 \<le> rd_browsers (pressure_decision b r w crit soft) \<and> rd_browsers (pressure_decision b r w crit soft) \<le> b"
proof -
  have "0 \<le> max 1 (b div 2)" "max 1 (b div 2) \<le> b" if "b \<noteq> 0" using assms that by auto
  then show ?thesis using assms by (simp add: pressure_decision_def Let_def)
qed

lemma lowered:
  assumes "crit \<or> soft" and "1 \<le> gv_requests g"
  shows "gv_requests (move_ceilings crit soft g) \<le> gv_requests g"
  using assms by (auto simp: move_ceilings_def Let_def)

lemma cut_to_a_quarter: "gv_requests (move_ceilings True soft g) \<le> max 1 (max_request_concurrency (gv_limits g) div 4)"
  by (simp add: move_ceilings_def Let_def min.coboundedI2)

text \<open>Whatever the governor has seen, its next decision keeps at least one request and one worker and never more than
  the normalised limits; new runs are admitted exactly while the disk is not critically full; a critical
  measurement cuts the request ceiling to a quarter at once and admits no browser; and no sample under pressure
  raises the ceiling.\<close>

lemma governor_bounds:
  assumes "g = govern_all history (new_governor limits)" and "l = normalized_limits limits" and "govern s g = (d, g')"
  shows "1 \<le> rd_requests d \<and> rd_requests d \<le> max_request_concurrency l \<and> 1 \<le> rd_workers d \<and>
    rd_workers d \<le> max_worker_count l \<and> 0 \<le> rd_browsers d \<and> rd_browsers d \<le> max_browser_instances l \<and>
    (rd_admit_runs d \<longleftrightarrow> \<not> disk_critical l s) \<and>
    (critical_reasons l s \<noteq> [] \<longrightarrow> rd_pressure d = CriticalPressure \<and> \<not> rd_admit_browser d \<and>
       rd_requests d \<le> max 1 (max_request_concurrency l div 4)) \<and>
    (\<not> calm l s \<longrightarrow> rd_requests d \<le> gv_requests g) \<and> governor_snapshot g' = d"
proof -
  have ok: "governor_ok l g" unfolding assms(1,2) by (rule governor_reachable_ok)
  then have l: "gv_limits g = l" and r: "1 \<le> gv_requests g" by (simp_all add: governor_ok_def)
  have lo: "limits_ok l" unfolding assms(2) by (rule limits_ok_normalized)
  have d: "d = pressure_decision (max_browser_instances l) (gv_requests g') (gv_workers g') (critical_reasons l s) (soft_reasons l s)"
    and last: "gv_last g' = d"
    using govern_answer [of s g] unfolding assms(3) l by simp_all
  have ok': "governor_ok l g'" using govern_ok [OF lo ok, of s] unfolding assms(3) by simp
  have req: "gv_requests g' = gv_requests (move_ceilings (critical_reasons l s \<noteq> []) (soft_reasons l s \<noteq> []) g)"
    using govern_state(1) [of s g] unfolding assms(3) l by simp
  have "0 \<le> max_browser_instances l" using lo by (simp add: limits_ok_def)
  note browsers = pressure_decision_browsers [OF this, of "gv_requests g'" "gv_workers g'" "critical_reasons l s" "soft_reasons l s",
      folded d]
  have critical: "rd_pressure d = CriticalPressure \<and> \<not> rd_admit_browser d \<and> rd_requests d \<le> max 1 (max_request_concurrency l div 4)"
    if "critical_reasons l s \<noteq> []"
  proof -
    have "rd_requests d \<le> max 1 (max_request_concurrency l div 4)"
      unfolding d pressure_decision_ceilings req using that cut_to_a_quarter [of "soft_reasons l s \<noteq> []" g] l by simp
    moreover have "\<not> rd_admit_browser d" unfolding d using that by (simp add: pressure_decision_def Let_def)
    ultimately show ?thesis unfolding d pressure_decision_ceilings using that by simp
  qed
  have "rd_requests d \<le> gv_requests g" if "\<not> calm l s"
    unfolding d pressure_decision_ceilings req using that lowered [OF _ r] by (simp add: calm_def)
  moreover have "1 \<le> rd_requests d" "rd_requests d \<le> max_request_concurrency l" "1 \<le> rd_workers d" "rd_workers d \<le> max_worker_count l"
    using ok' unfolding d pressure_decision_ceilings governor_ok_def by blast+
  moreover have "rd_admit_runs d \<longleftrightarrow> \<not> disk_critical l s"
    unfolding d pressure_decision_ceilings disk_critical_reason by (rule refl)
  moreover have "governor_snapshot g' = d" using last by (simp add: governor_snapshot_def)
  ultimately show ?thesis using browsers critical by blast
qed

definition default_limits :: resource_limits where
  "default_limits = \<lparr>max_request_concurrency = 8, max_worker_count = 4, max_browser_instances = 4, cpu_soft_percent = 88,
     cpu_critical_percent = 97, memory_soft_percent = 82, memory_critical_percent = 92,
     min_free_disk_bytes = 512 * 1024 * 1024, critical_free_disk_bytes = 128 * 1024 * 1024\<rparr>"

definition sample :: "rat \<Rightarrow> resource_snapshot" where
  "sample cpu = \<lparr>cpu_percent = Some (Finite cpu), memory_percent = Some NotFinite, disk_free_bytes = None,
     active_browser_instances = 0\<rparr>"

lemma default_normalized: "normalized_limits default_limits = default_limits"
  by (simp add: normalized_limits_def default_limits_def Let_def)

lemma governor_bounds_witness:
  "rd_requests (fst (govern (sample 98) (new_governor default_limits))) \<le> 2 \<and>
   rd_admit_runs (fst (govern (sample 98) (new_governor default_limits)))"
proof -
  obtain d g' where step: "govern (sample 98) (new_governor default_limits) = (d, g')" by (cases "govern (sample 98) (new_governor default_limits)")
  have crit: "critical_reasons default_limits (sample 98) \<noteq> []" and disk: "\<not> disk_critical default_limits (sample 98)"
    by (simp_all add: critical_reasons_def sample_def default_limits_def at_least_def disk_critical_def)
  have "new_governor default_limits = govern_all [] (new_governor default_limits)" by simp
  note bounds = governor_bounds [OF this default_normalized [symmetric] step]
  have "rd_requests d \<le> max 1 (max_request_concurrency default_limits div 4)" using bounds crit by blast
  moreover have "rd_admit_runs d" using bounds disk by blast
  moreover have "max 1 (max_request_concurrency default_limits div 4) = 2" by (simp add: default_limits_def)
  ultimately show ?thesis unfolding step fst_conv by (simp only: simp_thms)
qed

section \<open>Recovery\<close>

lemma calm_step:
  assumes "governor_ok l g" and "calm l s"
  shows "gv_requests (snd (govern s g)) = min (max_request_concurrency l) (gv_requests g + (if gv_streak g = 2 then 1 else 0)) \<and>
    gv_workers (snd (govern s g)) = min (max_worker_count l) (gv_workers g + (if gv_streak g = 2 then 1 else 0)) \<and>
    gv_streak (snd (govern s g)) = (gv_streak g + 1) mod 3"
proof -
  have l: "gv_limits g = l" and "gv_streak g < 3" and m: "gv_requests g \<le> max_request_concurrency l" "gv_workers g \<le> max_worker_count l"
    using assms(1) by (simp_all add: governor_ok_def)
  then consider "gv_streak g = 2" | "gv_streak g = 0" | "gv_streak g = 1" by linarith
  then show ?thesis
    unfolding govern_state l using assms(2) m by cases (simp_all add: calm_def move_ceilings_def Let_def l)
qed

lemma calm_run:
  assumes "limits_ok l" and "governor_ok l g" and "\<forall>s \<in> set ss. calm l s"
  shows "gv_requests (govern_all ss g) = min (max_request_concurrency l) (gv_requests g + int ((gv_streak g + length ss) div 3)) \<and>
    gv_workers (govern_all ss g) = min (max_worker_count l) (gv_workers g + int ((gv_streak g + length ss) div 3))"
  using assms(2,3)
proof (induction ss arbitrary: g)
  case Nil
  then show ?case by (simp add: governor_ok_def)
next
  case (Cons s ss)
  let ?g = "snd (govern s g)"
  have step: "gv_requests ?g = min (max_request_concurrency l) (gv_requests g + (if gv_streak g = 2 then 1 else 0))"
      "gv_workers ?g = min (max_worker_count l) (gv_workers g + (if gv_streak g = 2 then 1 else 0))"
      "gv_streak ?g = (gv_streak g + 1) mod 3"
    using calm_step [OF Cons.prems(1), of s] Cons.prems(2) by auto
  have rest: "gv_requests (govern_all ss ?g) = min (max_request_concurrency l) (gv_requests ?g + int ((gv_streak ?g + length ss) div 3))"
      "gv_workers (govern_all ss ?g) = min (max_worker_count l) (gv_workers ?g + int ((gv_streak ?g + length ss) div 3))"
    using Cons.IH [OF govern_ok [OF assms(1) Cons.prems(1), of s]] Cons.prems(2) by auto
  have "gv_streak g < 3" using Cons.prems(1) by (simp add: governor_ok_def)
  then consider "gv_streak g = 2" | "gv_streak g < 2" by linarith
  then show ?case
  proof cases
    case 1
    have "(2 + Suc (length ss)) div 3 = Suc (length ss div 3)" by simp
    moreover have "min m (min m (r + 1) + int k) = min m (r + int (Suc k))" for m r :: int and k by simp
    ultimately show ?thesis using 1 step rest by simp
  next
    case 2
    moreover have "min m (min m r + int k) = min m (r + int k)" for m r :: int and k by simp
    ultimately show ?thesis using step rest by simp
  qed
qed

lemma last_calm: "calm (gv_limits g) s \<Longrightarrow> rd_pressure (gv_last (snd (govern s g))) = Normal"
  by (simp add: govern_answer pressure_decision_ceilings calm_def)

lemma govern_all_limits [simp]: "gv_limits (govern_all ss g) = gv_limits g"
  by (induction ss arbitrary: g) simp_all

text \<open>Pressure is not held against the program for good: after any history, a run of calm samples, three for each slot
  of the larger limit, brings both ceilings back to the configured limits; and they come back gently: after \<open>n\<close> calm
  samples no ceiling has risen by more than one slot for every three samples, begun ones included.\<close>

lemma governor_recovers:
  assumes "g = govern_all history (new_governor limits)" and "l = normalized_limits limits" and "\<forall>s \<in> set ss. calm l s"
  shows "(3 * nat (max (max_request_concurrency l) (max_worker_count l)) \<le> length ss \<longrightarrow>
      gv_requests (govern_all ss g) = max_request_concurrency l \<and> gv_workers (govern_all ss g) = max_worker_count l \<and>
      rd_pressure (governor_snapshot (govern_all ss g)) = Normal) \<and>
    gv_requests (govern_all ss g) \<le> gv_requests g + int ((length ss + 2) div 3) \<and>
    gv_workers (govern_all ss g) \<le> gv_workers g + int ((length ss + 2) div 3)"
proof -
  have ok: "governor_ok l g" unfolding assms(1,2) by (rule governor_reachable_ok)
  have lo: "limits_ok l" unfolding assms(2) by (rule limits_ok_normalized)
  note run = calm_run [OF lo ok assms(3)]
  have g: "1 \<le> gv_requests g" "1 \<le> gv_workers g" "gv_streak g < 3" "gv_limits g = l" using ok by (simp_all add: governor_ok_def)
  have m: "1 \<le> max_request_concurrency l" using lo by (simp add: limits_ok_def)
  have le: "(gv_streak g + length ss) div 3 \<le> (length ss + 2) div 3" using g(3) by (intro div_le_mono) simp
  have full: "gv_requests (govern_all ss g) = max_request_concurrency l" "gv_workers (govern_all ss g) = max_worker_count l"
      "rd_pressure (governor_snapshot (govern_all ss g)) = Normal"
    if long: "3 * nat (max (max_request_concurrency l) (max_worker_count l)) \<le> length ss"
  proof -
    have "nat (max (max_request_concurrency l) (max_worker_count l)) \<le> (gv_streak g + length ss) div 3" using long by linarith
    then show "gv_requests (govern_all ss g) = max_request_concurrency l" "gv_workers (govern_all ss g) = max_worker_count l"
      using run g(1,2) by linarith+
    have "ss \<noteq> []" using long m by auto
    then obtain ts s where ss: "ss = ts @ [s]" by (meson rev_exhaust)
    then have "calm (gv_limits (govern_all ts g)) s" using assms(3) g(4) by simp
    from last_calm [OF this] show "rd_pressure (governor_snapshot (govern_all ss g)) = Normal"
      by (simp add: ss governor_snapshot_def)
  qed
  moreover have "gv_requests (govern_all ss g) \<le> gv_requests g + int ((length ss + 2) div 3)"
      "gv_workers (govern_all ss g) \<le> gv_workers g + int ((length ss + 2) div 3)"
    using run le by linarith+
  ultimately show ?thesis by blast
qed

lemma governor_recovers_witness:
  "gv_requests (govern_all (replicate 24 (sample 10)) (govern_all [sample 98, sample 90] (new_governor default_limits))) = 8"
proof -
  have "calm default_limits (sample 10)"
    by (simp add: calm_def critical_reasons_def soft_reasons_def sample_def default_limits_def at_least_def disk_critical_def
        disk_low_def browser_saturated_def)
  then have "\<forall>s \<in> set (replicate 24 (sample 10)). calm default_limits s" by (metis in_set_replicate)
  from governor_recovers [OF refl default_normalized [symmetric] this, of "[sample 98, sample 90]"]
  show ?thesis by (simp only: default_limits_def resource_limits.simps length_replicate)
qed

end
