(* ===== verification/ZeroTrust.thy ===== *)
theory ZeroTrust
  imports PyJson TraceContext
begin

text \<open>
  The zero-trust policies of \<^verbatim>\<open>security/zero_trust.py\<close>: a policy read from untrusted JSON, its dictionary, and the
  evaluation of a JSON context against it. The addresses are those of the \<open>ipaddress\<close> library, given by two
  functions.
\<close>

section \<open>\<open>int\<close> of a JSON value\<close>

definition digit_val :: "char \<Rightarrow> nat option" where
  "digit_val c = (if 48 \<le> ord_c c \<and> ord_c c \<le> 57 then Some (ord_c c - 48) else None)"

fun digits_val :: "nat \<Rightarrow> pystr \<Rightarrow> nat option" where
  "digits_val n [] = Some n"
| "digits_val n (c # cs) = (case digit_val c of None \<Rightarrow> None | Some d \<Rightarrow> digits_val (10 * n + d) cs)"

definition split_sign :: "pystr \<Rightarrow> int \<times> pystr" where
  "split_sign s = (case s of [] \<Rightarrow> (1, [])
     | c # cs \<Rightarrow> if c = CHR ''-'' then (-1, cs) else if c = CHR ''+'' then (1, cs) else (1, s))"

text \<open>\<open>int(str)\<close>: single underscores may stand between digits, of which there are at most 4300.\<close>

definition int_text :: "pystr \<Rightarrow> exc + int" where
  "int_text s =
     (let (sign, t) = split_sign (py_strip s); parts = split_on (CHR ''_'') t in
      if [] \<in> set parts \<or> 4300 < length (concat parts) then Inl ValueError
      else (case digits_val 0 (concat parts) of None \<Rightarrow> Inl ValueError | Some n \<Rightarrow> Inr (sign * int n)))"

text \<open>\<open>int(float)\<close> from the \<open>repr\<close> of the float: truncation towards zero. (Above \<open>2 ^ 53\<close> the shortest text may stand for
  another integer; the callers clamp far below.)\<close>

definition int_float :: "pystr \<Rightarrow> exc + int" where
  "int_float s =
     (let (sign, t) = split_sign s in
      if t = ''inf'' then Inl OverflowError
      else (case split_on (CHR ''e'') t of
          [] \<Rightarrow> Inl ValueError
        | m # ex \<Rightarrow>
            ebind (if ex = [] then Inr 0 else int_text (concat ex)) (\<lambda>e.
              let parts = split_on (CHR ''.'') m; k = e - int (length (concat (tl parts))) in
              (case digits_val 0 (concat parts) of
                 None \<Rightarrow> Inl ValueError
               | Some n \<Rightarrow> Inr (sign * (if 0 \<le> k then int n * 10 ^ nat k else int n div 10 ^ nat (- k)))))))"

definition int_of_json :: "json \<Rightarrow> exc + int" where
  "int_of_json v = (case v of
     JNull \<Rightarrow> Inl TypeError
   | JBool b \<Rightarrow> Inr (if b then 1 else 0)
   | JInt i \<Rightarrow> Inr i
   | JNum t \<Rightarrow> int_float t
   | JStr s \<Rightarrow> int_text s
   | _ \<Rightarrow> Inl TypeError)"

section \<open>Policies\<close>

record ip_library =
  network_text :: "pystr \<Rightarrow> pystr option"
  valid_address :: "pystr \<Rightarrow> bool"
  network_has :: "pystr \<Rightarrow> pystr \<Rightarrow> bool option"

record zt_policy =
  zt_enabled :: bool
  zt_managed :: bool
  zt_compliant :: bool
  zt_mfa :: bool
  zt_trust :: "pystr list"
  zt_max_risk :: int
  zt_max_age :: int
  zt_cidrs :: "pystr list"
  zt_permissions :: "pystr list"
  zt_workers :: "pystr list"
  zt_servers :: "pystr list"
  zt_relay :: bool
  zt_no_p2p :: bool
  zt_transport :: pystr

definition DEFAULT_NETWORK_TRUST :: "pystr list" where
  "DEFAULT_NETWORK_TRUST = [''trusted'', ''private'', ''unknown'']"

definition sorted_set :: "pystr list \<Rightarrow> pystr list" where
  "sorted_set xs = sort (remdups xs)"

definition clean_values :: "pystr list \<Rightarrow> pystr list" where
  "clean_values xs = sorted_set (filter (\<lambda>s. s \<noteq> []) (map py_strip xs))"

definition tuple_values :: "(json \<Rightarrow> pystr) \<Rightarrow> json \<Rightarrow> pystr list" where
  "tuple_values show v = (case v of
     JStr s \<Rightarrow> clean_values (map py_strip (split_on (CHR '','') s))
   | JArr xs \<Rightarrow> clean_values (map (str_of show) xs)
   | _ \<Rightarrow> [])"

definition valid_cidrs :: "ip_library \<Rightarrow> (json \<Rightarrow> pystr) \<Rightarrow> json \<Rightarrow> pystr list" where
  "valid_cidrs ip show v = sorted_set (List.map_filter (network_text ip) (tuple_values show v))"

definition get_or :: "(pystr \<times> json) list \<Rightarrow> pystr \<Rightarrow> json \<Rightarrow> json" where
  "get_or kvs k dflt = (case map_of kvs k of None \<Rightarrow> dflt | Some v \<Rightarrow> v)"

definition clamp :: "int \<Rightarrow> int \<Rightarrow> int" where
  "clamp hi v = max 0 (min hi v)"

definition known_transport :: "pystr \<Rightarrow> pystr" where
  "known_transport t = (if t \<in> {[], ''tls13'', ''tls12'', ''local''} then t else [])"

definition trust_levels :: "(json \<Rightarrow> pystr) \<Rightarrow> json \<Rightarrow> pystr list" where
  "trust_levels show v =
     (let named = map py_casefold (tuple_values show v)
      in sorted_set (if named = [] then DEFAULT_NETWORK_TRUST else named))"

text \<open>The policy of a mapping whose two bounds were read as \<open>risk\<close> and \<open>age\<close>.\<close>

definition policy_of :: "ip_library \<Rightarrow> (json \<Rightarrow> pystr) \<Rightarrow> (pystr \<times> json) list \<Rightarrow> int \<Rightarrow> int \<Rightarrow> zt_policy" where
  "policy_of ip show raw risk age =
     (let flag = (\<lambda>k. truthy (get_or raw k (JBool False)));
          values = (\<lambda>k. tuple_values show (get_or raw k (JArr [])))
      in \<lparr>zt_enabled = flag ''enabled'', zt_managed = flag ''require_managed_device'',
          zt_compliant = flag ''require_compliant_device'', zt_mfa = flag ''require_mfa'',
          zt_trust = trust_levels show (get_or raw ''allowed_network_trust'' (JArr (map JStr DEFAULT_NETWORK_TRUST))),
          zt_max_risk = clamp 100 risk, zt_max_age = clamp (7 * 24 * 60 * 60) age,
          zt_cidrs = valid_cidrs ip show (get_or raw ''allowed_source_cidrs'' (JArr [])),
          zt_permissions = values ''required_permissions'', zt_workers = values ''allowed_worker_ids'',
          zt_servers = values ''allowed_server_ids'', zt_relay = flag ''require_server_relay'',
          zt_no_p2p = flag ''deny_peer_to_peer'',
          zt_transport = known_transport (py_casefold (py_strip (str_of show (get_or raw ''required_transport'' (JStr [])))))\<rparr>)"

definition policy_from_mapping :: "ip_library \<Rightarrow> (json \<Rightarrow> pystr) \<Rightarrow> (pystr \<times> json) list \<Rightarrow> exc + zt_policy" where
  "policy_from_mapping ip show raw =
     ebind (int_of_json (get_or raw ''max_risk_score'' (JInt 100))) (\<lambda>risk.
     ebind (int_of_json (get_or raw ''max_auth_age_seconds'' (JInt (24 * 60 * 60)))) (\<lambda>age.
       Inr (policy_of ip show raw risk age)))"

definition policy_dict :: "zt_policy \<Rightarrow> (pystr \<times> json) list" where
  "policy_dict p =
     [(''enabled'', JBool (zt_enabled p)), (''require_managed_device'', JBool (zt_managed p)),
      (''require_compliant_device'', JBool (zt_compliant p)), (''require_mfa'', JBool (zt_mfa p)),
      (''allowed_network_trust'', JArr (map JStr (zt_trust p))), (''max_risk_score'', JInt (zt_max_risk p)),
      (''max_auth_age_seconds'', JInt (zt_max_age p)), (''allowed_source_cidrs'', JArr (map JStr (zt_cidrs p))),
      (''required_permissions'', JArr (map JStr (zt_permissions p))),
      (''allowed_worker_ids'', JArr (map JStr (zt_workers p))), (''allowed_server_ids'', JArr (map JStr (zt_servers p))),
      (''require_server_relay'', JBool (zt_relay p)), (''deny_peer_to_peer'', JBool (zt_no_p2p p)),
      (''required_transport'', JStr (zt_transport p))]"

section \<open>Evaluation\<close>

record zt_decision =
  ztd_allowed :: bool
  ztd_code :: pystr
  ztd_reasons :: "pystr list"
  ztd_risk :: int

definition source_allowed :: "ip_library \<Rightarrow> pystr \<Rightarrow> pystr list \<Rightarrow> bool" where
  "source_allowed ip source networks =
     (if networks = [] then True
      else valid_address ip (py_strip source) \<and>
        (\<exists>cidr \<in> set networks. network_has ip cidr (py_strip source) = Some True))"

definition is_true :: "(pystr \<times> json) list \<Rightarrow> pystr \<Rightarrow> bool" where
  "is_true ctx k \<longleftrightarrow> map_of ctx k = Some (JBool True)"

text \<open>An integer member; \<open>dflt\<close> stands for a value that is no number.\<close>

definition int_member :: "(pystr \<times> json) list \<Rightarrow> pystr \<Rightarrow> json \<Rightarrow> int \<Rightarrow> (int \<Rightarrow> int) \<Rightarrow> int" where
  "int_member ctx k missing dflt bound = (case int_of_json (get_or ctx k missing) of Inl _ \<Rightarrow> dflt | Inr i \<Rightarrow> bound i)"

definition risk_of :: "(pystr \<times> json) list \<Rightarrow> int" where
  "risk_of ctx = int_member ctx ''risk_score'' (JInt 100) 100 (clamp 100)"

definition auth_age_of :: "zt_policy \<Rightarrow> (pystr \<times> json) list \<Rightarrow> int" where
  "auth_age_of p ctx = int_member ctx ''auth_age_seconds'' (JInt (zt_max_age p + 1)) (zt_max_age p + 1) (max 0)"

definition network_trust_of :: "(json \<Rightarrow> pystr) \<Rightarrow> (pystr \<times> json) list \<Rightarrow> pystr" where
  "network_trust_of show ctx =
     (let t = py_casefold (py_strip (str_of show (get_or ctx ''network_trust'' (JStr ''unknown'')))) in
      if t = [] then ''unknown'' else t)"

text \<open>The supplied permissions: the items of any iterable.\<close>

definition permissions_of :: "(json \<Rightarrow> pystr) \<Rightarrow> (pystr \<times> json) list \<Rightarrow> exc + pystr list" where
  "permissions_of show ctx = (case get_or ctx ''permissions'' (JArr []) of
     JArr xs \<Rightarrow> Inr (filter (\<lambda>s. s \<noteq> []) (map (str_of show) xs))
   | JStr s \<Rightarrow> Inr (map (\<lambda>c. [c]) s)
   | JObj kvs \<Rightarrow> Inr (filter (\<lambda>s. s \<noteq> []) (map fst kvs))
   | _ \<Rightarrow> Inl TypeError)"

definition text_member :: "(json \<Rightarrow> pystr) \<Rightarrow> (pystr \<times> json) list \<Rightarrow> pystr \<Rightarrow> pystr" where
  "text_member show ctx k = str_of show (get_or ctx k (JStr []))"

definition zt_reasons :: "ip_library \<Rightarrow> (json \<Rightarrow> pystr) \<Rightarrow> zt_policy \<Rightarrow> (pystr \<times> json) list \<Rightarrow> pystr list \<Rightarrow> pystr list" where
  "zt_reasons ip show p ctx supplied =
     (if zt_max_risk p < risk_of ctx then [''risk_score''] else []) @
     (if zt_managed p \<and> \<not> is_true ctx ''managed_device'' then [''managed_device''] else []) @
     (if zt_compliant p \<and> \<not> is_true ctx ''device_compliant'' then [''device_compliant''] else []) @
     (if zt_mfa p \<and> \<not> is_true ctx ''mfa_verified'' then [''mfa_verified''] else []) @
     (if network_trust_of show ctx \<notin> set (zt_trust p) then [''network_trust''] else []) @
     (if zt_max_age p < auth_age_of p ctx then [''auth_age''] else []) @
     (if zt_cidrs p \<noteq> [] \<and> \<not> source_allowed ip (text_member show ctx ''source_ip'') (zt_cidrs p) then [''source_ip''] else []) @
     (if \<exists>q \<in> set (zt_permissions p). q \<notin> set supplied then [''permissions''] else []) @
     (if zt_workers p \<noteq> [] \<and> text_member show ctx ''worker_id'' \<notin> set (zt_workers p) then [''worker_id''] else []) @
     (if zt_servers p \<noteq> [] \<and> text_member show ctx ''server_id'' \<notin> set (zt_servers p) then [''server_id''] else []) @
     (if zt_relay p \<and> \<not> is_true ctx ''via_server_relay'' then [''server_relay''] else []) @
     (if zt_no_p2p p \<and> is_true ctx ''peer_to_peer'' then [''peer_to_peer''] else []) @
     (if zt_transport p \<noteq> [] \<and> py_casefold (py_strip (text_member show ctx ''transport'')) \<noteq> zt_transport p
      then [''transport''] else [])"

definition zt_evaluate :: "ip_library \<Rightarrow> (json \<Rightarrow> pystr) \<Rightarrow> zt_policy \<Rightarrow> (pystr \<times> json) list \<Rightarrow> exc + zt_decision" where
  "zt_evaluate ip show p ctx =
     (if \<not> zt_enabled p
      then Inr \<lparr>ztd_allowed = True, ztd_code = ''ZERO_TRUST_DISABLED'', ztd_reasons = [], ztd_risk = 0\<rparr>
      else ebind (permissions_of show ctx) (\<lambda>supplied.
        let reasons = zt_reasons ip show p ctx supplied in
        if reasons \<noteq> []
        then Inr \<lparr>ztd_allowed = False, ztd_code = ''ZERO_TRUST_CONTEXT_DENIED'', ztd_reasons = sorted_set reasons,
               ztd_risk = risk_of ctx\<rparr>
        else Inr \<lparr>ztd_allowed = True, ztd_code = ''ZERO_TRUST_ALLOW'', ztd_reasons = [], ztd_risk = risk_of ctx\<rparr>))"

section \<open>Policies are kept by their dictionary\<close>

lemma str_of_JStr [simp]: "str_of show (JStr s) = s"
  by (simp add: str_of_def)

definition tidy :: "pystr list \<Rightarrow> bool" where
  "tidy xs \<longleftrightarrow> sorted xs \<and> distinct xs \<and> (\<forall>x \<in> set xs. x \<noteq> [] \<and> py_strip x = x)"

lemma set_sorted_set [simp]: "set (sorted_set xs) = set xs"
  by (simp add: sorted_set_def)

lemma sorted_set_Nil [simp]: "sorted_set xs = [] \<longleftrightarrow> xs = []"
  using set_sorted_set [of xs] by (metis set_empty)

lemma sorted_set_sorted: "sorted (sorted_set xs) \<and> distinct (sorted_set xs)"
  by (simp add: sorted_set_def)

lemma sorted_set_id: "sorted xs \<Longrightarrow> distinct xs \<Longrightarrow> sorted_set xs = xs"
  by (simp add: sorted_set_def distinct_remdups_id sorted_sort_id)

lemma tidy_clean: "tidy (clean_values xs)"
  using sorted_set_sorted by (auto simp: tidy_def clean_values_def)

lemma clean_tidy: "tidy xs \<Longrightarrow> clean_values xs = xs"
proof -
  assume tidy: "tidy xs"
  then have "map py_strip xs = xs" by (simp add: tidy_def map_idI)
  moreover have "filter (\<lambda>s. s \<noteq> []) xs = xs" using tidy by (simp add: tidy_def filter_id_conv)
  ultimately show ?thesis using tidy by (simp add: clean_values_def sorted_set_id tidy_def)
qed

lemma tidy_tuple_values: "tidy (tuple_values show v)"
  by (simp add: tuple_values_def tidy_clean split: json.split) (simp add: tidy_def)

lemma tuple_values_texts: "tidy xs \<Longrightarrow> tuple_values show (JArr (map JStr xs)) = xs"
  by (simp add: tuple_values_def comp_def clean_tidy)

text \<open>Folding case twice is folding it once, and keeps a text stripped.\<close>

lemma ord_char_of: "n < 256 \<Longrightarrow> ord_c (char_of (n :: nat)) = n"
  by (simp add: ord_c_def)

lemma casefold_c_cases:
  obtains "casefold_c c = [c]" | "casefold_c c = ''ss''"
  | n :: nat where "casefold_c c = [char_of n]" "97 \<le> n \<and> n \<le> 122 \<or> 224 \<le> n \<and> n \<le> 254"
proof (cases "65 \<le> ord_c c \<and> ord_c c \<le> 90 \<or> 192 \<le> ord_c c \<and> ord_c c \<le> 222 \<and> ord_c c \<noteq> 215")
  case True
  then have "casefold_c c = [char_of (ord_c c + 32)]" by (simp add: casefold_c_def Let_def)
  moreover have "97 \<le> ord_c c + 32 \<and> ord_c c + 32 \<le> 122 \<or> 224 \<le> ord_c c + 32 \<and> ord_c c + 32 \<le> 254" using True by linarith
  ultimately show ?thesis by (rule that(3))
next
  case False
  then show ?thesis using that(1,2) by (cases "ord_c c = 223") (auto simp: casefold_c_def Let_def)
qed

lemma casefold_c_small:
  "97 \<le> n \<and> n \<le> 122 \<or> 224 \<le> n \<and> n \<le> (254 :: nat) \<Longrightarrow> casefold_c (char_of n) = [char_of n] \<and> \<not> py_isspace (char_of n)"
  using ord_char_of [of n] by (auto simp: casefold_c_def py_isspace_def Let_def)

lemma casefold_c_twice: "py_casefold (casefold_c c) = casefold_c c"
proof (cases c rule: casefold_c_cases)
  case 2
  have "py_casefold ''ss'' = ''ss''" by code_simp
  with 2 show ?thesis by simp
next
  case (3 n)
  with casefold_c_small [of n] show ?thesis by (simp add: py_casefold_def)
qed (simp add: py_casefold_def)

lemma casefold_twice [simp]: "py_casefold (py_casefold s) = py_casefold s"
proof (induction s)
  case (Cons c s)
  have "py_casefold (c # s) = casefold_c c @ py_casefold s" by (simp add: py_casefold_def)
  with Cons show ?case by (simp add: casefold_append casefold_c_twice)
qed (simp add: py_casefold_def)

lemma casefold_c_ends:
  assumes "\<not> py_isspace c"
  shows "casefold_c c \<noteq> [] \<and> \<not> py_isspace (hd (casefold_c c)) \<and> \<not> py_isspace (last (casefold_c c))"
proof (cases c rule: casefold_c_cases)
  case 2
  have "\<not> py_isspace CHR ''s''" by code_simp
  with 2 show ?thesis by simp
next
  case (3 n)
  with casefold_c_small [of n] show ?thesis by simp
qed (simp add: assms)

lemma casefold_stripped:
  assumes "s \<noteq> []" and "py_strip s = s"
  shows "py_casefold s \<noteq> [] \<and> py_strip (py_casefold s) = py_casefold s"
proof -
  have ends: "\<not> py_isspace (hd s)" "\<not> py_isspace (last s)" using strip_ends [of s] assms by auto
  have "s = hd s # tl s" "s = butlast s @ [last s]" using assms(1) by simp_all
  then have parts: "py_casefold s = casefold_c (hd s) @ py_casefold (tl s)" "py_casefold s = py_casefold (butlast s) @ casefold_c (last s)"
    by (metis casefold_append py_casefold_def concat.simps list.simps(8,9) append_Nil2)+
  have "\<not> py_isspace (hd (py_casefold s))" using casefold_c_ends [OF ends(1)] parts(1) by simp
  moreover have "\<not> py_isspace (last (py_casefold s))" using casefold_c_ends [OF ends(2)] parts(2) by simp
  moreover have "py_casefold s \<noteq> []" using casefold_c_ends [OF ends(1)] parts(1) by simp
  ultimately show ?thesis using strip_fixed [of "py_casefold s"] by blast
qed

lemma known_transport_fixed: "known_transport (py_casefold (py_strip (known_transport t))) = known_transport t"
proof -
  have "known_transport (py_casefold (py_strip u)) = u" if "u \<in> {[], ''tls13'', ''tls12'', ''local''}" for u
    using that by (elim insertE emptyE) (simp_all only:, code_simp+)
  moreover have "known_transport t \<in> {[], ''tls13'', ''tls12'', ''local''}" by (simp add: known_transport_def)
  ultimately show ?thesis by blast
qed

text \<open>The \<open>ipaddress\<close> library prints a network in its normal form, a text without spaces.\<close>

definition networks_normal :: "ip_library \<Rightarrow> bool" where
  "networks_normal ip \<longleftrightarrow> (\<forall>x d. network_text ip x = Some d \<longrightarrow> network_text ip d = Some d \<and> d \<noteq> [] \<and> py_strip d = d)"

definition policy_normal :: "ip_library \<Rightarrow> zt_policy \<Rightarrow> bool" where
  "policy_normal ip p \<longleftrightarrow> tidy (zt_trust p) \<and> zt_trust p \<noteq> [] \<and> map py_casefold (zt_trust p) = zt_trust p \<and>
     clamp 100 (zt_max_risk p) = zt_max_risk p \<and> clamp (7 * 24 * 60 * 60) (zt_max_age p) = zt_max_age p \<and>
     tidy (zt_cidrs p) \<and> (\<forall>d \<in> set (zt_cidrs p). network_text ip d = Some d) \<and>
     tidy (zt_permissions p) \<and> tidy (zt_workers p) \<and> tidy (zt_servers p) \<and>
     known_transport (py_casefold (py_strip (zt_transport p))) = zt_transport p"

lemma clamp_twice: "0 \<le> hi \<Longrightarrow> clamp hi (clamp hi v) = clamp hi v"
  by (auto simp: clamp_def)

lemma trust_normal: "tidy (trust_levels show v) \<and> trust_levels show v \<noteq> [] \<and> map py_casefold (trust_levels show v) = trust_levels show v"
proof -
  have dflt: "\<forall>x \<in> set DEFAULT_NETWORK_TRUST. x \<noteq> [] \<and> py_strip x = x \<and> py_casefold x = x" by code_simp
  have folded: "\<forall>x \<in> set (map py_casefold (tuple_values show v)). x \<noteq> [] \<and> py_strip x = x \<and> py_casefold x = x"
    using tidy_tuple_values [of "show" v] casefold_stripped by (simp add: tidy_def)
  obtain xs where xs: "trust_levels show v = sorted_set xs" "xs \<noteq> []" "\<forall>x \<in> set xs. x \<noteq> [] \<and> py_strip x = x \<and> py_casefold x = x"
  proof (cases "map py_casefold (tuple_values show v) = []")
    case True
    then have "trust_levels show v = sorted_set DEFAULT_NETWORK_TRUST" by (simp add: trust_levels_def)
    moreover have "DEFAULT_NETWORK_TRUST \<noteq> []" by (simp add: DEFAULT_NETWORK_TRUST_def)
    ultimately show ?thesis using that dflt by blast
  next
    case False
    then have "trust_levels show v = sorted_set (map py_casefold (tuple_values show v))" by (simp add: trust_levels_def Let_def)
    with False folded show ?thesis using that by blast
  qed
  have "set (sorted_set xs) \<noteq> {}" using xs(2) by simp
  then have "sorted_set xs \<noteq> []" by force
  moreover have "map py_casefold (sorted_set xs) = sorted_set xs" using xs(3) by (intro map_idI) simp
  ultimately show ?thesis using xs(3) sorted_set_sorted [of xs] by (simp add: xs(1) tidy_def)
qed

lemma cidrs_normal:
  assumes "networks_normal ip"
  shows "tidy (valid_cidrs ip show v) \<and> (\<forall>d \<in> set (valid_cidrs ip show v). network_text ip d = Some d)"
proof -
  have "d \<noteq> [] \<and> py_strip d = d \<and> network_text ip d = Some d" if "d \<in> set (valid_cidrs ip show v)" for d
    using that assms by (auto simp: valid_cidrs_def networks_normal_def List.map_filter_def)
  then show ?thesis using sorted_set_sorted by (auto simp: tidy_def valid_cidrs_def)
qed

lemma policy_from_mapping_normal:
  assumes "networks_normal ip" and "policy_from_mapping ip show raw = Inr p"
  shows "policy_normal ip p"
proof -
  obtain risk age where p: "p = policy_of ip show raw risk age" using assms(2) unfolding policy_from_mapping_def by auto
  show ?thesis
    unfolding policy_normal_def p policy_of_def Let_def zt_policy.select_convs
    using trust_normal cidrs_normal [OF assms(1)] tidy_tuple_values known_transport_fixed by (simp add: clamp_twice)
qed

lemma map_filter_fixed: "\<forall>d \<in> set xs. f d = Some d \<Longrightarrow> List.map_filter f xs = xs"
  by (induction xs) (simp_all add: List.map_filter_simps)

lemma cidrs_kept: "tidy xs \<Longrightarrow> \<forall>d \<in> set xs. network_text ip d = Some d \<Longrightarrow> valid_cidrs ip show (JArr (map JStr xs)) = xs"
  by (simp add: valid_cidrs_def tuple_values_texts map_filter_fixed sorted_set_id tidy_def)

lemma policy_dict_members:
  "get_or (policy_dict p) ''enabled'' d = JBool (zt_enabled p)"
  "get_or (policy_dict p) ''require_managed_device'' d = JBool (zt_managed p)"
  "get_or (policy_dict p) ''require_compliant_device'' d = JBool (zt_compliant p)"
  "get_or (policy_dict p) ''require_mfa'' d = JBool (zt_mfa p)"
  "get_or (policy_dict p) ''allowed_network_trust'' d = JArr (map JStr (zt_trust p))"
  "get_or (policy_dict p) ''max_risk_score'' d = JInt (zt_max_risk p)"
  "get_or (policy_dict p) ''max_auth_age_seconds'' d = JInt (zt_max_age p)"
  "get_or (policy_dict p) ''allowed_source_cidrs'' d = JArr (map JStr (zt_cidrs p))"
  "get_or (policy_dict p) ''required_permissions'' d = JArr (map JStr (zt_permissions p))"
  "get_or (policy_dict p) ''allowed_worker_ids'' d = JArr (map JStr (zt_workers p))"
  "get_or (policy_dict p) ''allowed_server_ids'' d = JArr (map JStr (zt_servers p))"
  "get_or (policy_dict p) ''require_server_relay'' d = JBool (zt_relay p)"
  "get_or (policy_dict p) ''deny_peer_to_peer'' d = JBool (zt_no_p2p p)"
  "get_or (policy_dict p) ''required_transport'' d = JStr (zt_transport p)"
  by (simp_all add: get_or_def policy_dict_def)

lemma policy_kept:
  assumes "policy_normal ip p"
  shows "policy_from_mapping ip show (policy_dict p) = Inr p"
proof -
  have "truthy (JBool b) = b" for b by (simp add: truthy_def)
  moreover have "int_of_json (JInt i) = Inr i" for i by (simp add: int_of_json_def)
  moreover have "sorted_set (zt_trust p) = zt_trust p" using assms by (simp add: policy_normal_def tidy_def sorted_set_id)
  moreover have "trust_levels show (JArr (map JStr (zt_trust p))) = zt_trust p"
    using assms calculation by (simp add: trust_levels_def Let_def tuple_values_texts policy_normal_def)
  ultimately show ?thesis
    using assms unfolding policy_from_mapping_def policy_of_def Let_def policy_dict_members policy_normal_def
    by (simp add: tuple_values_texts cidrs_kept)
qed

text \<open>A policy read from any mapping is kept by its dictionary: reading the dictionary back gives the same policy, however
  untidy the mapping it came from (repeated, unsorted or padded names, numbers out of range or given as text, unknown
  transports, networks that are none), provided only that the address library prints networks in their normal
  form.\<close>

lemma policy_roundtrip:
  assumes "networks_normal ip" and "policy_from_mapping ip show raw = Inr p"
  shows "policy_from_mapping ip show (policy_dict p) = Inr p"
  by (rule policy_kept [OF policy_from_mapping_normal [OF assms]])

definition ex_ip :: ip_library where
  "ex_ip = \<lparr>network_text = (\<lambda>s. if s = ''10.0.0.0/8'' \<or> s = ''10.1.2.3/8'' then Some ''10.0.0.0/8'' else None),
     valid_address = (\<lambda>s. s = ''10.1.2.3''), network_has = (\<lambda>c a. Some (c = ''10.0.0.0/8'' \<and> a = ''10.1.2.3''))\<rparr>"

definition ex_mapping :: "(pystr \<times> json) list" where
  "ex_mapping = [(''enabled'', JInt 1), (''max_risk_score'', JStr '' 1_50 ''), (''max_auth_age_seconds'', JNum ''1.5e+3''),
     (''allowed_network_trust'', JStr ''Trusted, private ,trusted''), (''allowed_source_cidrs'', JArr [JStr ''10.1.2.3/8'', JStr ''x'']),
     (''deny_peer_to_peer'', JBool True), (''required_transport'', JStr ''TLS13'')]"

definition ex_policy :: zt_policy where
  "ex_policy = \<lparr>zt_enabled = True, zt_managed = False, zt_compliant = False, zt_mfa = False, zt_trust = [''private'', ''trusted''],
     zt_max_risk = 100, zt_max_age = 1500, zt_cidrs = [''10.0.0.0/8''], zt_permissions = [], zt_workers = [], zt_servers = [],
     zt_relay = False, zt_no_p2p = True, zt_transport = ''tls13''\<rparr>"

lemma ex_mapping_policy: "policy_from_mapping ex_ip (\<lambda>_. []) ex_mapping = Inr ex_policy"
  by code_simp

lemma ex_networks_normal: "networks_normal ex_ip"
proof -
  have "py_strip ''10.0.0.0/8'' = ''10.0.0.0/8''" by code_simp
  then show ?thesis by (auto simp: networks_normal_def ex_ip_def split: if_splits)
qed

lemma policy_roundtrip_witness: "policy_from_mapping ex_ip (\<lambda>_. []) (policy_dict ex_policy) = Inr ex_policy"
  by (rule policy_roundtrip [OF ex_networks_normal ex_mapping_policy])

section \<open>Stricter policies\<close>

lemma unit_if_Nil: "(if b then [x] else []) = [] \<longleftrightarrow> \<not> b"
  by simp

lemma zt_reasons_Nil:
  "zt_reasons ip show p ctx supplied = [] \<longleftrightarrow>
     risk_of ctx \<le> zt_max_risk p \<and>
     (zt_managed p \<longrightarrow> is_true ctx ''managed_device'') \<and> (zt_compliant p \<longrightarrow> is_true ctx ''device_compliant'') \<and>
     (zt_mfa p \<longrightarrow> is_true ctx ''mfa_verified'') \<and> network_trust_of show ctx \<in> set (zt_trust p) \<and>
     auth_age_of p ctx \<le> zt_max_age p \<and>
     (zt_cidrs p \<noteq> [] \<longrightarrow> source_allowed ip (text_member show ctx ''source_ip'') (zt_cidrs p)) \<and>
     set (zt_permissions p) \<subseteq> set supplied \<and>
     (zt_workers p \<noteq> [] \<longrightarrow> text_member show ctx ''worker_id'' \<in> set (zt_workers p)) \<and>
     (zt_servers p \<noteq> [] \<longrightarrow> text_member show ctx ''server_id'' \<in> set (zt_servers p)) \<and>
     (zt_relay p \<longrightarrow> is_true ctx ''via_server_relay'') \<and> (zt_no_p2p p \<longrightarrow> \<not> is_true ctx ''peer_to_peer'') \<and>
     (zt_transport p \<noteq> [] \<longrightarrow> py_casefold (py_strip (text_member show ctx ''transport'')) = zt_transport p)"
  unfolding zt_reasons_def append_is_Nil_conv unit_if_Nil de_Morgan_conj not_not not_less by blast

lemma zt_evaluate_allowed:
  assumes "zt_enabled p"
  shows "zt_evaluate ip show p ctx = Inr d \<and> ztd_allowed d \<longleftrightarrow>
    (\<exists>supplied. permissions_of show ctx = Inr supplied \<and> zt_reasons ip show p ctx supplied = []) \<and>
    d = \<lparr>ztd_allowed = True, ztd_code = ''ZERO_TRUST_ALLOW'', ztd_reasons = [], ztd_risk = risk_of ctx\<rparr>"
  using assms unfolding zt_evaluate_def Let_def
  by (cases "permissions_of show ctx") (auto split: if_splits)

text \<open>\<open>p'\<close> demands at least what \<open>p\<close> demands. An empty list of networks, workers or servers demands nothing.\<close>

definition narrower :: "pystr list \<Rightarrow> pystr list \<Rightarrow> bool" where
  "narrower xs' xs \<longleftrightarrow> xs = [] \<or> xs' \<noteq> [] \<and> set xs' \<subseteq> set xs"

definition stricter :: "zt_policy \<Rightarrow> zt_policy \<Rightarrow> bool" where
  "stricter p' p \<longleftrightarrow> zt_max_risk p' \<le> zt_max_risk p \<and> zt_max_age p' \<le> zt_max_age p \<and>
     (zt_managed p \<longrightarrow> zt_managed p') \<and> (zt_compliant p \<longrightarrow> zt_compliant p') \<and> (zt_mfa p \<longrightarrow> zt_mfa p') \<and>
     set (zt_trust p') \<subseteq> set (zt_trust p) \<and> narrower (zt_cidrs p') (zt_cidrs p) \<and>
     set (zt_permissions p) \<subseteq> set (zt_permissions p') \<and> narrower (zt_workers p') (zt_workers p) \<and>
     narrower (zt_servers p') (zt_servers p) \<and> (zt_relay p \<longrightarrow> zt_relay p') \<and> (zt_no_p2p p \<longrightarrow> zt_no_p2p p') \<and>
     (zt_transport p \<noteq> [] \<longrightarrow> zt_transport p' = zt_transport p)"

lemma auth_age_stricter:
  assumes "auth_age_of p' ctx \<le> zt_max_age p'" and "zt_max_age p' \<le> zt_max_age p"
  shows "auth_age_of p ctx \<le> zt_max_age p"
proof (cases "map_of ctx ''auth_age_seconds''")
  case None
  with assms(1) show ?thesis by (simp add: auth_age_of_def int_member_def get_or_def int_of_json_def)
next
  case (Some v)
  with assms show ?thesis by (cases "int_of_json v") (simp_all add: auth_age_of_def int_member_def get_or_def)
qed

lemma source_stricter: "source_allowed ip s xs' \<Longrightarrow> narrower xs' xs \<Longrightarrow> source_allowed ip s xs"
  by (auto simp: source_allowed_def narrower_def split: if_splits)

lemma member_narrower: "narrower xs' xs \<Longrightarrow> xs' \<noteq> [] \<longrightarrow> x \<in> set xs' \<Longrightarrow> xs \<noteq> [] \<longrightarrow> x \<in> set xs"
  by (auto simp: narrower_def)

lemma reasons_stricter:
  assumes "stricter p' p" and "zt_reasons ip show p' ctx supplied = []"
  shows "zt_reasons ip show p ctx supplied = []"
proof -
  from assms(1) have bounds: "zt_max_risk p' \<le> zt_max_risk p" "zt_max_age p' \<le> zt_max_age p"
    and trust: "set (zt_trust p') \<subseteq> set (zt_trust p)"
    and nets: "narrower (zt_cidrs p') (zt_cidrs p)" and perms: "set (zt_permissions p) \<subseteq> set (zt_permissions p')"
    and ids: "narrower (zt_workers p') (zt_workers p)" "narrower (zt_servers p') (zt_servers p)"
    and transport: "zt_transport p \<noteq> [] \<longrightarrow> zt_transport p' = zt_transport p"
    unfolding stricter_def by simp_all
  from assms(1) have flags: "zt_managed p \<longrightarrow> zt_managed p'" "zt_compliant p \<longrightarrow> zt_compliant p'" "zt_mfa p \<longrightarrow> zt_mfa p'"
      "zt_relay p \<longrightarrow> zt_relay p'" "zt_no_p2p p \<longrightarrow> zt_no_p2p p'"
    unfolding stricter_def by simp_all
  have r: "risk_of ctx \<le> zt_max_risk p'" "network_trust_of show ctx \<in> set (zt_trust p')" "auth_age_of p' ctx \<le> zt_max_age p'"
      "zt_cidrs p' \<noteq> [] \<longrightarrow> source_allowed ip (text_member show ctx ''source_ip'') (zt_cidrs p')"
      "set (zt_permissions p') \<subseteq> set supplied"
      "zt_workers p' \<noteq> [] \<longrightarrow> text_member show ctx ''worker_id'' \<in> set (zt_workers p')"
      "zt_servers p' \<noteq> [] \<longrightarrow> text_member show ctx ''server_id'' \<in> set (zt_servers p')"
      "zt_transport p' \<noteq> [] \<longrightarrow> py_casefold (py_strip (text_member show ctx ''transport'')) = zt_transport p'"
      "zt_managed p' \<longrightarrow> is_true ctx ''managed_device''" "zt_compliant p' \<longrightarrow> is_true ctx ''device_compliant''"
      "zt_mfa p' \<longrightarrow> is_true ctx ''mfa_verified''" "zt_relay p' \<longrightarrow> is_true ctx ''via_server_relay''"
      "zt_no_p2p p' \<longrightarrow> \<not> is_true ctx ''peer_to_peer''"
    using iffD1 [OF zt_reasons_Nil assms(2)] by - (elim conjE; assumption)+
  have "zt_cidrs p \<noteq> [] \<longrightarrow> source_allowed ip (text_member show ctx ''source_ip'') (zt_cidrs p)"
    using r(4) nets source_stricter [OF _ nets] by (auto simp: narrower_def)
  moreover have "auth_age_of p ctx \<le> zt_max_age p" by (rule auth_age_stricter [OF r(3) bounds(2)])
  moreover have "risk_of ctx \<le> zt_max_risk p" by (rule order_trans [OF r(1) bounds(1)])
  moreover note member_narrower [OF ids(1) r(6)] member_narrower [OF ids(2) r(7)]
  moreover have "zt_transport p \<noteq> [] \<longrightarrow> py_casefold (py_strip (text_member show ctx ''transport'')) = zt_transport p"
    using transport r(8) by auto
  moreover note subset_trans [OF perms r(5)] subsetD [OF trust r(2)]
  ultimately show ?thesis unfolding zt_reasons_Nil using flags r(9-13) by (intro conjI) blast+
qed

text \<open>A context that a policy admits is admitted by every weaker enabled policy: no demand of a policy can be met by
  tightening another. A context without a readable age of its authentication is refused by every enabled
  policy, and a refusal names its reasons, each once and in order.\<close>

lemma zero_trust_monotone:
  assumes "zt_enabled p" and "zt_enabled p'" and "stricter p' p"
    and "zt_evaluate ip show p' ctx = Inr d'" and "zt_evaluate ip show p ctx = Inr d"
  shows "(ztd_allowed d' \<longrightarrow> ztd_allowed d) \<and>
    (ztd_allowed d \<longrightarrow> (\<exists>v i. map_of ctx ''auth_age_seconds'' = Some v \<and> int_of_json v = Inr i \<and> i \<le> zt_max_age p)) \<and>
    (\<not> ztd_allowed d \<longrightarrow> ztd_reasons d \<noteq> [] \<and> sorted (ztd_reasons d) \<and> distinct (ztd_reasons d))"
proof (intro conjI)
  show "ztd_allowed d' \<longrightarrow> ztd_allowed d"
  proof
    assume "ztd_allowed d'"
    then obtain supplied where *: "permissions_of show ctx = Inr supplied" "zt_reasons ip show p' ctx supplied = []"
      using zt_evaluate_allowed [OF assms(2)] assms(4) by blast
    with reasons_stricter [OF assms(3)] have "zt_reasons ip show p ctx supplied = []" by blast
    with * assms(1,5) show "ztd_allowed d" by (auto simp: zt_evaluate_def)
  qed
  show "ztd_allowed d \<longrightarrow> (\<exists>v i. map_of ctx ''auth_age_seconds'' = Some v \<and> int_of_json v = Inr i \<and> i \<le> zt_max_age p)"
  proof
    assume "ztd_allowed d"
    then obtain supplied where "zt_reasons ip show p ctx supplied = []"
      using zt_evaluate_allowed [OF assms(1)] assms(5) by blast
    then have age: "auth_age_of p ctx \<le> zt_max_age p" unfolding zt_reasons_Nil by blast
    show "\<exists>v i. map_of ctx ''auth_age_seconds'' = Some v \<and> int_of_json v = Inr i \<and> i \<le> zt_max_age p"
    proof (cases "map_of ctx ''auth_age_seconds''")
      case None
      with age show ?thesis by (simp add: auth_age_of_def int_member_def get_or_def int_of_json_def)
    next
      case (Some v)
      with age show ?thesis by (cases "int_of_json v") (simp_all add: auth_age_of_def int_member_def get_or_def)
    qed
  qed
  have "ztd_reasons d \<noteq> [] \<and> sorted (ztd_reasons d) \<and> distinct (ztd_reasons d)" if "\<not> ztd_allowed d"
    using assms(1,5) that sorted_set_sorted
    by (cases "permissions_of show ctx") (auto simp: zt_evaluate_def Let_def split: if_splits)
  then show "\<not> ztd_allowed d \<longrightarrow> ztd_reasons d \<noteq> [] \<and> sorted (ztd_reasons d) \<and> distinct (ztd_reasons d)" by blast
qed

definition ex_context :: "(pystr \<times> json) list" where
  "ex_context = [(''risk_score'', JInt 20), (''network_trust'', JStr '' Private''), (''auth_age_seconds'', JStr ''60''),
     (''source_ip'', JStr ''10.1.2.3''), (''transport'', JStr ''TLS13''), (''mfa_verified'', JBool True)]"

lemma zero_trust_monotone_witness:
  "\<exists>d. zt_evaluate ex_ip (\<lambda>_. []) ex_policy ex_context = Inr d \<and> ztd_allowed d"
proof -
  let ?p' = "ex_policy\<lparr>zt_mfa := True, zt_max_risk := 30\<rparr>"
  let ?d = "\<lparr>ztd_allowed = True, ztd_code = ''ZERO_TRUST_ALLOW'', ztd_reasons = [], ztd_risk = 20\<rparr>"
  have p': "zt_evaluate ex_ip (\<lambda>_. []) ?p' ex_context = Inr ?d" by code_simp
  have "\<not> isl (zt_evaluate ex_ip (\<lambda>_. []) ex_policy ex_context)" by code_simp
  then obtain d where d: "zt_evaluate ex_ip (\<lambda>_. []) ex_policy ex_context = Inr d"
    by (cases "zt_evaluate ex_ip (\<lambda>_. []) ex_policy ex_context") simp_all
  have "stricter ?p' ex_policy" by (simp add: stricter_def ex_policy_def narrower_def)
  moreover have "zt_enabled ex_policy" "zt_enabled ?p'" "ztd_allowed ?d" by (simp_all add: ex_policy_def)
  ultimately have "ztd_allowed d" using zero_trust_monotone [of ex_policy ?p' ex_ip "\<lambda>_. []" ex_context ?d d] p' d by blast
  with d show ?thesis by blast
qed

text \<open>A policy that denies peer-to-peer connections admits a context that says nothing about them, or says it as text: of all
  the demands this one alone is not fail-closed.\<close>

lemma peer_to_peer_fails_open:
  "zt_no_p2p ex_policy \<and>
   zt_evaluate ex_ip (\<lambda>_. []) ex_policy ex_context =
     Inr \<lparr>ztd_allowed = True, ztd_code = ''ZERO_TRUST_ALLOW'', ztd_reasons = [], ztd_risk = 20\<rparr> \<and>
   zt_evaluate ex_ip (\<lambda>_. []) ex_policy ((''peer_to_peer'', JStr ''true'') # ex_context) =
     Inr \<lparr>ztd_allowed = True, ztd_code = ''ZERO_TRUST_ALLOW'', ztd_reasons = [], ztd_risk = 20\<rparr> \<and>
   zt_evaluate ex_ip (\<lambda>_. []) ex_policy ((''peer_to_peer'', JBool True) # ex_context) =
     Inr \<lparr>ztd_allowed = False, ztd_code = ''ZERO_TRUST_CONTEXT_DENIED'', ztd_reasons = [''peer_to_peer''], ztd_risk = 20\<rparr>"
  by code_simp

end
