(* ===== verification/Survivability.thy ===== *)
theory Survivability
  imports ResourceGovernor JobSystem ZeroTrust
begin

text \<open>
  The survivability manager of \<^verbatim>\<open>application/survivability.py\<close>, which turns the decisions of the resource governor and the
  failures of components into one runtime state, and the admission of jobs that rests on it. A section is what the manager
  does under one hold of its lock, and the operations are sequences of sections, between which other threads come in. The
  instant and whether the state file can be written are arguments. A pressure handler is a name; what it answers or raises is
  an argument too. The monitor thread itself is left out.
\<close>

section \<open>State\<close>

datatype survival = SvNormal | SvDegraded | SvPressure | SvReadOnly | SvRecovering | SvSafeMode

fun state_value :: "survival \<Rightarrow> pystr" where
  "state_value SvNormal = ''normal''"
| "state_value SvDegraded = ''degraded''"
| "state_value SvPressure = ''resource_pressure''"
| "state_value SvReadOnly = ''read_only''"
| "state_value SvRecovering = ''recovering''"
| "state_value SvSafeMode = ''safe_mode''"

definition all_states :: "survival list" where
  "all_states = [SvNormal, SvDegraded, SvPressure, SvReadOnly, SvRecovering, SvSafeMode]"

definition parse_survival :: "pystr \<Rightarrow> exc + survival" where
  "parse_survival v = (case find (\<lambda>s. state_value s = v) all_states of None \<Rightarrow> Inl ValueError | Some s \<Rightarrow> Inr s)"

record sv_transition =
  tr_sequence :: nat
  tr_timestamp :: pystr
  tr_previous :: survival
  tr_current :: survival
  tr_reason :: pystr
  tr_component :: pystr

record component_row =
  cr_state :: survival
  cr_reason :: pystr
  cr_updated :: pystr
  cr_metadata :: "(pystr \<times> json) list"

datatype pressure_action = HandlerOk pystr "(pystr \<times> json) list" | HandlerFailed pystr pystr

record survivability =
  sv_safe_mode :: bool
  sv_state :: survival
  sv_reason :: pystr
  sv_component :: pystr
  sv_resource :: "(resource_snapshot \<times> resource_decision) option"
  sv_components :: "(pystr \<times> component_row) list"
  sv_handlers :: "pystr list"
  sv_actions :: "(pystr \<times> pressure_action) list"
  sv_history :: "sv_transition list"
  sv_sequence :: nat
  sv_last_at :: pystr
  sv_previous :: "(pystr \<times> json) list"
  sv_file :: "json option"

section \<open>The state file\<close>

definition transition_dict :: "sv_transition \<Rightarrow> json" where
  "transition_dict t = JObj [(''sequence'', JInt (int (tr_sequence t))), (''timestamp'', JStr (tr_timestamp t)),
     (''previous'', JStr (state_value (tr_previous t))), (''current'', JStr (state_value (tr_current t))),
     (''reason'', JStr (tr_reason t)), (''component'', JStr (tr_component t))]"

definition newest :: "nat \<Rightarrow> 'a list \<Rightarrow> 'a list" where
  "newest n xs = drop (length xs - n) xs"

definition state_payload :: "survivability \<Rightarrow> json" where
  "state_payload m = JObj [(''schema'', JStr ''arenyxa.survivability-state/v1''), (''state'', JStr (state_value (sv_state m))),
     (''reason'', JStr (sv_reason m)), (''component'', JStr (sv_component m)), (''updated_at'', JStr (sv_last_at m)),
     (''sequence'', JInt (int (sv_sequence m))), (''history'', JArr (map transition_dict (newest 64 (sv_history m))))]"

text \<open>What is found at start-up: no file, a file that cannot be read or parsed, or a JSON value.\<close>

datatype state_file = NoFile | Unreadable | Parsed json

definition loaded_text :: "(json \<Rightarrow> pystr) \<Rightarrow> (pystr \<times> json) list \<Rightarrow> pystr \<Rightarrow> pystr \<Rightarrow> nat \<Rightarrow> json" where
  "loaded_text show kvs k dflt n = JStr (take n (case map_of kvs k of None \<Rightarrow> dflt | Some v \<Rightarrow> str_of show v))"

definition invalid_state :: "pystr \<Rightarrow> (pystr \<times> json) list" where
  "invalid_state reason = [(''state'', JStr ''invalid''), (''reason'', JStr reason)]"

definition load_previous :: "(json \<Rightarrow> pystr) \<Rightarrow> state_file \<Rightarrow> exc + (pystr \<times> json) list" where
  "load_previous show f = (case f of
     NoFile \<Rightarrow> Inr []
   | Unreadable \<Rightarrow> Inr (invalid_state ''persisted survivability state could not be read'')
   | Parsed (JObj kvs) \<Rightarrow>
       (case int_of_json (case map_of kvs ''sequence'' of None \<Rightarrow> JInt 0 | Some v \<Rightarrow> if truthy v then v else JInt 0) of
          Inr n \<Rightarrow> Inr [(''state'', loaded_text show kvs ''state'' ''unknown'' 64), (''reason'', loaded_text show kvs ''reason'' [] 512),
            (''component'', loaded_text show kvs ''component'' [] 96), (''updated_at'', loaded_text show kvs ''updated_at'' [] 64),
            (''sequence'', JInt (max 0 n))]
        | Inl x \<Rightarrow> if x \<in> {TypeError, ValueError} then Inr (invalid_state ''persisted survivability state could not be read'') else Inl x)
   | Parsed _ \<Rightarrow> Inr (invalid_state ''persisted state was not an object''))"

section \<open>Sections\<close>

text \<open>\<open>_transition_locked\<close>; \<open>writable\<close> says whether the state file can be written.\<close>

definition record_transition :: "pystr \<Rightarrow> bool \<Rightarrow> survival \<Rightarrow> pystr \<Rightarrow> pystr \<Rightarrow> survivability \<Rightarrow> survivability" where
  "record_transition now writable target reason component m =
     (let t = \<lparr>tr_sequence = sv_sequence m + 1, tr_timestamp = now, tr_previous = sv_state m, tr_current = target,
            tr_reason = reason, tr_component = component\<rparr>;
          m1 = m\<lparr>sv_state := target, sv_reason := reason, sv_component := component, sv_last_at := now,
            sv_sequence := sv_sequence m + 1, sv_history := newest 256 (sv_history m @ [t])\<rparr>
      in if writable then m1\<lparr>sv_file := Some (state_payload m1)\<rparr> else m1)"

definition transition_locked :: "pystr \<Rightarrow> bool \<Rightarrow> survival \<Rightarrow> pystr \<Rightarrow> pystr \<Rightarrow> survivability \<Rightarrow> survivability" where
  "transition_locked now writable target reason component m =
     (if sv_state m = target \<and> sv_reason m = reason \<and> sv_component m = component then m
      else record_transition now writable target reason component m)"

definition or_text :: "pystr \<Rightarrow> pystr \<Rightarrow> pystr" where
  "or_text s dflt = (if s = [] then dflt else s)"

definition sv_transition_to :: "pystr \<Rightarrow> bool \<Rightarrow> survival \<Rightarrow> pystr \<Rightarrow> pystr \<Rightarrow> survivability \<Rightarrow> survivability" where
  "sv_transition_to now writable target reason component =
     transition_locked now writable target (take 512 reason) (take 96 (or_text component ''runtime''))"

text \<open>The state of the components: the first one of the highest priority.\<close>

fun state_priority :: "survival \<Rightarrow> nat" where
  "state_priority SvReadOnly = 5"
| "state_priority SvRecovering = 4"
| "state_priority SvPressure = 3"
| "state_priority SvDegraded = 2"
| "state_priority _ = 1"

fun worst_row :: "(pystr \<times> component_row) list \<Rightarrow> (pystr \<times> component_row) option" where
  "worst_row [] = None"
| "worst_row (r # rs) = (case worst_row rs of None \<Rightarrow> Some r
     | Some w \<Rightarrow> if state_priority (cr_state (snd r)) < state_priority (cr_state (snd w)) then Some w else Some r)"

definition derived :: "survivability \<Rightarrow> survival \<times> pystr \<times> pystr" where
  "derived m =
     (if sv_safe_mode m then (SvSafeMode, ''explicit safe mode'', ''runtime'')
      else (case worst_row (sv_components m) of
          None \<Rightarrow> (SvNormal, ''runtime healthy'', ''runtime'')
        | Some (k, row) \<Rightarrow>
            if cr_state row = SvNormal then (SvNormal, ''runtime healthy'', ''runtime'')
            else (cr_state row, or_text (cr_reason row) ''component degraded'', k)))"

definition derive_from_components :: "pystr \<Rightarrow> bool \<Rightarrow> survivability \<Rightarrow> survivability" where
  "derive_from_components now writable m =
     (let (target, reason, component) = derived m in transition_locked now writable target reason component m)"

definition bounded_value :: "(json \<Rightarrow> pystr) \<Rightarrow> json \<Rightarrow> json" where
  "bounded_value show v = (case v of JStr s \<Rightarrow> JStr (take 512 s) | JArr _ \<Rightarrow> JStr (take 512 (show v)) | JObj _ \<Rightarrow> JStr (take 512 (show v)) | _ \<Rightarrow> v)"

definition bounded_mapping :: "(json \<Rightarrow> pystr) \<Rightarrow> (pystr \<times> json) list \<Rightarrow> (pystr \<times> json) list" where
  "bounded_mapping show kvs = fold (\<lambda>(k, v). AList.update (take 96 k) (bounded_value show v)) (take 32 kvs) []"

definition component_name :: "pystr \<Rightarrow> pystr" where
  "component_name name = take 96 (or_text name ''component'')"

definition new_row :: "(json \<Rightarrow> pystr) \<Rightarrow> pystr \<Rightarrow> survival \<Rightarrow> pystr \<Rightarrow> (pystr \<times> json) list \<Rightarrow> component_row" where
  "new_row show now st reason metadata =
     \<lparr>cr_state = st, cr_reason = take 512 reason, cr_updated = now, cr_metadata = bounded_mapping show metadata\<rparr>"

definition store_component :: "pystr \<Rightarrow> component_row \<Rightarrow> survivability \<Rightarrow> survivability" where
  "store_component k row m =
     (let rows = AList.update k row (sv_components m) in
      m\<lparr>sv_components := (if 128 < length rows \<and> fst (hd rows) \<noteq> k then tl rows else rows)\<rparr>)"

definition drop_component :: "pystr \<Rightarrow> survivability \<Rightarrow> survivability" where
  "drop_component k m = m\<lparr>sv_components := AList.delete k (sv_components m)\<rparr>"

definition register_handler :: "pystr \<Rightarrow> survivability \<Rightarrow> exc + survivability" where
  "register_handler name m =
     (let key = take 96 (or_text name ''handler'') in
      if key \<notin> set (sv_handlers m) \<and> 32 \<le> length (sv_handlers m) then Inl ValueError
      else Inr (m\<lparr>sv_handlers := (if key \<in> set (sv_handlers m) then sv_handlers m else sv_handlers m @ [key])\<rparr>))"

definition apply_handlers :: "(pystr \<Rightarrow> pystr \<Rightarrow> pystr + (pystr \<times> json) list) \<Rightarrow> (json \<Rightarrow> pystr) \<Rightarrow> pystr \<Rightarrow> survivability \<Rightarrow> survivability" where
  "apply_handlers handle show level m =
     (let updates = map (\<lambda>k. (k, case handle k level of Inr r \<Rightarrow> HandlerOk level (bounded_mapping show r)
          | Inl e \<Rightarrow> HandlerFailed level (take 512 e))) (sv_handlers m)
      in if updates = [] then m else m\<lparr>sv_actions := updates\<rparr>)"

definition new_survivability :: "bool \<Rightarrow> pystr \<Rightarrow> bool \<Rightarrow> (pystr \<times> json) list \<Rightarrow> json option \<Rightarrow> survivability" where
  "new_survivability safe now writable previous found =
     (let st = (if safe then SvSafeMode else SvNormal); reason = (if safe then ''explicit safe mode'' else ''runtime healthy'') in
      record_transition now writable st reason ''bootstrap''
        \<lparr>sv_safe_mode = safe, sv_state = st, sv_reason = reason, sv_component = ''bootstrap'', sv_resource = None,
         sv_components = [], sv_handlers = [], sv_actions = [], sv_history = [], sv_sequence = 0, sv_last_at = now,
         sv_previous = previous, sv_file = found\<rparr>)"

section \<open>Operations\<close>

definition mark_component ::
    "(json \<Rightarrow> pystr) \<Rightarrow> pystr \<Rightarrow> bool \<Rightarrow> pystr \<Rightarrow> pystr \<Rightarrow> pystr \<Rightarrow> (pystr \<times> json) list \<Rightarrow> survivability \<Rightarrow> exc + survivability" where
  "mark_component show now writable name st reason metadata m =
     ebind (parse_survival st) (\<lambda>s.
       Inr (derive_from_components now writable (store_component (component_name name) (new_row show now s reason metadata) m)))"

definition clear_component :: "pystr \<Rightarrow> bool \<Rightarrow> pystr \<Rightarrow> survivability \<Rightarrow> survivability" where
  "clear_component now writable name m = derive_from_components now writable (drop_component name m)"

definition begin_recovery :: "pystr \<Rightarrow> bool \<Rightarrow> pystr \<Rightarrow> pystr \<Rightarrow> survivability \<Rightarrow> survivability" where
  "begin_recovery now writable reason component = sv_transition_to now writable SvRecovering reason component"

definition complete_recovery :: "pystr \<Rightarrow> bool \<Rightarrow> pystr \<Rightarrow> survivability \<Rightarrow> survivability" where
  "complete_recovery now writable component m = derive_from_components now writable (clear_component now writable component m)"

text \<open>What \<open>refresh\<close> does with a decision: the level for the handlers, and the state unless the components decide it.\<close>

definition decided :: "resource_decision \<Rightarrow> pystr \<times> (survival \<times> pystr) option" where
  "decided d =
     (if ''disk-critical'' \<in> set (rd_reasons d)
      then (''critical'', Some (SvReadOnly, ''critical free-disk threshold reached; noncritical writes must stop''))
      else if rd_pressure d = CriticalPressure
      then (''critical'', Some (SvPressure, ''critical CPU/memory/resource pressure; heavy work admission reduced''))
      else if rd_pressure d = Elevated
      then (''warning'', Some (SvPressure, ''resource pressure detected; adaptive ceilings reduced''))
      else (''normal'', None))"

definition settle :: "pystr \<Rightarrow> bool \<Rightarrow> resource_decision \<Rightarrow> survivability \<Rightarrow> survivability" where
  "settle now writable d m = (case snd (decided d) of
     Some (st, reason) \<Rightarrow> sv_transition_to now writable st reason ''resources'' m
   | None \<Rightarrow> derive_from_components now writable m)"

definition refresh ::
    "(pystr \<Rightarrow> pystr \<Rightarrow> pystr + (pystr \<times> json) list) \<Rightarrow> (json \<Rightarrow> pystr) \<Rightarrow> pystr \<Rightarrow> bool \<Rightarrow> resource_snapshot \<Rightarrow>
     survivability \<times> governor option \<Rightarrow> survivability \<times> governor option" where
  "refresh handle show now writable snap c = (case c of (m, g) \<Rightarrow>
     if sv_safe_mode m then (sv_transition_to now writable SvSafeMode ''explicit safe mode'' ''runtime'' m, g)
     else (case g of
         None \<Rightarrow> (derive_from_components now writable m, None)
       | Some gv \<Rightarrow> (let (d, gv') = govern snap gv in
           (settle now writable d (apply_handlers handle show (fst (decided d)) (m\<lparr>sv_resource := Some (snap, d)\<rparr>)), Some gv'))))"

definition sv_admission :: "survivability \<Rightarrow> (pystr \<times> bool) list" where
  "sv_admission m = (let st = sv_state m in
     [(''read'', True), (''diagnostics'', True), (''audit'', True),
      (''new_heavy_jobs'', st \<notin> {SvReadOnly, SvPressure, SvRecovering, SvSafeMode}),
      (''noncritical_writes'', st \<noteq> SvReadOnly), (''network_capture'', st \<noteq> SvRecovering)])"

end
