(* ===== verification/SurvivabilityProperties.thy ===== *)
theory SurvivabilityProperties
  imports Survivability
begin

text \<open>
  The properties of the survivability manager: its journal under every interleaving of its sections, the state file it reads
  back, and which jobs are admitted after a sample of the resources and after an incident.
\<close>

section \<open>Interleavings\<close>

datatype sv_section =
    SecStore "json \<Rightarrow> pystr" pystr pystr survival pystr "(pystr \<times> json) list"
  | SecDrop pystr
  | SecDerive pystr bool
  | SecTransition pystr bool survival pystr pystr
  | SecSample resource_snapshot resource_decision
  | SecHandlers "pystr \<Rightarrow> pystr \<Rightarrow> pystr + (pystr \<times> json) list" "json \<Rightarrow> pystr" pystr
  | SecRegister pystr

fun sv_step :: "sv_section \<Rightarrow> survivability \<Rightarrow> survivability" where
  "sv_step (SecStore show now name st reason metadata) m = store_component (component_name name) (new_row show now st reason metadata) m"
| "sv_step (SecDrop name) m = drop_component name m"
| "sv_step (SecDerive now writable) m = derive_from_components now writable m"
| "sv_step (SecTransition now writable st reason component) m = sv_transition_to now writable st reason component m"
| "sv_step (SecSample snap d) m = m\<lparr>sv_resource := Some (snap, d)\<rparr>"
| "sv_step (SecHandlers handle show level) m = apply_handlers handle show level m"
| "sv_step (SecRegister name) m = (case register_handler name m of Inl x \<Rightarrow> m | Inr m1 \<Rightarrow> m1)"

definition sv_run :: "sv_section list \<Rightarrow> survivability \<Rightarrow> survivability" where
  "sv_run ss m = fold sv_step ss m"

lemma sv_run_simps [simp]: "sv_run [] m = m" "sv_run (s # ss) m = sv_run ss (sv_step s m)"
  by (simp_all add: sv_run_def)

text \<open>The operations are sequences of sections.\<close>

lemma mark_is_sections:
  "mark_component show now w name st reason md m =
     ebind (parse_survival st) (\<lambda>s. Inr (sv_run [SecStore show now name s reason md, SecDerive now w] m))"
  by (simp add: mark_component_def)

lemma clear_is_sections: "clear_component now w name m = sv_run [SecDrop name, SecDerive now w] m"
  by (simp add: clear_component_def)

lemma refresh_is_sections: "\<exists>ss. fst (refresh handle show now w snap (m, g)) = sv_run ss m"
proof -
  consider "sv_safe_mode m" | "\<not> sv_safe_mode m" "g = None" | gv where "\<not> sv_safe_mode m" "g = Some gv" by (cases g) auto
  then show ?thesis
  proof cases
    case 1
    then have "fst (refresh handle show now w snap (m, g)) = sv_run [SecTransition now w SvSafeMode ''explicit safe mode'' ''runtime''] m"
      by (simp add: refresh_def)
    then show ?thesis by blast
  next
    case 2
    then have "fst (refresh handle show now w snap (m, g)) = sv_run [SecDerive now w] m" by (simp add: refresh_def)
    then show ?thesis by blast
  next
    case 3
    let ?d = "fst (govern snap gv)"
    let ?last = "case snd (decided ?d) of None \<Rightarrow> SecDerive now w | Some (st, reason) \<Rightarrow> SecTransition now w st reason ''resources''"
    have "fst (refresh handle show now w snap (m, g)) = sv_run [SecSample snap ?d, SecHandlers handle show (fst (decided ?d)), ?last] m"
      using 3 by (simp add: refresh_def settle_def split_beta split: option.split)
    then show ?thesis by blast
  qed
qed

section \<open>The journal and the bounds\<close>

definition follows :: "sv_transition \<Rightarrow> sv_transition \<Rightarrow> bool" where
  "follows a b \<longleftrightarrow> tr_sequence b = tr_sequence a + 1 \<and> tr_previous b = tr_current a"

definition sv_journal_ok :: "survivability \<Rightarrow> bool" where
  "sv_journal_ok m \<longleftrightarrow> sv_history m \<noteq> [] \<and> length (sv_history m) \<le> 256 \<and> successively follows (sv_history m) \<and>
     tr_sequence (last (sv_history m)) = sv_sequence m \<and> tr_current (last (sv_history m)) = sv_state m"

definition texts_ok :: "survivability \<Rightarrow> bool" where
  "texts_ok m \<longleftrightarrow> length (sv_reason m) \<le> 512 \<and> length (sv_component m) \<le> 96"

definition rows_ok :: "survivability \<Rightarrow> bool" where
  "rows_ok m \<longleftrightarrow> length (sv_components m) \<le> 128 \<and> distinct (map fst (sv_components m)) \<and>
     (\<forall>(k, row)\<in>set (sv_components m). length k \<le> 96 \<and> length (cr_reason row) \<le> 512 \<and> length (cr_metadata row) \<le> 32)"

definition handlers_ok :: "survivability \<Rightarrow> bool" where
  "handlers_ok m \<longleftrightarrow> length (sv_handlers m) \<le> 32 \<and> distinct (sv_handlers m) \<and> length (sv_actions m) \<le> 32"

lemma newest_props:
  assumes "0 < n"
  shows "length (newest n xs) \<le> n" and "xs \<noteq> [] \<Longrightarrow> newest n xs \<noteq> []" and "xs \<noteq> [] \<Longrightarrow> last (newest n xs) = last xs"
proof -
  show "length (newest n xs) \<le> n" by (simp add: newest_def)
  assume xs: "xs \<noteq> []"
  then have "length xs - n < length xs" using assms by simp
  then show "newest n xs \<noteq> []" "last (newest n xs) = last xs" by (simp_all add: newest_def)
qed

lemma successively_newest: "successively P xs \<Longrightarrow> successively P (newest n xs)"
  using successively_append_iff [of P "take (length xs - n) xs" "drop (length xs - n) xs"] by (simp add: newest_def)

lemma record_fields [simp]:
  "sv_components (record_transition now w t r c m) = sv_components m" "sv_handlers (record_transition now w t r c m) = sv_handlers m"
  "sv_actions (record_transition now w t r c m) = sv_actions m" "sv_safe_mode (record_transition now w t r c m) = sv_safe_mode m"
  "sv_state (record_transition now w t r c m) = t" "sv_reason (record_transition now w t r c m) = r"
  "sv_component (record_transition now w t r c m) = c" "sv_sequence (record_transition now w t r c m) = sv_sequence m + 1"
  by (simp_all add: record_transition_def Let_def)

lemma transition_fields [simp]:
  "sv_components (transition_locked now w t r c m) = sv_components m" "sv_handlers (transition_locked now w t r c m) = sv_handlers m"
  "sv_actions (transition_locked now w t r c m) = sv_actions m" "sv_safe_mode (transition_locked now w t r c m) = sv_safe_mode m"
  "sv_state (transition_locked now w t r c m) = t" "sv_reason (transition_locked now w t r c m) = r"
  "sv_component (transition_locked now w t r c m) = c"
  by (auto simp: transition_locked_def)

lemma record_journal:
  assumes "sv_history m = [] \<or> sv_journal_ok m"
  shows "sv_journal_ok (record_transition now w t r c m)"
proof -
  let ?e = "\<lparr>tr_sequence = sv_sequence m + 1, tr_timestamp = now, tr_previous = sv_state m, tr_current = t, tr_reason = r, tr_component = c\<rparr>"
  have "successively follows (sv_history m @ [?e])"
    using assms by (auto simp: sv_journal_ok_def follows_def successively_append_iff)
  moreover have "sv_history (record_transition now w t r c m) = newest 256 (sv_history m @ [?e])"
    by (simp add: record_transition_def Let_def)
  ultimately show ?thesis
    by (simp add: sv_journal_ok_def newest_props successively_newest)
qed

lemma transition_journal: "sv_journal_ok m \<Longrightarrow> sv_journal_ok (transition_locked now w t r c m)"
  by (simp add: transition_locked_def record_journal)

lemma bounded_mapping_length: "length (bounded_mapping show kvs) \<le> 32"
proof -
  have "length (fold (\<lambda>(k, v). AList.update (take 96 k) (bounded_value show v)) xs ys) \<le> length ys + length xs" for xs ys
  proof (induction xs arbitrary: ys)
    case (Cons x xs)
    have "length (AList.update k v zs) \<le> Suc (length zs)" for k and v :: json and zs by (induction zs) auto
    then have "length (AList.update (take 96 (fst x)) (bounded_value show (snd x)) ys) \<le> Suc (length ys)" .
    with Cons.IH [of "AList.update (take 96 (fst x)) (bounded_value show (snd x)) ys"] show ?case by (simp add: split_beta)
  qed simp
  from this [of "take 32 kvs" "[]"] show ?thesis by (simp add: bounded_mapping_def)
qed

lemma update_member: "(a, b) \<in> set (AList.update k v xs) \<Longrightarrow> (a, b) = (k, v) \<or> (a, b) \<in> set xs"
  by (induction xs) (auto split: if_splits)

lemma update_length: "length (AList.update k v xs) = (if k \<in> fst ` set xs then length xs else Suc (length xs))"
  by (induction xs) auto

lemma update_first: "k \<notin> fst ` set xs \<Longrightarrow> AList.update k v xs = xs @ [(k, v)]"
  by (induction xs) auto

lemma set_tl: "set (tl xs) \<subseteq> set xs"
  by (cases xs) auto

lemma store_rows:
  assumes "rows_ok m" and "length k \<le> 96" and "length (cr_reason row) \<le> 512" and "length (cr_metadata row) \<le> 32"
  shows "rows_ok (store_component k row m)"
proof -
  let ?rows = "AList.update k row (sv_components m)"
  have fit: "\<forall>(k, row)\<in>set ?rows. length k \<le> 96 \<and> length (cr_reason row) \<le> 512 \<and> length (cr_metadata row) \<le> 32"
    using assms by (auto simp: rows_ok_def dest!: update_member)
  have d: "distinct (map fst ?rows)" using assms(1) by (simp add: rows_ok_def distinct_update)
  have len: "128 < length ?rows \<Longrightarrow> length ?rows = 129 \<and> fst (hd ?rows) \<noteq> k"
    using assms(1) by (cases "sv_components m") (auto simp: rows_ok_def update_length update_first split: if_splits)
  show ?thesis
  proof (cases "128 < length ?rows")
    case True
    with len have "sv_components (store_component k row m) = tl ?rows" by (simp add: store_component_def Let_def)
    then show ?thesis using set_tl [of ?rows] fit d len [OF True] by (auto simp: rows_ok_def map_tl distinct_tl)
  next
    case False
    then show ?thesis using fit d by (simp add: rows_ok_def store_component_def Let_def)
  qed
qed

lemma drop_rows:
  assumes "rows_ok m"
  shows "rows_ok (drop_component k m)"
proof -
  let ?rows = "filter (\<lambda>(k', _). k \<noteq> k') (sv_components m)"
  have "distinct (map fst ?rows)" using assms by (simp add: rows_ok_def distinct_map_filter)
  moreover have "length ?rows \<le> 128" using assms length_filter_le order_trans unfolding rows_ok_def by blast
  moreover have "\<forall>(k, row)\<in>set ?rows. length k \<le> 96 \<and> length (cr_reason row) \<le> 512 \<and> length (cr_metadata row) \<le> 32"
    using assms unfolding rows_ok_def by simp
  ultimately show ?thesis by (auto simp: rows_ok_def drop_component_def AList.delete_eq)
qed

lemma derived_texts:
  assumes "rows_ok m"
  shows "length (fst (snd (derived m))) \<le> 512" and "length (snd (snd (derived m))) \<le> 96"
proof -
  have worst: "r \<in> set rs" if "worst_row rs = Some r" for r rs
    using that by (induction rs arbitrary: r) (auto split: option.splits if_splits)
  show "length (fst (snd (derived m))) \<le> 512" "length (snd (snd (derived m))) \<le> 96"
    using assms worst by (fastforce simp: derived_def rows_ok_def or_text_def split: option.split)+
qed

definition sv_ok :: "survivability \<Rightarrow> bool" where
  "sv_ok m \<longleftrightarrow> sv_journal_ok m \<and> texts_ok m \<and> rows_ok m \<and> handlers_ok m"

lemma transition_ok:
  assumes "sv_ok m" and "length r \<le> 512" and "length c \<le> 96"
  shows "sv_ok (transition_locked now w t r c m)"
  using assms transition_journal [of m now w t r c] by (simp add: sv_ok_def texts_ok_def rows_ok_def handlers_ok_def)

lemma step_ok:
  assumes "sv_ok m"
  shows "sv_ok (sv_step s m)"
proof (cases s)
  case (SecStore sh now name st reason metadata)
  have "rows_ok (store_component (component_name name) (new_row sh now st reason metadata) m)"
    using assms bounded_mapping_length [of sh metadata]
    by (intro store_rows) (simp_all add: sv_ok_def component_name_def new_row_def)
  then show ?thesis using SecStore assms
    by (simp add: sv_ok_def store_component_def Let_def sv_journal_ok_def texts_ok_def handlers_ok_def)
next
  case (SecDrop name)
  then show ?thesis using assms drop_rows [of m name]
    by (simp add: sv_ok_def drop_component_def sv_journal_ok_def texts_ok_def handlers_ok_def)
next
  case (SecDerive now w)
  have "rows_ok m" using assms by (simp add: sv_ok_def)
  then show ?thesis using SecDerive transition_ok [OF assms derived_texts] by (simp add: derive_from_components_def split_beta)
next
  case (SecTransition now w st reason component)
  then show ?thesis using assms by (simp add: sv_transition_to_def transition_ok)
next
  case (SecSample snap d)
  then show ?thesis using assms by (simp add: sv_ok_def sv_journal_ok_def texts_ok_def rows_ok_def handlers_ok_def)
next
  case (SecHandlers handle sh level)
  then show ?thesis using assms
    by (simp add: sv_ok_def apply_handlers_def Let_def sv_journal_ok_def texts_ok_def rows_ok_def handlers_ok_def)
next
  case (SecRegister name)
  then show ?thesis using assms
    by (auto simp: sv_ok_def register_handler_def Let_def sv_journal_ok_def texts_ok_def rows_ok_def handlers_ok_def split: if_splits)
qed

lemma new_ok: "sv_ok (new_survivability safe now w previous found)"
  unfolding sv_ok_def new_survivability_def Let_def
  by (intro conjI record_journal) (simp_all add: texts_ok_def rows_ok_def handlers_ok_def)

lemma run_ok_sv: "sv_ok m \<Longrightarrow> sv_ok (sv_run ss m)"
  by (induction ss arbitrary: m) (simp_all add: step_ok)


section \<open>The state file\<close>

lemma load_persisted:
  assumes "sv_ok m" and "length (sv_last_at m) \<le> 64"
  shows "load_previous show (Parsed (state_payload m)) =
    Inr [(''state'', JStr (state_value (sv_state m))), (''reason'', JStr (sv_reason m)), (''component'', JStr (sv_component m)),
         (''updated_at'', JStr (sv_last_at m)), (''sequence'', JInt (int (sv_sequence m)))]"
proof -
  have "length (state_value (sv_state m)) \<le> 64" by (cases "sv_state m") simp_all
  then show ?thesis using assms
    by (simp add: load_previous_def state_payload_def loaded_text_def str_of_def int_of_json_def truthy_def sv_ok_def texts_ok_def)
qed

text \<open>What a process wrote into its state file is what the next one reads at start-up: the state, the reason, the component, the
  instant and the sequence number of its last transition, with no text cut.\<close>

lemma persisted_state_read_back:
  assumes "m = sv_run ss (new_survivability safe now w previous found)" and "length later \<le> 64"
    and "m' = record_transition later True target (take 512 reason) (take 96 component) m"
  shows "\<exists>payload. sv_file m' = Some payload \<and> load_previous show (Parsed payload) =
    Inr [(''state'', JStr (state_value target)), (''reason'', JStr (take 512 reason)), (''component'', JStr (take 96 component)),
         (''updated_at'', JStr later), (''sequence'', JInt (int (sv_sequence m + 1)))]"
proof -
  have ok: "sv_ok m" unfolding assms(1) by (rule run_ok_sv [OF new_ok])
  then have "sv_ok m'" using record_journal [of m] unfolding assms(3) sv_ok_def texts_ok_def rows_ok_def handlers_ok_def by simp
  moreover have "sv_file m' = Some (state_payload (m'\<lparr>sv_file := sv_file m\<rparr>))" "sv_last_at m' = later"
    by (simp_all add: assms(3) record_transition_def Let_def)
  moreover have "state_payload (m'\<lparr>sv_file := sv_file m\<rparr>) = state_payload m'" by (simp add: state_payload_def)
  ultimately show ?thesis using load_persisted [of m' "show"] assms(2) by (simp add: assms(3))
qed

definition demo_sections :: "sv_section list" where
  "demo_sections = [SecStore (\<lambda>_. []) ''t'' ''proxy'' SvDegraded ''sink failed'' [(''queue'', JInt 12)], SecDerive ''t'' True]"

lemma persisted_state_read_back_witness:
  "\<exists>payload. sv_file (record_transition ''t2'' True SvReadOnly (take 512 ''full'') (take 96 ''resources'')
       (sv_run demo_sections (new_survivability False ''t'' True [] None))) = Some payload \<and>
     load_previous (\<lambda>_. []) (Parsed payload) =
       Inr [(''state'', JStr (state_value SvReadOnly)), (''reason'', JStr (take 512 ''full'')), (''component'', JStr (take 96 ''resources'')),
         (''updated_at'', JStr ''t2''),
         (''sequence'', JInt (int (sv_sequence (sv_run demo_sections (new_survivability False ''t'' True [] None)) + 1)))]"
  by (rule persisted_state_read_back [OF refl _ refl]) simp

section \<open>Which jobs are admitted\<close>

lemma worst_state:
  "(case worst_row rs of None \<Rightarrow> rs = [] | Some r \<Rightarrow> r \<in> set rs \<and>
     (\<forall>x\<in>set rs. state_priority (cr_state (snd x)) \<le> state_priority (cr_state (snd r))))"
  by (induction rs) (auto split: option.splits)

lemma priority_five: "state_priority s = 5 \<longleftrightarrow> s = SvReadOnly" "5 \<le> state_priority s \<longleftrightarrow> s = SvReadOnly"
  by (cases s; simp)+

lemma derived_read_only:
  "fst (derived m) = SvReadOnly \<longleftrightarrow> \<not> sv_safe_mode m \<and> (\<exists>(k, row)\<in>set (sv_components m). cr_state row = SvReadOnly)"
  using worst_state [of "sv_components m"]
  by (fastforce simp: derived_def priority_five split: option.splits prod.splits if_splits)

lemma derive_state [simp]: "sv_state (derive_from_components now w m) = fst (derived m)"
  by (simp add: derive_from_components_def split_beta)

lemma admission_of_state:
  "check_admission (Admission (sv_admission m)) ''write'' = (if sv_state m = SvReadOnly then Inl (job_fail ''JOB_READ_ONLY'') else Inr ())"
  "check_admission (Admission (sv_admission m)) ''heavy'' =
     (if sv_state m \<in> {SvReadOnly, SvPressure, SvRecovering, SvSafeMode} then Inl (job_fail ''JOB_ADMISSION_DEGRADED'') else Inr ())"
  "check_admission (Admission (sv_admission m)) ''standard'' = Inr ()" "check_admission (Admission (sv_admission m)) ''diagnostics'' = Inr ()"
  by (simp_all add: check_admission_def sv_admission_def admits_def Let_def)

lemma derived_frame [simp]:
  "derived (m\<lparr>sv_resource := r\<rparr>) = derived m" "derived (apply_handlers handle show level m) = derived m"
  "sv_components (apply_handlers handle show level m) = sv_components m" "sv_safe_mode (apply_handlers handle show level m) = sv_safe_mode m"
  by (simp_all add: derived_def apply_handlers_def Let_def)

lemma govern_decision:
  "''disk-critical'' \<in> set (rd_reasons (fst (govern s g))) \<longleftrightarrow> disk_critical (gv_limits g) s"
  "rd_pressure (fst (govern s g)) = Normal \<longleftrightarrow> calm (gv_limits g) s"
  by (auto simp: govern_def Let_def pressure_decision_def critical_reasons_def soft_reasons_def calm_def)

lemma critical_disk_not_calm: "disk_critical l s \<Longrightarrow> \<not> calm l s"
  by (simp add: calm_def critical_reasons_def)

lemma refresh_state:
  "sv_state (fst (refresh handle show now w s (m, Some g))) =
     (if sv_safe_mode m then SvSafeMode else if disk_critical (gv_limits g) s then SvReadOnly
      else if \<not> calm (gv_limits g) s then SvPressure else fst (derived m))"
  using govern_decision [of s g]
  by (cases "rd_pressure (fst (govern s g))")
     (auto simp: refresh_def split_beta settle_def decided_def sv_transition_to_def)


definition full_disk :: resource_snapshot where
  "full_disk = \<lparr>cpu_percent = None, memory_percent = None, disk_free_bytes = Some 0, active_browser_instances = 0\<rparr>"

lemma full_disk_critical: "disk_critical (gv_limits (new_governor default_limits)) full_disk"
  by (simp add: disk_critical_def new_governor_def Let_def normalized_limits_def full_disk_def)


section \<open>Where the state is lost\<close>

text \<open>The read-only state of a full disk does not survive an incident. If no component is read-only, then after any report of
  a component in another state the executor admits write jobs, although the last sample was critical, until the next one.\<close>

lemma incident_lifts_read_only:
  assumes "disk_critical (gv_limits g) s" and "\<not> sv_safe_mode m" and "parse_survival st = Inr v" and "v \<noteq> SvReadOnly"
    and "\<forall>(k, row)\<in>set (sv_components m). cr_state row \<noteq> SvReadOnly"
  shows "\<exists>m1. mark_component show' now' w' name st reason metadata (fst (refresh handle show now w s (m, Some g))) = Inr m1 \<and>
    check_admission (Admission (sv_admission (fst (refresh handle show now w s (m, Some g))))) ''write'' = Inl (job_fail ''JOB_READ_ONLY'') \<and>
    check_admission (Admission (sv_admission m1)) ''write'' = Inr ()"
proof -
  let ?m = "fst (refresh handle show now w s (m, Some g))"
  let ?m1 = "store_component (component_name name) (new_row show' now' v reason metadata) ?m"
  have c: "sv_components ?m = sv_components m"
    using assms(2) by (simp add: refresh_def split_beta settle_def sv_transition_to_def derive_from_components_def split: option.split)
  have "\<forall>(k, row)\<in>set (AList.update (component_name name) (new_row show' now' v reason metadata) (sv_components m)). cr_state row \<noteq> SvReadOnly"
    using assms(4,5) by (auto simp: new_row_def dest!: update_member)
  then have "\<forall>(k, row)\<in>set (sv_components ?m1). cr_state row \<noteq> SvReadOnly"
    unfolding store_component_def Let_def c by (auto dest: subsetD [OF set_tl])
  then have "fst (derived ?m1) \<noteq> SvReadOnly" by (auto simp: derived_read_only)
  moreover have "mark_component show' now' w' name st reason metadata ?m = Inr (derive_from_components now' w' ?m1)"
    using assms(3) by (simp add: mark_component_def)
  moreover have "sv_state ?m = SvReadOnly" using assms(1,2) by (simp add: refresh_state)
  ultimately show ?thesis unfolding admission_of_state by simp
qed

lemma incident_lifts_read_only_witness:
  "\<exists>m1. mark_component (\<lambda>_. []) ''t2'' True ''proxy'' ''degraded'' ''blocked'' []
       (fst (refresh (\<lambda>_ _. Inr []) (\<lambda>_. []) ''t'' False full_disk (new_survivability False ''t'' True [] None, Some (new_governor default_limits)))) = Inr m1 \<and>
    check_admission (Admission (sv_admission (fst (refresh (\<lambda>_ _. Inr []) (\<lambda>_. []) ''t'' False full_disk
       (new_survivability False ''t'' True [] None, Some (new_governor default_limits)))))) ''write'' = Inl (job_fail ''JOB_READ_ONLY'') \<and>
    check_admission (Admission (sv_admission m1)) ''write'' = Inr ()"
proof (rule incident_lifts_read_only)
  show "parse_survival ''degraded'' = Inr SvDegraded" by code_simp
  show "disk_critical (gv_limits (new_governor default_limits)) full_disk" by (rule full_disk_critical)
qed (simp_all add: new_survivability_def record_transition_def Let_def)

text \<open>A report of safe mode has the priority of a healthy component: behind an earlier healthy report it changes nothing.\<close>

lemma safe_mode_report_hidden:
  "fst (derived (sv_run [SecStore (\<lambda>_. []) ''t'' ''a'' SvNormal [] [], SecStore (\<lambda>_. []) ''t'' ''b'' SvSafeMode ''integrity'' []]
     (new_survivability False ''t'' True [] None))) = SvNormal"
  by code_simp

text \<open>A recovery that has begun is over at the next calm sample.\<close>

lemma recovery_forgotten:
  assumes "calm (gv_limits g) s" and "\<not> sv_safe_mode m" and "sv_components m = []"
  shows "sv_state (fst (refresh handle show now w s (begin_recovery t w' reason c m, Some g))) = SvNormal"
proof -
  have "\<not> disk_critical (gv_limits g) s" using assms(1) critical_disk_not_calm by blast
  moreover have "derived (begin_recovery t w' reason c m) = derived m"
    by (simp add: begin_recovery_def sv_transition_to_def derived_def)
  moreover have "\<not> sv_safe_mode (begin_recovery t w' reason c m)" using assms(2) by (simp add: begin_recovery_def sv_transition_to_def)
  ultimately show ?thesis using assms by (simp add: refresh_state derived_def)
qed

text \<open>A component with a name of more than 96 characters is not cleared by that name.\<close>

lemma long_name_kept:
  assumes "96 < length name" and "component_name name \<in> fst ` set (sv_components m)"
  shows "component_name name \<in> fst ` set (sv_components (clear_component now w name m))"
proof -
  have "component_name name \<noteq> name" using assms(1) by (cases name) (auto simp: component_name_def or_text_def dest: arg_cong [of _ _ length])
  then show ?thesis using assms(2)
    by (auto simp: clear_component_def derive_from_components_def split_beta drop_component_def AList.delete_eq)
qed

text \<open>A state file with an infinite sequence number keeps the manager from starting.\<close>

lemma infinite_sequence_raises: "load_previous show (Parsed (JObj [(''sequence'', JNum ''inf'')])) = Inl OverflowError"
  by (simp add: load_previous_def truthy_def int_of_json_def int_float_def split_sign_def)

end
