(* ===== verification/RevisionStore.thy ===== *)
theory RevisionStore
  imports PyJson
begin

text \<open>
  The durable side of a workflow run: the output revision it builds and its execution row
  (\<^verbatim>\<open>infrastructure/database_datasets.py\<close>, \<^verbatim>\<open>infrastructure/database_workflows.py\<close>) and the recovery of both at start-up
  (\<^verbatim>\<open>infrastructure/database_maintenance.py\<close>). The records of a revision are the list of its rows, identity and data; data
  that is no JSON object is a corrupt row. Time stamps decide nothing here and are left out.
\<close>

section \<open>Rows\<close>

datatype build_state = Building | Ready | BInterrupted | BFailed | BCancelled

record revision =
  rv_state :: build_state
  rv_schema :: "(pystr \<times> pystr) list"
  rv_records :: "(pystr \<times> json) list"

datatype exec_state = WRunning | WCompleted | WCompletedErrors | WFailed | WCancelled | WInterrupted

record wf_checkpoint =
  cp_generation :: nat
  cp_previous :: pystr
  cp_definition :: pystr
  cp_last :: pystr
  cp_schema :: "(pystr \<times> pystr) list"
  cp_digest :: pystr

record node_counts =
  nc_input :: nat
  nc_output :: nat
  nc_errors :: nat
  nc_partial :: bool

record execution =
  ex_state :: exec_state
  ex_definition :: pystr
  ex_last :: pystr
  ex_processed :: nat
  ex_staged :: nat
  ex_errors :: nat
  ex_checkpoint :: "wf_checkpoint option"
  ex_code :: "pystr option"
  ex_nodes :: "(pystr \<times> node_counts) list"

text \<open>One execution, the revision it builds, the records of its source revision, and whether its output is the current
  revision of the dataset.\<close>

record wf_store =
  ws_exec :: execution
  ws_output :: revision
  ws_source :: "(pystr \<times> json) list"
  ws_current :: bool

section \<open>Reading a revision page by page\<close>

definition revision_page :: "nat \<Rightarrow> pystr \<Rightarrow> (pystr \<times> 'a) list \<Rightarrow> (pystr \<times> 'a) list" where
  "revision_page n after rows = take n (filter (\<lambda>r. after < fst r) (sort_key fst rows))"

function read_pages :: "nat \<Rightarrow> pystr \<Rightarrow> (pystr \<times> 'a) list \<Rightarrow> (pystr \<times> 'a) list" where
  "read_pages n after rows =
     (case revision_page n after rows of [] \<Rightarrow> []
      | p # ps \<Rightarrow> (p # ps) @ read_pages n (fst (last (p # ps))) rows)"
  by pat_completeness auto

lemma page_after: "p \<in> set (revision_page n after rows) \<Longrightarrow> after < fst p \<and> p \<in> set rows"
  by (auto simp: revision_page_def dest: in_set_takeD)

lemma later_rows_fewer:
  fixes after :: pystr
  assumes "l \<in> set rows" and "after < fst l"
  shows "length (filter (\<lambda>r. fst l < fst r) rows) < length (filter (\<lambda>r. after < fst r) rows)"
proof -
  have "filter (\<lambda>r. fst l < fst r) rows = filter (\<lambda>r. fst l < fst r) (filter (\<lambda>r. after < fst r) rows)"
    using assms(2) by (auto intro!: filter_cong dest: order.strict_trans)
  then show ?thesis using assms length_filter_less [of l "filter (\<lambda>r. after < fst r) rows" "\<lambda>r. fst l < fst r"] by simp
qed

termination read_pages
proof (relation "measure (\<lambda>(n, after, rows). length (filter (\<lambda>r. after < fst r) rows))")
  fix n :: nat and after :: pystr and rows :: "(pystr \<times> 'a) list" and p ps
  assume page: "revision_page n after rows = p # ps"
  let ?l = "last (p # ps)"
  have l: "after < fst ?l \<and> ?l \<in> set rows" using page_after [of ?l n after rows] page last_in_set [of "p # ps"] by simp
  then have "length (filter (\<lambda>r. fst ?l < fst r) rows) < length (filter (\<lambda>r. after < fst r) rows)"
    by (intro later_rows_fewer) simp_all
  then show "((n, fst ?l, rows), n, after, rows) \<in> measure (\<lambda>(n, after, rows). length (filter (\<lambda>r. after < fst r) rows))"
    by simp
qed simp

declare read_pages.simps [simp del]

definition rows_after :: "pystr \<Rightarrow> (pystr \<times> 'a) list \<Rightarrow> (pystr \<times> 'a) list" where
  "rows_after after rows = filter (\<lambda>r. after < fst r) (sort_key fst rows)"

text \<open>Whatever the page size, every row after the given identity is read, once and in order.\<close>

lemma sorted_filter_split:
  assumes "sorted (map fst xs)" and "distinct (map fst xs)" and "xs = ys @ zs" and "ys \<noteq> []"
  shows "filter (\<lambda>r. fst (last ys) < fst r) xs = zs"
proof -
  obtain us l where ys: "ys = us @ [l]" using assms(4) by (metis append_butlast_last_id)
  have "filter (\<lambda>r. fst l < fst r) (us @ [l]) = []"
    using assms(1,3) ys by (force simp: sorted_append filter_empty_conv)
  moreover have "fst l \<le> fst z \<and> fst l \<noteq> fst z" if "z \<in> set zs" for z
    using assms(1,2,3) ys that by (force simp: sorted_append)
  ultimately show ?thesis using assms(3) ys by (auto simp: less_le filter_id_conv)
qed

lemma read_pages_all:
  assumes "distinct (map fst rows)" and "0 < n"
  shows "read_pages n after rows = rows_after after rows"
  using assms
proof (induction n after rows rule: read_pages.induct)
  case (1 n after rows)
  let ?f = "rows_after after rows"
  have page: "revision_page n after rows = take n ?f" by (simp add: revision_page_def rows_after_def)
  show ?case
  proof (cases "take n ?f")
    case Nil
    then have "?f = []" using "1.prems"(2) by simp
    with Nil page show ?thesis by (simp add: read_pages.simps [of n after])
  next
    case (Cons p ps)
    have srt: "sorted (map fst (sort_key fst rows))" "distinct (map fst (sort_key fst rows))"
      using "1.prems"(1) by (simp_all add: distinct_map inj_on_def) 
    have fs: "sorted (map fst ?f)" "distinct (map fst ?f)"
      using srt by (simp_all add: rows_after_def sorted_filter distinct_map_filter)
    have "?f = (p # ps) @ drop n ?f" using append_take_drop_id [of n ?f] Cons by simp
    from sorted_filter_split [OF fs this] have d: "filter (\<lambda>r. fst (last (p # ps)) < fst r) ?f = drop n ?f" by simp
    have "after < fst (last (p # ps))" using page_after [of "last (p # ps)" n after rows] page Cons last_in_set [of "p # ps"] by simp
    then have "rows_after (fst (last (p # ps))) rows = filter (\<lambda>r. fst (last (p # ps)) < fst r) ?f"
      by (auto simp: rows_after_def intro!: filter_cong dest: order.strict_trans)
    with d have "rows_after (fst (last (p # ps))) rows = drop n ?f" by simp
    moreover have "read_pages n (fst (last (p # ps))) rows = rows_after (fst (last (p # ps))) rows"
      using "1.IH" [of p ps] page Cons "1.prems" by simp
    ultimately show ?thesis using page Cons append_take_drop_id [of n ?f]
      by (simp add: read_pages.simps [of n after])
  qed
qed

section \<open>Building the output revision\<close>

definition dataset_fail :: "pystr \<Rightarrow> exc" where
  "dataset_fail code = ArenyxaError ''DATASET'' code"

definition workflow_fail :: "pystr \<Rightarrow> exc" where
  "workflow_fail code = ArenyxaError ''WORKFLOW'' code"

definition is_object :: "json \<Rightarrow> bool" where
  "is_object v = (case v of JObj _ \<Rightarrow> True | _ \<Rightarrow> False)"

text \<open>\<open>INSERT ... ON CONFLICT DO UPDATE\<close> of one record after another, in one transaction.\<close>

definition put_records :: "(pystr \<times> json) list \<Rightarrow> (pystr \<times> json) list \<Rightarrow> (pystr \<times> json) list" where
  "put_records records rows = fold (\<lambda>(k, v). AList.update k v) records rows"

definition append_revision_records :: "(pystr \<times> json) list \<Rightarrow> revision \<Rightarrow> exc + revision" where
  "append_revision_records records v =
     (if rv_state v \<notin> {Building, BInterrupted} then Inl (dataset_fail ''DATASET_REVISION_IMMUTABLE'')
      else if \<exists>(k, d)\<in>set records. k = [] \<or> 256 < length k \<or> \<not> is_object d then Inl (dataset_fail ''DATASET_RECORD_INVALID'')
      else Inr (v\<lparr>rv_records := put_records records (rv_records v)\<rparr>))"

definition set_revision_build_state :: "build_state \<Rightarrow> revision \<Rightarrow> exc + revision" where
  "set_revision_build_state st v =
     (if st = Ready then Inl ValueError
      else if rv_state v = Ready then Inl (dataset_fail ''DATASET_REVISION_STATE_CONFLICT'')
      else Inr (v\<lparr>rv_state := st\<rparr>))"

definition finalize_revision_build :: "(pystr \<times> pystr) list \<Rightarrow> wf_store \<Rightarrow> exc + nat \<times> wf_store" where
  "finalize_revision_build schema ws =
     (if rv_state (ws_output ws) \<notin> {Building, BInterrupted} then Inl (dataset_fail ''DATASET_REVISION_STATE_CONFLICT'')
      else Inr (length (rv_records (ws_output ws)),
        ws\<lparr>ws_output := (ws_output ws)\<lparr>rv_state := Ready, rv_schema := schema\<rparr>, ws_current := True\<rparr>))"

section \<open>The execution row\<close>

text \<open>The deltas of a checkpoint, with those of every node.\<close>

record deltas =
  de_processed :: nat
  de_outputs :: nat
  de_errors :: nat
  de_nodes :: "(pystr \<times> node_counts) list"

definition upsert_node :: "pystr \<Rightarrow> node_counts \<Rightarrow> (pystr \<times> node_counts) list \<Rightarrow> (pystr \<times> node_counts) list" where
  "upsert_node k d rows = (case map_of rows k of
     None \<Rightarrow> AList.update k d rows
   | Some c \<Rightarrow> AList.update k (d\<lparr>nc_input := nc_input c + nc_input d, nc_output := nc_output c + nc_output d,
       nc_errors := nc_errors c + nc_errors d\<rparr>) rows)"

definition checkpoint_workflow_execution :: "pystr \<Rightarrow> deltas \<Rightarrow> wf_checkpoint \<Rightarrow> execution \<Rightarrow> exc + execution" where
  "checkpoint_workflow_execution identity d cp e =
     (if ex_state e \<noteq> WRunning then Inl (workflow_fail ''WORKFLOW_EXECUTION_STATE_CONFLICT'')
      else Inr (e\<lparr>ex_last := identity, ex_processed := ex_processed e + de_processed d, ex_staged := ex_staged e + de_outputs d,
        ex_errors := ex_errors e + de_errors d, ex_checkpoint := Some cp, ex_code := None,
        ex_nodes := fold (\<lambda>(k, c). upsert_node k c) (de_nodes d) (ex_nodes e)\<rparr>))"

definition finish_workflow_execution :: "exec_state \<Rightarrow> pystr option \<Rightarrow> execution \<Rightarrow> exc + execution" where
  "finish_workflow_execution st code e =
     (if st = WRunning then Inl ValueError else Inr (e\<lparr>ex_state := st, ex_code := code\<rparr>))"

definition claim_for_resume :: "wf_store \<Rightarrow> exc + bool \<times> wf_store" where
  "claim_for_resume ws =
     (if ex_state (ws_exec ws) \<notin> {WInterrupted, WCancelled} then Inr (False, ws)
      else if rv_state (ws_output ws) = Ready then Inl (workflow_fail ''WORKFLOW_RESUME_OUTPUT_INVALID'')
      else Inr (True, ws\<lparr>ws_exec := (ws_exec ws)\<lparr>ex_state := WRunning, ex_code := None\<rparr>,
        ws_output := (ws_output ws)\<lparr>rv_state := Building\<rparr>\<rparr>))"

section \<open>Recovery at start-up\<close>

definition completed_state :: "execution \<Rightarrow> exec_state" where
  "completed_state e = (if 0 < ex_errors e then WCompletedErrors else WCompleted)"

definition recover_pipeline :: "wf_store \<Rightarrow> wf_store" where
  "recover_pipeline ws =
     (let e = ws_exec ws; out = ws_output ws;
          e1 = (if ex_state e \<in> {WRunning, WInterrupted} \<and> rv_state out = Ready
                then e\<lparr>ex_state := completed_state e, ex_code := None\<rparr> else e);
          e2 = (if ex_state e1 = WRunning
                then e1\<lparr>ex_state := WInterrupted, ex_code := Some (case ex_code e1 of None \<Rightarrow> ''WORKFLOW_INTERRUPTED'' | Some c \<Rightarrow> c)\<rparr> else e1)
      in ws\<lparr>ws_exec := e2, ws_output := (if rv_state out = Building then out\<lparr>rv_state := BInterrupted\<rparr> else out)\<rparr>)"

text \<open>The schema of a stream of records.\<close>

fun type_of_value :: "json \<Rightarrow> pystr" where
  "type_of_value JNull = ''null''"
| "type_of_value (JBool b) = ''boolean''"
| "type_of_value (JInt i) = ''integer''"
| "type_of_value (JNum t) = ''number''"
| "type_of_value (JStr s) = ''string''"
| "type_of_value (JObj kvs) = ''object''"
| "type_of_value (JArr xs) = ''array''"

definition merge_types :: "pystr option \<Rightarrow> pystr \<Rightarrow> pystr" where
  "merge_types before after = (case before of None \<Rightarrow> after | Some b \<Rightarrow>
     if b = after then b else if b = ''null'' then after else if after = ''null'' then b
     else if {b, after} \<subseteq> {''integer'', ''number''} then ''number'' else ''mixed'')"

definition observe_member :: "pystr \<times> json \<Rightarrow> (pystr \<times> pystr) list \<Rightarrow> (pystr \<times> pystr) list" where
  "observe_member kv types = AList.update (fst kv) (merge_types (map_of types (fst kv)) (type_of_value (snd kv))) types"

definition observe_record :: "json \<Rightarrow> (pystr \<times> pystr) list \<Rightarrow> (pystr \<times> pystr) list" where
  "observe_record d types = (case d of JObj kvs \<Rightarrow> fold observe_member kvs types | _ \<Rightarrow> types)"

definition schema_dict :: "(pystr \<times> pystr) list \<Rightarrow> (pystr \<times> pystr) list" where
  "schema_dict types = sort_key fst types"

text \<open>The types form a semilattice, so the order and the repetition of records do not matter.\<close>

definition join_types :: "pystr \<Rightarrow> pystr \<Rightarrow> pystr" where
  "join_types b a = (if b = a then b else if b = ''null'' then a else if a = ''null'' then b
     else if (b = ''integer'' \<or> b = ''number'') \<and> (a = ''integer'' \<or> a = ''number'') then ''number'' else ''mixed'')"

lemma merge_join: "merge_types t a = (case t of None \<Rightarrow> a | Some b \<Rightarrow> join_types b a)"
  by (auto simp: merge_types_def join_types_def split: option.split)

lemma join_null [simp]: "join_types ''null'' a = a" "join_types a ''null'' = a" "join_types a a = a"
  by (simp_all add: join_types_def)

lemma join_commute: "join_types a b = join_types b a"
  by (auto simp: join_types_def)

lemma join_numbers:
  "b \<noteq> a \<Longrightarrow> b \<noteq> ''null'' \<Longrightarrow> a \<noteq> ''null'' \<Longrightarrow> join_types b a =
     (if {b, a} = {''integer'', ''number''} then ''number'' else ''mixed'')"
  by (auto simp: join_types_def doubleton_eq_iff)

lemma join_mixed [simp]: "join_types ''mixed'' a = ''mixed''" "join_types a ''mixed'' = ''mixed''"
  by (auto simp: join_types_def)

lemma join_number [simp]: "join_types ''number'' a = (if a \<in> {''number'', ''integer'', ''null''} then ''number'' else ''mixed'')"
  by (auto simp: join_types_def)

lemma join_assoc: "join_types (join_types c a) b = join_types c (join_types a b)"
proof (cases "c = ''null'' \<or> a = ''null'' \<or> b = ''null'' \<or> c = a \<or> a = b")
  case True
  then show ?thesis
  proof (elim disjE)
    assume "c = a"
    then show ?thesis
      by (cases "a = b \<or> a = ''null'' \<or> b = ''null''") (auto simp: join_numbers doubleton_eq_iff join_commute [of a])
  next
    assume "a = b"
    then show ?thesis
      by (cases "c = b \<or> c = ''null'' \<or> b = ''null''") (auto simp: join_numbers doubleton_eq_iff join_commute [of _ "''number''"])
  qed simp_all
next
  case False
  then show ?thesis by (auto simp: join_numbers doubleton_eq_iff join_commute [of _ "''number''"])
qed

lemma merge_idem: "merge_types (Some (merge_types t a)) a = merge_types t a"
  by (cases t) (simp_all add: merge_join join_assoc)

lemma merge_swap: "merge_types (Some (merge_types t a)) b = merge_types (Some (merge_types t b)) a"
  by (cases t) (simp_all add: merge_join join_commute, metis join_assoc join_commute)

section \<open>The schema of a revision\<close>

definition members_of :: "json \<Rightarrow> (pystr \<times> json) list" where
  "members_of d = (case d of JObj kvs \<Rightarrow> kvs | _ \<Rightarrow> [])"

definition observed :: "json list \<Rightarrow> (pystr \<times> pystr) list" where
  "observed records = fold observe_record records []"

definition observe_map :: "pystr \<times> json \<Rightarrow> (pystr \<rightharpoonup> pystr) \<Rightarrow> (pystr \<rightharpoonup> pystr)" where
  "observe_map kv m = m(fst kv \<mapsto> merge_types (m (fst kv)) (type_of_value (snd kv)))"

lemma map_of_observe: "map_of (fold observe_record records types) = fold observe_map (concat (map members_of records)) (map_of types)"
proof -
  have one: "map_of (fold observe_member kvs ts) = fold observe_map kvs (map_of ts)" for kvs ts
    by (induction kvs arbitrary: ts) (simp_all add: observe_member_def observe_map_def update_conv')
  have "map_of (observe_record d ts) = fold observe_map (members_of d) (map_of ts)" for d ts
    by (simp add: observe_record_def members_of_def one split: json.split)
  then show ?thesis by (induction records arbitrary: types) simp_all
qed

lemma observe_fold: "comp_fun_idem observe_map"
proof
  fix x y :: "pystr \<times> json"
  show "observe_map y \<circ> observe_map x = observe_map x \<circ> observe_map y"
    by (cases "fst x = fst y") (auto simp: observe_map_def fun_eq_iff merge_swap)
  show "observe_map x \<circ> observe_map x = observe_map x" by (auto simp: observe_map_def fun_eq_iff merge_idem)
qed

text \<open>The schema of a revision depends on the members of its records alone. Reading them in another order, or some of them
  again after a resume, gives every member the same type.\<close>

lemma schema_order_irrelevant:
  assumes "set (concat (map members_of xs)) = set (concat (map members_of ys))"
  shows "map_of (observed xs) = map_of (observed ys)"
proof -
  have f: "fold observe_map zs Map.empty = Finite_Set.fold observe_map Map.empty (set zs)" for zs
    using comp_fun_idem_on.fold_set_fold [OF observe_fold [unfolded comp_fun_idem_def'], of zs Map.empty] by simp
  show ?thesis using assms by (simp add: observed_def map_of_observe f)
qed

lemma schema_order_irrelevant_witness:
  "map_of (observed [JObj [(''a'', JInt 1)], JObj [(''a'', JNum ''2.5'')], JObj [(''a'', JInt 1)]]) ''a'' =
   map_of (observed [JObj [(''a'', JNum ''2.5'')], JObj [(''a'', JInt 1)]]) ''a''"
proof -
  have "set (concat (map members_of [JObj [(''a'', JInt 1)], JObj [(''a'', JNum ''2.5'')], JObj [(''a'', JInt 1)]])) =
      set (concat (map members_of [JObj [(''a'', JNum ''2.5'')], JObj [(''a'', JInt 1)]]))"
    by (simp add: members_of_def insert_commute)
  from schema_order_irrelevant [OF this] show ?thesis by simp
qed

text \<open>C40: Reading a revision page by page, each page from the identity the one before ended with, ends for every page size and
  gives every record after the start once and in order, as one read of the whole revision would.\<close>

theorem paged_read_complete:
  assumes "distinct (map fst rows)" and "0 < n"
  shows "read_pages n after rows = rows_after after rows"
  by (rule read_pages_all [OF assms])

theorem paged_read_complete_witness: "read_pages 1 ''a'' [(''c'', True), (''a'', False), (''b'', True)] = [(''b'', True), (''c'', True)]"
  using paged_read_complete [of "[(''c'', True), (''a'', False), (''b'', True)]" 1 "''a''"] by (simp add: rows_after_def sort_key_def)

end
