(* ===== verification/WorkflowRuntime.thy ===== *)
theory WorkflowRuntime
  imports RevisionStore
begin

text \<open>
  The execution of a workflow over a dataset revision with durable checkpoints
  (\<^verbatim>\<open>application/workflow_runtime_engine.py\<close>, \<^verbatim>\<open>workflow_runtime_execution.py\<close>, \<^verbatim>\<open>workflow_runtime_resume.py\<close>). A run is
  the memory of one call of \<open>_run_inner\<close>; a step is one record, one transaction of the store, or the loss of the
  process. An event says what the store did: a transaction may commit, may raise, and may do both. The engine that turns a
  record into outputs is the \<open>WorkflowEngine\<close> the service was given: an argument, and a function of the record.
\<close>

section \<open>Configuration and results\<close>

record wf_result =
  wr_outputs :: "json list"
  wr_errors :: nat
  wr_nodes :: "(pystr \<times> node_counts) list"

type_synonym engine = "json \<Rightarrow> exc + wf_result"

record wf_config =
  wc_workflow :: pystr
  wc_version :: pystr
  wc_definition :: pystr
  wc_source :: pystr
  wc_output :: pystr
  wc_every :: nat
  wc_batch :: nat
  wc_cap :: nat
  wc_bytes :: nat
  wc_sha :: "pystr \<Rightarrow> pystr"

definition wf_clamp :: "int \<Rightarrow> int \<Rightarrow> int \<Rightarrow> nat" where
  "wf_clamp lo hi x = nat (max lo (min hi x))"

definition new_config :: "pystr \<Rightarrow> pystr \<Rightarrow> pystr \<Rightarrow> pystr \<Rightarrow> pystr \<Rightarrow> int \<Rightarrow> int \<Rightarrow> int \<Rightarrow> int \<Rightarrow> int option \<Rightarrow> (pystr \<Rightarrow> pystr) \<Rightarrow> wf_config" where
  "new_config workflow version definition source output every batch max_outputs pending_bytes cap sha =
     (let limit = wf_clamp 1000 20000000 max_outputs in
      \<lparr>wc_workflow = workflow, wc_version = version, wc_definition = definition, wc_source = source, wc_output = output,
       wc_every = wf_clamp 1 5000 every, wc_batch = wf_clamp 50 5000 batch,
       wc_cap = (case cap of None \<Rightarrow> limit | Some c \<Rightarrow> wf_clamp 1 (int limit) c),
       wc_bytes = wf_clamp (1024 * 1024) (256 * 1024 * 1024) pending_bytes, wc_sha = sha\<rparr>)"

definition NUL :: char where "NUL = char_of (0 :: nat)"

definition output_identity :: "wf_config \<Rightarrow> pystr \<Rightarrow> nat \<Rightarrow> pystr" where
  "output_identity cf source ordinal = ''wf_'' @ wc_sha cf (source @ [NUL] @ wc_workflow cf @ [NUL] @ show_nat ordinal)"

definition encoded_size :: "json \<Rightarrow> nat" where
  "encoded_size v = utf8_len (dumps_plain v)"

section \<open>The memory of a run\<close>

text \<open>What follows a flush: the next record, the end of the stream, or the handling of an exception.\<close>

datatype goal = ToRecords | ToEnd | ToCleanup exc

datatype wf_phase =
    Reading | Appending goal | Checkpointing bool goal wf_checkpoint | Finalizing | Finishing | Returning
  | Marking exc | Ending exc

record wf_run =
  r_rest :: "(pystr \<times> json) list"
  r_last :: pystr
  r_pend :: "(pystr \<times> json) list"
  r_processed :: nat
  r_errors :: nat
  r_nodes :: "(pystr \<times> node_counts) list"
  r_bytes :: nat
  r_total :: nat
  r_generation :: nat
  r_previous :: pystr
  r_schema :: "(pystr \<times> pystr) list"
  r_write_failed :: bool
  r_phase :: wf_phase

definition begin_run :: "bool \<Rightarrow> wf_store \<Rightarrow> wf_run" where
  "begin_run resumed ws =
     (let e = ws_exec ws in
      \<lparr>r_rest = rows_after (ex_last e) (ws_source ws), r_last = ex_last e, r_pend = [], r_processed = 0, r_errors = 0, r_nodes = [],
       r_bytes = 0, r_total = ex_staged e,
       r_generation = (case ex_checkpoint e of None \<Rightarrow> 0 | Some c \<Rightarrow> cp_generation c),
       r_previous = (case ex_checkpoint e of None \<Rightarrow> [] | Some c \<Rightarrow> cp_digest c),
       r_schema = (if resumed then fold (\<lambda>r. observe_record (snd r)) (rows_after [] (rv_records (ws_output ws))) [] else []),
       r_write_failed = False, r_phase = Reading\<rparr>)"

text \<open>The metrics of the nodes add up; a node with an error is partial.\<close>

definition merge_node :: "pystr \<Rightarrow> node_counts \<Rightarrow> (pystr \<times> node_counts) list \<Rightarrow> (pystr \<times> node_counts) list" where
  "merge_node k m rows =
     (let c = (case map_of rows k of None \<Rightarrow> \<lparr>nc_input = 0, nc_output = 0, nc_errors = 0, nc_partial = False\<rparr> | Some c \<Rightarrow> c);
          errors = nc_errors c + nc_errors m
      in AList.update k \<lparr>nc_input = nc_input c + nc_input m, nc_output = nc_output c + nc_output m, nc_errors = errors,
           nc_partial = (nc_partial c \<or> nc_partial m \<or> 0 < errors)\<rparr> rows)"

section \<open>One record\<close>

text \<open>The loop over the outputs of a record. It may raise with some of them staged already.\<close>

fun stage_outputs :: "wf_config \<Rightarrow> pystr \<Rightarrow> nat \<Rightarrow> json list \<Rightarrow> wf_run \<Rightarrow> exc option \<times> wf_run" where
  "stage_outputs cf source n [] r = (None, r)"
| "stage_outputs cf source n (v # vs) r =
     (let r1 = r\<lparr>r_total := r_total r + 1\<rparr> in
      if wc_cap cf < r_total r1 then (Some (workflow_fail ''WORKFLOW_OUTPUT_LIMIT''), r1)
      else if wc_bytes cf < encoded_size v then (Some (workflow_fail ''WORKFLOW_RECORD_TOO_LARGE''), r1)
      else stage_outputs cf source (Suc n) vs
        (r1\<lparr>r_schema := observe_record v (r_schema r1), r_pend := r_pend r1 @ [(output_identity cf source n, v)],
            r_bytes := r_bytes r1 + encoded_size v\<rparr>))"

text \<open>Where the control goes on an exception, and where it goes after a flush.\<close>

definition leave_flush :: "goal \<Rightarrow> wf_run \<Rightarrow> wf_run" where
  "leave_flush g r = (case g of
     ToRecords \<Rightarrow> r\<lparr>r_phase := Reading\<rparr>
   | ToEnd \<Rightarrow> r\<lparr>r_phase := Finalizing\<rparr>
   | ToCleanup x \<Rightarrow> r\<lparr>r_phase := Marking x\<rparr>)"

definition next_checkpoint :: "wf_config \<Rightarrow> wf_run \<Rightarrow> wf_checkpoint" where
  "next_checkpoint cf r =
     (let schema = schema_dict (r_schema r); generation = r_generation r + 1;
          payload = JObj [(''schema'', JStr ''arenyxa.workflow-checkpoint/v3''), (''generation'', JInt (int generation)),
            (''previous_checkpoint_sha256'', JStr (r_previous r)), (''workflow_id'', JStr (wc_workflow cf)),
            (''workflow_version'', JStr (wc_version cf)), (''definition_hash'', JStr (wc_definition cf)),
            (''source_revision_id'', JStr (wc_source cf)), (''output_revision_id'', JStr (wc_output cf)),
            (''last_input_identity'', JStr (r_last r)),
            (''output_schema'', JObj (map (\<lambda>(k, t). (k, JStr t)) schema))]
      in \<lparr>cp_generation = generation, cp_previous = r_previous r, cp_definition = wc_definition cf, cp_last = r_last r,
          cp_schema = schema, cp_digest = wc_sha cf (dumps payload)\<rparr>)"

definition enter_checkpoint :: "wf_config \<Rightarrow> goal \<Rightarrow> wf_run \<Rightarrow> wf_run" where
  "enter_checkpoint cf g r = r\<lparr>r_generation := r_generation r + 1, r_phase := Checkpointing False g (next_checkpoint cf r)\<rparr>"

definition begin_flush :: "wf_config \<Rightarrow> goal \<Rightarrow> wf_run \<Rightarrow> wf_run" where
  "begin_flush cf g r =
     (if r_processed r = 0 then leave_flush g r
      else if r_pend r \<noteq> [] then r\<lparr>r_phase := Appending g\<rparr>
      else enter_checkpoint cf g r)"

definition raise_run :: "wf_config \<Rightarrow> exc \<Rightarrow> wf_run \<Rightarrow> wf_run" where
  "raise_run cf x r = (if r_write_failed r then r\<lparr>r_phase := Marking x\<rparr> else begin_flush cf (ToCleanup x) r)"

definition process_record :: "wf_config \<Rightarrow> bool \<Rightarrow> pystr \<Rightarrow> wf_result \<Rightarrow> (pystr \<times> json) list \<Rightarrow> wf_run \<Rightarrow> wf_run" where
  "process_record cf elapsed source res rest r =
     (let r1 = r\<lparr>r_nodes := fold (\<lambda>(k, m). merge_node k m) (wr_nodes res) (r_nodes r), r_errors := r_errors r + wr_errors res\<rparr> in
      case stage_outputs cf source 0 (wr_outputs res) r1 of
        (Some x, r2) \<Rightarrow> raise_run cf x r2
      | (None, r2) \<Rightarrow>
          let r3 = r2\<lparr>r_processed := r_processed r2 + 1, r_last := source, r_rest := rest\<rparr> in
          if wc_every cf \<le> r_processed r3 \<or> wc_batch cf \<le> length (r_pend r3) \<or> wc_bytes cf \<le> r_bytes r3 \<or> elapsed
          then begin_flush cf ToRecords r3 else r3)"

definition read_record :: "wf_config \<Rightarrow> engine \<Rightarrow> exc option \<Rightarrow> bool \<Rightarrow> wf_run \<Rightarrow> wf_run" where
  "read_record cf eng interrupt elapsed r = (case interrupt of
     Some x \<Rightarrow> raise_run cf x r
   | None \<Rightarrow> (case r_rest r of
       [] \<Rightarrow> begin_flush cf ToEnd r
     | (source, d) # rest \<Rightarrow>
         if \<not> is_object d then raise_run cf (dataset_fail ''DATASET_REVISION_CORRUPT'') r
         else (case eng d of Inl x \<Rightarrow> raise_run cf x r | Inr res \<Rightarrow> process_record cf elapsed source res rest r)))"

section \<open>Flushing\<close>

text \<open>An exception inside a flush leaves the stream, or is logged when the flush was a clean-up.\<close>

definition flush_raises :: "wf_config \<Rightarrow> goal \<Rightarrow> exc \<Rightarrow> wf_run \<Rightarrow> wf_run" where
  "flush_raises cf g x r = (case g of ToCleanup y \<Rightarrow> r\<lparr>r_phase := Marking y\<rparr> | _ \<Rightarrow> raise_run cf x r)"

definition commit_if :: "bool \<Rightarrow> exc + 'a \<Rightarrow> 'a \<Rightarrow> 'a" where
  "commit_if committed res old = (case res of Inr new \<Rightarrow> if committed then new else old | Inl _ \<Rightarrow> old)"

text \<open>What a transaction raises: its own check, or what the event says.\<close>

definition raised_by :: "exc option \<Rightarrow> exc + 'a \<Rightarrow> exc option" where
  "raised_by raised res = (case res of Inl x \<Rightarrow> Some x | Inr _ \<Rightarrow> raised)"

definition flush_append :: "wf_config \<Rightarrow> bool \<Rightarrow> exc option \<Rightarrow> goal \<Rightarrow> wf_store \<Rightarrow> wf_run \<Rightarrow> wf_store \<times> wf_run" where
  "flush_append cf committed raised g ws r =
     (let res = append_revision_records (r_pend r) (ws_output ws);
          ws1 = ws\<lparr>ws_output := commit_if committed res (ws_output ws)\<rparr>
      in (ws1, case raised_by raised res of None \<Rightarrow> enter_checkpoint cf g r | Some x \<Rightarrow> flush_raises cf g x r))"

definition run_deltas :: "wf_run \<Rightarrow> deltas" where
  "run_deltas r = \<lparr>de_processed = r_processed r, de_outputs = length (r_pend r), de_errors = r_errors r, de_nodes = r_nodes r\<rparr>"

definition flushed :: "goal \<Rightarrow> wf_checkpoint \<Rightarrow> wf_run \<Rightarrow> wf_run" where
  "flushed g cp r = leave_flush g (r\<lparr>r_previous := cp_digest cp, r_processed := 0, r_errors := 0, r_pend := [], r_nodes := [], r_bytes := 0\<rparr>)"

definition checkpoint_is_durable :: "bool \<Rightarrow> wf_checkpoint \<Rightarrow> execution \<Rightarrow> bool" where
  "checkpoint_is_durable readable cp e \<longleftrightarrow> readable \<and> (case ex_checkpoint e of None \<Rightarrow> False | Some c \<Rightarrow> cp_digest c = cp_digest cp)"

definition flush_checkpoint ::
    "wf_config \<Rightarrow> bool \<Rightarrow> exc option \<Rightarrow> bool \<Rightarrow> bool \<Rightarrow> goal \<Rightarrow> wf_checkpoint \<Rightarrow> wf_store \<Rightarrow> wf_run \<Rightarrow> wf_store \<times> wf_run" where
  "flush_checkpoint cf committed raised readable again g cp ws r =
     (let res = checkpoint_workflow_execution (r_last r) (run_deltas r) cp (ws_exec ws);
          e = commit_if committed res (ws_exec ws);
          ws1 = ws\<lparr>ws_exec := e\<rparr>
      in (ws1, case raised_by raised res of
          None \<Rightarrow> flushed g cp r
        | Some x \<Rightarrow>
            if checkpoint_is_durable readable cp e then flushed g cp r
            else if x = OperationalError \<and> \<not> again then r\<lparr>r_phase := Checkpointing True g cp\<rparr>
            else flush_raises cf g x (r\<lparr>r_write_failed := True\<rparr>)))"

section \<open>The end of a run\<close>

definition finalize_run :: "wf_config \<Rightarrow> bool \<Rightarrow> exc option \<Rightarrow> wf_store \<Rightarrow> wf_run \<Rightarrow> wf_store \<times> wf_run" where
  "finalize_run cf committed raised ws r =
     (let res = finalize_revision_build (schema_dict (r_schema r)) ws;
          ws1 = commit_if committed (map_sum id snd res) ws
      in (ws1, case raised_by raised res of None \<Rightarrow> r\<lparr>r_phase := Finishing\<rparr> | Some x \<Rightarrow> raise_run cf x r))"

definition finish_run :: "wf_config \<Rightarrow> bool \<Rightarrow> exc option \<Rightarrow> wf_store \<Rightarrow> wf_run \<Rightarrow> wf_store \<times> wf_run" where
  "finish_run cf committed raised ws r =
     (let e = ws_exec ws; res = finish_workflow_execution (completed_state e) None e
      in (ws\<lparr>ws_exec := commit_if committed res e\<rparr>,
          case raised_by raised res of None \<Rightarrow> r\<lparr>r_phase := Returning\<rparr> | Some x \<Rightarrow> raise_run cf x r))"

definition cancelled_exc :: exc where
  "cancelled_exc = ArenyxaError ''RUN'' ''RUN_CANCELLED''"

definition is_cancelled :: "exc \<Rightarrow> bool" where
  "is_cancelled x \<longleftrightarrow> (case x of ArenyxaError _ c \<Rightarrow> c = ''RUN_CANCELLED'' | _ \<Rightarrow> False)"

definition run_failure_code :: "exc \<Rightarrow> pystr" where
  "run_failure_code x = (case x of ArenyxaError _ c \<Rightarrow> if c = ''RUN_CANCELLED'' then ''WORKFLOW_CANCELLED'' else c
     | _ \<Rightarrow> ''WORKFLOW_RUNTIME_FAILED'')"

definition mark_revision :: "bool \<Rightarrow> exc \<Rightarrow> wf_store \<Rightarrow> wf_run \<Rightarrow> wf_store \<times> wf_run" where
  "mark_revision committed x ws r =
     (let res = set_revision_build_state (if is_cancelled x then BCancelled else BFailed) (ws_output ws)
      in (ws\<lparr>ws_output := commit_if committed res (ws_output ws)\<rparr>, r\<lparr>r_phase := Ending x\<rparr>))"

text \<open>The last write of a run that raised; with or without it the run is over.\<close>

definition end_failed :: "bool \<Rightarrow> exc \<Rightarrow> wf_store \<Rightarrow> wf_store" where
  "end_failed committed x ws =
     (let e = ws_exec ws; res = finish_workflow_execution (if is_cancelled x then WCancelled else WFailed) (Some (run_failure_code x)) e
      in ws\<lparr>ws_exec := commit_if committed res e\<rparr>)"

section \<open>Resuming\<close>

text \<open>The checks of \<open>validate_resume_checkpoint\<close> on the durable state; \<open>dry\<close> says whether the dry run of the workflow and the
  replay of its next record went through, \<open>intact\<close> whether the digest of the stored checkpoint is that of its content.\<close>

definition preflight :: "wf_config \<Rightarrow> bool \<Rightarrow> bool \<Rightarrow> wf_store \<Rightarrow> bool" where
  "preflight cf dry intact ws \<longleftrightarrow> wc_definition cf = ex_definition (ws_exec ws) \<and>
     (case ex_checkpoint (ws_exec ws) of None \<Rightarrow> True | Some c \<Rightarrow>
        (cp_definition c = [] \<or> cp_definition c = wc_definition cf) \<and> (cp_digest c = [] \<or> intact)) \<and>
     rv_state (ws_output ws) \<noteq> Ready \<and> dry"

definition resume_execution :: "wf_config \<Rightarrow> bool \<Rightarrow> bool \<Rightarrow> bool \<Rightarrow> wf_store \<Rightarrow> exc + bool \<times> wf_store" where
  "resume_execution cf validated dry intact ws =
     (if validated \<and> \<not> preflight cf dry intact ws then Inl (workflow_fail ''WORKFLOW_RESUME_PREFLIGHT_FAILED'')
      else if ex_state (ws_exec ws) \<in> {WCompleted, WCompletedErrors} then Inr (False, ws)
      else if ex_state (ws_exec ws) \<notin> {WInterrupted, WCancelled} then Inl (workflow_fail ''WORKFLOW_RESUME_NOT_ALLOWED'')
      else if wc_definition cf \<noteq> ex_definition (ws_exec ws) then Inl (workflow_fail ''WORKFLOW_RESUME_DEFINITION_CHANGED'')
      else if rv_state (ws_output ws) = Ready then Inl (workflow_fail ''WORKFLOW_RESUME_OUTPUT_INVALID'')
      else claim_for_resume ws)"

section \<open>Steps\<close>

datatype wf_event =
    WResume bool bool bool | WRead "exc option" bool | WAppend bool "exc option" | WCheckpoint bool "exc option" bool
  | WFinalize bool "exc option" | WFinish bool "exc option" | WReturn "exc option" | WMark bool | WEnd bool
  | WLost | WRecover

text \<open>A transaction that does not raise has committed.\<close>

definition honest :: "bool \<Rightarrow> exc option \<Rightarrow> bool" where
  "honest committed raised \<longleftrightarrow> committed \<or> raised \<noteq> None"

fun wf_step :: "wf_config \<Rightarrow> engine \<Rightarrow> wf_event \<Rightarrow> wf_store \<times> wf_run option \<Rightarrow> (wf_store \<times> wf_run option) option" where
  "wf_step cf eng (WResume validated dry intact) (ws, None) = (case resume_execution cf validated dry intact ws of
     Inr (True, ws1) \<Rightarrow> Some (ws1, Some (begin_run True ws1)) | _ \<Rightarrow> None)"
| "wf_step cf eng (WRead interrupt elapsed) (ws, Some r) =
     (if r_phase r = Reading then Some (ws, Some (read_record cf eng interrupt elapsed r)) else None)"
| "wf_step cf eng (WAppend committed raised) (ws, Some r) = (case r_phase r of
     Appending g \<Rightarrow> if honest committed raised
       then (let (ws1, r1) = flush_append cf committed raised g ws r in Some (ws1, Some r1)) else None
   | _ \<Rightarrow> None)"
| "wf_step cf eng (WCheckpoint committed raised readable) (ws, Some r) = (case r_phase r of
     Checkpointing again g cp \<Rightarrow> if honest committed raised
       then (let (ws1, r1) = flush_checkpoint cf committed raised readable again g cp ws r in Some (ws1, Some r1)) else None
   | _ \<Rightarrow> None)"
| "wf_step cf eng (WFinalize committed raised) (ws, Some r) =
     (if r_phase r = Finalizing \<and> honest committed raised
      then (let (ws1, r1) = finalize_run cf committed raised ws r in Some (ws1, Some r1)) else None)"
| "wf_step cf eng (WFinish committed raised) (ws, Some r) =
     (if r_phase r = Finishing \<and> honest committed raised
      then (let (ws1, r1) = finish_run cf committed raised ws r in Some (ws1, Some r1)) else None)"
| "wf_step cf eng (WReturn raised) (ws, Some r) =
     (if r_phase r = Returning then Some (ws, map_option (\<lambda>x. raise_run cf x r) raised) else None)"
| "wf_step cf eng (WMark committed) (ws, Some r) = (case r_phase r of
     Marking x \<Rightarrow> (let (ws1, r1) = mark_revision committed x ws r in Some (ws1, Some r1)) | _ \<Rightarrow> None)"
| "wf_step cf eng (WEnd committed) (ws, Some r) = (case r_phase r of
     Ending x \<Rightarrow> Some (end_failed committed x ws, None) | _ \<Rightarrow> None)"
| "wf_step cf eng WLost (ws, Some r) = Some (ws, None)"
| "wf_step cf eng WRecover (ws, None) = Some (recover_pipeline ws, None)"
| "wf_step cf eng e (ws, r) = None"

text \<open>A new execution, and everything that can come after it.\<close>

definition new_execution :: "wf_config \<Rightarrow> (pystr \<times> json) list \<Rightarrow> wf_store" where
  "new_execution cf source =
     \<lparr>ws_exec = \<lparr>ex_state = WRunning, ex_definition = wc_definition cf, ex_last = [], ex_processed = 0, ex_staged = 0, ex_errors = 0,
        ex_checkpoint = None, ex_code = None, ex_nodes = []\<rparr>,
      ws_output = \<lparr>rv_state = Building, rv_schema = [], rv_records = []\<rparr>, ws_source = source, ws_current = False\<rparr>"

inductive wf_reach :: "wf_config \<Rightarrow> engine \<Rightarrow> (pystr \<times> json) list \<Rightarrow> wf_store \<times> wf_run option \<Rightarrow> bool"
  for cf :: wf_config and eng :: engine and source :: "(pystr \<times> json) list" where
  wf_first: "wf_reach cf eng source (new_execution cf source, Some (begin_run False (new_execution cf source)))"
| wf_next: "wf_reach cf eng source c \<Longrightarrow> wf_step cf eng e c = Some c' \<Longrightarrow> wf_reach cf eng source c'"

end
