(* ===== verification/WorkflowExactlyOnce.thy ===== *)
theory WorkflowExactlyOnce
  imports WorkflowRuntime
begin

text \<open>
  Whatever fails, whenever the process is lost and however often the run is resumed: a revision that is published holds the
  outputs of every source record, each once, as one undisturbed run would have written them.
\<close>

section \<open>Writes\<close>

text \<open>The records of a revision as a map, and what a list of writes makes of it.\<close>

definition writes :: "(pystr \<times> json) list \<Rightarrow> (pystr \<rightharpoonup> json) \<Rightarrow> (pystr \<rightharpoonup> json)" where
  "writes xs m = m ++ map_of (rev xs)"

lemma writes_Nil [simp]: "writes [] m = m"
  by (simp add: writes_def)

lemma writes_append [simp]: "writes (xs @ ys) m = writes ys (writes xs m)"
  by (simp add: writes_def map_add_assoc)

lemma dom_writes_keys: "dom (map_of (rev xs)) = fst ` set xs"
  by (simp add: dom_map_of_conv_image_fst)

lemma writes_covered:
  assumes "fst ` set xs \<subseteq> fst ` set ys"
  shows "writes ys (writes xs m) = writes ys m"
proof
  fix k
  show "writes ys (writes xs m) k = writes ys m k"
  proof (cases "k \<in> fst ` set ys")
    case True
    then have "map_of (rev ys) k \<noteq> None" by (metis domIff dom_writes_keys)
    then show ?thesis by (auto simp: writes_def map_add_def)
  next
    case False
    then have "map_of (rev ys) k = None" "map_of (rev xs) k = None" using assms by (metis domIff dom_writes_keys subsetD)+
    then show ?thesis by (simp add: writes_def map_add_def)
  qed
qed

lemma map_of_put: "map_of (put_records xs rows) = writes xs (map_of rows)"
proof (induction xs arbitrary: rows)
  case (Cons x xs)
  obtain k v where x: "x = (k, v)" by (cases x)
  have "map_of (put_records (x # xs) rows) = writes xs (map_of (AList.update k v rows))"
    using Cons.IH [of "AList.update k v rows"] by (simp add: put_records_def x)
  also have "\<dots> = writes (x # xs) (map_of rows)" by (simp add: update_conv' writes_def x map_add_def fun_eq_iff split: option.split)
  finally show ?case .
qed (simp add: put_records_def)

section \<open>What an undisturbed run writes\<close>

fun number_outputs :: "wf_config \<Rightarrow> pystr \<Rightarrow> nat \<Rightarrow> json list \<Rightarrow> (pystr \<times> json) list" where
  "number_outputs cf source n [] = []"
| "number_outputs cf source n (v # vs) = (output_identity cf source n, v) # number_outputs cf source (Suc n) vs"

definition record_outputs :: "wf_config \<Rightarrow> engine \<Rightarrow> pystr \<times> json \<Rightarrow> (pystr \<times> json) list" where
  "record_outputs cf eng r = (case eng (snd r) of Inl x \<Rightarrow> [] | Inr res \<Rightarrow> number_outputs cf (fst r) 0 (wr_outputs res))"

definition outs :: "wf_config \<Rightarrow> engine \<Rightarrow> (pystr \<times> json) list \<Rightarrow> (pystr \<times> json) list" where
  "outs cf eng rest = concat (map (record_outputs cf eng) rest)"

lemma outs_simps [simp]: "outs cf eng [] = []" "outs cf eng (r # rest) = record_outputs cf eng r @ outs cf eng rest"
  by (simp_all add: outs_def)

definition full_output :: "wf_config \<Rightarrow> engine \<Rightarrow> (pystr \<times> json) list \<Rightarrow> (pystr \<rightharpoonup> json)" where
  "full_output cf eng source = writes (outs cf eng (rows_after [] source)) Map.empty"

section \<open>Source positions\<close>

lemma rows_after_sorted:
  assumes "distinct (map fst rows)"
  shows "sorted (map fst (rows_after a rows))" "distinct (map fst (rows_after a rows))"
proof -
  have "sorted (map fst (sort_key fst rows))" "distinct (map fst (sort_key fst rows))"
    using assms by (simp_all add: distinct_map inj_on_def)
  then show "sorted (map fst (rows_after a rows))" "distinct (map fst (rows_after a rows))"
    by (simp_all add: rows_after_def sorted_filter distinct_map_filter)
qed

lemma rows_after_next:
  assumes "distinct (map fst rows)" and "rows_after a rows = r # rest"
  shows "rows_after (fst r) rows = rest"
proof -
  have f: "filter (\<lambda>x. fst r < fst x) (rows_after a rows) = rest"
    using sorted_filter_split [OF rows_after_sorted [OF assms(1)], of a "[r]" rest] assms(2) by simp
  have "r \<in> set (rows_after a rows)" using assms(2) by simp
  then have "a < fst r" by (simp add: rows_after_def)
  then have "filter (\<lambda>x. fst r < fst x) (rows_after a rows) = rows_after (fst r) rows"
    by (auto simp: rows_after_def intro!: filter_cong dest: order.strict_trans)
  with f show ?thesis by simp
qed

section \<open>The invariant\<close>

abbreviation out_map :: "wf_store \<Rightarrow> pystr \<rightharpoonup> json" where
  "out_map ws \<equiv> map_of (rv_records (ws_output ws))"

definition from_last :: "wf_config \<Rightarrow> engine \<Rightarrow> wf_store \<Rightarrow> (pystr \<times> json) list" where
  "from_last cf eng ws = outs cf eng (rows_after (ex_last (ws_exec ws)) (ws_source ws))"

definition clean_goal :: "goal \<Rightarrow> bool" where
  "clean_goal g \<longleftrightarrow> (case g of ToCleanup x \<Rightarrow> False | _ \<Rightarrow> True)"

text \<open>What is staged and what is still to be read make up the full output, and are all to be written again from the last checkpoint.\<close>

definition staged_ok :: "wf_config \<Rightarrow> engine \<Rightarrow> (pystr \<rightharpoonup> json) \<Rightarrow> wf_store \<Rightarrow> wf_run \<Rightarrow> bool" where
  "staged_ok cf eng target ws r \<longleftrightarrow> writes (r_pend r @ outs cf eng (r_rest r)) (out_map ws) = target \<and>
     fst ` set (r_pend r) \<subseteq> fst ` set (from_last cf eng ws) \<and> fst ` set (outs cf eng (r_rest r)) \<subseteq> fst ` set (from_last cf eng ws) \<and>
     \<not> r_write_failed r"

definition written_ok :: "wf_config \<Rightarrow> engine \<Rightarrow> (pystr \<rightharpoonup> json) \<Rightarrow> wf_store \<Rightarrow> wf_run \<Rightarrow> bool" where
  "written_ok cf eng target ws r \<longleftrightarrow> writes (outs cf eng (r_rest r)) (out_map ws) = target \<and>
     fst ` set (outs cf eng (r_rest r)) \<subseteq> fst ` set (from_last cf eng ws) \<and> \<not> r_write_failed r"

definition idle_ok :: "wf_run \<Rightarrow> bool" where
  "idle_ok r \<longleftrightarrow> (r_processed r = 0 \<longrightarrow> r_pend r = [])"

definition run_ok :: "wf_config \<Rightarrow> engine \<Rightarrow> (pystr \<rightharpoonup> json) \<Rightarrow> wf_store \<Rightarrow> wf_run \<Rightarrow> bool" where
  "run_ok cf eng target ws r \<longleftrightarrow> (case r_phase r of
     Reading \<Rightarrow> staged_ok cf eng target ws r \<and> idle_ok r
   | Appending g \<Rightarrow> staged_ok cf eng target ws r \<and> (clean_goal g \<longrightarrow> idle_ok r) \<and> (g = ToEnd \<longrightarrow> r_rest r = [])
   | Checkpointing again g cp \<Rightarrow> written_ok cf eng target ws r \<and> (g = ToEnd \<longrightarrow> r_rest r = [])
   | Finalizing \<Rightarrow> out_map ws = target \<and> r_processed r = 0
   | Finishing \<Rightarrow> False
   | Returning \<Rightarrow> False
   | _ \<Rightarrow> True)"

definition position_ok :: "wf_store \<Rightarrow> wf_run \<Rightarrow> bool" where
  "position_ok ws r \<longleftrightarrow> r_rest r = rows_after (r_last r) (ws_source ws)"

fun wf_inv :: "wf_config \<Rightarrow> engine \<Rightarrow> (pystr \<times> json) list \<Rightarrow> wf_store \<times> wf_run option \<Rightarrow> bool" where
  "wf_inv cf eng source (ws, ro) \<longleftrightarrow> ws_source ws = source \<and>
     (if rv_state (ws_output ws) = Ready then out_map ws = full_output cf eng source
      else \<not> ws_current ws \<and> ex_state (ws_exec ws) \<notin> {WCompleted, WCompletedErrors} \<and>
        writes (from_last cf eng ws) (out_map ws) = full_output cf eng source \<and>
        (case ro of None \<Rightarrow> True | Some r \<Rightarrow> position_ok ws r \<and> run_ok cf eng (full_output cf eng source) ws r))"

section \<open>The steps of a run\<close>

lemma staged_fields [simp]:
  "staged_ok cf eng t ws (r\<lparr>r_phase := p\<rparr>) = staged_ok cf eng t ws r" "written_ok cf eng t ws (r\<lparr>r_phase := p\<rparr>) = written_ok cf eng t ws r"
  "staged_ok cf eng t ws (r\<lparr>r_generation := n\<rparr>) = staged_ok cf eng t ws r" "written_ok cf eng t ws (r\<lparr>r_generation := n\<rparr>) = written_ok cf eng t ws r"
  "idle_ok (r\<lparr>r_phase := p\<rparr>) = idle_ok r" "position_ok ws (r\<lparr>r_phase := p\<rparr>) = position_ok ws r"
  "position_ok ws (r\<lparr>r_generation := n\<rparr>) = position_ok ws r" "position_ok ws (r\<lparr>r_write_failed := b\<rparr>) = position_ok ws r"
  by (simp_all add: staged_ok_def written_ok_def idle_ok_def position_ok_def)

lemma staged_to_written: "staged_ok cf eng t ws r \<Longrightarrow> r_pend r = [] \<Longrightarrow> written_ok cf eng t ws r"
  by (simp add: staged_ok_def written_ok_def)

lemma enter_checkpoint_ok:
  assumes "written_ok cf eng t ws r" and "g = ToEnd \<longrightarrow> r_rest r = []"
  shows "run_ok cf eng t ws (enter_checkpoint cf g r)"
  using assms by (simp add: run_ok_def enter_checkpoint_def)

lemma begin_flush_ok:
  assumes "staged_ok cf eng t ws r" and "clean_goal g \<longrightarrow> idle_ok r" and "g = ToEnd \<longrightarrow> r_rest r = []"
  shows "run_ok cf eng t ws (begin_flush cf g r)"
proof (cases "r_processed r = 0")
  case True
  show ?thesis
  proof (cases g)
    case ToRecords
    with assms True show ?thesis by (simp add: begin_flush_def leave_flush_def run_ok_def clean_goal_def)
  next
    case ToEnd
    with assms True have "r_pend r = []" "r_rest r = []" by (simp_all add: clean_goal_def idle_ok_def)
    with assms(1) have "out_map ws = t" by (simp add: staged_ok_def)
    with ToEnd True show ?thesis by (simp add: begin_flush_def leave_flush_def run_ok_def)
  next
    case (ToCleanup x)
    with True show ?thesis by (simp add: begin_flush_def leave_flush_def run_ok_def)
  qed
next
  case False
  show ?thesis
  proof (cases "r_pend r = []")
    case True
    have "begin_flush cf g r = enter_checkpoint cf g r" using False True by (simp add: begin_flush_def)
    then show ?thesis using enter_checkpoint_ok [OF staged_to_written [OF assms(1) True] assms(3)] by simp
  next
    case pend: False
    with False assms show ?thesis by (simp add: begin_flush_def run_ok_def)
  qed
qed

lemma raise_run_ok: "r_write_failed r \<or> staged_ok cf eng t ws r \<Longrightarrow> run_ok cf eng t ws (raise_run cf x r)"
  using begin_flush_ok [of cf eng t ws r "ToCleanup x"] by (auto simp: raise_run_def run_ok_def clean_goal_def)

lemma position_flow:
  "position_ok ws (begin_flush cf g r) = position_ok ws r" "position_ok ws (raise_run cf x r) = position_ok ws r"
  "position_ok ws (flush_raises cf g x r) = position_ok ws r" "position_ok ws (flushed g cp r) = position_ok ws r"
  "position_ok ws (enter_checkpoint cf g r) = position_ok ws r"
  by (auto simp: begin_flush_def raise_run_def flush_raises_def flushed_def enter_checkpoint_def leave_flush_def position_ok_def
      split: goal.split)

text \<open>The outputs staged by one record, all of them or the first ones.\<close>

lemma stage_outputs_frame:
  assumes "stage_outputs cf source n vs r = (e, r2)"
  shows "r_rest r2 = r_rest r" "r_last r2 = r_last r" "r_processed r2 = r_processed r" "r_write_failed r2 = r_write_failed r"
    "r_phase r2 = r_phase r" "r_errors r2 = r_errors r"
  using assms by (induction cf source n vs r rule: stage_outputs.induct) (auto simp: Let_def split: if_splits)

lemma stage_outputs_pend:
  assumes "stage_outputs cf source n vs r = (e, r2)"
  shows "\<exists>part rest. r_pend r2 = r_pend r @ part \<and> number_outputs cf source n vs = part @ rest \<and> (e = None \<longrightarrow> rest = [])"
  using assms
proof (induction cf source n vs r rule: stage_outputs.induct)
  case (2 cf source n v vs r)
  then show ?case by (auto simp: Let_def split: if_splits)
qed simp

lemma process_record_ok:
  assumes s: "staged_ok cf eng t ws r" and i: "idle_ok r" and p: "position_ok ws r" and ph: "r_phase r = Reading"
    and rest: "r_rest r = (source, d) # rest" and e: "eng d = Inr res" and dist: "distinct (map fst (ws_source ws))"
  shows "run_ok cf eng t ws (process_record cf elapsed source res rest r) \<and> position_ok ws (process_record cf elapsed source res rest r)"
proof -
  define r1 where "r1 = r\<lparr>r_nodes := fold (\<lambda>(k, m). merge_node k m) (wr_nodes res) (r_nodes r), r_errors := r_errors r + wr_errors res\<rparr>"
  obtain x r2 where st: "stage_outputs cf source 0 (wr_outputs res) r1 = (x, r2)" by (cases "stage_outputs cf source 0 (wr_outputs res) r1")
  obtain part more where pm: "r_pend r2 = r_pend r @ part" "number_outputs cf source 0 (wr_outputs res) = part @ more" "x = None \<longrightarrow> more = []"
    using stage_outputs_pend [OF st] by (auto simp: r1_def)
  have fr: "r_rest r2 = r_rest r" "r_last r2 = r_last r" "r_processed r2 = r_processed r" "r_write_failed r2 = r_write_failed r" "r_phase r2 = Reading"
    using stage_outputs_frame [OF st] ph by (simp_all add: r1_def)
  have outs: "outs cf eng (r_rest r) = (part @ more) @ outs cf eng rest" using rest e pm(2) by (simp add: record_outputs_def)
  show ?thesis
  proof (cases x)
    case (Some y)
    have "writes (r_pend r2 @ outs cf eng (r_rest r2)) (out_map ws) = writes (outs cf eng (r_rest r)) (writes part (writes (r_pend r) (out_map ws)))"
      by (simp add: pm(1) fr(1))
    also have "\<dots> = writes (outs cf eng (r_rest r)) (writes (r_pend r) (out_map ws))"
      by (rule writes_covered) (simp add: outs image_Un)
    finally have "staged_ok cf eng t ws r2" using s pm(1) fr outs by (auto simp: staged_ok_def image_Un)
    moreover have "position_ok ws r2" using p fr by (simp add: position_ok_def)
    ultimately show ?thesis using Some st
      by (simp add: process_record_def r1_def [symmetric] raise_run_ok position_flow)
  next
    case None
    define r3 where "r3 = r2\<lparr>r_processed := r_processed r2 + 1, r_last := source, r_rest := rest\<rparr>"
    have s3: "staged_ok cf eng t ws r3" using s pm fr outs None by (auto simp: staged_ok_def r3_def image_Un)
    have p3: "position_ok ws r3" using rows_after_next [OF dist, of "r_last r" "(source, d)" rest] p rest by (simp add: position_ok_def r3_def)
    have i3: "idle_ok r3" by (simp add: idle_ok_def r3_def)
    have "run_ok cf eng t ws r3" using s3 i3 fr(5) by (simp add: run_ok_def r3_def)
    moreover have "run_ok cf eng t ws (begin_flush cf ToRecords r3)" using begin_flush_ok [OF s3, of ToRecords] i3 by simp
    moreover have "process_record cf elapsed source res rest r = (if wc_every cf \<le> r_processed r3 \<or> wc_batch cf \<le> length (r_pend r3) \<or>
        wc_bytes cf \<le> r_bytes r3 \<or> elapsed then begin_flush cf ToRecords r3 else r3)"
      using None st by (simp add: process_record_def r1_def [symmetric] r3_def Let_def)
    ultimately show ?thesis using p3 by (simp add: position_flow)
  qed
qed

section \<open>The transactions\<close>

lemma ready_refuses:
  assumes "rv_state (ws_output ws) = Ready"
  shows "append_revision_records xs (ws_output ws) = Inl (dataset_fail ''DATASET_REVISION_IMMUTABLE'')"
    "finalize_revision_build schema ws = Inl (dataset_fail ''DATASET_REVISION_STATE_CONFLICT'')"
    "\<exists>x. set_revision_build_state st (ws_output ws) = Inl x" "resume_execution cf v d i ws \<noteq> Inr (True, ws')"
    "ws_output (recover_pipeline ws) = ws_output ws"
  using assms
  by (simp_all add: append_revision_records_def finalize_revision_build_def set_revision_build_state_def resume_execution_def
      recover_pipeline_def Let_def)

lemma ready_stays:
  assumes "wf_step cf eng e (ws, ro) = Some (ws', ro')" and r: "rv_state (ws_output ws) = Ready"
  shows "ws_output ws' = ws_output ws \<and> ws_source ws' = ws_source ws"
proof -
  show ?thesis
    using assms ready_refuses [OF r]
    by (cases "(cf, eng, e, ws, ro)" rule: wf_step.cases)
      (auto simp: flush_append_def flush_checkpoint_def finalize_run_def finish_run_def mark_revision_def end_failed_def commit_if_def
        recover_pipeline_def set_revision_build_state_def Let_def split: if_splits sum.splits option.splits wf_phase.splits bool.splits prod.splits)
qed

lemma from_last_output [simp]: "from_last cf eng (ws\<lparr>ws_output := v\<rparr>) = from_last cf eng ws"
  by (simp add: from_last_def)

lemma append_ok:
  assumes s: "staged_ok cf eng t ws r" and full: "writes (from_last cf eng ws) (out_map ws) = t"
    and g: "clean_goal g \<longrightarrow> idle_ok r" "g = ToEnd \<longrightarrow> r_rest r = []" and p: "position_ok ws r"
    and nr: "rv_state (ws_output ws) \<noteq> Ready" and h: "honest committed raised"
    and step: "flush_append cf committed raised g ws r = (ws1, r1)"
  shows "ws_exec ws1 = ws_exec ws \<and> ws_source ws1 = ws_source ws \<and> ws_current ws1 = ws_current ws \<and> rv_state (ws_output ws1) \<noteq> Ready \<and>
    writes (from_last cf eng ws1) (out_map ws1) = t \<and> run_ok cf eng t ws1 r1 \<and> position_ok ws1 r1"
proof -
  define res where "res = append_revision_records (r_pend r) (ws_output ws)"
  define ok where "ok = (committed \<and> \<not> isl res)"
  have ws1: "ws1 = ws\<lparr>ws_output := commit_if committed res (ws_output ws)\<rparr>"
    and r1: "r1 = (case raised_by raised res of None \<Rightarrow> enter_checkpoint cf g r | Some x \<Rightarrow> flush_raises cf g x r)"
    using step by (simp_all add: flush_append_def Let_def res_def)
  have out: "ws_output ws1 = (if ok then (ws_output ws)\<lparr>rv_records := put_records (r_pend r) (rv_records (ws_output ws))\<rparr> else ws_output ws)"
    by (auto simp: ws1 commit_if_def ok_def res_def append_revision_records_def)
  have m: "out_map ws1 = (if ok then writes (r_pend r) (out_map ws) else out_map ws)" by (simp add: out map_of_put)
  have cov: "fst ` set (r_pend r) \<subseteq> fst ` set (from_last cf eng ws)" using s by (simp add: staged_ok_def)
  have fl: "writes (from_last cf eng ws) (out_map ws1) = t" using full writes_covered [OF cov] by (simp add: m)
  have e: "ws_exec ws1 = ws_exec ws" "ws_source ws1 = ws_source ws" by (simp_all add: ws1)
  have fle: "from_last cf eng ws1 = from_last cf eng ws" by (simp add: from_last_def e)
  have twice: "writes (r_pend r @ outs cf eng (r_rest r)) (out_map ws1) = t"
    using s writes_covered [of "r_pend r" "r_pend r" "out_map ws"] by (simp add: m staged_ok_def)
  have s1: "staged_ok cf eng t ws1 r" using s twice by (simp add: staged_ok_def fle)
  have p1: "position_ok ws1 r" using p by (simp add: position_ok_def e)
  have "run_ok cf eng t ws1 r1"
  proof (cases "raised_by raised res")
    case None
    then have ok using h by (auto simp: raised_by_def ok_def honest_def split: sum.splits)
    then have "written_ok cf eng t ws1 r" using s by (simp add: written_ok_def staged_ok_def m fle)
    then show ?thesis using enter_checkpoint_ok g(2) None by (simp add: r1)
  next
    case (Some x)
    show ?thesis
    proof (cases g)
      case (ToCleanup y)
      then show ?thesis by (simp add: r1 Some flush_raises_def run_ok_def)
    qed (use raise_run_ok s1 in \<open>simp_all add: r1 Some flush_raises_def\<close>)
  qed
  moreover have "position_ok ws1 r1" using p1 by (simp add: r1 position_flow split: option.split)
  moreover have "rv_state (ws_output ws1) \<noteq> Ready" using nr by (simp add: out)
  moreover have "ws_current ws1 = ws_current ws" by (simp add: ws1)
  ultimately show ?thesis using e fl by (simp add: fle)
qed

lemma checkpoint_ok:
  assumes w: "written_ok cf eng t ws r" and full: "writes (from_last cf eng ws) (out_map ws) = t"
    and g: "g = ToEnd \<longrightarrow> r_rest r = []" and p: "position_ok ws r"
    and st: "ex_state (ws_exec ws) \<notin> {WCompleted, WCompletedErrors}"
    and step: "flush_checkpoint cf committed raised readable again g cp ws r = (ws1, r1)"
  shows "ws_output ws1 = ws_output ws \<and> ws_source ws1 = ws_source ws \<and> ws_current ws1 = ws_current ws \<and>
    ex_state (ws_exec ws1) \<notin> {WCompleted, WCompletedErrors} \<and>
    writes (from_last cf eng ws1) (out_map ws1) = t \<and> run_ok cf eng t ws1 r1 \<and> position_ok ws1 r1"
proof -
  define res where "res = checkpoint_workflow_execution (r_last r) (run_deltas r) cp (ws_exec ws)"
  define e where "e = commit_if committed res (ws_exec ws)"
  have ws1: "ws1 = ws\<lparr>ws_exec := e\<rparr>" using step by (simp add: flush_checkpoint_def Let_def res_def e_def)
  have r1: "r1 = (case raised_by raised res of None \<Rightarrow> flushed g cp r
        | Some x \<Rightarrow> if checkpoint_is_durable readable cp e then flushed g cp r
            else if x = OperationalError \<and> \<not> again then r\<lparr>r_phase := Checkpointing True g cp\<rparr>
            else flush_raises cf g x (r\<lparr>r_write_failed := True\<rparr>))"
    using step [symmetric] unfolding flush_checkpoint_def Let_def res_def e_def by simp
  have el: "ex_last e = ex_last (ws_exec ws) \<or> ex_last e = r_last r" and es: "ex_state e = ex_state (ws_exec ws)"
    by (auto simp: e_def commit_if_def res_def checkpoint_workflow_execution_def)
  have fl: "from_last cf eng ws1 = from_last cf eng ws \<or> from_last cf eng ws1 = outs cf eng (r_rest r)"
    using el p by (auto simp: from_last_def ws1 position_ok_def)
  have full1: "writes (from_last cf eng ws1) (out_map ws1) = t" using fl full w by (auto simp: ws1 written_ok_def)
  have w1: "written_ok cf eng t ws1 r" using fl w by (elim disjE) (simp_all add: ws1 written_ok_def)
  have p1: "position_ok ws1 r" using p by (simp add: position_ok_def ws1)
  have fd: "run_ok cf eng t ws1 (flushed g cp r)"
  proof (cases g)
    case ToEnd
    then show ?thesis using w1 assms(3) by (simp add: flushed_def leave_flush_def run_ok_def written_ok_def)
  qed (use w1 in \<open>simp_all add: flushed_def leave_flush_def run_ok_def written_ok_def staged_ok_def idle_ok_def\<close>)
  have "run_ok cf eng t ws1 (r\<lparr>r_phase := Checkpointing True g cp\<rparr>)" using w1 g by (simp add: run_ok_def)
  moreover have "run_ok cf eng t ws1 (flush_raises cf g x (r\<lparr>r_write_failed := True\<rparr>))" for x
    by (cases g) (simp_all add: flush_raises_def raise_run_def run_ok_def)
  ultimately have "run_ok cf eng t ws1 r1" using fd by (simp add: r1 split: option.split)
  moreover have "position_ok ws1 r1" using p1 by (simp add: r1 position_flow split: option.split)
  ultimately show ?thesis using full1 st es by (simp add: ws1)
qed

lemma finalize_ok:
  assumes "out_map ws = t" "r_processed r = 0" and nr: "rv_state (ws_output ws) \<noteq> Ready" and "\<not> ws_current ws"
    and "honest committed raised" and step: "finalize_run cf committed raised ws r = (ws1, r1)"
  shows "ws_exec ws1 = ws_exec ws \<and> ws_source ws1 = ws_source ws \<and> out_map ws1 = t \<and>
    (rv_state (ws_output ws1) = Ready \<or> ws1 = ws \<and> run_ok cf eng t ws1 r1) \<and> position_ok ws1 r1 = position_ok ws r"
proof -
  let ?schema = "schema_dict (r_schema r)"
  define res where "res = finalize_revision_build ?schema ws"
  have ws1: "ws1 = commit_if committed (map_sum id snd res) ws"
    and r1: "r1 = (case raised_by raised res of None \<Rightarrow> r\<lparr>r_phase := Finishing\<rparr> | Some x \<Rightarrow> raise_run cf x r)"
    using step [symmetric] unfolding finalize_run_def Let_def res_def by simp_all
  have raise: "run_ok cf eng t ws1 (raise_run cf x r)" for x
    using assms(2) by (simp add: raise_run_def begin_flush_def leave_flush_def run_ok_def)
  show ?thesis
  proof (cases "isl res \<or> \<not> committed")
    case True
    then have w: "ws1 = ws" by (cases res) (auto simp: ws1 commit_if_def)
    have "raised_by raised res \<noteq> None" using True assms(5) by (cases res) (auto simp: raised_by_def honest_def)
    then show ?thesis using w raise assms(1) by (auto simp: r1 position_flow)
  next
    case False
    then obtain n ws2 where res2: "res = Inr (n, ws2)" "committed" by (cases res) auto
    then have w: "ws1 = ws2" by (simp add: ws1 commit_if_def)
    have "ws_exec ws2 = ws_exec ws \<and> ws_source ws2 = ws_source ws \<and> out_map ws2 = out_map ws \<and> rv_state (ws_output ws2) = Ready"
      using res2(1) by (auto simp: res_def finalize_revision_build_def split: if_splits)
    moreover from this have "position_ok ws2 r1 = position_ok ws r"
      using position_flow(2) [of ws2] by (auto simp: r1 position_ok_def split: option.split)
    ultimately show ?thesis using w assms(1) by simp
  qed
qed

lemma mark_ok:
  assumes nr: "rv_state (ws_output ws) \<noteq> Ready" and "mark_revision committed x ws r = (ws1, r1)"
  shows "ws_exec ws1 = ws_exec ws \<and> ws_source ws1 = ws_source ws \<and> ws_current ws1 = ws_current ws \<and> out_map ws1 = out_map ws \<and>
    rv_state (ws_output ws1) \<noteq> Ready \<and> r1 = r\<lparr>r_phase := Ending x\<rparr>"
  using assms by (auto simp: mark_revision_def Let_def commit_if_def set_revision_build_state_def split: if_splits)

lemma end_ok:
  "ws_output (end_failed committed x ws) = ws_output ws \<and> ws_source (end_failed committed x ws) = ws_source ws \<and>
   ws_current (end_failed committed x ws) = ws_current ws \<and> ex_last (ws_exec (end_failed committed x ws)) = ex_last (ws_exec ws) \<and>
   (ex_state (ws_exec (end_failed committed x ws)) \<in> {WCompleted, WCompletedErrors} \<longrightarrow> ex_state (ws_exec ws) \<in> {WCompleted, WCompletedErrors})"
  by (auto simp: end_failed_def Let_def commit_if_def finish_workflow_execution_def)

lemma recover_ok:
  assumes "rv_state (ws_output ws) \<noteq> Ready" and "ex_state (ws_exec ws) \<notin> {WCompleted, WCompletedErrors}"
  shows "ws_source (recover_pipeline ws) = ws_source ws \<and> ws_current (recover_pipeline ws) = ws_current ws \<and>
    out_map (recover_pipeline ws) = out_map ws \<and> rv_state (ws_output (recover_pipeline ws)) \<noteq> Ready \<and>
    ex_last (ws_exec (recover_pipeline ws)) = ex_last (ws_exec ws) \<and>
    ex_state (ws_exec (recover_pipeline ws)) \<notin> {WCompleted, WCompletedErrors}"
  using assms by (auto simp: recover_pipeline_def Let_def)

lemma resume_ok:
  assumes "resume_execution cf validated dry intact ws = Inr (True, ws1)"
  shows "ws_source ws1 = ws_source ws \<and> ws_current ws1 = ws_current ws \<and> out_map ws1 = out_map ws \<and>
    ex_last (ws_exec ws1) = ex_last (ws_exec ws) \<and> ex_state (ws_exec ws1) = WRunning \<and> rv_state (ws_output ws1) = Building"
  using assms by (auto simp: resume_execution_def claim_for_resume_def split: if_splits)

lemma begin_ok:
  assumes "writes (from_last cf eng ws) (out_map ws) = t"
  shows "run_ok cf eng t ws (begin_run b ws) \<and> position_ok ws (begin_run b ws)"
  using assms by (simp add: run_ok_def begin_run_def Let_def staged_ok_def idle_ok_def position_ok_def from_last_def)

lemma read_ok:
  assumes s: "staged_ok cf eng t ws r" and i: "idle_ok r" and p: "position_ok ws r" and ph: "r_phase r = Reading"
    and dist: "distinct (map fst (ws_source ws))"
  shows "run_ok cf eng t ws (read_record cf eng interrupt elapsed r) \<and> position_ok ws (read_record cf eng interrupt elapsed r)"
proof (cases interrupt)
  case (Some x)
  then show ?thesis using s p by (simp add: read_record_def raise_run_ok position_flow)
next
  case None
  show ?thesis
  proof (cases "r_rest r")
    case Nil
    then show ?thesis using None begin_flush_ok [OF s, of ToEnd] i p by (simp add: read_record_def position_flow)
  next
    case (Cons a rest)
    obtain source d where a: "a = (source, d)" by (cases a)
    show ?thesis
    proof (cases "eng d")
      case (Inl x)
      then show ?thesis using None Cons a s p by (simp add: read_record_def raise_run_ok position_flow)
    next
      case (Inr res)
      show ?thesis
      proof (cases "is_object d")
        case True
        have "read_record cf eng interrupt elapsed r = process_record cf elapsed source res rest r"
          using None Cons a Inr True by (simp add: read_record_def)
        then show ?thesis using process_record_ok [OF s i p ph _ Inr dist] Cons a by simp
      next
        case False
        then show ?thesis using None Cons a s p by (simp add: read_record_def raise_run_ok position_flow)
      qed
    qed
  qed
qed

section \<open>Every step keeps the invariant\<close>

lemma wf_inv_open:
  assumes "rv_state (ws_output ws) \<noteq> Ready"
  shows "wf_inv cf eng source (ws, ro) \<longleftrightarrow> ws_source ws = source \<and> \<not> ws_current ws \<and>
    ex_state (ws_exec ws) \<notin> {WCompleted, WCompletedErrors} \<and> writes (from_last cf eng ws) (out_map ws) = full_output cf eng source \<and>
    (case ro of None \<Rightarrow> True | Some r \<Rightarrow> position_ok ws r \<and> run_ok cf eng (full_output cf eng source) ws r)"
  using assms by auto

lemma wf_inv_ready: "rv_state (ws_output ws) = Ready \<Longrightarrow> wf_inv cf eng source (ws, ro) \<longleftrightarrow> ws_source ws = source \<and> out_map ws = full_output cf eng source"
  by simp

lemma from_last_cong:
  "ex_last (ws_exec ws1) = ex_last (ws_exec ws) \<Longrightarrow> ws_source ws1 = ws_source ws \<Longrightarrow> from_last cf eng ws1 = from_last cf eng ws"
  by (simp add: from_last_def)

lemma run_inv_step:
  assumes step: "wf_step cf eng e (ws, Some r) = Some (ws', ro')" and inv: "wf_inv cf eng source (ws, Some r)"
    and dist: "distinct (map fst source)" and nr: "rv_state (ws_output ws) \<noteq> Ready"
  shows "wf_inv cf eng source (ws', ro')"
proof -
  let ?t = "full_output cf eng source"
  from inv have src: "ws_source ws = source" and cur: "\<not> ws_current ws" and ex: "ex_state (ws_exec ws) \<notin> {WCompleted, WCompletedErrors}"
    and full: "writes (from_last cf eng ws) (out_map ws) = ?t" and pos: "position_ok ws r" and ok: "run_ok cf eng ?t ws r"
    unfolding wf_inv_open [OF nr] by simp_all
  show ?thesis
  proof (cases e)
    case (WRead interrupt elapsed)
    then have ph: "r_phase r = Reading" and s: "ws' = ws" "ro' = Some (read_record cf eng interrupt elapsed r)"
      using step by (simp_all split: if_splits)
    then have "staged_ok cf eng ?t ws r" "idle_ok r" using ok by (simp_all add: run_ok_def)
    from read_ok [OF this pos ph] show ?thesis unfolding s wf_inv_open [OF nr] using src cur ex full dist by simp
  next
    case (WAppend committed raised)
    then obtain g where ph: "r_phase r = Appending g" and h: "honest committed raised" using step by (auto split: wf_phase.splits if_splits)
    obtain ws1 r1 where f: "flush_append cf committed raised g ws r = (ws1, r1)" by (cases "flush_append cf committed raised g ws r")
    have s: "ws' = ws1" "ro' = Some r1" using step WAppend ph h f by simp_all
    have o: "staged_ok cf eng ?t ws r" "clean_goal g \<longrightarrow> idle_ok r" "g = ToEnd \<longrightarrow> r_rest r = []" using ok ph by (simp_all add: run_ok_def)
    note A = append_ok [OF o(1) full o(2,3) pos nr h f]
    then have nr1: "rv_state (ws_output ws1) \<noteq> Ready" by simp
    show ?thesis unfolding s wf_inv_open [OF nr1] using A src cur ex by simp
  next
    case (WCheckpoint committed raised readable)
    then obtain again g cp where ph: "r_phase r = Checkpointing again g cp" and h: "honest committed raised"
      using step by (auto split: wf_phase.splits if_splits)
    obtain ws1 r1 where f: "flush_checkpoint cf committed raised readable again g cp ws r = (ws1, r1)"
      by (cases "flush_checkpoint cf committed raised readable again g cp ws r")
    have s: "ws' = ws1" "ro' = Some r1" using step WCheckpoint ph h f by simp_all
    have o: "written_ok cf eng ?t ws r" "g = ToEnd \<longrightarrow> r_rest r = []" using ok ph by (simp_all add: run_ok_def)
    note A = checkpoint_ok [OF o(1) full o(2) pos ex f]
    then have nr1: "rv_state (ws_output ws1) \<noteq> Ready" using nr by simp
    show ?thesis unfolding s wf_inv_open [OF nr1] using A src cur by (elim conjE) simp
  next
    case (WFinalize committed raised)
    then have ph: "r_phase r = Finalizing" and h: "honest committed raised" using step by (simp_all split: if_splits)
    obtain ws1 r1 where f: "finalize_run cf committed raised ws r = (ws1, r1)" by (cases "finalize_run cf committed raised ws r")
    have s: "ws' = ws1" "ro' = Some r1" using step WFinalize ph h f by simp_all
    have o: "out_map ws = ?t" "r_processed r = 0" using ok ph by (simp_all add: run_ok_def)
    note A = finalize_ok [OF o nr cur h f, of eng]
    show ?thesis
    proof (cases "rv_state (ws_output ws1) = Ready")
      case True
      then show ?thesis unfolding s wf_inv_ready [OF True] using A src by simp
    next
      case False
      with A have w: "ws1 = ws" "run_ok cf eng ?t ws r1" "position_ok ws r1" using pos by auto
      show ?thesis unfolding s w(1) wf_inv_open [OF nr] using w src cur ex full by simp
    qed
  next
    case (WMark committed)
    then obtain x where ph: "r_phase r = Marking x" using step by (auto split: wf_phase.splits)
    obtain ws1 r1 where f: "mark_revision committed x ws r = (ws1, r1)" by (cases "mark_revision committed x ws r")
    have s: "ws' = ws1" "ro' = Some r1" using step WMark ph f by simp_all
    note A = mark_ok [OF nr f]
    then have nr1: "rv_state (ws_output ws1) \<noteq> Ready" by simp
    have "from_last cf eng ws1 = from_last cf eng ws" using A by (intro from_last_cong) simp_all
    then show ?thesis unfolding s wf_inv_open [OF nr1] using A src cur ex full pos by (simp add: run_ok_def position_ok_def)
  next
    case (WEnd committed)
    then obtain x where s: "ws' = end_failed committed x ws" "ro' = None" using step by (auto split: wf_phase.splits)
    note A = end_ok [of committed x ws]
    have nr1: "rv_state (ws_output (end_failed committed x ws)) \<noteq> Ready" using A nr by simp
    have fl: "from_last cf eng (end_failed committed x ws) = from_last cf eng ws" using A by (intro from_last_cong) simp_all
    show ?thesis unfolding s wf_inv_open [OF nr1] fl using A src cur ex full by auto
  next
    case WLost
    then have s: "ws' = ws" "ro' = None" using step by simp_all
    show ?thesis unfolding s wf_inv_open [OF nr] using src cur ex full by simp
  qed (use step ok in \<open>auto simp: run_ok_def split: if_splits\<close>)
qed

lemma idle_inv_step:
  assumes step: "wf_step cf eng e (ws, None) = Some (ws', ro')" and inv: "wf_inv cf eng source (ws, None)"
    and nr: "rv_state (ws_output ws) \<noteq> Ready"
  shows "wf_inv cf eng source (ws', ro')"
proof -
  let ?t = "full_output cf eng source"
  from inv have src: "ws_source ws = source" and cur: "\<not> ws_current ws" and ex: "ex_state (ws_exec ws) \<notin> {WCompleted, WCompletedErrors}"
    and full: "writes (from_last cf eng ws) (out_map ws) = ?t"
    unfolding wf_inv_open [OF nr] by simp_all
  show ?thesis
  proof (cases e)
    case (WResume validated dry intact)
    then obtain ws1 where r: "resume_execution cf validated dry intact ws = Inr (True, ws1)" and s: "ws' = ws1" "ro' = Some (begin_run True ws1)"
      using step by (auto split: sum.splits prod.splits bool.splits)
    note A = resume_ok [OF r]
    then have nr1: "rv_state (ws_output ws1) \<noteq> Ready" by simp
    have fl: "from_last cf eng ws1 = from_last cf eng ws" using A by (intro from_last_cong) simp_all
    have full1: "writes (from_last cf eng ws1) (out_map ws1) = ?t" using full A fl by simp
    show ?thesis unfolding s wf_inv_open [OF nr1] using A full1 begin_ok [OF full1, of True] src cur by simp
  next
    case WRecover
    then have s: "ws' = recover_pipeline ws" "ro' = None" using step by simp_all
    note A = recover_ok [OF nr ex]
    then have nr1: "rv_state (ws_output (recover_pipeline ws)) \<noteq> Ready" by simp
    have fl: "from_last cf eng (recover_pipeline ws) = from_last cf eng ws" using A by (intro from_last_cong) simp_all
    show ?thesis unfolding s wf_inv_open [OF nr1] fl using A full src cur by simp
  qed (use step in simp_all)
qed

lemma wf_inv_step:
  assumes "wf_step cf eng e (ws, ro) = Some (ws', ro')" and "wf_inv cf eng source (ws, ro)" and "distinct (map fst source)"
  shows "wf_inv cf eng source (ws', ro')"
proof (cases "rv_state (ws_output ws) = Ready")
  case True
  have k: "ws_output ws' = ws_output ws \<and> ws_source ws' = ws_source ws" by (rule ready_stays [OF assms(1) True])
  then have r': "rv_state (ws_output ws') = Ready" using True by simp
  show ?thesis using assms(2) k unfolding wf_inv_ready [OF True] wf_inv_ready [OF r'] by simp
next
  case False
  then show ?thesis using run_inv_step idle_inv_step assms by (cases ro) blast+
qed

lemma wf_inv_reach:
  assumes "wf_reach cf eng source c" and "distinct (map fst source)"
  shows "wf_inv cf eng source c"
  using assms(1)
proof (induction rule: wf_reach.induct)
  case wf_first
  let ?ws = "new_execution cf source"
  have nr: "rv_state (ws_output ?ws) \<noteq> Ready" by (simp add: new_execution_def)
  have full: "writes (from_last cf eng ?ws) (out_map ?ws) = full_output cf eng source"
    by (simp add: new_execution_def from_last_def full_output_def)
  show ?case unfolding wf_inv_open [OF nr] using begin_ok [OF full, of False] full by (simp add: new_execution_def)
next
  case (wf_next c e c')
  then show ?case using wf_inv_step [OF _ _ assms(2)] by (cases c; cases c') blast
qed

end
