(* ===== verification/WorkflowResults.thy ===== *)
theory WorkflowResults
  imports WorkflowExactlyOnce
begin

text \<open>
  The properties of checkpointed workflow runs, and two ways in which the execution row does not say what happened. The
  example is a workflow that copies each of two records, checkpoints after every record, and uses its text as its digest.
\<close>

fun run_wf :: "wf_config \<Rightarrow> engine \<Rightarrow> wf_event list \<Rightarrow> wf_store \<times> wf_run option \<Rightarrow> (wf_store \<times> wf_run option) option" where
  "run_wf cf eng [] c = Some c"
| "run_wf cf eng (e # es) c = (case wf_step cf eng e c of None \<Rightarrow> None | Some c1 \<Rightarrow> run_wf cf eng es c1)"

lemma reach_run_wf: "run_wf cf eng es c = Some c' \<Longrightarrow> wf_reach cf eng source c \<Longrightarrow> wf_reach cf eng source c'"
  by (induction es arbitrary: c) (auto intro: wf_next split: option.splits)

definition copy_engine :: engine where
  "copy_engine d = Inr \<lparr>wr_outputs = [d], wr_errors = 0, wr_nodes = [(''n'', \<lparr>nc_input = 1, nc_output = 1, nc_errors = 0, nc_partial = False\<rparr>)]\<rparr>"

definition ex_config :: wf_config where
  "ex_config = \<lparr>wc_workflow = ''w'', wc_version = ''1'', wc_definition = ''h'', wc_source = ''s'', wc_output = ''o'', wc_every = 1, wc_batch = 2, wc_cap = 9, wc_bytes = 20, wc_sha = take 1\<rparr>"

definition ex_source :: "(pystr \<times> json) list" where
  "ex_source = [(''b'', JObj [(''x'', JInt 2)]), (''a'', JObj [(''x'', JInt 1)])]"

definition ex_start :: "wf_store \<times> wf_run option" where
  "ex_start = (new_execution ex_config ex_source, Some (begin_run False (new_execution ex_config ex_source)))"

lemma ex_start_reach: "wf_reach ex_config copy_engine ex_source ex_start"
  unfolding ex_start_def by (rule wf_first)

definition ex_one :: "wf_event list" where
  "ex_one = [WRead None False, WAppend True None, WCheckpoint True None True]"

definition ex_end :: "wf_event list" where
  "ex_end = [WRead None False, WFinalize True None, WFinish True None]"

text \<open>The process is lost after the first append; the run is resumed and goes to its end.\<close>

definition ex_crash :: "wf_event list" where
  "ex_crash = [WRead None False, WAppend True None, WLost, WRecover, WResume True True True] @ ex_one @ ex_one @ ex_end @ [WReturn None]"

definition ex_final :: "wf_store \<times> wf_run option" where
  "ex_final = the (run_wf ex_config copy_engine ex_crash ex_start)"

definition wf_row :: "wf_store \<times> wf_run option \<Rightarrow> exec_state \<times> nat \<times> build_state \<times> bool" where
  "wf_row c = (ex_state (ws_exec (fst c)), ex_processed (ws_exec (fst c)), rv_state (ws_output (fst c)), ws_current (fst c))"

lemma ex_final_some: "\<not> Option.is_none (run_wf ex_config copy_engine ex_crash ex_start)" by code_simp
lemma ex_final_row: "wf_row ex_final = (WCompleted, 2, Ready, True)" by code_simp

lemma ex_final_reach: "wf_reach ex_config copy_engine ex_source ex_final"
  using ex_final_some reach_run_wf [OF _ ex_start_reach] unfolding ex_final_def
  by (cases "run_wf ex_config copy_engine ex_crash ex_start") auto

section \<open>Exactly once\<close>



text \<open>C31: The outputs of a record are published once whatever happens, and nothing is published twice: a revision that is ready
  never changes again, and no execution of it is ever resumed.\<close>

theorem published_revision_frozen:
  assumes "rv_state (ws_output ws) = Ready" and "run_wf cf eng es (ws, ro) = Some (ws', ro')"
  shows "ws_output ws' = ws_output ws"
  using assms
proof (induction es arbitrary: ws ro)
  case (Cons e es)
  then obtain ws1 ro1 where c: "wf_step cf eng e (ws, ro) = Some (ws1, ro1)" "run_wf cf eng es (ws1, ro1) = Some (ws', ro')"
    by (auto split: option.splits)
  have "ws_output ws1 = ws_output ws" using ready_stays [OF c(1) Cons.prems(1)] by simp
  then show ?case using Cons.IH [OF _ c(2)] Cons.prems(1) by simp
qed simp

theorem published_revision_frozen_witness:
  "ws_output (recover_pipeline (fst ex_final)) = ws_output (fst ex_final) \<and> rv_state (ws_output (fst ex_final)) = Ready"
proof -
  have r: "rv_state (ws_output (fst ex_final)) = Ready" using ex_final_row by (simp add: wf_row_def)
  have "run_wf ex_config copy_engine [WRecover] (fst ex_final, None) = Some (recover_pipeline (fst ex_final), None)" by simp
  from published_revision_frozen [OF r this] r show ?thesis by simp
qed

section \<open>What the execution row may say\<close>

text \<open>The checkpoint commits and raises, and the read that should confirm it fails too: the additive deltas are written again.\<close>

lemma unconfirmed_checkpoint_counts_twice:
  "map_option wf_row (run_wf ex_config copy_engine
     ([WRead None False, WAppend True None, WCheckpoint True (Some OperationalError) False, WCheckpoint True None True] @ ex_one @ ex_end
      @ [WReturn None]) ex_start) = Some (WCompleted, 3, Ready, True) \<and> length ex_source = 2"
  by code_simp

text \<open>The last read of the row fails after everything is done: the published execution is marked as failed.\<close>

lemma published_execution_marked_failed:
  "map_option wf_row (run_wf ex_config copy_engine
     (ex_one @ ex_one @ ex_end @ [WReturn (Some OperationalError), WMark True, WEnd True]) ex_start) = Some (WFailed, 2, Ready, True)"
  by code_simp

end
