(* ===== verification/PyEquality.thy ===== *)
theory PyEquality
  imports PyJson ZeroTrust
begin

text \<open>
  Equality of JSON values as Python's \<open>==\<close> has it: numbers are equal by value, whatever their type, \<open>True\<close> is 1, a
  dictionary does not depend on the order of its members, and nothing is equal to a \<open>nan\<close>. A float is read from its \<open>repr\<close>.
\<close>

datatype pynum = Fin rat | Infinite bool | NaN

definition num_value :: "pystr \<Rightarrow> pynum" where
  "num_value s =
     (let (sign, t) = split_sign s in
      if t = ''inf'' then Infinite (0 < sign)
      else (case split_on (CHR ''e'') t of
          [] \<Rightarrow> NaN
        | m # ex \<Rightarrow>
            let parts = split_on (CHR ''.'') m in
            (case (digits_val 0 (concat parts), if ex = [] then Inr 0 else int_text (concat ex)) of
               (Some n, Inr e) \<Rightarrow>
                 let k = e - int (length (concat (tl parts))) in
                 Fin (of_int sign * (if 0 \<le> k then of_nat n * 10 ^ nat k else of_nat n / 10 ^ nat (- k)))
             | _ \<Rightarrow> NaN)))"

definition number_of :: "json \<Rightarrow> pynum option" where
  "number_of v = (case v of
     JBool b \<Rightarrow> Some (Fin (if b then 1 else 0))
   | JInt i \<Rightarrow> Some (Fin (of_int i))
   | JNum t \<Rightarrow> Some (num_value t)
   | _ \<Rightarrow> None)"

definition num_eq :: "pynum \<Rightarrow> pynum \<Rightarrow> bool" where
  "num_eq a b \<longleftrightarrow> a = b \<and> a \<noteq> NaN"

function (sequential) py_eq :: "json \<Rightarrow> json \<Rightarrow> bool" where
  "py_eq (JArr xs) w = (case w of JArr ys \<Rightarrow> length xs = length ys \<and> list_all (\<lambda>(x, y). py_eq x y) (zip xs ys) | _ \<Rightarrow> False)"
| "py_eq (JObj kvs) w = (case w of JObj us \<Rightarrow> length kvs = length us \<and>
     list_all (\<lambda>(k, v). case map_of us k of None \<Rightarrow> False | Some u \<Rightarrow> py_eq v u) kvs | _ \<Rightarrow> False)"
| "py_eq v w = (case (number_of v, number_of w) of
     (Some a, Some b) \<Rightarrow> num_eq a b
   | (None, None) \<Rightarrow> v = w
   | _ \<Rightarrow> False)"
  by pat_completeness auto

termination py_eq
proof (relation "measure (\<lambda>(v, w). size v)", goal_cases)
  case (2 xs w ys z a b)
  then have "size a \<le> size_list size xs" by (auto elim!: in_set_zipE intro: size_list_estimation')
  then show ?case by simp
next
  case (3 kvs w us z k v u)
  then have "size v \<le> size_list (size_prod (\<lambda>_. 0) size) kvs" by (intro size_list_estimation' [of z]) auto
  then show ?case by simp
qed simp

text \<open>\<open>sub in text\<close>.\<close>

fun occurs_in :: "pystr \<Rightarrow> pystr \<Rightarrow> bool" where
  "occurs_in p [] = (p = [])"
| "occurs_in p (c # cs) \<longleftrightarrow> take (length p) (c # cs) = p \<or> occurs_in p cs"

lemma occurs_in_iff: "occurs_in p s \<longleftrightarrow> (\<exists>us vs. s = us @ p @ vs)"
proof (induction s)
  case (Cons c cs)
  show ?case
  proof
    assume "occurs_in p (c # cs)"
    then consider "take (length p) (c # cs) = p" | "occurs_in p cs" by auto
    then show "\<exists>us vs. c # cs = us @ p @ vs"
    proof cases
      case 1
      then have "c # cs = [] @ p @ drop (length p) (c # cs)" by (metis append_Nil append_take_drop_id)
      then show ?thesis by blast
    next
      case 2
      then obtain us vs where "c # cs = (c # us) @ p @ vs" using Cons.IH by auto
      then show ?thesis by blast
    qed
  next
    assume "\<exists>us vs. c # cs = us @ p @ vs"
    then obtain us vs where e: "c # cs = us @ p @ vs" by blast
    show "occurs_in p (c # cs)"
    proof (cases us)
      case Nil
      with e have "take (length p) (c # cs) = p" by simp
      then show ?thesis by simp
    next
      case (Cons u us')
      with e have "occurs_in p cs" using Cons.IH by auto
      then show ?thesis by simp
    qed
  qed
qed simp

lemma py_eq_examples:
  "py_eq (JInt 1) (JNum ''1.0'')" "py_eq (JBool True) (JInt 1)" "\<not> py_eq (JNum ''nan'') (JNum ''nan'')"
  "py_eq (JNum ''1e+16'') (JInt (10 ^ 16))" "\<not> py_eq (JStr ''1'') (JInt 1)" "py_eq (JNum ''-0.0'') (JInt 0)"
  "py_eq (JObj [(''a'', JInt 1), (''b'', JNull)]) (JObj [(''b'', JNull), (''a'', JNum ''1.0'')])"
  by code_simp+

end
