(* ===== verification/WorkflowNodes.thy ===== *)
theory WorkflowNodes
  imports PyEquality
begin

text \<open>
  The nodes of an executable workflow: their contract (\<^verbatim>\<open>application/workflow_contract.py\<close>), the variables of their
  configuration and the built-in handlers (\<^verbatim>\<open>application/workflows.py\<close>). An item is a JSON object. An exception of a handler comes
  with its text, which the failure edges pass on. The browser action and the registered extensions are other handlers, which
  are arguments.
\<close>

section \<open>Nodes and their contract\<close>

record wnode =
  wn_id :: pystr
  wn_kind :: pystr
  wn_config :: json
  wn_next :: "pystr list"
  wn_failure :: "pystr list"

definition wf_fail :: "pystr \<Rightarrow> exc" where
  "wf_fail code = ArenyxaError ''WORKFLOW'' code"

definition config_get :: "(pystr \<times> json) list \<Rightarrow> pystr \<Rightarrow> json \<Rightarrow> json" where
  "config_get kvs k dflt = (case map_of kvs k of None \<Rightarrow> dflt | Some v \<Rightarrow> v)"

definition is_mapping :: "json \<Rightarrow> bool" where
  "is_mapping v = (case v of JObj _ \<Rightarrow> True | _ \<Rightarrow> False)"

definition is_text :: "json \<Rightarrow> bool" where
  "is_text v = (case v of JStr _ \<Rightarrow> True | _ \<Rightarrow> False)"

definition text_bounded :: "nat \<Rightarrow> json \<Rightarrow> bool" where
  "text_bounded n v = (case v of JStr s \<Rightarrow> length s \<le> n | _ \<Rightarrow> False)"

definition non_empty_text :: "json \<Rightarrow> bool" where
  "non_empty_text v = (case v of JStr s \<Rightarrow> s \<noteq> [] | _ \<Rightarrow> False)"

text \<open>Whether each validator accepts a configuration that is an object; the exceptions are all reported in the same way.\<close>

definition filter_config :: "(pystr \<times> json) list \<Rightarrow> bool" where
  "filter_config c \<longleftrightarrow> non_empty_text (config_get c ''field'' JNull) \<and>
     config_get c ''operator'' (JStr ''equals'') \<in> JStr ` {''equals'', ''not_equals'', ''contains'', ''exists''}"

definition map_config :: "(pystr \<times> json) list \<Rightarrow> bool" where
  "map_config c \<longleftrightarrow> is_mapping (config_get c ''fields'' (JObj [])) \<and> is_mapping (config_get c ''constants'' (JObj []))"

definition validate_config :: "(pystr \<times> json) list \<Rightarrow> bool" where
  "validate_config c = (case config_get c ''required'' (JArr []) of JArr xs \<Rightarrow> list_all non_empty_text xs | _ \<Rightarrow> False)"

definition browser_kinds :: "pystr list" where
  "browser_kinds = [''goto'', ''click'', ''fill'', ''press'', ''check'', ''uncheck'', ''select'', ''wait'', ''scroll'', ''download'', ''upload'',
     ''assert_text'']"

definition selector_kinds :: "pystr list" where
  "selector_kinds = [''click'', ''fill'', ''press'', ''check'', ''uncheck'', ''select'', ''download'', ''upload'', ''assert_text'']"

definition browser_config :: "(pystr \<times> json) list \<Rightarrow> bool" where
  "browser_config c \<longleftrightarrow>
     (case config_get c ''kind'' JNull of
        JStr kind \<Rightarrow>
          kind \<in> set browser_kinds \<and>
          (case config_get c ''timeout_ms'' (JInt 30000) of JInt t \<Rightarrow> 100 \<le> t \<and> t \<le> 300000 | _ \<Rightarrow> False) \<and>
          text_bounded 8192 (config_get c ''selector'' (JStr [])) \<and> text_bounded 1000000 (config_get c ''value'' (JStr [])) \<and>
          text_bounded 16384 (config_get c ''url'' (JStr [])) \<and> is_mapping (config_get c ''metadata'' (JObj [])) \<and>
          (kind = ''goto'' \<longrightarrow> non_empty_text (config_get c ''url'' (JStr [])) \<or> non_empty_text (config_get c ''value'' (JStr []))) \<and>
          (kind \<in> set selector_kinds \<longrightarrow> non_empty_text (config_get c ''selector'' (JStr [])))
      | _ \<Rightarrow> False)"

definition supported_kinds :: "pystr list" where
  "supported_kinds = [''source'', ''filter'', ''map'', ''validate'', ''sink'', ''browser_action'']"

definition config_valid :: "pystr \<Rightarrow> json \<Rightarrow> bool" where
  "config_valid kind config = (case config of
     JObj c \<Rightarrow>
       if kind = ''filter'' then filter_config c
       else if kind = ''map'' then map_config c
       else if kind = ''validate'' then validate_config c
       else if kind = ''browser_action'' then browser_config c else True
   | _ \<Rightarrow> False)"

definition validate_workflow_node :: "(pystr \<Rightarrow> bool) option \<Rightarrow> bool \<Rightarrow> wnode \<Rightarrow> exc + unit" where
  "validate_workflow_node registered extensions n =
     (if wn_id n = [] then Inl (wf_fail ''WORKFLOW_NODE_INVALID'')
      else if wn_kind n \<notin> set supported_kinds then
        (if extensions \<and> (case registered of None \<Rightarrow> False | Some ks \<Rightarrow> ks (wn_kind n))
         then require (is_mapping (wn_config n)) (wf_fail ''WORKFLOW_NODE_CONFIG_INVALID'')
         else Inl (wf_fail ''WORKFLOW_NODE_KIND_UNSUPPORTED''))
      else if \<not> config_valid (wn_kind n) (wn_config n) then Inl (wf_fail ''WORKFLOW_NODE_CONFIG_INVALID'')
      else require (case registered of None \<Rightarrow> True | Some ks \<Rightarrow> ks (wn_kind n)) (wf_fail ''WORKFLOW_HANDLER_MISSING''))"

fun validate_nodes :: "(pystr \<Rightarrow> bool) option \<Rightarrow> bool \<Rightarrow> pystr set \<Rightarrow> wnode list \<Rightarrow> exc + unit" where
  "validate_nodes registered extensions ids [] = Inr ()"
| "validate_nodes registered extensions ids (n # ns) =
     ebind (validate_workflow_node registered extensions n) (\<lambda>_.
       if wn_id n \<in> ids then Inl (wf_fail ''WORKFLOW_NODE_DUPLICATE'')
       else validate_nodes registered extensions (insert (wn_id n) ids) ns)"

definition wn_targets :: "wnode \<Rightarrow> pystr list" where
  "wn_targets n = wn_next n @ wn_failure n"

definition validate_workflow_contract :: "(pystr \<Rightarrow> bool) option \<Rightarrow> bool \<Rightarrow> wnode list \<Rightarrow> exc + unit" where
  "validate_workflow_contract registered extensions ns =
     (if ns = [] then Inl (wf_fail ''WORKFLOW_EMPTY'')
      else ebind (validate_nodes registered extensions {} ns) (\<lambda>_.
        require (\<forall>n\<in>set ns. set (wn_targets n) \<subseteq> wn_id ` set ns) (wf_fail ''WORKFLOW_NODE_MISSING'')))"

lemma validate_nodes_ok:
  "validate_nodes registered extensions ids ns = Inr () \<longleftrightarrow>
     (\<forall>n\<in>set ns. validate_workflow_node registered extensions n = Inr ()) \<and> distinct (map wn_id ns) \<and> ids \<inter> wn_id ` set ns = {}"
  by (induction ns arbitrary: ids) auto

lemma contract_ok:
  assumes "validate_workflow_contract registered extensions ns = Inr ()"
  shows "ns \<noteq> []" "distinct (map wn_id ns)" "n \<in> set ns \<Longrightarrow> set (wn_targets n) \<subseteq> wn_id ` set ns"
    "n \<in> set ns \<Longrightarrow> validate_workflow_node registered extensions n = Inr ()"
  using assms by (auto simp: validate_workflow_contract_def validate_nodes_ok split: if_splits)

text \<open>A node that passes has a handler among the registered ones.\<close>

lemma node_has_handler: "validate_workflow_node (Some ks) ext n = Inr () \<Longrightarrow> ks (wn_kind n)"
  by (auto simp: validate_workflow_node_def split: if_splits)

section \<open>Variables\<close>

type_synonym raised = "exc \<times> pystr"

record var_env =
  ve_scopes :: "(pystr \<times> (pystr \<times> json) list) list"
  ve_secret :: "(pystr \<Rightarrow> pystr option) option"
  ve_show :: "json \<Rightarrow> pystr"

definition ascii_letter :: "char \<Rightarrow> bool" where
  "ascii_letter c = (let n = ord_c c in (65 \<le> n \<and> n \<le> 90) \<or> (97 \<le> n \<and> n \<le> 122))"

text \<open>The class \<open>\w\<close> on the code points 0 to 255.\<close>

definition word_char :: "char \<Rightarrow> bool" where
  "word_char c = (let n = ord_c c in
     ascii_letter c \<or> (48 \<le> n \<and> n \<le> 57) \<or> n \<in> {95, 170, 178, 179, 181, 185, 186, 188, 189, 190} \<or> (192 \<le> n \<and> n \<noteq> 215 \<and> n \<noteq> 247))"

definition scope_char :: "char \<Rightarrow> bool" where
  "scope_char c \<longleftrightarrow> word_char c \<or> c = CHR ''-''"

definition key_char :: "char \<Rightarrow> bool" where
  "key_char c \<longleftrightarrow> word_char c \<or> c = CHR ''.'' \<or> c = CHR ''-''"

text \<open>A reference at the beginning of a text: its scope, its key, and what follows.\<close>

definition match_variable :: "pystr \<Rightarrow> (pystr \<times> pystr \<times> pystr) option" where
  "match_variable s = (case s of
     d # b # c # cs \<Rightarrow>
       if d = CHR ''$'' \<and> b = CHR ''{'' \<and> ascii_letter c then
         (case dropWhile scope_char cs of
            dot # r \<Rightarrow>
              if dot = CHR ''.'' then
                (case (takeWhile key_char r, dropWhile key_char r) of
                   (k # ks, e # rest) \<Rightarrow> if e = CHR ''}'' then Some (c # takeWhile scope_char cs, k # ks, rest) else None
                 | _ \<Rightarrow> None)
              else None
          | [] \<Rightarrow> None)
       else None
   | _ \<Rightarrow> None)"

definition lookup_variable :: "var_env \<Rightarrow> pystr \<Rightarrow> pystr \<Rightarrow> raised + pystr" where
  "lookup_variable env scope key =
     (let found = (if scope = ''secret'' then
            (case ve_secret env of Some f \<Rightarrow> map_option JStr (f key)
             | None \<Rightarrow> Option.bind (map_of (ve_scopes env) scope) (\<lambda>kvs. map_of kvs key))
          else Option.bind (map_of (ve_scopes env) scope) (\<lambda>kvs. map_of kvs key))
      in (case found of
            None \<Rightarrow> Inl (KeyError, [CHR 0x27] @ ''workflow variable not found: '' @ scope @ ''.'' @ key @ [CHR 0x27])
          | Some JNull \<Rightarrow> Inl (KeyError, [CHR 0x27] @ ''workflow variable not found: '' @ scope @ ''.'' @ key @ [CHR 0x27])
          | Some v \<Rightarrow> Inr (str_of (ve_show env) v)))"

lemma match_variable_shorter:
  assumes "match_variable s = Some (scope, key, rest)"
  shows "length rest < length s"
proof -
  from assms obtain d b c cs e r where s: "s = d # b # c # cs" "dropWhile scope_char cs = e # r" "dropWhile key_char r = CHR ''}'' # rest"
    by (auto simp: match_variable_def split: list.splits if_splits)
  then show ?thesis using length_dropWhile_le [of scope_char cs] length_dropWhile_le [of key_char r] by simp
qed

function resolve_text :: "var_env \<Rightarrow> pystr \<Rightarrow> raised + pystr" where
  "resolve_text env s = (case match_variable s of
     Some (scope, key, rest) \<Rightarrow> ebind (lookup_variable env scope key) (\<lambda>v. ebind (resolve_text env rest) (\<lambda>t. Inr (v @ t)))
   | None \<Rightarrow> (case s of [] \<Rightarrow> Inr [] | c # cs \<Rightarrow> ebind (resolve_text env cs) (\<lambda>t. Inr (c # t))))"
  by pat_completeness auto

termination by (relation "measure (\<lambda>(env, s). length s)") (auto dest: match_variable_shorter)

declare resolve_text.simps [simp del]

fun resolve_variables :: "var_env \<Rightarrow> json \<Rightarrow> raised + json"
  and resolve_items :: "var_env \<Rightarrow> json list \<Rightarrow> raised + json list"
  and resolve_members :: "var_env \<Rightarrow> (pystr \<times> json) list \<Rightarrow> raised + (pystr \<times> json) list" where
  "resolve_variables env (JStr s) = ebind (resolve_text env s) (\<lambda>t. Inr (JStr t))"
| "resolve_variables env (JArr xs) = ebind (resolve_items env xs) (\<lambda>ys. Inr (JArr ys))"
| "resolve_variables env (JObj kvs) = ebind (resolve_members env kvs) (\<lambda>us. Inr (JObj us))"
| "resolve_variables env v = Inr v"
| "resolve_items env [] = Inr []"
| "resolve_items env (x # xs) = ebind (resolve_variables env x) (\<lambda>y. ebind (resolve_items env xs) (\<lambda>ys. Inr (y # ys)))"
| "resolve_members env [] = Inr []"
| "resolve_members env ((k, v) # kvs) =
     ebind (resolve_variables env v) (\<lambda>u. ebind (resolve_members env kvs) (\<lambda>us. Inr ((k, u) # us)))"

section \<open>Handlers\<close>

text \<open>What a handler yields, and the exception that ends it.\<close>

type_synonym yielded = "json list \<times> raised option"
type_synonym handler = "json \<Rightarrow> json \<Rightarrow> yielded"

definition members :: "json \<Rightarrow> (pystr \<times> json) list" where
  "members v = (case v of JObj kvs \<Rightarrow> kvs | _ \<Rightarrow> [])"

definition is_hashable :: "json \<Rightarrow> bool" where
  "is_hashable v = (case v of JArr _ \<Rightarrow> False | JObj _ \<Rightarrow> False | _ \<Rightarrow> True)"

definition type_name :: "json \<Rightarrow> pystr" where
  "type_name v = (case v of JNull \<Rightarrow> ''NoneType'' | JBool _ \<Rightarrow> ''bool'' | JInt _ \<Rightarrow> ''int'' | JNum _ \<Rightarrow> ''float'' | JStr _ \<Rightarrow> ''str''
     | JArr _ \<Rightarrow> ''list'' | JObj _ \<Rightarrow> ''dict'')"

definition unhashable :: "json \<Rightarrow> raised" where
  "unhashable v = (TypeError, ''unhashable type: '' @ [CHR 0x27] @ type_name v @ [CHR 0x27])"

definition key_error :: "pystr \<Rightarrow> raised" where
  "key_error k = (KeyError, [CHR 0x27] @ k @ [CHR 0x27])"

definition no_items :: "json \<Rightarrow> raised" where
  "no_items v = (AttributeError, [CHR 0x27] @ type_name v @ [CHR 0x27] @ '' object has no attribute '' @ [CHR 0x27] @ ''items'' @ [CHR 0x27])"

definition pass_handler :: handler where
  "pass_handler item config = ([item], None)"

definition filter_handler :: "(json \<Rightarrow> pystr) \<Rightarrow> handler" where
  "filter_handler shw item config =
     (case map_of (members config) ''field'' of
        None \<Rightarrow> ([], Some (key_error ''field''))
      | Some f \<Rightarrow>
          let field = str_of shw f;
              expected = config_get (members config) ''value'' JNull;
              actual = config_get (members item) field JNull
          in (case config_get (members config) ''operator'' (JStr ''equals'') of
                JStr oper \<Rightarrow>
                  if oper = ''equals'' \<and> py_eq actual expected \<or>
                     oper = ''not_equals'' \<and> \<not> py_eq actual expected \<or>
                     oper = ''contains'' \<and> occurs_in (str_of shw expected) (if truthy actual then str_of shw actual else []) \<or>
                     oper = ''exists'' \<and> map_of (members item) field \<noteq> None
                  then ([item], None) else ([], None)
              | v \<Rightarrow> ([], if is_hashable v then None else Some (unhashable v))))"

definition mapped_value :: "(pystr \<times> json) list \<Rightarrow> json \<Rightarrow> json" where
  "mapped_value item source = (case source of JStr s \<Rightarrow> config_get item s JNull | _ \<Rightarrow> source)"

definition map_handler :: handler where
  "map_handler item config =
     (case (config_get (members config) ''fields'' (JObj []), config_get (members config) ''constants'' (JObj [])) of
        (JObj fs, JObj consts) \<Rightarrow>
          let mapped = fold (\<lambda>(d, s). AList.update d (mapped_value (members item) s)) fs (members item)
          in ([JObj (fold (\<lambda>(d, v). AList.update d v) consts mapped)], None)
      | (JObj _, v) \<Rightarrow> ([], Some (no_items v))
      | (v, _) \<Rightarrow> ([], Some (no_items v)))"

text \<open>The list of the missing fields; a field that holds a list or an object cannot be looked up in a set.\<close>

fun missing_fields :: "(pystr \<times> json) list \<Rightarrow> pystr list \<Rightarrow> raised + pystr list" where
  "missing_fields item [] = Inr []"
| "missing_fields item (k # ks) =
     (let v = config_get item k JNull in
      if \<not> is_hashable v then Inl (unhashable v)
      else ebind (missing_fields item ks) (\<lambda>ms. Inr (if v = JNull \<or> v = JStr [] then k # ms else ms)))"

definition texts_of :: "json \<Rightarrow> pystr list" where
  "texts_of v = (case v of JArr xs \<Rightarrow> concat (map (\<lambda>x. case x of JStr s \<Rightarrow> [s] | _ \<Rightarrow> []) xs) | _ \<Rightarrow> [])"

definition validate_handler :: handler where
  "validate_handler item config =
     (case missing_fields (members item) (texts_of (config_get (members config) ''required'' (JArr []))) of
        Inl x \<Rightarrow> ([], Some x)
      | Inr [] \<Rightarrow> ([item], None)
      | Inr ms \<Rightarrow> ([], Some (ValueError, ''required fields missing: '' @ join_with '', '' ms)))"

definition builtin_handler :: "(json \<Rightarrow> pystr) \<Rightarrow> pystr \<Rightarrow> handler option" where
  "builtin_handler shw kind =
     (if kind = ''source'' \<or> kind = ''sink'' then Some pass_handler
      else if kind = ''filter'' then Some (filter_handler shw)
      else if kind = ''map'' then Some map_handler
      else if kind = ''validate'' then Some validate_handler else None)"

section \<open>What the handlers do\<close>

lemma resolve_plain: "CHR ''$'' \<notin> set s \<Longrightarrow> resolve_text env s = Inr s"
proof (induction s)
  case Nil
  then show ?case by (simp add: resolve_text.simps [of env "[]"] match_variable_def)
next
  case (Cons c cs)
  then have "match_variable (c # cs) = None" by (auto simp: match_variable_def split: list.splits)
  then show ?case using Cons by (simp add: resolve_text.simps [of env "c # cs"])
qed

text \<open>A resolved configuration still passes the contract.\<close>

lemma resolve_members_get:
  assumes "resolve_members env kvs = Inr us"
  shows "case map_of kvs k of None \<Rightarrow> map_of us k = None | Some v \<Rightarrow> \<exists>u. resolve_variables env v = Inr u \<and> map_of us k = Some u"
  using assms by (induction kvs arbitrary: us) (auto split: option.splits)

lemma resolve_shape:
  assumes "resolve_variables env v = Inr u"
  shows "is_mapping u = is_mapping v" and "is_text u = is_text v"
  using assms by (cases v; auto simp: is_mapping_def is_text_def)+

text \<open>A required field that holds a list makes every item fail, however complete it is.\<close>

lemma validate_rejects_lists:
  "snd (validate_handler (JObj [(''tags'', JArr [JStr ''a''])]) (JObj [(''required'', JArr [JStr ''tags''])])) \<noteq> None \<and>
   validate_config [(''required'', JArr [JStr ''tags''])]"
  by code_simp

end
