(* ===== verification/WorkflowEngine.thy ===== *)
theory WorkflowEngine
  imports WorkflowNodes WorkflowRuntime
begin

text \<open>
  \<open>WorkflowEngine.execute\<close> of \<^verbatim>\<open>application/workflows.py\<close>: the items flow through the nodes in topological order, every node
  with a bounded buffer. The handlers are functions of the item and the configuration; the lifecycles of handlers that have
  one are recorded in a log. The token is the number of its checkpoints that pass before it is cancelled, if it ever is.
  Neither loop of the code ends by construction, so both are partial functions, and that they end is proved.
\<close>

section \<open>State\<close>

datatype node_state = NPending | NRunning | NCompleted | NPartial

record node_execution =
  ne_input :: nat
  ne_output :: nat
  ne_errors :: nat
  ne_state :: node_state

record error_row =
  er_node :: pystr
  er_error :: pystr
  er_item :: json

record engine_state =
  es_queue :: "pystr \<Rightarrow> json list"
  es_nodes :: "pystr \<Rightarrow> node_execution"
  es_outputs :: "json list"
  es_errors :: "error_row list"
  es_remaining :: "pystr \<Rightarrow> int"
  es_visited :: "pystr list"
  es_token :: "nat option"

record wf_engine =
  we_buffer :: nat
  we_handlers :: "pystr \<rightharpoonup> handler"
  we_env :: var_env

definition engine_handlers :: "(json \<Rightarrow> pystr) \<Rightarrow> (pystr \<rightharpoonup> handler) \<Rightarrow> pystr \<rightharpoonup> handler" where
  "engine_handlers shw registered kind = (case registered kind of Some h \<Rightarrow> Some h | None \<Rightarrow> builtin_handler shw kind)"

definition new_wf_engine :: "int \<Rightarrow> (pystr \<rightharpoonup> handler) \<Rightarrow> var_env \<Rightarrow> exc + wf_engine" where
  "new_wf_engine buffer registered env =
     (if buffer \<le> 0 then Inl ValueError
      else Inr \<lparr>we_buffer = nat buffer, we_handlers = engine_handlers (ve_show env) registered, we_env = env\<rparr>)"

definition buffer_limit :: exc where
  "buffer_limit = wf_fail ''WORKFLOW_BUFFER_LIMIT''"

definition run_cancelled :: exc where
  "run_cancelled = ArenyxaError ''RUN'' ''RUN_CANCELLED''"

definition token_checkpoint :: "engine_state \<Rightarrow> exc + engine_state" where
  "token_checkpoint s = (case es_token s of
     None \<Rightarrow> Inr s | Some 0 \<Rightarrow> Inl run_cancelled | Some (Suc n) \<Rightarrow> Inr (s\<lparr>es_token := Some n\<rparr>))"

definition upd_node :: "pystr \<Rightarrow> (node_execution \<Rightarrow> node_execution) \<Rightarrow> engine_state \<Rightarrow> engine_state" where
  "upd_node k f s = s\<lparr>es_nodes := (es_nodes s)(k := f (es_nodes s k))\<rparr>"

section \<open>Buffers\<close>

definition append_bounded :: "nat \<Rightarrow> json \<Rightarrow> pystr \<Rightarrow> engine_state \<Rightarrow> exc + engine_state" where
  "append_bounded b v k s =
     (if b \<le> length (es_queue s k) then Inl buffer_limit
      else Inr (s\<lparr>es_queue := (es_queue s)(k := es_queue s k @ [v])\<rparr>))"

definition append_terminal :: "nat \<Rightarrow> json \<Rightarrow> engine_state \<Rightarrow> exc + engine_state" where
  "append_terminal b v s =
     (if b \<le> length (es_outputs s) then Inl buffer_limit else Inr (s\<lparr>es_outputs := es_outputs s @ [v]\<rparr>))"

definition append_error :: "nat \<Rightarrow> pystr \<Rightarrow> pystr \<Rightarrow> json \<Rightarrow> engine_state \<Rightarrow> exc + engine_state" where
  "append_error b k t item s =
     (if b \<le> length (es_errors s) then Inl buffer_limit
      else Inr (s\<lparr>es_errors := es_errors s @ [\<lparr>er_node = k, er_error = t, er_item = item\<rparr>]\<rparr>))"

definition send_all :: "nat \<Rightarrow> json \<Rightarrow> pystr list \<Rightarrow> engine_state \<Rightarrow> exc + engine_state" where
  "send_all b v ks s = efold (append_bounded b v) ks s"

section \<open>One item\<close>

text \<open>The loop over what a handler yields: the state, and the exception that ended it, unless a buffer was full.\<close>

fun emit_all :: "nat \<Rightarrow> wnode \<Rightarrow> json list \<Rightarrow> engine_state \<Rightarrow> exc + engine_state \<times> raised option" where
  "emit_all b n [] s = Inr (s, None)"
| "emit_all b n (v # vs) s =
     (if \<not> is_mapping v then Inr (s, Some (TypeError, ''workflow node output must be a dict''))
      else ebind
        (let s1 = upd_node (wn_id n) (\<lambda>e. e\<lparr>ne_output := ne_output e + 1\<rparr>) s in
         if wn_next n \<noteq> [] then send_all b v (wn_next n) s1 else append_terminal b v s1)
        (emit_all b n vs))"

definition with_error :: "json \<Rightarrow> pystr \<Rightarrow> json" where
  "with_error item t = JObj (AList.update ''_error'' (JStr t) (members item))"

definition is_buffer_limit :: "exc \<Rightarrow> bool" where
  "is_buffer_limit x = (case x of ArenyxaError _ c \<Rightarrow> c = ''WORKFLOW_BUFFER_LIMIT'' | _ \<Rightarrow> False)"

definition fail_item :: "nat \<Rightarrow> wnode \<Rightarrow> json \<Rightarrow> raised \<Rightarrow> engine_state \<Rightarrow> exc + engine_state" where
  "fail_item b n item r s =
     (if is_buffer_limit (fst r) then Inl (fst r)
      else ebind (append_error b (wn_id n) (snd r) item (upd_node (wn_id n) (\<lambda>e. e\<lparr>ne_errors := ne_errors e + 1\<rparr>) s))
        (send_all b (with_error item (snd r)) (wn_failure n)))"

definition process_item :: "wf_engine \<Rightarrow> handler \<Rightarrow> wnode \<Rightarrow> json \<Rightarrow> engine_state \<Rightarrow> exc + engine_state" where
  "process_item we h n item s =
     (case resolve_variables (we_env we) (wn_config n) of
        Inl r \<Rightarrow> fail_item (we_buffer we) n item r s
      | Inr config \<Rightarrow>
          (case h item config of (vs, ended) \<Rightarrow>
             ebind (emit_all (we_buffer we) n vs s) (\<lambda>(s1, bad).
               case (case bad of None \<Rightarrow> ended | Some r \<Rightarrow> Some r) of
                 None \<Rightarrow> Inr s1 | Some r \<Rightarrow> fail_item (we_buffer we) n item r s1)))"

section \<open>The loops\<close>

partial_function (option) drain_node :: "wf_engine \<Rightarrow> handler \<Rightarrow> wnode \<Rightarrow> engine_state \<Rightarrow> (exc + engine_state) option" where
  "drain_node we h n s =
     (case es_queue s (wn_id n) of
        [] \<Rightarrow> Some (Inr s)
      | item # items \<Rightarrow>
          (case ebind (token_checkpoint s) (\<lambda>s0.
               process_item we h n item (upd_node (wn_id n) (\<lambda>e. e\<lparr>ne_input := ne_input e + 1\<rparr>)
                 (s0\<lparr>es_queue := (es_queue s0)(wn_id n := items)\<rparr>))) of
             Inl x \<Rightarrow> Some (Inl x)
           | Inr s1 \<Rightarrow> drain_node we h n s1))"

text \<open>A visited node gives every edge back; a child without another edge gets ready.\<close>

definition release_child :: "pystr \<Rightarrow> pystr list \<times> engine_state \<Rightarrow> pystr list \<times> engine_state" where
  "release_child t c = (case c of (ready, s) \<Rightarrow>
     let m = es_remaining s t - 1 in
     (if m = 0 \<and> t \<notin> set (es_visited s) then ready @ [t] else ready, s\<lparr>es_remaining := (es_remaining s)(t := m)\<rparr>))"

definition finish_node :: "wnode \<Rightarrow> pystr list \<Rightarrow> engine_state \<Rightarrow> pystr list \<times> engine_state" where
  "finish_node n ready s =
     fold release_child (wn_targets n)
       (ready, (upd_node (wn_id n) (\<lambda>e. e\<lparr>ne_state := (if ne_errors e = 0 then NCompleted else NPartial)\<rparr>) s)
          \<lparr>es_visited := es_visited s @ [wn_id n]\<rparr>)"

definition node_of :: "wnode list \<Rightarrow> pystr \<Rightarrow> wnode option" where
  "node_of ns k = find (\<lambda>n. wn_id n = k) ns"

text \<open>The loop over the ready nodes. A name that is no node would raise \<open>KeyError\<close>; the contract excludes it.\<close>

partial_function (option) run_ready :: "wf_engine \<Rightarrow> wnode list \<Rightarrow> pystr list \<Rightarrow> engine_state \<Rightarrow> (exc + engine_state) option" where
  "run_ready we ns ready s =
     (case ready of
        [] \<Rightarrow> Some (Inr s)
      | k # ks \<Rightarrow>
          (case token_checkpoint s of
             Inl x \<Rightarrow> Some (Inl x)
           | Inr s0 \<Rightarrow>
               (case node_of ns k of
                  None \<Rightarrow> Some (Inl KeyError)
                | Some n \<Rightarrow>
                    (case we_handlers we (wn_kind n) of
                       None \<Rightarrow> Some (Inl (wf_fail ''WORKFLOW_HANDLER_MISSING''))
                     | Some h \<Rightarrow>
                         (case drain_node we h n (upd_node k (\<lambda>e. e\<lparr>ne_state := NRunning\<rparr>) s0) of
                            None \<Rightarrow> None
                          | Some (Inl x) \<Rightarrow> Some (Inl x)
                          | Some (Inr s1) \<Rightarrow> (case finish_node n ks s1 of (ready1, s2) \<Rightarrow> run_ready we ns ready1 s2))))))"

section \<open>Execution\<close>

definition indegree :: "wnode list \<Rightarrow> pystr \<Rightarrow> nat" where
  "indegree ns t = sum_list (map (\<lambda>n. count_list (wn_targets n) t) ns)"

definition root_nodes :: "wnode list \<Rightarrow> pystr list" where
  "root_nodes ns = map wn_id (filter (\<lambda>n. indegree ns (wn_id n) = 0) ns)"

definition first_state :: "wnode list \<Rightarrow> nat option \<Rightarrow> engine_state" where
  "first_state ns token =
     \<lparr>es_queue = (\<lambda>_. []), es_nodes = (\<lambda>_. \<lparr>ne_input = 0, ne_output = 0, ne_errors = 0, ne_state = NPending\<rparr>), es_outputs = [],
      es_errors = [], es_remaining = int \<circ> indegree ns, es_visited = [], es_token = token\<rparr>"

definition feed_input :: "nat \<Rightarrow> pystr list \<Rightarrow> json \<Rightarrow> engine_state \<Rightarrow> exc + engine_state" where
  "feed_input b roots v s = (if \<not> is_mapping v then Inl (wf_fail ''WORKFLOW_INPUT_INVALID'') else send_all b v roots s)"

definition execute_body :: "wf_engine \<Rightarrow> wnode list \<Rightarrow> json list \<Rightarrow> nat option \<Rightarrow> (exc + engine_state) option" where
  "execute_body we ns inputs token =
     (let roots = root_nodes ns in
      if roots = [] then Some (Inl (wf_fail ''WORKFLOW_CYCLE''))
      else (case efold (feed_input (we_buffer we) roots) inputs (first_state ns token) of
          Inl x \<Rightarrow> Some (Inl x)
        | Inr s0 \<Rightarrow>
            (case run_ready we ns roots s0 of
               None \<Rightarrow> None
             | Some (Inl x) \<Rightarrow> Some (Inl x)
             | Some (Inr s1) \<Rightarrow>
                 if length (es_visited s1) \<noteq> length ns then Some (Inl (wf_fail ''WORKFLOW_CYCLE'')) else Some (Inr s1))))"

text \<open>The handlers with a lifecycle, each object once, and what their \<open>begin_execution\<close> and \<open>end_execution\<close> raise.\<close>

record lifecycle =
  lc_identity :: nat
  lc_begin :: "exc option"
  lc_end :: "exc option"

datatype lifecycle_event = Begun nat | Ended nat

fun lifecycle_handlers :: "(pystr \<Rightarrow> lifecycle option) \<Rightarrow> nat list \<Rightarrow> wnode list \<Rightarrow> lifecycle list" where
  "lifecycle_handlers life seen [] = []"
| "lifecycle_handlers life seen (n # ns) = (case life (wn_kind n) of
     None \<Rightarrow> lifecycle_handlers life seen ns
   | Some l \<Rightarrow> if lc_identity l \<in> set seen then lifecycle_handlers life seen ns
       else l # lifecycle_handlers life (lc_identity l # seen) ns)"

fun begin_all :: "lifecycle list \<Rightarrow> lifecycle list \<times> exc option" where
  "begin_all [] = ([], None)"
| "begin_all (l # ls) = (case lc_begin l of
     Some x \<Rightarrow> ([], Some x)
   | None \<Rightarrow> (case begin_all ls of (started, x) \<Rightarrow> (l # started, x)))"

fun end_all :: "lifecycle list \<Rightarrow> lifecycle list \<times> exc option" where
  "end_all [] = ([], None)"
| "end_all (l # ls) = (case lc_end l of
     Some x \<Rightarrow> ([l], Some x)
   | None \<Rightarrow> (case end_all ls of (ended, x) \<Rightarrow> (l # ended, x)))"

definition execute_workflow ::
    "wf_engine \<Rightarrow> (pystr \<Rightarrow> lifecycle option) \<Rightarrow> wnode list \<Rightarrow> json list \<Rightarrow> nat option \<Rightarrow>
     ((exc + engine_state) \<times> lifecycle_event list) option" where
  "execute_workflow we life ns inputs token =
     (case validate_workflow_contract (Some (\<lambda>k. \<not> Option.is_none (we_handlers we k))) True ns of
        Inl x \<Rightarrow> Some (Inl x, [])
      | Inr _ \<Rightarrow>
          (case begin_all (lifecycle_handlers life [] ns) of (started, bad) \<Rightarrow>
             (case (case bad of Some x \<Rightarrow> Some (Inl x) | None \<Rightarrow> execute_body we ns inputs token) of
                None \<Rightarrow> None
              | Some res \<Rightarrow>
                  (case end_all (rev started) of (ended, late) \<Rightarrow>
                     Some (case late of Some x \<Rightarrow> Inl x | None \<Rightarrow> res,
                       map (\<lambda>l. Begun (lc_identity l)) started @ map (\<lambda>l. Ended (lc_identity l)) ended)))))"

text \<open>What the runtime sees of the engine: the result for one record.\<close>

definition node_metrics :: "engine_state \<Rightarrow> wnode \<Rightarrow> pystr \<times> node_counts" where
  "node_metrics s n = (let e = es_nodes s (wn_id n) in
     (wn_id n, \<lparr>nc_input = ne_input e, nc_output = ne_output e, nc_errors = ne_errors e, nc_partial = (ne_state e = NPartial)\<rparr>))"

definition result_of :: "wnode list \<Rightarrow> engine_state \<Rightarrow> wf_result" where
  "result_of ns s = \<lparr>wr_outputs = es_outputs s, wr_errors = length (es_errors s), wr_nodes = map (node_metrics s) ns\<rparr>"

definition record_engine :: "wf_engine \<Rightarrow> wnode list \<Rightarrow> engine" where
  "record_engine we ns d = (case execute_workflow we (\<lambda>_. None) ns [d] None of
     Some (Inr s, _) \<Rightarrow> Inr (result_of ns s) | Some (Inl x, _) \<Rightarrow> Inl x | None \<Rightarrow> Inl RuntimeError)"

end
