(* ===== verification/WorkflowGraph.thy ===== *)
theory WorkflowGraph
  imports PyJson "HOL-Library.Multiset"
begin

text \<open>
  \<^verbatim>\<open>application/workflow_graph.py\<close>: the validated workflow graph behind the visual editor. The payload is the JSON of a
  workflow; a node keeps the targets of its normal and its failure edges. The loop of the topological sort
  is a \<open>partial_function\<close>, so that its termination is a theorem.
\<close>

section \<open>Payload\<close>

record node =
  n_id :: pystr
  n_kind :: pystr
  n_config :: "(json \<times> json) list"
  n_next :: "pystr list"
  n_failure :: "pystr list"

record graph =
  g_schema :: pystr
  g_name :: pystr
  g_id :: pystr
  g_version :: pystr
  g_metadata :: "(json \<times> json) list"
  g_nodes :: "node list"

definition MAX_NODES :: nat where "MAX_NODES = 1000"
definition MAX_EDGES :: nat where "MAX_EDGES = 10000"
definition LANE_WIDTH :: nat where "LANE_WIDTH = 240"
definition ROW_HEIGHT :: nat where "ROW_HEIGHT = 120"

definition targets :: "node \<Rightarrow> pystr list" where
  "targets r = n_next r @ n_failure r"

text \<open>One row of the payload; a row that is not a mapping is skipped. \<open>show\<close> is the \<open>str\<close> of a container.\<close>

definition normalize_ids :: "(json \<Rightarrow> pystr) \<Rightarrow> json \<Rightarrow> exc + pystr list" where
  "normalize_ids show v = ebind (list_of v) (\<lambda>xs. Inr (map (str_of show) (take 256 xs)))"

definition normalize_node :: "(json \<Rightarrow> pystr) \<Rightarrow> json \<Rightarrow> node list \<Rightarrow> exc + node list" where
  "normalize_node show raw nodes = (case raw of
     JObj kvs \<Rightarrow>
       ebind (dict_of (member_or_null kvs ''config'')) (\<lambda>cfg.
       ebind (normalize_ids show (member_or_null kvs ''next_ids'')) (\<lambda>next_ids.
       ebind (normalize_ids show (member_or_null kvs ''failure_ids'')) (\<lambda>failure_ids.
         Inr (nodes @ [\<lparr>n_id = py_strip (str_or show (map_of kvs ''id'') []),
           n_kind = py_strip (str_or show (map_of kvs ''kind'') []), n_config = cfg, n_next = next_ids,
           n_failure = failure_ids\<rparr>]))))
   | _ \<Rightarrow> Inr nodes)"

definition normalize_payload :: "(json \<Rightarrow> pystr) \<Rightarrow> (pystr \<times> json) list \<Rightarrow> exc + graph" where
  "normalize_payload show payload =
     (case member_or_null payload ''nodes'' of
        JArr rows \<Rightarrow>
          if MAX_NODES < length rows then Inl ValueError
          else
            ebind (efold (normalize_node show) rows []) (\<lambda>nodes.
            ebind (dict_of (member_or_null payload ''metadata'')) (\<lambda>meta.
              Inr \<lparr>g_schema = take 128 (str_or show (map_of payload ''schema'') ''arenyxa.workflow/v1''),
                g_name = take 256 (str_or show (map_of payload ''name'') ''Workflow''),
                g_id = str_or show (map_of payload ''id'') [],
                g_version = str_or show (map_of payload ''version'') ''1.0.0'', g_metadata = meta, g_nodes = nodes\<rparr>))
      | _ \<Rightarrow> Inl ValueError)"

section \<open>Topological levels\<close>

type_synonym levels = "pystr \<rightharpoonup> nat"

definition level_of :: "levels \<Rightarrow> pystr \<Rightarrow> nat" where
  "level_of lv t = (case lv t of Some n \<Rightarrow> n | None \<Rightarrow> 0)"

definition outgoing :: "node list \<Rightarrow> pystr \<Rightarrow> pystr list" where
  "outgoing nodes a = (case find (\<lambda>r. n_id r = a) nodes of Some r \<Rightarrow> targets r | None \<Rightarrow> [])"

definition incoming :: "node list \<Rightarrow> pystr \<Rightarrow> pystr set" where
  "incoming nodes t = set (map n_id (filter (\<lambda>r. t \<in> set (targets r)) nodes))"

text \<open>One edge out of the node the loop visits.\<close>

definition relax ::
  "pystr \<Rightarrow> pystr \<Rightarrow> levels \<times> (pystr \<Rightarrow> pystr set) \<times> pystr list \<Rightarrow> levels \<times> (pystr \<Rightarrow> pystr set) \<times> pystr list"
where
  "relax current target = (\<lambda>(lv, inc, q).
     (lv(target \<mapsto> max (level_of lv target) (level_of lv current + 1)),
      inc(target := inc target - {current}),
      if inc target - {current} = {} then q @ [target] else q))"

type_synonym topo_state = "pystr list \<times> levels \<times> (pystr \<Rightarrow> pystr set) \<times> nat"

definition visit :: "(pystr \<Rightarrow> pystr list) \<Rightarrow> pystr \<Rightarrow> pystr list \<Rightarrow> levels \<Rightarrow> (pystr \<Rightarrow> pystr set) \<Rightarrow> nat \<Rightarrow> topo_state" where
  "visit out current q lv inc visited =
     (let (lv', inc', q') = fold (relax current) (out current) (lv, inc, q) in (q', lv', inc', visited + 1))"

partial_function (option) kahn :: "(pystr \<Rightarrow> pystr list) \<Rightarrow> topo_state \<Rightarrow> (levels \<times> nat) option" where
  "kahn out s = (case s of (q, lv, inc, visited) \<Rightarrow> (case q of
     [] \<Rightarrow> Some (lv, visited)
   | current # rest \<Rightarrow> kahn out (visit out current rest lv inc visited)))"

definition initial_queue :: "node list \<Rightarrow> pystr list" where
  "initial_queue nodes = filter (\<lambda>i. incoming nodes i = {}) (map n_id nodes)"

definition topo_start :: "node list \<Rightarrow> topo_state" where
  "topo_start nodes = (initial_queue nodes, (\<lambda>i. if i \<in> set (initial_queue nodes) then Some 0 else None), incoming nodes, 0)"

text \<open>\<open>_topological_levels\<close>: \<open>None\<close> would be a loop that does not end; the levels come with whether all nodes were visited.\<close>

definition run_topology :: "node list \<Rightarrow> (levels \<times> bool) option" where
  "run_topology nodes = (case kahn (outgoing nodes) (topo_start nodes) of
     None \<Rightarrow> None
   | Some (lv, visited) \<Rightarrow> Some (lv, visited = length nodes))"

definition topological_levels :: "bool \<Rightarrow> node list \<Rightarrow> (exc + levels) option" where
  "topological_levels raise_on_cycle nodes = (case run_topology nodes of
     None \<Rightarrow> None
   | Some (lv, whole) \<Rightarrow> Some (
       if whole then Inr lv
       else if raise_on_cycle then Inl ValueError
       else Inr (\<lambda>i. if lv i = None \<and> i \<in> set (map n_id nodes) then Some 0 else lv i)))"

section \<open>Validation\<close>

definition node_ids :: "graph \<Rightarrow> pystr list" where
  "node_ids g = map n_id (g_nodes g)"

fun check_nodes :: "pystr set \<Rightarrow> node list \<Rightarrow> nat \<Rightarrow> exc + nat" where
  "check_nodes known [] edges = Inr edges"
| "check_nodes known (r # rows) edges =
     (if n_kind r = [] then Inl ValueError
      else if \<not> list_all (\<lambda>t. t \<in> known) (targets r) then Inl ValueError
      else check_nodes known rows (edges + length (targets r)))"

definition validate :: "graph \<Rightarrow> (exc + unit) option" where
  "validate g =
     (let ids = node_ids g in
      if [] \<in> set ids then Some (Inl ValueError)
      else if \<not> distinct ids then Some (Inl ValueError)
      else (case check_nodes (set ids) (g_nodes g) 0 of
          Inl x \<Rightarrow> Some (Inl x)
        | Inr edges \<Rightarrow>
            if MAX_EDGES < edges then Some (Inl ValueError)
            else map_option (\<lambda>r. ebind r (\<lambda>_. Inr ())) (topological_levels True (g_nodes g))))"

definition load_graph :: "(json \<Rightarrow> pystr) \<Rightarrow> (pystr \<times> json) list \<Rightarrow> (exc + graph) option" where
  "load_graph show payload = (case normalize_payload show payload of
     Inl x \<Rightarrow> Some (Inl x)
   | Inr g \<Rightarrow> map_option (\<lambda>r. ebind r (\<lambda>_. Inr g)) (validate g))"

section \<open>Editing\<close>

text \<open>An edit changes the graph in place and validates it; what it returns is the new graph or the exception.\<close>

type_synonym edit_result = "((exc + graph) \<times> graph) option"

definition validated :: "graph \<Rightarrow> edit_result" where
  "validated g = map_option (\<lambda>r. (ebind r (\<lambda>_. Inr g), g)) (validate g)"

definition add_node :: "pystr \<Rightarrow> pystr \<Rightarrow> (json \<times> json) list \<Rightarrow> graph \<Rightarrow> edit_result" where
  "add_node i kind cfg g =
     (let i' = py_strip i; kind' = py_strip kind in
      if i' = [] \<or> 128 < length i' then Some (Inl ValueError, g)
      else if kind' = [] \<or> 128 < length kind' then Some (Inl ValueError, g)
      else if MAX_NODES \<le> length (g_nodes g) then Some (Inl ValueError, g)
      else if i' \<in> set (node_ids g) then Some (Inl ValueError, g)
      else validated (g\<lparr>g_nodes := g_nodes g @ [\<lparr>n_id = i', n_kind = kind', n_config = cfg, n_next = [], n_failure = []\<rparr>]\<rparr>))"

definition forget_target :: "pystr \<Rightarrow> node \<Rightarrow> node" where
  "forget_target t r = r\<lparr>n_next := filter (\<lambda>x. x \<noteq> t) (n_next r), n_failure := filter (\<lambda>x. x \<noteq> t) (n_failure r)\<rparr>"

definition remove_node :: "pystr \<Rightarrow> graph \<Rightarrow> edit_result" where
  "remove_node i g =
     (let t = py_strip i in
      if t \<notin> set (node_ids g) then Some (Inl KeyError, g)
      else if length (g_nodes g) \<le> 1 then Some (Inl ValueError, g)
      else validated (g\<lparr>g_nodes := map (forget_target t) (filter (\<lambda>r. n_id r \<noteq> t) (g_nodes g))\<rparr>))"

definition is_failure :: "pystr \<Rightarrow> bool" where
  "is_failure edge_type \<longleftrightarrow> py_casefold edge_type = ''failure''"

definition edge_list :: "pystr \<Rightarrow> node \<Rightarrow> pystr list" where
  "edge_list edge_type r = (if is_failure edge_type then n_failure r else n_next r)"

definition set_edges :: "pystr \<Rightarrow> (pystr list \<Rightarrow> pystr list) \<Rightarrow> node \<Rightarrow> node" where
  "set_edges edge_type f r = (if is_failure edge_type then r\<lparr>n_failure := f (n_failure r)\<rparr> else r\<lparr>n_next := f (n_next r)\<rparr>)"

definition update_row :: "pystr \<Rightarrow> (node \<Rightarrow> node) \<Rightarrow> graph \<Rightarrow> graph" where
  "update_row i f g = g\<lparr>g_nodes := upd_where (\<lambda>r. n_id r = i) f (g_nodes g)\<rparr>"

text \<open>\<open>connect\<close> takes the target out again, its first occurrence, when the graph with it does not validate.\<close>

definition connect :: "pystr \<Rightarrow> pystr \<Rightarrow> pystr \<Rightarrow> graph \<Rightarrow> edit_result" where
  "connect source target edge_type g =
     (let s = py_strip source; t = py_strip target in
      if s = t then Some (Inl ValueError, g)
      else if s \<notin> set (node_ids g) \<or> t \<notin> set (node_ids g) then Some (Inl KeyError, g)
      else
        let g1 = update_row s (set_edges edge_type (\<lambda>xs. if t \<in> set xs then xs else xs @ [t])) g in
        (case validate g1 of
           None \<Rightarrow> None
         | Some (Inr _) \<Rightarrow> Some (Inr g1, g1)
         | Some (Inl ValueError) \<Rightarrow> Some (Inl ValueError, update_row s (set_edges edge_type (remove1 t)) g1)
         | Some (Inl x) \<Rightarrow> Some (Inl x, g1)))"

definition disconnect :: "pystr \<Rightarrow> pystr \<Rightarrow> pystr \<Rightarrow> graph \<Rightarrow> edit_result" where
  "disconnect source target edge_type g =
     (if source \<notin> set (node_ids g) then Some (Inl KeyError, g)
      else validated (update_row source (set_edges edge_type (filter (\<lambda>x. x \<noteq> target))) g))"

text \<open>\<open>update_node\<close>: an empty kind raises before anything changes.\<close>

definition update_node :: "pystr \<Rightarrow> pystr option \<Rightarrow> (json \<times> json) list option \<Rightarrow> graph \<Rightarrow> edit_result" where
  "update_node i kind cfg g =
     (if i \<notin> set (node_ids g) then Some (Inl KeyError, g)
      else if kind \<noteq> None \<and> py_strip (the kind) = [] then Some (Inl ValueError, g)
      else validated (update_row i (\<lambda>r.
        let r1 = (case kind of Some k \<Rightarrow> r\<lparr>n_kind := take 128 (py_strip k)\<rparr> | None \<Rightarrow> r)
        in (case cfg of Some c \<Rightarrow> r1\<lparr>n_config := take 256 c\<rparr> | None \<Rightarrow> r1)) g))"

section \<open>Layout\<close>

record graph_node =
  v_id :: pystr
  v_kind :: pystr
  v_lane :: nat
  v_index :: nat
  v_x :: nat
  v_y :: nat
  v_next :: "pystr list"
  v_failure :: "pystr list"
  v_config :: "(json \<times> json) list"

record graph_edge =
  d_source :: pystr
  d_target :: pystr
  d_type :: pystr

record layout_view =
  l_nodes :: "graph_node list"
  l_edges :: "graph_edge list"
  l_width :: nat
  l_height :: nat
  l_lanes :: nat

definition place_node :: "nat \<Rightarrow> nat \<Rightarrow> node \<Rightarrow> graph_node" where
  "place_node lane index r =
     \<lparr>v_id = n_id r, v_kind = n_kind r, v_lane = lane, v_index = index, v_x = 40 + lane * LANE_WIDTH,
      v_y = 40 + index * ROW_HEIGHT, v_next = n_next r, v_failure = n_failure r, v_config = n_config r\<rparr>"

text \<open>The rows of one lane in the order of the payload, and the lanes in ascending order.\<close>

definition lane_nodes :: "levels \<Rightarrow> node list \<Rightarrow> nat \<Rightarrow> graph_node list" where
  "lane_nodes lv nodes lane =
     (let rows = filter (\<lambda>r. level_of lv (n_id r) = lane) nodes in map2 (place_node lane) [0..<length rows] rows)"

definition used_lanes :: "levels \<Rightarrow> node list \<Rightarrow> nat list" where
  "used_lanes lv nodes = sort (remdups (map (\<lambda>r. level_of lv (n_id r)) nodes))"

definition layout_edges :: "node list \<Rightarrow> graph_edge list" where
  "layout_edges nodes =
     concat (map (\<lambda>r. map (\<lambda>t. \<lparr>d_source = n_id r, d_target = t, d_type = ''normal''\<rparr>) (n_next r)) nodes) @
     concat (map (\<lambda>r. map (\<lambda>t. \<lparr>d_source = n_id r, d_target = t, d_type = ''failure''\<rparr>) (n_failure r)) nodes)"

definition max_or :: "nat \<Rightarrow> nat list \<Rightarrow> nat" where
  "max_or dflt xs = (if xs = [] then dflt else foldr max xs 0)"

definition layout :: "graph \<Rightarrow> (exc + layout_view) option" where
  "layout g = map_option (\<lambda>r. ebind r (\<lambda>lv.
     let nodes = concat (map (lane_nodes lv (g_nodes g)) (used_lanes lv (g_nodes g)));
         width = max_or 0 (map v_x nodes) + 220;
         height = max_or 0 (map v_y nodes) + 120
     in Inr \<lparr>l_nodes = nodes, l_edges = layout_edges (g_nodes g), l_width = max 640 width, l_height = max 360 height,
          l_lanes = (if g_nodes g = [] then 0
            else max_or 0 (map (\<lambda>r. level_of lv (n_id r)) (g_nodes g)) + 1)\<rparr>))
     (topological_levels False (g_nodes g))"

end
