(* ===== verification/WorkflowTopology.thy ===== *)
theory WorkflowTopology
  imports WorkflowGraph
begin

text \<open>
  The topological sort of the workflow graph: it always ends, and where no node names a target twice it visits
  every node exactly when the graph has no cycle, with levels that grow along every edge.
\<close>

section \<open>Edges and grounded nodes\<close>

definition edges :: "node list \<Rightarrow> (pystr \<times> pystr) set" where
  "edges nodes = {(a, t). t \<in> set (outgoing nodes a)}"

text \<open>A graph as the validation has checked it before it sorts: unique names, and every target is a node.\<close>

definition closed_graph :: "node list \<Rightarrow> bool" where
  "closed_graph nodes \<longleftrightarrow> distinct (map n_id nodes) \<and> (\<forall>r \<in> set nodes. set (targets r) \<subseteq> set (map n_id nodes))"

lemma find_id:
  "distinct (map n_id nodes) \<Longrightarrow> r \<in> set nodes \<Longrightarrow> find (\<lambda>r'. n_id r' = n_id r) nodes = Some r"
  by (induction nodes) (auto simp: image_iff)

lemma find_id_Some: "find (\<lambda>r. n_id r = a) nodes = Some r \<Longrightarrow> r \<in> set nodes \<and> n_id r = a"
  by (induction nodes) (auto split: if_splits)

lemma outgoing_row: "distinct (map n_id nodes) \<Longrightarrow> r \<in> set nodes \<Longrightarrow> outgoing nodes (n_id r) = targets r"
  by (simp add: outgoing_def find_id)

lemma edges_iff:
  assumes "distinct (map n_id nodes)"
  shows "(a, t) \<in> edges nodes \<longleftrightarrow> (\<exists>r \<in> set nodes. n_id r = a \<and> t \<in> set (targets r))"
proof
  assume "(a, t) \<in> edges nodes"
  then obtain r where "find (\<lambda>r. n_id r = a) nodes = Some r" "t \<in> set (targets r)"
    by (cases "find (\<lambda>r. n_id r = a) nodes") (auto simp: edges_def outgoing_def)
  with find_id_Some show "\<exists>r \<in> set nodes. n_id r = a \<and> t \<in> set (targets r)" by blast
next
  assume "\<exists>r \<in> set nodes. n_id r = a \<and> t \<in> set (targets r)"
  then show "(a, t) \<in> edges nodes" using outgoing_row [OF assms] by (auto simp: edges_def)
qed

lemma incoming_edges: "distinct (map n_id nodes) \<Longrightarrow> incoming nodes t = {a. (a, t) \<in> edges nodes}"
  by (auto simp: incoming_def edges_iff)

lemma edges_nodes:
  "closed_graph nodes \<Longrightarrow> edges nodes \<subseteq> set (map n_id nodes) \<times> set (map n_id nodes)"
  unfolding closed_graph_def using edges_iff [of nodes] by fastforce

lemma finite_edges: "closed_graph nodes \<Longrightarrow> finite (edges nodes)"
  by (rule finite_subset [OF edges_nodes]) simp_all

inductive grounded :: "(pystr \<times> pystr) set \<Rightarrow> pystr \<Rightarrow> bool" for E where
  "(\<And>a. (a, b) \<in> E \<Longrightarrow> grounded E a) \<Longrightarrow> grounded E b"

inductive_cases groundedE: "grounded E b"

lemma grounded_no_cycle: "grounded E b \<Longrightarrow> (b, b) \<notin> E\<^sup>+"
proof (induction rule: grounded.induct)
  case (1 b)
  show ?case
  proof
    assume "(b, b) \<in> E\<^sup>+"
    then obtain a where a: "(b, a) \<in> E\<^sup>*" "(a, b) \<in> E" by (meson tranclD2)
    then have "(a, a) \<in> E\<^sup>+" by (meson rtrancl_into_trancl2)
    with "1.IH" [OF a(2)] show False by simp
  qed
qed

lemma grounded_edge: "grounded E b \<Longrightarrow> (a, b) \<in> E \<Longrightarrow> grounded E a"
  by (erule groundedE) blast

lemma acyclic_grounded:
  assumes "finite E" and "acyclic E"
  shows "grounded E b"
proof -
  have "wf E" using assms by (rule finite_acyclic_wf)
  then show ?thesis
  proof (induction b rule: wf_induct_rule)
    case (less b)
    show ?case by (rule grounded.intros) (rule less)
  qed
qed

text \<open>The order in which the queue shrinks: a visited node gives way to targets of its edges.\<close>

definition unfolds :: "(pystr \<times> pystr) set \<Rightarrow> (pystr \<times> pystr) set" where
  "unfolds E = {(t, c). (c, t) \<in> E \<and> grounded E c \<and> grounded E t}"

lemma wf_unfolds:
  assumes "finite E"
  shows "wf (unfolds E)"
proof (rule finite_acyclic_wf)
  have sub: "unfolds E \<subseteq> E\<inverse>" by (auto simp: unfolds_def)
  then show "finite (unfolds E)" by (rule finite_subset) (simp add: assms)
  show "acyclic (unfolds E)"
  proof (rule acyclicI, intro allI notI)
    fix x
    assume x: "(x, x) \<in> (unfolds E)\<^sup>+"
    then have "(x, x) \<in> (E\<inverse>)\<^sup>+" using trancl_mono sub by blast
    then have "(x, x) \<in> E\<^sup>+" by (simp add: trancl_converse)
    moreover from x obtain y where "(x, y) \<in> unfolds E" by (meson tranclD)
    then have "grounded E x" by (simp add: unfolds_def)
    ultimately show False using grounded_no_cycle by blast
  qed
qed

section \<open>One visit\<close>

lemma fold_relax:
  assumes "c \<notin> set ts"
  shows "fold (relax c) ts (lv, inc, q) =
    ((\<lambda>t. if t \<in> set ts then Some (max (level_of lv t) (level_of lv c + 1)) else lv t),
     (\<lambda>t. if t \<in> set ts then inc t - {c} else inc t),
     q @ filter (\<lambda>t. inc t - {c} = {}) ts)"
  using assms
proof (induction ts arbitrary: lv inc q)
  case (Cons t ts)
  then have "c \<notin> set ts" "t \<noteq> c" by auto
  then show ?case using Cons.IH [OF \<open>c \<notin> set ts\<close>]
    by (auto simp: relax_def level_of_def fun_eq_iff intro!: filter_cong)
qed simp

text \<open>A property that every visit keeps, with visits that go down, holds at the end of the loop, and the loop ends.\<close>

lemma kahn_rule:
  assumes "wf R" and "J s"
    and "\<And>c q lv inc n. J (c # q, lv, inc, n) \<Longrightarrow>
      J (visit out c q lv inc n) \<and> (mset (fst (visit out c q lv inc n)), mset (c # q)) \<in> mult1 R"
  shows "\<exists>lv inc n. kahn out s = Some (lv, n) \<and> J ([], lv, inc, n)"
proof -
  have "wf (inv_image (mult1 R) (\<lambda>s :: topo_state. mset (fst s)))" using assms(1) by (intro wf_inv_image wf_mult1)
  then show ?thesis using assms(2)
  proof (induction s rule: wf_induct_rule)
    case (less s)
    obtain q lv inc n where s: "s = (q, lv, inc, n)" by (cases s)
    show ?case
    proof (cases q)
      case Nil
      with s less.prems show ?thesis by (auto simp: kahn.simps)
    next
      case (Cons c rest)
      have step: "J (visit out c rest lv inc n)" "(mset (fst (visit out c rest lv inc n)), mset (c # rest)) \<in> mult1 R"
        using assms(3) less.prems s Cons by blast+
      have "kahn out s = kahn out (visit out c rest lv inc n)" by (subst kahn.simps) (simp add: s Cons)
      with less.IH [OF _ step(1)] step(2) s Cons show ?thesis by (simp add: in_inv_image)
    qed
  qed
qed

definition waiting :: "node list \<Rightarrow> pystr set \<Rightarrow> topo_state \<Rightarrow> bool" where
  "waiting nodes P s \<longleftrightarrow> (case s of (q, lv, inc, n) \<Rightarrow>
     (\<forall>t. inc t = {a. (a, t) \<in> edges nodes} - P) \<and> (\<forall>t \<in> set q \<union> P. grounded (edges nodes) t))"

lemma visit_waiting:
  assumes "waiting nodes P (c # q, lv, inc, n)"
  shows "waiting nodes (insert c P) (visit (outgoing nodes) c q lv inc n) \<and>
    (mset (fst (visit (outgoing nodes) c q lv inc n)), mset (c # q)) \<in> mult1 (unfolds (edges nodes)) \<and>
    visit (outgoing nodes) c q lv inc n =
      (q @ filter (\<lambda>t. {a. (a, t) \<in> edges nodes} \<subseteq> insert c P) (outgoing nodes c),
       (\<lambda>t. if (c, t) \<in> edges nodes then Some (max (level_of lv t) (level_of lv c + 1)) else lv t),
       (\<lambda>t. {a. (a, t) \<in> edges nodes} - insert c P), Suc n)"
proof -
  let ?E = "edges nodes"
  have inc: "\<And>t. inc t = {a. (a, t) \<in> ?E} - P" and gr: "\<forall>t \<in> set q \<union> P. grounded ?E t" "grounded ?E c"
    using assms by (auto simp: waiting_def)
  have out: "t \<in> set (outgoing nodes c) \<longleftrightarrow> (c, t) \<in> ?E" for t by (simp add: edges_def)
  have "c \<notin> set (outgoing nodes c)" using grounded_no_cycle [OF gr(2)] by (auto simp: out)
  note fr = fold_relax [OF this, of lv inc q]
  have empty: "(inc t - {c} = {}) = ({a. (a, t) \<in> ?E} \<subseteq> insert c P)" for t by (auto simp: inc)
  have inc': "(\<lambda>t. if t \<in> set (outgoing nodes c) then inc t - {c} else inc t) = (\<lambda>t. {a. (a, t) \<in> ?E} - insert c P)"
    by (auto simp: inc out fun_eq_iff)
  have eq: "visit (outgoing nodes) c q lv inc n =
      (q @ filter (\<lambda>t. {a. (a, t) \<in> ?E} \<subseteq> insert c P) (outgoing nodes c),
       (\<lambda>t. if (c, t) \<in> ?E then Some (max (level_of lv t) (level_of lv c + 1)) else lv t),
       (\<lambda>t. {a. (a, t) \<in> ?E} - insert c P), Suc n)"
    unfolding visit_def fr Let_def prod.case inc' empty by (simp add: out)
  let ?new = "filter (\<lambda>t. {a. (a, t) \<in> ?E} \<subseteq> insert c P) (outgoing nodes c)"
  have new: "grounded ?E t \<and> (c, t) \<in> ?E" if "t \<in> set ?new" for t
  proof -
    have "\<And>a. (a, t) \<in> ?E \<Longrightarrow> grounded ?E a" using that gr by auto
    then have "grounded ?E t" by (rule grounded.intros)
    with that show ?thesis by (simp add: out)
  qed
  have "waiting nodes (insert c P) (visit (outgoing nodes) c q lv inc n)"
    unfolding eq using gr new by (auto simp: waiting_def)
  moreover have "(mset (q @ ?new), mset (c # q)) \<in> mult1 (unfolds ?E)"
  proof -
    have "(t, c) \<in> unfolds ?E" if "t \<in># mset ?new" for t using that new [of t] gr(2) by (simp add: unfolds_def out)
    then have "\<exists>a M0 K. mset (c # q) = add_mset a M0 \<and> mset (q @ ?new) = M0 + K \<and> (\<forall>b. b \<in># K \<longrightarrow> (b, a) \<in> unfolds ?E)"
      by (intro exI [of _ c] exI [of _ "mset q"] exI [of _ "mset ?new"]) simp
    then show ?thesis by (simp add: mult1_def)
  qed
  ultimately show ?thesis using eq by simp
qed

lemma start_waiting:
  assumes "closed_graph nodes"
  shows "waiting nodes {} (topo_start nodes)"
proof -
  have inc: "incoming nodes t = {a. (a, t) \<in> edges nodes}" for t
    using assms by (intro incoming_edges) (simp add: closed_graph_def)
  have "grounded (edges nodes) t" if "t \<in> set (initial_queue nodes)" for t
  proof (rule grounded.intros)
    fix a
    assume "(a, t) \<in> edges nodes"
    moreover have "incoming nodes t = {}" using that by (simp add: initial_queue_def)
    ultimately show "grounded (edges nodes) a" using inc by blast
  qed
  then show ?thesis by (simp add: waiting_def topo_start_def inc)
qed

lemma topology_run:
  assumes "closed_graph nodes"
  shows "\<exists>lv whole. run_topology nodes = Some (lv, whole)"
proof -
  have "\<exists>lv inc n. kahn (outgoing nodes) (topo_start nodes) = Some (lv, n) \<and> (\<exists>P. waiting nodes P ([], lv, inc, n))"
  proof (rule kahn_rule [where R = "unfolds (edges nodes)" and J = "\<lambda>s. \<exists>P. waiting nodes P s"])
    show "wf (unfolds (edges nodes))" using finite_edges [OF assms] by (rule wf_unfolds)
    show "\<exists>P. waiting nodes P (topo_start nodes)" using start_waiting [OF assms] by blast
    show "(\<exists>P. waiting nodes P (visit (outgoing nodes) c q lv inc n)) \<and>
        (mset (fst (visit (outgoing nodes) c q lv inc n)), mset (c # q)) \<in> mult1 (unfolds (edges nodes))"
      if "\<exists>P. waiting nodes P (c # q, lv, inc, n)" for c q lv inc n
      using that visit_waiting by blast
  qed
  then show ?thesis by (auto simp: run_topology_def)
qed

text \<open>The topological sort always ends, cycles and repeated targets included: on every graph with unique names and known
  targets the loop returns, so validation and layout return.\<close>

lemma topology_terminates:
  assumes "closed_graph nodes"
  shows "\<exists>lv whole. run_topology nodes = Some (lv, whole)"
  using assms by (rule topology_run)

definition ex_node :: "pystr \<Rightarrow> pystr list \<Rightarrow> pystr list \<Rightarrow> node" where
  "ex_node i next_ids failure_ids = \<lparr>n_id = i, n_kind = ''task'', n_config = [], n_next = next_ids, n_failure = failure_ids\<rparr>"

lemma topology_terminates_witness:
  "\<exists>lv whole. run_topology [ex_node ''a'' [''b'', ''b''] [], ex_node ''b'' [''c''] [], ex_node ''c'' [''b''] []] = Some (lv, whole)"
  by (rule topology_terminates) (simp add: closed_graph_def ex_node_def targets_def)

section \<open>Graphs without repeated targets\<close>

definition simple_graph :: "node list \<Rightarrow> bool" where
  "simple_graph nodes \<longleftrightarrow> closed_graph nodes \<and> (\<forall>r \<in> set nodes. distinct (targets r))"

lemma simple_outgoing: "simple_graph nodes \<Longrightarrow> distinct (outgoing nodes c)"
  by (auto simp: simple_graph_def outgoing_def dest: find_id_Some split: option.split)

text \<open>
  With the visited nodes \<open>P\<close>: no node is queued twice or again, a node is queued or visited as soon as its parents
  are visited, and the levels of the edges out of visited nodes are settled.
\<close>

definition progress :: "node list \<Rightarrow> pystr set \<Rightarrow> topo_state \<Rightarrow> bool" where
  "progress nodes P s \<longleftrightarrow> waiting nodes P s \<and> (case s of (q, lv, inc, n) \<Rightarrow>
     distinct q \<and> set q \<inter> P = {} \<and> set q \<union> P \<subseteq> set (map n_id nodes) \<and> finite P \<and> n = card P \<and>
     (\<forall>t \<in> set q \<union> P. {a. (a, t) \<in> edges nodes} \<subseteq> P) \<and>
     (\<forall>t \<in> set (map n_id nodes). {a. (a, t) \<in> edges nodes} \<subseteq> P \<longrightarrow> t \<in> set q \<union> P) \<and>
     (\<forall>t \<in> set q \<union> P. lv t \<noteq> None) \<and>
     (\<forall>(a, t) \<in> edges nodes. a \<in> P \<longrightarrow> level_of lv a < level_of lv t))"

lemma start_progress:
  assumes "simple_graph nodes"
  shows "progress nodes {} (topo_start nodes)"
proof -
  have closed: "closed_graph nodes" and d: "distinct (map n_id nodes)"
    using assms by (simp_all add: simple_graph_def closed_graph_def)
  from incoming_edges [OF d] have inc: "incoming nodes t = {a. (a, t) \<in> edges nodes}" for t .
  show ?thesis using start_waiting [OF closed] d by (auto simp: progress_def topo_start_def initial_queue_def inc)
qed

lemma visit_progress:
  assumes "simple_graph nodes" and "progress nodes P (c # q, lv, inc, n)"
  shows "progress nodes (insert c P) (visit (outgoing nodes) c q lv inc n)"
proof -
  let ?E = "edges nodes" and ?V = "set (map n_id nodes)"
  let ?pre = "\<lambda>t. {a. (a, t) \<in> ?E}"
  let ?new = "filter (\<lambda>t. ?pre t \<subseteq> insert c P) (outgoing nodes c)"
  let ?lv = "\<lambda>t. if (c, t) \<in> ?E then Some (max (level_of lv t) (level_of lv c + 1)) else lv t"
  have w: "waiting nodes P (c # q, lv, inc, n)" and dq: "distinct (c # q)" and disj: "set (c # q) \<inter> P = {}"
    and sub: "set (c # q) \<union> P \<subseteq> ?V" and fin: "finite P" "n = card P"
    and closed: "\<forall>t \<in> set (c # q) \<union> P. ?pre t \<subseteq> P"
    and ready: "\<forall>t \<in> ?V. ?pre t \<subseteq> P \<longrightarrow> t \<in> set (c # q) \<union> P"
    and lvs: "\<forall>t \<in> set (c # q) \<union> P. lv t \<noteq> None"
    and up: "\<And>a t. (a, t) \<in> ?E \<Longrightarrow> a \<in> P \<Longrightarrow> level_of lv a < level_of lv t"
    using assms(2) by (auto simp: progress_def)
  note v = visit_waiting [OF w]
  have out: "t \<in> set (outgoing nodes c) \<longleftrightarrow> (c, t) \<in> ?E" for t by (simp add: edges_def)
  have "c \<notin> P" using disj by simp
  have new_out: "t \<notin> set (c # q) \<union> P" if "(c, t) \<in> ?E" for t
    using closed \<open>c \<notin> P\<close> that by blast
  have new: "t \<in> set ?new \<longleftrightarrow> (c, t) \<in> ?E \<and> ?pre t \<subseteq> insert c P" for t by (auto simp: out)
  have Vout: "t \<in> ?V" if "(c, t) \<in> ?E" for t using edges_nodes that assms(1) by (auto simp: simple_graph_def)
  have d: "distinct (q @ ?new)" using dq simple_outgoing [OF assms(1)] new_out new by auto
  have disj': "set (q @ ?new) \<inter> insert c P = {}" using dq disj new_out new by auto
  have sub': "set (q @ ?new) \<union> insert c P \<subseteq> ?V" using sub Vout new by auto
  have card': "Suc n = card (insert c P)" using fin \<open>c \<notin> P\<close> by simp
  have closed': "\<forall>t \<in> set (q @ ?new) \<union> insert c P. ?pre t \<subseteq> insert c P"
  proof
    fix t
    assume "t \<in> set (q @ ?new) \<union> insert c P"
    then consider "t \<in> set (c # q) \<union> P" | "t \<in> set ?new" by auto
    then show "?pre t \<subseteq> insert c P" using closed new by cases blast+
  qed
  have ready': "\<forall>t \<in> ?V. ?pre t \<subseteq> insert c P \<longrightarrow> t \<in> set (q @ ?new) \<union> insert c P"
  proof (intro ballI impI)
    fix t
    assume t: "t \<in> ?V" "?pre t \<subseteq> insert c P"
    show "t \<in> set (q @ ?new) \<union> insert c P"
    proof (cases "(c, t) \<in> ?E")
      case True
      with t(2) new show ?thesis by auto
    next
      case False
      with t(2) have "?pre t \<subseteq> P" by auto
      with ready t(1) show ?thesis by auto
    qed
  qed
  have lvs': "\<forall>t \<in> set (q @ ?new) \<union> insert c P. ?lv t \<noteq> None" using lvs new by auto
  have lev: "level_of ?lv t = (if (c, t) \<in> ?E then max (level_of lv t) (level_of lv c + 1) else level_of lv t)" for t
    by (simp add: level_of_def)
  have up': "level_of ?lv a < level_of ?lv t" if at: "(a, t) \<in> ?E" "a \<in> insert c P" for a t
  proof -
    have "(c, a) \<notin> ?E" using new_out [of a] at(2) by auto
    then have a: "level_of ?lv a = level_of lv a" by (simp add: lev)
    have "level_of lv t \<le> level_of ?lv t" by (simp add: lev)
    moreover have "level_of lv c + 1 \<le> level_of ?lv t" if "a = c" using at that by (simp add: lev)
    ultimately show ?thesis using a up [OF at(1)] at(2) by (cases "a = c") auto
  qed
  have v2: "visit (outgoing nodes) c q lv inc n = (q @ ?new, ?lv, (\<lambda>t. ?pre t - insert c P), Suc n)" using v by blast
  then have v1: "waiting nodes (insert c P) (q @ ?new, ?lv, (\<lambda>t. ?pre t - insert c P), Suc n)" using v by metis
  have up2: "\<forall>(a, t) \<in> ?E. a \<in> insert c P \<longrightarrow> level_of ?lv a < level_of ?lv t" using up' by blast
  have fin': "finite (insert c P)" using fin by simp
  show ?thesis unfolding progress_def v2 prod.case
    by (intro conjI v1 d disj' sub' fin' card' closed' ready' lvs' up2)
qed

lemma simple_topology:
  assumes "simple_graph nodes"
  obtains lv where "run_topology nodes = Some (lv, \<forall>t \<in> set (map n_id nodes). grounded (edges nodes) t)"
    and "\<And>a t. (a, t) \<in> edges nodes \<Longrightarrow> grounded (edges nodes) a \<Longrightarrow> level_of lv a < level_of lv t"
    and "\<And>t. t \<in> set (map n_id nodes) \<Longrightarrow> grounded (edges nodes) t \<Longrightarrow> lv t \<noteq> None"
proof -
  let ?E = "edges nodes" and ?V = "set (map n_id nodes)"
  have closed: "closed_graph nodes" using assms by (simp add: simple_graph_def)
  have "\<exists>lv inc n. kahn (outgoing nodes) (topo_start nodes) = Some (lv, n) \<and> (\<exists>P. progress nodes P ([], lv, inc, n))"
  proof (rule kahn_rule [where R = "unfolds ?E" and J = "\<lambda>s. \<exists>P. progress nodes P s"])
    show "wf (unfolds ?E)" using finite_edges [OF closed] by (rule wf_unfolds)
    show "\<exists>P. progress nodes P (topo_start nodes)" using start_progress [OF assms] by blast
    show "(\<exists>P. progress nodes P (visit (outgoing nodes) c q lv inc n)) \<and>
        (mset (fst (visit (outgoing nodes) c q lv inc n)), mset (c # q)) \<in> mult1 (unfolds ?E)"
      if "\<exists>P. progress nodes P (c # q, lv, inc, n)" for c q lv inc n
    proof -
      from that obtain P where pr: "progress nodes P (c # q, lv, inc, n)" by blast
      then have "waiting nodes P (c # q, lv, inc, n)" unfolding progress_def by blast
      from visit_progress [OF assms pr] visit_waiting [OF this] show ?thesis by blast
    qed
  qed
  then obtain lv inc n P where run: "kahn (outgoing nodes) (topo_start nodes) = Some (lv, n)"
    and pr: "progress nodes P ([], lv, inc, n)" by blast
  from pr have gr: "\<forall>t \<in> P. grounded ?E t" and sub: "P \<subseteq> ?V" "finite P" "n = card P"
    and ready: "\<forall>t \<in> ?V. {a. (a, t) \<in> ?E} \<subseteq> P \<longrightarrow> t \<in> P" and lvs: "\<forall>t \<in> P. lv t \<noteq> None"
    and up: "\<forall>(a, t) \<in> ?E. a \<in> P \<longrightarrow> level_of lv a < level_of lv t"
    by (simp_all add: progress_def waiting_def)
  have all: "t \<in> P" if "grounded ?E t" "t \<in> ?V" for t
    using that
  proof (induction rule: grounded.induct)
    case (1 t)
    have "{a. (a, t) \<in> ?E} \<subseteq> P"
    proof
      fix a
      assume "a \<in> {a. (a, t) \<in> ?E}"
      then have "(a, t) \<in> ?E" by simp
      with edges_nodes [OF closed] 1 show "a \<in> P" by blast
    qed
    with ready 1(3) show ?case by blast
  qed
  have "n = length nodes \<longleftrightarrow> P = ?V"
  proof -
    have "card ?V = length nodes" using closed distinct_card [of "map n_id nodes"] by (simp add: closed_graph_def)
    then show ?thesis using sub card_subset_eq [of ?V P] by auto
  qed
  also have "\<dots> \<longleftrightarrow> (\<forall>t \<in> ?V. grounded ?E t)" using gr all sub(1) by blast
  finally have "run_topology nodes = Some (lv, \<forall>t \<in> ?V. grounded ?E t)" using run by (simp add: run_topology_def)
  moreover have "level_of lv a < level_of lv t" if "(a, t) \<in> ?E" "grounded ?E a" for a t
    using that up all edges_nodes [OF closed] by blast
  moreover have "lv t \<noteq> None" if "t \<in> ?V" "grounded ?E t" for t using all lvs that by blast
  ultimately show thesis using that by blast
qed

lemma grounded_all_iff:
  assumes "closed_graph nodes"
  shows "(\<forall>t \<in> set (map n_id nodes). grounded (edges nodes) t) \<longleftrightarrow> acyclic (edges nodes)"
proof
  assume all: "\<forall>t \<in> set (map n_id nodes). grounded (edges nodes) t"
  show "acyclic (edges nodes)"
  proof (rule acyclicI, intro allI notI)
    fix x
    assume x: "(x, x) \<in> (edges nodes)\<^sup>+"
    then obtain y where "(x, y) \<in> edges nodes" by (meson tranclD)
    with all edges_nodes [OF assms] have "grounded (edges nodes) x" by blast
    with x grounded_no_cycle show False by blast
  qed
qed (simp add: acyclic_grounded finite_edges assms)

lemma simple_levels:
  assumes "simple_graph nodes"
  shows "\<exists>lv. topological_levels True nodes = Some (if acyclic (edges nodes) then Inr lv else Inl ValueError) \<and>
    (\<forall>a t. acyclic (edges nodes) \<and> (a, t) \<in> edges nodes \<longrightarrow> level_of lv a < level_of lv t)"
proof -
  have closed: "closed_graph nodes" using assms by (simp add: simple_graph_def)
  obtain lv where "run_topology nodes = Some (lv, \<forall>t \<in> set (map n_id nodes). grounded (edges nodes) t)"
    and up: "\<And>a t. (a, t) \<in> edges nodes \<Longrightarrow> grounded (edges nodes) a \<Longrightarrow> level_of lv a < level_of lv t"
    by (rule simple_topology [OF assms]) blast
  then have run: "run_topology nodes = Some (lv, acyclic (edges nodes))" unfolding grounded_all_iff [OF closed] by simp
  have "level_of lv a < level_of lv t" if "acyclic (edges nodes)" "(a, t) \<in> edges nodes" for a t
    using up that acyclic_grounded [OF finite_edges [OF closed]] by blast
  with run show ?thesis by (intro exI [of _ lv]) (simp add: topological_levels_def)
qed

text \<open>C18: The sort decides acyclicity: on a graph where no node names a target twice it visits every node exactly when the
  edges have no cycle, and then every edge goes from a lower level to a higher one, so in the layout from a
  lane to one further right.\<close>

theorem topology_is_acyclicity:
  assumes "simple_graph nodes"
  shows "\<exists>lv. topological_levels True nodes = Some (if acyclic (edges nodes) then Inr lv else Inl ValueError) \<and>
    (\<forall>a t. acyclic (edges nodes) \<and> (a, t) \<in> edges nodes \<longrightarrow> level_of lv a < level_of lv t)"
  using assms by (rule simple_levels)

theorem topology_is_acyclicity_witness:
  "\<exists>lv. topological_levels True [ex_node ''a'' [''b''] [''c''], ex_node ''b'' [''c''] [], ex_node ''c'' [] []] =
     Some (if acyclic (edges [ex_node ''a'' [''b''] [''c''], ex_node ''b'' [''c''] [], ex_node ''c'' [] []]) then Inr lv
       else Inl ValueError)"
proof -
  have "simple_graph [ex_node ''a'' [''b''] [''c''], ex_node ''b'' [''c''] [], ex_node ''c'' [] []]"
    by (simp add: simple_graph_def closed_graph_def ex_node_def targets_def)
  from topology_is_acyclicity [OF this] show ?thesis by blast
qed

end
