(* ===== verification/WorkflowFlow.thy ===== *)
theory WorkflowFlow
  imports WorkflowEngine WorkflowTopology
begin

text \<open>
  The flow of items through the workflow engine: one item, one node, all nodes. Every step keeps the account of the items,
  which says that what a node has read and what waits for it is what was sent to it.
\<close>

section \<open>Sending\<close>

lemma send_all_effect:
  assumes "send_all b v ks s = Inr s'"
  shows "s' = s\<lparr>es_queue := (\<lambda>k. es_queue s k @ replicate (count_list ks k) v)\<rparr>"
    and "(\<forall>k. length (es_queue s k) \<le> b) \<Longrightarrow> (\<forall>k. length (es_queue s' k) \<le> b)"
proof -
  have "s' = s\<lparr>es_queue := (\<lambda>k. es_queue s k @ replicate (count_list ks k) v)\<rparr> \<and>
      ((\<forall>k. length (es_queue s k) \<le> b) \<longrightarrow> (\<forall>k. length (es_queue s' k) \<le> b))"
    using assms
  proof (induction ks arbitrary: s)
    case (Cons k ks)
    let ?s1 = "s\<lparr>es_queue := (es_queue s)(k := es_queue s k @ [v])\<rparr>"
    from Cons.prems have b: "\<not> b \<le> length (es_queue s k)" and r: "send_all b v ks ?s1 = Inr s'"
      by (auto simp: send_all_def append_bounded_def split: if_splits)
    have q: "(\<lambda>k'. es_queue ?s1 k' @ replicate (count_list ks k') v) = (\<lambda>k'. es_queue s k' @ replicate (count_list (k # ks) k') v)"
      by (auto simp: fun_eq_iff)
    have "s' = ?s1\<lparr>es_queue := (\<lambda>k'. es_queue ?s1 k' @ replicate (count_list ks k') v)\<rparr>" using Cons.IH [OF r] by blast
    then have "s' = s\<lparr>es_queue := (\<lambda>k'. es_queue s k' @ replicate (count_list (k # ks) k') v)\<rparr>" unfolding q by simp
    moreover have "(\<forall>k. length (es_queue ?s1 k) \<le> b) \<longrightarrow> (\<forall>k. length (es_queue s' k) \<le> b)" using Cons.IH [OF r] by blast
    moreover have "(\<forall>k. length (es_queue s k) \<le> b) \<longrightarrow> (\<forall>k. length (es_queue ?s1 k) \<le> b)" using b by simp
    ultimately show ?case by blast
  qed (simp add: send_all_def)
  then show "s' = s\<lparr>es_queue := (\<lambda>k. es_queue s k @ replicate (count_list ks k) v)\<rparr>"
    and "(\<forall>k. length (es_queue s k) \<le> b) \<Longrightarrow> (\<forall>k. length (es_queue s' k) \<le> b)" by blast+
qed

section \<open>What one item does\<close>

definition bounded_state :: "nat \<Rightarrow> engine_state \<Rightarrow> bool" where
  "bounded_state b s \<longleftrightarrow> (\<forall>k. length (es_queue s k) \<le> b) \<and> length (es_outputs s) \<le> b \<and> length (es_errors s) \<le> b"

text \<open>A node has yielded \<open>y\<close> outputs and failed on \<open>e\<close> items between two states.\<close>

definition worked :: "wnode \<Rightarrow> nat \<Rightarrow> nat \<Rightarrow> engine_state \<Rightarrow> engine_state \<Rightarrow> bool" where
  "worked n y e s s' \<longleftrightarrow>
     es_remaining s' = es_remaining s \<and> es_visited s' = es_visited s \<and>
     (\<exists>ne. es_nodes s' = (es_nodes s)(wn_id n := ne) \<and> ne_input ne = ne_input (es_nodes s (wn_id n)) \<and>
       ne_output ne = ne_output (es_nodes s (wn_id n)) + y \<and> ne_errors ne = ne_errors (es_nodes s (wn_id n)) + e) \<and>
     (\<forall>k. length (es_queue s' k) = length (es_queue s k) + count_list (wn_next n) k * y + count_list (wn_failure n) k * e) \<and>
     (\<forall>k. k \<notin> set (wn_targets n) \<longrightarrow> es_queue s' k = es_queue s k) \<and>
     length (es_outputs s') = length (es_outputs s) + (if wn_next n = [] then y else 0) \<and>
     length (es_errors s') = length (es_errors s) + e"

lemma worked_refl: "worked n 0 0 s s"
  unfolding worked_def by (auto intro!: exI [of _ "es_nodes s (wn_id n)"])

lemma worked_trans:
  assumes "worked n y e s s1" and "worked n y' e' s1 s2"
  shows "worked n (y + y') (e + e') s s2"
proof -
  from assms obtain ne ne' where ne: "es_nodes s1 = (es_nodes s)(wn_id n := ne)" "ne_input ne = ne_input (es_nodes s (wn_id n))"
      "ne_output ne = ne_output (es_nodes s (wn_id n)) + y" "ne_errors ne = ne_errors (es_nodes s (wn_id n)) + e"
    and ne': "es_nodes s2 = (es_nodes s1)(wn_id n := ne')" "ne_input ne' = ne_input (es_nodes s1 (wn_id n))"
      "ne_output ne' = ne_output (es_nodes s1 (wn_id n)) + y'" "ne_errors ne' = ne_errors (es_nodes s1 (wn_id n)) + e'"
    unfolding worked_def by blast
  have "\<exists>ne. es_nodes s2 = (es_nodes s)(wn_id n := ne) \<and> ne_input ne = ne_input (es_nodes s (wn_id n)) \<and>
      ne_output ne = ne_output (es_nodes s (wn_id n)) + (y + y') \<and> ne_errors ne = ne_errors (es_nodes s (wn_id n)) + (e + e')"
    using ne ne' by (intro exI [of _ ne']) simp
  then show ?thesis using assms unfolding worked_def by (simp add: algebra_simps)
qed

lemma emit_one:
  assumes "(let s1 = upd_node (wn_id n) (\<lambda>e. e\<lparr>ne_output := ne_output e + 1\<rparr>) s in
      if wn_next n \<noteq> [] then send_all b v (wn_next n) s1 else append_terminal b v s1) = Inr s'"
    and "bounded_state b s"
  shows "worked n 1 0 s s' \<and> bounded_state b s'"
proof (cases "wn_next n = []")
  case True
  with assms show ?thesis
    by (auto simp: Let_def append_terminal_def upd_node_def worked_def bounded_state_def split: if_splits)
next
  case False
  let ?s1 = "upd_node (wn_id n) (\<lambda>e. e\<lparr>ne_output := ne_output e + 1\<rparr>) s"
  from False assms(1) have r: "send_all b v (wn_next n) ?s1 = Inr s'" by (simp add: Let_def)
  have "s' = ?s1\<lparr>es_queue := (\<lambda>k. es_queue ?s1 k @ replicate (count_list (wn_next n) k) v)\<rparr>"
    by (rule send_all_effect(1) [OF r])
  moreover have "\<forall>k. length (es_queue s' k) \<le> b"
    by (rule send_all_effect(2) [OF r]) (use assms(2) in \<open>simp add: bounded_state_def upd_node_def\<close>)
  ultimately show ?thesis using False assms(2)
    by (auto simp: worked_def bounded_state_def upd_node_def wn_targets_def count_notin)
qed

lemma emit_all_effect:
  assumes "emit_all b n vs s = Inr (s', bad)" and "bounded_state b s"
  shows "\<exists>y. worked n y 0 s s' \<and> bounded_state b s'"
  using assms
proof (induction vs arbitrary: s)
  case Nil
  then show ?case using worked_refl by auto
next
  case (Cons v vs)
  show ?case
  proof (cases "is_mapping v")
    case False
    with Cons.prems show ?thesis using worked_refl by auto
  next
    case True
    with Cons.prems obtain s1 where s1: "(let s1 = upd_node (wn_id n) (\<lambda>e. e\<lparr>ne_output := ne_output e + 1\<rparr>) s in
        if wn_next n \<noteq> [] then send_all b v (wn_next n) s1 else append_terminal b v s1) = Inr s1"
      and r: "emit_all b n vs s1 = Inr (s', bad)" by (auto simp del: Let_def)
    from emit_one [OF s1 Cons.prems(2)] have w: "worked n 1 0 s s1" "bounded_state b s1" by simp_all
    from Cons.IH [OF r w(2)] obtain y where "worked n y 0 s1 s'" "bounded_state b s'" by blast
    with worked_trans [OF w(1)] show ?thesis by fastforce
  qed
qed

lemma fail_item_effect:
  assumes "fail_item b n item r s = Inr s'" and "bounded_state b s"
  shows "worked n 0 1 s s' \<and> bounded_state b s'"
proof -
  let ?s1 = "upd_node (wn_id n) (\<lambda>e. e\<lparr>ne_errors := ne_errors e + 1\<rparr>) s"
  from assms(1) obtain s2 where s2: "append_error b (wn_id n) (snd r) item ?s1 = Inr s2"
    and rest: "send_all b (with_error item (snd r)) (wn_failure n) s2 = Inr s'"
    by (auto simp: fail_item_def split: if_splits)
  have "s' = s2\<lparr>es_queue := (\<lambda>k. es_queue s2 k @ replicate (count_list (wn_failure n) k) (with_error item (snd r)))\<rparr>"
    by (rule send_all_effect(1) [OF rest])
  moreover have "\<forall>k. length (es_queue s' k) \<le> b"
    by (rule send_all_effect(2) [OF rest]) (use s2 assms(2) in \<open>auto simp: append_error_def bounded_state_def upd_node_def split: if_splits\<close>)
  ultimately show ?thesis using s2 assms(2)
    by (auto simp: append_error_def worked_def bounded_state_def upd_node_def wn_targets_def count_notin split: if_splits)
qed

lemma process_item_effect:
  assumes "process_item we h n item s = Inr s'" and "bounded_state (we_buffer we) s"
  shows "\<exists>y e. worked n y e s s' \<and> bounded_state (we_buffer we) s'"
proof (cases "resolve_variables (we_env we) (wn_config n)")
  case (Inl r)
  then show ?thesis using assms fail_item_effect [of "we_buffer we" n item r s s'] by (auto simp: process_item_def)
next
  case (Inr config)
  obtain vs ended where h: "h item config = (vs, ended)" by fastforce
  from assms(1) Inr h obtain s1 bad where e: "emit_all (we_buffer we) n vs s = Inr (s1, bad)"
    and r: "(case (case bad of None \<Rightarrow> ended | Some r \<Rightarrow> Some r) of None \<Rightarrow> Inr s1 | Some r \<Rightarrow> fail_item (we_buffer we) n item r s1) = Inr s'"
    by (auto simp: process_item_def)
  from emit_all_effect [OF e assms(2)] obtain y where y: "worked n y 0 s s1" "bounded_state (we_buffer we) s1" by blast
  show ?thesis
  proof (cases "case bad of None \<Rightarrow> ended | Some r \<Rightarrow> Some r")
    case None
    with r y show ?thesis by auto
  next
    case (Some x)
    with r have "fail_item (we_buffer we) n item x s1 = Inr s'" by simp
    from fail_item_effect [OF this y(2)] worked_trans [OF y(1)] show ?thesis by fastforce
  qed
qed

section \<open>The account of the items\<close>

text \<open>What the nodes have sent to \<open>k\<close>: their outputs once for every next edge, their failures once for every failure edge.\<close>

definition sent_by :: "wnode \<Rightarrow> node_execution \<Rightarrow> pystr \<Rightarrow> nat" where
  "sent_by n e k = count_list (wn_next n) k * ne_output e + count_list (wn_failure n) k * ne_errors e"

definition sent_to :: "wnode list \<Rightarrow> engine_state \<Rightarrow> pystr \<Rightarrow> nat" where
  "sent_to ns s k = sum_list (map (\<lambda>n. sent_by n (es_nodes s (wn_id n)) k) ns)"

definition ended_by :: "wnode \<Rightarrow> node_execution \<Rightarrow> nat" where
  "ended_by n e = (if wn_next n = [] then ne_output e else 0)"

definition terminal_outputs :: "wnode list \<Rightarrow> engine_state \<Rightarrow> nat" where
  "terminal_outputs ns s = sum_list (map (\<lambda>n. ended_by n (es_nodes s (wn_id n))) ns)"

definition node_failures :: "wnode list \<Rightarrow> engine_state \<Rightarrow> nat" where
  "node_failures ns s = sum_list (map (\<lambda>n. ne_errors (es_nodes s (wn_id n))) ns)"

definition flow_ok :: "wnode list \<Rightarrow> (pystr \<Rightarrow> nat) \<Rightarrow> nat \<Rightarrow> engine_state \<Rightarrow> bool" where
  "flow_ok ns fed b s \<longleftrightarrow>
     (\<forall>k. ne_input (es_nodes s k) + length (es_queue s k) = fed k + sent_to ns s k) \<and>
     length (es_outputs s) = terminal_outputs ns s \<and> length (es_errors s) = node_failures ns s \<and> bounded_state b s"

lemma sum_upd:
  fixes g :: "wnode \<Rightarrow> node_execution \<Rightarrow> nat"
  assumes "distinct (map wn_id ns)" and "n \<in> set ns"
  shows "sum_list (map (\<lambda>m. g m ((N(wn_id n := e)) (wn_id m))) ns) + g n (N (wn_id n)) = sum_list (map (\<lambda>m. g m (N (wn_id m))) ns) + g n e"
  using assms
proof (induction ns)
  case (Cons m ms)
  show ?case
  proof (cases "m = n")
    case True
    then have "map (\<lambda>m. g m ((N(wn_id n := e)) (wn_id m))) ms = map (\<lambda>m. g m (N (wn_id m))) ms"
      using Cons.prems(1) by (auto simp: image_iff)
    then have "sum_list (map (\<lambda>m. g m ((N(wn_id n := e)) (wn_id m))) ms) = sum_list (map (\<lambda>m. g m (N (wn_id m))) ms)"
      by (rule arg_cong)
    with True show ?thesis by simp
  next
    case False
    then have "wn_id m \<noteq> wn_id n" using Cons.prems by (auto simp: image_iff)
    moreover have "n \<in> set ms" using False Cons.prems(2) by simp
    ultimately show ?thesis using Cons.IH Cons.prems(1) by simp
  qed
qed simp

lemma worked_flow:
  assumes "flow_ok ns fed b s" and "worked n y e s s'" and "bounded_state b s'" and "distinct (map wn_id ns)" and "n \<in> set ns"
  shows "flow_ok ns fed b s'"
proof -
  from assms(2) obtain ne where ne: "es_nodes s' = (es_nodes s)(wn_id n := ne)" "ne_input ne = ne_input (es_nodes s (wn_id n))"
      "ne_output ne = ne_output (es_nodes s (wn_id n)) + y" "ne_errors ne = ne_errors (es_nodes s (wn_id n)) + e"
    and q: "\<And>k. length (es_queue s' k) = length (es_queue s k) + count_list (wn_next n) k * y + count_list (wn_failure n) k * e"
    and o: "length (es_outputs s') = length (es_outputs s) + (if wn_next n = [] then y else 0)"
      "length (es_errors s') = length (es_errors s) + e"
    unfolding worked_def by blast
  let ?o = "es_nodes s (wn_id n)"
  have sent: "sent_to ns s' k = sent_to ns s k + count_list (wn_next n) k * y + count_list (wn_failure n) k * e" for k
  proof -
    have "sent_by n ne k = sent_by n ?o k + count_list (wn_next n) k * y + count_list (wn_failure n) k * e"
      using ne by (simp add: sent_by_def algebra_simps)
    with sum_upd [OF assms(4,5), of "\<lambda>m e. sent_by m e k" "es_nodes s" ne] show ?thesis
      by (simp add: sent_to_def ne(1))
  qed
  have "terminal_outputs ns s' = terminal_outputs ns s + (if wn_next n = [] then y else 0)"
    using sum_upd [OF assms(4,5), of ended_by "es_nodes s" ne] ne(3)
    by (cases "wn_next n = []") (simp_all add: terminal_outputs_def ne(1) ended_by_def [of n])
  moreover have "node_failures ns s' = node_failures ns s + e"
    using sum_upd [OF assms(4,5), of "\<lambda>m e. ne_errors e" "es_nodes s" ne] ne(4)
    by (simp add: node_failures_def ne(1))
  moreover have "ne_input (es_nodes s' k) = ne_input (es_nodes s k)" for k using ne(1,2) by simp
  ultimately show ?thesis using assms(1,3) o by (simp add: flow_ok_def q sent)
qed

text \<open>Only outputs and failures count.\<close>

lemma flow_cong:
  assumes "\<And>k. ne_output (es_nodes s' k) = ne_output (es_nodes s k) \<and> ne_errors (es_nodes s' k) = ne_errors (es_nodes s k)"
    and "\<And>k. ne_input (es_nodes s' k) + length (es_queue s' k) = ne_input (es_nodes s k) + length (es_queue s k)"
    and "es_outputs s' = es_outputs s" and "es_errors s' = es_errors s" and "\<And>k. length (es_queue s' k) \<le> length (es_queue s k)"
    and "flow_ok ns fed b s"
  shows "flow_ok ns fed b s'"
proof -
  have "ended_by n (es_nodes s' k) = ended_by n (es_nodes s k)" for n k using assms(1) by (simp add: ended_by_def)
  then have "terminal_outputs ns s' = terminal_outputs ns s" by (simp add: terminal_outputs_def)
  moreover have "sent_to ns s' k = sent_to ns s k" for k using assms(1) by (simp add: sent_to_def sent_by_def)
  moreover have "node_failures ns s' = node_failures ns s" using assms(1) by (simp add: node_failures_def)
  moreover have "bounded_state b s'" using assms(3-6) order_trans unfolding flow_ok_def bounded_state_def by metis
  ultimately show ?thesis using assms(2-4,6) by (simp add: flow_ok_def)
qed

section \<open>One node\<close>

definition pop_item :: "pystr \<Rightarrow> json list \<Rightarrow> engine_state \<Rightarrow> engine_state" where
  "pop_item k items s = upd_node k (\<lambda>e. e\<lparr>ne_input := ne_input e + 1\<rparr>) (s\<lparr>es_queue := (es_queue s)(k := items)\<rparr>)"

lemma pop_flow: "flow_ok ns fed b s \<Longrightarrow> es_queue s k = item # items \<Longrightarrow> flow_ok ns fed b (pop_item k items s)"
  by (rule flow_cong [of "pop_item k items s" s]) (simp_all add: pop_item_def upd_node_def)

lemma token_fields:
  assumes "token_checkpoint s = Inr s'"
  shows "es_queue s' = es_queue s" "es_nodes s' = es_nodes s" "es_outputs s' = es_outputs s" "es_errors s' = es_errors s"
    "es_remaining s' = es_remaining s" "es_visited s' = es_visited s"
  using assms by (auto simp: token_checkpoint_def split: option.splits nat.splits)

lemma token_flow: "token_checkpoint s = Inr s' \<Longrightarrow> flow_ok ns fed b s \<Longrightarrow> flow_ok ns fed b s'"
  by (rule flow_cong [of s' s]) (simp_all add: token_fields)

lemma buffer_limit_is [simp]: "is_buffer_limit buffer_limit"
  by (simp add: is_buffer_limit_def buffer_limit_def wf_fail_def)

lemma send_all_error: "send_all b v ks s = Inl x \<Longrightarrow> x = buffer_limit"
  by (induction ks arbitrary: s) (auto simp: send_all_def append_bounded_def ebind_Inl_iff split: if_splits)

lemma emit_all_error: "emit_all b n vs s = Inl x \<Longrightarrow> x = buffer_limit"
  by (induction vs arbitrary: s)
     (auto simp: ebind_Inl_iff Let_def append_terminal_def dest: send_all_error split: if_splits)

lemma process_item_error:
  assumes "process_item we h n item s = Inl x"
  shows "is_buffer_limit x"
proof -
  have fail: "fail_item b n item r s = Inl x \<Longrightarrow> is_buffer_limit x" for b r s
    by (auto simp: fail_item_def ebind_Inl_iff append_error_def dest: send_all_error split: if_splits)
  show ?thesis using assms
    by (auto simp: process_item_def ebind_Inl_iff dest: fail emit_all_error split: sum.splits option.splits prod.splits)
qed

lemma token_error: "token_checkpoint s = Inl x \<Longrightarrow> x = run_cancelled"
  by (auto simp: token_checkpoint_def split: option.splits nat.splits)

text \<open>A node that does not feed itself is drained, and what it did is an account of its work.\<close>

lemma drain_effect:
  assumes "flow_ok ns fed (we_buffer we) s" and "distinct (map wn_id ns)" and "n \<in> set ns" and "wn_id n \<notin> set (wn_targets n)"
  shows "\<exists>res. drain_node we h n s = Some res \<and> (\<forall>x. res = Inl x \<longrightarrow> x = run_cancelled \<or> is_buffer_limit x) \<and> (\<forall>s'. res = Inr s' \<longrightarrow>
     flow_ok ns fed (we_buffer we) s' \<and> es_queue s' (wn_id n) = [] \<and> es_remaining s' = es_remaining s \<and> es_visited s' = es_visited s \<and>
     (\<forall>k. k \<notin> set (wn_targets n) \<and> k \<noteq> wn_id n \<longrightarrow> es_queue s' k = es_queue s k) \<and>
     (\<forall>k. k \<noteq> wn_id n \<longrightarrow> es_nodes s' k = es_nodes s k))"
  using assms(1)
proof (induction "es_queue s (wn_id n)" arbitrary: s)
  case Nil
  then show ?case by (auto simp: drain_node.simps [of we h n s])
next
  case (Cons item items)
  note q = Cons.hyps(2) [symmetric]
  let ?k = "wn_id n"
  show ?case
  proof (cases "ebind (token_checkpoint s) (\<lambda>s0. process_item we h n item (pop_item ?k items s0))")
    case (Inl x)
    then have "drain_node we h n s = Some (Inl x)"
      by (simp add: drain_node.simps [of we h n s] q pop_item_def)
    moreover have "x = run_cancelled \<or> is_buffer_limit x" using Inl process_item_error token_error unfolding ebind_Inl_iff by blast
    ultimately show ?thesis by simp
  next
    case (Inr s1)
    have "drain_node we h n s = (case ebind (token_checkpoint s) (\<lambda>s0. process_item we h n item (pop_item ?k items s0)) of
        Inl x \<Rightarrow> Some (Inl x) | Inr s1 \<Rightarrow> drain_node we h n s1)"
      by (subst drain_node.simps) (simp add: q pop_item_def)
    then have step: "drain_node we h n s = drain_node we h n s1" by (simp only: Inr sum.case)
    from Inr obtain s0 where s0: "token_checkpoint s = Inr s0" and p: "process_item we h n item (pop_item ?k items s0) = Inr s1" by auto
    let ?s = "pop_item ?k items s0"
    have f: "flow_ok ns fed (we_buffer we) ?s"
      using pop_flow [OF token_flow [OF s0 Cons.prems]] q token_fields(1) [OF s0] by simp
    from process_item_effect [OF p] f obtain y e where w: "worked n y e ?s s1" "bounded_state (we_buffer we) s1"
      unfolding flow_ok_def by blast
    have f1: "flow_ok ns fed (we_buffer we) s1" by (rule worked_flow [OF f w assms(2,3)])
    have q1: "es_queue s1 ?k = items" using w(1) assms(4) by (simp add: worked_def pop_item_def upd_node_def)
    have same: "es_remaining s1 = es_remaining s" "es_visited s1 = es_visited s"
      "\<And>k. k \<notin> set (wn_targets n) \<Longrightarrow> k \<noteq> ?k \<Longrightarrow> es_queue s1 k = es_queue s k" "\<And>k. k \<noteq> ?k \<Longrightarrow> es_nodes s1 k = es_nodes s k"
      using w(1) token_fields [OF s0] by (auto simp: worked_def pop_item_def upd_node_def)
    show ?thesis using Cons.hyps(1) [OF q1 [symmetric] f1] unfolding step same(1,2) using same(3,4) by auto
  qed
qed

end
