(* ===== verification/WorkflowDataflow.thy ===== *)
theory WorkflowDataflow
  imports WorkflowFlow
begin

text \<open>
  The order in which the workflow engine visits the nodes, and the properties of whole executions: what a result says, when
  there is one, and that what was begun is ended.
\<close>

section \<open>Edges\<close>

definition wn_edges :: "wnode list \<Rightarrow> (pystr \<times> pystr) set" where
  "wn_edges ns = {(a, t). \<exists>n\<in>set ns. wn_id n = a \<and> t \<in> set (wn_targets n)}"

definition pending_edges :: "wnode list \<Rightarrow> pystr set \<Rightarrow> pystr \<Rightarrow> nat" where
  "pending_edges ns vs t = sum_list (map (\<lambda>n. if wn_id n \<in> vs then 0 else count_list (wn_targets n) t) ns)"

lemma pending_zero: "pending_edges ns vs t = 0 \<longleftrightarrow> (\<forall>a. (a, t) \<in> wn_edges ns \<longrightarrow> a \<in> vs)"
proof -
  have "pending_edges ns vs t = 0 \<longleftrightarrow> (\<forall>n\<in>set ns. wn_id n \<in> vs \<or> t \<notin> set (wn_targets n))"
    by (induction ns) (auto simp: pending_edges_def count_list_0_iff)
  then show ?thesis by (auto simp: wn_edges_def)
qed

lemma pending_none: "pending_edges ns {} t = indegree ns t"
  by (simp add: pending_edges_def indegree_def)

lemma pending_insert:
  assumes "distinct (map wn_id ns)" and "n \<in> set ns" and "wn_id n \<notin> vs"
  shows "pending_edges ns vs t = pending_edges ns (insert (wn_id n) vs) t + count_list (wn_targets n) t"
  using assms
proof (induction ns)
  case (Cons m ms)
  show ?case
  proof (cases "m = n")
    case True
    then have "map (\<lambda>n. if wn_id n \<in> vs then 0 else count_list (wn_targets n) t) ms =
        map (\<lambda>n. if wn_id n \<in> insert (wn_id m) vs then 0 else count_list (wn_targets n) t) ms"
      using Cons.prems(1) by (auto simp: image_iff)
    then have "pending_edges ms vs t = pending_edges ms (insert (wn_id m) vs) t"
      unfolding pending_edges_def by (rule arg_cong)
    with True Cons.prems(3) show ?thesis by (simp add: pending_edges_def)
  next
    case False
    then have "wn_id m \<noteq> wn_id n" using Cons.prems by (auto simp: image_iff)
    moreover have "n \<in> set ms" using False Cons.prems(2) by simp
    ultimately show ?thesis using Cons.IH Cons.prems(1,3) by (simp add: pending_edges_def)
  qed
qed simp

section \<open>The order of the visits\<close>

definition parents_first :: "wnode list \<Rightarrow> pystr list \<Rightarrow> bool" where
  "parents_first ns xs \<longleftrightarrow> (\<forall>us t vs. xs = us @ t # vs \<longrightarrow> (\<forall>a. (a, t) \<in> wn_edges ns \<longrightarrow> a \<in> set us))"

definition order_ok :: "wnode list \<Rightarrow> pystr list \<Rightarrow> engine_state \<Rightarrow> bool" where
  "order_ok ns ready s \<longleftrightarrow>
     distinct (es_visited s @ ready) \<and> set (es_visited s @ ready) \<subseteq> wn_id ` set ns \<and>
     (\<forall>t. es_remaining s t = int (pending_edges ns (set (es_visited s)) t)) \<and>
     (\<forall>t\<in>wn_id ` set ns. t \<notin> set (es_visited s) \<longrightarrow> (t \<in> set ready \<longleftrightarrow> pending_edges ns (set (es_visited s)) t = 0)) \<and>
     parents_first ns (es_visited s)"

lemma order_okD:
  assumes "order_ok ns ready s"
  shows "distinct (es_visited s @ ready)" and "set (es_visited s @ ready) \<subseteq> wn_id ` set ns"
    and "es_remaining s t = int (pending_edges ns (set (es_visited s)) t)"
    and "t \<in> wn_id ` set ns \<Longrightarrow> t \<notin> set (es_visited s) \<Longrightarrow> (t \<in> set ready) = (pending_edges ns (set (es_visited s)) t = 0)"
    and "parents_first ns (es_visited s)"
proof -
  note o = assms [unfolded order_ok_def]
  show "distinct (es_visited s @ ready)" using o by (elim conjE)
  show "set (es_visited s @ ready) \<subseteq> wn_id ` set ns" using o by (elim conjE)
  show "parents_first ns (es_visited s)" using o by (elim conjE)
  show "es_remaining s t = int (pending_edges ns (set (es_visited s)) t)" using o by (elim conjE) (erule spec)
  assume t: "t \<in> wn_id ` set ns" "t \<notin> set (es_visited s)"
  have "\<forall>t\<in>wn_id ` set ns. t \<notin> set (es_visited s) \<longrightarrow> (t \<in> set ready \<longleftrightarrow> pending_edges ns (set (es_visited s)) t = 0)"
    using o by (elim conjE)
  from bspec [OF this t(1)] t(2) show "(t \<in> set ready) = (pending_edges ns (set (es_visited s)) t = 0)" by (rule mp)
qed

lemma parents_first_snoc:
  assumes "parents_first ns xs" and "\<forall>a. (a, c) \<in> wn_edges ns \<longrightarrow> a \<in> set xs"
  shows "parents_first ns (xs @ [c])"
  unfolding parents_first_def
proof (intro allI impI)
  fix us t vs a
  assume e: "xs @ [c] = us @ t # vs" and a: "(a, t) \<in> wn_edges ns"
  show "a \<in> set us"
  proof (cases vs rule: rev_cases)
    case Nil
    with e a assms(2) show ?thesis by simp
  next
    case (snoc ws w)
    with e have "xs = us @ t # ws" by simp
    with a assms(1) show ?thesis unfolding parents_first_def by blast
  qed
qed

lemma parents_first_member: "parents_first ns xs \<Longrightarrow> t \<in> set xs \<Longrightarrow> (a, t) \<in> wn_edges ns \<Longrightarrow> a \<in> set xs"
  unfolding parents_first_def by (metis Un_iff set_append split_list)

lemma release_fold:
  "\<exists>hits. fold release_child ts (q, s) = (q @ hits, s\<lparr>es_remaining := (\<lambda>t. es_remaining s t - int (count_list ts t))\<rparr>) \<and> distinct hits \<and>
     set hits = {t \<in> set ts. 0 < es_remaining s t \<and> es_remaining s t \<le> int (count_list ts t) \<and> t \<notin> set (es_visited s)}"
proof (induction ts arbitrary: q s)
  case (Cons t ts)
  let ?m = "es_remaining s t - 1"
  let ?s = "s\<lparr>es_remaining := (es_remaining s)(t := ?m)\<rparr>"
  let ?hit = "?m = 0 \<and> t \<notin> set (es_visited s)"
  let ?q = "if ?hit then q @ [t] else q"
  obtain hits where h: "fold release_child ts (?q, ?s) = (?q @ hits, ?s\<lparr>es_remaining := (\<lambda>u. es_remaining ?s u - int (count_list ts u))\<rparr>)"
      "distinct hits" "set hits = {u \<in> set ts. 0 < es_remaining ?s u \<and> es_remaining ?s u \<le> int (count_list ts u) \<and> u \<notin> set (es_visited s)}"
    using Cons.IH [of ?q ?s] by auto
  let ?hits = "if ?hit then t # hits else hits"
  have "fold release_child (t # ts) (q, s) = fold release_child ts (?q, ?s)" by (simp add: release_child_def Let_def)
  also have "\<dots> = (q @ ?hits, s\<lparr>es_remaining := (\<lambda>u. es_remaining s u - int (count_list (t # ts) u))\<rparr>)"
    unfolding h(1) by (auto simp: fun_eq_iff)
  finally have e: "fold release_child (t # ts) (q, s) = (q @ ?hits, s\<lparr>es_remaining := (\<lambda>u. es_remaining s u - int (count_list (t # ts) u))\<rparr>)" .
  have n: "t \<notin> set hits" if "?m = 0" using h(3) that by simp
  have pos: "t \<in> set ts" if "0 < ?m" "?m \<le> int (count_list ts t)" using that by (metis count_notin less_le_not_le of_nat_0)
  have st: "u \<in> set ?hits \<longleftrightarrow> u \<in> set (t # ts) \<and> 0 < es_remaining s u \<and> es_remaining s u \<le> int (count_list (t # ts) u) \<and> u \<notin> set (es_visited s)" for u
  proof (cases "u = t")
    case True
    have ht: "t \<in> set hits \<longleftrightarrow> t \<in> set ts \<and> 0 < ?m \<and> ?m \<le> int (count_list ts t) \<and> t \<notin> set (es_visited s)" using h(3) by simp
    show ?thesis
    proof (cases ?hit)
      case hit: True
      then have "es_remaining s t = 1" by simp
      with hit True show ?thesis by simp
    next
      case False
      have "t \<in> set hits \<longleftrightarrow> 0 < ?m \<and> ?m \<le> int (count_list ts t) \<and> t \<notin> set (es_visited s)" using ht pos by blast
      moreover have "0 < ?m \<longleftrightarrow> 0 < es_remaining s t" if "t \<notin> set (es_visited s)" using False that by linarith
      ultimately show ?thesis using True False by auto
    qed
  next
    case False
    then show ?thesis using h(3) by auto
  qed
  have d: "distinct ?hits" using h(2) n by auto
  have "set ?hits = {u \<in> set (t # ts). 0 < es_remaining s u \<and> es_remaining s u \<le> int (count_list (t # ts) u) \<and> u \<notin> set (es_visited s)}"
    by (rule set_eqI) (simp only: st mem_Collect_eq)
  then show ?case by (intro exI [of _ ?hits] conjI e d)
qed (simp add: fun_eq_iff)

lemma finish_order:
  assumes "order_ok ns (wn_id n # ks) s" and "distinct (map wn_id ns)" and "n \<in> set ns"
    and "\<forall>m\<in>set ns. set (wn_targets m) \<subseteq> wn_id ` set ns" and "finish_node n ks s = (ready, s')"
  shows "order_ok ns ready s'"
    and "es_visited s' = es_visited s @ [wn_id n] \<and> es_queue s' = es_queue s \<and> es_outputs s' = es_outputs s \<and> es_errors s' = es_errors s"
    and "es_nodes s' = (es_nodes s)(wn_id n := (es_nodes s (wn_id n))\<lparr>ne_state := (if ne_errors (es_nodes s (wn_id n)) = 0 then NCompleted else NPartial)\<rparr>)"
proof -
  let ?c = "wn_id n" and ?V = "set (es_visited s)"
  let ?s = "(upd_node ?c (\<lambda>e. e\<lparr>ne_state := (if ne_errors e = 0 then NCompleted else NPartial)\<rparr>) s)\<lparr>es_visited := es_visited s @ [?c]\<rparr>"
  have d: "distinct (es_visited s @ ?c # ks)" and sub: "set (es_visited s @ ?c # ks) \<subseteq> wn_id ` set ns"
    and r: "\<And>t. es_remaining s t = int (pending_edges ns ?V t)"
    and rd: "\<And>t. t \<in> wn_id ` set ns \<Longrightarrow> t \<notin> ?V \<Longrightarrow> (t \<in> set (?c # ks)) = (pending_edges ns ?V t = 0)"
    and pf: "parents_first ns (es_visited s)"
    using order_okD [OF assms(1)] by simp_all
  have c: "?c \<notin> ?V" "?c \<in> wn_id ` set ns" using d assms(3) by auto
  have pend: "pending_edges ns ?V t = pending_edges ns (insert ?c ?V) t + count_list (wn_targets n) t" for t
    by (rule pending_insert [OF assms(2,3) c(1)])
  obtain hits where h: "fold release_child (wn_targets n) (ks, ?s) =
        (ks @ hits, ?s\<lparr>es_remaining := (\<lambda>t. es_remaining ?s t - int (count_list (wn_targets n) t))\<rparr>)" "distinct hits"
      "set hits = {t \<in> set (wn_targets n). 0 < es_remaining ?s t \<and> es_remaining ?s t \<le> int (count_list (wn_targets n) t) \<and> t \<notin> set (es_visited ?s)}"
    using release_fold [of "wn_targets n" ks ?s] by blast
  have res: "ready = ks @ hits" "s' = ?s\<lparr>es_remaining := (\<lambda>t. es_remaining ?s t - int (count_list (wn_targets n) t))\<rparr>"
    using assms(5) h(1) by (simp_all add: finish_node_def)
  have s': "es_visited s' = es_visited s @ [?c]" "\<And>t. es_remaining s' t = int (pending_edges ns (insert ?c ?V) t)"
    using r pend by (simp_all add: res(2) upd_node_def)
  have hits: "t \<in> set hits \<longleftrightarrow> t \<in> set (wn_targets n) \<and> pending_edges ns (insert ?c ?V) t = 0 \<and> t \<notin> insert ?c ?V" for t
  proof (cases "t \<in> set (wn_targets n)")
    case True
    then have "0 < count_list (wn_targets n) t" by (metis count_list_0_iff gr0I)
    with True show ?thesis unfolding h(3) by (auto simp: upd_node_def r pend)
  next
    case False
    then show ?thesis unfolding h(3) by simp
  qed
  have hits_ids: "set hits \<subseteq> wn_id ` set ns" using hits assms(3,4) by blast
  have "t \<notin> set hits" if "t \<in> set ks" for t
  proof
    assume "t \<in> set hits"
    then have "t \<in> set (wn_targets n)" using hits by blast
    then have "count_list (wn_targets n) t \<noteq> 0" by (simp add: count_list_0_iff)
    moreover have "pending_edges ns ?V t = 0" using rd [of t] that sub d by auto
    ultimately show False using pend [of t] by simp
  qed
  then have "set ks \<inter> set hits = {}" by blast
  moreover have "set hits \<inter> insert ?c ?V = {}" using hits by blast
  ultimately have dist: "distinct (es_visited s' @ ready)" using d h(2) by (auto simp: s'(1) res(1))
  have par: "\<forall>a. (a, ?c) \<in> wn_edges ns \<longrightarrow> a \<in> ?V" using rd [OF c(2,1)] by (simp add: pending_zero)
  have ready: "(t \<in> set ready) = (pending_edges ns (insert ?c ?V) t = 0)" if t: "t \<in> wn_id ` set ns" "t \<notin> insert ?c ?V" for t
  proof (cases "t \<in> set (wn_targets n)")
    case True
    then have "count_list (wn_targets n) t \<noteq> 0" by (simp add: count_list_0_iff)
    then have "t \<notin> set ks" using rd [of t] t pend [of t] by auto
    with hits True t show ?thesis by (simp add: res(1))
  next
    case False
    then have "pending_edges ns ?V t = pending_edges ns (insert ?c ?V) t" using pend [of t] by simp
    then show ?thesis using rd [of t] t False hits by (auto simp: res(1))
  qed
  show "order_ok ns ready s'"
    unfolding order_ok_def
  proof (intro conjI)
    show "distinct (es_visited s' @ ready)" by (rule dist)
    show "set (es_visited s' @ ready) \<subseteq> wn_id ` set ns" using sub hits_ids by (auto simp: s' res(1))
    show "\<forall>t. es_remaining s' t = int (pending_edges ns (set (es_visited s')) t)" using s'(2) by (simp add: s'(1))
    show "\<forall>t\<in>wn_id ` set ns. t \<notin> set (es_visited s') \<longrightarrow> (t \<in> set ready) = (pending_edges ns (set (es_visited s')) t = 0)"
      using ready by (simp add: s'(1))
    show "parents_first ns (es_visited s')" unfolding s'(1) by (rule parents_first_snoc [OF pf par])
  qed
  show "es_visited s' = es_visited s @ [?c] \<and> es_queue s' = es_queue s \<and> es_outputs s' = es_outputs s \<and> es_errors s' = es_errors s"
    using s'(1) by (simp add: res(2) upd_node_def)
  show "es_nodes s' = (es_nodes s)(?c := (es_nodes s ?c)\<lparr>ne_state := (if ne_errors (es_nodes s ?c) = 0 then NCompleted else NPartial)\<rparr>)"
    by (simp add: res(2) upd_node_def)
qed

section \<open>All nodes\<close>

text \<open>A visited node has nothing left to read and says whether it failed on an item.\<close>

definition visited_ok :: "engine_state \<Rightarrow> bool" where
  "visited_ok s \<longleftrightarrow> (\<forall>k\<in>set (es_visited s). es_queue s k = [] \<and>
     ne_state (es_nodes s k) = (if ne_errors (es_nodes s k) = 0 then NCompleted else NPartial))"

definition runnable :: "wf_engine \<Rightarrow> wnode list \<Rightarrow> bool" where
  "runnable we ns \<longleftrightarrow> distinct (map wn_id ns) \<and> (\<forall>n\<in>set ns. set (wn_targets n) \<subseteq> wn_id ` set ns \<and> we_handlers we (wn_kind n) \<noteq> None)"

lemma node_of_some: "distinct (map wn_id ns) \<Longrightarrow> n \<in> set ns \<Longrightarrow> node_of ns (wn_id n) = Some n"
  by (induction ns) (auto simp: node_of_def image_iff)

lemma ready_parents: "order_ok ns (c # ks) s \<Longrightarrow> (a, c) \<in> wn_edges ns \<Longrightarrow> a \<in> set (es_visited s)"
  using order_okD(1,2) [of ns "c # ks" s] order_okD(4) [of ns "c # ks" s c] by (simp add: pending_zero)

lemma order_token: "token_checkpoint s = Inr s' \<Longrightarrow> order_ok ns ready s \<Longrightarrow> order_ok ns ready s'"
  by (simp add: order_ok_def token_fields)

lemma order_frame:
  "es_remaining s' = es_remaining s \<Longrightarrow> es_visited s' = es_visited s \<Longrightarrow> order_ok ns ready s \<Longrightarrow> order_ok ns ready s'"
  by (simp add: order_ok_def)

definition run_good :: "wf_engine \<Rightarrow> wnode list \<Rightarrow> (pystr \<Rightarrow> nat) \<Rightarrow> pystr list \<Rightarrow> engine_state \<Rightarrow> bool" where
  "run_good we ns fed ready s \<longleftrightarrow> order_ok ns ready s \<and> flow_ok ns fed (we_buffer we) s \<and> visited_ok s"

lemma visit_good:
  assumes "runnable we ns" and "run_good we ns fed (k # ks) s" and "token_checkpoint s = Inr s0" and "node_of ns k = Some n"
    and "n \<in> set ns" and "wn_id n = k" and "drain_node we h n (upd_node k (\<lambda>e. e\<lparr>ne_state := NRunning\<rparr>) s0) = Some (Inr s1)"
    and "finish_node n ks s1 = (ready, s2)"
  shows "run_good we ns fed ready s2 \<and> es_visited s2 = es_visited s @ [k]"
proof -
  let ?r = "upd_node k (\<lambda>e. e\<lparr>ne_state := NRunning\<rparr>) s0"
  have g: "order_ok ns (k # ks) s" "flow_ok ns fed (we_buffer we) s" "visited_ok s" using assms(2) by (simp_all add: run_good_def)
  have d: "distinct (map wn_id ns)" and cl: "\<forall>m\<in>set ns. set (wn_targets m) \<subseteq> wn_id ` set ns" using assms(1) by (simp_all add: runnable_def)
  have kv: "k \<notin> set (es_visited s)" using order_okD(1) [OF g(1)] by simp
  have edge: "t \<in> set (wn_targets n) \<Longrightarrow> (k, t) \<in> wn_edges ns" for t using assms(5,6) by (auto simp: wn_edges_def)
  have self: "wn_id n \<notin> set (wn_targets n)" using edge ready_parents [OF g(1), of k] kv assms(6) by blast
  have r: "flow_ok ns fed (we_buffer we) ?r"
    by (rule flow_cong [of ?r s0]) (simp_all add: upd_node_def token_flow [OF assms(3) g(2)])
  obtain res where dr: "drain_node we h n ?r = Some res" and eff: "\<forall>s'. res = Inr s' \<longrightarrow>
      flow_ok ns fed (we_buffer we) s' \<and> es_queue s' (wn_id n) = [] \<and> es_remaining s' = es_remaining ?r \<and> es_visited s' = es_visited ?r \<and>
      (\<forall>k. k \<notin> set (wn_targets n) \<and> k \<noteq> wn_id n \<longrightarrow> es_queue s' k = es_queue ?r k) \<and>
      (\<forall>k. k \<noteq> wn_id n \<longrightarrow> es_nodes s' k = es_nodes ?r k)"
    using drain_effect [OF r d assms(5) self, of h] by blast
  have res: "res = Inr s1" using dr assms(7) by simp
  have s1: "flow_ok ns fed (we_buffer we) s1" "es_queue s1 k = []" "es_remaining s1 = es_remaining s" "es_visited s1 = es_visited s"
    "\<And>j. j \<notin> set (wn_targets n) \<Longrightarrow> j \<noteq> k \<Longrightarrow> es_queue s1 j = es_queue s j" "\<And>j. j \<noteq> k \<Longrightarrow> es_nodes s1 j = es_nodes s j"
    using eff res token_fields [OF assms(3)] assms(6) by (auto simp: upd_node_def)
  have o1: "order_ok ns (wn_id n # ks) s1" using order_frame [OF s1(3,4) g(1)] assms(6) by simp
  note f = finish_order [OF o1 d assms(5) cl assms(8)]
  have fl: "flow_ok ns fed (we_buffer we) s2"
    by (rule flow_cong [of s2 s1]) (use f(2,3) s1(1) in simp_all)
  have vis: "j \<notin> set (wn_targets n)" if "j \<in> set (es_visited s)" for j
    using parents_first_member [OF order_okD(5) [OF g(1)] that] edge kv by blast
  have "visited_ok s2"
    unfolding visited_ok_def
  proof
    fix j assume "j \<in> set (es_visited s2)"
    then consider "j = k" | "j \<in> set (es_visited s)" "j \<noteq> k" using f(2) s1(4) assms(6) kv by auto
    then show "es_queue s2 j = [] \<and> ne_state (es_nodes s2 j) = (if ne_errors (es_nodes s2 j) = 0 then NCompleted else NPartial)"
    proof cases
      case 1
      then show ?thesis using f(2,3) s1(2) assms(6) by simp
    next
      case 2
      then have "es_queue s2 j = es_queue s j" "es_nodes s2 j = es_nodes s j"
        using f(2,3) s1(5,6) vis [of j] assms(6) by simp_all
      with 2 g(3) show ?thesis by (simp add: visited_ok_def)
    qed
  qed
  with f(1,2) fl s1(4) assms(6) show ?thesis by (simp add: run_good_def)
qed

lemma run_ready_good:
  assumes "runnable we ns" and "run_good we ns fed ready s"
  shows "\<exists>res. run_ready we ns ready s = Some res \<and> (\<forall>x. res = Inl x \<longrightarrow> x = run_cancelled \<or> is_buffer_limit x) \<and>
    (\<forall>s'. res = Inr s' \<longrightarrow> run_good we ns fed [] s')"
  using assms(2)
proof (induction "length ns - length (es_visited s)" arbitrary: ready s rule: less_induct)
  case less
  show ?case
  proof (cases ready)
    case Nil
    then show ?thesis using less.prems by (simp add: run_ready.simps [of we ns "[]" s])
  next
    case (Cons k ks)
    note g = less.prems [unfolded Cons]
    have o: "order_ok ns (k # ks) s" using g by (simp add: run_good_def)
    obtain n where n: "n \<in> set ns" "wn_id n = k" using order_okD(2) [OF o] by auto
    have no: "node_of ns k = Some n" using node_of_some [of ns n] n assms(1) by (simp add: runnable_def)
    obtain h where h: "we_handlers we (wn_kind n) = Some h" using assms(1) n(1) by (auto simp: runnable_def)
    show ?thesis
    proof (cases "token_checkpoint s")
      case (Inl x)
      then show ?thesis using token_error [OF Inl] by (simp add: run_ready.simps [of we ns "k # ks" s] Cons)
    next
      case (Inr s0)
      let ?r = "upd_node k (\<lambda>e. e\<lparr>ne_state := NRunning\<rparr>) s0"
      have step: "run_ready we ns ready s = (case drain_node we h n ?r of None \<Rightarrow> None | Some (Inl x) \<Rightarrow> Some (Inl x)
          | Some (Inr s1) \<Rightarrow> (case finish_node n ks s1 of (ready1, s2) \<Rightarrow> run_ready we ns ready1 s2))"
        by (subst run_ready.simps) (simp add: Cons Inr no h)
      have r: "flow_ok ns fed (we_buffer we) ?r"
        by (rule flow_cong [of ?r s0]) (use g token_flow [OF Inr] in \<open>simp_all add: upd_node_def run_good_def\<close>)
      have self: "wn_id n \<notin> set (wn_targets n)"
        using ready_parents [OF o, of k] order_okD(1) [OF o] n by (auto simp: wn_edges_def)
      obtain res where dr: "drain_node we h n ?r = Some res" "\<forall>x. res = Inl x \<longrightarrow> x = run_cancelled \<or> is_buffer_limit x"
        using drain_effect [OF r _ n(1) self, of h] assms(1) unfolding runnable_def by blast
      show ?thesis
      proof (cases res)
        case (Inl x)
        with dr step show ?thesis by simp
      next
        case dn: (Inr s1)
        obtain ready1 s2 where f: "finish_node n ks s1 = (ready1, s2)" by fastforce
        have v: "run_good we ns fed ready1 s2" "es_visited s2 = es_visited s @ [k]"
          using visit_good [OF assms(1) g Inr no n _ f, of h] dr(1) dn by simp_all
        have "length (es_visited s) < length ns"
        proof -
          have "set (es_visited s) \<subset> wn_id ` set ns" using order_okD(1,2) [OF o] by auto
          then have "card (set (es_visited s)) < card (wn_id ` set ns)" by (intro psubset_card_mono) simp_all
          then show ?thesis using order_okD(1) [OF o] card_image_le [of "set ns" wn_id] card_length [of ns] by (simp add: distinct_card)
        qed
        then have "length ns - length (es_visited s2) < length ns - length (es_visited s)" using v(2) by simp
        from less.hyps [OF this v(1)] show ?thesis using step dr(1) dn f by simp
      qed
    qed
  qed
qed

end
