(* ===== verification/WorkflowExecution.thy ===== *)
theory WorkflowExecution
  imports WorkflowDataflow
begin

text \<open>
  Whole executions of the workflow engine: they always end, a result accounts for every item, cycles are found exactly, and
  the lifecycles of the handlers are balanced. The example is a workflow that filters and validates.
\<close>

section \<open>The start\<close>

definition fed_roots :: "wnode list \<Rightarrow> json list \<Rightarrow> pystr \<Rightarrow> nat" where
  "fed_roots ns inputs k = (if k \<in> set (root_nodes ns) then length inputs else 0)"

lemma count_distinct: "distinct xs \<Longrightarrow> count_list xs k = (if k \<in> set xs then 1 else 0)"
  by (induction xs) auto

lemma feed_effect:
  assumes "efold (feed_input b roots) inputs s = Inr s'" and "distinct roots"
  shows "es_nodes s' = es_nodes s \<and> es_outputs s' = es_outputs s \<and> es_errors s' = es_errors s \<and> es_remaining s' = es_remaining s \<and>
    es_visited s' = es_visited s \<and> (\<forall>k. length (es_queue s' k) = length (es_queue s k) + (if k \<in> set roots then length inputs else 0)) \<and>
    ((\<forall>k. length (es_queue s k) \<le> b) \<longrightarrow> (\<forall>k. length (es_queue s' k) \<le> b))"
  using assms(1)
proof (induction inputs arbitrary: s)
  case (Cons v vs)
  then obtain s1 where s1: "send_all b v roots s = Inr s1" and r: "efold (feed_input b roots) vs s1 = Inr s'"
    by (auto simp: feed_input_def [of b roots v s] split: if_splits)
  have c: "count_list roots k = (if k \<in> set roots then 1 else 0)" for k
    using assms(2) by (rule count_distinct)
  note e = send_all_effect [OF s1]
  have l: "length (es_queue s1 k) = length (es_queue s k) + (if k \<in> set roots then 1 else 0)" for k by (simp add: e(1) c)
  have f: "es_nodes s1 = es_nodes s" "es_outputs s1 = es_outputs s" "es_errors s1 = es_errors s" "es_remaining s1 = es_remaining s"
      "es_visited s1 = es_visited s" by (simp_all add: e(1))
  note ih = Cons.IH [OF r]
  have q: "\<forall>k. length (es_queue s' k) = length (es_queue s k) + (if k \<in> set roots then length (v # vs) else 0)" using ih l by simp
  have b: "(\<forall>k. length (es_queue s k) \<le> b) \<longrightarrow> (\<forall>k. length (es_queue s' k) \<le> b)" using ih e(2) by blast
  show ?case by (intro conjI q b) (use ih f in simp_all)
qed simp

lemma feed_error: "efold (feed_input b roots) inputs s = Inl x \<Longrightarrow> x = wf_fail ''WORKFLOW_INPUT_INVALID'' \<or> x = buffer_limit"
  by (induction inputs arbitrary: s) (auto simp: feed_input_def ebind_Inl_iff dest: send_all_error split: if_splits)

lemma root_set: "set (root_nodes ns) = {t \<in> wn_id ` set ns. indegree ns t = 0}"
  by (auto simp: root_nodes_def)

lemma start_order:
  assumes "distinct (map wn_id ns)"
  shows "order_ok ns (root_nodes ns) (first_state ns token)"
  unfolding order_ok_def
proof (intro conjI)
  have "distinct (root_nodes ns)" using assms unfolding root_nodes_def by (rule distinct_map_filter)
  then show "distinct (es_visited (first_state ns token) @ root_nodes ns)" by (simp add: first_state_def)
qed (auto simp: first_state_def root_set pending_none parents_first_def)

lemma start_good:
  assumes "distinct (map wn_id ns)" and "efold (feed_input (we_buffer we) (root_nodes ns)) inputs (first_state ns token) = Inr s"
  shows "run_good we ns (fed_roots ns inputs) (root_nodes ns) s"
proof -
  let ?f = "first_state ns token"
  have dr: "distinct (root_nodes ns)" using assms(1) unfolding root_nodes_def by (rule distinct_map_filter)
  note e = feed_effect [OF assms(2) dr]
  have q: "length (es_queue s k) = fed_roots ns inputs k" for k using e by (simp add: first_state_def fed_roots_def)
  have z: "es_nodes s k = \<lparr>ne_input = 0, ne_output = 0, ne_errors = 0, ne_state = NPending\<rparr>" for k using e by (simp add: first_state_def)
  have "sent_to ns s k = 0" for k by (simp add: sent_to_def sent_by_def z)
  moreover have "ended_by n (es_nodes s k) = 0" for n k by (simp add: ended_by_def z)
  then have "terminal_outputs ns s = 0" "node_failures ns s = 0" by (simp_all add: terminal_outputs_def node_failures_def z)
  moreover have "es_outputs s = []" "es_errors s = []" using e by (simp_all add: first_state_def)
  moreover have "\<forall>k. length (es_queue ?f k) \<le> we_buffer we" by (simp add: first_state_def)
  then have "\<forall>k. length (es_queue s k) \<le> we_buffer we" using e by blast
  ultimately have "flow_ok ns (fed_roots ns inputs) (we_buffer we) s" by (simp add: flow_ok_def bounded_state_def z q)
  moreover have "order_ok ns (root_nodes ns) s" by (rule order_frame [OF _ _ start_order [OF assms(1)]]) (use e in auto)
  moreover have "visited_ok s" using e by (simp add: visited_ok_def first_state_def)
  ultimately show ?thesis by (simp add: run_good_def)
qed

section \<open>The end\<close>

lemma edges_in_nodes: "\<forall>m\<in>set ns. set (wn_targets m) \<subseteq> wn_id ` set ns \<Longrightarrow> wn_edges ns \<subseteq> wn_id ` set ns \<times> wn_id ` set ns"
  by (auto simp: wn_edges_def)

lemma parents_firstD: "parents_first ns xs \<Longrightarrow> xs = us @ t # vs \<Longrightarrow> (a, t) \<in> wn_edges ns \<Longrightarrow> a \<in> set us"
  unfolding parents_first_def by simp

lemma visited_grounded:
  assumes "parents_first ns xs" and "t \<in> set xs"
  shows "grounded (wn_edges ns) t"
  using assms
proof (induction xs arbitrary: t rule: rev_induct)
  case (snoc x xs)
  have pf: "parents_first ns xs"
    unfolding parents_first_def
  proof (intro allI impI)
    fix us u vs a assume "xs = us @ u # vs" and a: "(a, u) \<in> wn_edges ns"
    then have "xs @ [x] = us @ u # (vs @ [x])" by simp
    then show "a \<in> set us" by (rule parents_firstD [OF snoc.prems(1) _ a])
  qed
  show ?case
  proof (cases "t \<in> set xs")
    case True
    then show ?thesis using snoc.IH [OF pf] by simp
  next
    case False
    then have "t = x" using snoc.prems(2) by simp
    then have e: "xs @ [x] = xs @ t # []" by simp
    show ?thesis
    proof (rule grounded.intros)
      fix a assume "(a, t) \<in> wn_edges ns"
      from parents_firstD [OF snoc.prems(1) e this] show "grounded (wn_edges ns) a" by (rule snoc.IH [OF pf])
    qed
  qed
qed simp

lemma all_visited_acyclic:
  assumes "parents_first ns xs" and "wn_id ` set ns \<subseteq> set xs" and "\<forall>m\<in>set ns. set (wn_targets m) \<subseteq> wn_id ` set ns"
  shows "acyclic (wn_edges ns)"
proof (rule acyclicI, intro allI notI)
  fix b assume b: "(b, b) \<in> (wn_edges ns)\<^sup>+"
  then obtain a where "(b, a) \<in> wn_edges ns" by (meson tranclD)
  then have "b \<in> set xs" using edges_in_nodes [OF assms(3)] assms(2) by blast
  then show False using visited_grounded [OF assms(1)] grounded_no_cycle b by blast
qed

lemma acyclic_all_visited:
  assumes "order_ok ns [] s" and "acyclic (wn_edges ns)" and "\<forall>m\<in>set ns. set (wn_targets m) \<subseteq> wn_id ` set ns"
  shows "set (es_visited s) = wn_id ` set ns"
proof -
  have fin: "finite (wn_edges ns)" by (rule finite_subset [OF edges_in_nodes [OF assms(3)]]) simp
  have "t \<in> wn_id ` set ns \<longrightarrow> t \<in> set (es_visited s)" for t
    using acyclic_grounded [OF fin assms(2), of t]
  proof (induction rule: grounded.induct)
    case (1 b)
    show ?case
    proof (rule impI, rule ccontr)
      assume b: "b \<in> wn_id ` set ns" "b \<notin> set (es_visited s)"
      then have "pending_edges ns (set (es_visited s)) b \<noteq> 0" using order_okD(4) [OF assms(1) b] by simp
      then obtain a where "(a, b) \<in> wn_edges ns" "a \<notin> set (es_visited s)" unfolding pending_zero by blast
      with 1 edges_in_nodes [OF assms(3)] show False by blast
    qed
  qed
  then show ?thesis using order_okD(2) [OF assms(1)] by auto
qed

lemma visited_count:
  assumes "order_ok ns [] s" and "distinct (map wn_id ns)"
  shows "length (es_visited s) = length ns \<longleftrightarrow> set (es_visited s) = wn_id ` set ns"
proof -
  have d: "distinct (es_visited s)" and sub: "set (es_visited s) \<subseteq> wn_id ` set ns" using order_okD(1,2) [OF assms(1)] by simp_all
  have n: "card (wn_id ` set ns) = length ns" using assms(2) by (metis distinct_card length_map list.set_map)
  have l: "card (set (es_visited s)) = length (es_visited s)" using d by (rule distinct_card)
  show ?thesis
  proof
    assume "length (es_visited s) = length ns"
    then show "set (es_visited s) = wn_id ` set ns" using sub n l by (intro card_subset_eq) simp_all
  next
    assume "set (es_visited s) = wn_id ` set ns"
    then show "length (es_visited s) = length ns" using n l by simp
  qed
qed

definition cycle_found :: exc where
  "cycle_found = wf_fail ''WORKFLOW_CYCLE''"

lemma body_good:
  assumes "runnable we ns" and "ns \<noteq> []"
  shows "\<exists>res. execute_body we ns inputs token = Some res \<and>
    (\<forall>s. res = Inr s \<longrightarrow> run_good we ns (fed_roots ns inputs) [] s \<and> set (es_visited s) = wn_id ` set ns) \<and>
    (acyclic (wn_edges ns) \<longrightarrow> res \<noteq> Inl cycle_found)"
proof -
  have d: "distinct (map wn_id ns)" and cl: "\<forall>m\<in>set ns. set (wn_targets m) \<subseteq> wn_id ` set ns" using assms(1) by (simp_all add: runnable_def)
  have nb: "\<not> is_buffer_limit cycle_found" "run_cancelled \<noteq> cycle_found" "wf_fail ''WORKFLOW_INPUT_INVALID'' \<noteq> cycle_found" "buffer_limit \<noteq> cycle_found"
    by (simp_all add: is_buffer_limit_def cycle_found_def wf_fail_def run_cancelled_def buffer_limit_def)
  show ?thesis
  proof (cases "root_nodes ns = []")
    case True
    have "\<not> acyclic (wn_edges ns)"
    proof
      assume "acyclic (wn_edges ns)"
      then have "set (es_visited (first_state ns token)) = wn_id ` set ns"
        using acyclic_all_visited [OF _ _ cl] start_order [OF d, of token] True by simp
      then show False using assms(2) by (simp add: first_state_def)
    qed
    then show ?thesis using True by (simp add: execute_body_def Let_def)
  next
    case False
    show ?thesis
    proof (cases "efold (feed_input (we_buffer we) (root_nodes ns)) inputs (first_state ns token)")
      case (Inl x)
      then show ?thesis using False feed_error [OF Inl] nb by (auto simp: execute_body_def Let_def)
    next
      case (Inr s0)
      obtain res where r: "run_ready we ns (root_nodes ns) s0 = Some res" "\<forall>x. res = Inl x \<longrightarrow> x = run_cancelled \<or> is_buffer_limit x"
          "\<forall>s'. res = Inr s' \<longrightarrow> run_good we ns (fed_roots ns inputs) [] s'"
        using run_ready_good [OF assms(1) start_good [OF d Inr]] by blast
      show ?thesis
      proof (cases res)
        case (Inl x)
        then show ?thesis using False Inr r(1,2) nb by (auto simp: execute_body_def Let_def)
      next
        case ok: (Inr s1)
        then have g: "run_good we ns (fed_roots ns inputs) [] s1" using r(3) by blast
        then have o: "order_ok ns [] s1" by (simp add: run_good_def)
        have e: "execute_body we ns inputs token = Some (if length (es_visited s1) \<noteq> length ns then Inl cycle_found else Inr s1)"
          using False Inr r(1) ok by (simp add: execute_body_def Let_def cycle_found_def)
        show ?thesis
        proof (cases "length (es_visited s1) = length ns")
          case True
          then show ?thesis using e g visited_count [OF o d] by simp
        next
          case False
          then have "\<not> acyclic (wn_edges ns)" using visited_count [OF o d] acyclic_all_visited [OF o _ cl] by blast
          with e False show ?thesis by simp
        qed
      qed
    qed
  qed
qed

lemma contract_runnable:
  assumes "validate_workflow_contract (Some (\<lambda>k. \<not> Option.is_none (we_handlers we k))) True ns = Inr ()"
  shows "runnable we ns \<and> ns \<noteq> []"
  using contract_ok [OF assms] node_has_handler [of "\<lambda>k. \<not> Option.is_none (we_handlers we k)" True]
  by (auto simp: runnable_def Option.is_none_def)

lemma contract_error:
  assumes "validate_workflow_contract registered ext ns = Inl x"
  shows "x \<noteq> cycle_found"
proof -
  have one: "validate_workflow_node registered ext n = Inl x \<Longrightarrow> x \<noteq> cycle_found" for n
    by (auto simp: validate_workflow_node_def cycle_found_def wf_fail_def require_def split: if_splits)
  have dup: "wf_fail ''WORKFLOW_NODE_DUPLICATE'' \<noteq> cycle_found" "wf_fail ''WORKFLOW_EMPTY'' \<noteq> cycle_found"
      "wf_fail ''WORKFLOW_NODE_MISSING'' \<noteq> cycle_found" by (simp_all add: cycle_found_def wf_fail_def)
  have all: "validate_nodes registered ext ids ms = Inl x \<Longrightarrow> x \<noteq> cycle_found" for ids ms
  proof (induction ms arbitrary: ids)
    case (Cons m ms)
    then show ?case using one [of m] dup by (auto simp: ebind_Inl_iff split: if_splits)
  qed simp
  show ?thesis
  proof (cases "ns = []")
    case True
    with assms dup(2) show ?thesis by (auto simp: validate_workflow_contract_def)
  next
    case False
    with assms have "validate_nodes registered ext {} ns = Inl x \<or> x = wf_fail ''WORKFLOW_NODE_MISSING''"
      unfolding validate_workflow_contract_def require_def by (cases "validate_nodes registered ext {} ns") (simp_all split: if_splits)
    with all [of "{}" ns] dup(3) show ?thesis by auto
  qed
qed

lemma execute_result:
  assumes "execute_workflow we life ns inputs token = Some (Inr s, events)"
  shows "runnable we ns" and "run_good we ns (fed_roots ns inputs) [] s" and "set (es_visited s) = wn_id ` set ns"
proof -
  have v: "validate_workflow_contract (Some (\<lambda>k. \<not> Option.is_none (we_handlers we k))) True ns = Inr ()"
    and b: "execute_body we ns inputs token = Some (Inr s)"
    using assms by (auto simp: execute_workflow_def split: sum.splits prod.splits option.splits)
  show "runnable we ns" using contract_runnable [OF v] by simp
  show "run_good we ns (fed_roots ns inputs) [] s" "set (es_visited s) = wn_id ` set ns"
    using body_good [of we ns inputs token] contract_runnable [OF v] b by auto
qed

section \<open>The lifecycles\<close>

lemma end_all_clean: "\<forall>l\<in>set ls. lc_end l = None \<Longrightarrow> end_all ls = (ls, None)"
  by (induction ls) auto

lemma begin_all_prefix: "begin_all ls = (started, bad) \<Longrightarrow> \<exists>rest. ls = started @ rest \<and> (bad = None \<longrightarrow> rest = [])"
proof (induction ls arbitrary: started)
  case (Cons l ls)
  obtain st x where b: "begin_all ls = (st, x)" by fastforce
  show ?case
  proof (cases "lc_begin l")
    case None
    with Cons.prems b have "started = l # st" "bad = x" by auto
    with Cons.IH b show ?thesis by auto
  next
    case (Some a)
    with Cons.prems have "started = []" "bad = Some a" by auto
    then show ?thesis by simp
  qed
qed simp

lemma lifecycles_once:
  "distinct (map lc_identity (lifecycle_handlers life seen ns)) \<and> lc_identity ` set (lifecycle_handlers life seen ns) \<inter> set seen = {}"
proof (induction ns arbitrary: seen)
  case (Cons n ns)
  show ?case
  proof (cases "life (wn_kind n)")
    case None
    then show ?thesis using Cons.IH by simp
  next
    case (Some l)
    show ?thesis
    proof (cases "lc_identity l \<in> set seen")
      case True
      then show ?thesis using Some Cons.IH by simp
    next
      case False
      then show ?thesis using Some Cons.IH [of "lc_identity l # seen"] by auto
    qed
  qed
qed simp

lemma lifecycles_from: "l \<in> set (lifecycle_handlers life seen ns) \<Longrightarrow> \<exists>k. life k = Some l"
  by (induction ns arbitrary: seen) (auto split: option.splits if_splits)

lemma begin_all_raises: "begin_all ls = (started, Some x) \<Longrightarrow> \<exists>l\<in>set ls. lc_begin l = Some x"
proof (induction ls arbitrary: started)
  case (Cons l ls)
  then show ?case by (cases "lc_begin l"; cases "begin_all ls") auto
qed simp

lemma end_all_raises: "end_all ls = (ended, Some x) \<Longrightarrow> \<exists>l\<in>set ls. lc_end l = Some x"
proof (induction ls arbitrary: ended)
  case (Cons l ls)
  then show ?case by (cases "lc_end l"; cases "end_all ls") auto
qed simp

text \<open>An execution ends, and finds a cycle only where there is one.\<close>

lemma execute_ends:
  assumes "\<And>k l. life k = Some l \<Longrightarrow> lc_begin l \<noteq> Some cycle_found \<and> lc_end l \<noteq> Some cycle_found"
  shows "\<exists>res events. execute_workflow we life ns inputs token = Some (res, events) \<and> (acyclic (wn_edges ns) \<longrightarrow> res \<noteq> Inl cycle_found)"
proof (cases "validate_workflow_contract (Some (\<lambda>k. \<not> Option.is_none (we_handlers we k))) True ns")
  case (Inl x)
  then show ?thesis using contract_error [OF Inl] by (simp add: execute_workflow_def)
next
  case (Inr u)
  then have run: "runnable we ns" "ns \<noteq> []" using contract_runnable by simp_all
  obtain started bad where b: "begin_all (lifecycle_handlers life [] ns) = (started, bad)" by fastforce
  obtain ended late where e: "end_all (rev started) = (ended, late)" by fastforce
  obtain body where body: "execute_body we ns inputs token = Some body" "acyclic (wn_edges ns) \<longrightarrow> body \<noteq> Inl cycle_found"
    using body_good [OF run] by blast
  have bad: "bad \<noteq> Some cycle_found" using begin_all_raises b assms lifecycles_from by metis
  have late: "late \<noteq> Some cycle_found"
  proof
    assume "late = Some cycle_found"
    with e obtain l where l: "l \<in> set started" "lc_end l = Some cycle_found" using end_all_raises by fastforce
    have "l \<in> set (lifecycle_handlers life [] ns)" using begin_all_prefix [OF b] l(1) by auto
    then show False using assms lifecycles_from l(2) by blast
  qed
  show ?thesis
  proof (cases bad)
    case None
    with Inr b e body late show ?thesis by (cases late) (simp_all add: execute_workflow_def)
  next
    case (Some x)
    with Inr b e bad late show ?thesis by (cases late) (simp_all add: execute_workflow_def)
  qed
qed

section \<open>An example\<close>

definition demo_env :: var_env where
  "demo_env = \<lparr>ve_scopes = [(''run'', [(''field'', JStr ''a'')])], ve_secret = None, ve_show = (\<lambda>_. [])\<rparr>"

definition demo_engine :: wf_engine where
  "demo_engine = \<lparr>we_buffer = 3, we_handlers = builtin_handler (\<lambda>_. []), we_env = demo_env\<rparr>"

text \<open>A source sends every record twice to a validation of the field a variable names.\<close>

definition demo_nodes :: "wnode list" where
  "demo_nodes =
     [\<lparr>wn_id = ''s'', wn_kind = ''source'', wn_config = JObj [], wn_next = [''v'', ''v''], wn_failure = []\<rparr>,
      \<lparr>wn_id = ''v'', wn_kind = ''validate'', wn_config = JObj [(''required'', JArr [JStr ''${run.field}''])], wn_next = [], wn_failure = []\<rparr>]"

definition demo_result :: "((exc + engine_state) \<times> lifecycle_event list) option" where
  "demo_result = execute_workflow demo_engine (\<lambda>_. None) demo_nodes [JObj [(''a'', JInt 1)]] None"

lemma demo_contract: "validate_workflow_contract (Some (\<lambda>k. \<not> Option.is_none (we_handlers demo_engine k))) True demo_nodes = Inr ()"
  by code_simp

lemma demo_variable: "resolve_text demo_env ''${run.field}'' = Inr ''a''"
  by code_simp

lemma demo_roots: "root_nodes demo_nodes = [''s'']"
  by (simp add: root_nodes_def demo_nodes_def indegree_def wn_targets_def)

lemma demo_executes: "\<exists>s. execute_body demo_engine demo_nodes [JObj [(''a'', JInt 1)]] None = Some (Inr s) \<and> ne_input (es_nodes s ''v'') = 2"
  by (simp add: execute_body_def demo_roots Let_def feed_input_def send_all_def append_bounded_def first_state_def is_mapping_def demo_engine_def)
     (simp add: run_ready.simps drain_node.simps token_checkpoint_def node_of_def demo_nodes_def upd_node_def builtin_handler_def pass_handler_def
        demo_engine_def process_item_def emit_all.simps send_all_def append_bounded_def append_terminal_def is_mapping_def finish_node_def
        release_child_def wn_targets_def indegree_def Let_def demo_variable validate_handler_def members_def config_get_def texts_of_def is_hashable_def)

lemma demo_returns: "\<exists>s. demo_result = Some (Inr s, [])"
proof -
  have "lifecycle_handlers (\<lambda>_. None) [] demo_nodes = []" by (simp add: demo_nodes_def)
  then show ?thesis using demo_executes by (auto simp: demo_result_def execute_workflow_def demo_contract)
qed

section \<open>No item is lost\<close>

text \<open>C11: An execution that returns accounts for every item. Each node has read exactly the inputs, if it is a root, and what its
  parents sent it: their outputs once for every next edge, their failed items once for every failure edge. Nothing is left in a
  buffer, the outputs of the execution are those of the nodes without a successor, there is one error row for every failed item,
  a node is complete exactly if no item failed in it, and no buffer has ever held more than its limit at the end of a step.\<close>

theorem items_conserved:
  assumes "execute_workflow we life ns inputs token = Some (Inr s, events)" and "n \<in> set ns"
  shows "ne_input (es_nodes s (wn_id n)) = (if indegree ns (wn_id n) = 0 then length inputs else 0) +
      (\<Sum>m\<leftarrow>ns. count_list (wn_next m) (wn_id n) * ne_output (es_nodes s (wn_id m)) +
                count_list (wn_failure m) (wn_id n) * ne_errors (es_nodes s (wn_id m))) \<and>
    es_queue s (wn_id n) = [] \<and>
    ne_state (es_nodes s (wn_id n)) = (if ne_errors (es_nodes s (wn_id n)) = 0 then NCompleted else NPartial) \<and>
    length (es_outputs s) = (\<Sum>m\<leftarrow>filter (\<lambda>m. wn_next m = []) ns. ne_output (es_nodes s (wn_id m))) \<and>
    length (es_errors s) = (\<Sum>m\<leftarrow>ns. ne_errors (es_nodes s (wn_id m))) \<and>
    length (es_outputs s) \<le> we_buffer we \<and> length (es_errors s) \<le> we_buffer we"
proof -
  note r = execute_result [OF assms(1)]
  from r(2) have f: "flow_ok ns (fed_roots ns inputs) (we_buffer we) s" and v: "visited_ok s" by (simp_all add: run_good_def)
  have m: "wn_id n \<in> set (es_visited s)" using r(3) assms(2) by simp
  have q: "es_queue s (wn_id n) = []"
    and st: "ne_state (es_nodes s (wn_id n)) = (if ne_errors (es_nodes s (wn_id n)) = 0 then NCompleted else NPartial)"
    using v m by (simp_all add: visited_ok_def)
  have fed: "fed_roots ns inputs (wn_id n) = (if indegree ns (wn_id n) = 0 then length inputs else 0)"
    using assms(2) by (simp add: fed_roots_def root_set)
  have "ne_input (es_nodes s (wn_id n)) + length (es_queue s (wn_id n)) = fed_roots ns inputs (wn_id n) + sent_to ns s (wn_id n)"
    using f by (simp add: flow_ok_def)
  then have inp: "ne_input (es_nodes s (wn_id n)) = (if indegree ns (wn_id n) = 0 then length inputs else 0) +
      (\<Sum>m\<leftarrow>ns. count_list (wn_next m) (wn_id n) * ne_output (es_nodes s (wn_id m)) +
                count_list (wn_failure m) (wn_id n) * ne_errors (es_nodes s (wn_id m)))"
    unfolding q fed sent_to_def sent_by_def by simp
  have "terminal_outputs ms s = (\<Sum>m\<leftarrow>filter (\<lambda>m. wn_next m = []) ms. ne_output (es_nodes s (wn_id m)))" for ms
    by (induction ms) (simp_all add: terminal_outputs_def ended_by_def)
  then have out: "length (es_outputs s) = (\<Sum>m\<leftarrow>filter (\<lambda>m. wn_next m = []) ns. ne_output (es_nodes s (wn_id m)))"
    using f by (simp add: flow_ok_def)
  have err: "length (es_errors s) = (\<Sum>m\<leftarrow>ns. ne_errors (es_nodes s (wn_id m)))" using f by (simp add: flow_ok_def node_failures_def)
  have "length (es_outputs s) \<le> we_buffer we" "length (es_errors s) \<le> we_buffer we" using f by (simp_all add: flow_ok_def bounded_state_def)
  with inp q st out err show ?thesis by blast
qed

theorem items_conserved_witness:
  "\<exists>s. demo_result = Some (Inr s, []) \<and> ne_input (es_nodes s ''v'') = 2 * ne_output (es_nodes s ''s'') \<and> es_queue s ''v'' = []"
proof -
  obtain s where r: "demo_result = Some (Inr s, [])" using demo_returns by blast
  let ?n = "\<lparr>wn_id = ''v'', wn_kind = ''validate'', wn_config = JObj [(''required'', JArr [JStr ''${run.field}''])], wn_next = [], wn_failure = []\<rparr>"
  have n: "?n \<in> set demo_nodes" by (simp add: demo_nodes_def)
  note c = items_conserved [OF r [unfolded demo_result_def] n]
  then show ?thesis using r by (auto simp: demo_nodes_def indegree_def wn_targets_def)
qed

section \<open>Cycles\<close>

text \<open>C17: An execution always ends. It has a result only if the graph of the workflow has no cycle, and then every node was visited
  once and after all its parents; on a graph without a cycle it never raises \<open>WORKFLOW_CYCLE\<close>, unless a lifecycle does.\<close>

theorem execution_decides_cycles:
  assumes "\<And>k l. life k = Some l \<Longrightarrow> lc_begin l \<noteq> Some (wf_fail ''WORKFLOW_CYCLE'') \<and> lc_end l \<noteq> Some (wf_fail ''WORKFLOW_CYCLE'')"
  shows "\<exists>res events. execute_workflow we life ns inputs token = Some (res, events) \<and>
    (\<forall>s. res = Inr s \<longrightarrow> acyclic {(wn_id m, t) | m t. m \<in> set ns \<and> t \<in> set (wn_targets m)} \<and> mset (es_visited s) = mset (map wn_id ns) \<and>
      (\<forall>us t vs m. es_visited s = us @ t # vs \<and> m \<in> set ns \<and> t \<in> set (wn_targets m) \<longrightarrow> wn_id m \<in> set us)) \<and>
    (acyclic {(wn_id m, t) | m t. m \<in> set ns \<and> t \<in> set (wn_targets m)} \<longrightarrow> res \<noteq> Inl (wf_fail ''WORKFLOW_CYCLE''))"
proof -
  have E: "{(wn_id m, t) | m t. m \<in> set ns \<and> t \<in> set (wn_targets m)} = wn_edges ns" by (auto simp: wn_edges_def)
  obtain res events where r: "execute_workflow we life ns inputs token = Some (res, events)"
    and cyc: "acyclic (wn_edges ns) \<Longrightarrow> res \<noteq> Inl cycle_found"
    using execute_ends [of life we ns inputs token] assms unfolding cycle_found_def by blast
  have inv: "acyclic (wn_edges ns) \<and> mset (es_visited s) = mset (map wn_id ns) \<and>
      (\<forall>us t vs m. es_visited s = us @ t # vs \<and> m \<in> set ns \<and> t \<in> set (wn_targets m) \<longrightarrow> wn_id m \<in> set us)" if "res = Inr s" for s
  proof -
    note x = execute_result [OF r [unfolded that]]
    from x(1) have d: "distinct (map wn_id ns)" and cl: "\<forall>m\<in>set ns. set (wn_targets m) \<subseteq> wn_id ` set ns" by (simp_all add: runnable_def)
    from x(2) have o: "order_ok ns [] s" by (simp add: run_good_def)
    note pf = order_okD(5) [OF o]
    have "acyclic (wn_edges ns)" using all_visited_acyclic [OF pf _ cl] x(3) by simp
    moreover have "mset (es_visited s) = mset (map wn_id ns)"
      using order_okD(1) [OF o] d x(3) set_eq_iff_mset_eq_distinct [of "es_visited s" "map wn_id ns"] by (simp del: mset_map)
    moreover have "wn_id m \<in> set us" if "es_visited s = us @ t # vs" "m \<in> set ns" "t \<in> set (wn_targets m)" for us t vs m
      using parents_firstD [OF pf that(1)] that(2,3) by (auto simp: wn_edges_def)
    ultimately show ?thesis by blast
  qed
  show ?thesis unfolding E
  proof (intro exI [of _ res] exI [of _ events] conjI)
    show "\<forall>s. res = Inr s \<longrightarrow> acyclic (wn_edges ns) \<and> mset (es_visited s) = mset (map wn_id ns) \<and>
      (\<forall>us t vs m. es_visited s = us @ t # vs \<and> m \<in> set ns \<and> t \<in> set (wn_targets m) \<longrightarrow> wn_id m \<in> set us)"
      using inv by blast
    show "acyclic (wn_edges ns) \<longrightarrow> res \<noteq> Inl (wf_fail ''WORKFLOW_CYCLE'')" using cyc unfolding cycle_found_def by blast
  qed (rule r)
qed

theorem execution_decides_cycles_witness:
  "\<exists>res events. demo_result = Some (res, events) \<and> res \<noteq> Inl (wf_fail ''WORKFLOW_CYCLE'')"
proof -
  obtain s where "demo_result = Some (Inr s, [])" using demo_returns by blast
  moreover from execution_decides_cycles [of "\<lambda>_. None" demo_engine demo_nodes "[JObj [(''a'', JInt 1)]]" None]
  have "\<exists>res events. demo_result = Some (res, events)" unfolding demo_result_def by auto
  ultimately show ?thesis by auto
qed

section \<open>Lifecycles\<close>

text \<open>Whatever an execution does, every handler object whose lifecycle was begun was begun once and is ended, in the opposite
  order, after everything else; if all of them could begin, these are all handlers with a lifecycle the workflow uses.\<close>

lemma lifecycles_balanced:
  assumes "execute_workflow we life ns inputs token = Some (res, events)" and "\<forall>k l. life k = Some l \<longrightarrow> lc_end l = None"
  shows "\<exists>ids. events = map Begun ids @ map Ended (rev ids) \<and> distinct ids \<and>
    (\<forall>s. res = Inr s \<longrightarrow> set ids = {lc_identity l | n l. n \<in> set ns \<and> life (wn_kind n) = Some l})"
proof (cases "validate_workflow_contract (Some (\<lambda>k. \<not> Option.is_none (we_handlers we k))) True ns")
  case (Inl x)
  then have "res = Inl x" "events = []" using assms(1) by (simp_all add: execute_workflow_def)
  then show ?thesis by (intro exI [of _ "[]"]) simp
next
  case (Inr u)
  let ?hs = "lifecycle_handlers life [] ns"
  obtain started bad where b: "begin_all ?hs = (started, bad)" by fastforce
  from begin_all_prefix [OF b] obtain rest where p: "?hs = started @ rest" "bad = None \<longrightarrow> rest = []" by blast
  have clean: "end_all (rev started) = (rev started, None)"
  proof (rule end_all_clean, rule ballI)
    fix l assume "l \<in> set (rev started)"
    then have "l \<in> set ?hs" using p(1) by simp
    then show "lc_end l = None" using lifecycles_from assms(2) by blast
  qed
  have ev: "events = map (\<lambda>l. Begun (lc_identity l)) started @ map (\<lambda>l. Ended (lc_identity l)) (rev started)"
    using assms(1) Inr b clean by (auto simp: execute_workflow_def split: option.splits)
  have "bad = None" if "res = Inr s" for s using assms(1) Inr b clean that by (auto simp: execute_workflow_def split: option.splits)
  then have all: "started = ?hs" if "res = Inr s" for s using p that by auto
  have used: "lc_identity ` set (lifecycle_handlers life seen ms) \<union> set seen =
      {lc_identity l | n l. n \<in> set ms \<and> life (wn_kind n) = Some l} \<union> set seen" for seen ms
  proof (induction ms arbitrary: seen)
    case (Cons m ms)
    show ?case
    proof (cases "life (wn_kind m)")
      case None
      then show ?thesis using Cons.IH [of seen] by auto
    next
      case (Some l)
      then show ?thesis using Cons.IH [of seen] Cons.IH [of "lc_identity l # seen"] by (cases "lc_identity l \<in> set seen") auto
    qed
  qed simp
  let ?ids = "map lc_identity started"
  have "events = map Begun ?ids @ map Ended (rev ?ids)" by (simp add: ev rev_map)
  moreover have "distinct ?ids" using lifecycles_once [of life "[]" ns] p(1) by simp
  moreover have "set ?ids = {lc_identity l | n l. n \<in> set ns \<and> life (wn_kind n) = Some l}" if "res = Inr s" for s
    using used [of "[]" ns] all [OF that] by simp
  ultimately show ?thesis by blast
qed

definition demo_lifecycle :: "pystr \<Rightarrow> lifecycle option" where
  "demo_lifecycle k = (if k = ''source'' then Some \<lparr>lc_identity = 7, lc_begin = None, lc_end = None\<rparr> else None)"

lemma demo_handlers: "lifecycle_handlers demo_lifecycle [] demo_nodes = [\<lparr>lc_identity = 7, lc_begin = None, lc_end = None\<rparr>]"
  by (simp add: demo_nodes_def demo_lifecycle_def)

lemma lifecycles_balanced_witness:
  "\<exists>s ids. execute_workflow demo_engine demo_lifecycle demo_nodes [JObj [(''a'', JInt 1)]] None = Some (Inr s, map Begun ids @ map Ended (rev ids)) \<and>
    set ids = {7}"
proof -
  obtain s ev where r: "execute_workflow demo_engine demo_lifecycle demo_nodes [JObj [(''a'', JInt 1)]] None = Some (Inr s, ev)"
    using demo_executes by (auto simp: execute_workflow_def demo_contract demo_handlers)
  have "{lc_identity l | n l. n \<in> set demo_nodes \<and> demo_lifecycle (wn_kind n) = Some l} = {7}"
  proof (intro equalityI subsetI)
    fix i assume "i \<in> {lc_identity l | n l. n \<in> set demo_nodes \<and> demo_lifecycle (wn_kind n) = Some l}"
    then show "i \<in> {7}" by (auto simp: demo_lifecycle_def split: if_splits)
  next
    have "hd demo_nodes \<in> set demo_nodes" "demo_lifecycle (wn_kind (hd demo_nodes)) = Some \<lparr>lc_identity = 7, lc_begin = None, lc_end = None\<rparr>"
      by (simp_all add: demo_nodes_def demo_lifecycle_def)
    then have "lc_identity \<lparr>lc_identity = 7, lc_begin = None, lc_end = None\<rparr> \<in>
        {lc_identity l | n l. n \<in> set demo_nodes \<and> demo_lifecycle (wn_kind n) = Some l}" by blast
    then show "i \<in> {lc_identity l | n l. n \<in> set demo_nodes \<and> demo_lifecycle (wn_kind n) = Some l}" if "i \<in> {7}" for i using that by simp
  qed
  moreover have "\<forall>k l. demo_lifecycle k = Some l \<longrightarrow> lc_end l = None" by (auto simp: demo_lifecycle_def split: if_splits)
  from lifecycles_balanced [OF r this] obtain ids where "ev = map Begun ids @ map Ended (rev ids)"
    "set ids = {lc_identity l | n l. n \<in> set demo_nodes \<and> demo_lifecycle (wn_kind n) = Some l}" by blast
  ultimately show ?thesis using r by (intro exI [of _ s] exI [of _ ids]) simp
qed

end
