(* ===== verification/SecurityModels.thy ===== *)
theory SecurityModels
  imports Prelude
begin

text \<open>
  \<^verbatim>\<open>security/models.py\<close>: identities, devices and sessions, the registry \<open>SecurityState\<close> and the validation of
  a session against it. A time stamp is the instant \<open>SessionValidator._parse\<close> reads from its text, \<open>None\<close>
  for a text it cannot read. Of the metadata of a session only \<open>root_integrity_verified is True\<close> is read,
  so that is what is kept. Random identifiers are arguments of the operations that draw them.
\<close>

section \<open>Data\<close>

datatype trust_domain = Personal | Developer | Enterprise

record principal =
  p_id :: pystr
  p_domain :: trust_domain
  p_kind :: pystr

record identity =
  i_id :: pystr
  i_principal :: principal
  i_display :: pystr
  i_enabled :: bool
  i_generation :: int

record device =
  d_id :: pystr
  d_domain :: trust_domain
  d_fingerprint :: pystr
  d_revoked :: bool
  d_generation :: int

record session =
  s_id :: pystr
  s_principal :: pystr
  s_identity :: pystr
  s_domain :: trust_domain
  s_issued :: "rat option"
  s_expires :: "rat option"
  s_identity_generation :: int
  s_device :: pystr
  s_device_generation :: int
  s_capabilities :: "pystr list"
  s_root_verified :: bool

record security_state =
  ss_identities :: "pystr \<rightharpoonup> identity"
  ss_devices :: "pystr \<rightharpoonup> device"
  ss_revoked :: "pystr set"

definition security_fail :: "pystr \<Rightarrow> exc" where
  "security_fail code = ArenyxaError ''SECURITY'' code"

section \<open>The registry\<close>

definition empty_security :: security_state where
  "empty_security = \<lparr>ss_identities = Map.empty, ss_devices = Map.empty, ss_revoked = {}\<rparr>"

definition register_identity :: "identity \<Rightarrow> security_state \<Rightarrow> exc + security_state" where
  "register_identity i st =
     (if ss_identities st (i_id i) \<noteq> None then Inl ValueError
      else Inr (st\<lparr>ss_identities := (ss_identities st)(i_id i \<mapsto> i)\<rparr>))"

text \<open>\<open>create_identity\<close>: \<open>fresh_p\<close> and \<open>fresh_i\<close> are the drawn identifiers.\<close>

definition create_identity ::
  "pystr \<Rightarrow> pystr \<Rightarrow> trust_domain \<Rightarrow> pystr option \<Rightarrow> pystr \<Rightarrow> pystr \<Rightarrow> security_state \<Rightarrow> exc + (identity \<times> security_state)"
where
  "create_identity fresh_p fresh_i domain principal_id display kind st =
     (let pid = (case principal_id of Some p \<Rightarrow> if p = [] then fresh_p else p | None \<Rightarrow> fresh_p);
          i = \<lparr>i_id = fresh_i, i_principal = \<lparr>p_id = pid, p_domain = domain, p_kind = kind\<rparr>,
               i_display = display, i_enabled = True, i_generation = 1\<rparr>
      in ebind (register_identity i st) (\<lambda>st'. Inr (i, st')))"

definition remove_identity :: "pystr \<Rightarrow> security_state \<Rightarrow> bool \<times> security_state" where
  "remove_identity k st = (ss_identities st k \<noteq> None, st\<lparr>ss_identities := (ss_identities st)(k := None)\<rparr>)"

definition disable_identity :: "pystr \<Rightarrow> security_state \<Rightarrow> exc + security_state" where
  "disable_identity k st = (case ss_identities st k of
     None \<Rightarrow> Inl (security_fail ''IDENTITY_INVALID'')
   | Some i \<Rightarrow> Inr (st\<lparr>ss_identities := (ss_identities st)
       (k \<mapsto> i\<lparr>i_enabled := False, i_generation := i_generation i + 1\<rparr>)\<rparr>))"

definition bump_identity_generation :: "pystr \<Rightarrow> security_state \<Rightarrow> exc + (int \<times> security_state)" where
  "bump_identity_generation k st = (case ss_identities st k of
     None \<Rightarrow> Inl (security_fail ''IDENTITY_INVALID'')
   | Some i \<Rightarrow> Inr (i_generation i + 1, st\<lparr>ss_identities := (ss_identities st)
       (k \<mapsto> i\<lparr>i_generation := i_generation i + 1\<rparr>)\<rparr>))"

definition register_device :: "device \<Rightarrow> security_state \<Rightarrow> exc + security_state" where
  "register_device d st =
     (if ss_devices st (d_id d) \<noteq> None then Inl ValueError
      else Inr (st\<lparr>ss_devices := (ss_devices st)(d_id d \<mapsto> d)\<rparr>))"

definition create_device :: "pystr \<Rightarrow> trust_domain \<Rightarrow> pystr \<Rightarrow> security_state \<Rightarrow> exc + (device \<times> security_state)" where
  "create_device fresh_d domain fingerprint st =
     (let d = \<lparr>d_id = fresh_d, d_domain = domain, d_fingerprint = fingerprint, d_revoked = False, d_generation = 1\<rparr>
      in ebind (register_device d st) (\<lambda>st'. Inr (d, st')))"

definition revoke_device :: "pystr \<Rightarrow> security_state \<Rightarrow> exc + security_state" where
  "revoke_device k st = (case ss_devices st k of
     None \<Rightarrow> Inl (security_fail ''DEVICE_INVALID'')
   | Some d \<Rightarrow> Inr (st\<lparr>ss_devices := (ss_devices st)
       (k \<mapsto> d\<lparr>d_revoked := True, d_generation := d_generation d + 1\<rparr>)\<rparr>))"

definition revoke_session :: "pystr \<Rightarrow> security_state \<Rightarrow> security_state" where
  "revoke_session k st = st\<lparr>ss_revoked := insert k (ss_revoked st)\<rparr>"

definition forget_session_revocation :: "pystr \<Rightarrow> security_state \<Rightarrow> security_state" where
  "forget_session_revocation k st = st\<lparr>ss_revoked := ss_revoked st - {k}\<rparr>"

section \<open>Validation\<close>

text \<open>\<open>SessionValidator.validate\<close> at the instant \<open>now\<close>: \<open>Inr\<close> when valid, else the code.\<close>

definition validate_device :: "session \<Rightarrow> security_state \<Rightarrow> pystr + unit" where
  "validate_device s st =
     (if s_device s = [] then Inr ()
      else (case ss_devices st (s_device s) of
        None \<Rightarrow> Inl ''DEVICE_MISSING''
      | Some d \<Rightarrow>
          if d_domain d \<noteq> s_domain s then Inl ''DEVICE_TRUST_MISMATCH''
          else if d_revoked d then Inl ''DEVICE_REVOKED''
          else if d_generation d \<noteq> s_device_generation s then Inl ''DEVICE_GENERATION_REVOKED''
          else Inr ()))"

definition validate_identity :: "session \<Rightarrow> security_state \<Rightarrow> pystr + unit" where
  "validate_identity s st =
     (case ss_identities st (s_identity s) of
        None \<Rightarrow> Inl ''IDENTITY_MISSING''
      | Some i \<Rightarrow>
          if \<not> i_enabled i then Inl ''IDENTITY_DISABLED''
          else if p_id (i_principal i) \<noteq> s_principal s then Inl ''SESSION_PRINCIPAL_MISMATCH''
          else if p_domain (i_principal i) \<noteq> s_domain s then Inl ''SESSION_TRUST_MISMATCH''
          else if i_generation i \<noteq> s_identity_generation s then Inl ''SESSION_GENERATION_REVOKED''
          else Inr ())"

definition validate_session :: "session \<Rightarrow> rat \<Rightarrow> security_state \<Rightarrow> pystr + unit" where
  "validate_session s now st =
     (case (s_issued s, s_expires s) of
        (Some issued, Some expires) \<Rightarrow>
          if expires \<le> issued then Inl ''SESSION_TIME_INVALID''
          else if expires \<le> now then Inl ''SESSION_EXPIRED''
          else if 300 < issued - now then Inl ''SESSION_NOT_YET_VALID''
          else if s_id s \<in> ss_revoked st then Inl ''SESSION_REVOKED''
          else ebind (validate_identity s st) (\<lambda>_. validate_device s st)
      | _ \<Rightarrow> Inl ''SESSION_TIME_INVALID'')"

section \<open>Facts\<close>

lemma validate_session_Inr:
  "validate_session s now st = Inr u \<longleftrightarrow>
     (\<exists>issued expires. s_issued s = Some issued \<and> s_expires s = Some expires \<and> issued < expires \<and> now < expires \<and>
        issued - now \<le> 300) \<and> s_id s \<notin> ss_revoked st \<and>
     (\<exists>i. ss_identities st (s_identity s) = Some i \<and> i_enabled i \<and> p_id (i_principal i) = s_principal s \<and>
        p_domain (i_principal i) = s_domain s \<and> i_generation i = s_identity_generation s) \<and>
     (s_device s \<noteq> [] \<longrightarrow> (\<exists>d. ss_devices st (s_device s) = Some d \<and> d_domain d = s_domain s \<and> \<not> d_revoked d \<and>
        d_generation d = s_device_generation s))"
  by (auto simp: validate_session_def validate_identity_def validate_device_def not_le not_less
      split: option.splits if_splits)

section \<open>Revocation is for good\<close>

datatype security_op =
    SRegister identity
  | SCreate pystr pystr trust_domain "pystr option" pystr pystr
  | SRemove pystr
  | SDisable pystr
  | SBump pystr
  | SRegisterDevice device
  | SCreateDevice pystr trust_domain pystr
  | SRevokeDevice pystr
  | SRevokeSession pystr
  | SForget pystr

definition run_security :: "security_op \<Rightarrow> security_state \<Rightarrow> security_state" where
  "run_security oper st = (case oper of
     SRegister i \<Rightarrow> (case register_identity i st of Inr st' \<Rightarrow> st' | Inl _ \<Rightarrow> st)
   | SCreate a b td pid disp kind \<Rightarrow> (case create_identity a b td pid disp kind st of Inr (_, st') \<Rightarrow> st' | Inl _ \<Rightarrow> st)
   | SRemove k \<Rightarrow> snd (remove_identity k st)
   | SDisable k \<Rightarrow> (case disable_identity k st of Inr st' \<Rightarrow> st' | Inl _ \<Rightarrow> st)
   | SBump k \<Rightarrow> (case bump_identity_generation k st of Inr (_, st') \<Rightarrow> st' | Inl _ \<Rightarrow> st)
   | SRegisterDevice d \<Rightarrow> (case register_device d st of Inr st' \<Rightarrow> st' | Inl _ \<Rightarrow> st)
   | SCreateDevice k td fp \<Rightarrow> (case create_device k td fp st of Inr (_, st') \<Rightarrow> st' | Inl _ \<Rightarrow> st)
   | SRevokeDevice k \<Rightarrow> (case revoke_device k st of Inr st' \<Rightarrow> st' | Inl _ \<Rightarrow> st)
   | SRevokeSession k \<Rightarrow> revoke_session k st
   | SForget k \<Rightarrow> forget_session_revocation k st)"

text \<open>
  The session can never be accepted again: its identity is disabled or has moved on to another
  generation, or its device is revoked.
\<close>

definition dead_identity :: "session \<Rightarrow> security_state \<Rightarrow> bool" where
  "dead_identity s st \<longleftrightarrow> (\<exists>i. ss_identities st (s_identity s) = Some i \<and> s_identity_generation s < i_generation i)"

definition dead_device :: "session \<Rightarrow> security_state \<Rightarrow> bool" where
  "dead_device s st \<longleftrightarrow> s_device s \<noteq> [] \<and> (\<exists>d. ss_devices st (s_device s) = Some d \<and> d_revoked d)"

lemma run_security_identity:
  assumes "oper \<noteq> SRemove k" and "ss_identities st k = Some i"
  shows "\<exists>i'. ss_identities (run_security oper st) k = Some i' \<and> i_generation i \<le> i_generation i'"
  using assms
  by (cases oper) (auto simp: run_security_def register_identity_def create_identity_def remove_identity_def
      disable_identity_def bump_identity_generation_def register_device_def create_device_def revoke_device_def
      revoke_session_def forget_session_revocation_def Let_def split: sum.splits prod.splits option.splits if_splits)

lemma run_security_device:
  assumes "ss_devices st k = Some d"
  shows "\<exists>d'. ss_devices (run_security oper st) k = Some d' \<and> (d_revoked d \<longrightarrow> d_revoked d')"
  using assms
  by (cases oper) (auto simp: run_security_def register_identity_def create_identity_def remove_identity_def
      disable_identity_def bump_identity_generation_def register_device_def create_device_def revoke_device_def
      revoke_session_def forget_session_revocation_def Let_def split: sum.splits prod.splits option.splits if_splits)


definition ex_identity :: identity where
  "ex_identity = \<lparr>i_id = ''i'', i_principal = \<lparr>p_id = ''p'', p_domain = Personal, p_kind = ''user''\<rparr>,
     i_display = [], i_enabled = True, i_generation = 1\<rparr>"

definition ex_session :: session where
  "ex_session = \<lparr>s_id = ''s'', s_principal = ''p'', s_identity = ''i'', s_domain = Personal, s_issued = Some 100,
     s_expires = Some 200, s_identity_generation = 1, s_device = [], s_device_generation = 0,
     s_capabilities = [''project.read''], s_root_verified = False\<rparr>"

definition ex_security :: security_state where
  "ex_security = \<lparr>ss_identities = [''i'' \<mapsto> ex_identity], ss_devices = Map.empty, ss_revoked = {}\<rparr>"


end
