(* ===== verification/Capabilities.thy ===== *)
theory Capabilities
  imports SecurityModels "HOL-Library.Multiset"
begin

text \<open>
  \<^verbatim>\<open>security/capabilities.py\<close>: the catalogue of capabilities and the policy evaluator. The patterns of a rule
  are those of \<open>fnmatch.fnmatchcase\<close>, modelled here on the text of the pattern. A context value is one of
  the scalars a context holds; a condition is a scalar, or a collection of them.
\<close>

section \<open>Patterns\<close>

datatype class_item = One char | Span char char

datatype pat_item = Lit char | AnyOne | Star | Class bool "class_item list"

text \<open>
  The body of a bracket expression: a hyphen between two characters is a range, unless it is the first
  or the last character. A range whose bounds are inverted is empty.
\<close>

fun class_items :: "pystr \<Rightarrow> class_item list" where
  "class_items (a # h # b # rest) =
     (if h = CHR ''-'' then Span a b # class_items rest else One a # class_items (h # b # rest))"
| "class_items cs = map One cs"

definition proper_item :: "class_item \<Rightarrow> bool" where
  "proper_item it = (case it of One _ \<Rightarrow> True | Span a b \<Rightarrow> ord_c a \<le> ord_c b)"

text \<open>
  A body that starts with an exclamation mark is negated. The translation looks for the mark after it has removed the
  inverted ranges, so a mark that is first then negates as well.
\<close>

definition class_of :: "pystr \<Rightarrow> pat_item" where
  "class_of body =
     (case body of
        CHR 0x21 # rest \<Rightarrow> Class True (filter proper_item (class_items rest))
      | _ \<Rightarrow> (case filter proper_item (class_items body) of
          One CHR 0x21 # its \<Rightarrow> Class True its
        | Span CHR 0x21 b # its \<Rightarrow> Class True (One (CHR ''-'') # One b # its)
        | its \<Rightarrow> Class False its))"

text \<open>
  The text after an opening bracket, split at its closing bracket: one that is the first character of
  the body, after the negation, belongs to the body.
\<close>

definition split_class :: "pystr \<Rightarrow> (pystr \<times> pystr) option" where
  "split_class cs =
     (let neg = takeWhile (\<lambda>c. c = CHR 0x21) (take 1 cs);
          r1 = drop (length neg) cs;
          brk = takeWhile (\<lambda>c. c = CHR '']'') (take 1 r1);
          r2 = drop (length brk) r1;
          mid = takeWhile (\<lambda>c. c \<noteq> CHR '']'') r2
      in if length mid < length r2 then Some (neg @ brk @ mid, drop (Suc (length mid)) r2) else None)"

lemma split_class_length: "split_class cs = Some (body, rest) \<Longrightarrow> length rest < Suc (length cs)"
  by (auto simp: split_class_def Let_def split: if_splits)

function glob_parse :: "pystr \<Rightarrow> pat_item list" where
  "glob_parse [] = []"
| "glob_parse (c # cs) =
     (if c = CHR ''*'' then Star # glob_parse cs
      else if c = CHR ''?'' then AnyOne # glob_parse cs
      else if c = CHR ''['' then
        (case split_class cs of
           Some (body, rest) \<Rightarrow> class_of body # glob_parse rest
         | None \<Rightarrow> Lit c # glob_parse cs)
      else Lit c # glob_parse cs)"
  by pat_completeness auto

termination
  by (relation "measure length") (auto dest: split_class_length)

fun item_has :: "class_item \<Rightarrow> char \<Rightarrow> bool" where
  "item_has (One a) c = (a = c)"
| "item_has (Span a b) c = (ord_c a \<le> ord_c c \<and> ord_c c \<le> ord_c b)"

fun item_accepts :: "pat_item \<Rightarrow> char \<Rightarrow> bool" where
  "item_accepts (Lit a) c = (a = c)"
| "item_accepts AnyOne c = True"
| "item_accepts Star c = True"
| "item_accepts (Class neg its) c = ((\<exists>it \<in> set its. item_has it c) \<noteq> neg)"

fun glob_match :: "pat_item list \<Rightarrow> pystr \<Rightarrow> bool" where
  "glob_match [] s = (s = [])"
| "glob_match (p # ps) [] = (p = Star \<and> glob_match ps [])"
| "glob_match (p # ps) (c # cs) =
     (if p = Star then glob_match ps (c # cs) \<or> glob_match (p # ps) cs
      else item_accepts p c \<and> glob_match ps cs)"

definition fnmatchcase :: "pystr \<Rightarrow> pystr \<Rightarrow> bool" where
  "fnmatchcase name pat = glob_match (glob_parse pat) name"

text \<open>The declarative reading of a pattern: a star stands for any text, every other item for one character.\<close>

inductive spells :: "pat_item list \<Rightarrow> pystr \<Rightarrow> bool" where
  spells_Nil: "spells [] []"
| spells_Star: "spells ps s \<Longrightarrow> spells (Star # ps) (t @ s)"
| spells_Item: "p \<noteq> Star \<Longrightarrow> item_accepts p c \<Longrightarrow> spells ps s \<Longrightarrow> spells (p # ps) (c # s)"

inductive_cases spells_NilE [elim!]: "spells [] s"
inductive_cases spells_ConsE: "spells (p # ps) s"

lemma glob_match_Star: "glob_match ps s \<Longrightarrow> glob_match (Star # ps) (t @ s)"
proof (induction t)
  case Nil
  then show ?case by (cases s) auto
qed simp

lemma glob_match_spells: "glob_match ps s \<longleftrightarrow> spells ps s"
proof
  show "glob_match ps s \<Longrightarrow> spells ps s"
  proof (induction ps s rule: glob_match.induct)
    case (2 p ps)
    with spells_Star [of ps "[]" "[]"] show ?case by auto
  next
    case (3 p ps c cs)
    show ?case
    proof (cases "p = Star")
      case True
      with 3 consider "spells ps (c # cs)" | "spells (Star # ps) cs" by auto
      then show ?thesis
      proof cases
        case 1
        with spells_Star [of ps "c # cs" "[]"] True show ?thesis by simp
      next
        case 2
        then obtain t u where "cs = t @ u" "spells ps u" by (auto elim: spells_ConsE)
        with spells_Star [of ps u "c # t"] True show ?thesis by simp
      qed
    next
      case False
      with 3 show ?thesis by (auto intro: spells_Item)
    qed
  qed (auto intro: spells_Nil)
  show "spells ps s \<Longrightarrow> glob_match ps s"
    by (induction rule: spells.induct) (auto intro: glob_match_Star)
qed

section \<open>Capabilities\<close>

record capability_definition =
  c_name :: pystr
  c_domain :: trust_domain
  c_description :: pystr

type_synonym catalog = "(pystr \<times> capability_definition) list"

definition catalog_get :: "pystr \<Rightarrow> catalog \<Rightarrow> capability_definition option" where
  "catalog_get name cat = map_of cat name"

definition catalog_register :: "capability_definition \<Rightarrow> catalog \<Rightarrow> exc + catalog" where
  "catalog_register c cat =
     (let name = py_strip (c_name c) in
      if name = [] \<or> CHR '' '' \<in> set name then Inl ValueError
      else (case map_of cat name of
          Some c0 \<Rightarrow> if c0 \<noteq> c then Inl ValueError else Inr cat
        | None \<Rightarrow> Inr (cat @ [(name, c)])))"

definition catalog_require :: "pystr \<Rightarrow> catalog \<Rightarrow> exc + capability_definition" where
  "catalog_require name cat = (case catalog_get name cat of None \<Rightarrow> Inl KeyError | Some c \<Rightarrow> Inr c)"

definition catalog_snapshot :: "catalog \<Rightarrow> capability_definition list" where
  "catalog_snapshot cat = map snd (sort_key fst cat)"

definition personal_names :: "pystr list" where
  "personal_names = [''project.read'', ''project.write'', ''task.run'', ''data.read'', ''data.write'', ''data.export'',
     ''capture.run'', ''replay.run'', ''secrets.use'', ''plugin.install'', ''plugin.run'', ''workspace.manage'',
     ''system.configure'', ''logs.read'']"

definition developer_names :: "pystr list" where
  "developer_names = [''runtime.debug'', ''profiler'', ''stress_test'', ''fault_injection'', ''internal_logs'',
     ''release.verify'', ''platform.root'']"

definition enterprise_names :: "pystr list" where
  "enterprise_names = [''enterprise.account.manage'', ''enterprise.policy.modify'', ''enterprise.audit.read'',
     ''enterprise.enrollment.manage'', ''enterprise.device.manage'', ''enterprise.coordinator.manage'',
     ''enterprise.workspace.manage'', ''enterprise.approval.manage'', ''enterprise.quota.manage'', ''dataset.read'',
     ''dataset.write'', ''dataset.export'', ''workflow.execute'', ''workflow.publish'', ''enterprise.capture.run'',
     ''schedule.manage'', ''worker.use'', ''enterprise.worker.manage'', ''enterprise.server.manage'',
     ''enterprise.remote_ops'', ''enterprise.vault.manage'', ''enterprise.proxy.manage'',
     ''enterprise.mitm.manage'', ''enterprise.packet.analyze'', ''enterprise.network.observe'']"

definition DEFAULT_CAPABILITIES :: "capability_definition list" where
  "DEFAULT_CAPABILITIES =
     map (\<lambda>n. \<lparr>c_name = n, c_domain = Personal, c_description = []\<rparr>) personal_names @
     map (\<lambda>n. \<lparr>c_name = n, c_domain = Developer, c_description = []\<rparr>) developer_names @
     map (\<lambda>n. \<lparr>c_name = n, c_domain = Enterprise, c_description = []\<rparr>) enterprise_names"

text \<open>\<open>CapabilityCatalog(definitions)\<close>: no definitions, or an empty list of them, means the default ones.\<close>

definition make_catalog :: "capability_definition list \<Rightarrow> exc + catalog" where
  "make_catalog defs = efold catalog_register (if defs = [] then DEFAULT_CAPABILITIES else defs) []"

section \<open>Policies\<close>

datatype scalar = VNone | VBool bool | VInt int | VStr pystr

fun scalar_eq :: "scalar \<Rightarrow> scalar \<Rightarrow> bool" where
  "scalar_eq (VBool a) (VInt i) = ((if a then 1 else 0) = i)"
| "scalar_eq (VInt i) (VBool a) = ((if a then 1 else 0) = i)"
| "scalar_eq x y = (x = y)"

datatype condition = Is scalar | OneOf "scalar list"

datatype effect = Allow | Deny

record policy_rule =
  r_id :: pystr
  r_domain :: trust_domain
  r_capabilities :: "pystr list"
  r_resources :: "pystr list"
  r_effect :: effect
  r_conditions :: "(pystr \<times> condition) list"
  r_priority :: int

record decision =
  allowed :: bool
  code :: pystr
  matched :: "pystr list"

type_synonym ctx = "pystr \<rightharpoonup> scalar"

definition add_rule :: "policy_rule \<Rightarrow> policy_rule list \<Rightarrow> exc + policy_rule list" where
  "add_rule r rules =
     (if r_capabilities r = [] \<or> r_resources r = [] then Inl ValueError
      else if \<exists>r' \<in> set rules. r_id r' = r_id r then Inl ValueError
      else Inr (sort_key (\<lambda>r. (- r_priority r, r_id r)) (rules @ [r])))"

definition clear_rules :: "policy_rule list \<Rightarrow> policy_rule list" where
  "clear_rules rules = []"

definition condition_holds :: "ctx \<Rightarrow> pystr \<times> condition \<Rightarrow> bool" where
  "condition_holds actual = (\<lambda>(key, wanted).
     let v = (case actual key of None \<Rightarrow> VNone | Some v \<Rightarrow> v) in
     (case wanted of Is w \<Rightarrow> scalar_eq v w | OneOf ws \<Rightarrow> \<exists>w \<in> set ws. scalar_eq v w))"

definition conditions_match :: "(pystr \<times> condition) list \<Rightarrow> ctx \<Rightarrow> bool" where
  "conditions_match expected actual = list_all (condition_holds actual) expected"

definition rule_applies :: "session \<Rightarrow> pystr \<Rightarrow> pystr \<Rightarrow> ctx \<Rightarrow> policy_rule \<Rightarrow> bool" where
  "rule_applies s cap resource ctx r \<longleftrightarrow>
     r_domain r = s_domain s \<and> (\<exists>p \<in> set (r_capabilities r). fnmatchcase cap p) \<and>
     (\<exists>p \<in> set (r_resources r). fnmatchcase resource p) \<and> conditions_match (r_conditions r) ctx"

fun sift :: "(policy_rule \<Rightarrow> bool) \<Rightarrow> policy_rule list \<Rightarrow> pystr list \<Rightarrow> pystr list \<Rightarrow> pystr list \<times> pystr list" where
  "sift p [] allows denies = (allows, denies)"
| "sift p (r # rules) allows denies =
     (if \<not> p r then sift p rules allows denies
      else if r_effect r = Deny then sift p rules allows (denies @ [r_id r])
      else sift p rules (allows @ [r_id r]) denies)"

definition evaluate :: "policy_rule list \<Rightarrow> session \<Rightarrow> pystr \<Rightarrow> pystr \<Rightarrow> ctx \<Rightarrow> decision" where
  "evaluate rules s cap resource ctx =
     (if cap \<notin> set (s_capabilities s) then \<lparr>allowed = False, code = ''CAPABILITY_NOT_GRANTED'', matched = []\<rparr>
      else (let (allows, denies) = sift (rule_applies s cap resource ctx) rules [] [] in
        if denies \<noteq> [] then \<lparr>allowed = False, code = ''POLICY_DENY'', matched = denies @ allows\<rparr>
        else if allows \<noteq> [] then \<lparr>allowed = True, code = ''ALLOW'', matched = allows\<rparr>
        else \<lparr>allowed = False, code = ''POLICY_DEFAULT_DENY'', matched = []\<rparr>))"

section \<open>Decisions\<close>

lemma sift_eq:
  "sift p rules allows denies =
     (allows @ map r_id (filter (\<lambda>r. p r \<and> r_effect r = Allow) rules),
      denies @ map r_id (filter (\<lambda>r. p r \<and> r_effect r = Deny) rules))"
proof (induction rules arbitrary: allows denies)
  case (Cons r rules)
  then show ?case by (cases "r_effect r") auto
qed simp

lemma evaluate_allowed:
  "allowed (evaluate rules s cap resource ctx) \<longleftrightarrow>
     cap \<in> set (s_capabilities s) \<and>
     (\<exists>r. r \<in> set rules \<and> r_effect r = Allow \<and> rule_applies s cap resource ctx r) \<and>
     \<not> (\<exists>r. r \<in> set rules \<and> r_effect r = Deny \<and> rule_applies s cap resource ctx r)"
  by (auto simp: evaluate_def sift_eq Let_def filter_empty_conv)

lemma evaluate_code:
  "code (evaluate rules s cap resource ctx) =
     (if cap \<notin> set (s_capabilities s) then ''CAPABILITY_NOT_GRANTED''
      else if \<exists>r. r \<in> set rules \<and> r_effect r = Deny \<and> rule_applies s cap resource ctx r then ''POLICY_DENY''
      else if \<exists>r. r \<in> set rules \<and> r_effect r = Allow \<and> rule_applies s cap resource ctx r then ''ALLOW''
      else ''POLICY_DEFAULT_DENY'')"
  by (auto simp: evaluate_def sift_eq Let_def filter_empty_conv)

text \<open>The evaluator allows exactly when the session carries the capability, some allow rule applies and no deny
  rule applies: an explicit deny overrides every allow whatever the priorities, and without an applicable rule
  the answer is a denial. An allowed decision lists exactly the allow rules that apply.\<close>

lemma deny_overrides:
  "(allowed (evaluate rules s cap resource ctx) =
     (cap \<in> set (s_capabilities s) \<and>
      (\<exists>r. r \<in> set rules \<and> r_effect r = Allow \<and> rule_applies s cap resource ctx r) \<and>
      \<not> (\<exists>r. r \<in> set rules \<and> r_effect r = Deny \<and> rule_applies s cap resource ctx r))) \<and>
   (allowed (evaluate rules s cap resource ctx) =
     (matched (evaluate rules s cap resource ctx) \<noteq> [] \<and>
      matched (evaluate rules s cap resource ctx) =
        map r_id (filter (\<lambda>r. rule_applies s cap resource ctx r \<and> r_effect r = Allow) rules) \<and>
      code (evaluate rules s cap resource ctx) = ''ALLOW''))"
  by (rule conjI, rule evaluate_allowed) (auto simp: evaluate_def sift_eq Let_def filter_empty_conv)

section \<open>The order of registration\<close>

abbreviation rule_key :: "policy_rule \<Rightarrow> int \<times> pystr" where
  "rule_key r \<equiv> (- r_priority r, r_id r)"

lemma inj_rule_key: "distinct (map r_id rules) \<Longrightarrow> inj_on rule_key (set rules)"
  by (auto simp: distinct_map inj_on_def)

lemma sort_rules_unique:
  assumes "mset xs = mset ys" and "distinct (map r_id xs)"
  shows "sort_key rule_key xs = sort_key rule_key ys"
  by (rule sort_key_inj_key_eq) (simp_all add: assms inj_rule_key)

lemma add_all_rules:
  assumes "efold add_rule rules acc = Inr ev" and "distinct (map r_id acc)" and "acc = sort_key rule_key acc"
  shows "ev = sort_key rule_key (acc @ rules) \<and> distinct (map r_id (acc @ rules)) \<and>
    (\<forall>r \<in> set rules. r_capabilities r \<noteq> [] \<and> r_resources r \<noteq> [])"
  using assms
proof (induction rules arbitrary: acc)
  case (Cons r rules)
  define acc1 where "acc1 = sort_key rule_key (acc @ [r])"
  have r: "r_capabilities r \<noteq> []" "r_resources r \<noteq> []" "r_id r \<notin> r_id ` set acc"
    and rest: "efold add_rule rules acc1 = Inr ev"
  proof -
    from Cons.prems(1) obtain s1 where s1: "add_rule r acc = Inr s1" "efold add_rule rules s1 = Inr ev" by auto
    from s1(1) have "s1 = acc1" "r_capabilities r \<noteq> []" "r_resources r \<noteq> []" "r_id r \<notin> r_id ` set acc"
      by (auto simp: add_rule_def acc1_def image_iff split: if_splits)
    with s1(2) show "r_capabilities r \<noteq> []" "r_resources r \<noteq> []" "r_id r \<notin> r_id ` set acc"
      "efold add_rule rules acc1 = Inr ev" by simp_all
  qed
  have ms: "mset acc1 = mset (acc @ [r])" by (simp add: acc1_def)
  have "distinct (map r_id (acc @ [r]))" using Cons.prems(2) r(3) by simp
  then have d1: "distinct (map r_id acc1)" using ms by (metis mset_eq_imp_distinct_iff mset_map)
  have "acc1 = sort_key rule_key acc1" unfolding acc1_def
    by (rule sort_rules_unique) (use \<open>distinct (map r_id (acc @ [r]))\<close> in simp_all)
  from Cons.IH [OF rest d1 this] have IH: "ev = sort_key rule_key (acc1 @ rules)"
    "distinct (map r_id (acc1 @ rules))" "\<forall>r \<in> set rules. r_capabilities r \<noteq> [] \<and> r_resources r \<noteq> []"
    by blast+
  have ms2: "mset (acc @ r # rules) = mset (acc1 @ rules)" using ms by simp
  then have d2: "distinct (map r_id (acc @ r # rules))" using IH(2) by (metis mset_eq_imp_distinct_iff mset_map)
  from sort_rules_unique [OF ms2 d2] IH(1,3) d2 r show ?case by simp
qed (use sorted_sort_key in simp)

lemma add_all_rules_ok:
  assumes "distinct (map r_id (acc @ rules))" and "\<forall>r \<in> set rules. r_capabilities r \<noteq> [] \<and> r_resources r \<noteq> []"
  shows "\<exists>ev. efold add_rule rules acc = Inr ev"
  using assms
proof (induction rules arbitrary: acc)
  case (Cons r rules)
  define acc1 where "acc1 = sort_key rule_key (acc @ [r])"
  have "mset (acc1 @ rules) = mset (acc @ r # rules)" by (simp add: acc1_def)
  then have "distinct (map r_id (acc1 @ rules))" using Cons.prems(1) by (metis mset_eq_imp_distinct_iff mset_map)
  with Cons.IH [of acc1] Cons.prems have "\<exists>ev. efold add_rule rules acc1 = Inr ev" by simp
  moreover have "add_rule r acc = Inr acc1"
    using Cons.prems by (auto simp: add_rule_def acc1_def dest: image_eqI [of _ r_id, OF sym])
  ultimately show ?case by simp
qed simp

text \<open>The order in which rules are registered does not matter: any other order of the same rules is accepted as
  well and gives the same rule list, so the same decision and the same list of matched rules for every request.\<close>

lemma policy_order_irrelevant:
  assumes "efold add_rule rules [] = Inr ev" and "mset rules' = mset rules"
  shows "efold add_rule rules' [] = Inr ev"
proof -
  from add_all_rules [OF assms(1)] have ev: "ev = sort_key rule_key rules" and d: "distinct (map r_id rules)"
    and ok: "\<forall>r \<in> set rules. r_capabilities r \<noteq> [] \<and> r_resources r \<noteq> []" by simp_all
  have d': "distinct (map r_id rules')" using d assms(2) by (metis mset_eq_imp_distinct_iff mset_map)
  moreover have "set rules' = set rules" using assms(2) by (rule mset_eq_setD)
  ultimately obtain ev' where ev': "efold add_rule rules' [] = Inr ev'"
    using add_all_rules_ok [of "[]" rules'] ok by auto
  from add_all_rules [OF this] have "ev' = sort_key rule_key rules'" by simp
  with ev ev' sort_rules_unique [OF assms(2) d'] show ?thesis by simp
qed

definition ex_rule :: "pystr \<Rightarrow> effect \<Rightarrow> int \<Rightarrow> policy_rule" where
  "ex_rule rid eff prio = \<lparr>r_id = rid, r_domain = Personal, r_capabilities = [''project.*''],
     r_resources = [''*''], r_effect = eff, r_conditions = [], r_priority = prio\<rparr>"

lemma policy_order_irrelevant_witness:
  "efold add_rule [ex_rule ''b'' Deny 0, ex_rule ''a'' Allow 9] [] = Inr [ex_rule ''a'' Allow 9, ex_rule ''b'' Deny 0]"
proof (rule policy_order_irrelevant [of "[ex_rule ''a'' Allow 9, ex_rule ''b'' Deny 0]"])
  show "efold add_rule [ex_rule ''a'' Allow 9, ex_rule ''b'' Deny 0] [] =
    Inr [ex_rule ''a'' Allow 9, ex_rule ''b'' Deny 0]"
    by (simp add: add_rule_def ex_rule_def)
qed simp

section \<open>Plain patterns\<close>

definition plain :: "pystr \<Rightarrow> bool" where
  "plain lit \<longleftrightarrow> CHR ''*'' \<notin> set lit \<and> CHR ''?'' \<notin> set lit \<and> CHR ''['' \<notin> set lit"

lemma glob_parse_plain: "plain lit \<Longrightarrow> glob_parse (lit @ rest) = map Lit lit @ glob_parse rest"
  by (induction lit) (auto simp: plain_def)

lemma glob_match_lits: "glob_match (map Lit lit @ ps) s \<longleftrightarrow> (\<exists>t. s = lit @ t \<and> glob_match ps t)"
proof (induction lit arbitrary: s)
  case (Cons a lit)
  then show ?case by (cases s) auto
qed simp

lemma glob_match_any: "glob_match [Star] s"
  by (induction s) auto

text \<open>What the patterns of a policy mean: a pattern without wildcards matches its own text only, a plain
  prefix followed by a star matches exactly the texts with that prefix (so \<open>enterprise.*\<close> never reaches beyond the
  \<open>enterprise.\<close> names), and in general a name matches exactly when the items of the pattern spell it.\<close>

lemma pattern_language:
  assumes "plain lit"
  shows "fnmatchcase name lit = (name = lit) \<and>
    fnmatchcase name (lit @ ''*'') = (\<exists>t. name = lit @ t) \<and>
    fnmatchcase name pat = spells (glob_parse pat) name"
  using glob_parse_plain [OF assms, of "[]"] glob_parse_plain [OF assms, of "''*''"]
    glob_match_lits [of lit "[]" name] glob_match_lits [of lit "[Star]" name] glob_match_spells [of "glob_parse pat" name]
  by (simp add: fnmatchcase_def glob_match_any)

lemma pattern_language_witness:
  "fnmatchcase ''a.b'' (''a.'' @ ''*'') \<and> \<not> fnmatchcase ''ab'' (''a.'' @ ''*'') \<and> \<not> fnmatchcase ''a.b'' ''a.''"
proof -
  have "plain ''a.''" by (simp add: plain_def)
  note * = pattern_language [OF this]
  from * [of "''a.b''" "[]"] * [of "''ab''" "[]"] show ?thesis unfolding append.simps by blast
qed

section \<open>The catalogue\<close>

definition catalog_wf :: "catalog \<Rightarrow> bool" where
  "catalog_wf cat \<longleftrightarrow> distinct (map fst cat) \<and>
     (\<forall>(name, c) \<in> set cat. name = py_strip (c_name c) \<and> name \<noteq> [] \<and> CHR '' '' \<notin> set name)"

lemma catalog_register_wf:
  assumes "catalog_register c cat = Inr cat'" and "catalog_wf cat"
  shows "catalog_wf cat' \<and> catalog_get (py_strip (c_name c)) cat' = Some c \<and> snd ` set cat' = insert c (snd ` set cat) \<and>
    (\<forall>n d. catalog_get n cat = Some d \<longrightarrow> catalog_get n cat' = Some d)"
proof (cases "map_of cat (py_strip (c_name c))")
  case None
  then have "py_strip (c_name c) \<notin> fst ` set cat" by (simp add: map_of_eq_None_iff)
  moreover from None assms(1) have "cat' = cat @ [(py_strip (c_name c), c)]" "py_strip (c_name c) \<noteq> []"
    "CHR '' '' \<notin> set (py_strip (c_name c))"
    by (simp_all add: catalog_register_def Let_def split: if_splits)
  ultimately show ?thesis using assms(2) None by (auto simp: catalog_wf_def catalog_get_def map_add_def split: option.splits)
next
  case (Some c0)
  with assms(1) have "cat' = cat" "c0 = c" by (simp_all add: catalog_register_def Let_def split: if_splits)
  moreover from Some have "(py_strip (c_name c), c0) \<in> set cat" by (rule map_of_SomeD)
  then have "c0 \<in> snd ` set cat" by (rule image_eqI [rotated]) simp
  ultimately show ?thesis using assms(2) Some by (auto simp: catalog_get_def)
qed

lemma efold_register_wf:
  assumes "efold catalog_register defs cat = Inr cat'" and "catalog_wf cat"
  shows "catalog_wf cat' \<and> snd ` set cat' = set defs \<union> snd ` set cat \<and>
    (\<forall>c \<in> set defs. catalog_get (py_strip (c_name c)) cat' = Some c) \<and>
    (\<forall>n d. catalog_get n cat = Some d \<longrightarrow> catalog_get n cat' = Some d)"
  using assms
proof (induction defs arbitrary: cat)
  case (Cons c defs)
  then obtain cat1 where c: "catalog_register c cat = Inr cat1" and rest: "efold catalog_register defs cat1 = Inr cat'"
    by auto
  from catalog_register_wf [OF c Cons.prems(2)] Cons.IH [OF rest] show ?case by auto
qed simp

lemma register_all_lookup:
  assumes "efold catalog_register defs [] = Inr cat"
  shows "catalog_wf cat \<and> (catalog_get n cat = Some c \<longleftrightarrow> c \<in> set defs \<and> n = py_strip (c_name c))"
proof -
  have "catalog_wf []" by (simp add: catalog_wf_def)
  note all = efold_register_wf [OF assms this]
  then have wf: "catalog_wf cat" and im: "snd ` set cat = set defs" by simp_all
  have "c \<in> set defs \<and> n = py_strip (c_name c)" if "catalog_get n cat = Some c"
  proof -
    from that have mem: "(n, c) \<in> set cat" unfolding catalog_get_def by (rule map_of_SomeD)
    then have "c \<in> snd ` set cat" by (rule image_eqI [rotated]) simp
    moreover from mem wf have "n = py_strip (c_name c)" unfolding catalog_wf_def by blast
    ultimately show ?thesis using im by blast
  qed
  with wf all show ?thesis by blast
qed

lemma make_catalog_lookup:
  "make_catalog defs = Inr cat \<Longrightarrow> catalog_wf cat \<and> (catalog_get n cat = Some c \<longleftrightarrow>
     c \<in> set (if defs = [] then DEFAULT_CAPABILITIES else defs) \<and> n = py_strip (c_name c))"
  unfolding make_catalog_def by (rule register_all_lookup)

section \<open>The default catalogue\<close>

text \<open>The default names are tokens of small letters, dots and underscores.\<close>

definition token_char :: "char \<Rightarrow> bool" where
  "token_char c \<longleftrightarrow> c = CHR ''.'' \<or> c = CHR ''_'' \<or> (97 \<le> ord_c c \<and> ord_c c \<le> 122)"

lemma token_not_space: "token_char c \<Longrightarrow> \<not> py_isspace c \<and> c \<noteq> CHR '' ''"
  by (auto simp: token_char_def py_isspace_def ord_c_def)

lemma default_tokens:
  "list_all (\<lambda>n. n \<noteq> [] \<and> list_all token_char n) (personal_names @ developer_names @ enterprise_names)"
  by (simp add: personal_names_def developer_names_def enterprise_names_def token_char_def ord_c_def)

lemma default_distinct: "distinct (personal_names @ developer_names @ enterprise_names)"
  by (simp add: personal_names_def developer_names_def enterprise_names_def)

lemma default_names: "map c_name DEFAULT_CAPABILITIES = personal_names @ developer_names @ enterprise_names"
  by (simp add: DEFAULT_CAPABILITIES_def comp_def)

lemma register_tokens:
  assumes "\<forall>c \<in> set defs. c_name c \<noteq> [] \<and> list_all token_char (c_name c)"
    and "distinct (map fst cat @ map c_name defs)"
  shows "efold catalog_register defs cat = Inr (cat @ map (\<lambda>c. (c_name c, c)) defs)"
  using assms
proof (induction defs arbitrary: cat)
  case (Cons c defs)
  have chars: "\<forall>x \<in> set (c_name c). \<not> py_isspace x \<and> x \<noteq> CHR '' ''"
    using Cons.prems(1) token_not_space by (auto simp: list_all_iff)
  then have "py_strip (c_name c) = c_name c" by (intro strip_id) simp
  moreover have "map_of cat (c_name c) = None" using Cons.prems(2) by (auto simp: map_of_eq_None_iff)
  moreover have "CHR '' '' \<notin> set (c_name c)" using chars by blast
  ultimately have "catalog_register c cat = Inr (cat @ [(c_name c, c)])"
    using Cons.prems(1) by (simp add: catalog_register_def Let_def)
  moreover have "efold catalog_register defs (cat @ [(c_name c, c)]) =
      Inr ((cat @ [(c_name c, c)]) @ map (\<lambda>c. (c_name c, c)) defs)"
    using Cons.prems by (intro Cons.IH) simp_all
  ultimately show ?case by simp
qed simp

definition default_catalog :: catalog where
  "default_catalog = map (\<lambda>c. (c_name c, c)) DEFAULT_CAPABILITIES"

lemma make_default_catalog: "make_catalog [] = Inr default_catalog"
proof -
  have "\<forall>c \<in> set DEFAULT_CAPABILITIES. c_name c \<noteq> [] \<and> list_all token_char (c_name c)"
    using default_tokens unfolding default_names [symmetric] by (simp add: list_all_iff)
  moreover have "distinct (map fst ([] :: catalog) @ map c_name DEFAULT_CAPABILITIES)"
    using default_distinct by (simp add: default_names)
  ultimately show ?thesis by (simp add: make_catalog_def default_catalog_def register_tokens)
qed

lemma default_domain:
  "catalog_get n default_catalog = Some c \<Longrightarrow>
     (c_domain c = Enterprise \<longleftrightarrow> n \<in> set enterprise_names) \<and> c_name c = n"
  using default_distinct
  by (auto simp: default_catalog_def catalog_get_def DEFAULT_CAPABILITIES_def dest!: map_of_SomeD)

text \<open>A catalogue that could be built is a function from names: a look-up finds a capability exactly when it is one
  of the definitions and the name is its stripped name, whatever order they came in, a later
  registration never changes what a name means, and the snapshot lists the definitions by name.\<close>

lemma catalog_lookup:
  assumes "efold catalog_register defs [] = Inr cat" and "catalog_register d cat = Inr cat'"
  shows "(catalog_get n cat = Some c \<longleftrightarrow> c \<in> set defs \<and> n = py_strip (c_name c)) \<and>
    (catalog_get n cat' = Some c \<longleftrightarrow> catalog_get n cat = Some c \<or> c = d \<and> n = py_strip (c_name d)) \<and>
    set (catalog_snapshot cat) = set defs \<and> sorted (map (\<lambda>c. py_strip (c_name c)) (catalog_snapshot cat))"
proof -
  have "catalog_wf []" by (simp add: catalog_wf_def)
  note all = efold_register_wf [OF assms(1) this]
  have "efold catalog_register (defs @ [d]) [] = Inr cat'"
  proof -
    have "efold f (xs @ [y]) s = ebind (efold f xs s) (f y)" for f :: "capability_definition \<Rightarrow> catalog \<Rightarrow> exc + catalog" and xs y s
    proof (induction xs arbitrary: s)
      case Nil
      show ?case by (cases "f y s") simp_all
    next
      case (Cons x xs)
      then show ?case by (cases "f x s") simp_all
    qed
    with assms show ?thesis by simp
  qed
  note two = register_all_lookup [OF this, of n c] and one = register_all_lookup [OF assms(1), of n c]
  have im: "snd ` set cat = set defs" and wf: "catalog_wf cat" using all by simp_all
  have "map (\<lambda>c. py_strip (c_name c)) (catalog_snapshot cat) = map fst (sort_key fst cat)"
    using wf by (auto simp: catalog_snapshot_def catalog_wf_def)
  moreover have "set (catalog_snapshot cat) = set defs" using im by (simp add: catalog_snapshot_def)
  ultimately show ?thesis using one two by auto
qed

lemma catalog_lookup_witness:
  "catalog_get ''profiler'' default_catalog = Some \<lparr>c_name = ''profiler'', c_domain = Developer, c_description = []\<rparr>"
proof -
  let ?c = "\<lparr>c_name = ''profiler'', c_domain = Developer, c_description = []\<rparr>"
  have mem: "?c \<in> set DEFAULT_CAPABILITIES" by (simp add: DEFAULT_CAPABILITIES_def developer_names_def)
  have str: "py_strip ''profiler'' = ''profiler''" by (rule strip_id) (simp add: py_isspace_def ord_c_def)
  have all: "efold catalog_register DEFAULT_CAPABILITIES [] = Inr default_catalog"
    using make_default_catalog by (simp add: make_catalog_def)
  with mem str have "catalog_get ''profiler'' default_catalog = Some ?c" using register_all_lookup [OF all] by simp
  then have "catalog_register ?c default_catalog = Inr default_catalog"
    by (simp add: catalog_register_def catalog_get_def str)
  from catalog_lookup [OF all this, of "''profiler''" ?c] mem str show ?thesis by simp
qed

end
