(* ===== verification/AuditLog.thy ===== *)
theory AuditLog
  imports PyJson SecurityModels "HOL-Library.Sublist"
begin

text \<open>
  \<^verbatim>\<open>security/audit.py\<close>: the hash chain of security events with its primary file, its recovery file and the
  emergency buffer in memory. A line of a file is what \<open>json.loads\<close> makes of it; the order of the members of
  a row plays no part, since every use looks them up by name or prints them with sorted keys. What an
  append or a read does when the operating system fails it is an argument of the operations: the text of
  the \<open>OSError\<close>, and the lines a reader finds at the end of the file after a failed append. SHA-256, the \<open>str\<close> of
  a container and the texts of \<open>TypeError\<close>s are parameters.
\<close>

section \<open>Rows\<close>

record audit_env =
  ae_sha :: "pystr \<Rightarrow> pystr"
  ae_str :: "json \<Rightarrow> pystr"
  ae_raise :: "json \<Rightarrow> pystr"

type_synonym row = "(pystr \<times> json) list"

datatype audit_line =
    LongLine
  | BlankLine
  | BadLine pystr
  | NonObject
  | RowLine row

definition ALGORITHM :: pystr where
  "ALGORITHM = ''sha256-chain-v1''"

definition MAX_LINE_BYTES :: nat where
  "MAX_LINE_BYTES = 1024 * 1024"

definition MAX_EMERGENCY_EVENTS :: nat where
  "MAX_EMERGENCY_EVENTS = 10000"

text \<open>\<open>str(v or "")\<close> of a member that may be missing.\<close>

definition text_of :: "audit_env \<Rightarrow> json option \<Rightarrow> pystr" where
  "text_of env v = str_or (ae_str env) v []"

definition row_metadata :: "row \<Rightarrow> json" where
  "row_metadata row = member_or_null row ''integrity_metadata''"

text \<open>
  \<open>_canonical_without_event_hash\<close>, as a value: the row with its metadata less the event hash. Keys that are not text
  cannot be sorted beside the text keys, so printing raises: \<open>None\<close>.
\<close>

definition text_keys :: "(json \<times> json) list \<Rightarrow> row option" where
  "text_keys kvs = those (map (\<lambda>(k, v). case k of JStr s \<Rightarrow> Some (s, v) | _ \<Rightarrow> None) kvs)"

definition canonical_row :: "row \<Rightarrow> json option" where
  "canonical_row row =
     (case dict_of (row_metadata row) of
        Inl _ \<Rightarrow> None
      | Inr meta \<Rightarrow> map_option
          (\<lambda>kvs. JObj (AList.update ''integrity_metadata'' (JObj (filter (\<lambda>(k, _). k \<noteq> ''event_hash'') kvs)) row))
          (text_keys meta))"

definition row_hash :: "audit_env \<Rightarrow> json \<Rightarrow> pystr" where
  "row_hash env canonical = ae_sha env (dumps canonical)"

definition failed_text :: "audit_env \<Rightarrow> json \<Rightarrow> pystr" where
  "failed_text env v = ''audit verification failed: '' @ ae_raise env v"

definition row_text :: "nat \<Rightarrow> pystr \<Rightarrow> pystr" where
  "row_text index msg = ''row '' @ show_nat index @ msg"

text \<open>\<open>_verify_row\<close>: \<open>Inr\<close> the new head of the chain, else the reason; both callers turn a raise into the same reason.\<close>

definition verify_row :: "audit_env \<Rightarrow> row \<Rightarrow> pystr \<Rightarrow> nat \<Rightarrow> pystr + pystr" where
  "verify_row env row previous index =
     (case dict_of (row_metadata row) of
        Inl _ \<Rightarrow> Inl (failed_text env (row_metadata row))
      | Inr meta \<Rightarrow>
          let get = (\<lambda>k. map_of meta (JStr k)) in
          if get ''algorithm'' \<noteq> Some (JStr ALGORITHM) then Inl (row_text index '' algorithm mismatch'')
          else if text_of env (get ''previous_hash'') \<noteq> previous then Inl (row_text index '' previous hash mismatch'')
          else (case canonical_row row of
              None \<Rightarrow> Inl (failed_text env (row_metadata row))
            | Some canonical \<Rightarrow>
                let expected = text_of env (get ''event_hash'') in
                if expected = [] \<or> expected \<noteq> row_hash env canonical
                then Inl (row_text index '' event hash mismatch'')
                else Inr expected))"

fun scan_lines :: "audit_env \<Rightarrow> pystr \<Rightarrow> nat \<Rightarrow> audit_line list \<Rightarrow> bool \<times> pystr \<times> pystr" where
  "scan_lines env previous index [] = (True, previous, if index = 0 then ''empty'' else ''ok'')"
| "scan_lines env previous index (line # lines) =
     (case line of
        LongLine \<Rightarrow> (False, previous, row_text index '' exceeds maximum audit line size'')
      | BlankLine \<Rightarrow> (False, previous, row_text index '' is blank'')
      | BadLine t \<Rightarrow> (False, previous, row_text index ('' is invalid: '' @ t))
      | NonObject \<Rightarrow> (False, previous, row_text index '' is not an object'')
      | RowLine row \<Rightarrow>
          (case verify_row env row previous index of
             Inl reason \<Rightarrow> (False, previous, reason)
           | Inr expected \<Rightarrow> scan_lines env expected (Suc index) lines))"

text \<open>\<open>_scan_path\<close>: \<open>None\<close> is a file that does not exist, \<open>rd\<close> the text of the exception reading it raises, if any.\<close>

definition scan_path :: "audit_env \<Rightarrow> pystr option \<Rightarrow> audit_line list option \<Rightarrow> bool \<times> pystr \<times> pystr" where
  "scan_path env rd file =
     (case file of
        None \<Rightarrow> (True, [], ''empty'')
      | Some lines \<Rightarrow> (case rd of
          Some t \<Rightarrow> (False, [], ''audit verification failed: '' @ t)
        | None \<Rightarrow> scan_lines env [] 0 lines))"

section \<open>Events\<close>

record audit_event =
  e_id :: pystr
  e_actor :: pystr
  e_action :: pystr
  e_resource :: pystr
  e_decision :: pystr
  e_domain :: trust_domain
  e_device :: pystr
  e_time :: pystr
  e_correlation :: pystr
  e_reason :: pystr
  e_meta :: "(pystr \<times> pystr) list"

definition domain_value :: "trust_domain \<Rightarrow> pystr" where
  "domain_value d = (case d of Personal \<Rightarrow> ''personal'' | Developer \<Rightarrow> ''developer'' | Enterprise \<Rightarrow> ''enterprise'')"

definition event_row :: "audit_event \<Rightarrow> row" where
  "event_row e =
     [(''id'', JStr (e_id e)), (''actor'', JStr (e_actor e)), (''action'', JStr (e_action e)),
      (''resource'', JStr (e_resource e)), (''decision'', JStr (e_decision e)),
      (''trust_domain'', JStr (domain_value (e_domain e))), (''device'', JStr (e_device e)),
      (''time'', JStr (e_time e)), (''correlation_id'', JStr (e_correlation e)), (''reason'', JStr (e_reason e)),
      (''integrity_metadata'', JObj (map (\<lambda>(k, v). (k, JStr v)) (e_meta e)))]"

text \<open>
  \<open>_encoded_row\<close>: the event with the metadata it assigns, and the hash, or \<open>None\<close> where it raises
  \<open>AUDIT_EVENT_TOO_LARGE\<close>. The hash is of the event with the metadata that do not hold it yet.
\<close>

definition encoded_row :: "audit_env \<Rightarrow> pystr \<Rightarrow> pystr \<Rightarrow> pystr \<Rightarrow> audit_event \<Rightarrow> audit_event \<times> pystr option" where
  "encoded_row env previous channel primary_error e =
     (let meta = [(''algorithm'', ALGORITHM), (''previous_hash'', previous), (''channel'', channel)] @
            (if primary_error = [] then [] else [(''primary_integrity_error'', take 512 primary_error)]);
          h = row_hash env (JObj (event_row (e\<lparr>e_meta := meta\<rparr>)));
          e' = e\<lparr>e_meta := meta @ [(''event_hash'', h)]\<rparr>
      in (e', if MAX_LINE_BYTES < utf8_len (dumps (JObj (event_row e'))) + 1 then None else Some h))"

section \<open>The log\<close>

datatype failure_policy = FailClosed | FailOperational

datatype audit_mode = ModeNormal | ModeDegraded | ModeRecovery

record audit_log =
  al_path :: "pystr option"
  al_recovery_path :: "pystr option"
  al_policy :: failure_policy
  al_file :: "audit_line list option"
  al_recovery :: "audit_line list option"
  al_memory :: "row list"
  al_emergency :: "row list"
  al_last :: pystr
  al_recovery_last :: pystr
  al_error :: pystr
  al_recovery_error :: pystr
  al_mode :: audit_mode
  al_marker :: bool

text \<open>What an append to a file does: it writes the line, or fails with a text and leaves lines behind.\<close>

datatype io = Written | Failed pystr "audit_line list"

datatype outcome = Recorded | OsFailed pystr | Raised exc

definition append_lines :: "audit_line list option \<Rightarrow> audit_line list \<Rightarrow> audit_line list option" where
  "append_lines file new = (case file of
     None \<Rightarrow> (if new = [] then None else Some new)
   | Some lines \<Rightarrow> Some (lines @ new))"

text \<open>\<open>AuditLog.__init__\<close>.\<close>

definition open_log ::
  "audit_env \<Rightarrow> pystr option \<Rightarrow> pystr option \<Rightarrow> pystr option \<Rightarrow> pystr option \<Rightarrow> failure_policy \<Rightarrow>
    audit_line list option \<Rightarrow> audit_line list option \<Rightarrow> audit_log"
where
  "open_log env rd rd' path recovery_path policy file recovery =
     (let (valid, h, reason) = (if path = None then (True, [], []) else scan_path env rd file);
          (rvalid, rh, rreason) = (if path = None then (True, [], []) else scan_path env rd' recovery)
      in \<lparr>al_path = path, al_recovery_path = (if path = None then None else recovery_path), al_policy = policy,
          al_file = file, al_recovery = recovery, al_memory = [], al_emergency = [],
          al_last = (if valid then h else []), al_recovery_last = (if rvalid then rh else []),
          al_error = (if valid then [] else reason), al_recovery_error = (if rvalid then [] else rreason),
          al_mode = (if valid then ModeNormal else ModeDegraded), al_marker = (rvalid \<and> rh \<noteq> [])\<rparr>)"

definition too_large :: exc where
  "too_large = security_fail ''AUDIT_EVENT_TOO_LARGE''"

definition append_primary :: "audit_env \<Rightarrow> io \<Rightarrow> audit_event \<Rightarrow> audit_log \<Rightarrow> outcome \<times> audit_event \<times> audit_log" where
  "append_primary env io e st =
     (case encoded_row env (al_last st) ''primary'' [] e of
        (e', None) \<Rightarrow> (Raised too_large, e', st)
      | (e', Some h) \<Rightarrow>
          if al_path st = None then
            (Recorded, e', st\<lparr>al_memory := al_memory st @ [event_row e'], al_last := h, al_mode := ModeNormal\<rparr>)
          else (case io of
              Written \<Rightarrow> (Recorded, e', st\<lparr>al_file := append_lines (al_file st) [RowLine (event_row e')], al_last := h,
                al_mode := ModeNormal\<rparr>)
            | Failed t torn \<Rightarrow> (OsFailed t, e', st\<lparr>al_file := append_lines (al_file st) torn\<rparr>)))"

definition append_emergency :: "audit_event \<Rightarrow> pystr \<Rightarrow> audit_log \<Rightarrow> outcome \<times> audit_event \<times> audit_log" where
  "append_emergency e t st =
     (let meta = AList.update ''primary_integrity_error'' (take 512 (al_error st))
            (AList.update ''durability_error'' (take 512 t) (AList.update ''channel'' ''emergency-memory'' (e_meta e)))
      in if MAX_EMERGENCY_EVENTS \<le> length (al_emergency st)
         then (Raised (security_fail ''AUDIT_EMERGENCY_BUFFER_FULL''), e, st)
         else (Recorded, e, st\<lparr>al_emergency := al_emergency st @ [event_row (e\<lparr>e_meta := meta\<rparr>)],
           al_mode := ModeDegraded\<rparr>))"

definition recovery_marker :: "pystr \<times> pystr \<Rightarrow> audit_log \<Rightarrow> audit_event" where
  "recovery_marker fresh st =
     \<lparr>e_id = fst fresh, e_actor = ''arenyxa.audit'', e_action = ''audit.degraded'',
      e_resource = (case al_path st of Some p \<Rightarrow> p | None \<Rightarrow> ''memory''), e_decision = ''recovery'',
      e_domain = Enterprise, e_device = [], e_time = snd fresh, e_correlation = [],
      e_reason = (if al_error st = [] then ''primary audit sink unavailable'' else al_error st), e_meta = []\<rparr>"

text \<open>One line of the recovery chain: the marker, or the event.\<close>

definition recovery_line :: "audit_env \<Rightarrow> io \<Rightarrow> audit_event \<Rightarrow> audit_log \<Rightarrow> outcome \<times> audit_event \<times> audit_log" where
  "recovery_line env io e st =
     (case encoded_row env (al_recovery_last st) ''recovery'' (al_error st) e of
        (e', None) \<Rightarrow> (Raised too_large, e', st)
      | (e', Some h) \<Rightarrow> (case io of
          Written \<Rightarrow> (Recorded, e', st\<lparr>al_recovery := append_lines (al_recovery st) [RowLine (event_row e')],
            al_recovery_last := h\<rparr>)
        | Failed t torn \<Rightarrow> (OsFailed t, e', st\<lparr>al_recovery := append_lines (al_recovery st) torn\<rparr>)))"

definition append_recovery ::
  "audit_env \<Rightarrow> io \<Rightarrow> io \<Rightarrow> pystr \<times> pystr \<Rightarrow> audit_event \<Rightarrow> audit_log \<Rightarrow> outcome \<times> audit_event \<times> audit_log"
where
  "append_recovery env io_m io fresh e st =
     (if al_recovery_path st = None then append_emergency e ''RuntimeError: recovery audit path is unavailable'' st
      else (let (m, _, st1) =
              (if al_marker st then (Recorded, e, st)
               else (case recovery_line env io_m (recovery_marker fresh st) st of
                   (Recorded, m, st1) \<Rightarrow> (Recorded, m, st1\<lparr>al_marker := True\<rparr>)
                 | r \<Rightarrow> r))
            in if m \<noteq> Recorded then (m, e, st1)
               else (case recovery_line env io e st1 of
                   (Recorded, e', st2) \<Rightarrow> (Recorded, e', st2\<lparr>al_recovery_error := [], al_mode := ModeRecovery\<rparr>)
                 | r \<Rightarrow> r)))"

definition recovery_or_emergency ::
  "audit_env \<Rightarrow> io \<Rightarrow> io \<Rightarrow> pystr \<times> pystr \<Rightarrow> audit_event \<Rightarrow> audit_log \<Rightarrow> outcome \<times> audit_event \<times> audit_log"
where
  "recovery_or_emergency env io_m io fresh e st =
     (case append_recovery env io_m io fresh e st of
        (OsFailed t, e', st1) \<Rightarrow> append_emergency e' t (st1\<lparr>al_recovery_error := t\<rparr>)
      | r \<Rightarrow> r)"

text \<open>\<open>record\<close>, with what the appends to the primary file, of the marker and to the recovery file do.\<close>

definition record_event ::
  "audit_env \<Rightarrow> io \<Rightarrow> io \<Rightarrow> io \<Rightarrow> pystr \<times> pystr \<Rightarrow> audit_event \<Rightarrow> audit_log \<Rightarrow> outcome \<times> audit_event \<times> audit_log"
where
  "record_event env io_p io_m io_r fresh e st =
     (if al_error st \<noteq> [] then
        (if al_policy st = FailClosed then (Raised (security_fail ''AUDIT_INTEGRITY_BROKEN''), e, st)
         else recovery_or_emergency env io_m io_r fresh e st)
      else (case append_primary env io_p e st of
          (OsFailed t, e', st1) \<Rightarrow>
            let st2 = st1\<lparr>al_error := ''primary audit append failed: '' @ t, al_mode := ModeDegraded\<rparr> in
            if al_policy st2 = FailClosed then (Raised (security_fail ''AUDIT_APPEND_FAILED''), e', st2)
            else recovery_or_emergency env io_m io_r fresh e' st2
        | r \<Rightarrow> r))"

text \<open>\<open>emit\<close>: \<open>fresh_e\<close> is the identifier and the time the event gets.\<close>

definition emitted_event ::
  "pystr \<times> pystr \<Rightarrow> pystr \<Rightarrow> pystr \<Rightarrow> pystr \<Rightarrow> pystr \<Rightarrow> trust_domain \<Rightarrow> pystr \<Rightarrow> pystr \<Rightarrow> pystr \<Rightarrow> audit_event"
where
  "emitted_event fresh_e actor action resource dec td dev corr reason =
     \<lparr>e_id = fst fresh_e, e_actor = take 256 actor, e_action = take 256 action, e_resource = take 4096 resource,
      e_decision = take 64 dec, e_domain = td, e_device = take 256 dev, e_time = snd fresh_e,
      e_correlation = take 256 corr, e_reason = take 512 reason, e_meta = []\<rparr>"

fun scan_rows :: "audit_env \<Rightarrow> pystr \<Rightarrow> nat \<Rightarrow> row list \<Rightarrow> pystr + pystr" where
  "scan_rows env previous index [] = Inr previous"
| "scan_rows env previous index (row # rows) =
     ebind (verify_row env row previous index) (\<lambda>h. scan_rows env h (Suc index) rows)"

definition verify_log :: "audit_env \<Rightarrow> pystr option \<Rightarrow> audit_log \<Rightarrow> (bool \<times> pystr) \<times> audit_log" where
  "verify_log env rd st =
     (if al_path st = None then
        ((case scan_rows env [] 0 (al_memory st) of
            Inl reason \<Rightarrow> (False, reason)
          | Inr _ \<Rightarrow> (True, if al_memory st = [] then ''empty'' else ''ok'')), st)
      else (case scan_path env rd (al_file st) of
          (True, h, reason) \<Rightarrow> ((True, reason), st\<lparr>al_last := h, al_error := [],
            al_mode := (if al_mode st = ModeDegraded \<and> al_recovery_error st = []
              then (if al_marker st then ModeRecovery else ModeNormal) else al_mode st)\<rparr>)
        | (False, _, reason) \<Rightarrow> ((False, reason), st\<lparr>al_error := reason,
            al_mode := (if al_mode st = ModeNormal then ModeDegraded else al_mode st)\<rparr>)))"

definition recovery_verify :: "audit_env \<Rightarrow> pystr option \<Rightarrow> audit_log \<Rightarrow> (bool \<times> pystr) \<times> audit_log" where
  "recovery_verify env rd st =
     (if al_recovery_path st = None then
        ((al_emergency st = [], if al_emergency st = [] then ''empty'' else ''memory-only''), st)
      else (case scan_path env rd (al_recovery st) of
          (True, h, reason) \<Rightarrow> ((True, reason), st\<lparr>al_recovery_last := h, al_recovery_error := []\<rparr>)
        | (False, _, reason) \<Rightarrow> ((False, reason), st\<lparr>al_recovery_error := reason\<rparr>)))"

definition appendable :: "audit_log \<Rightarrow> bool" where
  "appendable st \<longleftrightarrow> al_error st = [] \<or> al_policy st = FailOperational"

end
