(* ===== verification/AuditProperties.thy ===== *)
theory AuditProperties
  imports AuditLog "HOL-Library.Multiset"
begin

text \<open>
  What the audit log promises: the chain it believes valid is valid, no accepted event is lost, the
  failure policies, and how much a hash chain shows of tampering.
\<close>

section \<open>Appending to a chain\<close>

lemma pair_keys: "map (\<lambda>(k, x). (JStr k, x)) (map (\<lambda>(k, v). (k, JStr v)) meta) = map (\<lambda>(k, v). (JStr k, JStr v)) meta"
  by (induction meta) auto

lemma text_keys_text: "text_keys (map (\<lambda>(k, x). (JStr k, x)) kvs) = Some kvs"
  by (induction kvs) (auto simp: text_keys_def)

lemma map_of_text_keys: "map_of (map (\<lambda>(k, x). (JStr k, x)) kvs) (JStr k) = map_of kvs k"
  by (induction kvs) auto

lemma dict_of_obj: "dict_of (JObj kvs) = Inr (map (\<lambda>(k, x). (JStr k, x)) kvs)"
  by (simp add: dict_of_def truthy_def)

lemma row_metadata_event: "row_metadata (event_row e) = JObj (map (\<lambda>(k, v). (k, JStr v)) (e_meta e))"
  by (simp add: row_metadata_def member_or_null_def event_row_def)

lemma filter_meta: "filter (\<lambda>(k, _). P k) (map (\<lambda>(k, v). (k, JStr v)) meta) = map (\<lambda>(k, v). (k, JStr v)) (filter (\<lambda>(k, _). P k) meta)"
  by (induction meta) auto

lemma canonical_event:
  "canonical_row (event_row e) =
     Some (JObj (event_row (e\<lparr>e_meta := filter (\<lambda>(k, _). k \<noteq> ''event_hash'') (e_meta e)\<rparr>)))"
  unfolding canonical_row_def row_metadata_event dict_of_obj sum.case text_keys_text option.map filter_meta
  by (simp add: event_row_def)

lemma map_of_meta: "map_of (map (\<lambda>(k, v). (k, JStr v)) meta) k = map_option JStr (map_of meta k)"
  by (induction meta) auto

lemma text_of_JStr: "text_of env (Some (JStr s)) = s"
  by (simp add: text_of_def str_or_JStr)

lemma encoded_row_verifies:
  assumes "encoded_row env previous channel err e = (e', Some h)" and "h \<noteq> []"
  shows "verify_row env (event_row e') previous index = Inr h"
proof -
  define meta where "meta = [(''algorithm'', ALGORITHM), (''previous_hash'', previous), (''channel'', channel)] @
    (if err = [] then [] else [(''primary_integrity_error'', take 512 err)])"
  from assms(1) have e': "e' = e\<lparr>e_meta := meta @ [(''event_hash'', h)]\<rparr>"
    and h: "h = row_hash env (JObj (event_row (e\<lparr>e_meta := meta\<rparr>)))"
    by (simp_all add: encoded_row_def Let_def meta_def split: if_splits)
  have "filter (\<lambda>(k, _). k \<noteq> ''event_hash'') meta = meta" by (simp add: meta_def)
  then have canonical: "canonical_row (event_row e') = Some (JObj (event_row (e\<lparr>e_meta := meta\<rparr>)))"
    by (simp add: canonical_event e')
  have "map_of meta ''algorithm'' = Some ALGORITHM" "map_of meta ''previous_hash'' = Some previous"
    "map_of meta ''event_hash'' = None" by (simp_all add: meta_def)
  then have "map_of (e_meta e') ''algorithm'' = Some ALGORITHM" "map_of (e_meta e') ''previous_hash'' = Some previous"
    "map_of (e_meta e') ''event_hash'' = Some h" by (simp_all add: e' map_add_def)
  with assms(2) h canonical show ?thesis
    by (simp add: verify_row_def row_metadata_event dict_of_obj map_of_text_keys map_of_meta text_of_JStr Let_def
        del: map_map list.map_comp)
qed

lemma scan_lines_snoc:
  assumes "scan_lines env p i lines = (True, h, r)" and "verify_row env row h (i + length lines) = Inr h'"
  shows "scan_lines env p i (lines @ [RowLine row]) = (True, h', ''ok'')"
  using assms
proof (induction env p i lines rule: scan_lines.induct)
  case (2 env p i line lines)
  then show ?case by (cases line) (auto split: sum.splits)
qed simp

lemma scan_lines_prefix:
  "scan_lines env p i (xs @ ys) = (True, h, r) \<Longrightarrow> \<exists>h' r'. scan_lines env p i xs = (True, h', r')"
proof (induction xs arbitrary: p i)
  case (Cons x xs)
  then show ?case by (cases x) (auto split: sum.splits)
qed simp

lemma verify_row_reason: "verify_row env row p i = Inl r \<Longrightarrow> r \<noteq> []"
  by (auto simp: verify_row_def row_text_def failed_text_def Let_def split: option.splits sum.splits if_splits)

lemma scan_lines_reason: "scan_lines env p i lines = (False, h, r) \<Longrightarrow> r \<noteq> []"
proof (induction env p i lines rule: scan_lines.induct)
  case (2 env p i line lines)
  then show ?case by (cases line) (auto simp: row_text_def dest: verify_row_reason split: sum.splits)
qed simp

lemma scan_path_reason: "scan_path env rd file = (False, h, r) \<Longrightarrow> r \<noteq> []"
  by (auto simp: scan_path_def dest: scan_lines_reason split: option.splits)

lemma scan_rows_snoc:
  assumes "scan_rows env p i rows = Inr h" and "verify_row env row h (i + length rows) = Inr h'"
  shows "scan_rows env p i (rows @ [row]) = Inr h'"
  using assms by (induction rows arbitrary: p i) auto

text \<open>A file whose chain is intact and ends in \<open>h\<close>.\<close>

definition chain_head :: "audit_env \<Rightarrow> audit_line list option \<Rightarrow> pystr \<Rightarrow> bool" where
  "chain_head env file h \<longleftrightarrow> fst (scan_path env None file) \<and> fst (snd (scan_path env None file)) = h"

lemma chain_head_iff: "chain_head env file h \<longleftrightarrow> (\<exists>r. scan_path env None file = (True, h, r))"
  unfolding chain_head_def by (cases "scan_path env None file") auto

lemma chain_head_append:
  assumes "chain_head env file h" and "encoded_row env h channel err e = (e', Some h')" and "h' \<noteq> []"
  shows "chain_head env (append_lines file [RowLine (event_row e')]) h'"
proof -
  note ok = encoded_row_verifies [OF assms(2,3)]
  show ?thesis
  proof (cases "file")
    case None
    with assms(1) have "h = []" by (simp add: chain_head_iff scan_path_def)
    with ok show ?thesis by (simp add: None append_lines_def chain_head_iff scan_path_def)
  next
    case (Some lines)
    with assms(1) obtain r where "scan_lines env [] 0 lines = (True, h, r)" by (auto simp: chain_head_iff scan_path_def)
    from scan_lines_snoc [OF this] ok show ?thesis by (simp add: Some append_lines_def chain_head_iff scan_path_def)
  qed
qed

lemma append_lines_append: "append_lines (append_lines file xs) ys = append_lines file (xs @ ys)"
  by (simp add: append_lines_def split: option.splits)

lemma append_lines_Nil [simp]: "append_lines file [] = file"
  by (simp add: append_lines_def split: option.splits)

section \<open>The parts of a record\<close>

lemma encoded_row_base:
  "encoded_row env p c err e = (e', r) \<Longrightarrow> e'\<lparr>e_meta := []\<rparr> = e\<lparr>e_meta := []\<rparr> \<and>
    (\<forall>h. r = Some h \<longrightarrow> (\<exists>x. h = ae_sha env x))"
  by (auto simp: encoded_row_def Let_def row_hash_def simp del: dumps.simps split: if_splits)

text \<open>
  What an operation on the log keeps: its configuration, the memory, and of the files and the
  emergency buffer everything already there.
\<close>

definition grows :: "audit_log \<Rightarrow> audit_log \<Rightarrow> bool" where
  "grows st st' \<longleftrightarrow> al_path st' = al_path st \<and> al_recovery_path st' = al_recovery_path st \<and> al_policy st' = al_policy st \<and>
     (\<exists>new. al_file st' = append_lines (al_file st) new) \<and>
     (\<exists>new. al_recovery st' = append_lines (al_recovery st) new) \<and>
     prefix (al_memory st) (al_memory st') \<and> prefix (al_emergency st) (al_emergency st')"

lemma grows_refl [simp]: "grows st st"
  unfolding grows_def by (metis append_lines_Nil prefix_order.order_refl)

lemma grows_trans: "grows a b \<Longrightarrow> grows b c \<Longrightarrow> grows a c"
  unfolding grows_def by (metis append_lines_append prefix_order.order_trans)

lemma grows_upd:
  "al_path st' = al_path st \<Longrightarrow> al_recovery_path st' = al_recovery_path st \<Longrightarrow> al_policy st' = al_policy st \<Longrightarrow>
   al_file st' = append_lines (al_file st) f \<Longrightarrow> al_recovery st' = append_lines (al_recovery st) r \<Longrightarrow>
   al_memory st' = al_memory st @ m \<Longrightarrow> al_emergency st' = al_emergency st @ x \<Longrightarrow> grows st st'"
  unfolding grows_def prefix_def by blast

lemmas grows_here = grows_upd [where f = "[]" and r = "[]" and m = "[]" and x = "[]"]

text \<open>The event of a result is the one it was given, but for the metadata.\<close>

definition same_event :: "audit_event \<Rightarrow> audit_event \<Rightarrow> bool" where
  "same_event e e' \<longleftrightarrow> e'\<lparr>e_meta := []\<rparr> = e\<lparr>e_meta := []\<rparr>"

lemma same_event_refl [simp]: "same_event e e"
  by (simp add: same_event_def)

lemma same_event_trans: "same_event a b \<Longrightarrow> same_event b c \<Longrightarrow> same_event a c"
  by (simp add: same_event_def)

lemma encoded_row_same: "encoded_row env p c err e = (e', r) \<Longrightarrow> same_event e e'"
  using encoded_row_base by (simp add: same_event_def)

lemma append_emergency_cases:
  assumes "append_emergency e t st = (out, e', st')"
  obtains (full) "MAX_EMERGENCY_EVENTS \<le> length (al_emergency st)" "e' = e" "st' = st"
      "out = Raised (security_fail ''AUDIT_EMERGENCY_BUFFER_FULL'')"
  | (kept) meta where "out = Recorded" "e' = e"
      "st' = st\<lparr>al_emergency := al_emergency st @ [event_row (e\<lparr>e_meta := meta\<rparr>)], al_mode := ModeDegraded\<rparr>"
  using assms unfolding append_emergency_def Let_def by (simp split: if_splits) blast+

lemma recovery_line_cases:
  assumes "recovery_line env io e st = (out, e', st')"
  obtains (large) "out = Raised too_large" "st' = st" "same_event e e'"
  | (written) h where "out = Recorded" "same_event e e'"
      "encoded_row env (al_recovery_last st) ''recovery'' (al_error st) e = (e', Some h)"
      "st' = st\<lparr>al_recovery := append_lines (al_recovery st) [RowLine (event_row e')], al_recovery_last := h\<rparr>"
  | (failed) t torn where "out = OsFailed t" "same_event e e'"
      "st' = st\<lparr>al_recovery := append_lines (al_recovery st) torn\<rparr>"
proof -
  obtain e2 r where enc: "encoded_row env (al_recovery_last st) ''recovery'' (al_error st) e = (e2, r)" by fastforce
  note same = encoded_row_same [OF enc]
  show thesis
  proof (cases r)
    case None
    with assms enc same show ?thesis by (intro large) (simp_all add: recovery_line_def)
  next
    case (Some h)
    show ?thesis
    proof (cases io)
      case Written
      with assms enc same Some show ?thesis by (intro written) (auto simp: recovery_line_def)
    next
      case (Failed t torn)
      with assms enc same Some show ?thesis by (intro failed) (auto simp: recovery_line_def)
    qed
  qed
qed

lemma recovery_line_written:
  "encoded_row env (al_recovery_last st) ''recovery'' (al_error st) e = (e', Some h) \<Longrightarrow>
     recovery_line env Written e st = (Recorded, e',
       st\<lparr>al_recovery := append_lines (al_recovery st) [RowLine (event_row e')], al_recovery_last := h\<rparr>)"
  by (simp add: recovery_line_def)

lemma append_primary_cases:
  assumes "append_primary env io e st = (out, e', st')"
  obtains (large) "out = Raised too_large" "st' = st" "same_event e e'"
  | (memory) h where "out = Recorded" "same_event e e'" "al_path st = None"
      "encoded_row env (al_last st) ''primary'' [] e = (e', Some h)"
      "st' = st\<lparr>al_memory := al_memory st @ [event_row e'], al_last := h, al_mode := ModeNormal\<rparr>"
  | (written) h where "out = Recorded" "same_event e e'" "al_path st \<noteq> None"
      "encoded_row env (al_last st) ''primary'' [] e = (e', Some h)"
      "st' = st\<lparr>al_file := append_lines (al_file st) [RowLine (event_row e')], al_last := h, al_mode := ModeNormal\<rparr>"
  | (failed) t torn where "out = OsFailed t" "same_event e e'" "al_path st \<noteq> None"
      "st' = st\<lparr>al_file := append_lines (al_file st) torn\<rparr>"
proof -
  obtain e2 r where enc: "encoded_row env (al_last st) ''primary'' [] e = (e2, r)" by fastforce
  note same = encoded_row_same [OF enc]
  show thesis
  proof (cases r)
    case None
    with assms enc same show ?thesis by (intro large) (simp_all add: append_primary_def)
  next
    case (Some h)
    show ?thesis
    proof (cases "al_path st")
      case None
      with assms enc same Some show ?thesis by (intro memory) (auto simp: append_primary_def)
    next
      case path: (Some p)
      show ?thesis
      proof (cases io)
        case Written
        with assms enc same Some path show ?thesis by (intro written) (auto simp: append_primary_def)
      next
        case (Failed t torn)
        with assms enc same Some path show ?thesis by (intro failed) (auto simp: append_primary_def)
      qed
    qed
  qed
qed

text \<open>Where an accepted event is.\<close>

definition event_kept :: "audit_event \<Rightarrow> audit_log \<Rightarrow> audit_log \<Rightarrow> bool" where
  "event_kept e' st st' \<longleftrightarrow>
     al_path st = None \<and> al_memory st' = al_memory st @ [event_row e'] \<or>
     al_file st' = append_lines (al_file st) [RowLine (event_row e')] \<or>
     (\<exists>more. al_recovery st' = append_lines (al_recovery st) (more @ [RowLine (event_row e')])) \<or>
     (\<exists>meta. al_emergency st' = al_emergency st @ [event_row (e'\<lparr>e_meta := meta\<rparr>)])"

definition recovery_post :: "outcome \<Rightarrow> audit_event \<Rightarrow> audit_event \<Rightarrow> audit_log \<Rightarrow> audit_log \<Rightarrow> bool" where
  "recovery_post out e e' st st' \<longleftrightarrow> grows st st' \<and> same_event e e' \<and> al_error st' = al_error st \<and> al_last st' = al_last st \<and>
     al_file st' = al_file st \<and> al_memory st' = al_memory st \<and>
     (out = Recorded \<longrightarrow>
       (\<exists>more. al_recovery st' = append_lines (al_recovery st) (more @ [RowLine (event_row e')])) \<or>
       (\<exists>meta. al_emergency st' = al_emergency st @ [event_row (e'\<lparr>e_meta := meta\<rparr>)])) \<and>
     (\<forall>x. out = Raised x \<longrightarrow> x = too_large \<or>
       x = security_fail ''AUDIT_EMERGENCY_BUFFER_FULL'' \<and> MAX_EMERGENCY_EVENTS \<le> length (al_emergency st))"

lemma emergency_post:
  assumes "append_emergency e t st = (out, e', st')"
  shows "recovery_post out e e' st st' \<and> (\<forall>t'. out \<noteq> OsFailed t')"
  using assms
proof (cases rule: append_emergency_cases)
  case full
  then show ?thesis by (simp add: recovery_post_def)
next
  case (kept meta)
  have "grows st st'"
    by (rule grows_upd [where f = "[]" and r = "[]" and m = "[]" and x = "[event_row (e\<lparr>e_meta := meta\<rparr>)]"])
      (simp_all add: kept)
  with kept show ?thesis by (auto simp: recovery_post_def)
qed

lemma line_post:
  assumes "recovery_line env io e st = (out, e', st')"
  shows "grows st st' \<and> same_event e e' \<and> al_error st' = al_error st \<and> al_last st' = al_last st \<and>
    al_file st' = al_file st \<and> al_memory st' = al_memory st \<and> al_emergency st' = al_emergency st \<and>
    al_recovery_path st' = al_recovery_path st \<and>
    (\<exists>new. al_recovery st' = append_lines (al_recovery st) new \<and> (out = Recorded \<longrightarrow> new = [RowLine (event_row e')])) \<and>
    (\<forall>x. out = Raised x \<longrightarrow> x = too_large)"
  using assms
proof (cases rule: recovery_line_cases)
  case large
  then show ?thesis by (auto intro: exI [of _ "[]"])
next
  case (written h)
  have "grows st st'"
    by (rule grows_upd [where f = "[]" and r = "[RowLine (event_row e')]" and m = "[]" and x = "[]"]) (simp_all add: written)
  with written show ?thesis by auto
next
  case (failed t torn)
  have "grows st st'"
    by (rule grows_upd [where f = "[]" and r = torn and m = "[]" and x = "[]"]) (simp_all add: failed)
  with failed show ?thesis by auto
qed

lemma append_recovery_post:
  assumes "append_recovery env io_m io fresh e st = (out, e', st')"
  shows "recovery_post out e e' st st' \<and> (\<forall>t. out = OsFailed t \<longrightarrow> al_emergency st' = al_emergency st)"
proof (cases "al_recovery_path st = None")
  case True
  with assms emergency_post show ?thesis unfolding append_recovery_def by auto
next
  case False
  define r1 where "r1 = (if al_marker st then (Recorded, e, st)
     else (case recovery_line env io_m (recovery_marker fresh st) st of
         (Recorded, m, st1) \<Rightarrow> (Recorded, m, st1\<lparr>al_marker := True\<rparr>) | r \<Rightarrow> r))"
  obtain m em st1 where r1: "r1 = (m, em, st1)" by (cases r1)
  have step1: "grows st st1 \<and> al_error st1 = al_error st \<and> al_last st1 = al_last st \<and> al_file st1 = al_file st \<and>
      al_memory st1 = al_memory st \<and> al_emergency st1 = al_emergency st \<and>
      (\<exists>new. al_recovery st1 = append_lines (al_recovery st) new) \<and> (\<forall>x. m = Raised x \<longrightarrow> x = too_large)"
  proof (cases "al_marker st")
    case True
    with r1 show ?thesis by (auto simp: r1_def intro: exI [of _ "[]"])
  next
    case False
    obtain m0 e0 s0 where line: "recovery_line env io_m (recovery_marker fresh st) st = (m0, e0, s0)"
      by (cases "recovery_line env io_m (recovery_marker fresh st) st")
    note post = line_post [OF line]
    have s1: "st1 = s0 \<or> st1 = s0\<lparr>al_marker := True\<rparr>" "m = m0"
      using r1 False line by (auto simp: r1_def split: outcome.splits)
    then have "grows st st1" using post by (auto simp: grows_def)
    with s1 post show ?thesis by auto
  qed
  show ?thesis
  proof (cases "m = Recorded")
    case True
    obtain m2 e2 s2 where line: "recovery_line env io e st1 = (m2, e2, s2)" by (cases "recovery_line env io e st1")
    note post = line_post [OF line]
    have res: "out = m2" "e' = e2" "st' = s2 \<or> st' = s2\<lparr>al_recovery_error := [], al_mode := ModeRecovery\<rparr>"
      using assms False True r1 line unfolding append_recovery_def r1_def [symmetric] by (auto split: outcome.splits)
    then have g: "grows st1 st'" using post by (auto simp: grows_def)
    from step1 obtain new where new: "al_recovery st1 = append_lines (al_recovery st) new" by blast
    from post obtain new2 where new2: "al_recovery st' = append_lines (al_recovery st1) new2"
      "out = Recorded \<longrightarrow> new2 = [RowLine (event_row e')]" using res by auto
    have rec: "out = Recorded \<longrightarrow> (\<exists>more. al_recovery st' = append_lines (al_recovery st) (more @ [RowLine (event_row e')]))"
      using new new2 by (auto simp: append_lines_append)
    have "al_error st' = al_error st" "al_last st' = al_last st" "al_file st' = al_file st" "al_memory st' = al_memory st"
      "al_emergency st' = al_emergency st" "same_event e e'" "\<forall>x. out = Raised x \<longrightarrow> x = too_large"
      using step1 post res by auto
    with rec grows_trans [OF _ g] step1 show ?thesis unfolding recovery_post_def by blast
  next
    case neq: False
    have "out = m" "e' = e" "st' = st1" using assms False neq r1 unfolding append_recovery_def r1_def [symmetric] by auto
    with step1 neq show ?thesis by (auto simp: recovery_post_def)
  qed
qed

lemma recovery_or_emergency_post:
  assumes "recovery_or_emergency env io_m io fresh e st = (out, e', st')"
  shows "recovery_post out e e' st st' \<and> (\<forall>t. out \<noteq> OsFailed t)"
proof -
  obtain m em st1 where rec: "append_recovery env io_m io fresh e st = (m, em, st1)"
    by (cases "append_recovery env io_m io fresh e st")
  note post = append_recovery_post [OF rec]
  show ?thesis
  proof (cases "\<exists>t. m = OsFailed t")
    case True
    then obtain t where t: "m = OsFailed t" by blast
    from assms rec t have em: "append_emergency em t (st1\<lparr>al_recovery_error := t\<rparr>) = (out, e', st')"
      by (simp add: recovery_or_emergency_def)
    note epost = emergency_post [OF em]
    have same: "al_emergency st1 = al_emergency st" using post t by blast
    have "grows st st1" "grows (st1\<lparr>al_recovery_error := t\<rparr>) st'" "same_event e em" "same_event em e'"
      using post epost by (auto simp: recovery_post_def)
    then have "grows st st'" "same_event e e'" by (auto simp: grows_def intro: same_event_trans prefix_order.order_trans)
      (metis append_lines_append)+
    moreover have "\<not> (\<exists>more. out = Recorded \<and> al_recovery st' \<noteq> al_recovery st1)" and
      kept: "out = Recorded \<longrightarrow> (\<exists>meta. al_emergency st' = al_emergency st1 @ [event_row (e'\<lparr>e_meta := meta\<rparr>)])"
      using em by (auto elim!: append_emergency_cases)
    ultimately show ?thesis using post epost same unfolding recovery_post_def by simp
  next
    case False
    with assms rec have "out = m" "e' = em" "st' = st1" by (auto simp: recovery_or_emergency_def split: outcome.splits)
    with post False show ?thesis by blast
  qed
qed

section \<open>Histories of a log\<close>

datatype audit_op =
    ARecord io io io "pystr \<times> pystr" audit_event
  | AVerify "pystr option"
  | ARecoveryVerify "pystr option"

definition run_audit :: "audit_env \<Rightarrow> audit_op \<Rightarrow> audit_log \<Rightarrow> audit_log" where
  "run_audit env oper st = (case oper of
     ARecord io_p io_m io_r fresh e \<Rightarrow> snd (snd (record_event env io_p io_m io_r fresh e st))
   | AVerify rd \<Rightarrow> snd (verify_log env rd st)
   | ARecoveryVerify rd \<Rightarrow> snd (recovery_verify env rd st))"

definition log_ok :: "audit_env \<Rightarrow> audit_log \<Rightarrow> bool" where
  "log_ok env st \<longleftrightarrow>
     (al_path st = None \<longrightarrow> al_error st = [] \<and> scan_rows env [] 0 (al_memory st) = Inr (al_last st)) \<and>
     (al_path st \<noteq> None \<longrightarrow> al_error st = [] \<longrightarrow> chain_head env (al_file st) (al_last st))"

lemma record_event_step:
  assumes "record_event env io_p io_m io_r fresh e st = (out, e', st')"
    and "log_ok env st" and "\<And>x. ae_sha env x \<noteq> []"
  shows "log_ok env st' \<and> grows st st' \<and> same_event e e' \<and> (\<forall>t. out \<noteq> OsFailed t) \<and>
    (out = Recorded \<longrightarrow> event_kept e' st st') \<and>
    (al_policy st = FailOperational \<longrightarrow> (\<forall>x. out = Raised x \<longrightarrow> x = too_large \<or>
       x = security_fail ''AUDIT_EMERGENCY_BUFFER_FULL'' \<and> MAX_EMERGENCY_EVENTS \<le> length (al_emergency st)))"
proof (cases "al_error st = []")
  case False
  then have path: "al_path st \<noteq> None" using assms(2) by (auto simp: log_ok_def)
  show ?thesis
  proof (cases "al_policy st = FailClosed")
    case True
    with False assms(1,2) show ?thesis by (auto simp: record_event_def)
  next
    case pol: False
    with False assms(1) have "recovery_or_emergency env io_m io_r fresh e st = (out, e', st')"
      by (simp add: record_event_def)
    from recovery_or_emergency_post [OF this] show ?thesis
      using assms(2) False path unfolding recovery_post_def log_ok_def event_kept_def grows_def by auto
  qed
next
  case noerr: True
  obtain m em st1 where prim: "append_primary env io_p e st = (m, em, st1)" by (cases "append_primary env io_p e st")
  from prim show ?thesis
  proof (cases rule: append_primary_cases)
    case large
    with noerr assms prim show ?thesis by (auto simp: record_event_def)
  next
    case (memory h)
    then have res: "out = Recorded" "e' = em" "st' = st1" using noerr assms(1) prim by (auto simp: record_event_def)
    from encoded_row_base [OF memory(4)] assms(3) have "h \<noteq> []" by metis
    from encoded_row_verifies [OF memory(4) this]
    have "scan_rows env [] 0 (al_memory st @ [event_row em]) = Inr h"
      using assms(2) memory(3) by (intro scan_rows_snoc) (auto simp: log_ok_def)
    moreover have "grows st st1"
      by (rule grows_upd [where f = "[]" and r = "[]" and m = "[event_row em]" and x = "[]"]) (simp_all add: memory)
    ultimately show ?thesis using res memory noerr by (simp add: log_ok_def event_kept_def)
  next
    case (written h)
    then have res: "out = Recorded" "e' = em" "st' = st1" using noerr assms(1) prim by (auto simp: record_event_def)
    from encoded_row_base [OF written(4)] assms(3) have "h \<noteq> []" by metis
    then have "chain_head env (append_lines (al_file st) [RowLine (event_row em)]) h"
      using assms(2) written(3) noerr by (intro chain_head_append [OF _ written(4)]) (auto simp: log_ok_def)
    moreover have "grows st st1"
      by (rule grows_upd [where f = "[RowLine (event_row em)]" and r = "[]" and m = "[]" and x = "[]"])
        (simp_all add: written)
    ultimately show ?thesis using res written noerr by (auto simp: log_ok_def event_kept_def)
  next
    case (failed t torn)
    define st2 where "st2 = st1\<lparr>al_error := ''primary audit append failed: '' @ t, al_mode := ModeDegraded\<rparr>"
    have g: "grows st st2"
      by (rule grows_upd [where f = torn and r = "[]" and m = "[]" and x = "[]"]) (simp_all add: failed st2_def)
    have ok2: "log_ok env st2" "al_path st2 \<noteq> None" "al_error st2 \<noteq> []" using failed(3,4) by (simp_all add: log_ok_def st2_def)
    show ?thesis
    proof (cases "al_policy st = FailClosed")
      case True
      then have "out = Raised (security_fail ''AUDIT_APPEND_FAILED'')" "e' = em" "st' = st2"
        using noerr assms(1) prim failed by (auto simp: record_event_def Let_def st2_def)
      with g ok2 failed True show ?thesis by simp
    next
      case False
      then have "recovery_or_emergency env io_m io_r fresh em st2 = (out, e', st')"
        using noerr assms(1) prim failed by (auto simp: record_event_def Let_def st2_def)
      note post = recovery_or_emergency_post [OF this]
      have st2: "al_recovery st2 = al_recovery st" "al_emergency st2 = al_emergency st" by (simp_all add: st2_def failed)
      from post have "grows st2 st'" "same_event em e'" by (auto simp: recovery_post_def)
      with g failed(2) have "grows st st'" "same_event e e'" by (blast intro: grows_trans same_event_trans)+
      moreover have "log_ok env st'" using post ok2 by (auto simp: recovery_post_def log_ok_def grows_def)
      moreover have "out = Recorded \<longrightarrow> event_kept e' st st'"
        using post st2 unfolding recovery_post_def event_kept_def by auto
      ultimately show ?thesis using post st2 unfolding recovery_post_def by auto
    qed
  qed
qed

lemma verify_log_step: "log_ok env st \<Longrightarrow> log_ok env (snd (verify_log env rd st)) \<and> grows st (snd (verify_log env rd st))"
proof (cases "al_path st = None")
  case True
  then show "log_ok env st \<Longrightarrow> ?thesis" by (simp add: verify_log_def)
next
  case False
  obtain v h r where scan: "scan_path env rd (al_file st) = (v, h, r)" by (cases "scan_path env rd (al_file st)")
  have "grows st (snd (verify_log env rd st))"
    using False scan by (intro grows_here) (auto simp: verify_log_def split: bool.splits)
  moreover have "log_ok env (snd (verify_log env rd st))"
  proof (cases v)
    case True
    then have "scan_path env None (al_file st) = (True, h, r)"
      using scan by (auto simp: scan_path_def split: option.splits)
    then show ?thesis using True False scan by (auto simp: verify_log_def log_ok_def chain_head_iff)
  next
    case invalid: False
    with scan have "r \<noteq> []" by (auto dest: scan_path_reason)
    with False invalid scan show ?thesis by (auto simp: verify_log_def log_ok_def)
  qed
  ultimately show ?thesis by simp
qed

lemma recovery_verify_step:
  "log_ok env st \<Longrightarrow> log_ok env (snd (recovery_verify env rd st)) \<and> grows st (snd (recovery_verify env rd st))"
proof -
  assume ok: "log_ok env st"
  obtain v h r where scan: "scan_path env rd (al_recovery st) = (v, h, r)" by (cases "scan_path env rd (al_recovery st)")
  have "grows st (snd (recovery_verify env rd st))"
    using scan by (intro grows_here) (auto simp: recovery_verify_def split: bool.splits)
  with ok scan show ?thesis by (auto simp: recovery_verify_def log_ok_def split: bool.splits)
qed

lemma run_audit_step:
  assumes "log_ok env st" and "\<And>x. ae_sha env x \<noteq> []"
  shows "log_ok env (run_audit env oper st) \<and> grows st (run_audit env oper st)"
proof (cases oper)
  case (ARecord io_p io_m io_r fresh e)
  obtain out e' st' where "record_event env io_p io_m io_r fresh e st = (out, e', st')"
    by (cases "record_event env io_p io_m io_r fresh e st")
  with record_event_step [OF this assms] ARecord show ?thesis by (simp add: run_audit_def)
qed (use verify_log_step recovery_verify_step assms in \<open>simp_all add: run_audit_def\<close>)

lemma run_audit_history:
  assumes "log_ok env st" and "\<And>x. ae_sha env x \<noteq> []"
  shows "log_ok env (fold (run_audit env) ops st) \<and> grows st (fold (run_audit env) ops st)"
  using assms(1)
proof (induction ops arbitrary: st)
  case (Cons oper ops)
  from run_audit_step [OF Cons.prems assms(2), of oper] Cons.IH [of "run_audit env oper st"]
  show ?case by (auto intro: grows_trans)
qed simp

lemma open_log_ok: "log_ok env (open_log env rd rd' path rpath policy file0 recovery)"
proof (cases path)
  case None
  then show ?thesis by (simp add: open_log_def log_ok_def Let_def split: prod.split)
next
  case (Some p)
  obtain v h r where scan: "scan_path env rd file0 = (v, h, r)" by (cases "scan_path env rd file0")
  have "chain_head env file0 h" if v
    using scan that by (auto simp: chain_head_iff scan_path_def split: option.splits)
  moreover have "r \<noteq> []" if "\<not> v" using scan that by (auto dest: scan_path_reason)
  ultimately show ?thesis using Some scan by (auto simp: open_log_def log_ok_def Let_def split: prod.split)
qed

definition ex_audit_env :: audit_env where
  "ex_audit_env = \<lparr>ae_sha = (\<lambda>x. ''h''), ae_str = dumps, ae_raise = (\<lambda>_. ''TypeError'')\<rparr>"

lemma ex_sha: "ae_sha ex_audit_env x \<noteq> []"
  by (simp add: ex_audit_env_def)

lemma ex_sha_length: "length (ae_sha ex_audit_env x) \<le> 64"
  by (simp add: ex_audit_env_def)

definition ex_event :: audit_event where
  "ex_event = emitted_event (''audit_1'', ''t'') ''p'' ''project.read'' ''r'' ''allow'' Personal [] ''c'' ''ALLOW''"

definition ex_log :: "failure_policy \<Rightarrow> audit_log" where
  "ex_log policy = open_log ex_audit_env None None (Some ''audit.jsonl'') (Some ''audit.recovery.jsonl'') policy None None"

lemma ex_log_ok: "log_ok ex_audit_env (ex_log p)"
  unfolding ex_log_def by (rule open_log_ok)

section \<open>Sizes\<close>

lemma length_join: "length (join_with '','' xs) \<le> sum_list (map (\<lambda>x. length x + 1) xs)"
  by (induction "'','' :: pystr" xs rule: join_with.induct) auto

lemma sum_list_sort_key: "sum_list (map f (sort_key g xs)) = sum_list (map f xs)" for f :: "'a \<Rightarrow> nat"
  by (simp flip: sum_mset_sum_list)

lemma length_dumps_obj:
  "length (dumps (JObj kvs)) \<le> 2 + sum_list (map (\<lambda>(k, v). 6 * length k + length (dumps v) + 4) kvs)"
proof -
  let ?pr = "\<lambda>(k, t). quote_str k @ '':'' @ t" and ?kts = "map (\<lambda>(k, v). (k, dumps v)) kvs"
  have "length (join_with '','' (map ?pr (sort_key fst ?kts))) \<le>
      sum_list (map (\<lambda>x. length x + 1) (map ?pr (sort_key fst ?kts)))" by (rule length_join)
  also have "\<dots> = sum_list (map (\<lambda>kt. length (?pr kt) + 1) (sort_key fst ?kts))" by (simp add: comp_def)
  also have "\<dots> = sum_list (map (\<lambda>kt. length (?pr kt) + 1) ?kts)" by (rule sum_list_sort_key)
  also have "\<dots> \<le> sum_list (map (\<lambda>(k, v). 6 * length k + length (dumps v) + 4) kvs)"
    unfolding map_map
  proof (rule sum_list_mono)
    fix kv
    show "((\<lambda>kt. length (?pr kt) + 1) \<circ> (\<lambda>(k, v). (k, dumps v))) kv \<le> (case kv of (k, v) \<Rightarrow> 6 * length k + length (dumps v) + 4)"
      using length_quote_str [of "fst kv"] by (cases kv) simp
  qed
  finally show ?thesis by simp
qed

lemma length_dumps_str: "length (dumps (JStr s)) \<le> 6 * length s + 2"
  using length_quote_str by simp

lemma length_dumps_meta:
  "length (dumps (JObj (map (\<lambda>(k, v). (k, JStr v)) meta))) \<le> 2 + sum_list (map (\<lambda>(k, v). 6 * length k + 6 * length v + 6) meta)"
proof -
  have "sum_list (map (\<lambda>(k, v). 6 * length k + length (dumps v) + 4) (map (\<lambda>(k, v). (k, JStr v)) meta)) \<le>
      sum_list (map (\<lambda>(k, v). 6 * length k + 6 * length v + 6) meta)"
    unfolding map_map by (rule sum_list_mono) (use length_dumps_str in auto)
  with length_dumps_obj [of "map (\<lambda>(k, v). (k, JStr v)) meta"] show ?thesis by linarith
qed

definition event_chars :: "audit_event \<Rightarrow> nat" where
  "event_chars e = length (e_id e) + length (e_actor e) + length (e_action e) + length (e_resource e) +
     length (e_decision e) + length (e_device e) + length (e_time e) + length (e_correlation e) + length (e_reason e)"

lemma length_event_row:
  "length (dumps (JObj (event_row e))) \<le>
     6 * event_chars e + sum_list (map (\<lambda>(k, v). 6 * length k + 6 * length v + 6) (e_meta e)) + 1000"
proof -
  have td: "length (dumps (JStr (domain_value (e_domain e)))) \<le> 62"
    using length_dumps_str [of "domain_value (e_domain e)"] by (cases "e_domain e") (simp_all add: domain_value_def)
  note fields = length_dumps_str [of "e_id e"] length_dumps_str [of "e_actor e"] length_dumps_str [of "e_action e"]
    length_dumps_str [of "e_resource e"] length_dumps_str [of "e_decision e"] length_dumps_str [of "e_device e"]
    length_dumps_str [of "e_time e"] length_dumps_str [of "e_correlation e"] length_dumps_str [of "e_reason e"]
  have "sum_list (map (\<lambda>(k, v). 6 * length k + length (dumps v) + 4) (event_row e)) \<le>
      6 * event_chars e + sum_list (map (\<lambda>(k, v). 6 * length k + 6 * length v + 6) (e_meta e)) + 998"
    using td fields length_dumps_meta [of "e_meta e"] unfolding event_row_def event_chars_def
    by (simp del: dumps.simps)
  with length_dumps_obj [of "event_row e"] show ?thesis by linarith
qed

lemma encoded_row_fits:
  assumes "event_chars e + length previous + length channel \<le> 80000" and "\<And>x. length (ae_sha env x) \<le> 64"
  shows "\<exists>e' h. encoded_row env previous channel err e = (e', Some h)"
proof -
  obtain e' r where enc: "encoded_row env previous channel err e = (e', r)" by fastforce
  define meta where "meta = [(''algorithm'', ALGORITHM), (''previous_hash'', previous), (''channel'', channel)] @
    (if err = [] then [] else [(''primary_integrity_error'', take 512 err)])"
  define h where "h = row_hash env (JObj (event_row (e\<lparr>e_meta := meta\<rparr>)))"
  have e': "e' = e\<lparr>e_meta := meta @ [(''event_hash'', h)]\<rparr>" and
    r: "r = (if MAX_LINE_BYTES < utf8_len (dumps (JObj (event_row e'))) + 1 then None else Some h)"
    using enc [unfolded encoded_row_def Let_def, folded meta_def, folded h_def] by auto
  have "length h \<le> 64" using assms(2) by (simp add: h_def row_hash_def)
  then have "sum_list (map (\<lambda>(k, v). 6 * length k + 6 * length v + 6) (e_meta e')) \<le>
      6 * length previous + 6 * length channel + 5000"
    using min.cobounded2 [of "length err" 512] by (cases "err = []") (simp_all add: e' meta_def ALGORITHM_def)
  moreover have "event_chars e' = event_chars e" by (simp add: e' event_chars_def)
  ultimately have "length (dumps (JObj (event_row e'))) \<le> 486000"
    using length_event_row [of e'] assms(1) by linarith
  then have "utf8_len (dumps (JObj (event_row e'))) \<le> 972000"
    using utf8_len_le [of "dumps (JObj (event_row e'))"] by linarith
  then have "r = Some h" using r by (simp add: MAX_LINE_BYTES_def)
  with enc show ?thesis by blast
qed

lemma emitted_chars:
  "length (fst fresh) \<le> 64 \<Longrightarrow> length (snd fresh) \<le> 64 \<Longrightarrow>
    event_chars (emitted_event fresh actor action resource dec td dev corr reason) \<le> 6000"
  by (simp add: event_chars_def emitted_event_def)

definition ex_recorded_event :: audit_event where
  "ex_recorded_event = ex_event\<lparr>e_meta := [(''algorithm'', ALGORITHM), (''previous_hash'', []), (''channel'', ''primary''),
     (''event_hash'', ''h'')]\<rparr>"

lemma ex_log_fields [simp]:
  "al_error (ex_log p) = []" "al_path (ex_log p) = Some ''audit.jsonl''" "al_policy (ex_log p) = p"
  "al_recovery_path (ex_log p) = Some ''audit.recovery.jsonl''" "al_file (ex_log p) = None" "al_recovery (ex_log p) = None"
  "al_last (ex_log p) = []" "al_mode (ex_log p) = ModeNormal" "al_marker (ex_log p) = False"
  "al_recovery_last (ex_log p) = []"
  by (simp_all add: ex_log_def open_log_def scan_path_def)

lemma ex_recorded:
  "record_event ex_audit_env Written io_m io_r fresh ex_event (ex_log p) =
     (Recorded, ex_recorded_event,
      (ex_log p)\<lparr>al_file := Some [RowLine (event_row ex_recorded_event)], al_last := ''h''\<rparr>)"
proof -
  have "event_chars ex_event \<le> 6000" unfolding ex_event_def by (rule emitted_chars) simp_all
  then have "event_chars ex_event + length ([] :: pystr) + length ''primary'' \<le> 80000" by simp
  from encoded_row_fits [OF this, of ex_audit_env "[]"] ex_sha_length obtain e' h
    where enc: "encoded_row ex_audit_env [] ''primary'' [] ex_event = (e', Some h)" by blast
  then have h: "h = ''h''" "e' = ex_recorded_event"
    by (simp_all add: encoded_row_def Let_def row_hash_def ex_audit_env_def ex_recorded_event_def del: dumps.simps
        split: if_splits)
  have "al_mode (ex_log p) = ModeNormal" by simp
  then have "(ex_log p)\<lparr>al_mode := ModeNormal\<rparr> = ex_log p" by (cases "ex_log p") simp
  with enc h show ?thesis
    by (simp add: record_event_def append_primary_def append_lines_def)
qed

lemma ex_scan: "scan_path ex_audit_env None (Some [RowLine (event_row ex_recorded_event)]) = (True, ''h'', ''ok'')"
proof -
  have "log_ok ex_audit_env (run_audit ex_audit_env (ARecord Written Written Written ([], []) ex_event) (ex_log FailClosed))"
    using run_audit_step [OF ex_log_ok ex_sha] by blast
  then obtain r where "scan_path ex_audit_env None (Some [RowLine (event_row ex_recorded_event)]) = (True, ''h'', r)"
    by (auto simp: run_audit_def ex_recorded log_ok_def chain_head_iff)
  then show ?thesis by (auto simp: scan_path_def split: sum.splits)
qed

section \<open>Properties\<close>



text \<open>No accepted event is lost: when \<open>record\<close> returns, the event it was given, with the chain metadata it got, is in
  the memory of a log without a file, or the last line of the primary file, or the last line of the recovery
  file, or in the emergency buffer; the lines that were there before are still there.\<close>

lemma accepted_event_kept:
  assumes "record_event env io_p io_m io_r fresh e st = (Recorded, e', st')"
    and "log_ok env st" and "\<And>x. ae_sha env x \<noteq> []"
  shows "event_kept e' st st' \<and> same_event e e' \<and> grows st st'"
  using record_event_step [OF assms] by blast

lemma accepted_event_kept_witness:
  "\<exists>e' st'. record_event ex_audit_env Written Written Written ([], []) ex_event (ex_log FailClosed) = (Recorded, e', st') \<and>
     event_kept e' (ex_log FailClosed) st' \<and> same_event ex_event e'"
  using accepted_event_kept [OF ex_recorded [of Written Written "([], [])" FailClosed], OF ex_log_ok ex_sha] ex_recorded
  by blast

text \<open>What a refusal means. A fail-closed log with an integrity error refuses every event and changes nothing; a
  fail-closed log whose append fails refuses the event and reports the error from then on; a fail-operational
  log refuses an event only when it is too large for a line or when both files fail and the emergency
  buffer is full. No error of the operating system escapes as such.\<close>

lemma failure_policies:
  assumes "record_event env io_p io_m io_r fresh e st = (out, e', st')"
    and "log_ok env st" and "\<And>x. ae_sha env x \<noteq> []"
  shows "(\<forall>t. out \<noteq> OsFailed t) \<and>
    (al_policy st = FailClosed \<and> al_error st \<noteq> [] \<longrightarrow>
       out = Raised (security_fail ''AUDIT_INTEGRITY_BROKEN'') \<and> st' = st) \<and>
    (al_policy st = FailClosed \<and> out = Raised (security_fail ''AUDIT_APPEND_FAILED'') \<longrightarrow>
       al_error st' \<noteq> [] \<and> \<not> appendable st') \<and>
    (al_policy st = FailOperational \<longrightarrow> (\<forall>x. out = Raised x \<longrightarrow> x = too_large \<or>
       x = security_fail ''AUDIT_EMERGENCY_BUFFER_FULL'' \<and> MAX_EMERGENCY_EVENTS \<le> length (al_emergency st)))"
proof -
  have "al_error st' \<noteq> [] \<and> \<not> appendable st'"
    if "al_policy st = FailClosed" "out = Raised (security_fail ''AUDIT_APPEND_FAILED'')"
  proof -
    obtain m em st1 where prim: "append_primary env io_p e st = (m, em, st1)" by (cases "append_primary env io_p e st")
    have "al_error st = []"
    proof (rule ccontr)
      assume "al_error st \<noteq> []"
      with assms(1) that show False by (simp add: record_event_def security_fail_def)
    qed
    with prim assms(1) that show ?thesis
      by (auto simp: record_event_def appendable_def security_fail_def too_large_def Let_def elim!: append_primary_cases)
  qed
  moreover have "out = Raised (security_fail ''AUDIT_INTEGRITY_BROKEN'') \<and> st' = st"
    if "al_policy st = FailClosed" "al_error st \<noteq> []"
    using assms(1) that by (simp add: record_event_def)
  ultimately show ?thesis using record_event_step [OF assms] by blast
qed

lemma failure_policies_witness:
  "record_event ex_audit_env Written Written Written ([], []) ex_event
     (snd (verify_log ex_audit_env (Some ''OSError'') ((ex_log FailClosed)\<lparr>al_file := Some []\<rparr>))) =
   (Raised (security_fail ''AUDIT_INTEGRITY_BROKEN''), ex_event,
     snd (verify_log ex_audit_env (Some ''OSError'') ((ex_log FailClosed)\<lparr>al_file := Some []\<rparr>)))"
proof -
  define st where "st = snd (verify_log ex_audit_env (Some ''OSError'') ((ex_log FailClosed)\<lparr>al_file := Some []\<rparr>))"
  have st: "al_path st \<noteq> None" "al_error st \<noteq> []" "al_policy st = FailClosed"
    by (simp_all add: st_def verify_log_def scan_path_def ex_log_def open_log_def)
  then have ok: "log_ok ex_audit_env st" by (auto simp: log_ok_def)
  obtain out e' st' where rec: "record_event ex_audit_env Written Written Written ([], []) ex_event st = (out, e', st')"
    by (cases "record_event ex_audit_env Written Written Written ([], []) ex_event st")
  from failure_policies [OF this ok ex_sha] st rec show ?thesis
    by (fold st_def) (simp add: record_event_def)
qed

text \<open>An emitted event always fits a line: whatever texts the caller passes, and whatever integrity error the row has
  to name, a record of it never fails with \<open>AUDIT_EVENT_TOO_LARGE\<close> on the primary chain.\<close>

lemma emitted_event_fits:
  assumes "length (fst fresh_e) \<le> 64" and "length (snd fresh_e) \<le> 64" and "length (al_last st) \<le> 64"
    and "\<And>x. length (ae_sha env x) \<le> 64"
    and "append_primary env io (emitted_event fresh_e actor action resource dec td dev corr reason) st = (out, e', st')"
  shows "out \<noteq> Raised too_large \<and> (io = Written \<longrightarrow> out = Recorded) \<and> length (al_last st') \<le> 64"
proof -
  have "event_chars (emitted_event fresh_e actor action resource dec td dev corr reason) + length (al_last st) +
      length ''primary'' \<le> 80000"
    using emitted_chars [OF assms(1,2), of actor action resource dec td dev corr reason] assms(3) by simp
  from encoded_row_fits [OF this assms(4), of "[]"] obtain e2 h where
    enc: "encoded_row env (al_last st) ''primary'' [] (emitted_event fresh_e actor action resource dec td dev corr reason) =
      (e2, Some h)" by blast
  with encoded_row_base [OF enc] assms(4) have "length h \<le> 64" by metis
  with enc assms(3,5) show ?thesis
    by (auto simp: append_primary_def split: if_splits io.splits)
qed

lemma emitted_event_fits_witness:
  "\<exists>e' st'. append_primary ex_audit_env Written (emitted_event (''i'', ''t'') (replicate 100000 CHR 0x22) [] [] [] Personal [] [] [])
     (ex_log FailClosed) = (Recorded, e', st')"
proof -
  obtain out e' st' where "append_primary ex_audit_env Written
      (emitted_event (''i'', ''t'') (replicate 100000 CHR 0x22) [] [] [] Personal [] [] []) (ex_log FailClosed) = (out, e', st')"
    by (cases "append_primary ex_audit_env Written
      (emitted_event (''i'', ''t'') (replicate 100000 CHR 0x22) [] [] [] Personal [] [] []) (ex_log FailClosed)")
  with emitted_event_fits [OF _ _ _ ex_sha_length this] show ?thesis
    by (simp add: ex_log_def open_log_def scan_path_def)
qed

section \<open>What a chain shows of tampering\<close>

definition canonical_line :: "audit_line \<Rightarrow> json option" where
  "canonical_line l = (case l of RowLine row \<Rightarrow> canonical_row row | _ \<Rightarrow> None)"

lemma canonical_line_row: "canonical_line (RowLine row) = canonical_row row"
  by (simp add: canonical_line_def)

definition canonical_prev :: "audit_env \<Rightarrow> json \<Rightarrow> pystr" where
  "canonical_prev env c = (case c of
     JObj row \<Rightarrow> (case map_of row ''integrity_metadata'' of
         Some (JObj kvs) \<Rightarrow> text_of env (map_of kvs ''previous_hash'') | _ \<Rightarrow> [])
   | _ \<Rightarrow> [])"

lemma text_keys_lookup: "text_keys meta = Some kvs \<Longrightarrow> map_of meta (JStr k) = map_of kvs k"
  by (induction meta arbitrary: kvs) (auto simp: text_keys_def split: option.splits json.splits)

lemma map_of_filter_key: "P k \<Longrightarrow> map_of (filter (\<lambda>(k, _). P k) kvs) k = map_of kvs k"
  by (induction kvs) auto

lemma verify_row_canonical:
  assumes "verify_row env row p i = Inr h"
  shows "\<exists>c. canonical_row row = Some c \<and> h = row_hash env c \<and> h \<noteq> [] \<and> p = canonical_prev env c"
proof -
  from assms obtain meta c where meta: "dict_of (row_metadata row) = Inr meta"
    and prev: "text_of env (map_of meta (JStr ''previous_hash'')) = p"
    and c: "canonical_row row = Some c" and h: "h = row_hash env c" "h \<noteq> []"
    by (auto simp: verify_row_def Let_def split: option.splits sum.splits if_splits)
  from c meta obtain kvs where kvs: "text_keys meta = Some kvs"
    and ceq: "c = JObj (AList.update ''integrity_metadata'' (JObj (filter (\<lambda>(k, _). k \<noteq> ''event_hash'') kvs)) row)"
    by (auto simp: canonical_row_def)
  have "map_of (filter (\<lambda>(k, _). k \<noteq> ''event_hash'') kvs) ''previous_hash'' = map_of kvs ''previous_hash''"
    by (rule map_of_filter_key) simp
  with prev text_keys_lookup [OF kvs] ceq have "p = canonical_prev env c" by (simp add: canonical_prev_def AList.update_conv')
  with c h show ?thesis by blast
qed

lemma scan_lines_last:
  "scan_lines env p i (xs @ [l]) = (True, h, r) \<Longrightarrow>
     \<exists>row h1 r1. l = RowLine row \<and> scan_lines env p i xs = (True, h1, r1) \<and> verify_row env row h1 (i + length xs) = Inr h"
proof (induction xs arbitrary: p i)
  case Nil
  then show ?case by (cases l) (auto split: sum.splits)
next
  case (Cons x xs)
  then show ?case by (cases x) (fastforce split: sum.splits)+
qed

lemma chains_agree:
  assumes "scan_lines env [] 0 ls = (True, h, r)" and "scan_lines env [] 0 ls' = (True, h, r')"
  shows "map canonical_line ls = map canonical_line ls' \<or>
    (\<exists>a b. Some a \<in> canonical_line ` set ls \<and> Some b \<in> canonical_line ` set ls' \<and> a \<noteq> b \<and>
       row_hash env a = row_hash env b)"
  using assms
proof (induction ls arbitrary: ls' h r r' rule: rev_induct)
  case Nil
  then have "h = []" by simp
  have "ls' = []"
  proof (cases ls' rule: rev_cases)
    case (snoc xs l)
    with Nil.prems(2) obtain row h1 i where "verify_row env row h1 i = Inr h" by (auto dest: scan_lines_last)
    with \<open>h = []\<close> show ?thesis by (auto dest: verify_row_canonical)
  qed simp
  then show ?case by simp
next
  case (snoc l ls)
  from scan_lines_last [OF snoc.prems(1)] obtain row h1 r1 where l: "l = RowLine row"
    and scan: "scan_lines env [] 0 ls = (True, h1, r1)" and ver: "verify_row env row h1 (length ls) = Inr h" by auto
  from verify_row_canonical [OF ver] obtain c where c: "canonical_row row = Some c" "h = row_hash env c" "h \<noteq> []"
    "h1 = canonical_prev env c" by blast
  have "ls' \<noteq> []" using snoc.prems(2) c(3) by auto
  then obtain xs l' where ls': "ls' = xs @ [l']" by (cases ls' rule: rev_cases) auto
  from scan_lines_last [OF snoc.prems(2) [unfolded ls']] obtain row' h1' r1' where l': "l' = RowLine row'"
    and scan': "scan_lines env [] 0 xs = (True, h1', r1')" and ver': "verify_row env row' h1' (length xs) = Inr h" by auto
  from verify_row_canonical [OF ver'] obtain c' where c': "canonical_row row' = Some c'" "h = row_hash env c'"
    "h1' = canonical_prev env c'" by blast
  show ?case
  proof (cases "c = c'")
    case True
    with c c' have "h1' = h1" by simp
    with snoc.IH [OF scan] scan' have "map canonical_line ls = map canonical_line xs \<or>
      (\<exists>a b. Some a \<in> canonical_line ` set ls \<and> Some b \<in> canonical_line ` set xs \<and> a \<noteq> b \<and>
         row_hash env a = row_hash env b)" by blast
    then show ?thesis using True c c' by (auto simp: l l' ls' canonical_line_row)
  next
    case False
    have "Some c \<in> canonical_line ` set (ls @ [l])" "Some c' \<in> canonical_line ` set ls'"
      using c c' by (auto simp: l l' ls' canonical_line_row)
    with False c(2) c'(2) show ?thesis by metis
  qed
qed



text \<open>What the chain does not show: a file cut after any row still verifies, and \<open>verify\<close> then clears the integrity error
  and goes on from the shorter chain, so the newest events can be dropped without a trace, though the class
  is documented as tamper-evident.\<close>

lemma truncation_undetected:
  assumes "scan_path env None (al_file st) = (True, h, r)" and "al_path st \<noteq> None" and "al_file st = Some ls"
  shows "\<exists>h' reason. verify_log env None (st\<lparr>al_file := Some (take n ls)\<rparr>) =
    ((True, reason), snd (verify_log env None (st\<lparr>al_file := Some (take n ls)\<rparr>))) \<and>
    al_error (snd (verify_log env None (st\<lparr>al_file := Some (take n ls)\<rparr>))) = [] \<and>
    al_last (snd (verify_log env None (st\<lparr>al_file := Some (take n ls)\<rparr>))) = h' \<and>
    scan_path env None (Some (take n ls)) = (True, h', reason)"
proof -
  from assms(1,3) have "scan_lines env [] 0 (take n ls @ drop n ls) = (True, h, r)" by (simp add: scan_path_def)
  then obtain h' r' where "scan_lines env [] 0 (take n ls) = (True, h', r')" by (blast dest: scan_lines_prefix)
  with assms(2) show ?thesis by (auto simp: verify_log_def scan_path_def)
qed

lemma truncation_undetected_witness:
  "scan_path ex_audit_env None (Some [RowLine (event_row ex_recorded_event)]) = (True, ''h'', ''ok'') \<and>
   (\<exists>reason. fst (verify_log ex_audit_env None ((ex_log FailClosed)\<lparr>al_file := Some []\<rparr>)) = (True, reason))"
proof -
  let ?st = "(ex_log FailClosed)\<lparr>al_file := Some [RowLine (event_row ex_recorded_event)], al_last := ''h''\<rparr>"
  have "scan_path ex_audit_env None (al_file ?st) = (True, ''h'', ''ok'')" using ex_scan by simp
  from truncation_undetected [OF this, of _ 0] ex_scan show ?thesis
    by (auto simp: verify_log_def scan_path_def)
qed

text \<open>A fail-operational log that opened on a corrupt recovery file loses the report of it: the first record
  that reaches the recovery file appends to the corrupt chain and clears the recovery error, so the log says its
  recovery chain is in order while the file still does not verify.\<close>

lemma recovery_error_cleared:
  assumes "al_policy st = FailOperational" and "al_error st \<noteq> []" and "al_recovery_path st \<noteq> None"
    and "scan_path env None (al_recovery st) = (False, h, reason)"
    and "record_event env io_p Written Written fresh e st = (Recorded, e', st')"
  shows "al_recovery_error st' = [] \<and> al_mode st' = ModeRecovery \<and> \<not> fst (scan_path env None (al_recovery st'))"
proof -
  from assms(1,2,5) have roe: "recovery_or_emergency env Written Written fresh e st = (Recorded, e', st')"
    by (simp add: record_event_def)
  obtain m em st1 where rec: "append_recovery env Written Written fresh e st = (m, em, st1)"
    by (cases "append_recovery env Written Written fresh e st")
  have nofail: "m \<noteq> OsFailed t" for t
    using rec assms(3) by (auto simp: append_recovery_def recovery_line_def split: outcome.splits prod.splits option.splits if_splits)
  with roe rec have "m = Recorded" "st' = st1" by (auto simp: recovery_or_emergency_def split: outcome.splits)
  with rec assms(3) have fields: "al_recovery_error st' = [] \<and> al_mode st' = ModeRecovery"
    by (auto simp: append_recovery_def split: outcome.splits prod.splits if_splits)
  from append_recovery_post [OF rec] \<open>st' = st1\<close> obtain new where new: "al_recovery st' = append_lines (al_recovery st) new"
    by (auto simp: recovery_post_def grows_def)
  from assms(4) obtain ls where ls: "al_recovery st = Some ls" "scan_lines env [] 0 ls = (False, h, reason)"
    by (auto simp: scan_path_def split: option.splits)
  have "\<not> fst (scan_path env None (al_recovery st'))"
  proof
    assume "fst (scan_path env None (al_recovery st'))"
    then obtain h2 r2 where "scan_lines env [] 0 (ls @ new) = (True, h2, r2)"
      using new ls(1) by (cases "scan_lines env [] 0 (ls @ new)") (simp add: append_lines_def scan_path_def)
    from scan_lines_prefix [OF this] ls(2) show False by simp
  qed
  with fields show ?thesis by blast
qed

lemma recovery_error_cleared_witness:
  "\<exists>e' st'. record_event ex_audit_env Written Written Written ([], []) ex_event
      ((ex_log FailOperational)\<lparr>al_error := ''x'', al_recovery := Some [BlankLine], al_recovery_error := ''row 0 is blank''\<rparr>) =
        (Recorded, e', st') \<and> al_recovery_error st' = [] \<and> \<not> fst (scan_path ex_audit_env None (al_recovery st'))"
proof -
  define st where "st = (ex_log FailOperational)\<lparr>al_error := ''x'', al_recovery := Some [BlankLine],
    al_recovery_error := ''row 0 is blank''\<rparr>"
  have st: "al_error st = ''x''" "al_recovery_last st = []" "al_policy st = FailOperational" "al_marker st = False"
    "al_recovery_path st \<noteq> None" "al_recovery st = Some [BlankLine]" "al_path st = Some ''audit.jsonl''"
    by (simp_all add: st_def)
  have "event_chars (recovery_marker ([], []) st) + length ([] :: pystr) + length ''recovery'' \<le> 80000"
    by (simp add: event_chars_def recovery_marker_def st)
  from encoded_row_fits [OF this, of ex_audit_env "''x''"] ex_sha_length obtain em hm
    where m: "encoded_row ex_audit_env [] ''recovery'' ''x'' (recovery_marker ([], []) st) = (em, Some hm)" by blast
  then have "\<exists>x. hm = ae_sha ex_audit_env x" using encoded_row_base by metis
  then have "hm = ''h''" by (auto simp: ex_audit_env_def)
  have "event_chars ex_event \<le> 6000" unfolding ex_event_def by (rule emitted_chars) simp_all
  then have "event_chars ex_event + length ''h'' + length ''recovery'' \<le> 80000" by simp
  from encoded_row_fits [OF this, of ex_audit_env "''x''"] ex_sha_length obtain ee he
    where e: "encoded_row ex_audit_env ''h'' ''recovery'' ''x'' ex_event = (ee, Some he)" by blast
  define st1 where "st1 = st\<lparr>al_recovery := append_lines (al_recovery st) [RowLine (event_row em)], al_recovery_last := ''h''\<rparr>"
  have "recovery_line ex_audit_env Written (recovery_marker ([], []) st) st = (Recorded, em, st1)"
    using recovery_line_written [of ex_audit_env st "recovery_marker ([], []) st" em hm] m \<open>hm = ''h''\<close> st
    by (simp add: st1_def)
  moreover have "recovery_line ex_audit_env Written ex_event (st1\<lparr>al_marker := True\<rparr>) = (Recorded, ee,
      st1\<lparr>al_marker := True, al_recovery := append_lines (al_recovery st1) [RowLine (event_row ee)], al_recovery_last := he\<rparr>)"
    using recovery_line_written [of ex_audit_env "st1\<lparr>al_marker := True\<rparr>" ex_event ee he] e st by (simp add: st1_def)
  ultimately obtain st' where rec: "record_event ex_audit_env Written Written Written ([], []) ex_event st = (Recorded, ee, st')"
    using st by (simp add: record_event_def recovery_or_emergency_def append_recovery_def)
  have scan: "scan_path ex_audit_env None (al_recovery st) = (False, [], row_text 0 '' is blank'')"
    by (simp add: scan_path_def st)
  from recovery_error_cleared [OF _ _ _ scan rec] rec st show ?thesis unfolding st_def by simp
qed

end
