(* ===== verification/SecurityKernel.thy ===== *)
theory SecurityKernel
  imports Capabilities AuditProperties
begin

text \<open>
  \<^verbatim>\<open>security/kernel.py\<close>: sessions are issued for an identity, every protected operation is decided by \<open>authorize\<close>, and
  every decision is written to the audit log before it is returned. The clock, drawn identifiers and what the
  operating system does to the audit files are arguments.
\<close>

record kernel =
  k_state :: security_state
  k_catalog :: catalog
  k_rules :: "policy_rule list"
  k_audit :: audit_log

record surroundings =
  sur_now :: rat
  sur_fresh :: "pystr \<times> pystr"
  sur_marker :: "pystr \<times> pystr"
  sur_corr :: pystr
  sur_primary :: io
  sur_marker_io :: io
  sur_recovery :: io

section \<open>Set-up\<close>

definition parse_audit_policy :: "pystr \<Rightarrow> exc + failure_policy" where
  "parse_audit_policy configured =
     (let v = py_casefold (py_strip configured) in
      if v = ''fail_closed'' then Inr FailClosed
      else if v = ''fail_operational'' then Inr FailOperational
      else Inl (security_fail ''AUDIT_POLICY_INVALID''))"

text \<open>
  \<open>local_foundation\<close>: \<open>configured\<close> is the environment variable, \<open>data_root\<close> the data root; the two files hold what they
  hold.
\<close>

definition local_foundation ::
  "audit_env \<Rightarrow> pystr option \<Rightarrow> pystr \<Rightarrow> pystr option \<Rightarrow> pystr option \<Rightarrow> audit_line list option \<Rightarrow>
    audit_line list option \<Rightarrow> exc + kernel"
where
  "local_foundation env configured data_root rd rd' primary recovery =
     ebind (parse_audit_policy (case configured of Some v \<Rightarrow> v | None \<Rightarrow> ''fail_operational'')) (\<lambda>policy.
     ebind (make_catalog []) (\<lambda>cat.
       Inr \<lparr>k_state = empty_security, k_catalog = cat, k_rules = [],
         k_audit = open_log env rd rd' (Some (data_root @ ''/security/audit.jsonl''))
           (Some (data_root @ ''/security/audit.recovery.jsonl'')) policy primary recovery\<rparr>))"

definition add_policy :: "policy_rule \<Rightarrow> kernel \<Rightarrow> exc + kernel" where
  "add_policy r k = ebind (add_rule r (k_rules k)) (\<lambda>rules. Inr (k\<lparr>k_rules := rules\<rparr>))"

section \<open>Issuing a session\<close>

definition grant_capability :: "catalog \<Rightarrow> trust_domain \<Rightarrow> pystr \<Rightarrow> pystr list \<Rightarrow> exc + pystr list" where
  "grant_capability cat td cap granted =
     ebind (catalog_require cap cat) (\<lambda>c.
       if c_domain c \<noteq> td then Inl (security_fail ''TRUST_DOMAIN_VIOLATION'') else Inr (granted @ [c_name c]))"

definition session_device :: "security_state \<Rightarrow> trust_domain \<Rightarrow> pystr \<Rightarrow> exc + int" where
  "session_device st td dev =
     (if dev = [] then Inr 0
      else (case ss_devices st dev of
          None \<Rightarrow> Inl (security_fail ''DEVICE_INVALID'')
        | Some d \<Rightarrow>
            if d_revoked d then Inl (security_fail ''DEVICE_INVALID'')
            else if d_domain d \<noteq> td then Inl (security_fail ''TRUST_DOMAIN_VIOLATION'')
            else Inr (d_generation d)))"

definition issue_session ::
  "rat \<Rightarrow> pystr \<Rightarrow> pystr \<Rightarrow> pystr list \<Rightarrow> pystr \<Rightarrow> int \<Rightarrow> bool \<Rightarrow> kernel \<Rightarrow> exc + session"
where
  "issue_session now fresh identity_id caps dev ttl root_verified k =
     (case ss_identities (k_state k) identity_id of
        None \<Rightarrow> Inl (security_fail ''IDENTITY_INVALID'')
      | Some i \<Rightarrow>
          if \<not> i_enabled i then Inl (security_fail ''IDENTITY_INVALID'')
          else if ttl < 1 \<or> 24 * 60 * 60 < ttl then Inl ValueError
          else
            let td = p_domain (i_principal i) in
            ebind (efold (grant_capability (k_catalog k) td) caps []) (\<lambda>granted.
            ebind (session_device (k_state k) td dev) (\<lambda>generation.
              Inr \<lparr>s_id = fresh, s_principal = p_id (i_principal i), s_identity = i_id i, s_domain = td,
                s_issued = Some now, s_expires = Some (now + of_int ttl), s_identity_generation = i_generation i,
                s_device = dev, s_device_generation = generation,
                s_capabilities = sort (remdups granted), s_root_verified = root_verified\<rparr>)))"

section \<open>Deciding\<close>

definition refuse :: "pystr \<Rightarrow> decision" where
  "refuse c = \<lparr>allowed = False, code = c, matched = []\<rparr>"

definition root_claimed :: "session \<Rightarrow> bool" where
  "root_claimed s \<longleftrightarrow> s_domain s = Developer \<and> ''platform.root'' \<in> set (s_capabilities s)"

text \<open>The decision for a valid session. \<open>decide\<close> is the policy evaluator on the rules of the kernel.\<close>

definition decide_valid ::
  "(session \<Rightarrow> pystr \<Rightarrow> pystr \<Rightarrow> ctx \<Rightarrow> decision) \<Rightarrow> catalog \<Rightarrow> session \<Rightarrow> pystr \<Rightarrow> pystr \<Rightarrow> ctx \<Rightarrow> decision"
where
  "decide_valid decide cat s cap resource ctx =
     (let root = root_claimed s \<and> s_root_verified s in
      case catalog_get cap cat of
        None \<Rightarrow> refuse ''CAPABILITY_UNKNOWN''
      | Some c \<Rightarrow>
          if root_claimed s \<and> \<not> s_root_verified s then refuse ''ROOT_INTEGRITY_REQUIRED''
          else if root \<and> c_domain c \<in> {Personal, Developer} then
            \<lparr>allowed = True, code = ''PLATFORM_ROOT_ALLOW'', matched = []\<rparr>
          else if c_domain c \<noteq> s_domain s then
            refuse (if root \<and> c_domain c = Enterprise then ''ROOT_ENTERPRISE_BOUNDARY'' else ''TRUST_DOMAIN_VIOLATION'')
          else decide s cap resource ctx)"

definition authorize_decision :: "rat \<Rightarrow> session option \<Rightarrow> pystr \<Rightarrow> pystr \<Rightarrow> ctx \<Rightarrow> kernel \<Rightarrow> decision" where
  "authorize_decision now os cap resource ctx k =
     (case os of
        None \<Rightarrow> refuse ''SESSION_REQUIRED''
      | Some s \<Rightarrow> (case validate_session s now (k_state k) of
          Inl c \<Rightarrow> refuse c
        | Inr _ \<Rightarrow> decide_valid (evaluate (k_rules k)) (k_catalog k) s cap resource ctx))"

definition decision_event :: "surroundings \<Rightarrow> session option \<Rightarrow> pystr \<Rightarrow> pystr \<Rightarrow> pystr \<Rightarrow> kernel \<Rightarrow> decision \<Rightarrow> audit_event" where
  "decision_event sur os cap resource corr k dec =
     (let correlation = (if corr = [] then sur_corr sur else corr);
          verdict = (if allowed dec then ''allow'' else ''deny'') in
      case os of
        None \<Rightarrow> emitted_event (sur_fresh sur) ''anonymous'' cap resource verdict
          (case catalog_get cap (k_catalog k) of None \<Rightarrow> Personal | Some c \<Rightarrow> c_domain c) [] correlation (code dec)
      | Some s \<Rightarrow> emitted_event (sur_fresh sur) (s_principal s) cap resource verdict (s_domain s) (s_device s)
          correlation (code dec))"

text \<open>
  \<open>authorize\<close>: the decision is returned once its event is recorded; a log that refuses the event raises
  instead.
\<close>

definition authorize ::
  "audit_env \<Rightarrow> surroundings \<Rightarrow> session option \<Rightarrow> pystr \<Rightarrow> pystr \<Rightarrow> ctx \<Rightarrow> pystr \<Rightarrow> kernel \<Rightarrow> (exc + decision) \<times> kernel"
where
  "authorize env sur os cap resource ctx corr k =
     (let dec = authorize_decision (sur_now sur) os cap resource ctx k in
      case record_event env (sur_primary sur) (sur_marker_io sur) (sur_recovery sur) (sur_marker sur)
          (decision_event sur os cap resource corr k dec) (k_audit k) of
        (Recorded, _, lg) \<Rightarrow> (Inr dec, k\<lparr>k_audit := lg\<rparr>)
      | (Raised x, _, lg) \<Rightarrow> (Inl x, k\<lparr>k_audit := lg\<rparr>)
      | (OsFailed _, _, lg) \<Rightarrow> (Inl OperationalError, k\<lparr>k_audit := lg\<rparr>))"

definition require_capability ::
  "audit_env \<Rightarrow> surroundings \<Rightarrow> session option \<Rightarrow> pystr \<Rightarrow> pystr \<Rightarrow> ctx \<Rightarrow> pystr \<Rightarrow> kernel \<Rightarrow> (exc + decision) \<times> kernel"
where
  "require_capability env sur os cap resource ctx corr k =
     (case authorize env sur os cap resource ctx corr k of
        (Inr dec, k') \<Rightarrow> (if allowed dec then Inr dec else Inl (security_fail ''AUTHORIZATION_DENIED''), k')
      | (Inl x, k') \<Rightarrow> (Inl x, k'))"

text \<open>\<open>execute\<close>: the protected operation acts on the world \<open>w\<close>, and may raise.\<close>

definition execute ::
  "audit_env \<Rightarrow> surroundings \<Rightarrow> session option \<Rightarrow> pystr \<Rightarrow> pystr \<Rightarrow> ('w \<Rightarrow> (exc + 'a) \<times> 'w) \<Rightarrow> ctx \<Rightarrow> pystr \<Rightarrow>
    kernel \<Rightarrow> 'w \<Rightarrow> (exc + 'a) \<times> kernel \<times> 'w"
where
  "execute env sur os cap resource oper ctx corr k w =
     (case require_capability env sur os cap resource ctx corr k of
        (Inl x, k') \<Rightarrow> (Inl x, k', w)
      | (Inr _, k') \<Rightarrow> (let (r, w') = oper w in (r, k', w')))"

section \<open>The evaluator as the kernel sees it\<close>

text \<open>
  The kernel relies on two laws of a policy evaluator: it allows nothing the session was not granted, and a
  decision that allows names the rules it rests on.
\<close>

locale policy_decider =
  fixes decide :: "session \<Rightarrow> pystr \<Rightarrow> pystr \<Rightarrow> ctx \<Rightarrow> decision"
  assumes granted_only: "allowed (decide s cap resource ctx) \<Longrightarrow> cap \<in> set (s_capabilities s)"
    and grounded: "allowed (decide s cap resource ctx) \<Longrightarrow> matched (decide s cap resource ctx) \<noteq> []"
begin

lemma decide_valid_allowed:
  assumes "allowed (decide_valid decide cat s cap resource ctx)"
  shows "\<exists>c. catalog_get cap cat = Some c \<and>
    (root_claimed s \<and> s_root_verified s \<and> c_domain c \<noteq> Enterprise \<or>
     c_domain c = s_domain s \<and> (root_claimed s \<longrightarrow> s_root_verified s) \<and> allowed (decide s cap resource ctx))"
proof (cases "catalog_get cap cat")
  case None
  with assms show ?thesis by (simp add: decide_valid_def refuse_def)
next
  case (Some c)
  have "c_domain c \<in> {Personal, Developer} \<longleftrightarrow> c_domain c \<noteq> Enterprise" by (cases "c_domain c") simp_all
  with assms Some show ?thesis by (auto simp: decide_valid_def refuse_def Let_def split: if_splits)
qed

lemma enterprise_needs_enterprise:
  assumes "allowed (decide_valid decide cat s cap resource ctx)" and "catalog_get cap cat = Some c"
    and "c_domain c = Enterprise"
  shows "s_domain s = Enterprise \<and> cap \<in> set (s_capabilities s) \<and> matched (decide s cap resource ctx) \<noteq> []"
  using decide_valid_allowed [OF assms(1)] assms(2,3) granted_only grounded by fastforce

lemma unverified_root_refused:
  "root_claimed s \<Longrightarrow> \<not> s_root_verified s \<Longrightarrow> \<not> allowed (decide_valid decide cat s cap resource ctx)"
  using decide_valid_allowed by blast

end

interpretation rules: policy_decider "evaluate ruleset" for ruleset
proof
  show "allowed (evaluate ruleset s cap resource ctx) \<Longrightarrow> cap \<in> set (s_capabilities s)" for s cap resource ctx
    by (simp add: evaluate_allowed)
  show "allowed (evaluate ruleset s cap resource ctx) \<Longrightarrow> matched (evaluate ruleset s cap resource ctx) \<noteq> []"
    for s cap resource ctx
    by (auto simp: evaluate_def sift_eq Let_def split: if_splits)
qed

section \<open>Properties\<close>

lemma authorize_parts:
  assumes "authorize env sur os cap resource ctx corr k = (r, k')"
  shows "\<exists>out e' lg. record_event env (sur_primary sur) (sur_marker_io sur) (sur_recovery sur) (sur_marker sur)
      (decision_event sur os cap resource corr k (authorize_decision (sur_now sur) os cap resource ctx k)) (k_audit k) =
        (out, e', lg) \<and> k' = k\<lparr>k_audit := lg\<rparr> \<and>
      (\<forall>d. r = Inr d \<longrightarrow> out = Recorded \<and> d = authorize_decision (sur_now sur) os cap resource ctx k)"
  using assms by (auto simp: authorize_def Let_def split: prod.splits outcome.splits)

lemma decision_event_fields:
  "e_action (decision_event sur os cap resource corr k d) = take 256 cap \<and>
   e_resource (decision_event sur os cap resource corr k d) = take 4096 resource \<and>
   e_decision (decision_event sur os cap resource corr k d) = (if allowed d then ''allow'' else ''deny'') \<and>
   e_actor (decision_event sur os cap resource corr k d) =
     (case os of None \<Rightarrow> ''anonymous'' | Some s \<Rightarrow> take 256 (s_principal s))"
  by (simp add: decision_event_def emitted_event_def Let_def split: option.split)

text \<open>C4: What an allowed decision means: there is a session, it validates against the registry at this instant, the
  capability is in the catalogue, and either the session is a verified Root and the capability is personal or
  developer, or the capability is of the session's own domain and granted to it, some allow rule applies and no deny
  rule does. So an enterprise capability is never allowed to a Root or any other session outside Enterprise, and a
  claimed Root without verified integrity is allowed nothing. The allowance is in the audit log.\<close>

theorem authorize_sound:
  assumes "authorize env sur os cap resource ctx corr k = (Inr d, k')" and "allowed d"
    and "log_ok env (k_audit k)" and "\<And>x. ae_sha env x \<noteq> []"
  shows "\<exists>s c e. os = Some s \<and> validate_session s (sur_now sur) (k_state k) = Inr () \<and>
    catalog_get cap (k_catalog k) = Some c \<and> (root_claimed s \<longrightarrow> s_root_verified s) \<and>
    (c_domain c = Enterprise \<longrightarrow> s_domain s = Enterprise) \<and>
    (root_claimed s \<or> c_domain c = s_domain s \<and> cap \<in> set (s_capabilities s) \<and>
       (\<exists>r. r \<in> set (k_rules k) \<and> r_effect r = Allow \<and> rule_applies s cap resource ctx r) \<and>
       \<not> (\<exists>r. r \<in> set (k_rules k) \<and> r_effect r = Deny \<and> rule_applies s cap resource ctx r)) \<and>
    event_kept e (k_audit k) (k_audit k') \<and> e_action e = take 256 cap \<and> e_resource e = take 4096 resource \<and>
    e_decision e = ''allow'' \<and> e_actor e = take 256 (s_principal s)"
proof -
  from authorize_parts [OF assms(1)] obtain e lg where
    rec: "record_event env (sur_primary sur) (sur_marker_io sur) (sur_recovery sur) (sur_marker sur)
      (decision_event sur os cap resource corr k d) (k_audit k) = (Recorded, e, lg)"
    and k': "k' = k\<lparr>k_audit := lg\<rparr>" and d: "d = authorize_decision (sur_now sur) os cap resource ctx k" by auto
  from record_event_step [OF rec assms(3,4)] have kept: "event_kept e (k_audit k) lg"
    and same: "same_event (decision_event sur os cap resource corr k d) e" by blast+
  from d assms(2) obtain s where s: "os = Some s" by (cases os) (auto simp: authorize_decision_def refuse_def)
  with d assms(2) have val: "validate_session s (sur_now sur) (k_state k) = Inr ()"
    and dec: "allowed (decide_valid (evaluate (k_rules k)) (k_catalog k) s cap resource ctx)"
    by (auto simp: authorize_decision_def refuse_def split: sum.splits)
  from rules.decide_valid_allowed [OF dec] obtain c where c: "catalog_get cap (k_catalog k) = Some c"
    "root_claimed s \<and> s_root_verified s \<and> c_domain c \<noteq> Enterprise \<or>
     c_domain c = s_domain s \<and> (root_claimed s \<longrightarrow> s_root_verified s) \<and> allowed (evaluate (k_rules k) s cap resource ctx)"
    by blast
  have fields: "e_action e = take 256 cap" "e_resource e = take 4096 resource" "e_decision e = ''allow''"
    "e_actor e = take 256 (s_principal s)"
    using same decision_event_fields [of sur os cap resource corr k d] assms(2) s
    by (simp_all add: same_event_def) (metis audit_event.select_convs audit_event.surjective audit_event.update_convs(11))+
  from c(2) have "(root_claimed s \<longrightarrow> s_root_verified s) \<and> (c_domain c = Enterprise \<longrightarrow> s_domain s = Enterprise) \<and>
    (root_claimed s \<or> c_domain c = s_domain s \<and> allowed (evaluate (k_rules k) s cap resource ctx))" by auto
  then show ?thesis using s val c(1) kept k' fields by (auto simp: evaluate_allowed)
qed

definition ex_kernel :: kernel where
  "ex_kernel = \<lparr>k_state = ex_security,
     k_catalog = [(''project.read'', \<lparr>c_name = ''project.read'', c_domain = Personal, c_description = []\<rparr>)],
     k_rules = [ex_rule ''a'' Allow 0], k_audit = ex_log FailOperational\<rparr>"

definition ex_surroundings :: surroundings where
  "ex_surroundings = \<lparr>sur_now = 150, sur_fresh = (''e'', ''t''), sur_marker = (''m'', ''t''), sur_corr = ''c'',
     sur_primary = Written, sur_marker_io = Written, sur_recovery = Written\<rparr>"

lemma ex_record_any:
  assumes "event_chars e \<le> 6000"
  shows "\<exists>e' lg. record_event ex_audit_env Written io_m io_r fresh e (ex_log p) = (Recorded, e', lg)"
proof -
  from assms have "event_chars e + length ([] :: pystr) + length ''primary'' \<le> 80000" by simp
  from encoded_row_fits [OF this, of ex_audit_env "[]"] ex_sha_length obtain e' h
    where "encoded_row ex_audit_env [] ''primary'' [] e = (e', Some h)" by blast
  then show ?thesis by (simp add: record_event_def append_primary_def)
qed

lemma ex_decision:
  "allowed (authorize_decision 150 (Some ex_session) ''project.read'' ''r'' Map.empty ex_kernel)"
proof -
  have "validate_session ex_session 150 ex_security = Inr ()"
    by (simp add: validate_session_Inr ex_session_def ex_security_def ex_identity_def)
  moreover have "allowed (evaluate [ex_rule ''a'' Allow 0] ex_session ''project.read'' ''r'' Map.empty)"
    by (simp add: evaluate_allowed rule_applies_def ex_rule_def ex_session_def fnmatchcase_def conditions_match_def)
  ultimately show ?thesis
    by (simp add: authorize_decision_def ex_kernel_def decide_valid_def catalog_get_def root_claimed_def ex_session_def)
qed

lemma ex_authorize:
  "\<exists>d k'. authorize ex_audit_env ex_surroundings (Some ex_session) ''project.read'' ''r'' Map.empty [] ex_kernel = (Inr d, k') \<and>
     allowed d"
proof -
  define d where "d = authorize_decision 150 (Some ex_session) ''project.read'' ''r'' Map.empty ex_kernel"
  have "event_chars (decision_event ex_surroundings (Some ex_session) ''project.read'' ''r'' [] ex_kernel d) \<le> 6000"
    by (simp add: decision_event_def ex_surroundings_def emitted_chars)
  from ex_record_any [OF this, of Written Written "(''m'', ''t'')" FailOperational] ex_decision show ?thesis
    by (auto simp: authorize_def Let_def d_def ex_surroundings_def ex_kernel_def)
qed

theorem authorize_sound_witness:
  "\<exists>d k' e. authorize ex_audit_env ex_surroundings (Some ex_session) ''project.read'' ''r'' Map.empty [] ex_kernel = (Inr d, k') \<and>
     event_kept e (k_audit ex_kernel) (k_audit k') \<and> e_decision e = ''allow''"
proof -
  from ex_authorize obtain d k' where auth: "authorize ex_audit_env ex_surroundings (Some ex_session) ''project.read'' ''r''
      Map.empty [] ex_kernel = (Inr d, k')" and ok: "allowed d" by blast
  have "log_ok ex_audit_env (k_audit ex_kernel)" by (simp add: ex_kernel_def ex_log_ok)
  from authorize_sound [OF auth ok this ex_sha] auth show ?thesis by blast
qed



section \<open>Issued sessions\<close>

lemma grant_all:
  "efold (grant_capability cat td) caps acc = Inr granted \<Longrightarrow>
     (\<exists>new. granted = acc @ new \<and> length new = length caps \<and>
       (\<forall>n \<in> set new. \<exists>cap c. cap \<in> set caps \<and> catalog_get cap cat = Some c \<and> c_domain c = td \<and> c_name c = n))"
proof (induction caps arbitrary: acc)
  case (Cons cap caps)
  then obtain acc1 where one: "grant_capability cat td cap acc = Inr acc1"
    and rest: "efold (grant_capability cat td) caps acc1 = Inr granted" by auto
  from one obtain c where c: "catalog_get cap cat = Some c" "c_domain c = td" "acc1 = acc @ [c_name c]"
    by (auto simp: grant_capability_def catalog_require_def split: option.splits if_splits)
  from Cons.IH [OF rest] obtain new where new: "granted = acc1 @ new" "length new = length caps"
    "\<forall>n \<in> set new. \<exists>cap c. cap \<in> set caps \<and> catalog_get cap cat = Some c \<and> c_domain c = td \<and> c_name c = n" by blast
  have "granted = acc @ (c_name c # new)" using c(3) new(1) by simp
  moreover have "\<forall>n \<in> set (c_name c # new). \<exists>cap' c'. cap' \<in> set (cap # caps) \<and> catalog_get cap' cat = Some c' \<and>
      c_domain c' = td \<and> c_name c' = n" using c new(3) by simp blast
  ultimately show ?case using new(2) by (intro exI [of _ "c_name c # new"]) simp
qed simp

text \<open>An issued session is valid from now until it expires, at most 24 hours later, as long as the registry stays as it is
  and the session is not revoked; it is of the trust domain of its identity, and every capability it carries is
  one of the catalogue for that domain. So a personal identity can never be issued an enterprise capability.\<close>

lemma issued_session_valid:
  assumes "issue_session now fresh ident caps dev ttl rv k = Inr s" and "fresh \<notin> ss_revoked (k_state k)"
    and "now \<le> t" and "catalog_wf (k_catalog k)" and "ss_identities (k_state k) ident = Some i" and "i_id i = ident"
  shows "(validate_session s t (k_state k) = Inr () \<longleftrightarrow> t < now + of_int ttl) \<and> 1 \<le> ttl \<and> ttl \<le> 86400 \<and>
    s_domain s = p_domain (i_principal i) \<and> sorted (s_capabilities s) \<and>
    (\<forall>n. n \<in> set (s_capabilities s) \<longrightarrow> (\<exists>c. c_name c = n \<and> c_domain c = s_domain s \<and>
       catalog_get (py_strip n) (k_catalog k) = Some c))"
proof -
  from assms(1,5) obtain granted gen where en: "i_enabled i" and ttl: "1 \<le> ttl" "ttl \<le> 86400"
    and granted: "efold (grant_capability (k_catalog k) (p_domain (i_principal i))) caps [] = Inr granted"
    and gen: "session_device (k_state k) (p_domain (i_principal i)) dev = Inr gen"
    and s: "s = \<lparr>s_id = fresh, s_principal = p_id (i_principal i), s_identity = i_id i, s_domain = p_domain (i_principal i),
      s_issued = Some now, s_expires = Some (now + of_int ttl), s_identity_generation = i_generation i, s_device = dev,
      s_device_generation = gen, s_capabilities = sort (remdups granted), s_root_verified = rv\<rparr>"
    by (auto simp: issue_session_def Let_def split: if_splits)
  have dev: "s_device s \<noteq> [] \<longrightarrow> (\<exists>d. ss_devices (k_state k) (s_device s) = Some d \<and> d_domain d = s_domain s \<and>
      \<not> d_revoked d \<and> d_generation d = s_device_generation s)"
    using gen by (auto simp: s session_device_def split: option.splits if_splits)
  have "(0 :: rat) < of_int ttl" using ttl(1) by simp
  then have "now < now + of_int ttl" by simp
  moreover have "now - t \<le> 300" using assms(3) by simp
  ultimately have "validate_session s t (k_state k) = Inr () \<longleftrightarrow> t < now + of_int ttl"
    using dev assms(2,5,6) en by (auto simp: validate_session_Inr s)
  moreover have "\<exists>c. c_name c = n \<and> c_domain c = s_domain s \<and> catalog_get (py_strip n) (k_catalog k) = Some c"
    if n: "n \<in> set (s_capabilities s)" for n
  proof -
    from grant_all [OF granted] n obtain cap c where c: "catalog_get cap (k_catalog k) = Some c"
      "c_domain c = s_domain s" "c_name c = n" by (auto simp: s)
    then have "(cap, c) \<in> set (k_catalog k)" by (simp add: catalog_get_def map_of_SomeD)
    with assms(4) c(3) have "cap = py_strip n" by (auto simp: catalog_wf_def)
    with c show ?thesis by blast
  qed
  ultimately show ?thesis using ttl by (simp add: s)
qed

lemma issued_session_valid_witness:
  "\<exists>s. issue_session 100 ''s1'' ''i'' [''project.read''] [] 60 False ex_kernel = Inr s \<and>
     validate_session s 159 (k_state ex_kernel) = Inr () \<and> validate_session s 160 (k_state ex_kernel) \<noteq> Inr ()"
proof -
  obtain s where s: "issue_session 100 ''s1'' ''i'' [''project.read''] [] 60 False ex_kernel = Inr s"
    by (simp add: issue_session_def ex_kernel_def ex_security_def ex_identity_def grant_capability_def catalog_require_def
        catalog_get_def session_device_def)
  have wf: "catalog_wf (k_catalog ex_kernel)"
  proof -
    have "py_strip ''project.read'' = ''project.read''" by (rule strip_id) (simp add: py_isspace_def ord_c_def)
    then show ?thesis by (simp add: catalog_wf_def ex_kernel_def)
  qed
  have *: "validate_session s t (k_state ex_kernel) = Inr () \<longleftrightarrow> t < 160" if "100 \<le> t" for t
    using issued_session_valid [OF s _ that wf, of ex_identity] by (simp add: ex_kernel_def ex_security_def ex_identity_def)
  show ?thesis using s * [of 159] * [of 160] by auto
qed

end
