(* ===== verification/TcpReassembly.thy ===== *)
theory TcpReassembly
  imports Prelude "HOL-Library.AList" "HOL-Library.Word"
begin

text \<open>
  \<^verbatim>\<open>infrastructure/capture/tcp_reassembly.py\<close>: bounded reassembly of one direction of a TCP stream. The manager maps a flow
  to the state of its direction; the out-of-order segments of a direction are a dictionary in insertion order, and
  sequence numbers are compared modulo \<open>2 ^ 32\<close>.
\<close>

type_synonym bytes = "8 word list"

type_synonym flow = "pystr \<times> int \<times> pystr \<times> int"

abbreviation blen :: "'a list \<Rightarrow> int" where
  "blen xs \<equiv> int (length xs)"

record tcp_update =
  u_stream :: bytes
  u_contiguous :: int
  u_pending :: int
  u_retransmission :: bool
  u_out_of_order :: bool
  u_gap :: bool
  u_truncated :: bool
  u_closed :: bool

record direction =
  t_expected :: "int option"
  t_probe :: bytes
  t_pending :: "(int \<times> bytes) list"
  t_pending_bytes :: int
  t_contiguous :: int
  t_last_seen :: int
  t_truncated :: bool

record tcp_manager =
  tm_states :: "(flow \<times> direction) list"
  tm_clock :: int
  tm_retained :: int

definition MAX_FLOWS :: int where "MAX_FLOWS = 4096"
definition MAX_PROBE_BYTES :: int where "MAX_PROBE_BYTES = 64 * 1024"
definition MAX_PENDING_SEGMENTS :: int where "MAX_PENDING_SEGMENTS = 64"
definition MAX_PENDING_BYTES :: int where "MAX_PENDING_BYTES = 128 * 1024"
definition MAX_GLOBAL_BYTES :: int where "MAX_GLOBAL_BYTES = 64 * 1024 * 1024"
definition MAX_SEGMENT_BYTES :: int where "MAX_SEGMENT_BYTES = 1024 * 1024"

lemmas tcp_limits = MAX_FLOWS_def MAX_PROBE_BYTES_def MAX_PENDING_SEGMENTS_def MAX_PENDING_BYTES_def MAX_GLOBAL_BYTES_def
  MAX_SEGMENT_BYTES_def

definition no_update :: tcp_update where
  "no_update = \<lparr>u_stream = [], u_contiguous = 0, u_pending = 0, u_retransmission = False, u_out_of_order = False,
     u_gap = False, u_truncated = False, u_closed = False\<rparr>"

definition empty_manager :: tcp_manager where
  "empty_manager = \<lparr>tm_states = [], tm_clock = 0, tm_retained = 0\<rparr>"

definition new_direction :: "int \<Rightarrow> direction" where
  "new_direction clock = \<lparr>t_expected = None, t_probe = [], t_pending = [], t_pending_bytes = 0, t_contiguous = 0,
     t_last_seen = clock, t_truncated = False\<rparr>"

section \<open>One direction\<close>

definition sequence_delta :: "int \<Rightarrow> int \<Rightarrow> int" where
  "sequence_delta l r = (l - r + 0x80000000) mod 2 ^ 32 - 0x80000000"

text \<open>The operations on a direction also move the count of retained bytes of the manager.\<close>

definition append_contiguous :: "bytes \<Rightarrow> direction \<times> int \<Rightarrow> direction \<times> int" where
  "append_contiguous payload = (\<lambda>(d, retained).
     if payload = [] then (d, retained)
     else (case t_expected d of
         None \<Rightarrow> (d, retained)
       | Some e \<Rightarrow>
           let remaining = MAX_PROBE_BYTES - blen (t_probe d);
               chunk = (if 0 < remaining then take (nat remaining) payload else [])
           in (d\<lparr>t_expected := Some ((e + blen payload) mod 2 ^ 32), t_contiguous := t_contiguous d + blen payload,
                t_probe := t_probe d @ chunk, t_truncated := t_truncated d \<or> max 0 remaining < blen payload\<rparr>,
               retained + blen chunk)))"

definition store_pending :: "int \<Rightarrow> bytes \<Rightarrow> direction \<times> int \<Rightarrow> direction \<times> int" where
  "store_pending seqno payload = (\<lambda>(d, retained).
     let existing = map_of (t_pending d) seqno in
     if (case existing of Some old \<Rightarrow> length payload \<le> length old | None \<Rightarrow> False) then (d, retained)
     else
       let gone = (case existing of Some old \<Rightarrow> blen old | None \<Rightarrow> 0);
           d1 = d\<lparr>t_pending_bytes := t_pending_bytes d - gone\<rparr>;
           ret1 = retained - gone in
       if MAX_PENDING_SEGMENTS \<le> blen (t_pending d) \<and> existing = None then (d1\<lparr>t_truncated := True\<rparr>, ret1)
       else
         let available = MAX_PENDING_BYTES - t_pending_bytes d1 in
         if available \<le> 0 then (d1\<lparr>t_truncated := True\<rparr>, ret1)
         else
           let bounded = take (nat available) payload in
           if bounded = [] then (d1, ret1)
           else (d1\<lparr>t_pending := AList.update seqno bounded (t_pending d1), t_pending_bytes := t_pending_bytes d1 + blen bounded,
                  t_truncated := t_truncated d1 \<or> length bounded < length payload\<rparr>, ret1 + blen bounded))"

text \<open>The segment \<open>_drain_pending\<close> takes next: of those not ahead, the first of the most recent.\<close>

fun best_pending :: "int \<Rightarrow> (int \<times> bytes) list \<Rightarrow> (int \<times> int) option \<Rightarrow> (int \<times> int) option" where
  "best_pending e [] best = best"
| "best_pending e ((q, _) # pend) best =
     (let delta = sequence_delta q e in
      best_pending e pend
        (if delta \<le> 0 \<and> (case best of None \<Rightarrow> True | Some (_, b) \<Rightarrow> b < delta) then Some (q, delta) else best))"

lemma best_pending_mem:
  "best_pending e pend best = Some (q, delta) \<Longrightarrow>
     best = Some (q, delta) \<or> q \<in> fst ` set pend \<and> delta = sequence_delta q e \<and> delta \<le> 0"
  by (induction e pend best rule: best_pending.induct) (force simp: Let_def split: if_splits option.splits)+

lemma best_pending_None:
  "best_pending e pend best = None \<Longrightarrow> best = None \<and> (\<forall>q \<in> fst ` set pend. 0 < sequence_delta q e)"
  by (induction e pend best rule: best_pending.induct) (auto simp: Let_def split: if_splits option.splits)

lemma AList_delete_shrinks: "k \<in> fst ` set al \<Longrightarrow> length (AList.delete k al) < length al"
  by (auto simp: AList.delete_eq intro!: length_filter_less)

definition take_segment :: "int \<Rightarrow> int \<Rightarrow> direction \<times> int \<Rightarrow> direction \<times> int" where
  "take_segment q delta = (\<lambda>(d, retained).
     let segment = the (map_of (t_pending d) q);
         d1 = d\<lparr>t_pending := AList.delete q (t_pending d), t_pending_bytes := t_pending_bytes d - blen segment\<rparr>;
         overlap = nat (- delta)
     in if overlap < length segment then append_contiguous (drop overlap segment) (d1, retained - blen segment)
        else (d1, retained - blen segment))"

lemma append_contiguous_pending [simp]:
  "t_pending (fst (append_contiguous p dr)) = t_pending (fst dr)"
  "t_pending_bytes (fst (append_contiguous p dr)) = t_pending_bytes (fst dr)"
  by (auto simp: append_contiguous_def Let_def split: prod.splits option.splits)

lemma take_segment_pending: "t_pending (fst (take_segment q delta dr)) = AList.delete q (t_pending (fst dr))"
  by (simp add: take_segment_def Let_def split: prod.split)

function drain_pending :: "direction \<times> int \<Rightarrow> direction \<times> int" where
  "drain_pending (d, retained) =
     (case t_expected d of
        None \<Rightarrow> (d, retained)
      | Some e \<Rightarrow> (case best_pending e (t_pending d) None of
          None \<Rightarrow> (d, retained)
        | Some (q, delta) \<Rightarrow> drain_pending (take_segment q delta (d, retained))))"
  by pat_completeness auto

termination
proof (relation "measure (\<lambda>(d, _). length (t_pending d))", goal_cases)
  case (2 d retained e qd q delta)
  then have "q \<in> fst ` set (t_pending d)" using best_pending_mem [of e "t_pending d" None q delta] by simp
  from AList_delete_shrinks [OF this] show ?case
    using take_segment_pending [of q delta "(d, retained)"] by (cases "take_segment q delta (d, retained)") simp
qed simp

declare drain_pending.simps [simp del]

section \<open>The manager\<close>

fun oldest :: "(flow \<times> direction) list \<Rightarrow> (flow \<times> direction) option" where
  "oldest [] = None"
| "oldest ((k, d) # rest) = (case oldest rest of
     None \<Rightarrow> Some (k, d)
   | Some (k', d') \<Rightarrow> if t_last_seen d' < t_last_seen d then Some (k', d') else Some (k, d))"

lemma oldest_mem: "oldest sts = Some (k, d) \<Longrightarrow> (k, d) \<in> set sts"
  by (induction sts arbitrary: k d rule: oldest.induct) (auto split: option.splits if_splits)

lemma oldest_None [simp]: "oldest sts = None \<longleftrightarrow> sts = []"
  by (cases sts rule: oldest.cases) (auto split: option.splits)

definition drop_state :: "flow \<Rightarrow> tcp_manager \<Rightarrow> tcp_manager" where
  "drop_state key m = (case map_of (tm_states m) key of
     None \<Rightarrow> m
   | Some d \<Rightarrow> m\<lparr>tm_states := AList.delete key (tm_states m),
       tm_retained := max 0 (tm_retained m - (blen (t_probe d) + t_pending_bytes d))\<rparr>)"

definition ensure_flow_capacity :: "tcp_manager \<Rightarrow> tcp_manager" where
  "ensure_flow_capacity m =
     (if blen (tm_states m) < MAX_FLOWS then m
      else (case oldest (tm_states m) of None \<Rightarrow> m | Some (victim, _) \<Rightarrow> drop_state victim m))"

definition trim_state :: "direction \<times> int \<Rightarrow> direction \<times> int" where
  "trim_state = (\<lambda>(d, retained).
     let gone = sum_list (map (\<lambda>(_, seg). blen seg) (t_pending d));
         half = MAX_PROBE_BYTES div 2;
         removed = (if half < blen (t_probe d) then blen (t_probe d) - half else 0)
     in (d\<lparr>t_pending := [], t_pending_bytes := 0, t_probe := (if half < blen (t_probe d) then take (nat half) (t_probe d)
           else t_probe d), t_truncated := True\<rparr>, retained - gone - removed))"

function enforce_global_budget :: "flow \<Rightarrow> tcp_manager \<Rightarrow> tcp_manager" where
  "enforce_global_budget exclude m =
     (if tm_retained m \<le> MAX_GLOBAL_BYTES \<or> tm_states m = [] then m
      else (case oldest (filter (\<lambda>(k, _). k \<noteq> exclude) (tm_states m)) of
          None \<Rightarrow> (case map_of (tm_states m) exclude of
              None \<Rightarrow> m
            | Some d \<Rightarrow> (let (d', retained) = trim_state (d, tm_retained m) in
                m\<lparr>tm_states := AList.update exclude d' (tm_states m), tm_retained := retained\<rparr>))
        | Some (victim, _) \<Rightarrow> enforce_global_budget exclude (drop_state victim m)))"
  by pat_completeness auto

termination
proof (relation "measure (\<lambda>(_, m). length (tm_states m))", goal_cases)
  case (2 exclude m vd victim d)
  then have "oldest (filter (\<lambda>(k, _). k \<noteq> exclude) (tm_states m)) = Some (victim, d)" by simp
  from oldest_mem [OF this] have mem: "(victim, d) \<in> set (tm_states m)" by auto
  then obtain d' where "map_of (tm_states m) victim = Some d'" by (metis map_of_eq_None_iff not_Some_eq fst_conv image_eqI)
  moreover have "length (AList.delete victim (tm_states m)) < length (tm_states m)"
    by (rule AList_delete_shrinks) (use mem in force)
  ultimately show ?case by (simp add: drop_state_def)
qed simp

declare enforce_global_budget.simps [simp del]

definition has_flag :: "pystr \<Rightarrow> pystr list \<Rightarrow> bool" where
  "has_flag name flags \<longleftrightarrow> name \<in> py_casefold ` set flags"

text \<open>What a payload does to the direction: the flags of the update it sets, the direction and the retained bytes.\<close>

definition accept_payload :: "int \<Rightarrow> bytes \<Rightarrow> tcp_update \<Rightarrow> direction \<times> int \<Rightarrow> tcp_update \<times> direction \<times> int" where
  "accept_payload seqno payload upd = (\<lambda>(d, retained).
     (case t_expected d of
        None \<Rightarrow> (upd, d, retained)
      | Some e \<Rightarrow>
          if payload = [] then (upd, d, retained)
          else
            let delta = sequence_delta seqno e in
            if delta = 0 then (upd, drain_pending (append_contiguous payload (d, retained)))
            else if 0 < delta then
              (upd\<lparr>u_out_of_order := True, u_gap := True\<rparr>, store_pending seqno payload (d, retained))
            else
              let overlap = nat (- delta) in
              if length payload \<le> overlap then (upd\<lparr>u_retransmission := True\<rparr>, d, retained)
              else (upd\<lparr>u_retransmission := True\<rparr>,
                drain_pending (append_contiguous (drop overlap payload) (d, retained)))))"

text \<open>A SYN takes one sequence number, so the data of its segment start at the next.\<close>

definition data_sequence :: "int \<Rightarrow> pystr list \<Rightarrow> int" where
  "data_sequence seqno flags = (seqno + (if has_flag ''syn'' flags then 1 else 0)) mod 2 ^ 32"

text \<open>The direction of the segment: the known one, or a fresh one that expects this segment.\<close>

definition open_direction :: "flow \<Rightarrow> int \<Rightarrow> tcp_manager \<Rightarrow> direction \<times> tcp_manager" where
  "open_direction key ds m =
     (let (d0, m2) = (case map_of (tm_states m) key of
            Some d \<Rightarrow> (d, m)
          | None \<Rightarrow> (new_direction (tm_clock m), ensure_flow_capacity m))
      in (d0\<lparr>t_last_seen := tm_clock m, t_expected := (case t_expected d0 of None \<Rightarrow> Some ds | Some e \<Rightarrow> Some e)\<rparr>, m2))"

definition closing :: "pystr list \<Rightarrow> bool" where
  "closing flags \<longleftrightarrow> has_flag ''rst'' flags \<or> has_flag ''fin'' flags"

definition feed :: "flow \<Rightarrow> int \<Rightarrow> bytes \<Rightarrow> pystr list \<Rightarrow> tcp_manager \<Rightarrow> tcp_update \<times> tcp_manager" where
  "feed key seqno payload flags m0 =
     (let m1 = m0\<lparr>tm_clock := tm_clock m0 + 1\<rparr> in
      if MAX_SEGMENT_BYTES < blen payload then (no_update\<lparr>u_truncated := True\<rparr>, m1)
      else
        let (d1, m2) = open_direction key (data_sequence seqno flags) m1;
            (upd, d2, retained) = accept_payload (data_sequence seqno flags) payload no_update (d1, tm_retained m2);
            upd1 = upd\<lparr>u_closed := closing flags, u_stream := t_probe d2, u_contiguous := t_contiguous d2,
              u_pending := t_pending_bytes d2, u_truncated := t_truncated d2\<rparr>;
            m3 = enforce_global_budget key
              (m2\<lparr>tm_states := AList.update key d2 (tm_states m2), tm_retained := retained\<rparr>)
        in (upd1, if closing flags then drop_state key m3 else m3))"

definition reset_manager :: "tcp_manager \<Rightarrow> tcp_manager" where
  "reset_manager m = m\<lparr>tm_states := [], tm_retained := 0\<rparr>"

end
