(* ===== verification/TcpProperties.thy ===== *)
theory TcpProperties
  imports TcpReassembly
begin

text \<open>
  What the reassembly promises: exact accounting within its budgets, and a probe that is always a slice of the
  stream the segments come from, whatever their order, overlap and repetition.
\<close>

section \<open>Sequence numbers\<close>

lemma delta_offsets:
  assumes "\<bar>x - y\<bar> < 2 ^ 31"
  shows "sequence_delta ((b + x) mod 2 ^ 32) ((b + y) mod 2 ^ 32) = x - y"
proof -
  have "((b + x) mod 2 ^ 32 - (b + y) mod 2 ^ 32 + 0x80000000) mod 2 ^ 32 =
      (((b + x) mod 2 ^ 32 - (b + y) mod 2 ^ 32) mod 2 ^ 32 + 0x80000000) mod 2 ^ 32"
    by (simp only: mod_add_left_eq)
  also have "\<dots> = ((b + x - (b + y)) mod 2 ^ 32 + 0x80000000) mod 2 ^ 32" by (simp only: mod_diff_eq)
  also have "\<dots> = (x - y + 0x80000000) mod 2 ^ 32" by (simp only: mod_add_left_eq add_diff_cancel_left)
  finally have "((b + x) mod 2 ^ 32 - (b + y) mod 2 ^ 32 + 0x80000000) mod 2 ^ 32 = (x - y + 0x80000000) mod 2 ^ 32" .
  moreover have "(x - y + 0x80000000) mod 2 ^ 32 = x - y + 0x80000000"
    using assms by (intro mod_pos_pos_trivial) auto
  ultimately show ?thesis by (simp add: sequence_delta_def)
qed

text \<open>The comparison of sequence numbers is signed 32-bit subtraction with wrap-around: for any two numbers it is the
  signed value of their difference as a word, and for numbers less than half the range apart it is their true
  distance, on either side of the wrap.\<close>

lemma sequence_delta_signed:
  assumes "\<bar>x - y\<bar> < 2 ^ 31"
  shows "sequence_delta ((b + x) mod 2 ^ 32) ((b + y) mod 2 ^ 32) = x - y \<and>
    sequence_delta l r = sint (word_of_int l - word_of_int r :: 32 word) \<and>
    - (2 ^ 31) \<le> sequence_delta l r \<and> sequence_delta l r < 2 ^ 31"
proof -
  have "sint (word_of_int l - word_of_int r :: 32 word) = sint (word_of_int (l - r) :: 32 word)" by simp
  also have "\<dots> = signed_take_bit 31 (l - r)" by (subst sint_sbintrunc') simp
  also have "\<dots> = sequence_delta l r"
    by (simp add: signed_take_bit_eq_take_bit_shift take_bit_eq_mod sequence_delta_def)
  finally have "sequence_delta l r = sint (word_of_int l - word_of_int r :: 32 word)" by simp
  moreover have "0 \<le> (l - r + 0x80000000) mod 2 ^ 32" "(l - r + 0x80000000) mod 2 ^ 32 < 2 ^ 32" by simp_all
  ultimately show ?thesis using delta_offsets [OF assms] by (auto simp: sequence_delta_def)
qed

lemma sequence_delta_signed_witness: "sequence_delta ((4294967295 + 5) mod 2 ^ 32) ((4294967295 + 0) mod 2 ^ 32) = 5"
  using sequence_delta_signed [of 5 0 4294967295] by simp

section \<open>Accounting\<close>

definition seg_bytes :: "(int \<times> bytes) list \<Rightarrow> int" where
  "seg_bytes pend = sum_list (map (\<lambda>(_, seg). blen seg) pend)"

lemma seg_bytes_Nil [simp]: "seg_bytes [] = 0"
  by (simp add: seg_bytes_def)

lemma seg_bytes_Cons [simp]: "seg_bytes ((q, seg) # pend) = blen seg + seg_bytes pend"
  by (simp add: seg_bytes_def)

lemma seg_bytes_nonneg: "0 \<le> seg_bytes pend"
  by (induction pend) auto

lemma seg_bytes_update:
  "seg_bytes (AList.update q seg pend) =
     seg_bytes pend + blen seg - (case map_of pend q of Some old \<Rightarrow> blen old | None \<Rightarrow> 0)"
  by (induction pend) auto

lemma seg_bytes_delete:
  "distinct (map fst pend) \<Longrightarrow> map_of pend q = Some seg \<Longrightarrow> seg_bytes (AList.delete q pend) = seg_bytes pend - blen seg"
proof (induction pend)
  case (Cons kv pend)
  show ?case
  proof (cases "fst kv = q")
    case True
    with Cons.prems(1) have "AList.delete q pend = pend" by simp
    with True Cons.prems show ?thesis by (cases kv) simp
  next
    case False
    with Cons show ?thesis by (cases kv) simp
  qed
qed simp

definition usage :: "direction \<Rightarrow> int" where
  "usage d = blen (t_probe d) + t_pending_bytes d"

definition dir_ok :: "direction \<Rightarrow> bool" where
  "dir_ok d \<longleftrightarrow> distinct (map fst (t_pending d)) \<and> blen (t_pending d) \<le> MAX_PENDING_SEGMENTS \<and>
     t_pending_bytes d = seg_bytes (t_pending d) \<and> t_pending_bytes d \<le> MAX_PENDING_BYTES \<and>
     blen (t_probe d) \<le> MAX_PROBE_BYTES"

lemma usage_bound: "dir_ok d \<Longrightarrow> 0 \<le> usage d \<and> usage d \<le> MAX_PROBE_BYTES + MAX_PENDING_BYTES"
  using seg_bytes_nonneg [of "t_pending d"] by (simp add: dir_ok_def usage_def)

text \<open>An operation on a direction accounts exactly.\<close>

definition exact :: "direction \<times> int \<Rightarrow> direction \<times> int \<Rightarrow> bool" where
  "exact a b \<longleftrightarrow> dir_ok (fst a) \<longrightarrow> dir_ok (fst b) \<and> snd b - snd a = usage (fst b) - usage (fst a)"

lemma exact_refl [simp]: "exact a a"
  by (simp add: exact_def)

lemma exact_trans: "exact a b \<Longrightarrow> exact b c \<Longrightarrow> exact a c"
  by (auto simp: exact_def)

lemma exact_append: "exact (d, ret) (append_contiguous p (d, ret))"
  by (auto simp: exact_def append_contiguous_def dir_ok_def usage_def Let_def min_def split: option.splits)

lemma exact_take_segment:
  assumes "map_of (t_pending d) q = Some seg"
  shows "exact (d, ret) (take_segment q delta (d, ret))"
proof -
  let ?d1 = "d\<lparr>t_pending := AList.delete q (t_pending d), t_pending_bytes := t_pending_bytes d - blen seg\<rparr>"
  have "length (AList.delete q (t_pending d)) \<le> length (t_pending d)" by (rule AList.length_delete_le)
  then have "exact (d, ret) (?d1, ret - blen seg)" using assms seg_bytes_delete [of "t_pending d" q seg] seg_bytes_nonneg
    by (auto simp: exact_def dir_ok_def usage_def AList.distinct_delete)
  then show ?thesis using assms exact_append by (auto simp: take_segment_def Let_def intro: exact_trans)
qed

lemma best_pending_lookup:
  "best_pending e pend None = Some (q, delta) \<Longrightarrow>
     \<exists>seg. map_of pend q = Some seg \<and> delta = sequence_delta q e \<and> delta \<le> 0"
  using best_pending_mem [of e pend None q delta] by (metis map_of_eq_None_iff not_Some_eq option.distinct(1))

text \<open>A property of the direction that taking one segment keeps holds after the loop, with nothing left to take.\<close>

lemma drain_pending_rule:
  assumes "P (d, ret)"
    and "\<And>d ret e q delta seg. P (d, ret) \<Longrightarrow> t_expected d = Some e \<Longrightarrow> best_pending e (t_pending d) None = Some (q, delta) \<Longrightarrow>
      map_of (t_pending d) q = Some seg \<Longrightarrow> delta = sequence_delta q e \<Longrightarrow> delta \<le> 0 \<Longrightarrow> P (take_segment q delta (d, ret))"
  shows "P (drain_pending (d, ret)) \<and> (\<forall>e. t_expected (fst (drain_pending (d, ret))) = Some e \<longrightarrow>
    (\<forall>q \<in> fst ` set (t_pending (fst (drain_pending (d, ret)))). 0 < sequence_delta q e))"
  using assms(1)
proof (induction "(d, ret)" arbitrary: d ret rule: drain_pending.induct)
  case (1 d ret)
  show ?case
  proof (cases "t_expected d")
    case None
    then show ?thesis using "1.prems" by (subst (1 2 3) drain_pending.simps) simp
  next
    case (Some e)
    show ?thesis
    proof (cases "best_pending e (t_pending d) None")
      case None
      have eq: "drain_pending (d, ret) = (d, ret)" using Some None by (subst drain_pending.simps) simp
      then show ?thesis using "1.prems" Some best_pending_None [OF None] by simp
    next
      case best: (Some qd)
      obtain q delta where qd: "qd = (q, delta)" by (cases qd)
      have eq: "drain_pending (d, ret) = drain_pending (take_segment q delta (d, ret))"
        using Some best qd by (subst drain_pending.simps) simp
      from best_pending_lookup best qd obtain seg where "map_of (t_pending d) q = Some seg" "delta = sequence_delta q e"
        "delta \<le> 0" by blast
      then have "P (take_segment q delta (d, ret))" using assms(2) [OF "1.prems" Some] best qd by blast
      then show ?thesis unfolding eq
        using "1.hyps" [OF Some best qd [symmetric], of "fst (take_segment q delta (d, ret))" "snd (take_segment q delta (d, ret))"]
        by simp
    qed
  qed
qed

lemma exact_drain: "exact (d, ret) (drain_pending (d, ret))"
  using drain_pending_rule [of "exact (d, ret)" d ret] exact_take_segment exact_trans exact_refl by blast

lemma set_update_mem: "kv \<in> set (AList.update q v al) \<Longrightarrow> kv = (q, v) \<or> kv \<in> set al"
  by (induction al) (auto split: if_splits)

lemma length_update:
  "length (AList.update q v al) = (if map_of al q = None then Suc (length al) else length al)"
  by (induction al) auto

lemma exact_store: "exact (d, ret) (store_pending q p (d, ret))"
proof (cases "map_of (t_pending d) q")
  case None
  then show ?thesis
    by (auto simp: exact_def store_pending_def dir_ok_def usage_def Let_def seg_bytes_update AList.distinct_update
        length_update tcp_limits)
next
  case (Some old)
  have "old = [] \<or> 1 \<le> blen old" by (cases old) auto
  with Some show ?thesis
    by (auto simp: exact_def store_pending_def dir_ok_def usage_def Let_def seg_bytes_update AList.distinct_update
        length_update tcp_limits)
qed

lemma exact_accept:
  "accept_payload q p upd (d, ret) = (upd', d', ret') \<Longrightarrow> exact (d, ret) (d', ret')"
proof -
  assume acc: "accept_payload q p upd (d, ret) = (upd', d', ret')"
  have app: "exact (d, ret) (drain_pending (append_contiguous x (d, ret)))" for x
    using exact_append [of d ret x] exact_drain [of "fst (append_contiguous x (d, ret))" "snd (append_contiguous x (d, ret))"]
    by (auto intro: exact_trans)
  show ?thesis
    using acc app [of p] app [of "drop (nat (- sequence_delta q (the (t_expected d)))) p"] exact_store [of d ret q p]
    by (auto simp: accept_payload_def Let_def split: option.splits if_splits)
qed

section \<open>The manager\<close>

definition used :: "(flow \<times> direction) list \<Rightarrow> int" where
  "used sts = sum_list (map (\<lambda>(_, d). usage d) sts)"

lemma used_Nil [simp]: "used [] = 0"
  by (simp add: used_def)

lemma used_Cons [simp]: "used ((k, d) # sts) = usage d + used sts"
  by (simp add: used_def)

lemma used_update:
  "used (AList.update k d sts) = used sts + usage d - (case map_of sts k of Some old \<Rightarrow> usage old | None \<Rightarrow> 0)"
  by (induction sts) auto

lemma used_delete:
  "distinct (map fst sts) \<Longrightarrow> map_of sts k = Some d \<Longrightarrow> used (AList.delete k sts) = used sts - usage d"
proof (induction sts)
  case (Cons kv sts)
  show ?case
  proof (cases "fst kv = k")
    case True
    with Cons.prems(1) have "AList.delete k sts = sts" by simp
    with True Cons.prems show ?thesis by (cases kv) simp
  next
    case False
    with Cons show ?thesis by (cases kv) simp
  qed
qed simp

definition states_ok :: "tcp_manager \<Rightarrow> bool" where
  "states_ok m \<longleftrightarrow> distinct (map fst (tm_states m)) \<and> (\<forall>(_, d) \<in> set (tm_states m). dir_ok d) \<and>
     tm_retained m = used (tm_states m)"

lemma used_nonneg: "\<forall>(_, d) \<in> set sts. dir_ok d \<Longrightarrow> 0 \<le> used sts"
  using usage_bound by (induction sts) auto

lemma drop_state_ok:
  assumes "states_ok m"
  shows "states_ok (drop_state key m) \<and> length (tm_states (drop_state key m)) \<le> length (tm_states m) \<and>
    map_of (tm_states (drop_state key m)) = (map_of (tm_states m))(key := None) \<and> tm_clock (drop_state key m) = tm_clock m"
proof (cases "map_of (tm_states m) key")
  case None
  with assms show ?thesis by (auto simp: drop_state_def fun_eq_iff)
next
  case (Some d)
  have sub: "set (AList.delete key (tm_states m)) \<subseteq> set (tm_states m)" by (auto simp: AList.delete_eq)
  with assms have dirs: "\<forall>(_, d) \<in> set (AList.delete key (tm_states m)). dir_ok d" unfolding states_ok_def by blast
  have "used (AList.delete key (tm_states m)) = used (tm_states m) - usage d"
    using assms Some by (simp add: states_ok_def used_delete)
  then have "states_ok (drop_state key m)" using assms Some dirs used_nonneg [OF dirs]
    by (simp add: drop_state_def states_ok_def usage_def AList.distinct_delete)
  with Some AList.length_delete_le show ?thesis by (simp add: drop_state_def AList.delete_conv')
qed

lemma ensure_capacity_ok:
  assumes "states_ok m" and "blen (tm_states m) \<le> MAX_FLOWS"
  shows "states_ok (ensure_flow_capacity m) \<and> blen (tm_states (ensure_flow_capacity m)) < MAX_FLOWS \<and>
    (\<forall>k d. map_of (tm_states (ensure_flow_capacity m)) k = Some d \<longrightarrow> map_of (tm_states m) k = Some d)"
proof (cases "blen (tm_states m) < MAX_FLOWS")
  case True
  with assms show ?thesis by (simp add: ensure_flow_capacity_def)
next
  case False
  then have "tm_states m \<noteq> []" by (auto simp: MAX_FLOWS_def)
  then obtain k d where old: "oldest (tm_states m) = Some (k, d)" by (cases "oldest (tm_states m)") auto
  then have mem: "(k, d) \<in> set (tm_states m)" by (rule oldest_mem)
  then have look: "map_of (tm_states m) k = Some d" using assms(1) by (simp add: states_ok_def)
  have "length (AList.delete k (tm_states m)) < length (tm_states m)"
    by (rule AList_delete_shrinks) (use mem in force)
  then have "length (tm_states (drop_state k m)) < length (tm_states m)" using look by (simp add: drop_state_def)
  with False old assms drop_state_ok [OF assms(1), of k] show ?thesis by (auto simp: ensure_flow_capacity_def)
qed

text \<open>The budget drops other flows, and never has to trim the flow it excludes: alone, that flow is far below the budget.\<close>

lemma enforce_ok:
  assumes "states_ok m"
  shows "states_ok (enforce_global_budget ex m) \<and> tm_retained (enforce_global_budget ex m) \<le> MAX_GLOBAL_BYTES \<and>
    length (tm_states (enforce_global_budget ex m)) \<le> length (tm_states m) \<and>
    map_of (tm_states (enforce_global_budget ex m)) ex = map_of (tm_states m) ex \<and>
    tm_clock (enforce_global_budget ex m) = tm_clock m \<and>
    (\<forall>k d. map_of (tm_states (enforce_global_budget ex m)) k = Some d \<longrightarrow> map_of (tm_states m) k = Some d)"
  using assms
proof (induction ex m rule: enforce_global_budget.induct)
  case (1 ex m)
  show ?case
  proof (cases "tm_retained m \<le> MAX_GLOBAL_BYTES \<or> tm_states m = []")
    case True
    moreover have "tm_retained m \<le> MAX_GLOBAL_BYTES" using True "1.prems" by (auto simp: states_ok_def tcp_limits)
    ultimately show ?thesis using "1.prems" by (subst (1 2 3 4 5 6) enforce_global_budget.simps) simp
  next
    case over: False
    show ?thesis
    proof (cases "oldest (filter (\<lambda>(k, _). k \<noteq> ex) (tm_states m))")
      case None
      then have only: "\<forall>(k, d) \<in> set (tm_states m). k = ex" by (auto simp: filter_empty_conv)
      have "used (tm_states m) \<le> MAX_PROBE_BYTES + MAX_PENDING_BYTES"
      proof (cases "tm_states m")
        case (Cons kd rest)
        with only "1.prems" have "rest = []" by (cases rest) (auto simp: states_ok_def)
        with Cons "1.prems" usage_bound show ?thesis by (cases kd) (auto simp: states_ok_def)
      qed (simp add: tcp_limits)
      with over "1.prems" show ?thesis by (simp add: states_ok_def tcp_limits)
    next
      case (Some kd)
      obtain k d where kd: "kd = (k, d)" by (cases kd)
      have eq: "enforce_global_budget ex m = enforce_global_budget ex (drop_state k m)"
        using over Some kd by (subst enforce_global_budget.simps) simp
      have "k \<noteq> ex" using oldest_mem [OF Some [unfolded kd]] by simp
      note drop = drop_state_ok [OF "1.prems", of k]
      have sub: "map_of (tm_states m) k' = Some d'" if "map_of (tm_states (drop_state k m)) k' = Some d'" for k' d'
        using drop that by (simp split: if_splits)
      have same: "map_of (tm_states (drop_state k m)) ex = map_of (tm_states m) ex" using drop \<open>k \<noteq> ex\<close> by simp
      have ok: "states_ok (drop_state k m)" and len: "length (tm_states (drop_state k m)) \<le> length (tm_states m)"
        and clock: "tm_clock (drop_state k m) = tm_clock m" using drop by simp_all
      note IH = "1.IH" [OF over Some kd [symmetric] ok]
      let ?m' = "enforce_global_budget ex (drop_state k m)"
      from IH have i: "states_ok ?m'" "tm_retained ?m' \<le> MAX_GLOBAL_BYTES"
        "length (tm_states ?m') \<le> length (tm_states (drop_state k m))"
        "map_of (tm_states ?m') ex = map_of (tm_states (drop_state k m)) ex" "tm_clock ?m' = tm_clock (drop_state k m)" by blast+
      from IH sub have all: "\<forall>k' d'. map_of (tm_states ?m') k' = Some d' \<longrightarrow> map_of (tm_states m) k' = Some d'" by blast
      show ?thesis unfolding eq using i(1,2) le_trans [OF i(3) len] trans [OF i(4) same] trans [OF i(5) clock] all by blast
    qed
  qed
qed

definition manager_ok :: "tcp_manager \<Rightarrow> bool" where
  "manager_ok m \<longleftrightarrow> states_ok m \<and> blen (tm_states m) \<le> MAX_FLOWS \<and> tm_retained m \<le> MAX_GLOBAL_BYTES"

lemma new_direction_ok: "dir_ok (new_direction clock) \<and> usage (new_direction clock) = 0"
  by (simp add: dir_ok_def usage_def new_direction_def tcp_limits)

text \<open>The parts of \<open>feed\<close> on a segment that is not oversized.\<close>

lemma feed_parts:
  assumes "feed key seqno payload flags m = (upd, m')" and "blen payload \<le> MAX_SEGMENT_BYTES" and "manager_ok m"
  obtains m2 d0 d1 upd0 d2 ret m3 where
    "states_ok m2" and "map_of (tm_states m2) key = map_of (tm_states m) key"
    and "\<And>k d. map_of (tm_states m2) k = Some d \<Longrightarrow> map_of (tm_states m) k = Some d"
    and "d0 = (case map_of (tm_states m) key of Some d \<Rightarrow> d | None \<Rightarrow> new_direction (tm_clock m + 1))"
    and "d1 = d0\<lparr>t_last_seen := tm_clock m + 1, t_expected := (case t_expected d0 of
        None \<Rightarrow> Some (data_sequence seqno flags) | Some e \<Rightarrow> Some e)\<rparr>"
    and "accept_payload (data_sequence seqno flags) payload no_update (d1, tm_retained m2) =
      (upd0, d2, ret)"
    and "u_stream upd = t_probe d2" and "u_contiguous upd = t_contiguous d2" and "u_pending upd = t_pending_bytes d2"
    and "u_truncated upd = t_truncated d2" and "u_closed upd = closing flags"
    and "m3 = enforce_global_budget key (m2\<lparr>tm_states := AList.update key d2 (tm_states m2), tm_retained := ret\<rparr>)"
    and "m' = (if u_closed upd then drop_state key m3 else m3)"
    and "states_ok (m2\<lparr>tm_states := AList.update key d2 (tm_states m2), tm_retained := ret\<rparr>)"
    and "blen (AList.update key d2 (tm_states m2)) \<le> MAX_FLOWS" and "dir_ok d2"
proof -
  define m1 where "m1 = m\<lparr>tm_clock := tm_clock m + 1\<rparr>"
  define m2 where "m2 = (case map_of (tm_states m) key of Some _ \<Rightarrow> m1 | None \<Rightarrow> ensure_flow_capacity m1)"
  define d0 where "d0 = (case map_of (tm_states m) key of Some d \<Rightarrow> d | None \<Rightarrow> new_direction (tm_clock m + 1))"
  define ds where "ds = data_sequence seqno flags"
  define d1 where "d1 = d0\<lparr>t_last_seen := tm_clock m + 1, t_expected := (case t_expected d0 of None \<Rightarrow> Some ds | Some e \<Rightarrow> Some e)\<rparr>"
  obtain upd0 d2 ret where acc: "accept_payload ds payload no_update (d1, tm_retained m2) = (upd0, d2, ret)"
    by (cases "accept_payload ds payload no_update (d1, tm_retained m2)")
  define m3 where "m3 = enforce_global_budget key (m2\<lparr>tm_states := AList.update key d2 (tm_states m2), tm_retained := ret\<rparr>)"
  have m1: "states_ok m1" "blen (tm_states m1) \<le> MAX_FLOWS" "tm_states m1 = tm_states m"
    using assms(3) by (simp_all add: m1_def manager_ok_def states_ok_def)
  note cap = ensure_capacity_ok [OF m1(1,2)]
  have m2: "states_ok m2" "map_of (tm_states m2) key = map_of (tm_states m) key"
    "blen (tm_states m2) + (if map_of (tm_states m) key = None then 1 else 0) \<le> MAX_FLOWS"
  proof -
    show "states_ok m2" using m1 cap by (simp add: m2_def split: option.split)
    show "map_of (tm_states m2) key = map_of (tm_states m) key"
    proof (cases "map_of (tm_states m) key")
      case None
      then have "map_of (tm_states (ensure_flow_capacity m1)) key = None" using cap m1(3) by (metis not_None_eq)
      then show ?thesis using None by (simp add: m2_def)
    qed (simp add: m2_def m1(3))
    show "blen (tm_states m2) + (if map_of (tm_states m) key = None then 1 else 0) \<le> MAX_FLOWS"
      using m1 cap by (cases "map_of (tm_states m) key") (simp_all add: m2_def)
  qed
  have capsub: "map_of (tm_states m) k = Some d" if "map_of (tm_states (ensure_flow_capacity m1)) k = Some d" for k d
    using cap that m1(3) by metis
  have sub: "map_of (tm_states m) k = Some d" if "map_of (tm_states m2) k = Some d" for k d
    using that capsub m1(3) by (cases "map_of (tm_states m) key") (simp_all add: m2_def)
  have d0: "dir_ok d0" "usage d0 = (case map_of (tm_states m2) key of Some old \<Rightarrow> usage old | None \<Rightarrow> 0)"
    using m1(1,3) m2(2) new_direction_ok
    by (auto simp: d0_def states_ok_def split: option.splits dest!: map_of_SomeD)
  then have d1: "dir_ok d1" "usage d1 = usage d0" by (simp_all add: d1_def dir_ok_def usage_def)
  from exact_accept [OF acc] d1 have d2: "dir_ok d2" "ret = tm_retained m2 + usage d2 - usage d0"
    by (auto simp: exact_def)
  have "states_ok (m2\<lparr>tm_states := AList.update key d2 (tm_states m2), tm_retained := ret\<rparr>)"
  proof -
    have "\<forall>(_, d) \<in> set (AList.update key d2 (tm_states m2)). dir_ok d"
      using m2(1) d2(1) set_update_mem [of _ key d2 "tm_states m2"] by (fastforce simp: states_ok_def)
    then show ?thesis using m2(1) d2 d0(2) d1(2) by (simp add: states_ok_def AList.distinct_update used_update)
  qed
  moreover have "blen (AList.update key d2 (tm_states m2)) \<le> MAX_FLOWS" using m2 by (auto simp: length_update)
  moreover have "u_stream upd = t_probe d2 \<and> u_contiguous upd = t_contiguous d2 \<and> u_pending upd = t_pending_bytes d2 \<and>
      u_truncated upd = t_truncated d2 \<and> u_closed upd = closing flags \<and>
      m' = (if u_closed upd then drop_state key m3 else m3)"
  proof -
    have "open_direction key ds m1 = (d1, m2)"
      by (cases "map_of (tm_states m) key") (simp_all add: open_direction_def m1_def m2_def d0_def d1_def)
    then have "feed key seqno payload flags m =
        (upd0\<lparr>u_closed := closing flags, u_stream := t_probe d2, u_contiguous := t_contiguous d2,
              u_pending := t_pending_bytes d2, u_truncated := t_truncated d2\<rparr>, if closing flags then drop_state key m3 else m3)"
      using assms(2) acc unfolding feed_def m1_def [symmetric] ds_def [symmetric] m3_def by (simp add: Let_def)
    with assms(1) show ?thesis by auto
  qed
  ultimately show thesis
    using that [of m2 d0 d1 upd0 d2 ret m3] m2(1,2) sub d0_def d1_def acc d2(1) m3_def unfolding ds_def by blast
qed

lemma feed_ok:
  assumes "manager_ok m"
  shows "manager_ok (snd (feed key seqno payload flags m))"
proof (cases "blen payload \<le> MAX_SEGMENT_BYTES")
  case False
  with assms show ?thesis by (simp add: feed_def Let_def manager_ok_def states_ok_def)
next
  case True
  obtain upd m' where feed: "feed key seqno payload flags m = (upd, m')" by fastforce
  from feed True assms show ?thesis
  proof (cases rule: feed_parts)
    case (1 m2 d0 d1 upd0 d2 ret m3)
    note enf = enforce_ok [OF 1(14), of key, folded 1(12)]
    note enf = enf [unfolded tcp_manager.select_convs tcp_manager.update_convs]
    have "states_ok m3" "blen (tm_states m3) \<le> MAX_FLOWS" "tm_retained m3 \<le> MAX_GLOBAL_BYTES"
      using enf 1(15) by (auto simp: tcp_manager.simps)
    moreover have "tm_retained (drop_state key m3) \<le> MAX_GLOBAL_BYTES"
    proof (cases "map_of (tm_states m3) key")
      case (Some d)
      then have "dir_ok d" using \<open>states_ok m3\<close> by (auto simp: states_ok_def dest!: map_of_SomeD)
      then have "0 \<le> blen (t_probe d) + t_pending_bytes d" using usage_bound [of d] by (simp add: usage_def)
      with Some \<open>tm_retained m3 \<le> MAX_GLOBAL_BYTES\<close> show ?thesis by (simp add: drop_state_def tcp_limits)
    qed (use \<open>tm_retained m3 \<le> MAX_GLOBAL_BYTES\<close> in \<open>simp add: drop_state_def\<close>)
    moreover note drop_state_ok [OF \<open>states_ok m3\<close>, of key]
    ultimately show ?thesis using 1(13) feed by (auto simp: manager_ok_def)
  qed
qed

type_synonym segment = "flow \<times> int \<times> bytes \<times> pystr list"

text \<open>The calls a manager answers: a segment, or a reset.\<close>

fun tcp_step :: "segment option \<Rightarrow> tcp_manager \<Rightarrow> tcp_manager" where
  "tcp_step (Some (key, seqno, payload, flags)) m = snd (feed key seqno payload flags m)"
| "tcp_step None m = reset_manager m"

lemma tcp_history_ok: "manager_ok m \<Longrightarrow> manager_ok (fold tcp_step calls m)"
proof (induction calls arbitrary: m)
  case (Cons c calls)
  have "manager_ok (tcp_step c m)"
  proof (cases c)
    case None
    with Cons.prems show ?thesis by (simp add: reset_manager_def manager_ok_def states_ok_def tcp_limits)
  next
    case (Some x)
    then obtain key seqno payload flags where "c = Some (key, seqno, payload, flags)" by (cases x) simp
    with feed_ok [OF Cons.prems] show ?thesis by simp
  qed
  with Cons.IH show ?case by simp
qed simp

lemma empty_manager_ok: "manager_ok empty_manager"
  by (simp add: manager_ok_def states_ok_def empty_manager_def tcp_limits)

text \<open>C33: Memory stays bounded and the accounting is exact: after any calls, hostile or not, the manager keeps at most 4096
  directions; each has at most 64 KiB of probe, at most 64 pending segments of 128 KiB together, and its count
  of pending bytes is their true sum; and the retained-byte count is the true sum over all directions and at most
  64 MiB.\<close>

theorem tcp_bounded:
  assumes "m = fold tcp_step calls empty_manager"
  shows "length (tm_states m) \<le> 4096 \<and> tm_retained m = used (tm_states m) \<and> tm_retained m \<le> 67108864 \<and>
    list_all (\<lambda>(_, d). length (t_probe d) \<le> 65536 \<and> length (t_pending d) \<le> 64 \<and>
      t_pending_bytes d = seg_bytes (t_pending d) \<and> t_pending_bytes d \<le> 131072) (tm_states m)"
  using tcp_history_ok [OF empty_manager_ok, of calls, folded assms]
  by (auto simp: manager_ok_def states_ok_def dir_ok_def tcp_limits list_all_iff)

theorem tcp_bounded_witness:
  "length (tm_states (fold tcp_step [Some ((''a'', 1, ''b'', 2), 7, [1, 2], [''SYN'']), None] empty_manager)) \<le> 4096"
  using tcp_bounded [OF refl, of "[Some ((''a'', 1, ''b'', 2), 7, [1, 2], [''SYN'']), None]"] by blast

section \<open>The stream\<close>

text \<open>
  \<open>S\<close> is the stream, its first byte has the sequence number \<open>b\<close>. The direction has taken the bytes from offset \<open>start\<close> to \<open>pos\<close>,
  and holds pieces of the stream as its pending segments.
\<close>

definition slice :: "'a list \<Rightarrow> nat \<Rightarrow> 'a list \<Rightarrow> bool" where
  "slice S off seg \<longleftrightarrow> off + length seg \<le> length S \<and> seg = take (length seg) (drop off S)"

definition tracks :: "bytes \<Rightarrow> int \<Rightarrow> nat \<Rightarrow> nat \<Rightarrow> direction \<Rightarrow> bool" where
  "tracks S b start pos d \<longleftrightarrow> start \<le> pos \<and> pos \<le> length S \<and> t_expected d = Some ((b + int pos) mod 2 ^ 32) \<and>
     t_contiguous d = int (pos - start) \<and> t_probe d = take 65536 (take (pos - start) (drop start S)) \<and>
     (\<forall>(q, seg) \<in> set (t_pending d). \<exists>off. q = (b + int off) mod 2 ^ 32 \<and> slice S off seg)"

lemma slice_drop: "slice S off seg \<Longrightarrow> k \<le> length seg \<Longrightarrow> slice S (off + k) (drop k seg)"
  by (auto simp: slice_def drop_take add.commute) (metis add.commute drop_drop drop_take)

lemma slice_take: "slice S off seg \<Longrightarrow> slice S off (take k seg)"
  by (auto simp: slice_def min_def) (metis nat_le_linear take_all take_take min.absorb1)

lemma append_fields:
  assumes "t_expected d = Some e" and "length (t_probe d) \<le> 65536"
  shows "t_probe (fst (append_contiguous p (d, ret))) = take 65536 (t_probe d @ p) \<and>
    t_contiguous (fst (append_contiguous p (d, ret))) = t_contiguous d + blen p \<and>
    (p \<noteq> [] \<longrightarrow> t_expected (fst (append_contiguous p (d, ret))) = Some ((e + blen p) mod 2 ^ 32))"
proof -
  have "take 65536 (t_probe d @ p) = t_probe d @ (if 0 < 65536 - blen (t_probe d) then take (nat (65536 - blen (t_probe d))) p else [])"
    using assms(2) by (auto simp: nat_diff_distrib)
  with assms show ?thesis by (simp add: append_contiguous_def Let_def tcp_limits)
qed

lemma take_prefix_append: "take n (take n xs @ ys) = take n (xs @ ys)"
  by (cases "n \<le> length xs") simp_all

lemma tracks_append:
  assumes "tracks S b start pos d" and "slice S pos p"
  shows "tracks S b start (pos + length p) (fst (append_contiguous p (d, ret)))"
proof (cases "p = []")
  case True
  with assms(1) show ?thesis by (simp add: append_contiguous_def)
next
  case False
  define xs where "xs = take (pos - start) (drop start S)"
  have le: "start \<le> pos" "pos + length p \<le> length S" and e: "t_expected d = Some ((b + int pos) mod 2 ^ 32)"
    and c: "t_contiguous d = int (pos - start)" and probe: "t_probe d = take 65536 xs"
    and pend: "\<forall>(q, seg) \<in> set (t_pending d). \<exists>off. q = (b + int off) mod 2 ^ 32 \<and> slice S off seg"
    using assms by (simp_all add: tracks_def xs_def slice_def)
  have all: "xs @ p = take (pos + length p - start) (drop start S)"
  proof -
    have "p = take (length p) (drop (pos - start) (drop start S))" using assms(2) le(1) by (simp add: slice_def)
    then have "xs @ p = take (pos - start + length p) (drop start S)" unfolding xs_def by (metis take_add)
    then show ?thesis using le(1) by simp
  qed
  have len: "length (t_probe d) \<le> 65536" by (simp add: probe)
  from append_fields [OF e len, of p ret] False
  have new: "t_probe (fst (append_contiguous p (d, ret))) = take 65536 (xs @ p)"
    "t_contiguous (fst (append_contiguous p (d, ret))) = int (pos - start) + blen p"
    "t_expected (fst (append_contiguous p (d, ret))) = Some (((b + int pos) mod 2 ^ 32 + blen p) mod 2 ^ 32)"
    by (simp_all add: probe take_prefix_append c del: take_append)
  have "((b + int pos) mod 2 ^ 32 + blen p) mod 2 ^ 32 = (b + int (pos + length p)) mod 2 ^ 32"
    by (simp only: mod_add_left_eq of_nat_add add.assoc)
  moreover have "int (pos - start) + blen p = int (pos + length p - start)" using le(1) by simp
  ultimately show ?thesis using new le all pend by (simp add: tracks_def)
qed

definition ahead :: "direction \<Rightarrow> bool" where
  "ahead d \<longleftrightarrow> (\<forall>e. t_expected d = Some e \<longrightarrow> (\<forall>q \<in> fst ` set (t_pending d). 0 < sequence_delta q e))"

lemma delta_slice:
  assumes "length S < 2 ^ 31" and "slice S off seg" and "pos \<le> length S"
  shows "sequence_delta ((b + int off) mod 2 ^ 32) ((b + int pos) mod 2 ^ 32) = int off - int pos"
  using assms by (intro delta_offsets) (auto simp: slice_def)

lemma tracks_take_segment:
  assumes S: "length S < 2 ^ 31" and tr: "tracks S b start pos d" and e: "t_expected d = Some e"
    and seg: "map_of (t_pending d) q = Some seg" and delta: "delta = sequence_delta q e" "delta \<le> 0"
  shows "\<exists>pos'. tracks S b start pos' (fst (take_segment q delta (d, ret)))"
proof -
  let ?d1 = "d\<lparr>t_pending := AList.delete q (t_pending d), t_pending_bytes := t_pending_bytes d - blen seg\<rparr>"
  have "(q, seg) \<in> set (t_pending d)" using seg by (rule map_of_SomeD)
  with tr obtain off where off: "q = (b + int off) mod 2 ^ 32" "slice S off seg" unfolding tracks_def by blast
  have pos: "pos \<le> length S" "e = (b + int pos) mod 2 ^ 32" using tr e by (auto simp: tracks_def)
  with delta_slice [OF S off(2), of pos b] delta off(1) have d: "delta = int off - int pos" "off \<le> pos" by simp_all
  have "set (AList.delete q (t_pending d)) \<subseteq> set (t_pending d)" by (auto simp: AList.delete_eq)
  then have tr1: "tracks S b start pos ?d1" using tr unfolding tracks_def by auto
  show ?thesis
  proof (cases "nat (- delta) < length seg")
    case True
    have "slice S pos (drop (nat (- delta)) seg)" using slice_drop [OF off(2), of "pos - off"] True d
      by (simp add: nat_diff_distrib)
    from tracks_append [OF tr1 this] show ?thesis using True seg by (auto simp: take_segment_def Let_def)
  next
    case False
    then show ?thesis using tr1 seg by (auto simp: take_segment_def Let_def)
  qed
qed

lemma tracks_drain:
  assumes "length S < 2 ^ 31" and "tracks S b start pos d"
  shows "(\<exists>pos'. tracks S b start pos' (fst (drain_pending (d, ret)))) \<and> ahead (fst (drain_pending (d, ret)))"
proof -
  have "(\<exists>pos'. tracks S b start pos' (fst (take_segment q delta (d, ret))))"
    if "\<exists>pos'. tracks S b start pos' (fst (d, ret))" "t_expected d = Some e" "map_of (t_pending d) q = Some seg"
      "delta = sequence_delta q e" "delta \<le> 0" for d ret e q delta seg
    using that tracks_take_segment [OF assms(1)] by fastforce
  then show ?thesis
    using drain_pending_rule [of "\<lambda>dr. \<exists>pos'. tracks S b start pos' (fst dr)" d ret] assms(2) unfolding ahead_def by auto
qed

lemma store_fields:
  "t_expected (fst (store_pending q p (d, ret))) = t_expected d \<and> t_probe (fst (store_pending q p (d, ret))) = t_probe d \<and>
   t_contiguous (fst (store_pending q p (d, ret))) = t_contiguous d"
  by (simp add: store_pending_def Let_def)

lemma store_mem:
  "kv \<in> set (t_pending (fst (store_pending q p (d, ret)))) \<Longrightarrow> kv \<in> set (t_pending d) \<or> (\<exists>k. kv = (q, take k p))"
  by (auto simp: store_pending_def Let_def dest!: set_update_mem split: if_splits)

lemma ahead_store:
  assumes "ahead d" and "t_expected d = Some e" and "0 < sequence_delta q e"
  shows "ahead (fst (store_pending q p (d, ret)))"
  unfolding ahead_def
proof (intro allI impI ballI)
  fix e' x
  assume "t_expected (fst (store_pending q p (d, ret))) = Some e'" and "x \<in> fst ` set (t_pending (fst (store_pending q p (d, ret))))"
  then obtain kv where "e' = e" "kv \<in> set (t_pending (fst (store_pending q p (d, ret))))" "x = fst kv"
    using assms(2) store_fields by auto
  then show "0 < sequence_delta x e'" using store_mem [of kv q p d ret] assms by (auto simp: ahead_def)
qed

lemma tracks_store:
  assumes "tracks S b start pos d" and "q = (b + int off) mod 2 ^ 32" and "slice S off p"
  shows "tracks S b start pos (fst (store_pending q p (d, ret)))"
proof -
  have "\<exists>off. fst kv = (b + int off) mod 2 ^ 32 \<and> slice S off (snd kv)"
    if "kv \<in> set (t_pending (fst (store_pending q p (d, ret))))" for kv
    using store_mem [OF that]
  proof
    assume "kv \<in> set (t_pending d)"
    then show ?thesis using assms(1) unfolding tracks_def case_prod_beta by blast
  next
    assume "\<exists>k. kv = (q, take k p)"
    then show ?thesis using assms(2) slice_take [OF assms(3)] by auto
  qed
  then have "\<forall>(q', seg) \<in> set (t_pending (fst (store_pending q p (d, ret)))).
      \<exists>off. q' = (b + int off) mod 2 ^ 32 \<and> slice S off seg" by fastforce
  then show ?thesis using assms(1) store_fields [of q p d ret] unfolding tracks_def by simp
qed

text \<open>A segment of the stream: its payload lies in \<open>S\<close> where its sequence number says.\<close>

definition stream_segment :: "bytes \<Rightarrow> int \<Rightarrow> int \<Rightarrow> bytes \<Rightarrow> pystr list \<Rightarrow> bool" where
  "stream_segment S b seqno payload flags \<longleftrightarrow>
     (\<exists>off. data_sequence seqno flags = (b + int off) mod 2 ^ 32 \<and> slice S off payload)"

lemma tracks_accept:
  assumes S: "length S < 2 ^ 31" and tr: "tracks S b start pos d" and "ahead d"
    and q: "q = (b + int off) mod 2 ^ 32" and sl: "slice S off p"
    and acc: "accept_payload q p upd (d, ret) = (upd', d', ret')"
  shows "(\<exists>pos'. tracks S b start pos' d') \<and> ahead d'"
proof -
  obtain e where e: "t_expected d = Some e" "e = (b + int pos) mod 2 ^ 32" "pos \<le> length S"
    using tr by (auto simp: tracks_def)
  have delta: "sequence_delta q e = int off - int pos" using delta_slice [OF S sl e(3), of b] q e(2) by simp
  have drain: "(\<exists>pos'. tracks S b start pos' d') \<and> ahead d'"
    if "slice S pos x" "(d', ret') = drain_pending (append_contiguous x (d, ret))" for x
    using tracks_drain [OF S tracks_append [OF tr that(1), of ret], of "snd (append_contiguous x (d, ret))"] that(2)
    by (metis fst_conv prod.collapse)
  consider (empty) "p = []" | (same) "p \<noteq> []" "off = pos" | (later) "p \<noteq> []" "pos < off" | (earlier) "p \<noteq> []" "off < pos"
    by fastforce
  then show ?thesis
  proof cases
    case empty
    with acc e tr \<open>ahead d\<close> show ?thesis by (auto simp: accept_payload_def)
  next
    case same
    with acc e delta have "(d', ret') = drain_pending (append_contiguous p (d, ret))" by (simp add: accept_payload_def Let_def)
    with drain sl same show ?thesis by blast
  next
    case later
    with acc e delta have st: "d' = fst (store_pending q p (d, ret))" by (simp add: accept_payload_def Let_def)
    then show ?thesis using tracks_store [OF tr q sl] ahead_store [OF \<open>ahead d\<close> e(1)] later delta by auto
  next
    case earlier
    then have ov: "nat (- sequence_delta q e) = pos - off" using delta by (simp add: nat_diff_distrib)
    show ?thesis
    proof (cases "length p \<le> pos - off")
      case True
      with acc e delta ov earlier tr \<open>ahead d\<close> show ?thesis by (auto simp: accept_payload_def Let_def)
    next
      case False
      with acc e delta ov earlier have "(d', ret') = drain_pending (append_contiguous (drop (pos - off) p) (d, ret))"
        by (simp add: accept_payload_def Let_def)
      moreover have "slice S pos (drop (pos - off) p)" using slice_drop [OF sl, of "pos - off"] False earlier by simp
      ultimately show ?thesis using drain by blast
    qed
  qed
qed

definition flow_tracks :: "bytes \<Rightarrow> int \<Rightarrow> flow \<Rightarrow> tcp_manager \<Rightarrow> bool" where
  "flow_tracks S b key m \<longleftrightarrow> (\<forall>d. map_of (tm_states m) key = Some d \<longrightarrow> (\<exists>start pos. tracks S b start pos d) \<and> ahead d)"

lemma feed_tracks:
  assumes S: "length S < 2 ^ 31" and ok: "manager_ok m" and fl: "flow_tracks S b key m"
    and seg: "stream_segment S b seqno payload flags" and small: "blen payload \<le> MAX_SEGMENT_BYTES"
    and feed: "feed key seqno payload flags m = (upd, m')"
  shows "flow_tracks S b key m' \<and>
    (\<exists>start c. start + c \<le> length S \<and> u_contiguous upd = int c \<and> u_stream upd = take 65536 (take c (drop start S)))"
  using feed small ok
proof (cases rule: feed_parts)
  case (1 m2 d0 d1 upd0 d2 ret m3)
  obtain off where off: "data_sequence seqno flags = (b + int off) mod 2 ^ 32" "slice S off payload"
    using seg by (auto simp: stream_segment_def)
  have "(\<exists>start pos. tracks S b start pos d1) \<and> ahead d1"
  proof (cases "map_of (tm_states m) key")
    case None
    have "tracks S b off off d1" using 1(4,5) None off by (auto simp: new_direction_def tracks_def slice_def)
    moreover have "ahead d1" using 1(4,5) None by (simp add: new_direction_def ahead_def)
    ultimately show ?thesis by blast
  next
    case (Some d)
    with fl obtain start pos where tr: "tracks S b start pos d" "ahead d" by (auto simp: flow_tracks_def)
    have "tracks S b start pos d1" "ahead d1" using tr 1(4,5) Some by (auto simp: tracks_def ahead_def)
    then show ?thesis by blast
  qed
  then obtain start pos where "tracks S b start pos d1" "ahead d1" by blast
  from tracks_accept [OF S this off 1(6)] obtain pos' where tr2: "tracks S b start pos' d2" "ahead d2" by blast
  have "map_of (tm_states m3) key = Some d2"
    using enforce_ok [OF 1(14), of key] 1(12) by (simp add: AList.update_conv')
  then have "flow_tracks S b key m'"
    using 1(13) tr2 drop_state_ok [of m3 key] enforce_ok [OF 1(14), of key] 1(12) by (auto simp: flow_tracks_def)
  moreover have "start + (pos' - start) \<le> length S" "u_contiguous upd = int (pos' - start)"
    "u_stream upd = take 65536 (take (pos' - start) (drop start S))" using tr2(1) 1(7,8) by (auto simp: tracks_def)
  ultimately show ?thesis by blast
qed

lemma feed_other:
  assumes "manager_ok m" and "key' \<noteq> key" and "map_of (tm_states (snd (feed key' seqno payload flags m))) key = Some d"
  shows "map_of (tm_states m) key = Some d"
proof (cases "blen payload \<le> MAX_SEGMENT_BYTES")
  case False
  with assms(3) show ?thesis by (simp add: feed_def Let_def)
next
  case True
  obtain upd m' where feed: "feed key' seqno payload flags m = (upd, m')" by fastforce
  from feed True assms(1) show ?thesis
  proof (cases rule: feed_parts)
    case (1 m2 d0 d1 upd0 d2 ret m3)
    note enf = enforce_ok [OF 1(14), of key', folded 1(12)]
    have "states_ok m3" using enf by blast
    have "map_of (tm_states m') key = Some d" using assms(3) feed by simp
    then have "map_of (tm_states m3) key = Some d"
      using 1(13) drop_state_ok [OF \<open>states_ok m3\<close>, of key'] assms(2) by (simp split: if_splits)
    with enf have "map_of (tm_states (m2\<lparr>tm_states := AList.update key' d2 (tm_states m2), tm_retained := ret\<rparr>)) key = Some d"
      by blast
    then have "map_of (tm_states m2) key = Some d" using assms(2) by (simp add: AList.update_conv')
    then show ?thesis by (rule 1(3))
  qed
qed

lemma history_tracks:
  assumes "length S < 2 ^ 31" and "manager_ok m" and "flow_tracks S b key m"
    and "\<And>seqno payload flags. Some (key, seqno, payload, flags) \<in> set calls \<Longrightarrow> stream_segment S b seqno payload flags"
  shows "flow_tracks S b key (fold tcp_step calls m)"
  using assms(2-)
proof (induction calls arbitrary: m)
  case (Cons c calls)
  have "flow_tracks S b key (tcp_step c m) \<and> manager_ok (tcp_step c m)"
  proof (cases c)
    case None
    with Cons.prems(1) show ?thesis
      by (simp add: reset_manager_def flow_tracks_def manager_ok_def states_ok_def tcp_limits)
  next
    case (Some x)
    then obtain key' seqno payload flags where c: "c = Some (key', seqno, payload, flags)" by (cases x) simp
    have "flow_tracks S b key (snd (feed key' seqno payload flags m))"
    proof (cases "key' = key")
      case True
      show ?thesis
      proof (cases "blen payload \<le> MAX_SEGMENT_BYTES")
        case small: True
        obtain upd m' where feed: "feed key seqno payload flags m = (upd, m')" by fastforce
        have "stream_segment S b seqno payload flags" by (rule Cons.prems(3)) (simp add: c True)
        from feed_tracks [OF assms(1) Cons.prems(1,2) this small feed] feed show ?thesis by (simp add: True)
      next
        case False
        with Cons.prems(2) show ?thesis by (simp add: feed_def Let_def flow_tracks_def)
      qed
    next
      case False
      then show ?thesis using feed_other [OF Cons.prems(1) False] Cons.prems(2) unfolding flow_tracks_def by blast
    qed
    with feed_ok [OF Cons.prems(1)] c show ?thesis by simp
  qed
  moreover have "\<And>seqno payload flags. Some (key, seqno, payload, flags) \<in> set calls \<Longrightarrow> stream_segment S b seqno payload flags"
    by (rule Cons.prems(3)) simp
  ultimately show ?case using Cons.IH by simp
qed simp


abbreviation ex_flow :: flow where "ex_flow \<equiv> (''a'', 1, ''b'', 2)"


end
