(* ===== verification/WorkflowEditing.thy ===== *)
theory WorkflowEditing
  imports WorkflowTopology
begin

text \<open>
  What validation accepts, what the edits of a workflow graph keep, and where the validation goes wrong: a target
  that a node names twice is visited twice, so the count of visits no longer tells a cycle.
\<close>

section \<open>Validation\<close>

definition edge_count :: "node list \<Rightarrow> nat" where
  "edge_count nodes = sum_list (map (\<lambda>r. length (targets r)) nodes)"

lemma check_nodes_Inr:
  "check_nodes known nodes k = Inr n \<longleftrightarrow>
     n = k + edge_count nodes \<and> (\<forall>r \<in> set nodes. n_kind r \<noteq> [] \<and> set (targets r) \<subseteq> known)"
  by (induction known nodes k rule: check_nodes.induct) (auto simp: edge_count_def list_all_iff)

lemma check_nodes_Inl: "check_nodes known nodes k = Inl x \<Longrightarrow> x = ValueError"
  by (induction known nodes k rule: check_nodes.induct) (auto split: if_splits)

definition shape_ok :: "graph \<Rightarrow> bool" where
  "shape_ok g \<longleftrightarrow> [] \<notin> set (node_ids g) \<and> closed_graph (g_nodes g) \<and> (\<forall>r \<in> set (g_nodes g). n_kind r \<noteq> []) \<and>
     edge_count (g_nodes g) \<le> MAX_EDGES"

lemma validate_shape:
  assumes "\<not> shape_ok g"
  shows "validate g = Some (Inl ValueError)"
proof (cases "[] \<notin> set (node_ids g) \<and> distinct (node_ids g)")
  case True
  show ?thesis
  proof (cases "check_nodes (set (node_ids g)) (g_nodes g) 0")
    case (Inl x)
    with True check_nodes_Inl show ?thesis by (simp add: validate_def Let_def)
  next
    case (Inr n)
    with True assms have "MAX_EDGES < n"
      unfolding check_nodes_Inr by (auto simp: shape_ok_def closed_graph_def node_ids_def)
    with True Inr show ?thesis by (simp add: validate_def Let_def)
  qed
qed (auto simp: validate_def Let_def)

lemma validate_topology:
  assumes "shape_ok g"
  shows "validate g = map_option (\<lambda>r. ebind r (\<lambda>_. Inr ())) (topological_levels True (g_nodes g))"
proof -
  have "check_nodes (set (node_ids g)) (g_nodes g) 0 = Inr (edge_count (g_nodes g))"
    using assms by (simp add: check_nodes_Inr shape_ok_def closed_graph_def node_ids_def)
  with assms show ?thesis by (simp add: validate_def shape_ok_def closed_graph_def node_ids_def)
qed

lemma validate_cases: "validate g = Some (Inr ()) \<or> validate g = Some (Inl ValueError)"
proof (cases "shape_ok g")
  case True
  then obtain lv whole where "run_topology (g_nodes g) = Some (lv, whole)"
    using topology_run [of "g_nodes g"] by (auto simp: shape_ok_def)
  then show ?thesis using validate_topology [OF True] by (cases whole) (simp_all add: topological_levels_def)
qed (simp add: validate_shape)

definition proper_graph :: "graph \<Rightarrow> bool" where
  "proper_graph g \<longleftrightarrow> shape_ok g \<and> simple_graph (g_nodes g) \<and> acyclic (edges (g_nodes g))"

lemma validate_simple:
  assumes "shape_ok g" and "simple_graph (g_nodes g)"
  shows "validate g = Some (if acyclic (edges (g_nodes g)) then Inr () else Inl ValueError)"
proof -
  obtain lv where "topological_levels True (g_nodes g) = Some (if acyclic (edges (g_nodes g)) then Inr lv else Inl ValueError)"
    using simple_levels [OF assms(2)] by blast
  with validate_topology [OF assms(1)] show ?thesis by simp
qed

section \<open>What edits keep\<close>

lemma targets_mem: "r \<in> set nodes \<Longrightarrow> length (targets r) \<le> edge_count nodes"
  by (induction nodes) (auto simp: edge_count_def)

text \<open>A graph with the same names or fewer and no new edges is as good as the old one.\<close>

lemma proper_fewer:
  assumes "proper_graph g" and "distinct (node_ids g')" and "set (node_ids g') \<subseteq> set (node_ids g)"
    and "\<forall>r' \<in> set (g_nodes g'). n_kind r' \<noteq> [] \<and> distinct (targets r') \<and> set (targets r') \<subseteq> set (node_ids g') \<and>
      (\<exists>r \<in> set (g_nodes g). n_id r = n_id r' \<and> set (targets r') \<subseteq> set (targets r))"
    and "edge_count (g_nodes g') \<le> edge_count (g_nodes g)"
  shows "proper_graph g'"
proof -
  have g: "shape_ok g" "distinct (node_ids g)" "acyclic (edges (g_nodes g))"
    using assms(1) by (simp_all add: proper_graph_def shape_ok_def closed_graph_def node_ids_def)
  have "edges (g_nodes g') \<subseteq> edges (g_nodes g)"
  proof (rule subrelI)
    fix a t
    assume "(a, t) \<in> edges (g_nodes g')"
    then obtain r' where "r' \<in> set (g_nodes g')" "n_id r' = a" "t \<in> set (targets r')"
      using assms(2) by (auto simp: edges_iff node_ids_def)
    with assms(4) obtain r where "r \<in> set (g_nodes g)" "n_id r = a" "t \<in> set (targets r)" by blast
    with g(2) show "(a, t) \<in> edges (g_nodes g)" by (auto simp: edges_iff node_ids_def)
  qed
  with g(3) have "acyclic (edges (g_nodes g'))" by (rule acyclic_subset)
  moreover have "closed_graph (g_nodes g')" using assms(2,4) by (simp add: closed_graph_def node_ids_def)
  ultimately show ?thesis using assms g(1) by (auto simp: proper_graph_def shape_ok_def simple_graph_def)
qed

lemma proper_parts:
  assumes "proper_graph g" and "r \<in> set (g_nodes g)"
  shows "n_kind r \<noteq> [] \<and> distinct (targets r) \<and> set (targets r) \<subseteq> set (node_ids g)"
  using assms by (simp add: proper_graph_def shape_ok_def simple_graph_def closed_graph_def node_ids_def)

lemma proper_distinct: "proper_graph g \<Longrightarrow> distinct (node_ids g)"
  by (simp add: proper_graph_def shape_ok_def closed_graph_def node_ids_def)

lemma edge_count_mono:
  "(\<And>r. r \<in> set nodes \<Longrightarrow> length (targets (f r)) \<le> length (targets r)) \<Longrightarrow> edge_count (map f nodes) \<le> edge_count nodes"
  unfolding edge_count_def map_map by (rule sum_list_mono) simp

lemma proper_update:
  assumes "proper_graph g" and "\<And>r. n_id (f r) = n_id r" and "\<And>r. set (targets (f r)) \<subseteq> set (targets r)"
    and "\<And>r. distinct (targets r) \<Longrightarrow> distinct (targets (f r))" and "\<And>r. length (targets (f r)) \<le> length (targets r)"
    and "\<And>r. n_kind r \<noteq> [] \<Longrightarrow> n_kind (f r) \<noteq> []"
  shows "proper_graph (update_row i f g)"
proof -
  have ids: "node_ids (update_row i f g) = node_ids g"
    using assms(2) by (simp add: node_ids_def update_row_def map_other_upd)
  show ?thesis
  proof (rule proper_fewer [OF assms(1)])
    show "distinct (node_ids (update_row i f g))" using proper_distinct [OF assms(1)] ids by simp
    show "set (node_ids (update_row i f g)) \<subseteq> set (node_ids g)" using ids by simp
    show "\<forall>r' \<in> set (g_nodes (update_row i f g)). n_kind r' \<noteq> [] \<and> distinct (targets r') \<and>
        set (targets r') \<subseteq> set (node_ids (update_row i f g)) \<and>
        (\<exists>r \<in> set (g_nodes g). n_id r = n_id r' \<and> set (targets r') \<subseteq> set (targets r))"
    proof
      fix r'
      assume "r' \<in> set (g_nodes (update_row i f g))"
      then obtain r where r: "r \<in> set (g_nodes g)" "r' = (if n_id r = i then f r else r)"
        by (auto simp: update_row_def set_upd_where)
      note parts = proper_parts [OF assms(1) r(1)]
      consider "r' = f r" | "r' = r" using r(2) by (cases "n_id r = i") simp_all
      then have "n_kind r' \<noteq> [] \<and> distinct (targets r') \<and> set (targets r') \<subseteq> set (targets r) \<and> n_id r = n_id r'"
      proof cases
        case 1
        show ?thesis unfolding 1
          by (intro conjI assms(3) assms(2) [symmetric] assms(4) assms(6)) (use parts in simp_all)
      qed (use parts in simp)
      note new = this
      then have "set (targets r') \<subseteq> set (node_ids g)" using parts by (meson order_trans)
      then show "n_kind r' \<noteq> [] \<and> distinct (targets r') \<and> set (targets r') \<subseteq> set (node_ids (update_row i f g)) \<and>
        (\<exists>r \<in> set (g_nodes g). n_id r = n_id r' \<and> set (targets r') \<subseteq> set (targets r))"
        unfolding ids using new r(1) by (intro conjI bexI [of _ r]) simp_all
    qed
    show "edge_count (g_nodes (update_row i f g)) \<le> edge_count (g_nodes g)"
      by (simp add: update_row_def upd_where_def edge_count_mono assms(5))
  qed
qed

lemma proper_validates: "proper_graph g \<Longrightarrow> validate g = Some (Inr ())"
  using validate_simple by (simp add: proper_graph_def)

lemma set_edges_targets:
  "targets (set_edges ty f r) = (if is_failure ty then n_next r @ f (n_failure r) else f (n_next r) @ n_failure r)"
  by (simp add: set_edges_def targets_def)

lemma set_edges_fields [simp]: "n_id (set_edges ty f r) = n_id r" "n_kind (set_edges ty f r) = n_kind r"
  by (simp_all add: set_edges_def)

section \<open>Each edit\<close>

lemma filter_targets_forget: "targets (forget_target t r) = filter (\<lambda>x. x \<noteq> t) (targets r)"
  by (simp add: forget_target_def targets_def)

lemma proper_remove:
  assumes "proper_graph g"
  shows "proper_graph (g\<lparr>g_nodes := map (forget_target t) (filter (\<lambda>r. n_id r \<noteq> t) (g_nodes g))\<rparr>)" (is "proper_graph ?g'")
proof -
  have ids: "node_ids ?g' = filter (\<lambda>i. i \<noteq> t) (node_ids g)"
    by (simp add: node_ids_def filter_map comp_def forget_target_def)
  show ?thesis
  proof (rule proper_fewer [OF assms])
    show "distinct (node_ids ?g')" using proper_distinct [OF assms] ids by simp
    show "set (node_ids ?g') \<subseteq> set (node_ids g)" using ids by auto
    show "\<forall>r' \<in> set (g_nodes ?g'). n_kind r' \<noteq> [] \<and> distinct (targets r') \<and> set (targets r') \<subseteq> set (node_ids ?g') \<and>
        (\<exists>r \<in> set (g_nodes g). n_id r = n_id r' \<and> set (targets r') \<subseteq> set (targets r))"
    proof
      fix r'
      assume "r' \<in> set (g_nodes ?g')"
      then obtain r where r: "r \<in> set (g_nodes g)" "r' = forget_target t r" by auto
      note parts = proper_parts [OF assms r(1)]
      have "n_kind r' \<noteq> []" "distinct (targets r')" "set (targets r') \<subseteq> set (targets r) - {t}" "n_id r = n_id r'"
        using parts by (auto simp: r(2) filter_targets_forget) (simp_all add: forget_target_def)
      then show "n_kind r' \<noteq> [] \<and> distinct (targets r') \<and> set (targets r') \<subseteq> set (node_ids ?g') \<and>
        (\<exists>r \<in> set (g_nodes g). n_id r = n_id r' \<and> set (targets r') \<subseteq> set (targets r))"
        using parts r(1) ids by auto
    qed
    have "edge_count (map (forget_target t) (filter p ns)) \<le> edge_count ns" for p ns
      by (induction ns) (auto simp: edge_count_def filter_targets_forget intro: add_mono)
    then show "edge_count (g_nodes ?g') \<le> edge_count (g_nodes g)" by simp
  qed
qed

lemma proper_add:
  assumes "proper_graph g" and "i \<noteq> []" and "kind \<noteq> []" and "i \<notin> set (node_ids g)"
  shows "proper_graph (g\<lparr>g_nodes := g_nodes g @ [\<lparr>n_id = i, n_kind = kind, n_config = cfg, n_next = [], n_failure = []\<rparr>]\<rparr>)"
    (is "proper_graph ?g'")
proof -
  let ?r = "\<lparr>n_id = i, n_kind = kind, n_config = cfg, n_next = [], n_failure = []\<rparr>"
  have none: "targets ?r = []" by (simp add: targets_def)
  have ids: "node_ids ?g' = node_ids g @ [i]" by (simp add: node_ids_def)
  have d: "distinct (node_ids ?g')" using proper_distinct [OF assms(1)] assms(4) ids by simp
  have "edges (g_nodes ?g') = edges (g_nodes g)"
    using d proper_distinct [OF assms(1)] none by (auto simp: edges_iff node_ids_def)
  moreover have "\<forall>r \<in> set (g_nodes ?g'). n_kind r \<noteq> [] \<and> distinct (targets r) \<and> set (targets r) \<subseteq> set (node_ids ?g')"
    using proper_parts [OF assms(1)] none assms(3) ids by auto
  moreover have "edge_count (g_nodes ?g') = edge_count (g_nodes g)" using none by (simp add: edge_count_def)
  moreover have "[] \<notin> set (node_ids ?g')" using assms(1,2) ids by (auto simp: proper_graph_def shape_ok_def)
  ultimately show ?thesis using assms(1) d
    by (simp add: proper_graph_def shape_ok_def simple_graph_def closed_graph_def node_ids_def)
qed

lemma remove1_snoc: "t \<notin> set xs \<Longrightarrow> remove1 t (xs @ [t]) = xs"
  by (induction xs) auto

text \<open>Taking a refused edge out again gives back the graph.\<close>

lemma update_row_id: "(\<And>r. r \<in> set (g_nodes g) \<Longrightarrow> n_id r = i \<Longrightarrow> f r = r) \<Longrightarrow> update_row i f g = g"
  by (cases g) (auto simp: update_row_def upd_where_def intro!: map_idI)

lemma update_row_twice:
  "(\<And>r. n_id (f r) = n_id r) \<Longrightarrow> update_row i h (update_row i f g) = update_row i (\<lambda>r. h (f r)) g"
  by (cases g) (simp add: update_row_def upd_where_def)

lemma snoc_targets:
  "set (targets (set_edges ty (\<lambda>xs. xs @ [t]) r)) = insert t (set (targets r)) \<and>
   distinct (targets (set_edges ty (\<lambda>xs. xs @ [t]) r)) = (distinct (targets r) \<and> t \<notin> set (targets r))"
  by (auto simp: set_edges_targets) (auto simp: targets_def)

lemma connect_shape:
  assumes "proper_graph g" and "t \<in> set (node_ids g)"
    and "\<forall>r \<in> set (g_nodes g). n_id r = s \<longrightarrow> t \<notin> set (targets r)"
    and "g1 = update_row s (set_edges ty (\<lambda>xs. xs @ [t])) g"
  shows "shape_ok g1 \<longrightarrow> simple_graph (g_nodes g1)"
proof -
  have ids: "node_ids g1 = node_ids g" by (simp add: assms(4) node_ids_def update_row_def map_other_upd)
  have "distinct (targets r') \<and> set (targets r') \<subseteq> set (node_ids g1)" if "r' \<in> set (g_nodes g1)" for r'
  proof -
    from that obtain r where r: "r \<in> set (g_nodes g)" "r' = (if n_id r = s then set_edges ty (\<lambda>xs. xs @ [t]) r else r)"
      by (auto simp: assms(4) update_row_def set_upd_where)
    note parts = proper_parts [OF assms(1) r(1)]
    show ?thesis
    proof (cases "n_id r = s")
      case True
      then have "t \<notin> set (targets r)" using assms(3) r(1) by blast
      with True parts assms(2) ids r(2) show ?thesis by (simp add: snoc_targets)
    qed (use parts ids r(2) in simp)
  qed
  moreover have "distinct (map n_id (g_nodes g1))" using proper_distinct [OF assms(1)] ids by (simp add: node_ids_def)
  ultimately show ?thesis by (auto simp: simple_graph_def closed_graph_def node_ids_def)
qed

datatype graph_edit =
    EAdd pystr pystr "(json \<times> json) list"
  | ERemove pystr
  | EConnect pystr pystr pystr
  | EDisconnect pystr pystr pystr
  | EUpdate pystr "pystr option" "(json \<times> json) list option"

fun apply_edit :: "graph_edit \<Rightarrow> graph \<Rightarrow> edit_result" where
  "apply_edit (EAdd i kind cfg) g = add_node i kind cfg g"
| "apply_edit (ERemove i) g = remove_node i g"
| "apply_edit (EConnect s t ty) g = connect s t ty g"
| "apply_edit (EDisconnect s t ty) g = disconnect s t ty g"
| "apply_edit (EUpdate i kind cfg) g = update_node i kind cfg g"

text \<open>No second edge between two nodes: the connection is new, or it is there already with the same type.\<close>

fun single_edge :: "graph_edit \<Rightarrow> graph \<Rightarrow> bool" where
  "single_edge (EConnect s t ty) g =
     list_all (\<lambda>r. n_id r = py_strip s \<longrightarrow> py_strip t \<notin> set (targets r) \<or> py_strip t \<in> set (edge_list ty r)) (g_nodes g)"
| "single_edge _ g = True"

definition good_result :: "edit_result \<Rightarrow> graph \<Rightarrow> bool" where
  "good_result res g \<longleftrightarrow> (\<exists>r g'. res = Some (r, g') \<and> proper_graph g' \<and> (isl r \<longrightarrow> g' = g) \<and> (\<forall>x. r = Inr x \<longrightarrow> x = g'))"

lemma good_error: "proper_graph g \<Longrightarrow> good_result (Some (Inl e, g)) g"
  by (simp add: good_result_def)

lemma good_validated: "proper_graph g' \<Longrightarrow> good_result (validated g') g"
  by (simp add: good_result_def validated_def proper_validates)

lemma proper_kinds: "proper_graph g \<Longrightarrow> r \<in> set (g_nodes g) \<Longrightarrow> n_kind r \<noteq> []"
  using proper_parts by blast

lemma good_add: "proper_graph g \<Longrightarrow> good_result (add_node i kind cfg g) g"
  by (simp add: add_node_def Let_def good_error good_validated proper_add)

lemma good_remove: "proper_graph g \<Longrightarrow> good_result (remove_node i g) g"
  by (simp add: remove_node_def Let_def good_error good_validated proper_remove)

lemma good_disconnect:
  assumes "proper_graph g"
  shows "good_result (disconnect s t ty g) g"
proof -
  have "proper_graph (update_row s (set_edges ty (filter (\<lambda>x. x \<noteq> t))) g)"
  proof (rule proper_update [OF assms])
    fix r
    show "set (targets (set_edges ty (filter (\<lambda>x. x \<noteq> t)) r)) \<subseteq> set (targets r)"
      by (simp add: set_edges_targets) (auto simp: targets_def)
    show "distinct (targets r) \<Longrightarrow> distinct (targets (set_edges ty (filter (\<lambda>x. x \<noteq> t)) r))"
      by (simp add: set_edges_targets) (auto simp: targets_def)
    show "length (targets (set_edges ty (filter (\<lambda>x. x \<noteq> t)) r)) \<le> length (targets r)"
      by (simp add: set_edges_targets) (simp add: targets_def)
  qed simp_all
  then show ?thesis using assms by (simp add: disconnect_def good_error good_validated)
qed

lemma good_update:
  assumes "proper_graph g"
  shows "good_result (update_node i kind cfg g) g"
proof (cases "i \<notin> set (node_ids g) \<or> kind \<noteq> None \<and> py_strip (the kind) = []")
  case True
  with assms show ?thesis by (auto simp: update_node_def good_error)
next
  case False
  let ?f = "\<lambda>r. let r1 = (case kind of Some k \<Rightarrow> r\<lparr>n_kind := take 128 (py_strip k)\<rparr> | None \<Rightarrow> r)
        in (case cfg of Some c \<Rightarrow> r1\<lparr>n_config := take 256 c\<rparr> | None \<Rightarrow> r1)"
  have "proper_graph (update_row i ?f g)"
  proof (rule proper_update [OF assms])
    fix r
    have f: "n_id (?f r) = n_id r" "targets (?f r) = targets r" "n_kind r \<noteq> [] \<Longrightarrow> n_kind (?f r) \<noteq> []"
      using False by (auto simp: Let_def targets_def split: option.splits)
    then show "n_id (?f r) = n_id r" "set (targets (?f r)) \<subseteq> set (targets r)" "length (targets (?f r)) \<le> length (targets r)"
      "distinct (targets r) \<Longrightarrow> distinct (targets (?f r))" "n_kind r \<noteq> [] \<Longrightarrow> n_kind (?f r) \<noteq> []" by simp_all
  qed
  then show ?thesis using False by (auto simp: update_node_def good_validated)
qed

lemma good_connect:
  assumes "proper_graph g" and "single_edge (EConnect source target ty) g"
  shows "good_result (connect source target ty g) g"
proof -
  define s t where "s = py_strip source" and "t = py_strip target"
  consider (error) "s = t \<or> s \<notin> set (node_ids g) \<or> t \<notin> set (node_ids g)"
    | (there) r where "s \<noteq> t" "s \<in> set (node_ids g)" "t \<in> set (node_ids g)" "r \<in> set (g_nodes g)" "n_id r = s" "t \<in> set (targets r)"
    | (new) "s \<noteq> t" "s \<in> set (node_ids g)" "t \<in> set (node_ids g)" "\<forall>r \<in> set (g_nodes g). n_id r = s \<longrightarrow> t \<notin> set (targets r)"
    by blast
  then show ?thesis
  proof cases
    case error
    then show ?thesis using assms(1) by (auto simp: connect_def Let_def s_def t_def good_error)
  next
    case there
    have "r' = r" if "r' \<in> set (g_nodes g)" "n_id r' = s" for r'
      using that there(4,5) proper_distinct [OF assms(1)] by (auto simp: node_ids_def distinct_map inj_on_def)
    moreover have "t \<in> set (edge_list ty r)" using assms(2) there by (auto simp: list_all_iff s_def t_def)
    ultimately have "update_row s (set_edges ty (\<lambda>xs. if t \<in> set xs then xs else xs @ [t])) g = g"
      by (intro update_row_id) (auto simp: set_edges_def edge_list_def split: if_splits)
    then show ?thesis using there(1-3) assms(1) proper_validates [OF assms(1)]
      by (simp add: connect_def Let_def good_result_def flip: s_def t_def)
  next
    case new
    define g1 where "g1 = update_row s (set_edges ty (\<lambda>xs. xs @ [t])) g"
    have fresh: "t \<notin> set (n_next r) \<and> t \<notin> set (n_failure r)" if "r \<in> set (g_nodes g)" "n_id r = s" for r
      using new(4) that by (auto simp: targets_def)
    have same: "update_row s (set_edges ty (\<lambda>xs. if t \<in> set xs then xs else xs @ [t])) g = g1"
      unfolding g1_def update_row_def upd_where_def using fresh by (auto simp: set_edges_def)
    have undone: "update_row s (set_edges ty (remove1 t)) g1 = g"
      unfolding g1_def using fresh
      by (subst update_row_twice) (auto simp: set_edges_def remove1_snoc intro!: update_row_id)
    have eq: "connect source target ty g = (case validate g1 of None \<Rightarrow> None | Some (Inr _) \<Rightarrow> Some (Inr g1, g1)
         | Some (Inl ValueError) \<Rightarrow> Some (Inl ValueError, g) | Some (Inl x) \<Rightarrow> Some (Inl x, g1))"
      unfolding connect_def Let_def s_def [symmetric] t_def [symmetric] same undone using new(1-3) by simp
    show ?thesis
    proof (cases "validate g1 = Some (Inr ())")
      case True
      then have "shape_ok g1" using validate_shape by fastforce
      with connect_shape [OF assms(1) new(3,4) g1_def] have "simple_graph (g_nodes g1)" by blast
      with True \<open>shape_ok g1\<close> have "proper_graph g1" using validate_simple by (auto simp: proper_graph_def split: if_splits)
      with True eq show ?thesis by (simp add: good_result_def)
    next
      case False
      with validate_cases have "validate g1 = Some (Inl ValueError)" by blast
      with eq assms(1) show ?thesis by (simp add: good_result_def)
    qed
  qed
qed


definition ex_graph :: "node list \<Rightarrow> graph" where
  "ex_graph nodes = \<lparr>g_schema = ''arenyxa.workflow/v1'', g_name = ''w'', g_id = [], g_version = ''1.0.0'', g_metadata = [], g_nodes = nodes\<rparr>"

lemma strip_letter [simp]: "py_strip ''a'' = ''a''" "py_strip ''b'' = ''b''" "py_strip ''failure'' = ''failure''"
  by (simp_all add: py_strip_def py_isspace_def ord_c_def)


section \<open>Repeated targets\<close>

lemma kahn_unfold:
  "kahn out ([], lv, inc, n) = Some (lv, n)"
  "kahn out (c # q, lv, inc, n) = kahn out (visit out c q lv inc n)"
  by (subst kahn.simps, simp)+

lemmas topo_eval = validate_def node_ids_def ex_graph_def ex_node_def targets_def MAX_EDGES_def topological_levels_def
  run_topology_def topo_start_def initial_queue_def incoming_def outgoing_def kahn_unfold visit_def relax_def level_of_def

text \<open>Two edges between the same two nodes break the validation both ways. A workflow whose success and failure edges lead
  to the same next node is refused as cyclic, although it has no cycle, when the second edge is connected; and a
  workflow with a node that waits for itself passes, when such a pair elsewhere makes up for the visit that is
  missing.\<close>

lemma parallel_edges_misjudged:
  "connect ''a'' ''b'' ''failure'' (ex_graph [ex_node ''a'' [''b''] [], ex_node ''b'' [] []]) =
     Some (Inl ValueError, ex_graph [ex_node ''a'' [''b''] [], ex_node ''b'' [] []]) \<and>
   acyclic (edges [ex_node ''a'' [''b''] [''b''], ex_node ''b'' [] []]) \<and>
   validate (ex_graph [ex_node ''a'' [''b''] [''b''], ex_node ''b'' [] [], ex_node ''c'' [''c''] []]) = Some (Inr ()) \<and>
   (''c'', ''c'') \<in> edges [ex_node ''a'' [''b''] [''b''], ex_node ''b'' [] [], ex_node ''c'' [''c''] []]"
proof (intro conjI)
  have refused: "validate (ex_graph [ex_node ''a'' [''b''] [''b''], ex_node ''b'' [] []]) = Some (Inl ValueError)"
    by (simp add: topo_eval)
  have fail: "is_failure ''failure''" by (simp add: is_failure_def py_casefold_def casefold_c_def ord_c_def Let_def)
  have "update_row ''a'' (set_edges ''failure'' (\<lambda>xs. if ''b'' \<in> set xs then xs else xs @ [''b'']))
      (ex_graph [ex_node ''a'' [''b''] [], ex_node ''b'' [] []]) = ex_graph [ex_node ''a'' [''b''] [''b''], ex_node ''b'' [] []]"
    using fail by (simp add: update_row_def set_edges_def ex_graph_def ex_node_def)
  moreover have "update_row ''a'' (set_edges ''failure'' (remove1 ''b'')) (ex_graph [ex_node ''a'' [''b''] [''b''], ex_node ''b'' [] []]) =
      ex_graph [ex_node ''a'' [''b''] [], ex_node ''b'' [] []]"
    using fail by (simp add: update_row_def set_edges_def ex_graph_def ex_node_def)
  moreover have "node_ids (ex_graph [ex_node ''a'' [''b''] [], ex_node ''b'' [] []]) = [''a'', ''b'']"
    by (simp add: node_ids_def ex_graph_def ex_node_def)
  ultimately show "connect ''a'' ''b'' ''failure'' (ex_graph [ex_node ''a'' [''b''] [], ex_node ''b'' [] []]) =
     Some (Inl ValueError, ex_graph [ex_node ''a'' [''b''] [], ex_node ''b'' [] []])"
    by (simp add: connect_def refused Let_def)
  have d: "distinct (map n_id [ex_node ''a'' [''b''] [''b''], ex_node ''b'' [] []])" by (simp add: ex_node_def)
  have "edges [ex_node ''a'' [''b''] [''b''], ex_node ''b'' [] []] = {(''a'', ''b'')}"
    by (auto simp: edges_iff [OF d]) (auto simp: ex_node_def targets_def)
  moreover have "acyclic {(''a'', ''b'')}" by (simp add: acyclic_def [of "{}"])
  ultimately show "acyclic (edges [ex_node ''a'' [''b''] [''b''], ex_node ''b'' [] []])" by simp
  show "validate (ex_graph [ex_node ''a'' [''b''] [''b''], ex_node ''b'' [] [], ex_node ''c'' [''c''] []]) = Some (Inr ())"
    by (simp add: topo_eval)
  show "(''c'', ''c'') \<in> edges [ex_node ''a'' [''b''] [''b''], ex_node ''b'' [] [], ex_node ''c'' [''c''] []]"
    by (simp add: edges_def outgoing_def ex_node_def targets_def)
qed

end
