(* ===== verification/StorageCapacity.thy ===== *)
theory StorageCapacity
  imports Prelude
begin

text \<open>
  The capacity assessment of the runtime storage (\<^verbatim>\<open>enterprise/storage_capacity.py\<close>): how hard the registered workers
  press on the backend. The severities are the code's three strings with the order the code means by them.
  The oversubscription ratio, a \<open>float\<close> in the code, is a rational; the guidance texts decide nothing and are left
  out.
\<close>

section \<open>Severities\<close>

datatype severity = Healthy | Warning | Critical

instantiation severity :: linorder
begin

fun severity_rank :: "severity \<Rightarrow> nat" where
  "severity_rank Healthy = 0"
| "severity_rank Warning = 1"
| "severity_rank Critical = 2"

definition less_eq_severity :: "severity \<Rightarrow> severity \<Rightarrow> bool" where
  "less_eq_severity a b \<longleftrightarrow> severity_rank a \<le> severity_rank b"

definition less_severity :: "severity \<Rightarrow> severity \<Rightarrow> bool" where
  "less_severity a b \<longleftrightarrow> severity_rank a < severity_rank b"

instance
proof
  fix a b :: severity
  show "a \<le> b \<Longrightarrow> b \<le> a \<Longrightarrow> a = b" by (cases a; cases b) (simp_all add: less_eq_severity_def)
qed (auto simp: less_eq_severity_def less_severity_def)

end

lemma severity_bounds [simp]: "Healthy \<le> a" "a \<le> Critical" "Critical \<le> a \<longleftrightarrow> a = Critical" "a \<le> Healthy \<longleftrightarrow> a = Healthy"
  "Warning \<le> a \<longleftrightarrow> a \<noteq> Healthy"
  by (cases a; simp add: less_eq_severity_def)+

section \<open>The contract of a backend\<close>

record storage_capabilities =
  cap_backend :: pystr
  multi_host_writers :: bool
  row_lock_skip_locked :: bool
  external_server :: bool
  write_model :: pystr
  recommended_parallel_writers :: int
  recommended_worker_slots :: int
  recommended_total_worker_slots :: int
  high_concurrency_cutover_slots :: int
  high_concurrency_cutover_workers :: int

text \<open>\<open>x or y\<close> on integers: zero means not given.\<close>

definition int_or :: "int \<Rightarrow> int \<Rightarrow> int" where
  "int_or x y = (if x \<noteq> 0 then x else y)"

section \<open>The assessment\<close>

record assessment =
  a_backend :: pystr
  a_severity :: severity
  a_workers :: int
  a_slots :: int
  a_leases :: int
  a_recommended :: int
  a_cutover :: int
  a_ratio :: rat
  a_postgresql :: bool
  a_code :: pystr

definition recommended_slots :: "storage_capabilities \<Rightarrow> int" where
  "recommended_slots c = max 1 (int_or (int_or (recommended_total_worker_slots c) (recommended_worker_slots c)) 1)"

definition cutover_slots :: "storage_capabilities \<Rightarrow> int" where
  "cutover_slots c = (let r = recommended_slots c in max (r + 1) (int_or (high_concurrency_cutover_slots c) (r * 2)))"

definition assess_storage_capacity :: "storage_capabilities \<Rightarrow> int \<Rightarrow> int \<Rightarrow> int \<Rightarrow> assessment" where
  "assess_storage_capacity c worker_count total_worker_slots active_leases =
     (let workers = max 0 worker_count; slots = max 0 total_worker_slots; active = max 0 active_leases;
          recommended = recommended_slots c; cutover = cutover_slots c;
          ratio = (if recommended \<noteq> 0 then of_int slots / of_int recommended else 0);
          result = (\<lambda>severity postgresql code. \<lparr>a_backend = cap_backend c, a_severity = severity, a_workers = workers,
             a_slots = slots, a_leases = active, a_recommended = recommended, a_cutover = cutover, a_ratio = ratio,
             a_postgresql = postgresql, a_code = code\<rparr>)
      in if multi_host_writers c
         then if slots \<le> recommended then result Healthy False ''STORAGE_CAPACITY_HEALTHY''
              else result Warning False ''STORAGE_CAPACITY_ADVISORY''
         else let high_worker_fanout = workers \<ge> int_or (high_concurrency_cutover_workers c) 16;
                  postgresql = (slots \<ge> cutover \<or> high_worker_fanout)
              in if postgresql then result Critical True ''SQLITE_HIGH_CONCURRENCY_CUTOVER''
                 else if slots > recommended \<or> workers > max 4 recommended
                 then result Warning False ''SQLITE_SERIALIZED_WRITER_PRESSURE''
                 else result Healthy False ''STORAGE_CAPACITY_HEALTHY'')"

section \<open>More load never looks healthier\<close>

lemma recommended_pos: "1 \<le> recommended_slots c"
  by (simp add: recommended_slots_def)

lemma cutover_above: "recommended_slots c < cutover_slots c"
  by (auto simp: cutover_slots_def Let_def)

lemmas assess_simps = assess_storage_capacity_def Let_def

lemma assess_severity:
  "a_severity (assess_storage_capacity c w s a) =
     (if multi_host_writers c then if max 0 s \<le> recommended_slots c then Healthy else Warning
      else if max 0 s \<ge> cutover_slots c \<or> max 0 w \<ge> int_or (high_concurrency_cutover_workers c) 16 then Critical
      else if max 0 s > recommended_slots c \<or> max 0 w > max 4 (recommended_slots c) then Warning else Healthy)"
  unfolding assess_simps by (simp only: if_distrib [of a_severity] assessment.select_convs)

lemma severity_steps:
  fixes S S' W W' :: int
  assumes "S \<le> S'" and "W \<le> W'"
  shows "(if m then if S \<le> r then Healthy else Warning
       else if S \<ge> k \<or> W \<ge> q then Critical else if S > r \<or> W > p then Warning else Healthy) \<le>
    (if m then if S' \<le> r then Healthy else Warning
       else if S' \<ge> k \<or> W' \<ge> q then Critical else if S' > r \<or> W' > p then Warning else Healthy)"
  using assms by auto

lemma assess_fields [simp]:
  "a_slots (assess_storage_capacity c w s a) = max 0 s" "a_workers (assess_storage_capacity c w s a) = max 0 w"
  "a_leases (assess_storage_capacity c w s a) = max 0 a"
  "a_recommended (assess_storage_capacity c w s a) = recommended_slots c"
  "a_cutover (assess_storage_capacity c w s a) = cutover_slots c"
  "a_ratio (assess_storage_capacity c w s a) = of_int (max 0 s) / of_int (recommended_slots c)"
  using recommended_pos [of c] by (simp_all add: assess_simps)

lemma assess_postgresql [simp]:
  "a_postgresql (assess_storage_capacity c w s a) \<longleftrightarrow> a_severity (assess_storage_capacity c w s a) = Critical"
  unfolding assess_simps by simp

text \<open>More workers or more slots never lower the severity of the storage assessment, so pressure cannot be hidden by
  registering more; the recommendation is at least one slot and the cutover lies above it; the move to PostgreSQL is
  recommended exactly in the critical severity, which a multi-host backend never reaches; and a single-host backend
  with more slots than recommended is never called healthy.\<close>

lemma severity_monotone:
  assumes "w \<le> w'" and "s \<le> s'"
  shows "a_severity (assess_storage_capacity c w s a) \<le> a_severity (assess_storage_capacity c w' s' a') \<and>
    a_ratio (assess_storage_capacity c w s a) \<le> a_ratio (assess_storage_capacity c w' s' a') \<and>
    1 \<le> a_recommended (assess_storage_capacity c w s a) \<and>
    a_recommended (assess_storage_capacity c w s a) < a_cutover (assess_storage_capacity c w s a) \<and>
    (a_postgresql (assess_storage_capacity c w s a) \<longleftrightarrow> a_severity (assess_storage_capacity c w s a) = Critical) \<and>
    (multi_host_writers c \<longrightarrow> a_severity (assess_storage_capacity c w s a) < Critical) \<and>
    (a_ratio (assess_storage_capacity c w s a) > 1 \<longrightarrow> a_severity (assess_storage_capacity c w s a) > Healthy)"
proof (intro conjI)
  show "a_severity (assess_storage_capacity c w s a) \<le> a_severity (assess_storage_capacity c w' s' a')"
    unfolding assess_severity using assms by (intro severity_steps max.mono order_refl)
  show "a_ratio (assess_storage_capacity c w s a) \<le> a_ratio (assess_storage_capacity c w' s' a')"
    using assms recommended_pos [of c] by (simp add: divide_right_mono)
  show "multi_host_writers c \<longrightarrow> a_severity (assess_storage_capacity c w s a) < Critical"
    by (simp add: assess_severity less_severity_def)
  have "(1 :: rat) < of_int (max 0 s) / of_int (recommended_slots c) \<longleftrightarrow> recommended_slots c < max 0 s"
    using recommended_pos [of c] by (simp add: less_divide_eq del: of_int_max)
  then show "a_ratio (assess_storage_capacity c w s a) > 1 \<longrightarrow> a_severity (assess_storage_capacity c w s a) > Healthy"
    unfolding assess_fields assess_severity by (auto simp: less_severity_def)
qed (simp_all add: recommended_pos cutover_above)

definition sqlite_contract :: storage_capabilities where
  "sqlite_contract = \<lparr>cap_backend = ''sqlite'', multi_host_writers = False, row_lock_skip_locked = False,
     external_server = False, write_model = ''serialized-wal'', recommended_parallel_writers = 1,
     recommended_worker_slots = 4, recommended_total_worker_slots = 8, high_concurrency_cutover_slots = 16,
     high_concurrency_cutover_workers = 16\<rparr>"

lemma severity_monotone_witness:
  "a_severity (assess_storage_capacity sqlite_contract 3 8 0) \<le> a_severity (assess_storage_capacity sqlite_contract 5 20 2) \<and>
   a_severity (assess_storage_capacity sqlite_contract 5 20 2) = Critical"
  using severity_monotone [of 3 5 8 20 sqlite_contract 0 2]
  by (simp add: assess_severity sqlite_contract_def recommended_slots_def cutover_slots_def int_or_def Let_def)

end
