(* ===== verification/FailureTaxonomy.thy ===== *)
theory FailureTaxonomy
  imports WorkerIdentity "HOL-Library.Sublist"
begin

text \<open>
  The recovery taxonomy of \<^verbatim>\<open>application/reliability.py\<close>: what kind of failure an exception is and whether the
  operation may be tried again. An exception is what the code looks at: the classes it is an instance of, its
  \<open>code\<close>, the integer \<open>status\<close> of its context, its text and its \<open>errno\<close> (the numbers of Linux). The advice
  texts of a diagnosis decide nothing and are left out.
\<close>

section \<open>Diagnoses\<close>

datatype failure_category = Transient | Recoverable | Configuration | Permission | Corruption | Fatal

record diagnosis =
  dg_category :: failure_category
  dg_code :: pystr
  dg_retryable :: bool
  dg_safe_to_resume :: bool
  dg_terminal :: bool

datatype error_class = PermissionErrorC | OSErrorC | TimeoutErrorC | ConnectionErrorC | ValueErrorC | ArenyxaErrorC

record failure =
  fl_classes :: "error_class set"
  fl_code :: "pystr option"
  fl_status :: "int option"
  fl_text :: pystr
  fl_errno :: "int option"

definition TRANSIENT_STATUS :: "int list" where "TRANSIENT_STATUS = [408, 425, 429, 500, 502, 503, 504]"
definition PERMISSION_STATUS :: "int list" where "PERMISSION_STATUS = [401, 403]"

text \<open>EAGAIN, EINTR, ETIMEDOUT, ECONNRESET, ECONNABORTED, ENETRESET, ENETDOWN, ENETUNREACH, EHOSTUNREACH; EWOULDBLOCK is
  EAGAIN. Then ENOSPC, EDQUOT, EMFILE, ENFILE.\<close>

definition TRANSIENT_ERRNO :: "int list" where "TRANSIENT_ERRNO = [11, 4, 110, 104, 103, 102, 100, 101, 113]"
definition RECOVERABLE_ERRNO :: "int list" where "RECOVERABLE_ERRNO = [28, 122, 24, 23]"

definition CORRUPTION_MARKERS :: "pystr list" where
  "CORRUPTION_MARKERS = [''database disk image is malformed'', ''file is not a database'', ''database corruption'',
     ''checksum mismatch'', ''hash mismatch'', ''integrity check failed'', ''malformed database schema'']"

definition PERMISSION_CODES :: "pystr list" where
  "PERMISSION_CODES = [''PERMISSION'', ''FORBIDDEN'', ''UNAUTHORIZED'', ''AUTH_DENIED'', ''ACCESS_DENIED'']"

definition CORRUPTION_CODES :: "pystr list" where
  "CORRUPTION_CODES = [''CORRUPT'', ''INTEGRITY'', ''CHECKSUM'', ''MALFORMED_DB'']"

definition TRANSIENT_CODES :: "pystr list" where
  "TRANSIENT_CODES = [''TIMEOUT'', ''RATE_LIMIT'', ''TEMPORARY'', ''TRANSIENT'', ''CONNECTION_RESET'']"

definition CONFIGURATION_CODES :: "pystr list" where
  "CONFIGURATION_CODES = [''CONFIG'', ''SETTING'', ''INVALID'', ''UNSUPPORTED'', ''SCHEMA'', ''MISSING_REQUIRED'', ''MANIFEST'']"

definition RECOVERABLE_CODES :: "pystr list" where
  "RECOVERABLE_CODES = [''INTERRUPTED'', ''CHECKPOINT'', ''DISK_FULL'', ''RESOURCE_PRESSURE'']"

section \<open>Classification\<close>

definition any_marker :: "pystr list \<Rightarrow> pystr \<Rightarrow> bool" where
  "any_marker markers s \<longleftrightarrow> (\<exists>m \<in> set markers. sublist m s)"

definition option_in :: "int option \<Rightarrow> int list \<Rightarrow> bool" where
  "option_in v xs = (case v of None \<Rightarrow> False | Some i \<Rightarrow> i \<in> set xs)"

definition text_or :: "pystr \<Rightarrow> pystr \<Rightarrow> pystr" where
  "text_or s dflt = (if s = [] then dflt else s)"

definition normalise_code :: "pystr option \<Rightarrow> pystr" where
  "normalise_code v = text_or
     (dash_to_underscore (py_upper (py_strip (text_or (case v of None \<Rightarrow> [] | Some s \<Rightarrow> s) ''UNCLASSIFIED''))))
     ''UNCLASSIFIED''"

definition has_class :: "error_class \<Rightarrow> failure option \<Rightarrow> bool" where
  "has_class c err = (case err of None \<Rightarrow> False | Some f \<Rightarrow> c \<in> fl_classes f)"

definition failure_code :: "failure option \<Rightarrow> pystr option \<Rightarrow> pystr" where
  "failure_code err error_code = normalise_code
     (if error_code \<noteq> None \<and> error_code \<noteq> Some [] then error_code
      else (case err of None \<Rightarrow> None | Some f \<Rightarrow> fl_code f))"

definition failure_status :: "failure option \<Rightarrow> int option \<Rightarrow> int option" where
  "failure_status err status = (if status = None then (case err of None \<Rightarrow> None | Some f \<Rightarrow> fl_status f) else status)"

definition failure_message :: "failure option \<Rightarrow> pystr" where
  "failure_message err = (case err of None \<Rightarrow> [] | Some f \<Rightarrow> py_casefold (fl_text f))"

definition failure_errno :: "failure option \<Rightarrow> int option" where
  "failure_errno err = (case err of None \<Rightarrow> None | Some f \<Rightarrow> fl_errno f)"

definition diagnose :: "failure_category \<Rightarrow> pystr \<Rightarrow> bool \<Rightarrow> bool \<Rightarrow> bool \<Rightarrow> diagnosis" where
  "diagnose category c retryable resume terminal = \<lparr>dg_category = category, dg_code = c, dg_retryable = retryable,
     dg_safe_to_resume = resume, dg_terminal = terminal\<rparr>"

text \<open>The two conditions the code checks before all others.\<close>

definition denied :: "failure option \<Rightarrow> pystr option \<Rightarrow> int option \<Rightarrow> bool" where
  "denied err error_code status \<longleftrightarrow> option_in (failure_status err status) PERMISSION_STATUS \<or> has_class PermissionErrorC err \<or>
     any_marker PERMISSION_CODES (failure_code err error_code)"

definition corrupt :: "failure option \<Rightarrow> pystr option \<Rightarrow> bool" where
  "corrupt err error_code \<longleftrightarrow> any_marker CORRUPTION_MARKERS (failure_message err) \<or>
     any_marker CORRUPTION_CODES (failure_code err error_code)"

definition classify :: "failure option \<Rightarrow> pystr option \<Rightarrow> int option \<Rightarrow> bool \<Rightarrow> diagnosis" where
  "classify err error_code status persisted_data =
     (let c = failure_code err error_code; st = failure_status err status in
      if denied err error_code status then diagnose Permission c False False True
      else if corrupt err error_code then diagnose Corruption c False False True
      else if has_class OSErrorC err \<and> option_in (failure_errno err) RECOVERABLE_ERRNO
      then diagnose Recoverable c False True True
      else if has_class OSErrorC err \<and> option_in (failure_errno err) TRANSIENT_ERRNO
      then diagnose Transient c True True False
      else if option_in st TRANSIENT_STATUS \<or> has_class TimeoutErrorC err \<or> has_class ConnectionErrorC err \<or>
        any_marker TRANSIENT_CODES c
      then diagnose Transient c True True False
      else if any_marker CONFIGURATION_CODES c \<or> (has_class ValueErrorC err \<and> \<not> persisted_data)
      then diagnose Configuration c False False True
      else if any_marker RECOVERABLE_CODES c then diagnose Recoverable c False True True
      else if has_class ArenyxaErrorC err \<and> (case err of None \<Rightarrow> None | Some f \<Rightarrow> fl_code f) = Some ''RUN_CANCELLED''
      then diagnose Recoverable c False True True
      else diagnose Fatal c False False True)"

definition may_retry :: "diagnosis \<Rightarrow> int \<Rightarrow> int \<Rightarrow> bool \<Rightarrow> bool" where
  "may_retry d attempt max_attempts idempotent \<longleftrightarrow>
     dg_category d = Transient \<and> dg_retryable d \<and> idempotent \<and> 0 < max_attempts \<and> 0 \<le> attempt \<and> attempt < max_attempts"

section \<open>What may be retried\<close>

lemma diagnose_fields [simp]:
  "dg_category (diagnose cat c r s t) = cat" "dg_code (diagnose cat c r s t) = c" "dg_retryable (diagnose cat c r s t) = r"
  "dg_safe_to_resume (diagnose cat c r s t) = s" "dg_terminal (diagnose cat c r s t) = t"
  by (simp_all add: diagnose_def)

text \<open>A diagnosis is one of six, and its flags follow from its category.\<close>

lemma classify_flags:
  "dg_retryable (classify err ec st p) \<longleftrightarrow> dg_category (classify err ec st p) = Transient"
  "dg_terminal (classify err ec st p) \<longleftrightarrow> dg_category (classify err ec st p) \<noteq> Transient"
  "dg_safe_to_resume (classify err ec st p) \<longleftrightarrow> dg_category (classify err ec st p) \<in> {Transient, Recoverable}"
  unfolding classify_def Let_def by (simp_all split: if_split)

lemma classify_denied: "denied err ec st \<Longrightarrow> dg_category (classify err ec st p) = Permission"
  by (simp add: classify_def Let_def)

lemma classify_corrupt: "corrupt err ec \<Longrightarrow> dg_category (classify err ec st p) \<in> {Permission, Corruption}"
  by (simp add: classify_def Let_def)

text \<open>A failed operation is tried again only if it is idempotent, its retry budget is not used up and the failure is
  transient; a failure that shows a denied authorization or corrupt data is never retried nor resumed, whatever
  else its code, status or class say; and the number of attempts retried is at most the budget.\<close>

lemma retry_is_safe:
  assumes "d = classify err error_code status persisted_data"
  shows "(may_retry d attempt budget idempotent \<longrightarrow> idempotent \<and> 0 \<le> attempt \<and> attempt < budget \<and> \<not> dg_terminal d \<and>
      dg_safe_to_resume d \<and> \<not> denied err error_code status \<and> \<not> corrupt err error_code) \<and>
    (denied err error_code status \<or> corrupt err error_code \<longrightarrow> \<not> dg_retryable d \<and> \<not> dg_safe_to_resume d \<and> dg_terminal d) \<and>
    (dg_retryable d \<longleftrightarrow> \<not> dg_terminal d) \<and>
    card {a. may_retry d a budget idempotent} \<le> nat budget"
proof (intro conjI)
  have flags: "\<not> dg_retryable d" "\<not> dg_safe_to_resume d" "dg_terminal d"
    if "denied err error_code status \<or> corrupt err error_code"
    using that classify_denied [of err error_code status persisted_data] classify_corrupt [of err error_code status persisted_data]
    unfolding assms classify_flags by auto
  then show "denied err error_code status \<or> corrupt err error_code \<longrightarrow> \<not> dg_retryable d \<and> \<not> dg_safe_to_resume d \<and> dg_terminal d"
    by blast
  show same: "dg_retryable d \<longleftrightarrow> \<not> dg_terminal d" by (simp add: assms classify_flags)
  have "dg_retryable d \<longrightarrow> dg_safe_to_resume d" by (simp add: assms classify_flags)
  with flags same show "may_retry d attempt budget idempotent \<longrightarrow> idempotent \<and> 0 \<le> attempt \<and> attempt < budget \<and>
      \<not> dg_terminal d \<and> dg_safe_to_resume d \<and> \<not> denied err error_code status \<and> \<not> corrupt err error_code"
    unfolding may_retry_def by blast
  have "{a. may_retry d a budget idempotent} \<subseteq> {0..<budget}" by (auto simp: may_retry_def)
  from card_mono [OF _ this] show "card {a. may_retry d a budget idempotent} \<le> nat budget" by simp
qed

definition timeout_failure :: failure where
  "timeout_failure = \<lparr>fl_classes = {TimeoutErrorC, OSErrorC}, fl_code = None, fl_status = Some 403, fl_text = ''timed out'',
     fl_errno = Some 110\<rparr>"

lemma retry_is_safe_witness:
  "\<not> may_retry (classify (Some timeout_failure) None None False) 0 3 True \<and>
   may_retry (classify (Some (timeout_failure\<lparr>fl_status := None\<rparr>)) (Some ''RATE_LIMIT'') None False) 0 3 True"
proof
  have "denied (Some timeout_failure) None None"
    by (simp add: denied_def failure_status_def timeout_failure_def option_in_def PERMISSION_STATUS_def)
  with retry_is_safe [OF refl, of "Some timeout_failure" None None False 0 3 True]
  show "\<not> may_retry (classify (Some timeout_failure) None None False) 0 3 True" by blast
  show "may_retry (classify (Some (timeout_failure\<lparr>fl_status := None\<rparr>)) (Some ''RATE_LIMIT'') None False) 0 3 True"
    by code_simp
qed

end
