(* ===== verification/LeasePool.thy ===== *)
theory LeasePool
  imports Prelude
begin

text \<open>
  The resource lease pool and the bounded history of \<^verbatim>\<open>application/reliability.py\<close>. The pool hands out lease
  objects; the model numbers them in the order of their creation and keeps of each whether it was released. The
  abstract pool is a capacity and the set of the leases that are out.
\<close>

section \<open>The pool\<close>

record pool =
  pl_maximum :: int
  pl_limit :: int
  pl_active :: int
  pl_leases :: "bool list"

definition new_pool :: "int \<Rightarrow> pool" where
  "new_pool maximum = \<lparr>pl_maximum = max 0 maximum, pl_limit = max 0 maximum, pl_active = 0, pl_leases = []\<rparr>"

definition try_acquire :: "pool \<Rightarrow> nat option \<times> pool" where
  "try_acquire p =
     (if pl_limit p \<le> pl_active p then (None, p)
      else (Some (length (pl_leases p)), p\<lparr>pl_active := pl_active p + 1, pl_leases := pl_leases p @ [False]\<rparr>))"

text \<open>\<open>acquire\<close> raises the caller's code when the pool is exhausted.\<close>

definition acquire :: "pystr \<Rightarrow> pool \<Rightarrow> (exc + nat) \<times> pool" where
  "acquire code p = (case try_acquire p of
     (None, p') \<Rightarrow> (Inl (ArenyxaError ''RESOURCE'' code), p')
   | (Some i, p') \<Rightarrow> (Inr i, p'))"

definition pool_release :: "pool \<Rightarrow> pool" where
  "pool_release p = p\<lparr>pl_active := max 0 (pl_active p - 1)\<rparr>"

text \<open>\<open>ResourceLease.release\<close> and the end of a \<open>with\<close> block: the lease \<open>i\<close> was handed out before.\<close>

definition release :: "nat \<Rightarrow> pool \<Rightarrow> pool" where
  "release i p = (if i < length (pl_leases p) \<and> \<not> pl_leases p ! i
     then pool_release (p\<lparr>pl_leases := (pl_leases p)[i := True]\<rparr>) else p)"

definition set_limit :: "int \<Rightarrow> pool \<Rightarrow> int \<times> pool" where
  "set_limit limit p = (let l = max 0 (min (pl_maximum p) limit) in (l, p\<lparr>pl_limit := l\<rparr>))"

section \<open>The abstract pool\<close>

type_synonym abstract_pool = "int \<times> int \<times> nat set"

definition outstanding :: "bool list \<Rightarrow> nat set" where
  "outstanding released = {i. i < length released \<and> \<not> released ! i}"

definition abs_pool :: "pool \<Rightarrow> abstract_pool" where
  "abs_pool p = (pl_maximum p, pl_limit p, outstanding (pl_leases p))"

definition pool_ok :: "pool \<Rightarrow> bool" where
  "pool_ok p \<longleftrightarrow> 0 \<le> pl_limit p \<and> pl_limit p \<le> pl_maximum p \<and> pl_active p = int (card (outstanding (pl_leases p))) \<and>
     pl_active p \<le> pl_maximum p"

lemma outstanding_snoc: "outstanding (bs @ [False]) = insert (length bs) (outstanding bs)"
  by (auto simp: outstanding_def nth_append less_Suc_eq)

lemma outstanding_release: "outstanding (bs[i := True]) = outstanding bs - {i}"
  by (cases "i < length bs") (auto simp: outstanding_def nth_list_update)

lemma outstanding_fresh [simp]: "length bs \<notin> outstanding bs" "finite (outstanding bs)"
  by (auto simp: outstanding_def)

lemma new_pool_ok: "pool_ok (new_pool m)"
  by (simp add: pool_ok_def new_pool_def outstanding_def)

lemma try_acquire_ok: "pool_ok p \<Longrightarrow> pool_ok (snd (try_acquire p))"
  by (auto simp: pool_ok_def try_acquire_def outstanding_snoc)

lemma release_ok:
  assumes "pool_ok p"
  shows "pool_ok (release i p)"
proof (cases "i \<in> outstanding (pl_leases p)")
  case True
  then have "0 < card (outstanding (pl_leases p))" by (auto simp: card_gt_0_iff)
  moreover have "card (outstanding (pl_leases p) - {i}) = card (outstanding (pl_leases p)) - 1" using True by simp
  ultimately show ?thesis using assms True
    by (simp add: pool_ok_def release_def pool_release_def outstanding_release of_nat_diff)
next
  case False
  with assms show ?thesis by (auto simp: release_def outstanding_def)
qed

lemma set_limit_ok: "pool_ok p \<Longrightarrow> pool_ok (snd (set_limit l p))"
  by (auto simp: pool_ok_def set_limit_def Let_def)

section \<open>Histories\<close>

datatype pool_op = PAcquire | PRelease nat | PLimit int

fun run_pool :: "pool_op \<Rightarrow> pool \<Rightarrow> pool" where
  "run_pool PAcquire p = snd (try_acquire p)"
| "run_pool (PRelease i) p = release i p"
| "run_pool (PLimit l) p = snd (set_limit l p)"

fun abstract_step :: "pool_op \<Rightarrow> abstract_pool \<Rightarrow> abstract_pool \<Rightarrow> bool" where
  "abstract_step PAcquire (m, l, out) (m', l', out') \<longleftrightarrow> m' = m \<and> l' = l \<and>
     (if int (card out) < l then (\<exists>i. i \<notin> out \<and> out' = insert i out) else out' = out)"
| "abstract_step (PRelease i) (m, l, out) (m', l', out') \<longleftrightarrow> m' = m \<and> l' = l \<and> out' = out - {i}"
| "abstract_step (PLimit k) (m, l, out) (m', l', out') \<longleftrightarrow> m' = m \<and> l' = max 0 (min m k) \<and> out' = out"

lemma run_pool_ok: "pool_ok p \<Longrightarrow> pool_ok (run_pool oper p)"
  by (cases oper) (simp_all add: try_acquire_ok release_ok set_limit_ok)

lemma pool_history_ok: "pool_ok (fold run_pool ops (new_pool m))"
  by (rule fold_invariant [where Q = "\<lambda>_. True"]) (simp_all add: new_pool_ok run_pool_ok)

lemma run_pool_simulates:
  assumes "pool_ok p"
  shows "abstract_step oper (abs_pool p) (abs_pool (run_pool oper p))"
proof (cases oper)
  case PAcquire
  have "int (card (outstanding (pl_leases p))) < pl_limit p \<longleftrightarrow> \<not> pl_limit p \<le> pl_active p"
    using assms by (auto simp: pool_ok_def)
  moreover have "\<exists>i. i \<notin> outstanding (pl_leases p) \<and> outstanding (pl_leases p @ [False]) = insert i (outstanding (pl_leases p))"
    using outstanding_fresh(1) [of "pl_leases p"] outstanding_snoc by blast
  ultimately show ?thesis using PAcquire by (simp add: abs_pool_def try_acquire_def)
next
  case (PRelease i)
  have "outstanding (pl_leases p) - {i} = outstanding (pl_leases p)" if "i \<ge> length (pl_leases p) \<or> pl_leases p ! i"
    using that by (auto simp: outstanding_def)
  with PRelease show ?thesis by (auto simp: abs_pool_def release_def pool_release_def outstanding_release)
next
  case (PLimit l)
  then show ?thesis by (simp add: abs_pool_def set_limit_def Let_def)
qed

text \<open>C38: After any history of acquisitions, releases (twice or out of order included) and limit changes, the pool is the
  abstract semaphore: the next operation takes it along a step of the specification; its counter is the number of
  leases that are out, never more than the maximum; an acquisition raises exactly when the limit is
  reached; and releasing a lease twice is releasing it once.\<close>

theorem pool_refines_semaphore:
  assumes "p = fold run_pool ops (new_pool m)"
  shows "abstract_step oper (abs_pool p) (abs_pool (run_pool oper p)) \<and>
    pl_active p = int (card (outstanding (pl_leases p))) \<and> pl_active p \<le> max 0 m \<and>
    (isl (fst (acquire code p)) \<longleftrightarrow> pl_limit p \<le> int (card (outstanding (pl_leases p)))) \<and>
    release i (release i p) = release i p"
proof (intro conjI)
  have ok: "pool_ok p" unfolding assms by (rule pool_history_ok)
  from run_pool_simulates [OF this] show "abstract_step oper (abs_pool p) (abs_pool (run_pool oper p))" .
  show active: "pl_active p = int (card (outstanding (pl_leases p)))" using ok by (simp add: pool_ok_def)
  have "pl_maximum (run_pool x q) = pl_maximum q" for x q
    by (cases x) (simp_all add: try_acquire_def release_def pool_release_def set_limit_def Let_def)
  then have "pl_maximum (fold run_pool ops q) = pl_maximum q" for q by (induction ops arbitrary: q) simp_all
  then have "pl_maximum p = max 0 m" by (simp add: assms new_pool_def)
  with ok show "pl_active p \<le> max 0 m" by (simp add: pool_ok_def)
  show "isl (fst (acquire code p)) \<longleftrightarrow> pl_limit p \<le> int (card (outstanding (pl_leases p)))"
    unfolding active [symmetric] by (simp add: acquire_def try_acquire_def)
  show "release i (release i p) = release i p"
    by (simp add: release_def pool_release_def)
qed

theorem pool_refines_semaphore_witness:
  "isl (fst (acquire ''RESOURCE_LIMIT'' (fold run_pool [PAcquire, PAcquire, PRelease 0, PRelease 0, PLimit 1] (new_pool 2))))"
proof -
  let ?p = "fold run_pool [PAcquire, PAcquire, PRelease 0, PRelease 0, PLimit 1] (new_pool 2)"
  have "pl_active ?p = 1" "pl_limit ?p = 1"
    by (simp_all add: new_pool_def try_acquire_def release_def pool_release_def set_limit_def Let_def)
  note facts = this pool_refines_semaphore [OF refl, of PAcquire "[PAcquire, PAcquire, PRelease 0, PRelease 0, PLimit 1]" 2 "''RESOURCE_LIMIT''" 0]
  have "pl_limit ?p \<le> int (card (outstanding (pl_leases ?p)))" using facts by linarith
  then show ?thesis using facts(3) by blast
qed

section \<open>The bounded history\<close>

record 'a history =
  hs_capacity :: int
  hs_items :: "'a list"

definition new_history :: "int \<Rightarrow> 'a history" where
  "new_history capacity = \<lparr>hs_capacity = max 16 (min 4096 capacity), hs_items = []\<rparr>"

definition history_append :: "'a \<Rightarrow> 'a history \<Rightarrow> 'a history" where
  "history_append x h = h\<lparr>hs_items := (let xs = hs_items h @ [x] in drop (length xs - nat (hs_capacity h)) xs)\<rparr>"

lemma history_capacity [simp]: "hs_capacity (history_append x h) = hs_capacity h"
  by (simp add: history_append_def)

lemma history_capacity_fold [simp]: "hs_capacity (fold history_append xs h) = hs_capacity h"
  by (induction xs arbitrary: h) simp_all

lemma items_append:
  "hs_items (history_append x h) = drop (Suc (length (hs_items h)) - nat (hs_capacity h)) (hs_items h @ [x])"
  by (simp add: history_append_def Let_def)

lemma last_items_snoc:
  "0 < n \<Longrightarrow> drop (Suc (length (drop (length xs - n) xs)) - n) (drop (length xs - n) xs @ [x]) = drop (Suc (length xs) - n) (xs @ [x])"
  by (cases "length xs < n") (simp_all add: Suc_diff_le)

text \<open>The history is the last samples appended, as many as fit.\<close>

lemma history_is_suffix:
  "hs_items (fold history_append xs (new_history c)) = drop (length xs - nat (max 16 (min 4096 c))) xs"
proof (induction xs rule: rev_induct)
  case (snoc x xs)
  have "0 < nat (max 16 (min 4096 c))" by simp
  from last_items_snoc [OF this, of xs x] snoc show ?case
    by (simp only: fold_append fold.simps comp_apply id_apply items_append history_capacity_fold) (simp add: new_history_def)
qed (simp add: new_history_def)

end
