(* ===== verification/TracePropagation.thy ===== *)
theory TracePropagation
  imports TraceContext WorkerIdentity
begin

text \<open>
  What crosses a process boundary as text and comes back: the trace headers of \<^verbatim>\<open>observability/trace_context.py\<close> with
  the context derived from them, the trace fields of a durable job, and the base64 keys of
  \<^verbatim>\<open>security/worker_identity.py\<close>. A header mapping is an association list; the random identifiers are drawn by the caller; \<open>sha\<close>
  is the hexadecimal SHA-256 digest of a text's bytes.
\<close>

section \<open>Headers\<close>

definition trace_headers :: "trace_context \<Rightarrow> (pystr \<times> pystr) list" where
  "trace_headers t = (''traceparent'', traceparent t) # (if tracestate t = [] then [] else [(''tracestate'', tracestate t)])"

definition from_correlation :: "(pystr \<Rightarrow> pystr) \<Rightarrow> pystr \<Rightarrow> pystr \<Rightarrow> trace_context" where
  "from_correlation sha sid correlation_id =
     (let digest = take 32 (sha (''arenyxa-trace-v1'' @ [char_of (0 :: nat)] @ correlation_id));
          tid = (if \<exists>c \<in> set digest. c \<noteq> CHR ''0'' then digest else CHR ''1'' # tl digest)
      in \<lparr>trace_id = tid, span_id = sid, parent_span_id = [], sampled = True, tracestate = []\<rparr>)"

text \<open>\<open>child_trace_context\<close> of a parent that may be missing\<close>

definition child_or_root ::
  "(pystr \<Rightarrow> pystr) \<Rightarrow> pystr \<Rightarrow> pystr \<Rightarrow> pystr \<Rightarrow> trace_context option \<Rightarrow> trace_context"
where
  "child_or_root sha tid sid correlation_id parent = (case parent of
     None \<Rightarrow> if correlation_id = [] then new_trace tid sid [] else from_correlation sha sid correlation_id
   | Some p \<Rightarrow> child_trace_context sid p)"

definition header_or :: "(pystr \<times> pystr) list \<Rightarrow> pystr \<Rightarrow> pystr" where
  "header_or hs k = (case map_of hs k of None \<Rightarrow> [] | Some v \<Rightarrow> v)"

definition trace_context_from_headers ::
  "(pystr \<Rightarrow> pystr) \<Rightarrow> pystr \<Rightarrow> pystr \<Rightarrow> pystr \<Rightarrow> (pystr \<times> pystr) list \<Rightarrow> trace_context"
where
  "trace_context_from_headers sha tid sid correlation_id hs =
     child_or_root sha tid sid correlation_id (parse_traceparent (header_or hs ''traceparent'') (header_or hs ''tracestate''))"

section \<open>Normal forms of the trace state\<close>

definition clean_state :: "pystr \<Rightarrow> bool" where
  "clean_state s \<longleftrightarrow> length s \<le> 512 \<and> (\<forall>c \<in> set s. ord_c c < 128 \<and> c \<noteq> char_of (13 :: nat) \<and> c \<noteq> char_of (10 :: nat))"

lemma set_strip: "set (py_strip s) \<subseteq> set s"
  using strip_sublist [of s] by (metis Un_iff set_append subsetI)

lemma clean_sanitized: "clean_state (sanitize_tracestate s)"
proof -
  have "set (take 512 (filter (\<lambda>c. ord_c c < 128) t)) \<subseteq> {c. ord_c c < 128}" for t
    using set_take_subset [of 512 "filter (\<lambda>c. ord_c c < 128) t"] by auto
  then show ?thesis by (auto simp: sanitize_tracestate_def clean_state_def Let_def)
qed

lemma sanitize_clean:
  assumes "clean_state s"
  shows "sanitize_tracestate s = py_strip s"
proof -
  have chars: "\<forall>c \<in> set (py_strip s). ord_c c < 128 \<and> c \<noteq> char_of (13 :: nat) \<and> c \<noteq> char_of (10 :: nat)"
    using assms set_strip by (auto simp: clean_state_def)
  have "length (py_strip s) \<le> 512" using assms length_strip_le [of s] by (simp add: clean_state_def)
  moreover have "filter (\<lambda>c. ord_c c < 128) (py_strip s) = py_strip s" using chars by (simp add: filter_id_conv)
  moreover have "char_of (13 :: nat) \<notin> set (py_strip s)" "char_of (10 :: nat) \<notin> set (py_strip s)" using chars by blast+
  ultimately show ?thesis by (simp add: sanitize_tracestate_def Let_def)
qed

lemma clean_strip: "clean_state s \<Longrightarrow> clean_state (py_strip s)"
  using set_strip [of s] length_strip_le [of s] by (auto simp: clean_state_def)

lemma sanitize_settles:
  "sanitize_tracestate (sanitize_tracestate (sanitize_tracestate s)) = sanitize_tracestate (sanitize_tracestate s)"
  using sanitize_clean [OF clean_sanitized [of s]] sanitize_clean [OF clean_strip [OF clean_sanitized [of s]]] by simp

section \<open>Round trips\<close>

lemma headers_read:
  "header_or (trace_headers t) ''traceparent'' = traceparent t" "header_or (trace_headers t) ''tracestate'' = tracestate t"
  by (simp_all add: header_or_def trace_headers_def)

lemma persisted_settles:
  assumes "valid_hex tid 32" and "valid_hex sid 16" and "r = persisted_trace_fields tid sid p s"
  shows "persisted_trace_fields tid' sid' (fst r) (snd r) = r"
proof -
  obtain t where t: "wf_trace t" "fst r = traceparent t"
    using persisted_trace_wf [OF assms(1,2), of p s] assms(3) by blast
  have state: "snd r = sanitize_tracestate (sanitize_tracestate s)"
    unfolding assms(3) persisted_trace_fields_def Let_def
    by (auto simp: new_trace_def parse_traceparent_def split: option.splits list.splits if_splits)
  have "persisted_trace_fields tid' sid' (traceparent t) (snd r) =
      (traceparent t, sanitize_tracestate (sanitize_tracestate (snd r)))"
    unfolding persisted_trace_fields_def Let_def parse_print [OF t(1)] by simp
  also have "sanitize_tracestate (sanitize_tracestate (snd r)) = snd r" unfolding state by (simp only: sanitize_settles)
  finally show ?thesis using t(2) by (simp add: prod_eq_iff)
qed

text \<open>A trace crosses a process boundary unchanged: the context read from the headers of a context is exactly its child,
  of the same trace, sampled alike, with the same trace state and the sender as its parent; without readable headers
  the receiver starts a well-formed root of its own; and the trace fields stored with a job are a normal form, which
  reading and storing them again keeps, whatever they were made from.\<close>

lemma trace_propagates:
  assumes "wf_trace t" and "sanitize_tracestate (tracestate t) = tracestate t" and "valid_hex tid 32" and "valid_hex sid 16"
    and "r = persisted_trace_fields tid sid given_parent given_state"
  shows "trace_context_from_headers sha tid sid correlation (trace_headers t) =
      \<lparr>trace_id = trace_id t, span_id = sid, parent_span_id = span_id t, sampled = sampled t, tracestate = tracestate t\<rparr> \<and>
    wf_trace (trace_context_from_headers sha tid sid correlation (trace_headers t)) \<and>
    wf_trace (trace_context_from_headers sha tid sid [] []) \<and>
    persisted_trace_fields tid' sid' (fst r) (snd r) = r"
proof -
  have child: "trace_context_from_headers sha tid sid correlation (trace_headers t) =
      \<lparr>trace_id = trace_id t, span_id = sid, parent_span_id = span_id t, sampled = sampled t, tracestate = tracestate t\<rparr>"
    unfolding trace_context_from_headers_def headers_read parse_print [OF assms(1)]
    by (simp add: child_or_root_def child_trace_context_def assms(2))
  have "parse_traceparent [] [] = None" by (simp add: parse_traceparent_def py_strip_def py_casefold_def)
  then have "trace_context_from_headers sha tid sid [] [] = new_trace tid sid []"
    by (simp add: trace_context_from_headers_def header_or_def child_or_root_def)
  with child wf_new_trace [OF assms(3,4)] persisted_settles [OF assms(3-5)] assms(1,4) show ?thesis
    by (simp add: wf_trace_def)
qed

definition ex_trace :: trace_context where
  "ex_trace = \<lparr>trace_id = replicate 31 CHR ''0'' @ ''a'', span_id = ''00000000000000b7'', parent_span_id = [], sampled = True,
     tracestate = ''vendor=1''\<rparr>"

lemma trace_propagates_witness:
  "parent_span_id (trace_context_from_headers id (replicate 32 CHR ''1'') (replicate 16 CHR ''2'') [] (trace_headers ex_trace)) =
     ''00000000000000b7''"
proof -
  have "wf_trace ex_trace" by code_simp
  moreover have "sanitize_tracestate (tracestate ex_trace) = tracestate ex_trace" by code_simp
  moreover have "valid_hex (replicate 32 CHR ''1'') 32" "valid_hex (replicate 16 CHR ''2'') 16" by code_simp+
  ultimately show ?thesis
    using trace_propagates [of ex_trace "replicate 32 CHR ''1''" "replicate 16 CHR ''2''" _ "[]" "[]" id "[]", OF _ _ _ _ refl]
    by (simp add: ex_trace_def)
qed

text \<open>A worker's key survives its encoding: any non-empty key of at most the allowed size is decoded to itself from its
  base64 text; and the decoder accepts nothing but such texts: an accepted text is the encoding of its key, so a key
  has exactly one text and two different texts never name the same key.\<close>

lemma key_encoding_roundtrip:
  assumes "\<forall>b \<in> set key. b < 256" and "key \<noteq> []" and "length key \<le> max_bytes"
  shows "b64u_decode err max_bytes (b64u key) = Inr key \<and>
    (b64u_decode err max_bytes v = Inr key' \<longrightarrow> b64u key' = py_strip v \<and> length key' \<le> max_bytes) \<and>
    (b64u_decode err max_bytes v = Inr key \<and> b64u_decode err max_bytes w = Inr key \<longrightarrow> py_strip v = py_strip w)"
  using b64u_roundtrip [OF assms] b64u_decode_canonical [of err max_bytes v] b64u_decode_canonical [of err max_bytes w]
  by metis

lemma key_encoding_roundtrip_witness: "b64u_decode ValueError 4 (b64u [255, 0, 128, 7]) = Inr [255, 0, 128, 7]"
  using key_encoding_roundtrip [of "[255, 0, 128, 7]" 4] by simp

end
