(* ===== verification/IpAddress.thy ===== *)
theory IpAddress
  imports ZeroTrust
begin

text \<open>
  The addresses of Python's \<open>ipaddress\<close> library (3.11 and 3.12) as the network guard and the DNS decoder use them:
  reading a text, printing the shortest text, and the classes \<open>is_multicast\<close>, \<open>is_private\<close> and the like. An address is its
  number; an IPv6 address may carry a scope.
\<close>

datatype ip_address = V4 (ip_number: nat) | V6 (ip_number: nat) (ip_scope: "pystr option")

section \<open>Digits\<close>

text \<open>The number of a list of digits, highest first, and the digits of a number.\<close>

definition from_digits :: "nat \<Rightarrow> nat list \<Rightarrow> nat" where
  "from_digits b ds = foldl (\<lambda>n d. n * b + d) 0 ds"

fun to_digits :: "nat \<Rightarrow> nat \<Rightarrow> nat \<Rightarrow> nat list" where
  "to_digits b 0 n = []"
| "to_digits b (Suc k) n = to_digits b k (n div b) @ [n mod b]"

fun show_hex :: "nat \<Rightarrow> pystr" where
  "show_hex n = (if n < 16 then [hex_digit n] else show_hex (n div 16) @ [hex_digit (n mod 16)])"

declare show_hex.simps [simp del]

definition hex_digit_val :: "char \<Rightarrow> nat option" where
  "hex_digit_val c = (let n = ord_c c in
     if 48 \<le> n \<and> n \<le> 57 then Some (n - 48)
     else if 65 \<le> n \<and> n \<le> 70 then Some (n - 55)
     else if 97 \<le> n \<and> n \<le> 102 then Some (n - 87)
     else None)"

section \<open>Reading\<close>

definition parse_octet :: "pystr \<Rightarrow> nat option" where
  "parse_octet s =
     (if s = [] \<or> 3 < length s \<or> s \<noteq> ''0'' \<and> hd s = CHR ''0'' then None
      else (case digits_val 0 s of None \<Rightarrow> None | Some n \<Rightarrow> if 255 < n then None else Some n))"

definition v4_number :: "pystr \<Rightarrow> nat option" where
  "v4_number s = (let octets = split_on (CHR ''.'') s in
     if length octets \<noteq> 4 then None else map_option (from_digits 256) (those (map parse_octet octets)))"

definition parse_hextet :: "pystr \<Rightarrow> nat option" where
  "parse_hextet s =
     (if s = [] \<or> 4 < length s then None else map_option (from_digits 16) (those (map hex_digit_val s)))"

text \<open>An IPv4 suffix stands for two parts.\<close>

definition expand_v4 :: "pystr list \<Rightarrow> pystr list option" where
  "expand_v4 parts =
     (if CHR ''.'' \<in> set (last parts)
      then map_option (\<lambda>n. butlast parts @ [show_hex (n div 65536 mod 65536), show_hex (n mod 65536)]) (v4_number (last parts))
      else Some parts)"

text \<open>The number of the parts, with \<open>skipped\<close> zero parts between the high and the low ones.\<close>

definition hextets_number :: "pystr list \<Rightarrow> nat \<Rightarrow> pystr list \<Rightarrow> nat option" where
  "hextets_number hi skipped lo =
     (case (those (map parse_hextet hi), those (map parse_hextet lo)) of
        (Some hs, Some ls) \<Rightarrow> Some (from_digits 65536 (hs @ replicate skipped 0 @ ls))
      | _ \<Rightarrow> None)"

definition v6_parts :: "pystr list \<Rightarrow> nat option" where
  "v6_parts parts =
     (case filter (\<lambda>i. parts ! i = []) [1..<length parts - 1] of
        [] \<Rightarrow>
          if length parts \<noteq> 8 \<or> hd parts = [] \<or> last parts = [] then None else hextets_number parts 0 []
      | [k] \<Rightarrow>
          let hi = (if hd parts = [] then k - 1 else k);
              lo = (if last parts = [] then length parts - k - 2 else length parts - k - 1)
          in if hd parts = [] \<and> hi \<noteq> 0 \<or> last parts = [] \<and> lo \<noteq> 0 \<or> 8 \<le> hi + lo then None
             else hextets_number (take hi parts) (8 - (hi + lo)) (drop (length parts - lo) parts)
      | _ \<Rightarrow> None)"

definition v6_number :: "pystr \<Rightarrow> nat option" where
  "v6_number s = (let parts = split_on (CHR '':'') s in
     if length parts < 3 then None
     else (case expand_v4 parts of
         None \<Rightarrow> None
       | Some ps \<Rightarrow> if 9 < length ps then None else v6_parts ps))"

definition parse_v4 :: "pystr \<Rightarrow> ip_address option" where
  "parse_v4 s = (if CHR ''/'' \<in> set s then None else map_option V4 (v4_number s))"

definition parse_v6 :: "pystr \<Rightarrow> ip_address option" where
  "parse_v6 s =
     (if CHR ''/'' \<in> set s then None
      else (case split_on (CHR ''%'') s of
          [body] \<Rightarrow> map_option (\<lambda>n. V6 n None) (v6_number body)
        | [body, scope] \<Rightarrow> if scope = [] then None else map_option (\<lambda>n. V6 n (Some scope)) (v6_number body)
        | _ \<Rightarrow> None))"

definition parse_ip :: "pystr \<Rightarrow> ip_address option" where
  "parse_ip s = (case parse_v4 s of Some a \<Rightarrow> Some a | None \<Rightarrow> parse_v6 s)"

section \<open>Printing\<close>

text \<open>The first longest run of zero parts: the current run and the best one, each its start and its length.\<close>

fun longest_run :: "nat \<Rightarrow> nat \<times> nat \<Rightarrow> nat \<times> nat \<Rightarrow> pystr list \<Rightarrow> nat \<times> nat" where
  "longest_run i cur best [] = best"
| "longest_run i cur best (h # hs) =
     (if h = ''0''
      then let run = (if snd cur = 0 then i else fst cur, snd cur + 1)
           in longest_run (i + 1) run (if snd best < snd run then run else best) hs
      else longest_run (i + 1) (0, 0) best hs)"

definition compress_hextets :: "pystr list \<Rightarrow> pystr list" where
  "compress_hextets hs =
     (let (start, n) = longest_run 0 (0, 0) (0, 0) hs in
      if 1 < n
      then (if start = 0 then [[]] else []) @ take start hs @ [[]] @ drop (start + n) hs @ (if start + n = length hs then [[]] else [])
      else hs)"

definition show_v4 :: "nat \<Rightarrow> pystr" where
  "show_v4 n = join_with ''.'' (map show_nat (to_digits 256 4 n))"

definition show_v6 :: "nat \<Rightarrow> pystr" where
  "show_v6 n = join_with '':'' (compress_hextets (map show_hex (to_digits 65536 8 n)))"

definition show_ip :: "ip_address \<Rightarrow> pystr" where
  "show_ip a = (case a of
     V4 n \<Rightarrow> show_v4 n
   | V6 n None \<Rightarrow> show_v6 n
   | V6 n (Some s) \<Rightarrow> if s = [] then show_v6 n else show_v6 n @ CHR ''%'' # s)"

lemma to_digits_numeral: "to_digits b (numeral k) n = to_digits b (pred_numeral k) (n div b) @ [n mod b]"
  by (simp add: numeral_eq_Suc)

lemma replicate_numeral: "replicate (numeral k) x = x # replicate (pred_numeral k) x"
  by (simp add: numeral_eq_Suc)

lemmas ip_eval = to_digits_numeral replicate_numeral parse_ip_def parse_v4_def parse_v6_def v4_number_def v6_number_def v6_parts_def hextets_number_def expand_v4_def
  parse_octet_def parse_hextet_def hex_digit_val_def digit_val_def show_ip_def show_v4_def show_v6_def compress_hextets_def
  show_hex.simps show_nat.simps hex_digit_def from_digits_def ord_c_def

lemma parse_examples:
  "parse_ip ''2001:db8:0:0:1:0:0:1'' = Some (V6 42540766411282592856904266426630537217 None)"
  by (simp add: ip_eval)

lemma parse_examples2:
  "parse_ip ''::ffff:169.254.169.254'' = Some (V6 (65535 * 2 ^ 32 + 2852039166) None)"
  "parse_ip ''1.2.3.04'' = None" "parse_ip ''1:2:3:4:5:6:7::'' = Some (V6 5192455318486707404433266433261568 None)"
  "parse_ip ''::1%eth0'' = Some (V6 1 (Some ''eth0''))" "parse_ip ''1::2::3'' = None" "parse_ip '':1:2:3:4:5:6:7'' = None"
  by (simp_all add: ip_eval)

lemma show_ip_examples:
  "show_ip (V4 2852039166) = ''169.254.169.254''"
  "show_ip (V6 1 None) = ''::1''" "show_ip (V6 0 None) = ''::''"
  "show_ip (V6 42540766411282592856904266426630537217 None) = ''2001:db8::1:0:0:1''"
  "show_ip (V6 (65535 * 2 ^ 32 + 2852039166) None) = ''::ffff:a9fe:a9fe''"
  by (simp_all add: ip_eval)


section \<open>Reading what was printed\<close>

lemma from_digits_snoc [simp]: "from_digits b (ds @ [d]) = from_digits b ds * b + d"
  by (simp add: from_digits_def)

lemma from_to_digits: "n < b ^ k \<Longrightarrow> from_digits b (to_digits b k n) = n"
proof (induction k arbitrary: n)
  case 0
  then show ?case by (simp add: from_digits_def)
next
  case (Suc k)
  then have "n div b < b ^ k" by (simp add: less_mult_imp_div_less mult.commute)
  with Suc.IH show ?case by simp
qed

lemma to_digits_bounds: "0 < b \<Longrightarrow> d \<in> set (to_digits b k n) \<Longrightarrow> d < b"
  by (induction k arbitrary: n) auto

lemma length_to_digits [simp]: "length (to_digits b k n) = k"
  by (induction k arbitrary: n) auto

lemma those_append: "those (xs @ ys) = (case (those xs, those ys) of (Some us, Some vs) \<Rightarrow> Some (us @ vs) | _ \<Rightarrow> None)"
  by (induction xs) (auto split: option.splits)

lemma those_map_Some: "(\<And>x. x \<in> set xs \<Longrightarrow> f (g x) = Some (h x)) \<Longrightarrow> those (map f (map g xs)) = Some (map h xs)"
  by (induction xs) auto

lemma hex_digit_cases: "d < 16 \<Longrightarrow> hex_digit_val (hex_digit d) = Some d \<and> hex_digit d \<noteq> CHR '':'' \<and> hex_digit d \<noteq> CHR ''.'' \<and>
    hex_digit d \<noteq> CHR ''/'' \<and> hex_digit d \<noteq> CHR ''%''"
proof -
  have u: "[0..<16] = [0, 1, 2, 3, 4, 5, 6, 7, 8, 9, 10, 11, 12, 13, 14, 15]" by (simp add: upt_rec)
  assume "d < 16"
  then have "d \<in> set [0..<16]" by simp
  then show ?thesis unfolding u by (auto simp: hex_digit_def hex_digit_val_def ord_c_def)
qed

lemma show_hex_read: "\<exists>ds. those (map hex_digit_val (show_hex n)) = Some ds \<and> from_digits 16 ds = n"
proof (induction n rule: show_hex.induct)
  case (1 n)
  show ?case
  proof (cases "n < 16")
    case True
    then show ?thesis using hex_digit_cases [of n] by (subst show_hex.simps) (simp add: from_digits_def)
  next
    case False
    with 1 obtain ds where "those (map hex_digit_val (show_hex (n div 16))) = Some ds" "from_digits 16 ds = n div 16" by blast
    moreover have "hex_digit_val (hex_digit (n mod 16)) = Some (n mod 16)" using hex_digit_cases [of "n mod 16"] by simp
    ultimately show ?thesis using False by (subst show_hex.simps) (simp add: those_append)
  qed
qed

lemma length_show_hex: "n < 16 ^ k \<Longrightarrow> 0 < k \<Longrightarrow> length (show_hex n) \<le> k"
proof (induction n arbitrary: k rule: show_hex.induct)
  case (1 n)
  show ?case
  proof (cases "n < 16")
    case True
    with 1 show ?thesis by (subst show_hex.simps) simp
  next
    case False
    then obtain k' where k: "k = Suc k'" using "1.prems" by (cases k) auto
    then have "k' \<noteq> 0" using "1.prems" False by (cases k') auto
    moreover have "n div 16 < 16 ^ k'" using "1.prems" k by (simp add: less_mult_imp_div_less mult.commute)
    ultimately have "length (show_hex (n div 16)) \<le> k'" using 1(1) [OF False] by simp
    with False k show ?thesis by (subst show_hex.simps) simp
  qed
qed

lemma show_hex_chars: "c \<in> set (show_hex n) \<Longrightarrow> \<exists>d < 16. c = hex_digit d"
proof (induction n rule: show_hex.induct)
  case (1 n)
  show ?case
  proof (cases "n < 16")
    case True
    then have "show_hex n = [hex_digit n]" by (subst show_hex.simps) simp
    with "1.prems" True show ?thesis by auto
  next
    case False
    then have e: "show_hex n = show_hex (n div 16) @ [hex_digit (n mod 16)]" by (subst show_hex.simps) simp
    then consider "c \<in> set (show_hex (n div 16))" | "c = hex_digit (n mod 16)" using "1.prems" by auto
    then show ?thesis
    proof cases
      case 1
      then show ?thesis using "1.IH" [OF False] by blast
    next
      case 2
      then show ?thesis by (intro exI [of _ "n mod 16"]) simp
    qed
  qed
qed

lemma show_hex_nonempty [simp]: "show_hex n \<noteq> []"
  by (subst show_hex.simps) simp

lemma parse_show_hex: "n < 65536 \<Longrightarrow> parse_hextet (show_hex n) = Some n"
  using show_hex_read [of n] length_show_hex [of n 4] by (auto simp: parse_hextet_def)

lemma digit_cases: "d < 10 \<Longrightarrow> digit_val (hex_digit d) = Some d \<and> hex_digit d \<in> set ''0123456789'' \<and> (hex_digit d = CHR ''0'' \<longrightarrow> d = 0)"
proof -
  have "list_all (\<lambda>d. digit_val (hex_digit d) = Some d \<and> hex_digit d \<in> set ''0123456789'' \<and> (hex_digit d = CHR ''0'' \<longrightarrow> d = 0)) [0..<10]"
    by code_simp
  moreover assume "d < 10"
  ultimately show ?thesis by (auto simp: list_all_iff)
qed

lemma digits_val_snoc: "digits_val m (s @ [c]) =
    (case digits_val m s of None \<Rightarrow> None | Some n \<Rightarrow> map_option (\<lambda>d. 10 * n + d) (digit_val c))"
  by (induction s arbitrary: m) (auto split: option.splits)

text \<open>The decimal text of a number reads back, is made of digits and has no leading zero.\<close>

lemma show_nat_read: "digits_val 0 (show_nat n) = Some n \<and> set (show_nat n) \<subseteq> set ''0123456789'' \<and>
    show_nat n \<noteq> [] \<and> (hd (show_nat n) = CHR ''0'' \<longrightarrow> n = 0)"
proof (induction n rule: show_nat.induct)
  case (1 n)
  show ?case
  proof (cases "n < 10")
    case True
    then have "show_nat n = [hex_digit n]" by (subst show_nat.simps) simp
    with digit_cases [OF True] show ?thesis by simp
  next
    case False
    then have e: "show_nat n = show_nat (n div 10) @ [hex_digit (n mod 10)]" by (subst show_nat.simps) simp
    have "n div 10 \<noteq> 0" using False by simp
    with "1.IH" [OF False] digit_cases [of "n mod 10"] show ?thesis
      by (simp add: e digits_val_snoc del: div_eq_0_iff)
  qed
qed

lemma show_nat_octet: "n < 256 \<Longrightarrow> parse_octet (show_nat n) = Some n \<and> set (show_nat n) \<subseteq> set ''0123456789''"
  using show_nat_read [of n] length_show_nat [of n 3] by (auto simp: parse_octet_def show_nat.simps [of 0] hex_digit_def)

lemma split_join:
  "xs \<noteq> [] \<Longrightarrow> \<forall>x \<in> set xs. sep \<notin> set x \<Longrightarrow> split_on sep (join_with [sep] xs) = xs"
  by (induction "[sep]" xs rule: join_with.induct) (auto simp: split_on_no_sep split_on_append)

lemma split_on_keeps: "c \<in> set s \<Longrightarrow> c \<noteq> sep \<Longrightarrow> \<exists>p \<in> set (split_on sep s). c \<in> set p"
proof (induction s)
  case (Cons x xs)
  then show ?case by (cases "split_on sep xs") (auto simp: split_on_nonempty split: if_splits)
qed simp

lemma set_join: "set (join_with sep xs) \<subseteq> set sep \<union> \<Union> (set ` set xs)"
  by (induction sep xs rule: join_with.induct) auto

lemma parse_show_v4:
  assumes "n < 2 ^ 32"
  shows "v4_number (show_v4 n) = Some n"
proof -
  let ?ds = "to_digits 256 4 n"
  have b: "d < 256" if "d \<in> set ?ds" for d using that by (intro to_digits_bounds [of 256 d 4 n]) simp_all
  have nd: "CHR ''.'' \<notin> set (show_nat d)" if "d \<in> set ?ds" for d
    using show_nat_octet [OF b [OF that]] by auto
  have ne: "map show_nat ?ds \<noteq> []" by (metis length_0_conv length_map length_to_digits zero_neq_numeral)
  have "split_on (CHR ''.'') (show_v4 n) = map show_nat ?ds"
    unfolding show_v4_def using ne nd by (intro split_join) auto
  moreover have "those (map parse_octet (map show_nat ?ds)) = Some (map (\<lambda>d. d) ?ds)"
    using b show_nat_octet by (intro those_map_Some) blast
  moreover have "from_digits 256 ?ds = n" using assms by (intro from_to_digits) simp
  ultimately show ?thesis by (simp add: v4_number_def)
qed

text \<open>The run that is found lies in the list and holds only zeros.\<close>

definition zeros_at :: "pystr list \<Rightarrow> nat \<times> nat \<Rightarrow> bool" where
  "zeros_at hs r \<longleftrightarrow> fst r + snd r \<le> length hs \<and> (\<forall>i < snd r. hs ! (fst r + i) = ''0'')"

lemma longest_run_zeros:
  "i + length hs = length all \<Longrightarrow> drop i all = hs \<Longrightarrow> zeros_at all best \<Longrightarrow> zeros_at all cur \<Longrightarrow>
    (snd cur \<noteq> 0 \<longrightarrow> fst cur + snd cur = i) \<Longrightarrow> zeros_at all (longest_run i cur best hs)"
proof (induction i cur best hs rule: longest_run.induct)
  case (2 i cur best h hs)
  have i: "i < length all" "all ! i = h" "drop (i + 1) all = hs"
    using 2(3,4) by (auto simp: Cons_nth_drop_Suc nth_via_drop drop_Suc tl_drop [symmetric])
  show ?case
  proof (cases "h = ''0''")
    case True
    let ?run = "(if snd cur = 0 then i else fst cur, snd cur + 1)"
    have run: "zeros_at all ?run"
      using 2(6,7) i True by (auto simp: zeros_at_def less_Suc_eq)
    have "zeros_at all (longest_run (i + 1) ?run (if snd best < snd ?run then ?run else best) hs)"
      using 2(3,5,7) i run by (intro 2(1) [OF True refl]) auto
    with True show ?thesis by (simp only: longest_run.simps Let_def refl if_True fst_conv snd_conv)
  next
    case False
    then have "zeros_at all (longest_run (i + 1) (0, 0) best hs)"
      using 2(3,5) i by (intro 2(2)) (auto simp: zeros_at_def)
    with False show ?thesis by simp
  qed
qed simp

lemma filter_upt_single:
  assumes "a \<le> k" "k < b" "P k" "\<And>i. a \<le> i \<Longrightarrow> i < b \<Longrightarrow> P i \<Longrightarrow> i = k"
  shows "filter P [a..<b] = [k]"
proof -
  have "[a..<b] = [a..<k] @ [k..<b]" using assms(1,2) upt_add_eq_append [of a k "b - k"] by simp
  also have "[k..<b] = k # [Suc k..<b]" by (rule upt_conv_Cons) (rule assms(2))
  finally have s: "[a..<b] = [a..<k] @ k # [Suc k..<b]" .
  have other: "\<not> P i" if "a \<le> i" "i < b" "i \<noteq> k" for i using assms(4) that by blast
  have l: "filter P [a..<k] = []" using assms(2) other by (fastforce simp: filter_empty_conv)
  have r: "filter P [Suc k..<b] = []" using assms(1) other by (fastforce simp: filter_empty_conv)
  show ?thesis unfolding s using l r assms(3) by simp
qed

text \<open>The parts around one gap: an empty part stands for the gap, with another one at an end of the text.\<close>

definition gap_parts :: "pystr list \<Rightarrow> pystr list \<Rightarrow> pystr list" where
  "gap_parts hi lo = (if hi = [] then [[]] else []) @ hi @ [[]] @ lo @ (if lo = [] then [[]] else [])"

lemma gap_index:
  assumes "[] \<notin> set hi" "[] \<notin> set lo"
  shows "filter (\<lambda>i. gap_parts hi lo ! i = []) [1..<length (gap_parts hi lo) - 1] = [max 1 (length hi)]"
proof (rule filter_upt_single)
  fix i assume i: "1 \<le> i" "i < length (gap_parts hi lo) - 1" "gap_parts hi lo ! i = []"
  have hi: "hi ! j \<noteq> []" if "j < length hi" for j using assms that by (metis nth_mem)
  have lo: "lo ! j \<noteq> []" if "j < length lo" for j using assms that by (metis nth_mem)
  show "i = max 1 (length hi)"
  proof (cases "hi = []")
    case True
    with i lo [of "i - Suc (Suc 0)"] show ?thesis
      by (cases "lo = []") (auto simp: gap_parts_def nth_Cons' nth_append split: if_splits)
  next
    case False
    with i hi [of i] lo [of "i - length hi - 1"] show ?thesis
      by (cases "lo = []") (auto simp: gap_parts_def nth_Cons' nth_append split: if_splits)
  qed
qed (cases hi; cases lo; auto simp: gap_parts_def nth_append)+

lemma v6_parts_gap:
  assumes "[] \<notin> set hi" "[] \<notin> set lo" "length hi + length lo < 8"
  shows "v6_parts (gap_parts hi lo) = hextets_number hi (8 - (length hi + length lo)) lo"
proof -
  let ?p = "gap_parts hi lo"
  have ends: "hd ?p = [] \<longleftrightarrow> hi = []" "last ?p = [] \<longleftrightarrow> lo = []"
    using assms by (auto simp: gap_parts_def hd_append last_append dest: hd_in_set last_in_set)
  have len: "length ?p = length hi + length lo + 1 + (if hi = [] then 1 else 0) + (if lo = [] then 1 else 0)"
    by (simp add: gap_parts_def)
  have k: "(if hi = [] then max 1 (length hi) - 1 else max 1 (length hi)) = length hi" by (cases hi) auto
  have l: "(if lo = [] then length ?p - max 1 (length hi) - 2 else length ?p - max 1 (length hi) - 1) = length lo"
    unfolding len by (cases hi; cases lo) simp_all
  have parts: "hi \<noteq> [] \<Longrightarrow> take (length hi) ?p = hi" "lo \<noteq> [] \<Longrightarrow> drop (length ?p - length lo) ?p = lo"
    by (simp_all add: gap_parts_def)
  have parts: "take (length hi) ?p = hi" "drop (length ?p - length lo) ?p = lo"
    using parts by (cases "hi = []"; cases "lo = []"; simp)+
  show ?thesis
    unfolding v6_parts_def gap_index [OF assms(1,2)]
    by (simp only: ends k l parts Let_def list.case) (use assms(3) in auto)
qed

lemma compress_parts:
  assumes "length hs = 8" "\<forall>h \<in> set hs. parse_hextet h \<noteq> None"
  shows "v6_parts (compress_hextets hs) = map_option (from_digits 65536) (those (map parse_hextet hs))"
proof -
  obtain s n where r: "longest_run 0 (0, 0) (0, 0) hs = (s, n)" by fastforce
  have ne: "[] \<notin> set hs" using assms by (auto simp: parse_hextet_def)
  have nth: "hs ! i \<noteq> []" if "i < 8" for i using ne assms that by (metis nth_mem)
  have ends: "hd hs \<noteq> []" "last hs \<noteq> []"
    using ne assms by (metis list.size(3) hd_in_set last_in_set zero_neq_numeral)+
  show ?thesis
  proof (cases "1 < n")
    case True
    have "zeros_at hs (longest_run 0 (0, 0) (0, 0) hs)" by (rule longest_run_zeros) (auto simp: zeros_at_def)
    then have z: "s + n \<le> 8" "\<forall>i < n. hs ! (s + i) = ''0''" using assms by (simp_all add: r zeros_at_def)
    have e: "take n (drop s hs) = replicate n ''0''"
      using z assms by (intro nth_equalityI) auto
    have split: "hs = take s hs @ replicate n ''0'' @ drop (s + n) hs"
      using e by (metis add.commute append_take_drop_id drop_drop)
    have "compress_hextets hs = gap_parts (take s hs) (drop (s + n) hs)"
      using True z assms by (auto simp: compress_hextets_def r gap_parts_def)
    moreover have "[] \<notin> set (take s hs)" "[] \<notin> set (drop (s + n) hs)"
      using ne in_set_takeD in_set_dropD by metis+
    moreover have "length (take s hs) + length (drop (s + n) hs) = 8 - n" using z assms by simp
    moreover have "parse_hextet ''0'' = Some 0" by (simp add: parse_hextet_def hex_digit_val_def ord_c_def from_digits_def)
    then have "those (replicate n (parse_hextet ''0'')) = Some (replicate n 0)" by (induction n) auto
    moreover have "those (map parse_hextet hs) = (case (those (map parse_hextet (take s hs)), those (map parse_hextet (drop (s + n) hs))) of
        (Some us, Some vs) \<Rightarrow> Some (us @ replicate n 0 @ vs) | _ \<Rightarrow> None)"
      by (subst split) (auto simp: those_append calculation split: option.splits)
    ultimately show ?thesis
      using True z assms(1) by (auto simp: v6_parts_gap hextets_number_def split: option.splits)
  next
    case False
    have "filter (\<lambda>i. hs ! i = []) [1..<7] = []" using nth by (auto simp: filter_empty_conv)
    with False assms ends show ?thesis
      by (simp add: compress_hextets_def r v6_parts_def hextets_number_def split: option.splits)
  qed
qed


definition valid_ip :: "ip_address \<Rightarrow> bool" where
  "valid_ip a = (case a of
     V4 n \<Rightarrow> n < 2 ^ 32
   | V6 n None \<Rightarrow> n < 2 ^ 128
   | V6 n (Some s) \<Rightarrow> n < 2 ^ 128 \<and> s \<noteq> [] \<and> CHR ''%'' \<notin> set s \<and> CHR ''/'' \<notin> set s)"

lemma set_gap: "set (compress_hextets hs) \<subseteq> insert [] (set hs)"
  by (auto simp: compress_hextets_def Let_def split: prod.splits dest: in_set_takeD in_set_dropD)

lemma show_v6_chars: "c \<in> set (show_v6 n) \<Longrightarrow> c = CHR '':'' \<or> (\<exists>d < 16. c = hex_digit d)"
proof -
  assume "c \<in> set (show_v6 n)"
  then have "c \<in> set '':'' \<union> \<Union> (set ` set (compress_hextets (map show_hex (to_digits 65536 8 n))))"
    unfolding show_v6_def using set_join by blast
  then consider "c = CHR '':''" | x where "x \<in> set (compress_hextets (map show_hex (to_digits 65536 8 n)))" "c \<in> set x" by auto
  then show ?thesis
  proof cases
    case 2
    from subsetD [OF set_gap 2(1)] 2(2) show ?thesis by (auto dest: show_hex_chars)
  qed simp
qed

lemma show_v6_plain: "CHR ''%'' \<notin> set (show_v6 n)" "CHR ''/'' \<notin> set (show_v6 n)" "CHR ''.'' \<notin> set (show_v6 n)"
  by (auto dest!: show_v6_chars) (metis hex_digit_cases)+

lemma compress_length: "length hs = 8 \<Longrightarrow> 3 \<le> length (compress_hextets hs) \<and> length (compress_hextets hs) \<le> 9"
proof -
  assume l: "length hs = 8"
  obtain s n where r: "longest_run 0 (0, 0) (0, 0) hs = (s, n)" by fastforce
  have "zeros_at hs (longest_run 0 (0, 0) (0, 0) hs)" by (rule longest_run_zeros) (auto simp: zeros_at_def)
  then have "s + n \<le> 8" by (simp add: r zeros_at_def l)
  with l show ?thesis by (auto simp: compress_hextets_def r)
qed

lemma parse_show_v6:
  assumes "n < 2 ^ 128"
  shows "v6_number (show_v6 n) = Some n"
proof -
  let ?ds = "to_digits 65536 8 n" and ?hs = "map show_hex (to_digits 65536 8 n)"
  let ?ps = "compress_hextets ?hs"
  have b: "d < 65536" if "d \<in> set ?ds" for d using that by (intro to_digits_bounds [of 65536 d 8 n]) simp_all
  have hex: "c \<noteq> CHR '':'' \<and> c \<noteq> CHR ''.''" if "c \<in> set (show_hex d)" for c d
    using show_hex_chars [OF that] hex_digit_cases by metis
  have len: "3 \<le> length ?ps" "length ?ps \<le> 9" using compress_length [of ?hs] by simp_all
  have plain: "CHR '':'' \<notin> set p \<and> CHR ''.'' \<notin> set p" if "p \<in> set ?ps" for p
    using subsetD [OF set_gap that] hex by auto
  have split: "split_on (CHR '':'') (show_v6 n) = ?ps"
    unfolding show_v6_def using len plain by (intro split_join) auto
  have "?ps \<noteq> []" using len by auto
  then have "CHR ''.'' \<notin> set (last ?ps)" using plain last_in_set by blast
  then have v4: "expand_v4 ?ps = Some ?ps" by (simp add: expand_v4_def)
  have "those (map parse_hextet ?hs) = Some (map (\<lambda>d. d) ?ds)"
    using b by (intro those_map_Some) (simp add: parse_show_hex)
  moreover have "v6_parts ?ps = map_option (from_digits 65536) (those (map parse_hextet ?hs))"
    using b by (intro compress_parts) (auto simp: parse_show_hex)
  moreover have "from_digits 65536 ?ds = n" using assms by (intro from_to_digits) simp
  ultimately show ?thesis using len by (simp add: v6_number_def split v4 Let_def)
qed

lemma v4_number_no_colon: "CHR '':'' \<in> set s \<Longrightarrow> v4_number s = None"
proof -
  assume "CHR '':'' \<in> set s"
  then obtain p where p: "p \<in> set (split_on (CHR ''.'') s)" "CHR '':'' \<in> set p" using split_on_keeps by blast
  have "digits_val m t = None" if "CHR '':'' \<in> set t" for m t
    using that by (induction m t rule: digits_val.induct) (auto simp: digit_val_def ord_c_def split: option.splits)
  with p have "parse_octet p = None" by (simp add: parse_octet_def)
  moreover have "those (map parse_octet ps) = None" if "p \<in> set ps" for ps
    using that \<open>parse_octet p = None\<close> by (induction ps) (auto split: option.splits)
  ultimately show ?thesis using p by (simp add: v4_number_def Let_def)
qed

lemma show_v6_colon: "CHR '':'' \<in> set (show_v6 n)"
proof -
  let ?ps = "compress_hextets (map show_hex (to_digits 65536 8 n))"
  have "3 \<le> length ?ps" using compress_length [of "map show_hex (to_digits 65536 8 n)"] by simp
  then obtain a b cs where "?ps = a # b # cs" by (cases ?ps; cases "tl ?ps") auto
  then show ?thesis by (simp add: show_v6_def)
qed

text \<open>The text of an address reads back as that address.\<close>

lemma parse_show_ip: "valid_ip a \<Longrightarrow> parse_ip (show_ip a) = Some a"
proof (cases a)
  case (V4 n)
  assume "valid_ip a"
  then have n: "n < 2 ^ 32" by (simp add: V4 valid_ip_def)
  have "CHR ''/'' \<notin> set (show_v4 n)"
  proof
    assume "CHR ''/'' \<in> set (show_v4 n)"
    then have "CHR ''/'' \<in> set ''.'' \<union> \<Union> (set ` set (map show_nat (to_digits 256 4 n)))"
      unfolding show_v4_def using set_join by blast
    then obtain d where "CHR ''/'' \<in> set (show_nat d)" by auto
    then have "CHR ''/'' \<in> set ''0123456789''" using show_nat_read [of d] by blast
    then show False by simp
  qed
  with n show ?thesis by (simp add: V4 parse_ip_def parse_v4_def show_ip_def parse_show_v4)
next
  case (V6 n sc)
  assume v: "valid_ip a"
  then have n: "n < 2 ^ 128" by (auto simp: V6 valid_ip_def split: option.splits)
  show ?thesis
  proof (cases sc)
    case None
    then show ?thesis using n show_v6_plain [of n]
      by (simp add: V6 parse_ip_def parse_v4_def parse_v6_def show_ip_def v4_number_no_colon show_v6_colon
          split_on_no_sep parse_show_v6)
  next
    case (Some t)
    with v have t: "t \<noteq> []" "CHR ''%'' \<notin> set t" "CHR ''/'' \<notin> set t" by (simp_all add: V6 valid_ip_def)
    have "split_on (CHR ''%'') (show_v6 n @ CHR ''%'' # t) = [show_v6 n, t]"
      using show_v6_plain [of n] t by (simp add: split_on_append split_on_no_sep)
    then show ?thesis using n show_v6_plain [of n] t
      by (simp add: V6 Some parse_ip_def parse_v4_def parse_v6_def show_ip_def v4_number_no_colon show_v6_colon parse_show_v6)
  qed
qed


text \<open>What is read is an address.\<close>

lemma from_digits_bound: "\<forall>d \<in> set ds. d < b \<Longrightarrow> from_digits b ds < b ^ length ds"
proof (induction ds rule: rev_induct)
  case (snoc d ds)
  then have "from_digits b ds + 1 \<le> b ^ length ds" and "d < b" by simp_all
  then have "(from_digits b ds + 1) * b \<le> b ^ length ds * b" by (intro mult_right_mono) simp_all
  with \<open>d < b\<close> show ?case by (simp add: algebra_simps)
qed (simp add: from_digits_def)

lemma from_digits_le: "\<forall>d \<in> set ds. d < b \<Longrightarrow> length ds \<le> k \<Longrightarrow> 0 < b \<Longrightarrow> from_digits b ds < b ^ k"
  using from_digits_bound [of ds b] power_increasing [of "length ds" k b] by fastforce

lemma those_Some: "those (map f xs) = Some ys \<Longrightarrow> length ys = length xs \<and> (\<forall>y \<in> set ys. \<exists>x \<in> set xs. f x = Some y)"
proof (induction xs arbitrary: ys)
  case (Cons x xs)
  then obtain z zs where "f x = Some z" "those (map f xs) = Some zs" "ys = z # zs" by (auto split: option.splits)
  with Cons.IH [of zs] show ?case by auto
qed simp

lemma hex_digit_val_bound: "hex_digit_val c = Some d \<Longrightarrow> d < 16"
  by (auto simp: hex_digit_val_def Let_def split: if_splits)

lemma parse_hextet_bound: "parse_hextet s = Some n \<Longrightarrow> n < 65536"
proof -
  assume "parse_hextet s = Some n"
  then obtain ds where "length s \<le> 4" "those (map hex_digit_val s) = Some ds" "n = from_digits 16 ds"
    by (auto simp: parse_hextet_def split: if_splits)
  then have "n < 16 ^ 4"
    using those_Some [of hex_digit_val s ds] hex_digit_val_bound by (simp del: power_numeral, intro from_digits_le) auto
  then show ?thesis by simp
qed

lemma parse_octet_bound: "parse_octet s = Some n \<Longrightarrow> n < 256"
  by (auto simp: parse_octet_def split: if_splits option.splits)

lemma v4_number_bound: "v4_number s = Some n \<Longrightarrow> n < 2 ^ 32"
proof -
  assume "v4_number s = Some n"
  then obtain ds where l: "length (split_on (CHR ''.'') s) = 4" and d: "those (map parse_octet (split_on (CHR ''.'') s)) = Some ds"
    and n: "n = from_digits 256 ds"
    by (auto simp: v4_number_def Let_def split: if_splits)
  then have "n < 256 ^ 4"
    using those_Some [OF d] parse_octet_bound by (simp del: power_numeral, intro from_digits_le) auto
  then show ?thesis by simp
qed

lemma hextets_bound:
  assumes "hextets_number hi k lo = Some n" "length hi + k + length lo \<le> 8"
  shows "n < 2 ^ 128"
proof -
  from assms obtain hs ls where h: "those (map parse_hextet hi) = Some hs" and l: "those (map parse_hextet lo) = Some ls"
    and n: "n = from_digits 65536 (hs @ replicate k 0 @ ls)"
    by (auto simp: hextets_number_def split: option.splits)
  have "n < 65536 ^ 8" unfolding n
    using those_Some [OF h] those_Some [OF l] parse_hextet_bound assms(2) by (intro from_digits_le) auto
  then show ?thesis by simp
qed

lemma v6_number_bound: "v6_number s = Some n \<Longrightarrow> n < 2 ^ 128"
proof -
  assume "v6_number s = Some n"
  then obtain ps where "v6_parts ps = Some n" by (auto simp: v6_number_def Let_def split: if_splits option.splits)
  then show ?thesis
    unfolding v6_parts_def Let_def by (auto split: list.splits if_splits) (drule hextets_bound; simp)+
qed

lemma parse_valid: "parse_ip s = Some a \<Longrightarrow> valid_ip a"
proof -
  assume a: "parse_ip s = Some a"
  show ?thesis
  proof (cases "parse_v4 s")
    case (Some b)
    with a show ?thesis by (auto simp: parse_ip_def parse_v4_def valid_ip_def dest: v4_number_bound split: if_splits)
  next
    case None
    with a have p: "parse_v6 s = Some a" by (simp add: parse_ip_def)
    have sep: "\<forall>w \<in> set (split_on c t). c \<notin> set w \<and> set w \<subseteq> set t" for c t
    proof (induction t)
      case (Cons x t)
      then show ?case by (cases "split_on c t") (auto simp: split_on_nonempty)
    qed simp
    from p have slash: "CHR ''/'' \<notin> set s" by (simp add: parse_v6_def split: if_splits)
    from p consider body n where "a = V6 n None" "v6_number body = Some n"
      | body sc n where "split_on (CHR ''%'') s = [body, sc]" "sc \<noteq> []" "a = V6 n (Some sc)" "v6_number body = Some n"
      by (auto simp: parse_v6_def split: if_splits list.splits)
    then show ?thesis
    proof cases
      case 1
      then show ?thesis using v6_number_bound by (simp add: valid_ip_def)
    next
      case 2
      then have "CHR ''%'' \<notin> set sc" "CHR ''/'' \<notin> set sc" using sep [of "CHR ''%''" s] slash by auto
      with 2 show ?thesis using v6_number_bound by (simp add: valid_ip_def)
    qed
  qed
qed

section \<open>Classes of addresses\<close>

text \<open>A network is its first number and the length of its prefix.\<close>

definition in_network :: "nat \<Rightarrow> nat \<Rightarrow> nat \<times> nat \<Rightarrow> bool" where
  "in_network bits n net \<longleftrightarrow> n div 2 ^ (bits - snd net) = fst net div 2 ^ (bits - snd net)"

definition net4 :: "nat list \<Rightarrow> nat \<Rightarrow> nat \<times> nat" where
  "net4 ds p = (from_digits 256 (ds @ replicate (4 - length ds) 0), p)"

definition net6 :: "nat list \<Rightarrow> nat \<Rightarrow> nat \<times> nat" where
  "net6 ds p = (from_digits 65536 (ds @ replicate (8 - length ds) 0), p)"

definition private4 :: "nat \<Rightarrow> bool" where
  "private4 n \<longleftrightarrow>
     list_ex (in_network 32 n)
       [net4 [0] 8, net4 [10] 8, net4 [127] 8, net4 [169, 254] 16, net4 [172, 16] 12, net4 [192, 0, 0] 24,
        net4 [192, 0, 0, 170] 31, net4 [192, 0, 2] 24, net4 [192, 168] 16, net4 [198, 18] 15, net4 [198, 51, 100] 24,
        net4 [203, 0, 113] 24, net4 [240] 4, net4 [255, 255, 255, 255] 32] \<and>
     \<not> list_ex (in_network 32 n) [net4 [192, 0, 0, 9] 32, net4 [192, 0, 0, 10] 32]"

definition private6 :: "nat \<Rightarrow> bool" where
  "private6 n \<longleftrightarrow>
     list_ex (in_network 128 n)
       [net6 [0, 0, 0, 0, 0, 0, 0, 1] 128, net6 [] 128, net6 [0, 0, 0, 0, 0, 65535] 96, net6 [0x64, 0xff9b, 1] 48,
        net6 [0x100] 64, net6 [0x2001] 23, net6 [0x2001, 0xdb8] 32, net6 [0x2002] 16, net6 [0xfc00] 7, net6 [0xfe80] 10] \<and>
     \<not> list_ex (in_network 128 n)
       [net6 [0x2001, 1, 0, 0, 0, 0, 0, 1] 128, net6 [0x2001, 1, 0, 0, 0, 0, 0, 2] 128, net6 [0x2001, 3] 32,
        net6 [0x2001, 4, 0x112] 48, net6 [0x2001, 0x20] 28, net6 [0x2001, 0x30] 28]"

definition is_unspecified :: "ip_address \<Rightarrow> bool" where
  "is_unspecified a \<longleftrightarrow> ip_number a = 0"

definition is_multicast :: "ip_address \<Rightarrow> bool" where
  "is_multicast a = (case a of V4 n \<Rightarrow> in_network 32 n (net4 [224] 4) | V6 n s \<Rightarrow> in_network 128 n (net6 [0xff00] 8))"

definition is_loopback :: "ip_address \<Rightarrow> bool" where
  "is_loopback a = (case a of V4 n \<Rightarrow> in_network 32 n (net4 [127] 8) | V6 n s \<Rightarrow> n = 1)"

definition is_link_local :: "ip_address \<Rightarrow> bool" where
  "is_link_local a = (case a of V4 n \<Rightarrow> in_network 32 n (net4 [169, 254] 16) | V6 n s \<Rightarrow> in_network 128 n (net6 [0xfe80] 10))"

definition is_private :: "ip_address \<Rightarrow> bool" where
  "is_private a = (case a of
     V4 n \<Rightarrow> private4 n
   | V6 n s \<Rightarrow> if n div 2 ^ 32 = 65535 then private4 (n mod 2 ^ 32) else private6 n)"

end
