(* ===== verification/NetworkGuard.thy ===== *)
theory NetworkGuard
  imports IpAddress
begin

text \<open>
  The network guard of \<^verbatim>\<open>security/network_guard.py\<close>: which hosts a connection may go to, and how many connections are
  admitted. The clock is read before the lock is taken and is an argument of every operation; the name service is the
  argument \<open>lookup\<close>, the rows of \<open>socket.getaddrinfo\<close> or the exception it raises. An operation returns the guard beside
  its result, since a refusal keeps the changes made before it.
\<close>

section \<open>Policy\<close>

record guard_policy =
  gp_enabled :: bool
  gp_concurrent :: int
  gp_global :: int
  gp_target :: int
  gp_distinct :: int
  gp_tracked :: int
  gp_resolved :: int
  gp_metadata :: bool
  gp_special :: bool
  gp_private :: bool
  gp_protected :: "pystr list"

definition default_guard_policy :: guard_policy where
  "default_guard_policy = \<lparr>gp_enabled = True, gp_concurrent = 128, gp_global = 1200, gp_target = 240, gp_distinct = 512,
     gp_tracked = 2048, gp_resolved = 16, gp_metadata = True, gp_special = True, gp_private = False,
     gp_protected = [''169.254.169.254'', ''100.100.100.200'', ''fd00:ec2::254'', ''metadata.google.internal'',
       ''metadata.google.internal.'']\<rparr>"

definition validate_policy :: "guard_policy \<Rightarrow> exc + unit" where
  "validate_policy p =
     ebind (require (1 \<le> gp_concurrent p \<and> gp_concurrent p \<le> 4096) ValueError) (\<lambda>_.
     ebind (require (1 \<le> gp_global p \<and> gp_global p \<le> 1000000) ValueError) (\<lambda>_.
     ebind (require (1 \<le> gp_target p \<and> gp_target p \<le> 100000) ValueError) (\<lambda>_.
     ebind (require (1 \<le> gp_distinct p \<and> gp_distinct p \<le> 100000) ValueError) (\<lambda>_.
     ebind (require (gp_distinct p \<le> gp_tracked p \<and> gp_tracked p \<le> 1000000) ValueError) (\<lambda>_.
       require (1 \<le> gp_resolved p \<and> gp_resolved p \<le> 256) ValueError)))))"

definition network_fail :: "pystr \<Rightarrow> exc" where
  "network_fail code = ArenyxaError ''NETWORK_GOVERNANCE'' code"

section \<open>Targets\<close>

definition normalized_host :: "pystr \<Rightarrow> pystr" where
  "normalized_host host =
     (let s = py_casefold (rev (dropWhile (\<lambda>c. c = CHR ''.'') (rev (py_strip host)))) in
      if s = [] \<or> 253 < length s \<or> list_ex (\<lambda>c. ord_c c < 33 \<or> ord_c c = 127) s then [] else s)"

definition protected_names :: "guard_policy \<Rightarrow> pystr set" where
  "protected_names p = normalized_host ` set (gp_protected p)"

definition is_protected :: "guard_policy \<Rightarrow> pystr \<Rightarrow> ip_address option \<Rightarrow> bool" where
  "is_protected p name addr \<longleftrightarrow> name \<in> protected_names p \<or>
     (case addr of None \<Rightarrow> False | Some a \<Rightarrow> py_casefold (show_ip a) \<in> protected_names p)"

datatype lookup = GaiError | LookupRaises exc | Rows "pystr list"

fun collect_addresses :: "int \<Rightarrow> pystr list \<Rightarrow> ip_address list \<Rightarrow> ip_address list" where
  "collect_addresses limit [] acc = acc"
| "collect_addresses limit (row # rows) acc =
     (case parse_ip row of
        None \<Rightarrow> collect_addresses limit rows acc
      | Some a \<Rightarrow>
          if a \<in> set acc then collect_addresses limit rows acc
          else if limit \<le> int (length acc) + 1 then acc @ [a]
          else collect_addresses limit rows (acc @ [a]))"

definition resolve_host :: "guard_policy \<Rightarrow> (pystr \<Rightarrow> lookup) \<Rightarrow> pystr \<Rightarrow> exc + ip_address list" where
  "resolve_host p lookup host =
     (let name = normalized_host host in
      if name = [] then Inl (network_fail ''NETWORK_TARGET_INVALID'')
      else if gp_metadata p \<and> is_protected p name None then Inl (network_fail ''NETWORK_PROTECTED_TARGET'')
      else (case parse_ip name of
          Some a \<Rightarrow> Inr [a]
        | None \<Rightarrow> (case lookup name of
              GaiError \<Rightarrow> Inl (network_fail ''NETWORK_TARGET_RESOLUTION_FAILED'')
            | LookupRaises e \<Rightarrow> Inl e
            | Rows rows \<Rightarrow>
                let addrs = collect_addresses (gp_resolved p) rows [] in
                if addrs = [] then Inl (network_fail ''NETWORK_TARGET_RESOLUTION_FAILED'') else Inr addrs)))"

fun validate_addresses :: "guard_policy \<Rightarrow> pystr \<Rightarrow> ip_address list \<Rightarrow> exc + unit" where
  "validate_addresses p name [] = Inr ()"
| "validate_addresses p name (a # addrs) =
     (if gp_metadata p \<and> is_protected p name (Some a) then Inl (network_fail ''NETWORK_PROTECTED_TARGET'')
      else if gp_special p \<and> (is_unspecified a \<or> is_multicast a) then Inl (network_fail ''NETWORK_SPECIAL_TARGET_BLOCKED'')
      else if gp_private p \<and> (is_private a \<or> is_loopback a \<or> is_link_local a)
        then Inl (network_fail ''NETWORK_PRIVATE_TARGET_BLOCKED'')
      else validate_addresses p name addrs)"

definition check_target :: "guard_policy \<Rightarrow> (pystr \<Rightarrow> lookup) \<Rightarrow> pystr \<Rightarrow> bool \<Rightarrow> exc + unit" where
  "check_target p lookup host resolve_dns =
     (let name = normalized_host host in
      if \<not> gp_enabled p then Inr ()
      else if name = [] then Inl (network_fail ''NETWORK_TARGET_INVALID'')
      else if gp_metadata p \<and> is_protected p name None then Inl (network_fail ''NETWORK_PROTECTED_TARGET'')
      else if resolve_dns then ebind (resolve_host p lookup host) (validate_addresses p name)
      else (case parse_ip name of None \<Rightarrow> Inr () | Some a \<Rightarrow> validate_addresses p name [a]))"

section \<open>Budgets\<close>

record net_window =
  w_started :: rat
  w_count :: int
  w_seen :: rat

record net_guard =
  g_policy :: guard_policy
  g_active :: int
  g_global :: net_window
  g_fanout :: net_window
  g_targets :: "(pystr \<times> net_window) list"

definition new_window :: "rat \<Rightarrow> net_window" where
  "new_window now = \<lparr>w_started = now, w_count = 0, w_seen = now\<rparr>"

definition new_guard :: "guard_policy \<Rightarrow> rat \<Rightarrow> exc + net_guard" where
  "new_guard p now = ebind (validate_policy p) (\<lambda>_.
     Inr \<lparr>g_policy = p, g_active = 0, g_global = new_window now, g_fanout = new_window now, g_targets = []\<rparr>)"

definition rolls :: "net_window \<Rightarrow> rat \<Rightarrow> bool" where
  "rolls w now \<longleftrightarrow> 60 \<le> now - w_started w"

definition roll :: "net_window \<Rightarrow> rat \<Rightarrow> net_window" where
  "roll w now = (if rolls w now then new_window now else w\<lparr>w_seen := now\<rparr>)"

definition last_use :: "net_window \<Rightarrow> rat" where
  "last_use w = max (w_seen w) (w_started w)"

definition cleanup_targets :: "guard_policy \<Rightarrow> rat \<Rightarrow> (pystr \<times> net_window) list \<Rightarrow> (pystr \<times> net_window) list" where
  "cleanup_targets p now targets =
     (let kept = filter (\<lambda>(k, w). \<not> 120 \<le> now - last_use w) targets in
      if int (length kept) \<le> gp_tracked p then kept
      else (let oldest = take (nat (int (length kept) - gp_tracked p)) (sort_key (\<lambda>(k, w). last_use w) kept)
        in filter (\<lambda>(k, w). k \<notin> fst ` set oldest) kept))"

definition bump_window :: "net_window \<Rightarrow> net_window" where
  "bump_window w = w\<lparr>w_count := w_count w + 1\<rparr>"

text \<open>The windows are rolled first; a new target is then counted and tracked, or refused.\<close>

definition roll_windows :: "rat \<Rightarrow> net_guard \<Rightarrow> net_guard" where
  "roll_windows now g =
     (let rolled = rolls (g_global g) now \<or> rolls (g_fanout g) now
      in g\<lparr>g_global := roll (g_global g) now, g_fanout := roll (g_fanout g) now,
           g_targets := (if rolled then cleanup_targets (g_policy g) now (g_targets g) else g_targets g)\<rparr>)"

definition track_target :: "rat \<Rightarrow> pystr \<Rightarrow> net_guard \<Rightarrow> net_guard \<times> (exc + unit)" where
  "track_target now name g =
     (let p = g_policy g in
      if map_of (g_targets g) name \<noteq> None then (g, Inr ())
      else if gp_distinct p \<le> w_count (g_fanout g) then (g, Inl (network_fail ''NETWORK_TARGET_FANOUT_LIMIT''))
      else
        (let g1 = (if gp_tracked p \<le> int (length (g_targets g)) then g\<lparr>g_targets := cleanup_targets p now (g_targets g)\<rparr> else g)
         in if gp_tracked p \<le> int (length (g_targets g1)) then (g1, Inl (network_fail ''NETWORK_TARGET_TRACKING_LIMIT''))
            else (g1\<lparr>g_targets := g_targets g1 @ [(name, new_window now)], g_fanout := bump_window (g_fanout g1)\<rparr>, Inr ())))"

definition set_target :: "pystr \<Rightarrow> net_window \<Rightarrow> net_guard \<Rightarrow> net_guard" where
  "set_target name w g = g\<lparr>g_targets := AList.update name w (g_targets g)\<rparr>"

definition target_of :: "net_guard \<Rightarrow> pystr \<Rightarrow> net_window" where
  "target_of g name = the (map_of (g_targets g) name)"

definition charge :: "rat \<Rightarrow> pystr \<Rightarrow> net_guard \<Rightarrow> net_guard \<times> (exc + unit)" where
  "charge now name g =
     (let p = g_policy g; g1 = set_target name (roll (target_of g name) now) g; w = target_of g1 name in
      if gp_concurrent p \<le> g_active g1 then (g1, Inl (network_fail ''NETWORK_CONCURRENCY_LIMIT''))
      else if gp_global p \<le> w_count (g_global g1) then (g1, Inl (network_fail ''NETWORK_GLOBAL_RATE_LIMIT''))
      else if gp_target p \<le> w_count w then (g1, Inl (network_fail ''NETWORK_TARGET_RATE_LIMIT''))
      else (set_target name ((bump_window w)\<lparr>w_seen := now\<rparr>)
              (g1\<lparr>g_active := g_active g1 + 1, g_global := bump_window (g_global g1)\<rparr>), Inr ()))"

definition admit :: "rat \<Rightarrow> pystr \<Rightarrow> net_guard \<Rightarrow> net_guard \<times> (exc + unit)" where
  "admit now name g =
     (case track_target now name (roll_windows now g) of
        (g1, Inl e) \<Rightarrow> (g1, Inl e)
      | (g1, Inr _) \<Rightarrow> charge now name g1)"

text \<open>
  \<open>connection_candidates\<close> up to its \<open>yield\<close>, and its exit. A disabled guard counts nothing, and then there is nothing to
  give back.
\<close>

definition open_connection :: "(pystr \<Rightarrow> lookup) \<Rightarrow> rat \<Rightarrow> pystr \<Rightarrow> net_guard \<Rightarrow> net_guard \<times> (exc + pystr list)" where
  "open_connection lookup now host g =
     (let p = g_policy g; name = normalized_host host in
      if \<not> gp_enabled p then (g, Inr [host])
      else (case ebind (resolve_host p lookup host) (\<lambda>addrs. ebind (validate_addresses p name addrs) (\<lambda>_. Inr addrs)) of
          Inl e \<Rightarrow> (g, Inl e)
        | Inr addrs \<Rightarrow> (case admit now name g of
              (g1, Inl e) \<Rightarrow> (g1, Inl e)
            | (g1, Inr _) \<Rightarrow> (g1, Inr (map show_ip addrs)))))"

definition close_connection :: "net_guard \<Rightarrow> net_guard" where
  "close_connection g = (if gp_enabled (g_policy g) then g\<lparr>g_active := max 0 (g_active g - 1)\<rparr> else g)"

definition snapshot_guard :: "rat \<Rightarrow> net_guard \<Rightarrow> net_guard \<times> int \<times> int \<times> int \<times> nat" where
  "snapshot_guard now g =
     (let g1 = g\<lparr>g_global := roll (g_global g) now, g_fanout := roll (g_fanout g) now,
          g_targets := cleanup_targets (g_policy g) now (g_targets g)\<rparr>
      in (g1, g_active g1, w_count (g_global g1), w_count (g_fanout g1), length (g_targets g1)))"

end
