(* ===== verification/NetworkBudget.thy ===== *)
theory NetworkBudget
  imports NetworkGuard
begin

text \<open>
  What the network guard promises: a connection only goes to addresses that were checked, and in every sequence of
  openings, exits and snapshots the budgets hold, the number of held connections is the one the guard counts, and no
  minute sees more than twice the connections of one window.
\<close>

section \<open>Addresses\<close>

definition address_ok :: "guard_policy \<Rightarrow> pystr \<Rightarrow> ip_address \<Rightarrow> bool" where
  "address_ok p name a \<longleftrightarrow> \<not> (gp_metadata p \<and> is_protected p name (Some a)) \<and>
     \<not> (gp_special p \<and> (is_unspecified a \<or> is_multicast a)) \<and>
     \<not> (gp_private p \<and> (is_private a \<or> is_loopback a \<or> is_link_local a))"

lemma validate_addresses_iff: "validate_addresses p name addrs = Inr () \<longleftrightarrow> (\<forall>a \<in> set addrs. address_ok p name a)"
  by (induction addrs) (auto simp: address_ok_def)

lemma collect_addresses_props:
  "int (length acc) < limit \<Longrightarrow> distinct acc \<Longrightarrow> \<forall>a \<in> set acc. valid_ip a \<Longrightarrow>
    distinct (collect_addresses limit rows acc) \<and> int (length (collect_addresses limit rows acc)) \<le> limit \<and>
    (\<forall>a \<in> set (collect_addresses limit rows acc). valid_ip a \<and> (a \<in> set acc \<or> (\<exists>row \<in> set rows. parse_ip row = Some a)))"
proof (induction rows arbitrary: acc)
  case (Cons row rows)
  show ?case
  proof (cases "parse_ip row")
    case None
    with Cons.IH [OF Cons.prems] show ?thesis by auto
  next
    case (Some a)
    then have v: "valid_ip a" by (rule parse_valid)
    consider "a \<in> set acc" | "a \<notin> set acc" "limit \<le> int (length acc) + 1" | "a \<notin> set acc" "\<not> limit \<le> int (length acc) + 1"
      by blast
    then show ?thesis
    proof cases
      case 1
      with Some Cons.IH [OF Cons.prems] show ?thesis by auto
    next
      case 2
      with Some Cons.prems v show ?thesis by auto
    next
      case 3
      then have "int (length (acc @ [a])) < limit" "distinct (acc @ [a])" "\<forall>b \<in> set (acc @ [a]). valid_ip b"
        using Cons.prems v by auto
      from Cons.IH [OF this] 3 Some show ?thesis by auto
    qed
  qed
qed auto

lemma resolve_props:
  assumes "resolve_host p lookup host = Inr addrs" "validate_policy p = Inr ()"
  shows "addrs \<noteq> [] \<and> distinct addrs \<and> int (length addrs) \<le> gp_resolved p \<and> (\<forall>a \<in> set addrs. valid_ip a)"
proof -
  have l: "0 < gp_resolved p" using assms(2) by (simp add: validate_policy_def)
  from assms(1) consider a where "parse_ip (normalized_host host) = Some a" "addrs = [a]"
    | rows where "addrs = collect_addresses (gp_resolved p) rows []" "addrs \<noteq> []"
    by (auto simp: resolve_host_def Let_def split: if_splits option.splits lookup.splits)
  then show ?thesis
  proof cases
    case 1
    with l parse_valid show ?thesis by auto
  next
    case 2
    with collect_addresses_props [of "[]" "gp_resolved p" rows] l show ?thesis by auto
  qed
qed

text \<open>C10: Every text an enabled guard hands to a connection is the shortest text of an address that passed every check
  of the policy: it reads back as that address, is not protected (nor is the host), not unspecified or multicast, and not
  private where the policy asks for that; and there are between one and \<open>max_resolved_addresses\<close> of them, all different.\<close>

theorem candidates_checked:
  assumes "open_connection lookup now host g = (g', Inr texts)" and "gp_enabled (g_policy g)"
    and "validate_policy (g_policy g) = Inr ()"
  shows "texts \<noteq> [] \<and> distinct texts \<and> int (length texts) \<le> gp_resolved (g_policy g) \<and>
    (\<forall>t \<in> set texts. \<exists>a. parse_ip t = Some a \<and> show_ip a = t \<and>
       (gp_metadata (g_policy g) \<longrightarrow> py_casefold t \<notin> protected_names (g_policy g) \<and>
          normalized_host host \<notin> protected_names (g_policy g)) \<and>
       (gp_special (g_policy g) \<longrightarrow> \<not> is_unspecified a \<and> \<not> is_multicast a) \<and>
       (gp_private (g_policy g) \<longrightarrow> \<not> is_private a \<and> \<not> is_loopback a \<and> \<not> is_link_local a))"
proof -
  let ?p = "g_policy g"
  from assms(1,2) obtain addrs where r: "resolve_host ?p lookup host = Inr addrs" and t: "texts = map show_ip addrs"
    and v: "validate_addresses ?p (normalized_host host) addrs = Inr ()"
    by (auto simp: open_connection_def Let_def split: sum.splits prod.splits if_splits)
  from resolve_props [OF r assms(3)] have p: "addrs \<noteq> []" "distinct addrs" "int (length addrs) \<le> gp_resolved ?p"
    "\<forall>a \<in> set addrs. valid_ip a" by simp_all
  have "inj_on show_ip (set addrs)" using p(4) by (metis inj_onI option.inject parse_show_ip)
  with p have "distinct texts" by (simp add: t distinct_map)
  moreover have "\<forall>a \<in> set addrs. address_ok ?p (normalized_host host) a" using v by (simp add: validate_addresses_iff)
  ultimately show ?thesis using p parse_show_ip by (auto simp: t address_ok_def is_protected_def)
qed

text \<open>A public address that resolves from a name, under the standard policy.\<close>

definition ex_guard :: net_guard where
  "ex_guard = \<lparr>g_policy = default_guard_policy, g_active = 0, g_global = new_window 0, g_fanout = new_window 0, g_targets = []\<rparr>"

definition ex_names :: "pystr \<Rightarrow> lookup" where
  "ex_names name = Rows [''203.0.113.1'', ''x'', ''203.0.113.1'']"

lemma ex_policy_valid: "validate_policy default_guard_policy = Inr ()"
  by (simp add: validate_policy_def default_guard_policy_def require_def)

lemma default_hosts:
  "normalized_host ''169.254.169.254'' = ''169.254.169.254''" "normalized_host ''100.100.100.200'' = ''100.100.100.200''"
  "normalized_host ''fd00:ec2::254'' = ''fd00:ec2::254''" "normalized_host ''metadata.google.internal'' = ''metadata.google.internal''"
  "normalized_host ''metadata.google.internal.'' = ''metadata.google.internal''"
  by code_simp+

lemma default_protected: "protected_names default_guard_policy =
    {''169.254.169.254'', ''100.100.100.200'', ''fd00:ec2::254'', ''metadata.google.internal''}"
  by (simp only: protected_names_def default_guard_policy_def guard_policy.simps list.set image_insert image_empty default_hosts insert_absorb2)

lemma ex_name: "normalized_host ''Example.'' = ''example''"
  by code_simp

lemma ex_parse: "parse_ip ''example'' = None" "parse_ip ''x'' = None" "parse_ip ''203.0.113.1'' = Some (V4 3405803777)"
    "show_ip (V4 3405803777) = ''203.0.113.1''"
  by (simp_all add: ip_eval)

lemma ex_resolve: "resolve_host default_guard_policy ex_names ''Example.'' = Inr [V4 3405803777]"
  by (simp add: resolve_host_def ex_name is_protected_def default_protected ex_parse ex_names_def Let_def)

lemma ex_validate: "validate_addresses default_guard_policy ''example'' [V4 3405803777] = Inr ()"
  by (simp add: is_protected_def default_protected ex_parse py_casefold_def casefold_c_def ord_c_def Let_def is_unspecified_def
      is_multicast_def in_network_def net4_def from_digits_def replicate_numeral)
    (simp add: default_guard_policy_def)

lemma ex_admit: "\<exists>g'. admit 5 ''example'' ex_guard = (g', Inr ())"
  by (simp add: admit_def roll_windows_def track_target_def charge_def ex_guard_def default_guard_policy_def rolls_def roll_def
      new_window_def bump_window_def set_target_def target_of_def Let_def)

lemma ex_open: "\<exists>g'. open_connection ex_names 5 ''Example.'' ex_guard = (g', Inr [''203.0.113.1''])"
proof -
  obtain g' where "admit 5 ''example'' ex_guard = (g', Inr ())" using ex_admit by blast
  moreover have "g_policy ex_guard = default_guard_policy" "gp_enabled default_guard_policy"
    by (simp_all add: ex_guard_def default_guard_policy_def)
  ultimately show ?thesis by (simp add: open_connection_def ex_resolve ex_name ex_validate ex_parse Let_def del: validate_addresses.simps)
qed

theorem candidates_checked_witness:
  "\<exists>a. parse_ip ''203.0.113.1'' = Some a \<and> \<not> is_multicast a \<and> ''203.0.113.1'' \<notin> protected_names default_guard_policy"
proof -
  obtain g' where o: "open_connection ex_names 5 ''Example.'' ex_guard = (g', Inr [''203.0.113.1''])" using ex_open by blast
  have p: "g_policy ex_guard = default_guard_policy" "gp_enabled default_guard_policy" "gp_special default_guard_policy"
    "gp_metadata default_guard_policy"
    by (simp_all add: ex_guard_def default_guard_policy_def)
  have "py_casefold ''203.0.113.1'' = ''203.0.113.1''" by code_simp
  with candidates_checked [OF o] p ex_policy_valid show ?thesis by auto
qed

text \<open>
  A metadata address written as an IPv4-mapped IPv6 address, or with a scope, is none of the protected names, and the
  unspecified address mapped into IPv6 is not recognised as unspecified: the standard policy admits all three.
\<close>

lemma literal_admitted:
  assumes "normalized_host host = s" "s \<noteq> []" "parse_ip s = Some a" "py_casefold (show_ip a) = t"
    and "s \<notin> protected_names default_guard_policy" "t \<notin> protected_names default_guard_policy"
    and "\<not> is_unspecified a" "\<not> is_multicast a"
  shows "check_target default_guard_policy lookup host True = Inr ()"
proof -
  have "validate_addresses default_guard_policy s [a] = Inr ()"
    using assms by (simp add: validate_addresses_iff address_ok_def is_protected_def default_guard_policy_def)
  with assms show ?thesis by (simp add: check_target_def resolve_host_def is_protected_def Let_def del: validate_addresses.simps)
qed

lemmas class_eval = is_unspecified_def is_multicast_def in_network_def net4_def net6_def from_digits_def replicate_numeral

lemma mapped_address_admitted:
  "check_target default_guard_policy lookup ''::ffff:169.254.169.254'' True = Inr ()"
proof (rule literal_admitted)
  show "normalized_host ''::ffff:169.254.169.254'' = ''::ffff:169.254.169.254''" by code_simp
  show "parse_ip ''::ffff:169.254.169.254'' = Some (V6 281473533782526 None)" by (simp add: ip_eval)
  have "show_ip (V6 281473533782526 None) = ''::ffff:a9fe:a9fe''" by (simp add: ip_eval)
  moreover have "py_casefold ''::ffff:a9fe:a9fe'' = ''::ffff:a9fe:a9fe''" by code_simp
  ultimately show "py_casefold (show_ip (V6 281473533782526 None)) = ''::ffff:a9fe:a9fe''" by simp
qed (simp_all add: default_protected class_eval)

lemma scoped_address_admitted:
  "check_target default_guard_policy lookup ''fd00:ec2::254%1'' True = Inr ()"
proof (rule literal_admitted)
  show "normalized_host ''fd00:ec2::254%1'' = ''fd00:ec2::254%1''" by code_simp
  show "parse_ip ''fd00:ec2::254%1'' = Some (V6 336294982257581694735330614659971547732 (Some ''1''))" by (simp add: ip_eval)
  have "show_ip (V6 336294982257581694735330614659971547732 (Some ''1'')) = ''fd00:ec2::254%1''" by (simp add: ip_eval)
  moreover have "py_casefold ''fd00:ec2::254%1'' = ''fd00:ec2::254%1''" by code_simp
  ultimately show "py_casefold (show_ip (V6 336294982257581694735330614659971547732 (Some ''1''))) = ''fd00:ec2::254%1''" by simp
qed (simp_all add: default_protected class_eval)

lemma mapped_unspecified_admitted:
  "check_target default_guard_policy lookup ''::ffff:0.0.0.0'' True = Inr ()"
proof (rule literal_admitted)
  show "normalized_host ''::ffff:0.0.0.0'' = ''::ffff:0.0.0.0''" by code_simp
  show "parse_ip ''::ffff:0.0.0.0'' = Some (V6 281470681743360 None)" by (simp add: ip_eval)
  have "show_ip (V6 281470681743360 None) = ''::ffff:0:0''" by (simp add: ip_eval)
  moreover have "py_casefold ''::ffff:0:0'' = ''::ffff:0:0''" by code_simp
  ultimately show "py_casefold (show_ip (V6 281470681743360 None)) = ''::ffff:0:0''" by simp
qed (simp_all add: default_protected class_eval)


section \<open>Sequences of operations\<close>

text \<open>
  An operation of some thread: an opening (with what the name service answers then), the exit of a held connection, a
  snapshot. Beside the guard go the number of held connections and the admissions so far, newest first.
\<close>

datatype guard_op = Open "pystr \<Rightarrow> lookup" rat pystr | Close | Snapshot rat

type_synonym guard_state = "net_guard \<times> nat \<times> (rat \<times> pystr) list"

fun guard_step :: "guard_op \<Rightarrow> guard_state \<Rightarrow> guard_state" where
  "guard_step (Open lookup now host) (g, held, hist) =
     (case open_connection lookup now host g of
        (g', Inl e) \<Rightarrow> (g', held, hist)
      | (g', Inr _) \<Rightarrow> (g', held + 1, (now, normalized_host host) # hist))"
| "guard_step Close (g, held, hist) = (if held = 0 then (g, held, hist) else (close_connection g, held - 1, hist))"
| "guard_step (Snapshot now) (g, held, hist) = (fst (snapshot_guard now g), held, hist)"

definition guard_run :: "guard_op list \<Rightarrow> net_guard \<Rightarrow> guard_state" where
  "guard_run ops g = fold guard_step ops (g, 0, [])"

definition budgets_ok :: "guard_policy \<Rightarrow> guard_state \<Rightarrow> bool" where
  "budgets_ok p s = (case s of (g, held, hist) \<Rightarrow>
     g_policy g = p \<and> validate_policy p = Inr () \<and> g_active g = int held \<and> int held \<le> gp_concurrent p \<and>
     0 \<le> w_count (g_global g) \<and> w_count (g_global g) \<le> gp_global p \<and>
     0 \<le> w_count (g_fanout g) \<and> w_count (g_fanout g) \<le> gp_distinct p \<and>
     distinct (map fst (g_targets g)) \<and> int (length (g_targets g)) \<le> gp_tracked p \<and>
     (\<forall>(k, w) \<in> set (g_targets g). 0 \<le> w_count w \<and> w_count w \<le> gp_target p))"

lemma roll_count: "w_count (roll w now) = (if rolls w now then 0 else w_count w)"
  by (simp add: roll_def new_window_def)

lemma cleanup_subset: "set (cleanup_targets p now ts) \<subseteq> set ts"
  by (auto simp: cleanup_targets_def Let_def)

lemma cleanup_length: "length (cleanup_targets p now ts) \<le> length ts"
  by (auto simp: cleanup_targets_def Let_def intro: order_trans [OF length_filter_le])

lemma distinct_map_filter_fst: "distinct (map fst ts) \<Longrightarrow> distinct (map fst (filter Q ts))"
  by (induction ts) auto

lemma cleanup_distinct: "distinct (map fst ts) \<Longrightarrow> distinct (map fst (cleanup_targets p now ts))"
  by (simp add: cleanup_targets_def Let_def distinct_map_filter_fst)

text \<open>Below the tracking limit a cleanup only drops targets that were not used for two minutes.\<close>

lemma cleanup_within: "int (length ts) \<le> gp_tracked p \<Longrightarrow>
    cleanup_targets p now ts = filter (\<lambda>(k, w). \<not> 120 \<le> now - last_use w) ts"
proof -
  let ?kept = "filter (\<lambda>(k, w). \<not> 120 \<le> now - last_use w) ts"
  assume "int (length ts) \<le> gp_tracked p"
  then have "int (length ?kept) \<le> gp_tracked p" by (meson length_filter_le of_nat_mono order_trans)
  then show ?thesis by (simp only: cleanup_targets_def Let_def if_True)
qed

lemma roll_windows_budgets:
  assumes "budgets_ok p (g, held, hist)"
  shows "budgets_ok p (roll_windows now g, held, hist)"
  using assms cleanup_subset [of p now "g_targets g"] cleanup_length [of p now "g_targets g"]
    cleanup_distinct [of "g_targets g" p now]
  by (fastforce simp: budgets_ok_def roll_windows_def roll_count Let_def)

lemma updated_target_member: "(k, w) \<in> set (AList.update n v ts) \<Longrightarrow> (k = n \<and> w = v) \<or> (k, w) \<in> set ts"
  by (induction ts) (auto split: if_splits)

lemma updated_target_length: "n \<in> fst ` set ts \<Longrightarrow> length (AList.update n v ts) = length ts"
  by (induction ts) auto

lemma set_target_budgets:
  assumes "budgets_ok p (g, held, hist)" "map_of (g_targets g) name \<noteq> None" "0 \<le> w_count w" "w_count w \<le> gp_target p"
  shows "budgets_ok p (set_target name w g, held, hist)"
proof -
  from assms(2) have "name \<in> fst ` set (g_targets g)" by (metis map_of_eq_None_iff)
  with assms updated_target_length [OF this] show ?thesis
    by (auto simp: budgets_ok_def set_target_def distinct_update dest!: updated_target_member)
qed


lemma track_budgets:
  assumes "budgets_ok p (g, held, hist)" "track_target now name g = (g', r)"
  shows "budgets_ok p (g', held, hist) \<and> (r = Inr () \<longrightarrow> map_of (g_targets g') name \<noteq> None)"
proof -
  let ?g1 = "if gp_tracked p \<le> int (length (g_targets g)) then g\<lparr>g_targets := cleanup_targets p now (g_targets g)\<rparr> else g"
  have p: "g_policy g = p" using assms(1) by (simp add: budgets_ok_def)
  have g1: "budgets_ok p (?g1, held, hist)"
    using assms(1) cleanup_subset [of p now "g_targets g"] cleanup_length [of p now "g_targets g"]
      cleanup_distinct [of "g_targets g" p now]
    by (fastforce simp: budgets_ok_def)
  consider "map_of (g_targets g) name \<noteq> None" "g' = g"
    | "g' = g" "r \<noteq> Inr ()" | "g' = ?g1" "r \<noteq> Inr ()"
    | "map_of (g_targets g) name = None" "w_count (g_fanout g) < gp_distinct p" "int (length (g_targets ?g1)) < gp_tracked p"
      "g' = ?g1\<lparr>g_targets := g_targets ?g1 @ [(name, new_window now)], g_fanout := bump_window (g_fanout ?g1)\<rparr>"
    using assms(2) by (auto simp: track_target_def Let_def p split: if_splits)
  then show ?thesis
  proof cases
    case 4
    have "set (g_targets ?g1) \<subseteq> set (g_targets g)" using cleanup_subset [of p now "g_targets g"] by auto
    then have new: "name \<notin> fst ` set (g_targets ?g1)" using 4(1) by (auto simp: map_of_eq_None_iff)
    have t: "0 \<le> gp_target p" using assms(1) by (simp add: budgets_ok_def validate_policy_def)
    obtain h where h: "h = ?g1" by blast
    have b: "budgets_ok p (h, held, hist)" unfolding h by (rule g1)
    have n: "name \<notin> fst ` set (g_targets h)" unfolding h by (rule new)
    have l: "int (length (g_targets h)) < gp_tracked p" unfolding h by (rule 4(3))
    have f: "w_count (g_fanout h) < gp_distinct p" using 4(2) by (simp add: h)
    have g': "g' = h\<lparr>g_targets := g_targets h @ [(name, new_window now)], g_fanout := bump_window (g_fanout h)\<rparr>"
      using 4(4) by (simp only: h)
    have "map_of (g_targets g') name \<noteq> None" by (simp add: g' map_of_eq_None_iff)
    moreover have "budgets_ok p (g', held, hist)"
      using b n l f t unfolding budgets_ok_def g' by (auto simp: bump_window_def new_window_def)
    ultimately show ?thesis by simp
  qed (use assms(1) g1 in auto)
qed

text \<open>The outcomes of a charge: refused with the target's window rolled, or counted.\<close>

lemma charge_cases [consumes 2]:
  assumes "charge now name g = (g', r)" "g_policy g = p"
  obtains e where "g' = set_target name (roll (target_of g name) now) g" "r = Inl e"
    | g1 w where "g1 = set_target name w g" "w = roll (target_of g name) now" "r = Inr ()"
      "g_active g1 < gp_concurrent p" "w_count (g_global g1) < gp_global p" "w_count w < gp_target p"
      "g' = set_target name ((bump_window w)\<lparr>w_seen := now\<rparr>) (g1\<lparr>g_active := g_active g1 + 1, g_global := bump_window (g_global g1)\<rparr>)"
proof -
  obtain w where w: "w = roll (target_of g name) now" by blast
  obtain g1 where g1: "g1 = set_target name w g" by blast
  have t1: "target_of g1 name = w" by (simp add: g1 target_of_def set_target_def update_conv')
  note c = assms(1) [unfolded charge_def Let_def assms(2), folded w, folded g1, unfolded t1]
  show thesis
  proof (cases "r = Inr ()")
    case True
    with c that(2) [OF g1 w] show thesis by (auto split: if_splits)
  next
    case False
    then obtain e where "r = Inl e" by (cases r) auto
    moreover from this c have "g' = g1" by (auto split: if_splits)
    ultimately show thesis using that(1) g1 w by simp
  qed
qed

lemma charge_budgets:
  assumes "budgets_ok p (g, held, hist)" "map_of (g_targets g) name \<noteq> None" "charge now name g = (g', r)"
  shows "budgets_ok p (g', if r = Inr () then held + 1 else held, hist')"
proof -
  let ?w = "roll (target_of g name) now" and ?g1 = "set_target name (roll (target_of g name) now) g"
  have p: "g_policy g = p" using assms(1) by (simp add: budgets_ok_def)
  from assms(2) obtain w where w: "map_of (g_targets g) name = Some w" by blast
  then have "(name, w) \<in> set (g_targets g)" by (rule map_of_SomeD)
  then have c: "0 \<le> w_count w" "w_count w \<le> gp_target p" using assms(1) by (auto simp: budgets_ok_def)
  have t: "0 \<le> gp_target p" using assms(1) by (simp add: budgets_ok_def validate_policy_def)
  have g1: "budgets_ok p (?g1, held, hist)"
    using c t by (intro set_target_budgets assms(1,2)) (simp_all add: target_of_def w roll_count)
  have k1: "map_of (g_targets ?g1) name = Some ?w" by (simp add: set_target_def update_conv')
  then have t1: "target_of ?g1 name = ?w" by (simp add: target_of_def)
  from assms(3) p show ?thesis
  proof (cases rule: charge_cases)
    case (1 e)
    with g1 show ?thesis by (simp add: budgets_ok_def)
  next
    case (2 h v)
    then have h: "h = ?g1" by simp
    have "budgets_ok p (h\<lparr>g_active := g_active h + 1, g_global := bump_window (g_global h)\<rparr>, held + 1, hist')"
      using g1 2(4,5) by (simp add: budgets_ok_def bump_window_def flip: h)
    moreover have "map_of (g_targets (h\<lparr>g_active := g_active h + 1, g_global := bump_window (g_global h)\<rparr>)) name \<noteq> None"
      using k1 by (simp add: h)
    moreover have "0 \<le> w_count v" using c 2(2) by (simp add: roll_count target_of_def w)
    ultimately have "budgets_ok p (g', held + 1, hist')"
      unfolding 2(7) using 2(6) by (intro set_target_budgets) (simp_all add: bump_window_def)
    then show ?thesis using 2(3) by simp
  qed
qed

lemma admit_budgets:
  assumes "budgets_ok p (g, held, hist)" "admit now name g = (g', r)"
  shows "budgets_ok p (g', if r = Inr () then held + 1 else held, hist')"
proof -
  have w: "budgets_ok p (roll_windows now g, held, hist)" by (rule roll_windows_budgets) (rule assms(1))
  obtain g1 r1 where t: "track_target now name (roll_windows now g) = (g1, r1)" by fastforce
  from track_budgets [OF w t] have g1: "budgets_ok p (g1, held, hist)" "r1 = Inr () \<longrightarrow> map_of (g_targets g1) name \<noteq> None" by simp_all
  show ?thesis
  proof (cases r1)
    case (Inl e)
    with t assms(2) g1 show ?thesis by (auto simp: admit_def budgets_ok_def)
  next
    case (Inr u)
    then have "charge now name g1 = (g', r)" using t assms(2) by (simp add: admit_def)
    with g1 Inr show ?thesis by (intro charge_budgets) simp_all
  qed
qed

text \<open>What an opening does to an enabled guard: nothing, or an admission attempt that decides its result.\<close>

lemma open_cases [consumes 2]:
  assumes "open_connection lookup now host g = (g', r)" "gp_enabled (g_policy g)"
  obtains e where "g' = g" "r = Inl e"
    | e where "admit now (normalized_host host) g = (g', Inl e)" "r = Inl e"
    | addrs where "admit now (normalized_host host) g = (g', Inr ())" "r = Inr (map show_ip addrs)"
proof (cases "ebind (resolve_host (g_policy g) lookup host)
    (\<lambda>addrs. ebind (validate_addresses (g_policy g) (normalized_host host) addrs) (\<lambda>_. Inr addrs))")
  case (Inl e)
  with assms have "g' = g" "r = Inl e" by (simp_all add: open_connection_def Let_def)
  then show thesis by (rule that(1))
next
  case (Inr addrs)
  obtain g1 r1 where a: "admit now (normalized_host host) g = (g1, r1)" by fastforce
  show thesis
  proof (cases r1)
    case (Inl e)
    with a assms Inr have "admit now (normalized_host host) g = (g', Inl e)" "r = Inl e"
      by (simp_all add: open_connection_def Let_def del: ebind_Inr_iff)
    then show thesis by (rule that(2))
  next
    case (Inr u)
    with a assms \<open>ebind _ _ = Inr addrs\<close> have "admit now (normalized_host host) g = (g', Inr ())" "r = Inr (map show_ip addrs)"
      by (simp_all add: open_connection_def Let_def del: ebind_Inr_iff)
    then show thesis by (rule that(3))
  qed
qed

lemma step_budgets:
  assumes "budgets_ok p s" "gp_enabled p"
  shows "budgets_ok p (guard_step op s)"
proof -
  obtain g held hist where s: "s = (g, held, hist)" by (cases s) auto
  with assms(1) have b: "budgets_ok p (g, held, hist)" and p: "g_policy g = p" by (auto simp: budgets_ok_def)
  show ?thesis
  proof (cases op)
    case (Open lookup now host)
    obtain g' r where o: "open_connection lookup now host g = (g', r)" by fastforce
    moreover have "gp_enabled (g_policy g)" using p assms(2) by simp
    ultimately show ?thesis
    proof (cases rule: open_cases)
      case (1 e)
      with Open o b show ?thesis by (simp add: s)
    next
      case (2 e)
      from admit_budgets [OF b 2(1), of hist] Open o 2 show ?thesis by (simp add: s)
    next
      case (3 addrs)
      from admit_budgets [OF b 3(1), of "(now, normalized_host host) # hist"] Open o 3 show ?thesis by (simp add: s)
    qed
  next
    case Close
    with b p assms(2) show ?thesis by (auto simp: s budgets_ok_def close_connection_def)
  next
    case (Snapshot now)
    have "budgets_ok p (g\<lparr>g_targets := cleanup_targets (g_policy g) now (g_targets g)\<rparr>, held, hist)"
      using b cleanup_subset [of p now "g_targets g"] cleanup_length [of p now "g_targets g"]
        cleanup_distinct [of "g_targets g" p now] p
      by (fastforce simp: budgets_ok_def)
    with Snapshot p show ?thesis by (simp add: s snapshot_guard_def Let_def budgets_ok_def roll_count)
  qed
qed

lemma new_guard_budgets: "new_guard p now = Inr g \<Longrightarrow> budgets_ok p (g, 0, [])"
  by (auto simp: new_guard_def budgets_ok_def new_window_def validate_policy_def)

lemma run_budgets: "new_guard p t0 = Inr g \<Longrightarrow> gp_enabled p \<Longrightarrow> budgets_ok p (guard_run ops g)"
proof -
  assume "new_guard p t0 = Inr g" and e: "gp_enabled p"
  then have "budgets_ok p (g, 0, [])" by (simp add: new_guard_budgets)
  then have "budgets_ok p (fold guard_step ops s)" if "s = (g, 0, [])" for s
    using that by (induction ops arbitrary: s rule: rev_induct) (auto intro: step_budgets e)
  then show ?thesis by (simp add: guard_run_def)
qed


text \<open>C14: Whatever connections are opened, refused and closed and whatever snapshots are taken, in any order and with any
  readings of the clock: the guard counts exactly the held connections, there are at most \<open>max_concurrent_connections\<close> of
  them, and every count stays within its limit: the connections of the current window, the new targets of the window, the
  connections of each target, and the targets that are tracked, each of them once.\<close>

theorem guard_budgets:
  assumes "new_guard p t0 = Inr g" and "gp_enabled p"
  shows "budgets_ok p (guard_run ops g)"
  using assms by (rule run_budgets)

definition ex_small :: guard_policy where
  "ex_small = default_guard_policy\<lparr>gp_concurrent := 3, gp_global := 2, gp_target := 4, gp_distinct := 1, gp_tracked := 2\<rparr>"

text \<open>Literal addresses as hosts need no name service.\<close>

definition ex_open_op :: "rat \<Rightarrow> guard_op" where
  "ex_open_op now = Open ex_names now ''h''"

theorem guard_budgets_witness:
  "\<exists>g. new_guard ex_small 0 = Inr g \<and> budgets_ok ex_small (guard_run [ex_open_op 0, ex_open_op 59, Close, Snapshot 60] g)"
proof -
  have "\<exists>g. new_guard ex_small 0 = Inr g" "gp_enabled ex_small"
    by (simp_all add: new_guard_def validate_policy_def ex_small_def default_guard_policy_def)
  then show ?thesis using guard_budgets by blast
qed

section \<open>Rates\<close>

text \<open>
  The admissions of one kind, cut into the windows they fell into, newest first: at most \<open>limit\<close> in each, within sixty
  seconds from its start, and the windows do not overlap.
\<close>

fun windowed :: "int \<Rightarrow> (rat \<times> rat list) list \<Rightarrow> bool" where
  "windowed limit [] = True"
| "windowed limit ((s, A) # ws) \<longleftrightarrow> int (length A) \<le> limit \<and> (\<forall>a \<in> set A. s \<le> a \<and> a < s + 60) \<and>
     (ws = [] \<or> fst (hd ws) + 60 \<le> s) \<and> windowed limit ws"

definition in_minute :: "rat \<Rightarrow> rat \<Rightarrow> bool" where
  "in_minute x a \<longleftrightarrow> x \<le> a \<and> a < x + 60"

lemma windowed_before: "windowed limit ws \<Longrightarrow> ws \<noteq> [] \<Longrightarrow> a \<in> set (concat (map snd ws)) \<Longrightarrow> a < fst (hd ws) + 60"
proof (induction limit ws rule: windowed.induct)
  case (2 limit s A ws)
  show ?case
  proof (cases "a \<in> set A")
    case False
    with 2(4) have a: "a \<in> set (concat (map snd ws))" by simp
    then have "ws \<noteq> []" by auto
    with 2(1) [OF _ _ a] 2(2) show ?thesis by fastforce
  qed (use 2 in auto)
qed simp

lemma filter_none: "(\<And>a. a \<in> set xs \<Longrightarrow> \<not> Q a) \<Longrightarrow> filter Q xs = []"
  by (simp add: filter_empty_conv)

lemma windowed_minute:
  assumes "windowed limit ws" "0 \<le> limit"
  shows "int (count_where (in_minute x) (concat (map snd ws))) \<le> 2 * limit \<and>
    (ws \<noteq> [] \<longrightarrow> fst (hd ws) \<le> x \<longrightarrow> int (count_where (in_minute x) (concat (map snd ws))) \<le> limit)"
  using assms
proof (induction limit ws rule: windowed.induct)
  case (2 limit s A ws)
  then have w: "windowed limit ws" and A: "int (length A) \<le> limit" "\<forall>a \<in> set A. s \<le> a \<and> a < s + 60"
    and hd: "ws = [] \<or> fst (hd ws) + 60 \<le> s" by auto
  note IH = 2(1) [OF w 2(3)]
  have cA: "int (count_where (in_minute x) A) \<le> limit"
    using A(1) length_filter_le [of "in_minute x" A] unfolding count_where_def by linarith
  have late: "count_where (in_minute x) (concat (map snd ws)) = 0" if "s \<le> x"
  proof (cases "ws = []")
    case False
    have "\<not> in_minute x a" if "a \<in> set (concat (map snd ws))" for a
      using windowed_before [OF w False that] hd False \<open>s \<le> x\<close> by (auto simp: in_minute_def)
    then show ?thesis by (simp add: count_where_zero)
  qed simp
  have early: "count_where (in_minute x) A = 0" if "x + 60 \<le> s"
    using A that by (auto simp: count_where_zero in_minute_def)
  consider "s \<le> x" | "x + 60 \<le> s" | "ws = []" | "x < s" "s < x + 60" "ws \<noteq> []" by linarith
  then show ?case
  proof cases
    case 1
    with late cA 2(3) show ?thesis by simp
  next
    case 2
    with early IH show ?thesis by auto
  next
    case 3
    with cA \<open>0 \<le> limit\<close> show ?thesis by simp
  next
    case 4
    with hd have "fst (hd ws) \<le> x" by auto
    with IH 4 cA show ?thesis by auto
  qed
qed simp

text \<open>The window of a guard beside the admissions it and its predecessors counted.\<close>

definition covers :: "int \<Rightarrow> net_window \<Rightarrow> rat list \<Rightarrow> bool" where
  "covers limit w ts \<longleftrightarrow> (\<exists>A ws. windowed limit ((w_started w, A) # ws) \<and> A @ concat (map snd ws) = ts \<and> int (length A) = w_count w)"

definition retired :: "int \<Rightarrow> rat \<Rightarrow> rat list \<Rightarrow> bool" where
  "retired limit clock ts \<longleftrightarrow> (\<exists>ws. windowed limit ws \<and> concat (map snd ws) = ts \<and> (ws = [] \<or> fst (hd ws) + 60 \<le> clock))"

lemma coversE:
  assumes "covers limit w ts"
  obtains A ws where "windowed limit ((w_started w, A) # ws)" "ts = A @ concat (map snd ws)" "int (length A) = w_count w"
  using assms unfolding covers_def by blast

lemma retiredE:
  assumes "retired limit clock ts"
  obtains ws where "windowed limit ws" "ts = concat (map snd ws)" "ws = [] \<or> fst (hd ws) + 60 \<le> clock"
  using assms unfolding retired_def by blast

lemma covers_minute:
  assumes "covers limit w ts" "0 \<le> limit"
  shows "int (count_where (in_minute x) ts) \<le> 2 * limit"
proof -
  from assms(1) obtain A ws where "windowed limit ((w_started w, A) # ws)" "ts = A @ concat (map snd ws)" by (rule coversE)
  with windowed_minute [OF this(1) assms(2), of x] show ?thesis by simp
qed

lemma retired_minute:
  assumes "retired limit clock ts" "0 \<le> limit"
  shows "int (count_where (in_minute x) ts) \<le> 2 * limit"
proof -
  from assms(1) obtain ws where "windowed limit ws" "ts = concat (map snd ws)" by (rule retiredE)
  with windowed_minute [OF this(1) assms(2), of x] show ?thesis by simp
qed

lemma retired_new:
  assumes "retired limit clock ts" "clock \<le> now" "0 \<le> limit"
  shows "covers limit (new_window now) ts"
proof -
  from assms(1) obtain ws where "windowed limit ws" "ts = concat (map snd ws)" "ws = [] \<or> fst (hd ws) + 60 \<le> clock" by (rule retiredE)
  moreover from this(1,3) have "windowed limit ((now, []) # ws)" using assms(2,3) by (auto intro: order_trans)
  ultimately show ?thesis unfolding covers_def new_window_def by (intro exI [of _ "[] :: rat list"] exI [of _ ws]) simp
qed

lemma retired_mono:
  assumes "retired limit clock ts" "clock \<le> now"
  shows "retired limit now ts"
proof -
  from assms(1) obtain ws where "windowed limit ws" "ts = concat (map snd ws)" "ws = [] \<or> fst (hd ws) + 60 \<le> clock" by (rule retiredE)
  with assms(2) show ?thesis unfolding retired_def by (intro exI [of _ ws]) (auto intro: order_trans)
qed

lemma covers_retire:
  assumes "covers limit w ts" "w_started w + 60 \<le> clock"
  shows "retired limit clock ts"
proof -
  from assms(1) obtain A ws where "windowed limit ((w_started w, A) # ws)" "ts = A @ concat (map snd ws)" by (rule coversE)
  with assms(2) show ?thesis unfolding retired_def by (intro exI [of _ "(w_started w, A) # ws"]) simp
qed

lemma covers_roll:
  assumes "covers limit w ts" "0 \<le> limit"
  shows "covers limit (roll w now) ts"
proof (cases "rolls w now")
  case True
  then have "w_started w + 60 \<le> now" by (simp add: rolls_def)
  from retired_new [OF covers_retire [OF assms(1) this] order_refl assms(2)] True show ?thesis by (simp add: roll_def)
next
  case False
  with assms(1) show ?thesis by (simp add: roll_def covers_def)
qed

lemma covers_bump:
  assumes "covers limit w ts" "w_count w < limit" "w_started w \<le> now" "now < w_started w + 60"
  shows "covers limit (bump_window w) (now # ts)"
proof -
  from assms(1) obtain A ws where "windowed limit ((w_started w, A) # ws)" "ts = A @ concat (map snd ws)" "int (length A) = w_count w"
    by (rule coversE)
  with assms(2-4) have "windowed limit ((w_started w, now # A) # ws)" "(now # A) @ concat (map snd ws) = now # ts"
    "int (length (now # A)) = w_count (bump_window w)"
    by (simp_all add: bump_window_def)
  then show ?thesis unfolding covers_def by (intro exI [of _ "now # A"] exI [of _ ws]) (simp add: bump_window_def)
qed

lemma covers_seen [simp]: "covers limit (w\<lparr>w_seen := x\<rparr>) ts = covers limit w ts"
  by (simp add: covers_def)

section \<open>The rate invariant\<close>

definition times_of :: "pystr \<Rightarrow> (rat \<times> pystr) list \<Rightarrow> rat list" where
  "times_of k hist = map fst (filter (\<lambda>h. snd h = k) hist)"

text \<open>Every target is covered by its window or, when it is not tracked, retired at the time of the last operation.\<close>

definition target_rate :: "int \<Rightarrow> rat \<Rightarrow> (pystr \<times> net_window) list \<Rightarrow> (rat \<times> pystr) list \<Rightarrow> pystr \<Rightarrow> bool" where
  "target_rate limit clock targets hist k = (case map_of targets k of
     None \<Rightarrow> retired limit clock (times_of k hist)
   | Some w \<Rightarrow> covers limit w (times_of k hist) \<and> w_started w \<le> clock)"

definition rates_ok :: "guard_policy \<Rightarrow> rat \<Rightarrow> guard_state \<Rightarrow> bool" where
  "rates_ok p clock s = (case s of (g, held, hist) \<Rightarrow>
     covers (gp_global p) (g_global g) (map fst hist) \<and> w_started (g_global g) \<le> clock \<and>
     (\<forall>k. target_rate (gp_target p) clock (g_targets g) hist k))"

lemma target_rate_mono: "target_rate limit clock ts hist k \<Longrightarrow> clock \<le> now \<Longrightarrow> target_rate limit now ts hist k"
  by (auto simp: target_rate_def intro: retired_mono split: option.splits)

lemma roll_started: "w_started w \<le> now \<Longrightarrow> w_started (roll w now) \<le> now \<and> now < w_started (roll w now) + 60"
  by (auto simp: roll_def rolls_def new_window_def)

lemma map_of_filter: "distinct (map fst ts) \<Longrightarrow>
    map_of (filter Q ts) k = (case map_of ts k of None \<Rightarrow> None | Some w \<Rightarrow> if Q (k, w) then Some w else None)"
  by (induction ts) (auto simp: map_of_eq_None_iff split: option.splits dest: map_of_SomeD)

text \<open>A target a cleanup drops has had no connection for two minutes.\<close>

lemma cleanup_rate:
  assumes "target_rate limit now ts hist k" "distinct (map fst ts)" "int (length ts) \<le> gp_tracked p"
  shows "target_rate limit now (cleanup_targets p now ts) hist k"
proof (cases "map_of ts k")
  case None
  with assms show ?thesis by (simp add: target_rate_def cleanup_within map_of_filter)
next
  case (Some w)
  have "retired limit now (times_of k hist)" if "120 \<le> now - last_use w"
  proof (rule covers_retire)
    show "covers limit w (times_of k hist)" using assms(1) Some by (simp add: target_rate_def)
    show "w_started w + 60 \<le> now" using that by (simp add: last_use_def max_def split: if_splits)
  qed
  with assms Some show ?thesis by (simp add: target_rate_def cleanup_within map_of_filter)
qed


lemma rates_target: "rates_ok p clock (g, held, hist) \<Longrightarrow> target_rate (gp_target p) clock (g_targets g) hist k"
  by (simp add: rates_ok_def)

lemma rates_held: "rates_ok p clock (g, held, hist) \<Longrightarrow> rates_ok p clock (g, held', hist)"
  by (auto simp: rates_ok_def)

lemma rates_okI:
  "covers (gp_global p) (g_global g) (map fst hist) \<Longrightarrow> w_started (g_global g) \<le> clock \<Longrightarrow>
    (\<And>k. target_rate (gp_target p) clock (g_targets g) hist k) \<Longrightarrow> rates_ok p clock (g, held, hist)"
  unfolding rates_ok_def by blast

lemma roll_windows_rates:
  assumes "rates_ok p clock (g, held, hist)" "clock \<le> now" "budgets_ok p (g, held, hist)"
  shows "rates_ok p now (roll_windows now g, held, hist) \<and> now < w_started (g_global (roll_windows now g)) + 60"
proof -
  have l: "0 \<le> gp_global p" using assms(3) by (simp add: budgets_ok_def validate_policy_def)
  have s: "w_started (g_global g) \<le> now" using assms(1,2) by (simp add: rates_ok_def)
  have t: "target_rate (gp_target p) now (g_targets g) hist k" for k
    by (rule target_rate_mono [OF rates_target [OF assms(1)] assms(2)])
  have "target_rate (gp_target p) now (cleanup_targets p now (g_targets g)) hist k" for k
    using assms(3) by (intro cleanup_rate t) (simp_all add: budgets_ok_def)
  moreover have "g_policy g = p" using assms(3) by (simp add: budgets_ok_def)
  ultimately show ?thesis
    using assms(1) l t roll_started [OF s]
    by (intro conjI rates_okI) (simp_all add: rates_ok_def roll_windows_def Let_def covers_roll)
qed

lemma track_rates:
  assumes "rates_ok p now (g, held, hist)" "budgets_ok p (g, held, hist)" "track_target now name g = (g', r)"
  shows "rates_ok p now (g', held, hist) \<and> g_global g' = g_global g"
proof -
  let ?g1 = "if gp_tracked p \<le> int (length (g_targets g)) then g\<lparr>g_targets := cleanup_targets p now (g_targets g)\<rparr> else g"
  have p: "g_policy g = p" and l: "0 \<le> gp_target p" using assms(2) by (simp_all add: budgets_ok_def validate_policy_def)
  have t: "target_rate (gp_target p) now (g_targets g) hist k" for k using assms(1) by (simp add: rates_ok_def)
  have t1: "target_rate (gp_target p) now (g_targets ?g1) hist k" for k
    using t assms(2) by (auto simp: budgets_ok_def intro!: cleanup_rate)
  have gg: "g_global ?g1 = g_global g" by simp
  have "rates_ok p now (?g1, held, hist)" using assms(1) by (intro rates_okI t1) (simp_all add: gg rates_ok_def)
  note g1 = this gg
  consider "g' = g" | "g' = ?g1"
    | "map_of (g_targets g) name = None"
      "g' = ?g1\<lparr>g_targets := g_targets ?g1 @ [(name, new_window now)], g_fanout := bump_window (g_fanout ?g1)\<rparr>"
    using assms(3) by (auto simp: track_target_def Let_def p split: if_splits)
  then show ?thesis
  proof cases
    case 3
    obtain h where h: "h = ?g1" by blast
    have "set (g_targets ?g1) \<subseteq> set (g_targets g)" using cleanup_subset [of p now "g_targets g"] by auto
    then have new: "map_of (g_targets h) name = None" using 3(1) unfolding h by (auto simp: map_of_eq_None_iff)
    have hr: "rates_ok p now (h, held, hist)" "g_global h = g_global g" unfolding h by (rule g1)+
    have g': "g' = h\<lparr>g_targets := g_targets h @ [(name, new_window now)], g_fanout := bump_window (g_fanout h)\<rparr>"
      using 3(2) by (simp only: h)
    have "target_rate (gp_target p) now (g_targets h @ [(name, new_window now)]) hist k" for k
    proof (cases "k = name")
      case True
      have "retired (gp_target p) now (times_of name hist)" using rates_target [OF hr(1), of name] new by (simp add: target_rate_def)
      then have "covers (gp_target p) (new_window now) (times_of name hist)" by (rule retired_new) (simp_all add: l)
      then show ?thesis using True new by (simp add: target_rate_def map_add_def) (simp add: new_window_def)
    next
      case False
      then show ?thesis using rates_target [OF hr(1), of k] by (simp add: target_rate_def map_add_def split: option.splits)
    qed
    then have "rates_ok p now (g', held, hist)" using hr by (intro rates_okI) (simp_all add: rates_ok_def g')
    then show ?thesis using hr(2) by (simp add: g')
  qed (use assms(1) g1 in simp_all)
qed

lemma set_target_rates:
  assumes "rates_ok p now (g, held, hist)" "covers (gp_target p) w (times_of name hist)" "w_started w \<le> now"
  shows "rates_ok p now (set_target name w g, held, hist)"
proof (rule rates_okI)
  fix k
  show "target_rate (gp_target p) now (g_targets (set_target name w g)) hist k"
    using rates_target [OF assms(1), of k] assms(2,3) by (simp add: set_target_def target_rate_def update_conv')
qed (use assms(1) in \<open>simp_all add: rates_ok_def set_target_def\<close>)

lemma charge_rates:
  assumes "rates_ok p now (g, held, hist)" "budgets_ok p (g, held, hist)" "map_of (g_targets g) name \<noteq> None"
    "now < w_started (g_global g) + 60" "charge now name g = (g', r)"
  shows "rates_ok p now (g', held', if r = Inr () then (now, name) # hist else hist)"
proof -
  let ?w = "roll (target_of g name) now" and ?g1 = "set_target name (roll (target_of g name) now) g"
  have p: "g_policy g = p" and l: "0 \<le> gp_target p" using assms(2) by (simp_all add: budgets_ok_def validate_policy_def)
  from assms(3) obtain w where w: "map_of (g_targets g) name = Some w" by blast
  then have c: "covers (gp_target p) w (times_of name hist)" "w_started w \<le> now"
    using rates_target [OF assms(1), of name] by (simp_all add: target_rate_def)
  have tw: "target_of g name = w" by (simp add: target_of_def w)
  have cw: "covers (gp_target p) ?w (times_of name hist)" using c l by (simp add: tw covers_roll)
  have sw: "w_started ?w \<le> now" "now < w_started ?w + 60" using roll_started [OF c(2)] by (simp_all add: tw)
  have g1: "rates_ok p now (?g1, held, hist)" using cw sw by (intro set_target_rates assms(1)) simp_all
  have t1: "target_of ?g1 name = ?w" by (simp add: target_of_def set_target_def update_conv')
  from assms(5) p show ?thesis
  proof (cases rule: charge_cases)
    case (1 e)
    with rates_held [OF g1] show ?thesis by simp
  next
    case (2 h v)
    then have h: "h = ?g1" and v: "v = ?w" by simp_all
    let ?hist = "(now, name) # hist"
    have gl: "g_global h = g_global g" by (simp add: h set_target_def)
    have "covers (gp_global p) (g_global g) (map fst hist)" "w_started (g_global g) \<le> now"
      using assms(1) by (simp_all add: rates_ok_def)
    from covers_bump [OF this(1) _ this(2) assms(4)] 2(5)
    have gc: "covers (gp_global p) (bump_window (g_global g)) (map fst ?hist)" by (simp add: gl)
    have tc: "covers (gp_target p) (bump_window ?w) (times_of name ?hist)"
      using covers_bump [OF cw 2(6) [unfolded v] sw] by (simp add: times_of_def)
    have other: "target_rate (gp_target p) now (g_targets g) ?hist k" if "k \<noteq> name" for k
    proof -
      have "times_of k ?hist = times_of k hist" using that by (simp add: times_of_def)
      with rates_target [OF assms(1), of k] show ?thesis by (simp add: target_rate_def split: option.splits)
    qed
    have started: "w_started (bump_window ?w) \<le> now" "w_started (bump_window (g_global g)) \<le> now"
      using sw assms(1) by (simp_all add: bump_window_def rates_ok_def)
    have "rates_ok p now (g', held', ?hist)"
    proof (rule rates_okI)
      fix k
      show "target_rate (gp_target p) now (g_targets g') ?hist k"
      proof (cases "k = name")
        case True
        then show ?thesis using tc started by (simp add: 2(7) h v set_target_def target_rate_def update_conv')
      next
        case False
        then show ?thesis using other [OF False] by (simp add: 2(7) h v set_target_def target_rate_def update_conv')
      qed
    qed (use gc started in \<open>simp_all add: 2(7) h set_target_def\<close>)
    then show ?thesis using 2(3) by simp
  qed
qed

lemma admit_rates:
  assumes "rates_ok p clock (g, held, hist)" "clock \<le> now" "budgets_ok p (g, held, hist)" "admit now name g = (g', r)"
  shows "rates_ok p now (g', held', if r = Inr () then (now, name) # hist else hist)"
proof -
  let ?g0 = "roll_windows now g"
  have b0: "budgets_ok p (?g0, held, hist)" by (rule roll_windows_budgets) (rule assms(3))
  from roll_windows_rates [OF assms(1-3)] have r0: "rates_ok p now (?g0, held, hist)" "now < w_started (g_global ?g0) + 60" by simp_all
  obtain g1 r1 where t: "track_target now name ?g0 = (g1, r1)" by fastforce
  from track_budgets [OF b0 t] track_rates [OF r0(1) b0 t]
  have g1: "budgets_ok p (g1, held, hist)" "r1 = Inr () \<longrightarrow> map_of (g_targets g1) name \<noteq> None"
    "rates_ok p now (g1, held, hist)" "g_global g1 = g_global ?g0" by simp_all
  show ?thesis
  proof (cases r1)
    case (Inl e)
    with t assms(4) g1(3) show ?thesis by (auto simp: admit_def rates_ok_def)
  next
    case (Inr u)
    then have "charge now name g1 = (g', r)" using t assms(4) by (simp add: admit_def)
    with g1 r0 Inr show ?thesis by (intro charge_rates) simp_all
  qed
qed


text \<open>The readings of the clock in the order of the operations.\<close>

fun clocked :: "rat \<Rightarrow> guard_op list \<Rightarrow> bool" where
  "clocked t [] = True"
| "clocked t (Open lookup now host # ops) \<longleftrightarrow> t \<le> now \<and> clocked now ops"
| "clocked t (Snapshot now # ops) \<longleftrightarrow> t \<le> now \<and> clocked now ops"
| "clocked t (Close # ops) \<longleftrightarrow> clocked t ops"

fun op_clock :: "guard_op \<Rightarrow> rat \<Rightarrow> rat" where
  "op_clock (Open lookup now host) t = now"
| "op_clock (Snapshot now) t = now"
| "op_clock Close t = t"

lemma rates_mono: "rates_ok p clock s \<Longrightarrow> clock \<le> now \<Longrightarrow> rates_ok p now s"
  by (cases s) (auto simp: rates_ok_def intro: target_rate_mono)

lemma step_rates:
  assumes "rates_ok p clock s" "budgets_ok p s" "gp_enabled p" "clock \<le> op_clock op clock"
  shows "rates_ok p (op_clock op clock) (guard_step op s)"
proof -
  obtain g held hist where s: "s = (g, held, hist)" by (cases s) auto
  have r: "rates_ok p clock (g, held, hist)" and b: "budgets_ok p (g, held, hist)" and p: "g_policy g = p"
    using assms(1,2) by (auto simp: s budgets_ok_def)
  show ?thesis
  proof (cases op)
    case (Open lookup now host)
    have c: "clock \<le> now" using assms(4) Open by simp
    obtain g' q where o: "open_connection lookup now host g = (g', q)" by fastforce
    moreover have "gp_enabled (g_policy g)" using p assms(3) by simp
    ultimately show ?thesis
    proof (cases rule: open_cases)
      case (1 e)
      with rates_mono [OF r c] Open o show ?thesis by (simp add: s)
    next
      case (2 e)
      from admit_rates [OF r c b 2(1), of held] Open o 2 show ?thesis by (simp add: s)
    next
      case (3 addrs)
      from admit_rates [OF r c b 3(1), of "held + 1"] Open o 3 show ?thesis by (simp add: s)
    qed
  next
    case Close
    have "rates_ok p clock (close_connection g, held - 1, hist)"
      using r by (intro rates_okI) (auto simp: close_connection_def rates_ok_def)
    with rates_held [OF r] Close show ?thesis by (cases "held = 0") (simp_all add: s)
  next
    case (Snapshot now)
    have l: "0 \<le> gp_global p" using b by (simp add: budgets_ok_def validate_policy_def)
    have c: "clock \<le> now" using assms(4) Snapshot by simp
    have "target_rate (gp_target p) now (cleanup_targets p now (g_targets g)) hist k" for k
      using b by (intro cleanup_rate target_rate_mono [OF rates_target [OF r] c]) (simp_all add: budgets_ok_def)
    moreover have "w_started (g_global g) \<le> now" using r c by (simp add: rates_ok_def)
    ultimately have "rates_ok p now (fst (snapshot_guard now g), held, hist)"
      using r l roll_started [of "g_global g" now]
      by (intro rates_okI) (simp_all add: snapshot_guard_def Let_def p rates_ok_def covers_roll)
    then show ?thesis using Snapshot by (simp add: s)
  qed
qed

lemma run_rates:
  assumes "rates_ok p clock s" "budgets_ok p s" "gp_enabled p" "clocked clock ops"
  shows "\<exists>clock'. rates_ok p clock' (fold guard_step ops s)"
  using assms
proof (induction ops arbitrary: clock s)
  case (Cons op ops)
  have "clock \<le> op_clock op clock" "clocked (op_clock op clock) ops" using Cons.prems(4) by (cases op; simp)+
  with Cons.IH [OF step_rates step_budgets] Cons.prems show ?case by simp
qed auto

lemma new_guard_rates: "new_guard p t0 = Inr g \<Longrightarrow> rates_ok p t0 (g, 0, [])"
proof -
  assume "new_guard p t0 = Inr g"
  then have l: "0 \<le> gp_global p" and g: "g_global g = new_window t0" "g_targets g = []"
    by (auto simp: new_guard_def validate_policy_def)
  have r: "retired limit t0 []" for limit unfolding retired_def by (intro exI [of _ "[]"]) simp
  from retired_new [OF r order_refl l] r show ?thesis
    by (intro rates_okI) (simp_all add: g target_rate_def times_of_def new_window_def)
qed



text \<open>Two connections at the end of one window and two at the start of the next: four within three seconds.\<close>

lemma ex_small_policy: "gp_enabled ex_small" "validate_policy ex_small = Inr ()" "gp_concurrent ex_small = 3" "gp_global ex_small = 2"
    "gp_target ex_small = 4" "gp_distinct ex_small = 1" "gp_tracked ex_small = 2" "gp_resolved ex_small = 16" "gp_private ex_small = False"
    "protected_names ex_small = protected_names default_guard_policy"
  by (simp_all add: ex_small_def default_guard_policy_def validate_policy_def protected_names_def)

lemma ex_open_small:
  assumes "g_policy g = ex_small" "normalized_host host = name" "name \<in> {''h'', ''i''}"
  shows "open_connection ex_names now host g = (case admit now name g of
      (g1, Inl e) \<Rightarrow> (g1, Inl e) | (g1, Inr _) \<Rightarrow> (g1, Inr [''203.0.113.1'']))"
proof -
  have n: "parse_ip name = None" "name \<noteq> []" using assms(3) by (auto simp: ip_eval)
  have c: "py_casefold ''203.0.113.1'' = ''203.0.113.1''" by code_simp
  have "resolve_host ex_small ex_names host = Inr [V4 3405803777]"
    using assms(3) n by (auto simp: resolve_host_def assms(2) is_protected_def ex_small_policy default_protected ex_parse ex_names_def Let_def)
  moreover have "validate_addresses ex_small name [V4 3405803777] = Inr ()"
    using assms(3) by (auto simp: validate_addresses_iff address_ok_def is_protected_def ex_small_policy default_protected
        ex_parse c class_eval simp del: validate_addresses.simps)
  ultimately show ?thesis
    by (simp add: open_connection_def assms(1,2) ex_small_policy ex_parse Let_def del: validate_addresses.simps
        split: prod.splits sum.splits)
qed

lemma ex_hosts: "normalized_host ''h'' = ''h''" "normalized_host ''i'' = ''i''"
  by code_simp+

definition ex_new :: net_guard where
  "ex_new = \<lparr>g_policy = ex_small, g_active = 0, g_global = new_window 0, g_fanout = new_window 0, g_targets = []\<rparr>"

lemma ex_new_guard: "new_guard ex_small 0 = Inr ex_new"
  by (simp add: new_guard_def ex_small_policy ex_new_def)

lemmas admit_eval = admit_def roll_windows_def track_target_def charge_def rolls_def roll_def new_window_def bump_window_def set_target_def
  target_of_def cleanup_targets_def last_use_def

lemma ex_burst: "\<exists>g held. guard_run [ex_open_op 58, ex_open_op 59, Close, ex_open_op 60, Close, ex_open_op 61] ex_new =
    (g, held, [(61, ''h''), (60, ''h''), (59, ''h''), (58, ''h'')])"
  by (simp add: guard_run_def ex_open_op_def ex_new_def ex_open_small ex_hosts admit_eval ex_small_policy close_connection_def Let_def)


text \<open>
  The budget of distinct targets counts new targets only: a target that is still tracked from the minute before costs
  nothing. With a budget of one, the window that starts at 60 sees two targets and counts one.
\<close>

lemma tracked_targets_uncounted:
  "\<exists>g held. guard_run [ex_open_op 0, Open ex_names 60 ''i'', ex_open_op 61] ex_new =
      (g, held, [(61, ''h''), (60, ''i''), (0, ''h'')]) \<and>
    gp_distinct (g_policy g) = 1 \<and> w_started (g_fanout g) = 60 \<and> w_count (g_fanout g) = 1"
  by (simp add: guard_run_def ex_open_op_def ex_new_def ex_open_small ex_hosts admit_eval ex_small_policy Let_def)

end
