(* ===== verification/DnsDecoder.thy ===== *)
theory DnsDecoder
  imports IpAddress TcpReassembly
begin

text \<open>
  The decoder of captured DNS messages of \<^verbatim>\<open>infrastructure/capture/protocol_dns.py\<close>. Bytes are words; text may hold any
  code point and is a list of numbers. Every access is modelled with the exception Python raises outside the bytes, and
  the dictionaries of the code are records and constructors, one for each set of keys. The digest of \<open>hashlib\<close> is the
  argument \<open>sha\<close>.
\<close>

unbundle bit_operations_syntax

datatype wire_fail = ValueFail | IndexFail | StructFail

type_synonym points = "nat list"

section \<open>Bytes and text\<close>

definition byte_at :: "bytes \<Rightarrow> nat \<Rightarrow> wire_fail + 8 word" where
  "byte_at data i = (if i < length data then Inr (data ! i) else Inl IndexFail)"

definition py_slice :: "'a list \<Rightarrow> nat \<Rightarrow> nat \<Rightarrow> 'a list" where
  "py_slice xs a b = take (b - a) (drop a xs)"

definition big_endian :: "bytes \<Rightarrow> nat" where
  "big_endian bs = from_digits 256 (map unat bs)"

text \<open>\<open>struct.unpack_from\<close> with big-endian fields of the given widths\<close>

fun fields_at :: "bytes \<Rightarrow> nat list \<Rightarrow> nat list" where
  "fields_at bs [] = []"
| "fields_at bs (w # ws) = big_endian (take w bs) # fields_at (drop w bs) ws"

definition unpack_from :: "nat list \<Rightarrow> bytes \<Rightarrow> nat \<Rightarrow> wire_fail + nat list" where
  "unpack_from ws data pos =
     (if length data < pos + sum_list ws then Inl StructFail else Inr (fields_at (drop pos data) ws))"

definition hex_text :: "bytes \<Rightarrow> pystr" where
  "hex_text bs = concat (map (\<lambda>b. [hex_digit (unat b div 16), hex_digit (unat b mod 16)]) bs)"

text \<open>
  UTF-8 with \<open>errors="replace"\<close>: after a lead byte come the continuation bytes it asks for, the first of them in a range of
  its own; a longest valid beginning that is not completed becomes one replacement character.
\<close>

definition REPLACEMENT :: nat where
  "REPLACEMENT = 65533"

definition utf8_lead :: "nat \<Rightarrow> (nat \<times> nat \<times> nat) option" where
  "utf8_lead b =
     (if 194 \<le> b \<and> b \<le> 223 then Some (1, 128, 191)
      else if b = 224 then Some (2, 160, 191)
      else if b = 237 then Some (2, 128, 159)
      else if 225 \<le> b \<and> b \<le> 239 then Some (2, 128, 191)
      else if b = 240 then Some (3, 144, 191)
      else if 241 \<le> b \<and> b \<le> 243 then Some (3, 128, 191)
      else if b = 244 then Some (3, 128, 143)
      else None)"

fun continuation :: "nat \<Rightarrow> nat \<Rightarrow> nat \<Rightarrow> nat list \<Rightarrow> nat list" where
  "continuation (Suc n) lo hi (b # bs) = (if lo \<le> b \<and> b \<le> hi then b # continuation n 128 191 bs else [])"
| "continuation n lo hi bs = []"

definition code_point :: "nat \<Rightarrow> nat list \<Rightarrow> nat" where
  "code_point lead cs = from_digits 64 (lead mod 2 ^ (6 - length cs) # map (\<lambda>c. c mod 64) cs)"

function utf8_replace :: "nat list \<Rightarrow> points" where
  "utf8_replace [] = []"
| "utf8_replace (b # bs) =
     (if b < 128 then b # utf8_replace bs
      else (case utf8_lead b of
          None \<Rightarrow> REPLACEMENT # utf8_replace bs
        | Some (n, lo, hi) \<Rightarrow>
            let cs = continuation n lo hi bs
            in (if length cs = n then code_point b cs else REPLACEMENT) # utf8_replace (drop (length cs) bs)))"
  by pat_completeness auto
termination by (relation "measure length") auto

definition decode_utf8 :: "bytes \<Rightarrow> points" where
  "decode_utf8 bs = utf8_replace (map unat bs)"

definition decode_ascii :: "bytes \<Rightarrow> points" where
  "decode_ascii bs = map (\<lambda>b. if unat b < 128 then unat b else REPLACEMENT) bs"

definition is_ascii :: "bytes \<Rightarrow> bool" where
  "is_ascii bs \<longleftrightarrow> list_all (\<lambda>b. unat b < 128) bs"

definition label_text :: "bytes \<Rightarrow> points" where
  "label_text raw = (if is_ascii raw then map unat raw else decode_utf8 raw)"

fun join_points :: "points list \<Rightarrow> points" where
  "join_points [] = []"
| "join_points [x] = x"
| "join_points (x # y # zs) = x @ 46 # join_points (y # zs)"

section \<open>Names\<close>

definition MAX_NAME_DEPTH :: nat where "MAX_NAME_DEPTH = 128"
definition MAX_NAME_CHARS :: nat where "MAX_NAME_CHARS = 255"

definition pointer_mark :: "8 word \<Rightarrow> bool" where
  "pointer_mark b \<longleftrightarrow> b AND 0xC0 = 0xC0"

definition pointer_value :: "8 word \<Rightarrow> 8 word \<Rightarrow> nat" where
  "pointer_value b c = push_bit 8 (unat (b AND 0x3F)) OR unat c"

definition name_chars :: "points list \<Rightarrow> nat" where
  "name_chars labels = sum_list (map (\<lambda>l. length l + 1) labels)"

fun name_loop :: "nat \<Rightarrow> bytes \<Rightarrow> nat \<Rightarrow> nat \<Rightarrow> bool \<Rightarrow> nat list \<Rightarrow> points list \<Rightarrow> wire_fail + (points \<times> nat)" where
  "name_loop 0 data position resume jumped seen labels = Inl ValueFail"
| "name_loop (Suc depth) data position resume jumped seen labels =
     (if length data \<le> position then Inl ValueFail
      else ebind (byte_at data position) (\<lambda>len.
        if len = 0 then
          Inr (take MAX_NAME_CHARS (join_points labels), if jumped then resume else position + 1)
        else if pointer_mark len then
          (if length data \<le> position + 1 then Inl ValueFail
           else ebind (byte_at data (position + 1)) (\<lambda>low.
             let pointer = pointer_value len low in
             if length data \<le> pointer \<or> pointer \<in> set seen then Inl ValueFail
             else name_loop depth data pointer (if jumped then resume else position + 2) True (pointer # seen) labels))
        else if len AND 0xC0 \<noteq> 0 then Inl ValueFail
        else
          (let start = position + 1; stop = start + unat len; labels' = labels @ [label_text (py_slice data start stop)] in
           if 63 < unat len \<or> length data < stop then Inl ValueFail
           else if MAX_NAME_CHARS < name_chars labels' then Inl ValueFail
           else name_loop depth data stop (if jumped then resume else stop) jumped seen labels')))"

definition dns_name :: "bytes \<Rightarrow> nat \<Rightarrow> wire_fail + (points \<times> nat)" where
  "dns_name data cursor = name_loop MAX_NAME_DEPTH data cursor cursor False [] []"

definition rdata_name :: "bytes \<Rightarrow> nat \<Rightarrow> nat \<Rightarrow> wire_fail + (points \<times> nat)" where
  "rdata_name data cursor limit = ebind (dns_name data cursor) (\<lambda>(name, resume).
     if limit < resume then Inl ValueFail else Inr (name, resume))"

section \<open>Service parameters\<close>

datatype svcb_value =
    SvMandatory "nat list"
  | SvAlpn "points list"
  | SvEnabled bool
  | SvPort nat
  | SvHints4 "pystr list"
  | SvHints6 "pystr list"
  | SvEch nat pystr
  | SvText points
  | SvGroups "pystr list"
  | SvHex pystr

record svcb_row =
  sv_key :: nat
  sv_name :: pystr
  sv_length :: nat
  sv_malformed :: bool
  sv_value :: svcb_value

definition svcb_key_name :: "nat \<Rightarrow> pystr" where
  "svcb_key_name k =
     (case map_of [(0, ''mandatory''), (1, ''alpn''), (2, ''no-default-alpn''), (3, ''port''), (4, ''ipv4hint''),
        (5, ''ech''), (6, ''ipv6hint''), (7, ''dohpath''), (8, ''ohttp''), (9, ''tls-supported-groups''),
        (10, ''docpath''), (11, ''pvd''), (12, ''oots'')] k of
      None \<Rightarrow> ''key'' @ show_nat k | Some s \<Rightarrow> s)"

definition chunks :: "nat \<Rightarrow> 'a list \<Rightarrow> 'a list list" where
  "chunks k xs = map (\<lambda>i. py_slice xs (i * k) (i * k + k)) [0..<length xs div k]"

fun alpn_list :: "nat \<Rightarrow> bytes \<Rightarrow> points list \<times> bool" where
  "alpn_list (Suc n) (s # bs) =
     (if s = 0 \<or> length bs < unat s then ([], True)
      else (let (rest, bad) = alpn_list n (drop (unat s) bs)
        in (take 255 (decode_ascii (take (unat s) bs)) # rest, bad)))"
| "alpn_list n bs = ([], False)"

definition read_svcb_row :: "(bytes \<Rightarrow> pystr) \<Rightarrow> nat \<Rightarrow> bytes \<Rightarrow> svcb_row" where
  "read_svcb_row sha key value =
     (let n = length value;
          row = (\<lambda>bad v. \<lparr>sv_key = key, sv_name = svcb_key_name key, sv_length = n, sv_malformed = bad, sv_value = v\<rparr>)
      in if key = 0 \<and> n mod 2 = 0 then row False (SvMandatory (take 64 (map big_endian (chunks 2 value))))
         else if key = 1 then (case alpn_list 32 value of (alpns, bad) \<Rightarrow> row bad (SvAlpn alpns))
         else if key = 2 then row (n \<noteq> 0) (SvEnabled (n = 0))
         else if key = 3 \<and> n = 2 then row False (SvPort (big_endian value))
         else if key = 4 \<and> n \<noteq> 0 \<and> n mod 4 = 0 then row False (SvHints4 (take 64 (map (\<lambda>c. show_v4 (big_endian c)) (chunks 4 value))))
         else if key = 5 then row False (SvEch n (if n = 0 then [] else sha value))
         else if key = 6 \<and> n \<noteq> 0 \<and> n mod 16 = 0 then row False (SvHints6 (take 64 (map (\<lambda>c. show_v6 (big_endian c)) (chunks 16 value))))
         else if key \<in> {7, 10, 11} then row False (SvText (take 2048 (decode_utf8 value)))
         else if key = 8 then row False (SvEnabled (n = 0))
         else if key = 9 \<and> n mod 2 = 0 then row False (SvGroups (take 64 (map (\<lambda>c. ''0x'' @ hex_text c) (chunks 2 value))))
         else if key = 12 then row False (SvHex (take 512 (hex_text value)))
         else row False (SvHex (take 2048 (hex_text value))))"

function svcb_loop :: "(bytes \<Rightarrow> pystr) \<Rightarrow> bytes \<Rightarrow> nat \<Rightarrow> nat \<Rightarrow> svcb_row list \<Rightarrow> wire_fail + svcb_row list" where
  "svcb_loop sha data cursor limit rows =
     (if cursor + 4 \<le> limit \<and> length rows < 64 then
        ebind (unpack_from [2, 2] data cursor) (\<lambda>v.
          let key = v ! 0; len = v ! 1 in
          if limit < cursor + 4 + len then Inl ValueFail
          else svcb_loop sha data (cursor + 4 + len) limit
                 (rows @ [read_svcb_row sha key (py_slice data (cursor + 4) (cursor + 4 + len))]))
      else if cursor \<noteq> limit then Inl ValueFail
      else Inr rows)"
  by pat_completeness auto
termination by (relation "measure (\<lambda>(sha, data, cursor, limit, rows). limit - cursor)") auto

declare svcb_loop.simps [simp del]

definition svcb_params :: "(bytes \<Rightarrow> pystr) \<Rightarrow> bytes \<Rightarrow> nat \<Rightarrow> nat \<Rightarrow> wire_fail + svcb_row list" where
  "svcb_params sha data cursor limit = svcb_loop sha data cursor limit []"


section \<open>Resource data\<close>

datatype rdata =
    RAddress pystr
  | RTarget points
  | RMx nat points
  | RSrv nat nat nat points
  | RSoa points points nat nat nat nat nat
  | RTxt "points list"
  | ROpt nat nat nat bool nat
  | RDs nat nat nat pystr
  | RDnskey nat nat nat nat
  | RTlsa nat nat nat pystr
  | RSvcb nat points nat "svcb_row list"
  | RCaa nat points points
  | RHex pystr

fun txt_parts :: "nat \<Rightarrow> bytes \<Rightarrow> points list" where
  "txt_parts (Suc n) (s # bs) =
     (if length bs < unat s then []
      else take 1024 (decode_utf8 (take (unat s) bs)) # txt_parts n (drop (unat s) bs))"
| "txt_parts n bs = []"

definition MAX_TXT_PARTS :: nat where "MAX_TXT_PARTS = 32"

definition soa_rdata :: "bytes \<Rightarrow> nat \<Rightarrow> nat \<Rightarrow> wire_fail + rdata" where
  "soa_rdata data start limit =
     ebind (rdata_name data start limit) (\<lambda>(mname, pos).
     ebind (rdata_name data pos limit) (\<lambda>(rname, pos).
       if pos + 20 \<le> limit then
         ebind (unpack_from [4, 4, 4, 4, 4] data pos) (\<lambda>v.
           Inr (RSoa mname rname (v ! 0) (v ! 1) (v ! 2) (v ! 3) (v ! 4)))
       else Inr (RHex (take 2048 (hex_text (py_slice data start limit))))))"

definition svcb_rdata :: "(bytes \<Rightarrow> pystr) \<Rightarrow> bytes \<Rightarrow> nat \<Rightarrow> nat \<Rightarrow> wire_fail + rdata" where
  "svcb_rdata sha data start limit =
     ebind (rdata_name data (start + 2) limit) (\<lambda>(target, pos).
     ebind (svcb_params sha data pos limit) (\<lambda>params.
       Inr (RSvcb (big_endian (take 2 (py_slice data start limit))) target (limit - pos) params)))"

text \<open>The types whose data holds no name: only the bytes decide.\<close>

definition plain_rdata :: "nat \<Rightarrow> nat \<Rightarrow> nat \<Rightarrow> bytes \<Rightarrow> wire_fail + rdata" where
  "plain_rdata ty cl ttl raw =
     (let n = length raw; hex = Inr (RHex (take 2048 (hex_text raw))) in
      if ty = 1 \<and> n = 4 then Inr (RAddress (show_v4 (big_endian raw)))
      else if ty = 28 \<and> n = 16 then Inr (RAddress (show_v6 (big_endian raw)))
      else if ty = 16 then Inr (RTxt (txt_parts MAX_TXT_PARTS raw))
      else if ty = 41 then
        Inr (ROpt cl (drop_bit 24 ttl AND 0xFF) (drop_bit 16 ttl AND 0xFF) (ttl AND 0x8000 \<noteq> 0) n)
      else if ty = 43 \<and> 4 \<le> n then
        ebind (byte_at raw 2) (\<lambda>algorithm. ebind (byte_at raw 3) (\<lambda>digest.
          Inr (RDs (big_endian (take 2 raw)) (unat algorithm) (unat digest) (take 2048 (hex_text (drop 4 raw))))))
      else if ty = 48 \<and> 4 \<le> n then
        ebind (byte_at raw 2) (\<lambda>protocol. ebind (byte_at raw 3) (\<lambda>algorithm.
          Inr (RDnskey (big_endian (take 2 raw)) (unat protocol) (unat algorithm) (n - 4))))
      else if ty = 52 \<and> 3 \<le> n then
        ebind (byte_at raw 0) (\<lambda>usage. ebind (byte_at raw 1) (\<lambda>selector. ebind (byte_at raw 2) (\<lambda>matching.
          Inr (RTlsa (unat usage) (unat selector) (unat matching) (take 2048 (hex_text (drop 3 raw)))))))
      else if ty = 257 \<and> 2 \<le> n then
        ebind (byte_at raw 1) (\<lambda>tag. let stop = 2 + unat tag in
          if stop \<le> n then
            ebind (byte_at raw 0) (\<lambda>flags.
              Inr (RCaa (unat flags) (decode_ascii (py_slice raw 2 stop)) (take 2048 (decode_utf8 (drop stop raw)))))
          else hex)
      else hex)"

definition dns_rdata :: "(bytes \<Rightarrow> pystr) \<Rightarrow> bytes \<Rightarrow> nat \<Rightarrow> nat \<Rightarrow> nat \<Rightarrow> nat \<Rightarrow> nat \<Rightarrow> wire_fail + rdata" where
  "dns_rdata sha data ty cl ttl start limit =
     (let raw = py_slice data start limit; n = length raw in
      if ty \<in> {2, 5, 12} then ebind (rdata_name data start limit) (\<lambda>(target, _). Inr (RTarget target))
      else if ty = 15 \<and> 3 \<le> n then
        ebind (rdata_name data (start + 2) limit) (\<lambda>(exchange, _). Inr (RMx (big_endian (take 2 raw)) exchange))
      else if ty = 33 \<and> 7 \<le> n then
        ebind (unpack_from [2, 2, 2] raw 0) (\<lambda>v. ebind (rdata_name data (start + 6) limit) (\<lambda>(target, _).
          Inr (RSrv (v ! 0) (v ! 1) (v ! 2) target)))
      else if ty = 6 \<and> 22 \<le> n then soa_rdata data start limit
      else if ty \<in> {64, 65} \<and> 3 \<le> n then svcb_rdata sha data start limit
      else plain_rdata ty cl ttl raw)"

section \<open>Records and messages\<close>

definition dns_type_name :: "nat \<Rightarrow> pystr" where
  "dns_type_name t =
     (case map_of [(1, ''A''), (2, ''NS''), (5, ''CNAME''), (6, ''SOA''), (12, ''PTR''), (15, ''MX''), (16, ''TXT''),
        (28, ''AAAA''), (33, ''SRV''), (41, ''OPT''), (43, ''DS''), (46, ''RRSIG''), (47, ''NSEC''), (48, ''DNSKEY''),
        (52, ''TLSA''), (64, ''SVCB''), (65, ''HTTPS''), (257, ''CAA'')] t of
      None \<Rightarrow> show_nat t | Some s \<Rightarrow> s)"

definition dns_class_name :: "nat \<Rightarrow> pystr" where
  "dns_class_name c =
     (case map_of [(1, ''IN''), (3, ''CH''), (4, ''HS''), (255, ''ANY'')] c of None \<Rightarrow> show_nat c | Some s \<Rightarrow> s)"

record dns_question =
  q_name :: points
  q_type :: nat
  q_type_name :: pystr
  q_class :: nat
  q_class_name :: pystr

record dns_record =
  rr_name :: points
  rr_type :: nat
  rr_type_name :: pystr
  rr_class :: nat
  rr_class_name :: pystr
  rr_ttl :: nat
  rr_length :: nat
  rr_data :: rdata

record dns_message =
  m_id :: nat
  m_response :: bool
  m_opcode :: nat
  m_authoritative :: bool
  m_truncated :: bool
  m_recursion_desired :: bool
  m_recursion_available :: bool
  m_authenticated :: bool
  m_checking_disabled :: bool
  m_rcode :: nat
  m_counts :: "nat list"
  m_questions :: "dns_question list"
  m_answers :: "dns_record list"
  m_authorities :: "dns_record list"
  m_additionals :: "dns_record list"

fun dns_questions :: "bytes \<Rightarrow> nat \<Rightarrow> nat \<Rightarrow> wire_fail + (dns_question list \<times> nat)" where
  "dns_questions data 0 cursor = Inr ([], cursor)"
| "dns_questions data (Suc n) cursor =
     ebind (dns_name data cursor) (\<lambda>(name, cursor).
       if length data < cursor + 4 then Inl ValueFail
       else ebind (unpack_from [2, 2] data cursor) (\<lambda>v.
         ebind (dns_questions data n (cursor + 4)) (\<lambda>(rows, cursor).
           Inr (\<lparr>q_name = name, q_type = v ! 0, q_type_name = dns_type_name (v ! 0),
                  q_class = v ! 1, q_class_name = dns_class_name (v ! 1)\<rparr> # rows, cursor))))"

fun dns_records :: "(bytes \<Rightarrow> pystr) \<Rightarrow> bytes \<Rightarrow> nat \<Rightarrow> nat \<Rightarrow> wire_fail + (dns_record list \<times> nat)" where
  "dns_records sha data 0 cursor = Inr ([], cursor)"
| "dns_records sha data (Suc n) cursor =
     ebind (dns_name data cursor) (\<lambda>(owner, cursor).
       if length data < cursor + 10 then Inl ValueFail
       else ebind (unpack_from [2, 2, 4, 2] data cursor) (\<lambda>v.
         let start = cursor + 10; stop = start + v ! 3 in
         if length data < stop then Inl ValueFail
         else ebind (dns_rdata sha data (v ! 0) (v ! 1) (v ! 2) start stop) (\<lambda>rd.
           ebind (dns_records sha data n stop) (\<lambda>(rows, cursor).
             Inr (\<lparr>rr_name = owner, rr_type = v ! 0, rr_type_name = dns_type_name (v ! 0), rr_class = v ! 1,
                    rr_class_name = dns_class_name (v ! 1), rr_ttl = v ! 2, rr_length = v ! 3, rr_data = rd\<rparr> # rows, cursor)))))"

definition MAX_QUESTIONS :: nat where "MAX_QUESTIONS = 64"
definition MAX_RECORDS :: nat where "MAX_RECORDS = 256"

definition dns_header :: "nat list \<Rightarrow> dns_message" where
  "dns_header v = (let flags = v ! 1 in
     \<lparr>m_id = v ! 0, m_response = (flags AND 0x8000 \<noteq> 0), m_opcode = drop_bit 11 flags AND 0x0F,
      m_authoritative = (flags AND 0x0400 \<noteq> 0), m_truncated = (flags AND 0x0200 \<noteq> 0),
      m_recursion_desired = (flags AND 0x0100 \<noteq> 0), m_recursion_available = (flags AND 0x0080 \<noteq> 0),
      m_authenticated = (flags AND 0x0020 \<noteq> 0), m_checking_disabled = (flags AND 0x0010 \<noteq> 0),
      m_rcode = flags AND 0x0F, m_counts = drop 2 v, m_questions = [], m_answers = [], m_authorities = [],
      m_additionals = []\<rparr>)"

definition decode_dns_message :: "(bytes \<Rightarrow> pystr) \<Rightarrow> bytes \<Rightarrow> wire_fail + dns_message" where
  "decode_dns_message sha data =
     (if length data < 12 then Inl ValueFail
      else ebind (unpack_from [2, 2, 2, 2, 2, 2] data 0) (\<lambda>v.
        let questions = v ! 2; answers = v ! 3; authorities = v ! 4; additionals = v ! 5;
            total = answers + authorities + additionals in
        if MAX_QUESTIONS < questions then Inl ValueFail
        else if MAX_RECORDS < total then Inl ValueFail
        else
          ebind (dns_questions data questions 12) (\<lambda>(qs, cursor).
          ebind (dns_records sha data (min answers total) cursor) (\<lambda>(ans, cursor).
          let total = total - length ans in
          ebind (dns_records sha data (min authorities total) cursor) (\<lambda>(auths, cursor).
          let total = total - length auths in
          ebind (dns_records sha data (min additionals total) cursor) (\<lambda>(adds, cursor).
            Inr ((dns_header v)\<lparr>m_questions := qs, m_answers := ans, m_authorities := auths, m_additionals := adds\<rparr>)))))))"

lemma continuation_numeral: "continuation (numeral k) lo hi (b # bs) =
    (if lo \<le> b \<and> b \<le> hi then b # continuation (pred_numeral k) 128 191 bs else [])"
  by (simp add: numeral_eq_Suc)

lemma utf8_examples:
  "utf8_replace [104, 195, 169] = [104, 233]" "utf8_replace [226, 130, 172] = [8364]" "utf8_replace [226, 130, 65] = [65533, 65]"
  "utf8_replace [224, 128, 65] = [65533, 65533, 65]" "utf8_replace [240, 159, 152, 128] = [128512]" "utf8_replace [237, 160, 128] = [65533, 65533, 65533]"
  by (simp_all add: utf8_lead_def code_point_def from_digits_def REPLACEMENT_def continuation_numeral Let_def)

end
