(* ===== verification/DnsProperties.thy ===== *)
theory DnsProperties
  imports DnsDecoder
begin

text \<open>
  What the DNS decoder promises on every byte string: it ends with a message or with \<open>ValueError\<close>, it reads a name exactly
  when the bytes spell one within the budgets, its rows are those the header counts, and a message written without
  compression is read back.
\<close>

section \<open>No other exception\<close>

definition value_only :: "wire_fail + 'a \<Rightarrow> bool" where
  "value_only m \<longleftrightarrow> (\<forall>e. m = Inl e \<longrightarrow> e = ValueFail)"

named_theorems value_rules \<open>steps that raise nothing but \<open>ValueError\<close>\<close>

lemma value_only_simps [simp]: "value_only (Inr x)" "value_only (Inl e) \<longleftrightarrow> e = ValueFail"
  by (auto simp: value_only_def)

lemma value_only_ebind [value_rules]: "value_only m \<Longrightarrow> (\<And>x. m = Inr x \<Longrightarrow> value_only (f x)) \<Longrightarrow> value_only (ebind m f)"
  by (cases m) auto

lemma value_only_if [value_rules]: "(c \<Longrightarrow> value_only m) \<Longrightarrow> (\<not> c \<Longrightarrow> value_only n) \<Longrightarrow> value_only (if c then m else n)"
  by simp

lemma value_only_byte [value_rules]: "i < length data \<Longrightarrow> value_only (byte_at data i)"
  by (simp add: byte_at_def)

lemma value_only_unpack [value_rules]: "pos + sum_list ws \<le> length data \<Longrightarrow> value_only (unpack_from ws data pos)"
  by (simp add: unpack_from_def)

lemma name_loop_value: "value_only (name_loop depth data position resume jumped seen labels)"
proof (induction depth data position resume jumped seen labels rule: name_loop.induct)
  case (2 depth data position resume jumped seen labels)
  show ?case
    unfolding name_loop.simps Let_def
    by (intro value_rules 2) (auto simp: byte_at_def Let_def)
qed simp

lemma dns_name_value [value_rules]: "value_only (dns_name data cursor)"
  by (simp add: dns_name_def name_loop_value)

lemma rdata_name_value [value_rules]: "value_only (rdata_name data cursor limit)"
  unfolding rdata_name_def by (intro value_rules) auto

lemma svcb_loop_value: "limit \<le> length data \<Longrightarrow> value_only (svcb_loop sha data cursor limit rows)"
proof (induction sha data cursor limit rows rule: svcb_loop.induct)
  case (1 sha data cursor limit rows)
  then show ?case
    unfolding svcb_loop.simps [of sha data cursor limit rows] Let_def
    by (intro value_rules "1.IH") (auto simp: Let_def)
qed

lemma svcb_params_value [value_rules]: "limit \<le> length data \<Longrightarrow> value_only (svcb_params sha data cursor limit)"
  by (simp add: svcb_params_def svcb_loop_value)

lemma plain_rdata_value [value_rules]: "value_only (plain_rdata ty cl ttl raw)"
  unfolding plain_rdata_def Let_def by (intro value_rules) auto

lemma length_py_slice [simp]: "length (py_slice xs a b) = min (b - a) (length xs - a)"
  by (simp add: py_slice_def)

lemma dns_rdata_value [value_rules]: "limit \<le> length data \<Longrightarrow> value_only (dns_rdata sha data ty cl ttl start limit)"
  unfolding dns_rdata_def soa_rdata_def svcb_rdata_def Let_def split_def by (intro value_rules) auto

lemma dns_questions_value [value_rules]: "value_only (dns_questions data n cursor)"
proof (induction data n cursor rule: dns_questions.induct)
  case (2 data n cursor)
  show ?case unfolding dns_questions.simps split_def by (intro value_rules 2) auto
qed simp

lemma dns_records_value [value_rules]: "value_only (dns_records sha data n cursor)"
proof (induction sha data n cursor rule: dns_records.induct)
  case (2 sha data n cursor)
  show ?case unfolding dns_records.simps split_def Let_def by (intro value_rules 2) auto
qed simp

text \<open>C15: Decoding any bytes whatever ends with a message or with \<open>ValueError\<close>: no index, no \<open>struct.unpack_from\<close> and no
  address constructor ever leaves the bytes, however the lengths, counts and compression pointers are forged.\<close>

theorem only_value_errors:
  "decode_dns_message sha data = Inl ValueFail \<or> (\<exists>m. decode_dns_message sha data = Inr m)"
proof -
  have "value_only (decode_dns_message sha data)"
    unfolding decode_dns_message_def Let_def split_def by (intro value_rules) auto
  then show ?thesis by (cases "decode_dns_message sha data") (auto simp: value_only_def)
qed


section \<open>Names\<close>

text \<open>
  What the bytes at a position spell: the labels up to the root, the position behind the name there, and the targets of the
  compression pointers on the way.
\<close>

inductive spelled :: "bytes \<Rightarrow> nat \<Rightarrow> bytes list \<Rightarrow> nat \<Rightarrow> nat list \<Rightarrow> bool" for data where
  root: "pos < length data \<Longrightarrow> data ! pos = 0 \<Longrightarrow> spelled data pos [] (pos + 1) []"
| label: "pos < length data \<Longrightarrow> data ! pos \<noteq> 0 \<Longrightarrow> data ! pos AND 0xC0 = 0 \<Longrightarrow>
    stop = pos + 1 + unat (data ! pos) \<Longrightarrow> stop \<le> length data \<Longrightarrow> spelled data stop ls behind js \<Longrightarrow>
    spelled data pos (py_slice data (pos + 1) stop # ls) behind js"
| pointer: "pos + 1 < length data \<Longrightarrow> pointer_mark (data ! pos) \<Longrightarrow>
    target = pointer_value (data ! pos) (data ! (pos + 1)) \<Longrightarrow> spelled data target ls behind js \<Longrightarrow>
    spelled data pos ls (pos + 2) (target # js)"

inductive_simps spelled_at: "spelled data pos ls behind js"

lemma spelled_inside: "spelled data pos ls behind js \<Longrightarrow> pos < length data \<and> behind \<le> length data \<and> pos < behind"
  by (induction rule: spelled.induct) auto

lemma marks: "\<not> pointer_mark 0" "b AND 0xC0 = 0 \<Longrightarrow> \<not> pointer_mark b"
  by (auto simp: pointer_mark_def)

lemma label_length: "(b :: 8 word) AND 0xC0 = 0 \<Longrightarrow> unat b \<le> 63"
proof -
  assume z: "b AND 0xC0 = 0"
  have m: "(0xC0 OR 0x3F :: 8 word) = - 1" by simp
  have "b AND (0xC0 OR 0x3F) = b" unfolding m by (rule bit.conj_one_right)
  then have "(b AND 0xC0) OR (b AND 0x3F) = b" by (simp only: bit.conj_disj_distrib)
  then have "b AND 0x3F = b" by (simp add: z)
  then have "b \<le> 0x3F" using word_and_le1 [of b "0x3F"] by simp
  then show ?thesis by (simp add: word_le_nat_alt)
qed

lemma name_chars_Nil [simp]: "name_chars [] = 0"
  by (simp add: name_chars_def)

lemma name_chars_append [simp]: "name_chars (xs @ ys) = name_chars xs + name_chars ys"
  by (simp add: name_chars_def)

lemma name_chars_Cons [simp]: "name_chars (x # ys) = length x + 1 + name_chars ys"
  by (simp add: name_chars_def)

lemma name_loop_exact:
  "name_loop depth data pos resume jumped seen labels = Inr (t, r) \<longleftrightarrow>
    (\<exists>ls behind js. spelled data pos ls behind js \<and> t = take MAX_NAME_CHARS (join_points (labels @ map label_text ls)) \<and>
       r = (if jumped then resume else behind) \<and> length ls + length js < depth \<and> distinct js \<and> set js \<inter> set seen = {} \<and>
       (ls = [] \<or> name_chars (labels @ map label_text ls) \<le> MAX_NAME_CHARS))"
proof (induction depth arbitrary: pos resume jumped seen labels)
  case (Suc depth)
  show ?case
  proof (cases "pos < length data")
    case False
    then show ?thesis by (auto dest: spelled_inside)
  next
    case inside: True
    then have b: "byte_at data pos = Inr (data ! pos)" by (simp add: byte_at_def)
    consider "data ! pos = 0" | "pointer_mark (data ! pos)" | "data ! pos \<noteq> 0" "data ! pos AND 0xC0 = 0"
      | "\<not> pointer_mark (data ! pos)" "data ! pos AND 0xC0 \<noteq> 0" by blast
    then show ?thesis
    proof cases
      case 1
      then show ?thesis using inside b marks by (subst spelled_at) (auto simp: not_le)
    next
      case 2
      then have nz: "data ! pos \<noteq> 0" using marks by metis
      show ?thesis
      proof (cases "pos + 1 < length data")
        case False
        with 2 nz inside b show ?thesis by (subst spelled_at) (auto simp: not_le dest: marks(2))
      next
        case True
        let ?t = "pointer_value (data ! pos) (data ! (pos + 1))"
        have b1: "byte_at data (pos + 1) = Inr (data ! (pos + 1))" using True by (simp add: byte_at_def)
        have loop: "name_loop (Suc depth) data pos resume jumped seen labels = (if length data \<le> ?t \<or> ?t \<in> set seen then Inl ValueFail
            else name_loop depth data ?t (if jumped then resume else pos + 2) True (?t # seen) labels)"
          using inside True 2 nz b b1 by (simp add: Let_def)
        have at: "spelled data pos ls behind js \<longleftrightarrow> behind = pos + 2 \<and> (\<exists>js' b'. js = ?t # js' \<and> spelled data ?t ls b' js')" for ls behind js
          using 2 nz True by (subst spelled_at) (auto dest: marks(2))
        show ?thesis
        proof (cases "length data \<le> ?t \<or> ?t \<in> set seen")
          case True
          then have "\<not> (spelled data ?t ls b' js' \<and> set (?t # js') \<inter> set seen = {})" for ls b' js'
            using spelled_inside by fastforce
          with True show ?thesis unfolding loop at by auto
        next
          case False
          have "name_loop (Suc depth) data pos resume jumped seen labels = Inr (t, r) \<longleftrightarrow>
              (\<exists>ls b' js'. spelled data ?t ls b' js' \<and> t = take MAX_NAME_CHARS (join_points (labels @ map label_text ls)) \<and>
                r = (if jumped then resume else pos + 2) \<and> length ls + length (?t # js') < Suc depth \<and> distinct (?t # js') \<and>
                set (?t # js') \<inter> set seen = {} \<and> (ls = [] \<or> name_chars (labels @ map label_text ls) \<le> MAX_NAME_CHARS))"
            unfolding loop using False by (simp add: Suc.IH) (intro conjI impI iff_exI; auto)
          then show ?thesis unfolding at by fast
        qed
      qed
    next
      case 3
      let ?stop = "pos + 1 + unat (data ! pos)" let ?raw = "py_slice data (pos + 1) ?stop"
      let ?labels = "labels @ [label_text ?raw]"
      have len: "unat (data ! pos) \<le> 63" by (rule label_length) (rule 3(2))
      have loop: "name_loop (Suc depth) data pos resume jumped seen labels =
          (if length data < ?stop \<or> MAX_NAME_CHARS < name_chars ?labels then Inl ValueFail
           else name_loop depth data ?stop (if jumped then resume else ?stop) jumped seen ?labels)"
        using inside 3 b marks(2) [OF 3(2)] len by (simp add: Let_def)
      have at: "spelled data pos ls behind js \<longleftrightarrow> ?stop \<le> length data \<and> (\<exists>ls'. ls = ?raw # ls' \<and> spelled data ?stop ls' behind js)"
        for ls behind js
        using 3 inside marks(2) [OF 3(2)] by (subst spelled_at) auto
      show ?thesis
      proof (cases "length data < ?stop \<or> MAX_NAME_CHARS < name_chars ?labels")
        case True
        then show ?thesis unfolding loop at by auto
      next
        case False
        let ?ok = "\<lambda>ls behind js. spelled data ?stop ls behind js \<and>
          t = take MAX_NAME_CHARS (join_points (?labels @ map label_text ls)) \<and> r = (if jumped then resume else behind) \<and>
          length ls + length js < depth \<and> distinct js \<and> set js \<inter> set seen = {} \<and>
          name_chars (?labels @ map label_text ls) \<le> MAX_NAME_CHARS"
        have "name_loop (Suc depth) data pos resume jumped seen labels = Inr (t, r) \<longleftrightarrow> (\<exists>ls behind js. ?ok ls behind js)"
          unfolding loop if_not_P [OF False] Suc.IH by (intro iff_exI) (use False in auto)
        also have "\<dots> \<longleftrightarrow> (\<exists>ls behind js. spelled data pos ls behind js \<and>
            t = take MAX_NAME_CHARS (join_points (labels @ map label_text ls)) \<and> r = (if jumped then resume else behind) \<and>
            length ls + length js < Suc depth \<and> distinct js \<and> set js \<inter> set seen = {} \<and>
            (ls = [] \<or> name_chars (labels @ map label_text ls) \<le> MAX_NAME_CHARS))"
          (is "?lhs \<longleftrightarrow> ?rhs")
        proof
          assume ?lhs
          then obtain ls behind js where ok: "?ok ls behind js" by blast
          then have "spelled data pos (?raw # ls) behind js" using False by (simp add: at)
          with ok show ?rhs by (intro exI [of _ "?raw # ls"] exI [of _ behind] exI [of _ js]) simp
        next
          assume ?rhs
          then obtain ls behind js where r: "spelled data pos ls behind js"
            "t = take MAX_NAME_CHARS (join_points (labels @ map label_text ls))" "r = (if jumped then resume else behind)"
            "length ls + length js < Suc depth" "distinct js" "set js \<inter> set seen = {}"
            "ls = [] \<or> name_chars (labels @ map label_text ls) \<le> MAX_NAME_CHARS" by blast
          from r(1) obtain ls' where ls: "ls = ?raw # ls'" "spelled data ?stop ls' behind js" unfolding at by blast
          with r show ?lhs by (intro exI [of _ ls'] exI [of _ behind] exI [of _ js]) simp
        qed
        finally show ?thesis .
      qed
    next
      case 4
      then have "data ! pos \<noteq> 0" by auto
      with 4 show ?thesis using inside b by (subst spelled_at) (auto simp: not_le)
    qed
  qed
qed simp


lemma spelled_labels: "spelled data pos ls behind js \<Longrightarrow> \<forall>l \<in> set ls. l \<noteq> [] \<and> length l \<le> 63"
proof (induction rule: spelled.induct)
  case (label pos stop ls behind js)
  have "unat (data ! pos) \<noteq> 0" using label(2) by (simp add: unat_eq_zero)
  with label label_length [OF label(3)] show ?case by (auto simp: py_slice_def)
qed auto

lemma length_join_points: "length (join_points xs) \<le> name_chars xs"
  by (induction xs rule: join_points.induct) auto

lemma dns_name_iff:
  "dns_name data cursor = Inr (text, resume) \<longleftrightarrow>
    (\<exists>ls js. spelled data cursor ls resume js \<and> text = join_points (map label_text ls) \<and>
       length ls + length js < 128 \<and> distinct js \<and> name_chars (map label_text ls) \<le> 255)"
proof -
  have "take 255 (join_points xs) = join_points xs" if "name_chars xs \<le> 255" for xs
    using length_join_points [of xs] that by simp
  then show ?thesis unfolding dns_name_def name_loop_exact
    by (fastforce simp: MAX_NAME_DEPTH_def MAX_NAME_CHARS_def)
qed

text \<open>The bytes at a position spell one name at most.\<close>

lemma spelled_unique: "spelled data pos ls behind js \<Longrightarrow> spelled data pos ls' behind' js' \<Longrightarrow> ls' = ls \<and> behind' = behind \<and> js' = js"
proof (induction arbitrary: ls' behind' js' rule: spelled.induct)
  case (root pos)
  then show ?case using marks by (subst (asm) spelled_at) auto
next
  case (label pos stop ls behind js)
  from label.prems label.hyps marks(2) [OF label(3)] obtain k where "ls' = py_slice data (pos + 1) stop # k" "spelled data stop k behind' js'"
    by (subst (asm) spelled_at) auto
  with label.IH show ?case by blast
next
  case (pointer pos target ls behind js)
  then have "data ! pos \<noteq> 0" "data ! pos AND 0xC0 \<noteq> 0" using marks by metis+
  with pointer.prems pointer.hyps obtain k b where "behind' = pos + 2" "js' = target # k" "spelled data target ls' b k"
    by (subst (asm) spelled_at) auto
  with pointer.IH show ?case by blast
qed

text \<open>C16: A name is read exactly when the bytes at the cursor spell one, through compression pointers that stay inside the
  message, with fewer than 128 labels and pointers, no pointer target twice and at most 255 characters; then the text is
  the labels joined by dots, and the cursor comes to stand behind the name where it began, not where a pointer led.\<close>

theorem name_exact:
  "dns_name data cursor = Inr (text, resume) \<longleftrightarrow>
    (\<exists>ls js. spelled data cursor ls resume js \<and> text = join_points (map label_text ls) \<and>
       length ls + length js < 128 \<and> distinct js \<and> name_chars (map label_text ls) \<le> 255)"
  by (rule dns_name_iff)

section \<open>Reading what was written\<close>

definition be_bytes :: "nat \<Rightarrow> nat \<Rightarrow> bytes" where
  "be_bytes k n = map of_nat (to_digits 256 k n)"

definition write_name :: "bytes list \<Rightarrow> bytes" where
  "write_name ls = concat (map (\<lambda>l. of_nat (length l) # l) ls) @ [0]"

text \<open>A question and a record as they are written: the labels, the numbers, and the raw data of the record.\<close>

type_synonym wire_question = "bytes list \<times> nat \<times> nat"
type_synonym wire_record = "bytes list \<times> nat \<times> nat \<times> nat \<times> bytes"

definition write_question :: "wire_question \<Rightarrow> bytes" where
  "write_question q = (case q of (ls, ty, cl) \<Rightarrow> write_name ls @ be_bytes 2 ty @ be_bytes 2 cl)"

definition write_record :: "wire_record \<Rightarrow> bytes" where
  "write_record r = (case r of (ls, ty, cl, ttl, raw) \<Rightarrow>
     write_name ls @ be_bytes 2 ty @ be_bytes 2 cl @ be_bytes 4 ttl @ be_bytes 2 (length raw) @ raw)"

definition write_message :: "nat \<Rightarrow> nat \<Rightarrow> wire_question list \<Rightarrow> wire_record list \<Rightarrow> wire_record list \<Rightarrow> wire_record list \<Rightarrow> bytes" where
  "write_message ident flags qs ans auths adds =
     be_bytes 2 ident @ be_bytes 2 flags @ be_bytes 2 (length qs) @ be_bytes 2 (length ans) @ be_bytes 2 (length auths) @
     be_bytes 2 (length adds) @ concat (map write_question qs) @ concat (map write_record ans) @
     concat (map write_record auths) @ concat (map write_record adds)"

definition good_name :: "bytes list \<Rightarrow> bool" where
  "good_name ls \<longleftrightarrow> list_all (\<lambda>l. 1 \<le> length l \<and> length l \<le> 63) ls \<and> length ls < 128 \<and> name_chars (map label_text ls) \<le> 255"

definition good_question :: "wire_question \<Rightarrow> bool" where
  "good_question q = (case q of (ls, ty, cl) \<Rightarrow> good_name ls \<and> ty < 2 ^ 16 \<and> cl < 2 ^ 16)"

definition good_record :: "wire_record \<Rightarrow> bool" where
  "good_record r = (case r of (ls, ty, cl, ttl, raw) \<Rightarrow>
     good_name ls \<and> ty < 2 ^ 16 \<and> ty \<notin> {2, 5, 6, 12, 15, 33, 64, 65} \<and> cl < 2 ^ 16 \<and> ttl < 2 ^ 32 \<and> length raw < 2 ^ 16)"

definition question_row :: "wire_question \<Rightarrow> dns_question \<Rightarrow> bool" where
  "question_row q row = (case q of (ls, ty, cl) \<Rightarrow>
     row = \<lparr>q_name = join_points (map label_text ls), q_type = ty, q_type_name = dns_type_name ty,
            q_class = cl, q_class_name = dns_class_name cl\<rparr>)"

definition record_row :: "wire_record \<Rightarrow> dns_record \<Rightarrow> bool" where
  "record_row r row = (case r of (ls, ty, cl, ttl, raw) \<Rightarrow>
     row = \<lparr>rr_name = join_points (map label_text ls), rr_type = ty, rr_type_name = dns_type_name ty, rr_class = cl,
            rr_class_name = dns_class_name cl, rr_ttl = ttl, rr_length = length raw, rr_data = rr_data row\<rparr> \<and>
     plain_rdata ty cl ttl raw = Inr (rr_data row))"

lemma length_be_bytes [simp]: "length (be_bytes k n) = k"
  by (simp add: be_bytes_def)

lemma big_endian_be: "n < 256 ^ k \<Longrightarrow> big_endian (be_bytes k n) = n"
proof -
  assume "n < 256 ^ k"
  moreover have "map unat (be_bytes k n) = to_digits 256 k n"
    using to_digits_bounds [of 256 _ k n] by (auto simp: be_bytes_def unat_of_nat intro!: map_idI)
  ultimately show ?thesis by (simp add: big_endian_def from_to_digits)
qed

definition be_fields :: "nat list \<Rightarrow> nat list \<Rightarrow> bytes" where
  "be_fields ws vs = concat (map2 be_bytes ws vs)"

lemma fields_at_be: "list_all2 (\<lambda>w v. v < 256 ^ w) ws vs \<Longrightarrow> fields_at (be_fields ws vs @ post) ws = vs"
  by (induction rule: list_all2_induct) (simp_all add: be_fields_def big_endian_be)

lemma length_be_fields: "length ws = length vs \<Longrightarrow> length (be_fields ws vs) = sum_list ws"
  by (induction ws vs rule: list_induct2) (simp_all add: be_fields_def)

lemma unpack_be:
  assumes "list_all2 (\<lambda>w v. v < 256 ^ w) ws vs"
  shows "unpack_from ws (pre @ be_fields ws vs @ post) (length pre) = Inr vs"
  using assms fields_at_be [OF assms] by (simp add: unpack_from_def length_be_fields list_all2_lengthD)

lemma small_label: "n \<le> 63 \<Longrightarrow> (of_nat n :: 8 word) AND 0xC0 = 0"
proof -
  have "list_all (\<lambda>n. (of_nat n :: 8 word) AND 0xC0 = 0) [0..<64]" by code_simp
  moreover assume "n \<le> 63"
  ultimately show ?thesis by (auto simp: list_all_iff)
qed

lemma spelled_write:
  "list_all (\<lambda>l. 1 \<le> length l \<and> length l \<le> 63) ls \<Longrightarrow>
    spelled (pre @ write_name ls @ post) (length pre) ls (length pre + length (write_name ls)) []"
proof (induction ls arbitrary: pre)
  case Nil
  have "spelled (pre @ [0] @ post) (length pre) [] (length pre + 1) []" by (rule spelled.root) simp_all
  then show ?case by (simp add: write_name_def)
next
  case (Cons l ls)
  let ?pre = "pre @ of_nat (length l) # l" and ?data = "pre @ write_name (l # ls) @ post"
  have l: "1 \<le> length l" "length l \<le> 63" using Cons.prems by simp_all
  then have u: "unat (of_nat (length l) :: 8 word) = length l" by (simp add: unat_of_nat)
  have d: "?data = ?pre @ write_name ls @ post" by (simp add: write_name_def)
  have at: "?data ! length pre = of_nat (length l)" by (simp add: write_name_def)
  have s: "py_slice ?data (length pre + 1) (length ?pre) = l" by (simp add: d py_slice_def)
  have "spelled ?data (length ?pre) ls (length ?pre + length (write_name ls)) []"
    unfolding d using Cons.IH [of ?pre] Cons.prems by simp
  then have "spelled ?data (length pre) (py_slice ?data (length pre + 1) (length ?pre) # ls) (length ?pre + length (write_name ls)) []"
    using l u by (intro spelled.label) (auto simp: at d small_label unat_eq_zero [symmetric])
  moreover have "length ?pre + length (write_name ls) = length pre + length (write_name (l # ls))" by (simp add: write_name_def)
  ultimately show ?case by (simp only: s)
qed


lemma dns_name_write:
  assumes "good_name ls"
  shows "dns_name (pre @ write_name ls @ post) (length pre) = Inr (join_points (map label_text ls), length pre + length (write_name ls))"
proof -
  have "spelled (pre @ write_name ls @ post) (length pre) ls (length pre + length (write_name ls)) []"
    using assms by (intro spelled_write) (simp add: good_name_def)
  then show ?thesis unfolding dns_name_def name_loop_exact
    using assms length_join_points [of "map label_text ls"]
    by (intro exI [of _ ls] exI [of _ "length pre + length (write_name ls)"] exI [of _ "[]"])
      (auto simp: good_name_def MAX_NAME_DEPTH_def MAX_NAME_CHARS_def)
qed

lemma questions_write:
  "list_all good_question qs \<Longrightarrow> \<exists>rows. list_all2 question_row qs rows \<and>
    dns_questions (pre @ concat (map write_question qs) @ post) (length qs) (length pre) =
      Inr (rows, length pre + length (concat (map write_question qs)))"
proof (induction qs arbitrary: pre)
  case (Cons q qs)
  obtain ls ty cl where q: "q = (ls, ty, cl)" by (cases q)
  with Cons.prems have g: "good_name ls" "ty < 2 ^ 16" "cl < 2 ^ 16" by (simp_all add: good_question_def)
  let ?rest = "concat (map write_question qs) @ post"
  let ?data = "pre @ concat (map write_question (q # qs)) @ post"
  let ?mid = "pre @ write_name ls"
  let ?next = "?mid @ be_fields [2, 2] [ty, cl]"
  have d1: "?data = pre @ write_name ls @ be_fields [2, 2] [ty, cl] @ ?rest"
    by (simp add: q write_question_def be_fields_def)
  have d2: "?data = ?mid @ be_fields [2, 2] [ty, cl] @ ?rest" unfolding d1 by simp
  have d3: "?data = ?next @ ?rest" unfolding d1 by simp
  have n: "dns_name ?data (length pre) = Inr (join_points (map label_text ls), length ?mid)"
    unfolding d1 using dns_name_write [OF g(1)] by simp
  have u: "unpack_from [2, 2] ?data (length ?mid) = Inr [ty, cl]"
    unfolding d2 using g by (intro unpack_be) simp
  have l: "length ?next = length ?mid + 4" by (simp add: length_be_fields)
  obtain rows where rows: "list_all2 question_row qs rows"
    "dns_questions ?data (length qs) (length ?next) = Inr (rows, length ?next + length (concat (map write_question qs)))"
    unfolding d3 using Cons.IH [of ?next] Cons.prems by auto
  let ?row = "\<lparr>q_name = join_points (map label_text ls), q_type = ty, q_type_name = dns_type_name ty,
    q_class = cl, q_class_name = dns_class_name cl\<rparr>"
  have fits: "\<not> length ?data < length ?mid + 4" unfolding d3 by (simp add: length_be_fields)
  have "dns_questions ?data (length (q # qs)) (length pre) = Inr (?row # rows, length ?next + length (concat (map write_question qs)))"
    using n u fits rows(2) unfolding l by simp
  moreover have "length ?next + length (concat (map write_question qs)) = length pre + length (concat (map write_question (q # qs)))"
    by (simp add: q write_question_def length_be_fields)
  moreover have "list_all2 question_row (q # qs) (?row # rows)" using rows(1) by (simp add: q question_row_def)
  ultimately show ?case by metis
qed simp

lemma plain_rdata_total: "\<exists>rd. plain_rdata ty cl ttl raw = Inr rd"
  by (auto simp: plain_rdata_def byte_at_def Let_def)

lemma dns_rdata_plain:
  "ty \<notin> {2, 5, 6, 12, 15, 33, 64, 65} \<Longrightarrow> dns_rdata sha data ty cl ttl start limit = plain_rdata ty cl ttl (py_slice data start limit)"
  by (simp add: dns_rdata_def Let_def)

lemma records_write:
  "list_all good_record rs \<Longrightarrow> \<exists>rows. list_all2 record_row rs rows \<and>
    dns_records sha (pre @ concat (map write_record rs) @ post) (length rs) (length pre) =
      Inr (rows, length pre + length (concat (map write_record rs)))"
proof (induction rs arbitrary: pre)
  case (Cons r rs)
  obtain ls ty cl ttl raw where r: "r = (ls, ty, cl, ttl, raw)" by (cases r)
  with Cons.prems have g: "good_name ls" "ty < 2 ^ 16" "cl < 2 ^ 16" "ttl < 2 ^ 32" "length raw < 2 ^ 16"
    and plain: "ty \<notin> {2, 5, 6, 12, 15, 33, 64, 65}" by (simp_all add: good_record_def)
  let ?vs = "[ty, cl, ttl, length raw]" and ?rest = "concat (map write_record rs) @ post"
  let ?data = "pre @ concat (map write_record (r # rs)) @ post"
  let ?mid = "pre @ write_name ls"
  let ?start = "?mid @ be_fields [2, 2, 4, 2] ?vs"
  let ?next = "?start @ raw"
  have d1: "?data = pre @ write_name ls @ be_fields [2, 2, 4, 2] ?vs @ raw @ ?rest"
    by (simp add: r write_record_def be_fields_def)
  have d2: "?data = ?mid @ be_fields [2, 2, 4, 2] ?vs @ raw @ ?rest" unfolding d1 by simp
  have d3: "?data = ?start @ raw @ ?rest" unfolding d1 by simp
  have d4: "?data = ?next @ ?rest" unfolding d1 by simp
  have n: "dns_name ?data (length pre) = Inr (join_points (map label_text ls), length ?mid)"
    unfolding d1 using dns_name_write [OF g(1)] by simp
  have u: "unpack_from [2, 2, 4, 2] ?data (length ?mid) = Inr ?vs"
    unfolding d2 using g by (intro unpack_be) simp
  have l: "length ?start = length ?mid + 10" "length ?next = length ?mid + 10 + length raw" by (simp_all add: length_be_fields)
  have raw: "py_slice ?data (length ?start) (length ?start + length raw) = raw" unfolding d3 by (simp add: py_slice_def)
  obtain rd where rd: "plain_rdata ty cl ttl raw = Inr rd" using plain_rdata_total by blast
  have rdata: "dns_rdata sha ?data ty cl ttl (length ?mid + 10) (length ?mid + 10 + length raw) = Inr rd"
    using raw unfolding dns_rdata_plain [OF plain] l by (simp only: rd)
  obtain rows where rows: "list_all2 record_row rs rows"
    "dns_records sha ?data (length rs) (length ?next) = Inr (rows, length ?next + length (concat (map write_record rs)))"
    unfolding d4 using Cons.IH [of ?next] Cons.prems by auto
  let ?row = "\<lparr>rr_name = join_points (map label_text ls), rr_type = ty, rr_type_name = dns_type_name ty, rr_class = cl,
    rr_class_name = dns_class_name cl, rr_ttl = ttl, rr_length = length raw, rr_data = rd\<rparr>"
  have fits: "\<not> length ?data < length ?mid + 10" "\<not> length ?data < length ?mid + 10 + length raw"
    unfolding d4 by (simp_all add: length_be_fields)
  have "dns_records sha ?data (length (r # rs)) (length pre) = Inr (?row # rows, length ?next + length (concat (map write_record rs)))"
    using n u fits rdata rows(2) unfolding l by (simp add: Let_def)
  moreover have "length ?next + length (concat (map write_record rs)) = length pre + length (concat (map write_record (r # rs)))"
    by (simp add: r write_record_def length_be_fields)
  moreover have "list_all2 record_row (r # rs) (?row # rows)" using rows(1) rd by (simp add: r record_row_def)
  ultimately show ?case by metis
qed simp


definition counts_fit :: "wire_question list \<Rightarrow> wire_record list \<Rightarrow> wire_record list \<Rightarrow> wire_record list \<Rightarrow> bool" where
  "counts_fit qs ans auths adds \<longleftrightarrow> length qs \<le> 64 \<and> length ans + length auths + length adds \<le> 256"

lemma decode_write:
  assumes "ident < 2 ^ 16" and "flags < 2 ^ 16" and "counts_fit qs ans auths adds" and "list_all good_question qs"
    and "list_all good_record (ans @ auths @ adds)"
  shows "\<exists>q a u d. decode_dns_message sha (write_message ident flags qs ans auths adds @ trailer) =
      Inr ((dns_header [ident, flags, length qs, length ans, length auths, length adds])
        \<lparr>m_questions := q, m_answers := a, m_authorities := u, m_additionals := d\<rparr>) \<and>
    list_all2 question_row qs q \<and> list_all2 record_row ans a \<and> list_all2 record_row auths u \<and> list_all2 record_row adds d"
proof -
  let ?vs = "[ident, flags, length qs, length ans, length auths, length adds]"
  let ?head = "be_fields [2, 2, 2, 2, 2, 2] ?vs"
  let ?Q = "concat (map write_question qs)" and ?A = "concat (map write_record ans)"
    and ?U = "concat (map write_record auths)" and ?D = "concat (map write_record adds)"
  let ?data = "write_message ident flags qs ans auths adds @ trailer"
  have counts: "length qs \<le> 64" "length ans + length auths + length adds \<le> 256" using assms(3) by (simp_all add: counts_fit_def)
  have good: "list_all good_record ans" "list_all good_record auths" "list_all good_record adds" using assms(5) by simp_all
  have d0: "?data = [] @ ?head @ (?Q @ ?A @ ?U @ ?D @ trailer)" by (simp add: write_message_def be_fields_def)
  have dq: "?data = ?head @ ?Q @ (?A @ ?U @ ?D @ trailer)" unfolding d0 by simp
  have da: "?data = (?head @ ?Q) @ ?A @ (?U @ ?D @ trailer)" unfolding d0 by simp
  have du: "?data = (?head @ ?Q @ ?A) @ ?U @ (?D @ trailer)" unfolding d0 by simp
  have dd: "?data = (?head @ ?Q @ ?A @ ?U) @ ?D @ trailer" unfolding d0 by simp
  have head: "length ?head = 12" by (simp add: length_be_fields)
  have u: "unpack_from [2, 2, 2, 2, 2, 2] ?data (length ([] :: bytes)) = Inr ?vs"
    unfolding d0 using assms(1,2) counts by (intro unpack_be) simp
  obtain q where q: "list_all2 question_row qs q" "dns_questions ?data (length qs) (length ?head) = Inr (q, length (?head @ ?Q))"
    unfolding dq using questions_write [OF assms(4), of ?head] by auto
  obtain a where a: "list_all2 record_row ans a" "dns_records sha ?data (length ans) (length (?head @ ?Q)) = Inr (a, length (?head @ ?Q @ ?A))"
    unfolding da using records_write [OF good(1), of sha "?head @ ?Q"] by (auto simp: add.assoc)
  obtain w where w: "list_all2 record_row auths w"
      "dns_records sha ?data (length auths) (length (?head @ ?Q @ ?A)) = Inr (w, length (?head @ ?Q @ ?A @ ?U))"
    unfolding du using records_write [OF good(2), of sha "?head @ ?Q @ ?A"] by (auto simp: add.assoc)
  obtain d where d: "list_all2 record_row adds d"
      "dns_records sha ?data (length adds) (length (?head @ ?Q @ ?A @ ?U)) = Inr (d, length (?head @ ?Q @ ?A @ ?U @ ?D))"
    unfolding dd using records_write [OF good(3), of sha "?head @ ?Q @ ?A @ ?U"] by (auto simp: add.assoc)
  have l: "length a = length ans" "length w = length auths" using a(1) w(1) by (simp_all add: list_all2_lengthD)
  have "\<not> length ?data < 12" unfolding d0 using head by simp
  then have "decode_dns_message sha ?data = Inr ((dns_header ?vs)\<lparr>m_questions := q, m_answers := a, m_authorities := w, m_additionals := d\<rparr>)"
    using u counts q(2) a(2) w(2) d(2) l
    by (simp add: decode_dns_message_def Let_def MAX_QUESTIONS_def MAX_RECORDS_def head)
  with q(1) a(1) w(1) d(1) show ?thesis by blast
qed


text \<open>A question and an address record in answer.\<close>

definition ex_query :: wire_question where
  "ex_query = ([[119, 119, 119], [97]], 1, 1)"

definition ex_answer :: wire_record where
  "ex_answer = ([[119, 119, 119], [97]], 1, 1, 300, [192, 0, 2, 1])"

lemma ex_good: "list_all good_question [ex_query]" "list_all good_record ([ex_answer] @ [] @ [])" "counts_fit [ex_query] [ex_answer] [] []"
proof -
  have "good_name [[119, 119, 119], [97]]"
    by (simp add: good_name_def label_text_def is_ascii_def name_chars_def)
  then show "list_all good_question [ex_query]" "list_all good_record ([ex_answer] @ [] @ [])" "counts_fit [ex_query] [ex_answer] [] []"
    by (simp_all add: ex_query_def ex_answer_def good_question_def good_record_def counts_fit_def)
qed


section \<open>Two names the decoder does not tell right\<close>

text \<open>
  The longest legal name has 127 labels of one letter, 255 bytes with the root. It is read where it is written out, but a
  pointer to it is one step too many for the depth budget and the message is refused.
\<close>

definition longest_name :: "bytes list" where
  "longest_name = replicate 127 [97]"

lemma longest_good: "good_name longest_name"
  by (simp add: good_name_def longest_name_def list_all_length name_chars_def sum_list_replicate label_text_def is_ascii_def)

lemma longest_length: "length (write_name longest_name) = 255"
  by (simp add: longest_name_def write_name_def length_concat sum_list_replicate)

lemma longest_by_pointer:
  "dns_name (write_name longest_name @ [0xC0, 0]) 0 = Inr (join_points (map label_text longest_name), 255) \<and>
    dns_name (write_name longest_name @ [0xC0, 0]) 255 = Inl ValueFail"
proof
  let ?data = "write_name longest_name @ [0xC0, 0]"
  show read: "dns_name ?data 0 = Inr (join_points (map label_text longest_name), 255)"
    using dns_name_write [OF longest_good, of "[]" "[0xC0, 0]"] by (simp add: longest_length)
  have "spelled ?data 0 longest_name 255 []"
    using spelled_write [of longest_name "[]" "[0xC0, 0]"] longest_good by (simp add: good_name_def longest_length)
  moreover have "?data ! 255 = 0xC0" "?data ! 256 = 0" by (simp_all add: nth_append longest_length)
  ultimately have sp: "spelled ?data 255 longest_name 257 [0]"
    using spelled.pointer [of 255 ?data 0 longest_name 255 "[]"] by (simp add: pointer_mark_def pointer_value_def longest_length)
  have "dns_name ?data 255 \<noteq> Inr (t, r)" for t r
  proof
    assume "dns_name ?data 255 = Inr (t, r)"
    then obtain ls js where "spelled ?data 255 ls r js" "length ls + length js < 128" by (auto simp: dns_name_iff)
    with spelled_unique [OF sp] have "length longest_name + length [0 :: nat] < 128" by blast
    then show False by (simp add: longest_name_def)
  qed
  moreover have "value_only (dns_name ?data 255)" by (rule dns_name_value)
  ultimately show "dns_name ?data 255 = Inl ValueFail" by (cases "dns_name ?data 255") (auto simp: value_only_def)
qed

text \<open>A dot inside a label is not escaped, so different names have one text.\<close>

lemma dotted_label_ambiguous:
  "dns_name (write_name [[97, 46, 98]]) 0 = Inr (points, 5) \<longleftrightarrow> dns_name (write_name [[97], [98]]) 0 = Inr (points, 5)"
proof -
  have "good_name [[97, 46, 98]]" "good_name [[97], [98]]" by (simp_all add: good_name_def label_text_def is_ascii_def)
  from this [THEN dns_name_write, of "[]" "[]"] show ?thesis by (simp add: write_name_def label_text_def is_ascii_def)
qed

section \<open>Bounds\<close>

lemma length_join_exact: "length (join_points xs) = name_chars xs - 1"
  by (induction xs rule: join_points.induct) auto

lemma dns_name_bounds: "dns_name data cursor = Inr (text, resume) \<Longrightarrow> length text \<le> 254 \<and> cursor < resume \<and> resume \<le> length data"
  by (auto simp: dns_name_iff length_join_exact dest: spelled_inside)

lemma questions_bounds:
  "dns_questions data n cursor = Inr (rows, behind) \<Longrightarrow> cursor \<le> length data \<Longrightarrow>
    length rows = n \<and> cursor + 5 * n \<le> behind \<and> behind \<le> length data \<and> (\<forall>q \<in> set rows. length (q_name q) \<le> 254)"
proof (induction n arbitrary: cursor rows behind)
  case (Suc n)
  from Suc.prems obtain name c v rest where n: "dns_name data cursor = Inr (name, c)" and l: "\<not> length data < c + 4"
    and v: "unpack_from [2, 2] data c = Inr v" and r: "dns_questions data n (c + 4) = Inr (rest, behind)"
    and rows: "rows = \<lparr>q_name = name, q_type = v ! 0, q_type_name = dns_type_name (v ! 0), q_class = v ! 1,
      q_class_name = dns_class_name (v ! 1)\<rparr> # rest"
    by (auto split: if_splits prod.splits)
  from Suc.IH [OF r] l have "length rest = n \<and> c + 4 + 5 * n \<le> behind \<and> behind \<le> length data \<and>
      (\<forall>q \<in> set rest. length (q_name q) \<le> 254)" by simp
  with dns_name_bounds [OF n] show ?case by (auto simp: rows)
qed simp

lemma records_bounds:
  "dns_records sha data n cursor = Inr (rows, behind) \<Longrightarrow> cursor \<le> length data \<Longrightarrow>
    length rows = n \<and> cursor + sum_list (map (\<lambda>r. rr_length r + 11) rows) \<le> behind \<and> behind \<le> length data \<and>
    (\<forall>r \<in> set rows. length (rr_name r) \<le> 254)"
proof (induction n arbitrary: cursor rows behind)
  case (Suc n)
  from Suc.prems obtain name c v rd rest where n: "dns_name data cursor = Inr (name, c)" and l: "\<not> length data < c + 10"
    and v: "unpack_from [2, 2, 4, 2] data c = Inr v" and l2: "\<not> length data < c + 10 + v ! 3"
    and rd: "dns_rdata sha data (v ! 0) (v ! 1) (v ! 2) (c + 10) (c + 10 + v ! 3) = Inr rd"
    and r: "dns_records sha data n (c + 10 + v ! 3) = Inr (rest, behind)"
    and rows: "rows = \<lparr>rr_name = name, rr_type = v ! 0, rr_type_name = dns_type_name (v ! 0), rr_class = v ! 1,
      rr_class_name = dns_class_name (v ! 1), rr_ttl = v ! 2, rr_length = v ! 3, rr_data = rd\<rparr> # rest"
    by (auto simp: Let_def split: if_splits prod.splits)
  from Suc.IH [OF r] l2 dns_name_bounds [OF n] show ?case by (auto simp: rows)
qed simp

text \<open>C28: A decoded message has exactly the rows its header counts, at most 64 questions and 256 records, no name over 254
  characters, and the records claim, with their fixed parts, no more bytes than the message has.\<close>

theorem decoded_message_bounded:
  assumes "decode_dns_message sha data = Inr m"
  shows "m_counts m = [length (m_questions m), length (m_answers m), length (m_authorities m), length (m_additionals m)] \<and>
    length (m_questions m) \<le> 64 \<and> length (m_answers m @ m_authorities m @ m_additionals m) \<le> 256 \<and>
    12 + 5 * length (m_questions m) +
      sum_list (map (\<lambda>r. rr_length r + 11) (m_answers m @ m_authorities m @ m_additionals m)) \<le> length data \<and>
    list_all (\<lambda>q. length (q_name q) \<le> 254) (m_questions m) \<and>
    list_all (\<lambda>r. length (rr_name r) \<le> 254) (m_answers m @ m_authorities m @ m_additionals m)"
proof -
  from assms obtain v q a u d c1 c2 c3 c4 where len: "\<not> length data < 12" and v: "unpack_from [2, 2, 2, 2, 2, 2] data 0 = Inr v"
    and q: "dns_questions data (v ! 2) 12 = Inr (q, c1)" "v ! 2 \<le> 64" "v ! 3 + v ! 4 + v ! 5 \<le> 256"
    and a': "dns_records sha data (min (v ! 3) (v ! 3 + v ! 4 + v ! 5)) c1 = Inr (a, c2)"
    and u: "dns_records sha data (min (v ! 4) (v ! 3 + v ! 4 + v ! 5 - length a)) c2 = Inr (u, c3)"
    and d: "dns_records sha data (min (v ! 5) (v ! 3 + v ! 4 + v ! 5 - length a - length u)) c3 = Inr (d, c4)"
    and m: "m = (dns_header v)\<lparr>m_questions := q, m_answers := a, m_authorities := u, m_additionals := d\<rparr>"
    by (auto simp: decode_dns_message_def Let_def MAX_QUESTIONS_def MAX_RECORDS_def split: if_splits prod.splits)
  have a: "dns_records sha data (v ! 3) c1 = Inr (a, c2)" using a' by (simp add: min_def)
  have "length v = 6" using v by (auto simp: unpack_from_def split: if_splits)
  then have vs: "drop 2 v = [v ! 2, v ! 3, v ! 4, v ! 5]"
    by (auto simp: eval_nat_numeral length_Suc_conv)
  note bq = questions_bounds [OF q(1)]
  note ba = records_bounds [OF a]
  have bu: "length u = v ! 4" "c2 + sum_list (map (\<lambda>r. rr_length r + 11) u) \<le> c3" "c3 \<le> length data" "\<forall>r \<in> set u. length (rr_name r) \<le> 254"
    using records_bounds [OF u] bq ba len by simp_all
  have bd: "length d = v ! 5" "c3 + sum_list (map (\<lambda>r. rr_length r + 11) d) \<le> c4" "c4 \<le> length data" "\<forall>r \<in> set d. length (rr_name r) \<le> 254"
    using records_bounds [OF d] bu bq ba len by simp_all
  show ?thesis using bq ba bu bd q len
    by (simp add: m dns_header_def vs list_all_iff ball_Un Let_def)
qed

theorem decoded_message_bounded_witness:
  "\<exists>m. decode_dns_message (\<lambda>_. []) (write_message 7 33152 [ex_query] [ex_answer] [] []) = Inr m \<and> length (m_answers m) = 1 \<and>
    12 + 5 * length (m_questions m) + sum_list (map (\<lambda>r. rr_length r + 11) (m_answers m @ m_authorities m @ m_additionals m))
      \<le> length (write_message 7 33152 [ex_query] [ex_answer] [] [])"
proof -
  obtain q a u d where r: "decode_dns_message (\<lambda>_. []) (write_message 7 33152 [ex_query] [ex_answer] [] []) =
      Inr ((dns_header [7, 33152, 1, 1, 0, 0])\<lparr>m_questions := q, m_answers := a, m_authorities := u, m_additionals := d\<rparr>)"
    "list_all2 record_row [ex_answer] a"
    using decode_write [of 7 33152 "[ex_query]" "[ex_answer]" "[]" "[]" "\<lambda>_. []" "[]"] ex_good by auto
  from decoded_message_bounded [OF r(1)] r list_all2_lengthD [OF r(2)] show ?thesis by simp
qed

end
