(* ===== verification/CaptureFilter.thy ===== *)
theory CaptureFilter
  imports WorkflowNodes IpAddress
begin

text \<open>
  The filter language of the capture pages, \<^verbatim>\<open>infrastructure/capture/filtering.py\<close>: the tokens of an expression, the
  recursive descent over them, and the predicate that comes out of it. The code returns nested closures; the model returns
  the tree they are built from and evaluates it as they do. Text holds the code points 0 to 255, so an escape in a
  string that names a higher one has an error of its own; the \<open>repr\<close> of the float a decimal literal denotes is the
  argument \<open>float_text\<close>.
\<close>

datatype filter_fail = FilterSyntaxError | JsonDecodeError | DigitLimit | OutsideText | OutOfFuel

section \<open>Tokens\<close>

datatype token_kind = Number | String | Op | Word

type_synonym token = "token_kind \<times> pystr"

definition is_digit :: "char \<Rightarrow> bool" where
  "is_digit c \<longleftrightarrow> 48 \<le> ord_c c \<and> ord_c c \<le> 57"

definition word_start :: "char \<Rightarrow> bool" where
  "word_start c \<longleftrightarrow> ascii_letter c \<or> c = CHR ''_''"

definition word_tail :: "char \<Rightarrow> bool" where
  "word_tail c \<longleftrightarrow> word_char c \<or> c = CHR ''.'' \<or> c = CHR '':'' \<or> c = CHR ''-''"

definition QUOTE :: char where "QUOTE = char_of (34 :: nat)"
definition BACKSLASH :: char where "BACKSLASH = char_of (92 :: nat)"

text \<open>A string after its opening quote, up to and with the closing one.\<close>

fun scan_string :: "pystr \<Rightarrow> (pystr \<times> pystr) option" where
  "scan_string [] = None"
| "scan_string (c # cs) =
     (if c = QUOTE then Some ([c], cs)
      else if c = BACKSLASH then
        (case cs of [] \<Rightarrow> None
         | d # ds \<Rightarrow> if ord_c d = 10 then None else map_option (\<lambda>(s, rest). (c # d # s, rest)) (scan_string ds))
      else map_option (\<lambda>(s, rest). (c # s, rest)) (scan_string cs))"

definition scan_number :: "pystr \<Rightarrow> pystr \<times> pystr" where
  "scan_number s =
     (let whole = takeWhile is_digit s; rest = dropWhile is_digit s in
      case rest of
        [] \<Rightarrow> (whole, rest)
      | d # ds \<Rightarrow>
          if d = CHR ''.'' \<and> takeWhile is_digit ds \<noteq> [] then (whole @ d # takeWhile is_digit ds, dropWhile is_digit ds)
          else (whole, rest))"

definition double_tokens :: "(pystr \<times> token_kind) list" where
  "double_tokens = [(''=='', Op), (''!='', Op), (''>='', Op), (''<='', Op), (''&&'', Word), (''||'', Word)]"

definition single_tokens :: "(pystr \<times> token_kind) list" where
  "single_tokens = [(''>'', Op), (''<'', Op), (''['', Word), ('']'', Word), ('','', Word), (''('', Word), ('')'', Word)]"

text \<open>One match of \<open>TOKEN_RE\<close>. Its alternatives begin with different characters, so their order does not matter.\<close>

definition lex_token :: "pystr \<Rightarrow> (token \<times> pystr) option" where
  "lex_token text =
     (case dropWhile py_isspace text of
        [] \<Rightarrow> None
      | c # cs \<Rightarrow>
          if is_digit c then (case scan_number (c # cs) of (v, rest) \<Rightarrow> Some ((Number, v), rest))
          else if c = QUOTE then map_option (\<lambda>(s, rest). ((String, c # s), rest)) (scan_string cs)
          else if word_start c then Some ((Word, c # takeWhile word_tail cs), dropWhile word_tail cs)
          else (case map_of double_tokens (take 2 (c # cs)) of
              Some k \<Rightarrow> Some ((k, take 2 (c # cs)), drop 2 (c # cs))
            | None \<Rightarrow> (case map_of single_tokens [c] of
                Some k \<Rightarrow> Some ((k, [c]), cs)
              | None \<Rightarrow> None)))"

lemma scan_string_shorter: "scan_string s = Some (v, rest) \<Longrightarrow> length rest < length s"
  by (induction s arbitrary: v rest rule: scan_string.induct) (fastforce split: if_splits list.splits)+

lemma scan_number_shorter: "is_digit c \<Longrightarrow> scan_number (c # cs) = (v, rest) \<Longrightarrow> length rest < length (c # cs)"
  using length_dropWhile_le [of is_digit cs]
  by (auto simp: scan_number_def Let_def less_Suc_eq_le split: list.splits if_splits
      intro: order_trans [OF length_dropWhile_le])

lemma lex_token_shorter: "lex_token s = Some (t, rest) \<Longrightarrow> length rest < length s"
proof -
  assume l: "lex_token s = Some (t, rest)"
  obtain c cs where s: "dropWhile py_isspace s = c # cs" using l by (auto simp: lex_token_def split: list.splits)
  have "length (c # cs) \<le> length s" using length_dropWhile_le [of py_isspace s] by (simp only: s)
  moreover have "length rest < length (c # cs)"
    using l length_dropWhile_le [of word_tail cs]
    by (auto simp: lex_token_def s dest: scan_string_shorter scan_number_shorter split: if_splits prod.splits option.splits)
  ultimately show ?thesis by simp
qed

function tokenize :: "pystr \<Rightarrow> filter_fail + token list" where
  "tokenize s =
     (if s = [] then Inr []
      else (case lex_token s of
          None \<Rightarrow> Inl FilterSyntaxError
        | Some (t, rest) \<Rightarrow> ebind (tokenize rest) (\<lambda>ts. Inr (t # ts))))"
  by pat_completeness auto
termination by (relation "measure length") (auto dest: lex_token_shorter)

declare tokenize.simps [simp del]

section \<open>Literals\<close>

text \<open>\<open>json.loads\<close> of a string token\<close>

definition simple_escape :: "char \<Rightarrow> char option" where
  "simple_escape c =
     (if c = QUOTE \<or> c = BACKSLASH \<or> c = CHR ''/'' then Some c
      else if c = CHR ''b'' then Some (char_of (8 :: nat))
      else if c = CHR ''f'' then Some (char_of (12 :: nat))
      else if c = CHR ''n'' then Some (char_of (10 :: nat))
      else if c = CHR ''r'' then Some (char_of (13 :: nat))
      else if c = CHR ''t'' then Some (char_of (9 :: nat))
      else None)"

fun unescape :: "pystr \<Rightarrow> filter_fail + pystr" where
  "unescape [] = Inl JsonDecodeError"
| "unescape (c # cs) =
     (if c = QUOTE then (if cs = [] then Inr [] else Inl JsonDecodeError)
      else if c = BACKSLASH then
        (case cs of
           [] \<Rightarrow> Inl JsonDecodeError
         | d # ds \<Rightarrow>
             if d = CHR ''u'' then
               (case ds of
                  a # b # e # f # rest \<Rightarrow>
                    (case those (map hex_digit_val [a, b, e, f]) of
                       None \<Rightarrow> Inl JsonDecodeError
                     | Some hs \<Rightarrow>
                         if 255 < from_digits 16 hs then Inl OutsideText
                         else ebind (unescape rest) (\<lambda>s. Inr (char_of (from_digits 16 hs) # s)))
                | _ \<Rightarrow> Inl JsonDecodeError)
             else (case simple_escape d of
                 None \<Rightarrow> Inl JsonDecodeError
               | Some x \<Rightarrow> ebind (unescape ds) (\<lambda>s. Inr (x # s))))
      else if ord_c c < 32 then Inl JsonDecodeError
      else ebind (unescape cs) (\<lambda>s. Inr (c # s)))"

definition number_literal :: "(pystr \<Rightarrow> pystr) \<Rightarrow> pystr \<Rightarrow> filter_fail + json" where
  "number_literal float_text v =
     (if CHR ''.'' \<in> set v then Inr (JNum (float_text v))
      else if 4300 < length v then Inl DigitLimit
      else Inr (JInt (int (the (digits_val 0 v)))))"

definition peek :: "pystr \<Rightarrow> token list \<Rightarrow> bool" where
  "peek v ts = (case ts of [] \<Rightarrow> False | t # _ \<Rightarrow> snd t = v)"

text \<open>
  \<open>literal\<close> and its loop over the items of a list. The depth of the recursion is the first argument; the callers give
  more than any expression needs.
\<close>

fun parse_literal :: "(pystr \<Rightarrow> pystr) \<Rightarrow> nat \<Rightarrow> token list \<Rightarrow> filter_fail + (json \<times> token list)"
  and parse_items :: "(pystr \<Rightarrow> pystr) \<Rightarrow> nat \<Rightarrow> token list \<Rightarrow> filter_fail + (json list \<times> token list)" where
  "parse_literal fl 0 ts = Inl OutOfFuel"
| "parse_literal fl (Suc n) [] = Inl FilterSyntaxError"
| "parse_literal fl (Suc n) ((k, v) # ts) =
     (case k of
        Number \<Rightarrow> ebind (number_literal fl v) (\<lambda>x. Inr (x, ts))
      | String \<Rightarrow> ebind (unescape (tl v)) (\<lambda>s. Inr (JStr s, ts))
      | _ \<Rightarrow>
          if v = ''['' then ebind (parse_items fl n ts) (\<lambda>(xs, rest). Inr (JArr xs, rest))
          else Inr (JStr v, ts))"
| "parse_items fl 0 ts = Inl OutOfFuel"
| "parse_items fl (Suc n) ts =
     (if peek '']'' ts then Inr ([], tl ts)
      else ebind (parse_literal fl n ts) (\<lambda>(x, rest).
        if peek '','' rest then ebind (parse_items fl n (tl rest)) (\<lambda>(xs, r). Inr (x # xs, r))
        else if \<not> peek '']'' rest then Inl FilterSyntaxError
        else ebind (parse_items fl n rest) (\<lambda>(xs, r). Inr (x # xs, r))))"

section \<open>Expressions\<close>

text \<open>
  A disjunction is the list of its conjunctions, a conjunction the list of its factors, and a factor is a predicate or a
  disjunction in parentheses.
\<close>

datatype factor = FPred pystr pystr json | FGroup "factor list list"

type_synonym fexpr = "factor list list"

definition supported_operators :: "pystr list" where
  "supported_operators =
     [''contains'', ''startsWith'', ''endsWith'', ''in'', ''=='', ''!='', ''>'', ''<'', ''>='', ''<='']"

definition parse_predicate :: "(pystr \<Rightarrow> pystr) \<Rightarrow> token list \<Rightarrow> filter_fail + (factor \<times> token list)" where
  "parse_predicate fl ts = (case ts of
     (_, field) # (_, operator) # rest \<Rightarrow>
       if operator \<notin> set supported_operators then Inl FilterSyntaxError
       else ebind (parse_literal fl (2 * length rest + 1) rest) (\<lambda>(x, r). Inr (FPred field operator x, r))
   | _ \<Rightarrow> Inl FilterSyntaxError)"

text \<open>The loop both levels have: one more operand after every separator.\<close>

fun more_operands :: "pystr \<Rightarrow> (token list \<Rightarrow> filter_fail + ('a \<times> token list)) \<Rightarrow> nat \<Rightarrow> token list \<Rightarrow>
    filter_fail + ('a list \<times> token list)" where
  "more_operands sep operand 0 ts = Inl OutOfFuel"
| "more_operands sep operand (Suc n) ts =
     (if peek sep ts then
        ebind (operand (tl ts)) (\<lambda>(f, rest).
        ebind (more_operands sep operand n rest) (\<lambda>(fs, rest). Inr (f # fs, rest)))
      else Inr ([], ts))"

definition operands :: "pystr \<Rightarrow> (token list \<Rightarrow> filter_fail + ('a \<times> token list)) \<Rightarrow> token list \<Rightarrow>
    filter_fail + ('a list \<times> token list)" where
  "operands sep operand ts =
     ebind (operand ts) (\<lambda>(f, rest). ebind (more_operands sep operand (length ts) rest) (\<lambda>(fs, rest). Inr (f # fs, rest)))"

definition parse_conjunction :: "(token list \<Rightarrow> filter_fail + (factor \<times> token list)) \<Rightarrow> token list \<Rightarrow> filter_fail + (factor list \<times> token list)" where
  "parse_conjunction factor ts = operands ''&&'' factor ts"

definition parse_disjunction :: "(token list \<Rightarrow> filter_fail + (factor \<times> token list)) \<Rightarrow> token list \<Rightarrow> filter_fail + (fexpr \<times> token list)" where
  "parse_disjunction factor ts = operands ''||'' (parse_conjunction factor) ts"

text \<open>A factor: the first argument bounds the depth of the parentheses.\<close>

primrec parse_factor :: "nat \<Rightarrow> (pystr \<Rightarrow> pystr) \<Rightarrow> token list \<Rightarrow> filter_fail + (factor \<times> token list)" where
  "parse_factor 0 fl ts = Inl OutOfFuel"
| "parse_factor (Suc n) fl ts =
     (if peek ''('' ts then
        ebind (parse_disjunction (parse_factor n fl) (tl ts)) (\<lambda>(e, rest).
          if peek '')'' rest then Inr (FGroup e, tl rest) else Inl FilterSyntaxError)
      else parse_predicate fl ts)"

text \<open>\<open>FilterEngine.compile\<close>. The predicate of a blank expression is always true.\<close>

definition compile_filter :: "(pystr \<Rightarrow> pystr) \<Rightarrow> pystr \<Rightarrow> filter_fail + fexpr" where
  "compile_filter fl expression =
     (if py_strip expression = [] then Inr [[]]
      else ebind (tokenize expression) (\<lambda>ts.
        ebind (parse_disjunction (parse_factor (length ts + 1) fl) ts) (\<lambda>(e, rest).
          if rest \<noteq> [] then Inl FilterSyntaxError else Inr e)))"


section \<open>Evaluation\<close>

text \<open>The fields of a \<open>NetworkEvent\<close> a filter can name; a member of the metadata that is missing is \<open>None\<close>.\<close>

record net_event =
  ev_protocol :: pystr
  ev_direction :: pystr
  ev_size :: int
  ev_method :: json
  ev_url :: json
  ev_host :: json
  ev_status :: json
  ev_process :: json
  ev_metadata :: "(pystr \<times> json) list"

definition field_of :: "net_event \<Rightarrow> pystr \<Rightarrow> json" where
  "field_of ev path =
     (let meta = member_or_null (ev_metadata ev) in
      case map_of
        [(''protocol'', JStr (ev_protocol ev)), (''direction'', JStr (ev_direction ev)), (''bytes'', JInt (ev_size ev)),
         (''http.method'', ev_method ev), (''http.url'', ev_url ev), (''http.host'', ev_host ev),
         (''http.status'', ev_status ev), (''process.name'', ev_process ev), (''remote.port'', meta ''remote_port''),
         (''local.port'', meta ''local_port''), (''dns.qname'', meta ''dns_qname''), (''tls.version'', meta ''tls_version'')] path of
        Some v \<Rightarrow> v
      | None \<Rightarrow> meta path)"

text \<open>The order of Python: on numbers by value, on text, and on lists by their first different items.\<close>

datatype comparison = CLess | CGreater | CLessEq | CGreaterEq

definition num_less :: "pynum \<Rightarrow> pynum \<Rightarrow> bool" where
  "num_less a b = (case (a, b) of
     (Fin x, Fin y) \<Rightarrow> x < y
   | (Fin x, Infinite positive) \<Rightarrow> positive
   | (Infinite positive, Fin y) \<Rightarrow> \<not> positive
   | (Infinite p, Infinite q) \<Rightarrow> \<not> p \<and> q
   | _ \<Rightarrow> False)"

definition num_compare :: "comparison \<Rightarrow> pynum \<Rightarrow> pynum \<Rightarrow> bool" where
  "num_compare op a b = (case op of
     CLess \<Rightarrow> num_less a b
   | CGreater \<Rightarrow> num_less b a
   | CLessEq \<Rightarrow> num_less a b \<or> num_eq a b
   | CGreaterEq \<Rightarrow> num_less b a \<or> num_eq a b)"

definition order_compare :: "comparison \<Rightarrow> 'a::linorder \<Rightarrow> 'a \<Rightarrow> bool" where
  "order_compare op a b = (case op of CLess \<Rightarrow> a < b | CGreater \<Rightarrow> b < a | CLessEq \<Rightarrow> a \<le> b | CGreaterEq \<Rightarrow> b \<le> a)"

fun py_compare :: "comparison \<Rightarrow> json \<Rightarrow> json \<Rightarrow> exc + bool" where
  "py_compare op (JStr s) (JStr t) = Inr (order_compare op s t)"
| "py_compare op (JArr []) (JArr ys) = Inr (order_compare op 0 (length ys))"
| "py_compare op (JArr (x # xs)) (JArr []) = Inr (order_compare op (length (x # xs)) 0)"
| "py_compare op (JArr (x # xs)) (JArr (y # ys)) =
     (if py_eq x y then py_compare op (JArr xs) (JArr ys) else py_compare op x y)"
| "py_compare op v w = (case (number_of v, number_of w) of
     (Some a, Some b) \<Rightarrow> Inr (num_compare op a b)
   | _ \<Rightarrow> Inl TypeError)"

definition py_in :: "json \<Rightarrow> json \<Rightarrow> exc + bool" where
  "py_in v container = (case container of
     JArr xs \<Rightarrow> Inr (list_ex (py_eq v) xs)
   | JStr s \<Rightarrow> (case v of JStr t \<Rightarrow> Inr (occurs_in t s) | _ \<Rightarrow> Inl TypeError)
   | _ \<Rightarrow> Inl TypeError)"

definition text_or_empty :: "(json \<Rightarrow> pystr) \<Rightarrow> json \<Rightarrow> pystr" where
  "text_or_empty show v = (if truthy v then str_of show v else [])"

definition ordered :: "comparison \<Rightarrow> json \<Rightarrow> json \<Rightarrow> exc + bool" where
  "ordered op v w = (if v = JNull then Inr False else py_compare op v w)"

definition eval_predicate :: "(json \<Rightarrow> pystr) \<Rightarrow> net_event \<Rightarrow> pystr \<Rightarrow> pystr \<Rightarrow> json \<Rightarrow> exc + bool" where
  "eval_predicate show ev field operator expected =
     (let v = field_of ev field; t = text_or_empty show v; e = str_of show expected in
      if operator = ''=='' then Inr (py_eq v expected)
      else if operator = ''!='' then Inr (\<not> py_eq v expected)
      else if operator = ''>'' then ordered CGreater v expected
      else if operator = ''<'' then ordered CLess v expected
      else if operator = ''>='' then ordered CGreaterEq v expected
      else if operator = ''<='' then ordered CLessEq v expected
      else if operator = ''contains'' then Inr (occurs_in e t)
      else if operator = ''startsWith'' then Inr (take (length e) t = e)
      else if operator = ''endsWith'' then Inr (length e \<le> length t \<and> drop (length t - length e) t = e)
      else if operator = ''in'' then py_in v expected
      else Inr False)"

text \<open>\<open>all\<close> and \<open>any\<close> stop at the first answer; an exception before it escapes.\<close>

fun py_all :: "('a \<Rightarrow> exc + bool) \<Rightarrow> 'a list \<Rightarrow> exc + bool" where
  "py_all f [] = Inr True"
| "py_all f (x # xs) = ebind (f x) (\<lambda>b. if b then py_all f xs else Inr False)"

fun py_any :: "('a \<Rightarrow> exc + bool) \<Rightarrow> 'a list \<Rightarrow> exc + bool" where
  "py_any f [] = Inr False"
| "py_any f (x # xs) = ebind (f x) (\<lambda>b. if b then Inr True else py_any f xs)"

lemma py_all_cong [fundef_cong]: "xs = ys \<Longrightarrow> (\<And>x. x \<in> set ys \<Longrightarrow> f x = g x) \<Longrightarrow> py_all f xs = py_all g ys"
  by (induction ys arbitrary: xs) (auto cong: if_cong)

lemma py_any_cong [fundef_cong]: "xs = ys \<Longrightarrow> (\<And>x. x \<in> set ys \<Longrightarrow> f x = g x) \<Longrightarrow> py_any f xs = py_any g ys"
  by (induction ys arbitrary: xs) (auto cong: if_cong)

function eval_factor :: "(json \<Rightarrow> pystr) \<Rightarrow> net_event \<Rightarrow> factor \<Rightarrow> exc + bool" where
  "eval_factor show ev (FPred field operator expected) = eval_predicate show ev field operator expected"
| "eval_factor show ev (FGroup cs) = py_any (py_all (eval_factor show ev)) cs"
  by pat_completeness auto
termination
proof (relation "measure (\<lambda>(_, _, f). size f)", goal_cases)
  case (2 text_of ev cs fs f)
  then have "size f \<le> size_list size fs" "size_list size fs \<le> size_list (size_list size) cs"
    by (auto intro: size_list_estimation')
  then show ?case by simp
qed simp

definition eval_filter :: "(json \<Rightarrow> pystr) \<Rightarrow> net_event \<Rightarrow> fexpr \<Rightarrow> exc + bool" where
  "eval_filter show ev cs = py_any (py_all (eval_factor show ev)) cs"

end
