(* ===== verification/FilterProperties.thy ===== *)
theory FilterProperties
  imports CaptureFilter
begin

text \<open>
  What the filter language promises: compiling always ends, an expression that is written out compiles to itself, and a
  filter without order comparisons and \<open>in\<close> answers every event with the verdict of ordinary logic.
\<close>

section \<open>Compiling ends\<close>

lemma ebind_fuel: "ebind m f \<noteq> Inl OutOfFuel \<longleftrightarrow> m \<noteq> Inl OutOfFuel \<and> (\<forall>x. m = Inr x \<longrightarrow> f x \<noteq> Inl OutOfFuel)"
  by (cases m) auto

lemma number_literal_fuel [simp]: "number_literal fl v \<noteq> Inl OutOfFuel"
  by (simp add: number_literal_def)

lemma unescape_fuel [simp]: "unescape s \<noteq> Inl OutOfFuel"
proof (induction s rule: unescape.induct)
  case (2 c cs)
  consider "c = QUOTE" | "c \<noteq> QUOTE" "c = BACKSLASH" | "c \<noteq> QUOTE" "c \<noteq> BACKSLASH" by blast
  then show ?case
  proof cases
    case c: 2
    show ?thesis
    proof (cases cs)
      case (Cons d ds)
      show ?thesis
      proof (cases "d = CHR ''u''")
        case True
        with 2 c Cons show ?thesis by (auto simp: ebind_fuel split: list.split option.split)
      next
        case False
        with 2(2) [OF c Cons False] c Cons show ?thesis by (auto simp: ebind_fuel split: option.split)
      qed
    qed (use c in simp)
  qed (use 2 in \<open>auto simp: ebind_fuel\<close>)
qed simp

lemma tokenize_fuel [simp]: "tokenize s \<noteq> Inl OutOfFuel"
proof (induction s rule: tokenize.induct)
  case (1 s)
  then show ?case by (subst tokenize.simps) (auto simp: ebind_Inl_iff split: option.splits)
qed

lemma peek_nonempty: "peek v ts \<Longrightarrow> ts \<noteq> []"
  by (auto simp: peek_def)

lemma peek_tl: "peek v ts \<Longrightarrow> length (tl ts) < length ts"
  by (cases ts) (auto simp: peek_def)

text \<open>A literal takes at least one token.\<close>

lemma literal_shorter:
  "parse_literal fl n ts = Inr (x, rest) \<Longrightarrow> length rest < length ts"
  "parse_items fl n ts = Inr (xs, rest') \<Longrightarrow> length rest' < length ts"
proof (induction fl n ts and fl n ts arbitrary: x rest and xs rest' rule: parse_literal_parse_items.induct)
  case (3 fl n k v ts)
  then show ?case by (fastforce split: token_kind.splits if_splits prod.splits dest: less_SucI)
next
  case (5 fl n ts)
  show ?case
  proof (cases "peek '']'' ts")
    case True
    with 5 show ?thesis using peek_tl by auto
  next
    case False
    with "5.prems" obtain y r where r: "parse_literal fl n ts = Inr (y, r)" by auto
    from "5.IH"(1) [OF False r] have l: "length r < length ts" .
    show ?thesis
    proof (cases "peek '','' r")
      case True
      with False r "5.prems" obtain ys where "parse_items fl n (tl r) = Inr (ys, rest')" by (auto split: prod.splits)
      from "5.IH"(2) [OF False True this] l peek_tl [OF True] show ?thesis by simp
    next
      case c: False
      with False r "5.prems" obtain ys where "peek '']'' r" "parse_items fl n r = Inr (ys, rest')" by (auto split: prod.splits if_splits)
      from "5.IH"(3) [OF False c _ this(2)] this(1) l show ?thesis by simp
    qed
  qed
qed auto

lemma literal_fuel:
  "2 * length ts + 1 \<le> n \<Longrightarrow> parse_literal fl n ts \<noteq> Inl OutOfFuel"
  "2 * length ts + 2 \<le> n \<Longrightarrow> parse_items fl n ts \<noteq> Inl OutOfFuel"
proof (induction fl n ts and fl n ts rule: parse_literal_parse_items.induct)
  case (3 fl n k v ts)
  then show ?case by (auto simp: ebind_fuel split: token_kind.splits prod.splits)
next
  case (5 fl n ts)
  show ?case
  proof (cases "peek '']'' ts")
    case False
    have "parse_literal fl n ts \<noteq> Inl OutOfFuel" using "5.IH"(1) [OF False] "5.prems" by simp
    moreover have "parse_items fl n (tl r) \<noteq> Inl OutOfFuel" if "parse_literal fl n ts = Inr (y, r)" "peek '','' r" for y r
      using "5.IH"(2) [OF False that(2)] literal_shorter(1) [OF that(1)] peek_tl [OF that(2)] "5.prems" by simp
    moreover have "parse_items fl n r \<noteq> Inl OutOfFuel" if "parse_literal fl n ts = Inr (y, r)" "\<not> peek '','' r" "peek '']'' r" for y r
      using "5.IH"(3) [OF False that(2)] that(3) literal_shorter(1) [OF that(1)] "5.prems" by simp
    ultimately show ?thesis using False by (auto simp: ebind_fuel split: prod.splits)
  qed simp
qed auto

text \<open>An operand that consumes and ends on every shorter list makes a list of operands that does.\<close>

definition consumes :: "(token list \<Rightarrow> filter_fail + ('a \<times> token list)) \<Rightarrow> bool" where
  "consumes f \<longleftrightarrow> (\<forall>ts x rest. f ts = Inr (x, rest) \<longrightarrow> length rest < length ts)"

definition ends_below :: "nat \<Rightarrow> (token list \<Rightarrow> filter_fail + 'b) \<Rightarrow> bool" where
  "ends_below m f \<longleftrightarrow> (\<forall>ts. length ts \<le> m \<longrightarrow> f ts \<noteq> Inl OutOfFuel)"

lemma consumesD: "consumes f \<Longrightarrow> f ts = Inr (x, rest) \<Longrightarrow> length rest < length ts"
  by (auto simp: consumes_def)

lemma more_operands_shorter: "consumes f \<Longrightarrow> more_operands sep f n ts = Inr (xs, rest) \<Longrightarrow> length rest \<le> length ts"
proof (induction n arbitrary: ts xs rest)
  case (Suc n)
  show ?case
  proof (cases "peek sep ts")
    case True
    with Suc.prems obtain x r ys where f: "f (tl ts) = Inr (x, r)" "more_operands sep f n r = Inr (ys, rest)"
      by (auto split: prod.splits)
    with Suc.IH [OF Suc.prems(1) f(2)] Suc.prems(1) peek_tl [OF True] show ?thesis unfolding consumes_def by fastforce
  qed (use Suc.prems in simp)
qed simp

lemma operands_consume: "consumes f \<Longrightarrow> consumes (operands sep f)"
  unfolding consumes_def [of "operands sep f"] operands_def
  by (auto simp: consumes_def dest!: more_operands_shorter [rotated] split: prod.splits intro: order_le_less_trans)

lemma more_operands_end: "consumes f \<Longrightarrow> ends_below m f \<Longrightarrow> length ts \<le> m \<Longrightarrow> length ts < n \<Longrightarrow> more_operands sep f n ts \<noteq> Inl OutOfFuel"
proof (induction n arbitrary: ts)
  case (Suc n)
  show ?case
  proof (cases "peek sep ts")
    case True
    have tl: "length (tl ts) < length ts" by (rule peek_tl [OF True])
    then have "f (tl ts) \<noteq> Inl OutOfFuel" using Suc.prems by (simp add: ends_below_def)
    moreover have "more_operands sep f n r \<noteq> Inl OutOfFuel" if "f (tl ts) = Inr (x, r)" for x r
    proof -
      have "length r < length (tl ts)" by (rule consumesD [OF Suc.prems(1) that])
      then show ?thesis using Suc.prems tl by (intro Suc.IH) simp_all
    qed
    ultimately show ?thesis using True by (auto simp: ebind_fuel split: prod.splits)
  qed simp
qed simp

lemma operands_end: "consumes f \<Longrightarrow> ends_below m f \<Longrightarrow> ends_below m (operands sep f)"
proof -
  assume c: "consumes f" and e: "ends_below m f"
  have "operands sep f ts \<noteq> Inl OutOfFuel" if l: "length ts \<le> m" for ts
  proof -
    have "f ts \<noteq> Inl OutOfFuel" using e l by (simp add: ends_below_def)
    moreover have "more_operands sep f (length ts) r \<noteq> Inl OutOfFuel" if "f ts = Inr (x, r)" for x r
    proof -
      have "length r < length ts" using c that by (auto simp: consumes_def)
      with l show ?thesis by (intro more_operands_end [OF c e]) simp_all
    qed
    ultimately show ?thesis by (auto simp: operands_def ebind_fuel split: prod.splits)
  qed
  then show ?thesis by (simp add: ends_below_def)
qed

lemma predicate_consumes: "consumes (parse_predicate fl)"
  by (fastforce simp: consumes_def parse_predicate_def dest: literal_shorter(1) split: list.splits prod.splits if_splits)

lemma predicate_ends: "ends_below m (parse_predicate fl)"
  by (auto simp: ends_below_def parse_predicate_def ebind_fuel literal_fuel split: list.splits prod.splits)

lemma factor_consumes: "consumes (parse_factor n fl)"
proof (induction n)
  case (Suc n)
  have d: "consumes (parse_disjunction (parse_factor n fl))"
    unfolding parse_disjunction_def [abs_def] parse_conjunction_def [abs_def] by (intro operands_consume Suc)
  show ?case unfolding consumes_def
  proof (intro allI impI)
    fix ts x rest assume p: "parse_factor (Suc n) fl ts = Inr (x, rest)"
    show "length rest < length ts"
    proof (cases "peek ''('' ts")
      case True
      with p obtain e r where r: "parse_disjunction (parse_factor n fl) (tl ts) = Inr (e, r)" "peek '')'' r" "rest = tl r"
        by (auto split: if_splits prod.splits)
      then have "length r < length (tl ts)" by (intro consumesD [OF d])
      with peek_tl [OF True] r show ?thesis by simp
    next
      case False
      with p predicate_consumes [of fl] show ?thesis by (auto simp: consumes_def)
    qed
  qed
qed (simp add: consumes_def)

lemma factor_ends: "m < n \<Longrightarrow> ends_below m (parse_factor n fl)"
proof (induction n arbitrary: m)
  case (Suc n)
  show ?case unfolding ends_below_def
  proof (intro allI impI)
    fix ts :: "token list" assume l: "length ts \<le> m"
    show "parse_factor (Suc n) fl ts \<noteq> Inl OutOfFuel"
    proof (cases "peek ''('' ts")
      case True
      have tl: "length (tl ts) < length ts" by (rule peek_tl [OF True])
      have "ends_below (length (tl ts)) (parse_factor n fl)" using tl l Suc.prems by (intro Suc.IH) simp
      then have "ends_below (length (tl ts)) (parse_disjunction (parse_factor n fl))"
        unfolding parse_disjunction_def [abs_def] parse_conjunction_def [abs_def]
        by (intro operands_end operands_consume factor_consumes)
      then have "parse_disjunction (parse_factor n fl) (tl ts) \<noteq> Inl OutOfFuel" by (simp add: ends_below_def)
      with True show ?thesis by (auto simp: ebind_fuel split: prod.splits)
    next
      case False
      with predicate_ends [of "length ts" fl] show ?thesis by (simp add: ends_below_def)
    qed
  qed
qed simp

lemma disjunction_ends: "parse_disjunction (parse_factor (length ts + 1) fl) ts \<noteq> Inl OutOfFuel"
proof -
  have "ends_below (length ts) (parse_disjunction (parse_factor (length ts + 1) fl))"
    unfolding parse_disjunction_def [abs_def] parse_conjunction_def [abs_def]
    by (intro operands_end operands_consume factor_consumes factor_ends) simp
  then show ?thesis by (simp add: ends_below_def)
qed

text \<open>C35: Compiling an expression always ends: whatever the text is, it becomes a predicate or is refused with an exception,
  and the recursion of the parser into parentheses and lists stays within the bound the number of tokens gives.\<close>
theorem compile_ends: "compile_filter fl expression \<noteq> Inl OutOfFuel"
  by (auto simp: compile_filter_def ebind_fuel disjunction_ends [simplified] simp del: parse_factor.simps split: prod.splits)


section \<open>Written expressions\<close>

fun separated :: "'a \<Rightarrow> 'a list list \<Rightarrow> 'a list" where
  "separated sep [] = []"
| "separated sep [x] = x"
| "separated sep (x # y # zs) = x @ sep # separated sep (y # zs)"

fun literal_tokens :: "json \<Rightarrow> token list" where
  "literal_tokens (JInt i) = [(Number, show_int i)]"
| "literal_tokens (JStr s) = [(String, quote_str s)]"
| "literal_tokens (JArr xs) = (Word, ''['') # separated (Word, '','') (map literal_tokens xs) @ [(Word, '']'')]"
| "literal_tokens v = []"

fun good_literal :: "json \<Rightarrow> bool" where
  "good_literal (JInt i) \<longleftrightarrow> 0 \<le> i \<and> length (show_int i) \<le> 4300"
| "good_literal (JStr s) \<longleftrightarrow> True"
| "good_literal (JArr xs) \<longleftrightarrow> list_all good_literal xs"
| "good_literal v \<longleftrightarrow> False"

definition good_field :: "pystr \<Rightarrow> bool" where
  "good_field f \<longleftrightarrow> f \<noteq> [] \<and> word_start (hd f) \<and> list_all word_tail (tl f)"

definition op_token :: "pystr \<Rightarrow> token" where
  "op_token op = (if op \<in> {''=='', ''!='', ''>'', ''<'', ''>='', ''<=''} then Op else Word, op)"

text \<open>The tokens of a disjunction from those of its factors.\<close>

definition token_layout :: "('a \<Rightarrow> token list) \<Rightarrow> 'a list list \<Rightarrow> token list" where
  "token_layout f cs = separated (Word, ''||'') (map (\<lambda>fs. separated (Word, ''&&'') (map f fs)) cs)"

lemma token_layout_cong [fundef_cong]:
  "cs = ds \<Longrightarrow> (\<And>fs f. fs \<in> set ds \<Longrightarrow> f \<in> set fs \<Longrightarrow> p f = q f) \<Longrightarrow> token_layout p cs = token_layout q ds"
  by (auto simp: token_layout_def intro!: arg_cong [where f = "separated _"])

lemma factor_size: "fs \<in> set cs \<Longrightarrow> f \<in> set fs \<Longrightarrow> size f < Suc (size_list (size_list size) cs)"
proof -
  assume "fs \<in> set cs" "f \<in> set fs"
  then have "size f \<le> size_list size fs" "size_list size fs \<le> size_list (size_list size) cs"
    by (auto intro: size_list_estimation')
  then show ?thesis by simp
qed

function factor_tokens :: "factor \<Rightarrow> token list" where
  "factor_tokens (FPred f op v) = (Word, f) # op_token op # literal_tokens v"
| "factor_tokens (FGroup cs) = (Word, ''('') # token_layout factor_tokens cs @ [(Word, '')'')]"
  by pat_completeness auto
termination by (relation "measure size") (auto simp: factor_size)

function good_factor :: "factor \<Rightarrow> bool" where
  "good_factor (FPred f op v) \<longleftrightarrow> good_field f \<and> op \<in> set supported_operators \<and> good_literal v"
| "good_factor (FGroup cs) \<longleftrightarrow> cs \<noteq> [] \<and> list_all (\<lambda>fs. fs \<noteq> [] \<and> list_all good_factor fs) cs"
  by pat_completeness auto
termination by (relation "measure size") (auto simp: factor_size)

definition good_expr :: "fexpr \<Rightarrow> bool" where
  "good_expr cs \<longleftrightarrow> cs \<noteq> [] \<and> list_all (\<lambda>fs. fs \<noteq> [] \<and> list_all good_factor fs) cs"

definition write_filter :: "fexpr \<Rightarrow> pystr" where
  "write_filter cs = join_with '' '' (map snd (token_layout factor_tokens cs))"

text \<open>Strings\<close>

lemma char_codes: "char_of (ord_c c) = c" "n < 256 \<Longrightarrow> ord_c (char_of n) = n"
  by (simp_all add: ord_c_def)

lemma quote_codes: "QUOTE \<noteq> CHR ''u''" "BACKSLASH \<noteq> CHR ''u''" "QUOTE \<noteq> BACKSLASH"
  by code_simp+

lemma simple_escapes:
  "simple_escape (CHR ''n'') = Some (char_of (10 :: nat))" "simple_escape (CHR ''r'') = Some (char_of (13 :: nat))"
  "simple_escape (CHR ''t'') = Some (char_of (9 :: nat))" "simple_escape (CHR ''f'') = Some (char_of (12 :: nat))"
  "simple_escape (CHR ''b'') = Some (char_of (8 :: nat))"
  "ord_c (CHR ''n'') \<noteq> 10" "ord_c (CHR ''r'') \<noteq> 10" "ord_c (CHR ''t'') \<noteq> 10" "ord_c (CHR ''f'') \<noteq> 10" "ord_c (CHR ''b'') \<noteq> 10"
  by code_simp+

lemma escape_cases:
  obtains "escape_c c = [c]" "c \<noteq> QUOTE" "c \<noteq> BACKSLASH" "32 \<le> ord_c c"
    | d where "escape_c c = [BACKSLASH, d]" "simple_escape d = Some c" "d \<noteq> CHR ''u''" "ord_c d \<noteq> 10"
    | "escape_c c = BACKSLASH # ''u00'' @ [hex_digit (ord_c c div 16), hex_digit (ord_c c mod 16)]" "ord_c c < 32"
proof -
  have c: "c = char_of (ord_c c)" by (simp add: char_codes)
  consider "ord_c c = 34" | "ord_c c = 92" | "ord_c c = 10" | "ord_c c = 13" | "ord_c c = 9" | "ord_c c = 12" | "ord_c c = 8"
    | "ord_c c < 32" "ord_c c \<notin> {8, 9, 10, 12, 13}" | "32 \<le> ord_c c" "ord_c c \<noteq> 34" "ord_c c \<noteq> 92" by force
  then show thesis
  proof cases
    case 1
    then have q: "c = QUOTE" using c by (simp add: QUOTE_def)
    show thesis
    proof (rule that(2))
      show "escape_c c = [BACKSLASH, QUOTE]" using 1 q by (simp add: escape_c_def BACKSLASH_def)
    qed (use 1 q quote_codes in \<open>simp_all add: simple_escape_def\<close>)
  next
    case 2
    then have q: "c = BACKSLASH" using c by (simp add: BACKSLASH_def)
    show thesis
    proof (rule that(2))
      show "escape_c c = [BACKSLASH, BACKSLASH]" using 2 q by (simp add: escape_c_def)
    qed (use 2 q quote_codes in \<open>simp_all add: simple_escape_def\<close>)
  next
    case 3
    then have "c = char_of (10 :: nat)" "escape_c c = [BACKSLASH, CHR ''n'']" using c by (simp_all add: escape_c_def BACKSLASH_def)
    then show thesis using simple_escapes by (intro that(2) [of "CHR ''n''"]) simp_all
  next
    case 4
    then have "c = char_of (13 :: nat)" "escape_c c = [BACKSLASH, CHR ''r'']" using c by (simp_all add: escape_c_def BACKSLASH_def)
    then show thesis using simple_escapes by (intro that(2) [of "CHR ''r''"]) simp_all
  next
    case 5
    then have "c = char_of (9 :: nat)" "escape_c c = [BACKSLASH, CHR ''t'']" using c by (simp_all add: escape_c_def BACKSLASH_def)
    then show thesis using simple_escapes by (intro that(2) [of "CHR ''t''"]) simp_all
  next
    case 6
    then have "c = char_of (12 :: nat)" "escape_c c = [BACKSLASH, CHR ''f'']" using c by (simp_all add: escape_c_def BACKSLASH_def)
    then show thesis using simple_escapes by (intro that(2) [of "CHR ''f''"]) simp_all
  next
    case 7
    then have "c = char_of (8 :: nat)" "escape_c c = [BACKSLASH, CHR ''b'']" using c by (simp_all add: escape_c_def BACKSLASH_def)
    then show thesis using simple_escapes by (intro that(2) [of "CHR ''b''"]) simp_all
  next
    case 8
    then show thesis by (intro that(3)) (simp_all add: escape_c_def BACKSLASH_def Let_def)
  next
    case 9
    then show thesis by (intro that(1)) (auto simp: escape_c_def BACKSLASH_def QUOTE_def char_codes)
  qed
qed

lemma plain_hex: "d < 16 \<Longrightarrow> hex_digit d \<noteq> QUOTE \<and> hex_digit d \<noteq> BACKSLASH"
proof -
  have "list_all (\<lambda>d. hex_digit d \<noteq> QUOTE \<and> hex_digit d \<noteq> BACKSLASH) [0..<16]" by code_simp
  moreover assume "d < 16"
  ultimately show ?thesis by (auto simp: list_all_iff)
qed

lemma plain_zero: "CHR ''0'' \<noteq> QUOTE" "CHR ''0'' \<noteq> BACKSLASH" "ord_c (CHR ''u'') \<noteq> 10"
  by code_simp+

lemma scan_escaped:
  "scan_string (concat (map escape_c s) @ QUOTE # rest) = Some (concat (map escape_c s) @ [QUOTE], rest)"
proof (induction s)
  case (Cons c s)
  show ?case
  proof (cases c rule: escape_cases)
    case 1
    with Cons show ?thesis by simp
  next
    case (2 d)
    with Cons quote_codes(3) show ?thesis by simp
  next
    case 3
    have "ord_c c div 16 < 16" "ord_c c mod 16 < 16" using 3 by simp_all
    with plain_hex have "hex_digit (ord_c c div 16) \<noteq> QUOTE" "hex_digit (ord_c c div 16) \<noteq> BACKSLASH"
      "hex_digit (ord_c c mod 16) \<noteq> QUOTE" "hex_digit (ord_c c mod 16) \<noteq> BACKSLASH" by blast+
    with 3(1) Cons plain_zero quote_codes(3) show ?thesis by simp
  qed
qed simp

lemma unescape_escaped: "unescape (concat (map escape_c s) @ [QUOTE]) = Inr s"
proof (induction s)
  case (Cons c s)
  show ?case
  proof (cases c rule: escape_cases)
    case 1
    with Cons show ?thesis by simp
  next
    case (2 d)
    with Cons quote_codes show ?thesis by simp
  next
    case 3
    let ?a = "ord_c c div 16" and ?b = "ord_c c mod 16"
    have d: "hex_digit_val (hex_digit ?a) = Some ?a" "hex_digit_val (hex_digit ?b) = Some ?b"
      using 3(2) hex_digit_cases [of ?a] hex_digit_cases [of ?b] by simp_all
    moreover have z: "hex_digit_val (CHR ''0'') = Some 0" by code_simp
    moreover have "from_digits 16 [0, 0, ?a, ?b] = ord_c c" by (simp add: from_digits_def)
    ultimately show ?thesis using 3 Cons quote_codes by (simp add: char_codes)
  qed
qed simp

lemma unescape_quoted [simp]: "unescape (tl (quote_str s)) = Inr s"
  using unescape_escaped [of s] by (simp add: quote_str_def QUOTE_def)

lemma number_shown [simp]:
  "0 \<le> i \<Longrightarrow> length (show_int i) \<le> 4300 \<Longrightarrow> number_literal fl (show_int i) = Inr (JInt i)"
  using show_nat_read [of "nat i"] by (auto simp: number_literal_def show_int_def)

section \<open>Reading written tokens\<close>

lemma show_int_bracket: "0 \<le> i \<Longrightarrow> show_int i \<noteq> '']''"
  using show_nat_read [of "nat i"] by (auto simp: show_int_def)

lemma quote_bracket: "quote_str s \<noteq> '']''"
  by (simp add: quote_str_def)

lemma literal_head: "good_literal v \<Longrightarrow> literal_tokens v \<noteq> [] \<and> \<not> peek '']'' (literal_tokens v @ rest)"
  by (cases v) (auto simp: peek_def show_int_bracket quote_bracket)

lemma peek_word [simp]: "peek v ((k, w) # ts) \<longleftrightarrow> w = v" "\<not> peek v []"
  by (auto simp: peek_def)

definition item_tokens :: "json list \<Rightarrow> token list" where
  "item_tokens xs = separated (Word, '','') (map literal_tokens xs)"

lemma item_tokens_simps [simp]:
  "item_tokens [] = []" "item_tokens [x] = literal_tokens x"
  "item_tokens (x # y # zs) = literal_tokens x @ (Word, '','') # item_tokens (y # zs)"
  by (simp_all add: item_tokens_def)

lemma items_read:
  assumes "\<And>x n rest. x \<in> set xs \<Longrightarrow> 2 * length (literal_tokens x) \<le> Suc n \<Longrightarrow>
      parse_literal fl n (literal_tokens x @ rest) = Inr (x, rest)"
    and "list_all good_literal xs" and "2 * length (item_tokens xs) + 2 \<le> n"
  shows "parse_items fl n (item_tokens xs @ (Word, '']'') # rest) = Inr (xs, rest)"
  using assms
proof (induction xs arbitrary: n rule: induct_list012)
  case 1
  then show ?case by (cases n) simp_all
next
  case (2 x)
  then obtain m where n: "n = Suc m" by (cases n) auto
  have m: "0 < m" using 2 n literal_head [of x "[]"] by (cases m) auto
  have "parse_literal fl m (literal_tokens x @ (Word, '']'') # rest) = Inr (x, (Word, '']'') # rest)"
    using 2 n by (intro "2.prems"(1)) simp_all
  moreover have "parse_items fl m ((Word, '']'') # rest) = Inr ([], rest)" using m by (cases m) simp_all
  moreover have "\<not> peek '']'' (literal_tokens x @ (Word, '']'') # rest)" using 2 literal_head by simp
  ultimately show ?case using n by simp
next
  case (3 x y zs)
  then obtain m where n: "n = Suc m" by (cases n) auto
  let ?r = "(Word, '','') # item_tokens (y # zs) @ (Word, '']'') # rest"
  have "parse_literal fl m (literal_tokens x @ ?r) = Inr (x, ?r)" using 3 n by (intro "3.prems"(1)) simp_all
  moreover have "parse_items fl m (item_tokens (y # zs) @ (Word, '']'') # rest) = Inr (y # zs, rest)"
    using "3.prems" n by (intro "3.IH"(2)) simp_all
  moreover have "\<not> peek '']'' (literal_tokens x @ ?r)" using 3 literal_head by simp
  ultimately show ?case using n by simp
qed

lemma literal_read:
  "good_literal v \<Longrightarrow> 2 * length (literal_tokens v) \<le> Suc n \<Longrightarrow> parse_literal fl n (literal_tokens v @ rest) = Inr (v, rest)"
proof (induction v arbitrary: n rest rule: literal_tokens.induct)
  case (1 i)
  then show ?case by (cases n) simp_all
next
  case (2 s)
  then show ?case by (cases n) simp_all
next
  case (3 xs)
  then obtain m where n: "n = Suc m" by (cases n) auto
  have "parse_items fl m (item_tokens xs @ (Word, '']'') # rest) = Inr (xs, rest)"
    using 3 n by (intro items_read) (auto simp: item_tokens_def list_all_iff)
  then show ?case using n by (simp add: item_tokens_def)
qed simp_all

lemma predicate_read:
  "good_factor (FPred f op v) \<Longrightarrow> parse_predicate fl (factor_tokens (FPred f op v) @ rest) = Inr (FPred f op v, rest)"
  by (simp add: parse_predicate_def op_token_def literal_read)

text \<open>Operands that are read whatever follows them, as long as it is acceptable, are read with their separators.\<close>

lemma more_operands_read:
  assumes "\<And>x r. x \<in> set xs \<Longrightarrow> ok r \<Longrightarrow> f (g x @ r) = Inr (x, r)"
    and "\<And>r. ok ((Word, sep) # r)" and "ok rest" and "\<not> peek sep rest" and "length xs < n"
  shows "more_operands sep f n (concat (map (\<lambda>x. (Word, sep) # g x) xs) @ rest) = Inr (xs, rest)"
  using assms
proof (induction xs arbitrary: n)
  case Nil
  then show ?case by (cases n) simp_all
next
  case (Cons x xs)
  then obtain m where n: "n = Suc m" by (cases n) auto
  let ?r = "concat (map (\<lambda>x. (Word, sep) # g x) xs) @ rest"
  have "ok ?r" using Cons.prems(2,3) by (cases xs) simp_all
  then have "f (g x @ ?r) = Inr (x, ?r)" using Cons.prems(1) by simp
  moreover have "more_operands sep f m ?r = Inr (xs, rest)" using Cons.prems n by (intro Cons.IH) simp_all
  ultimately show ?case using n by simp
qed

lemma separated_concat: "separated sep (map g (x # xs)) = g x @ concat (map (\<lambda>y. sep # g y) xs)"
  by (induction xs arbitrary: x) simp_all

lemma operands_read:
  assumes f: "\<And>x r. x \<in> set xs \<Longrightarrow> ok r \<Longrightarrow> f (g x @ r) = Inr (x, r)"
    and ok: "\<And>r. ok ((Word, sep) # r)" "ok rest" and "\<not> peek sep rest" and "xs \<noteq> []" and g: "\<And>x. x \<in> set xs \<Longrightarrow> g x \<noteq> []"
  shows "operands sep f (separated (Word, sep) (map g xs) @ rest) = Inr (xs, rest)"
proof -
  obtain x ys where xs: "xs = x # ys" using assms by (cases xs) auto
  let ?r = "concat (map (\<lambda>y. (Word, sep) # g y) ys) @ rest"
  have "ok ?r" using ok by (cases ys) simp_all
  then have "f (g x @ ?r) = Inr (x, ?r)" using f xs by simp
  moreover have "length ys \<le> length (concat (map (\<lambda>y. (Word, sep) # g y) ys))" by (induction ys) simp_all
  then have "length ys < length (g x @ ?r)" using g [of x] xs by (cases "g x") simp_all
  then have "more_operands sep f (length (g x @ ?r)) ?r = Inr (ys, rest)"
    using assms xs by (intro more_operands_read [where ok = ok]) simp_all
  ultimately show ?thesis unfolding operands_def xs separated_concat by simp
qed

lemma separated_nonempty: "xs \<noteq> [] \<Longrightarrow> \<forall>x \<in> set xs. x \<noteq> [] \<Longrightarrow> separated sep xs \<noteq> []"
  by (cases "(sep, xs)" rule: separated.cases) auto

lemma layout_read:
  assumes f: "\<And>fs x r. fs \<in> set cs \<Longrightarrow> x \<in> set fs \<Longrightarrow> f (g x @ r) = Inr (x, r)"
    and g: "\<And>fs x. fs \<in> set cs \<Longrightarrow> x \<in> set fs \<Longrightarrow> g x \<noteq> []"
    and cs: "cs \<noteq> []" "list_all (\<lambda>fs. fs \<noteq> []) cs" and rest: "\<not> peek ''&&'' rest" "\<not> peek ''||'' rest"
  shows "parse_disjunction f (token_layout g cs @ rest) = Inr (cs, rest)"
  unfolding token_layout_def parse_disjunction_def
proof (rule operands_read [where ok = "\<lambda>r. \<not> peek ''&&'' r"])
  fix fs r assume fs: "fs \<in> set cs" and r: "\<not> peek ''&&'' r"
  show "parse_conjunction f (separated (Word, ''&&'') (map g fs) @ r) = Inr (fs, r)"
    unfolding parse_conjunction_def
    by (rule operands_read [where ok = "\<lambda>_. True"]) (use fs r f g cs in \<open>auto simp: list_all_iff\<close>)
next
  fix fs assume "fs \<in> set cs"
  then show "separated (Word, ''&&'') (map g fs) \<noteq> []"
    using g cs by (intro separated_nonempty) (auto simp: list_all_iff)
qed (use cs rest in simp_all)

lemma factor_tokens_nonempty: "factor_tokens f \<noteq> []"
  by (cases f) simp_all

lemma length_separated: "x \<in> set xs \<Longrightarrow> length x \<le> length (separated sep xs)"
  by (induction xs rule: induct_list012) auto

lemma length_layout: "fs \<in> set cs \<Longrightarrow> f \<in> set fs \<Longrightarrow> length (g f) \<le> length (token_layout g cs)"
  unfolding token_layout_def using length_separated [of "g f" "map g fs" "(Word, ''&&'')"]
    length_separated [of "separated (Word, ''&&'') (map g fs)" "map (\<lambda>fs. separated (Word, ''&&'') (map g fs)) cs" "(Word, ''||'')"]
  by auto

lemma factor_read: "good_factor f \<Longrightarrow> length (factor_tokens f) \<le> n \<Longrightarrow> parse_factor n fl (factor_tokens f @ rest) = Inr (f, rest)"
proof (induction f arbitrary: n rest rule: factor_tokens.induct)
  case (1 f op v)
  then obtain m where n: "n = Suc m" by (cases n) auto
  have "f \<noteq> ''(''" using 1 by (auto simp: good_field_def word_start_def ascii_letter_def ord_c_def)
  then show ?case using 1 n predicate_read [of f op v fl rest] by simp
next
  case (2 cs)
  then obtain m where n: "n = Suc m" by (cases n) auto
  have "parse_disjunction (parse_factor m fl) (token_layout factor_tokens cs @ (Word, '')'') # rest) = Inr (cs, (Word, '')'') # rest)"
  proof (rule layout_read)
    fix fs x r assume m: "fs \<in> set cs" "x \<in> set fs"
    show "parse_factor m fl (factor_tokens x @ r) = Inr (x, r)"
      using 2 m n length_layout [OF m, of factor_tokens] by (intro "2.IH") (auto simp: list_all_iff)
  qed (use 2 in \<open>auto simp: factor_tokens_nonempty list_all_iff\<close>)
  with n show ?case by simp
qed

lemma tokens_read:
  "good_expr cs \<Longrightarrow> parse_disjunction (parse_factor (length (token_layout factor_tokens cs) + 1) fl) (token_layout factor_tokens cs) = Inr (cs, [])"
proof -
  assume g: "good_expr cs"
  have "parse_disjunction (parse_factor (length (token_layout factor_tokens cs) + 1) fl) (token_layout factor_tokens cs @ []) = Inr (cs, [])"
  proof (rule layout_read)
    fix fs x r assume m: "fs \<in> set cs" "x \<in> set fs"
    show "parse_factor (length (token_layout factor_tokens cs) + 1) fl (factor_tokens x @ r) = Inr (x, r)"
      using g m length_layout [OF m, of factor_tokens] by (intro factor_read) (auto simp: good_expr_def list_all_iff)
  qed (use g in \<open>auto simp: factor_tokens_nonempty good_expr_def list_all_iff\<close>)
  then show ?thesis by simp
qed

section \<open>Reading written characters\<close>

definition closed_by :: "pystr \<Rightarrow> bool" where
  "closed_by rest \<longleftrightarrow> rest = [] \<or> hd rest = CHR '' ''"

definition lexes :: "token \<Rightarrow> bool" where
  "lexes t \<longleftrightarrow> snd t \<noteq> [] \<and> \<not> py_isspace (hd (snd t)) \<and> (\<forall>rest. closed_by rest \<longrightarrow> lex_token (snd t @ rest) = Some (t, rest))"

lemma space_classes: "py_isspace (CHR '' '')" "\<not> is_digit (CHR '' '')" "\<not> word_tail (CHR '' '')" "CHR '' '' \<noteq> CHR ''.''"
  by code_simp+

lemma takeWhile_closed:
  "list_all P s \<Longrightarrow> closed_by rest \<Longrightarrow> \<not> P (CHR '' '') \<Longrightarrow> takeWhile P (s @ rest) = s \<and> dropWhile P (s @ rest) = rest"
  by (cases rest) (auto simp: closed_by_def list_all_iff)

lemma word_start_cases: "word_start c \<Longrightarrow> \<not> py_isspace c \<and> \<not> is_digit c \<and> c \<noteq> QUOTE"
proof -
  have q: "ord_c QUOTE = 34" by code_simp
  have u: "ord_c (CHR ''_'') = 95" by code_simp
  assume "word_start c"
  then have "65 \<le> ord_c c \<and> ord_c c \<le> 122" using u by (auto simp: word_start_def ascii_letter_def Let_def)
  then show ?thesis using q by (auto simp: py_isspace_def is_digit_def Let_def)
qed

lemma word_lexes: "good_field w \<Longrightarrow> lexes (Word, w)"
proof (cases w)
  case (Cons c cs)
  assume "good_field w"
  with Cons have w: "word_start c" "list_all word_tail cs" by (simp_all add: good_field_def)
  have "lex_token (w @ rest) = Some ((Word, w), rest)" if "closed_by rest" for rest
    using takeWhile_closed [OF w(2) that space_classes(3)] word_start_cases [OF w(1)] w Cons by (simp add: lex_token_def)
  then show ?thesis using word_start_cases [OF w(1)] Cons by (simp add: lexes_def)
qed (simp add: good_field_def)

lemma symbols:
  "list_all (\<lambda>c. \<not> py_isspace c \<and> \<not> is_digit c \<and> c \<noteq> QUOTE \<and> \<not> word_start c) ''=!><&|[],()''"
  by code_simp

lemma lex_symbol: "c \<in> set ''=!><&|[],()'' \<Longrightarrow> lex_token (c # cs) =
    (case map_of double_tokens (take 2 (c # cs)) of
       Some k \<Rightarrow> Some ((k, take 2 (c # cs)), drop 2 (c # cs))
     | None \<Rightarrow> (case map_of single_tokens [c] of Some k \<Rightarrow> Some ((k, [c]), cs) | None \<Rightarrow> None))"
proof -
  assume "c \<in> set ''=!><&|[],()''"
  then have "\<not> py_isspace c \<and> \<not> is_digit c \<and> c \<noteq> QUOTE \<and> \<not> word_start c" using symbols by (auto simp only: list_all_iff)
  then show ?thesis by (simp add: lex_token_def del: take_Suc_Cons)
qed

lemma double_lexes: "map_of double_tokens [c, d] = Some k \<Longrightarrow> c \<in> set ''=!><&|[],()'' \<Longrightarrow> lexes (k, [c, d])"
proof -
  assume m: "map_of double_tokens [c, d] = Some k" and c: "c \<in> set ''=!><&|[],()''"
  have "\<not> py_isspace c" using c symbols by (auto simp only: list_all_iff)
  with m show ?thesis by (simp add: lexes_def lex_symbol [OF c])
qed

lemma double_keys: "map_of double_tokens [c] = None" "map_of double_tokens [c, CHR '' ''] = None"
  by (simp_all add: double_tokens_def)

lemma single_lexes:
  assumes "map_of single_tokens [c] = Some k" and "c \<in> set ''=!><&|[],()''"
  shows "lexes (k, [c])"
proof -
  have "map_of double_tokens (take 2 (c # rest)) = None" if "closed_by rest" for rest
    using that double_keys by (cases rest) (auto simp: closed_by_def)
  moreover have "\<not> py_isspace c" using assms(2) symbols by (auto simp only: list_all_iff)
  ultimately show ?thesis using assms by (simp add: lexes_def lex_symbol del: list.set take_Suc_Cons)
qed

lemma symbol_lexes:
  "lexes (Op, ''=='')" "lexes (Op, ''!='')" "lexes (Op, ''>='')" "lexes (Op, ''<='')" "lexes (Word, ''&&'')" "lexes (Word, ''||'')"
  "lexes (Op, ''>'')" "lexes (Op, ''<'')" "lexes (Word, ''['')" "lexes (Word, '']'')" "lexes (Word, '','')"
  "lexes (Word, ''('')" "lexes (Word, '')'')"
  by (simp_all add: double_lexes single_lexes double_tokens_def single_tokens_def)

lemma operator_words: "good_field ''contains''" "good_field ''startsWith''" "good_field ''endsWith''" "good_field ''in''"
  by code_simp+

lemma operator_lexes: "op \<in> set supported_operators \<Longrightarrow> lexes (op_token op)"
proof -
  have "list_all (\<lambda>op. lexes (op_token op)) supported_operators"
    by (simp add: supported_operators_def op_token_def word_lexes operator_words symbol_lexes)
  then show "op \<in> set supported_operators \<Longrightarrow> lexes (op_token op)" by (simp add: list_all_iff)
qed

lemma digits: "list_all is_digit ''0123456789''" "list_all (\<lambda>c. \<not> py_isspace c) ''0123456789''"
  by code_simp+

lemma number_lexes: "0 \<le> i \<Longrightarrow> lexes (Number, show_int i)"
proof -
  assume "0 \<le> i"
  then have s: "set (show_int i) \<subseteq> set ''0123456789''" "show_int i \<noteq> []"
    using show_nat_read [of "nat i"] by (auto simp: show_int_def)
  then have d: "list_all is_digit (show_int i)" using digits by (auto simp only: list_all_iff)
  obtain c cs where c: "show_int i = c # cs" using s by (cases "show_int i") auto
  have sp: "\<not> py_isspace c" "is_digit c" using s c digits by (auto simp only: list_all_iff list.set)
  have "lex_token (show_int i @ rest) = Some ((Number, show_int i), rest)" if r: "closed_by rest" for rest
  proof -
    have t: "takeWhile is_digit (show_int i @ rest) = show_int i" "dropWhile is_digit (show_int i @ rest) = rest"
      using takeWhile_closed [OF d r space_classes(2)] by blast+
    have "scan_number (show_int i @ rest) = (show_int i, rest)"
      unfolding scan_number_def Let_def t using r space_classes(4) by (cases rest) (simp_all add: closed_by_def)
    with sp show ?thesis by (simp add: lex_token_def c)
  qed
  with sp c show ?thesis by (simp add: lexes_def)
qed

lemma string_lexes: "lexes (String, quote_str s)"
proof -
  have "\<not> py_isspace QUOTE" "\<not> is_digit QUOTE" by code_simp+
  then show ?thesis using scan_escaped [of s] by (simp add: lexes_def lex_token_def quote_str_def flip: QUOTE_def)
qed

lemma separated_all: "P sep \<Longrightarrow> \<forall>x \<in> set xs. list_all P x \<Longrightarrow> list_all P (separated sep xs)"
  by (induction xs rule: induct_list012) auto

lemma literal_lexes: "good_literal v \<Longrightarrow> list_all lexes (literal_tokens v)"
proof (induction v rule: literal_tokens.induct)
  case (3 xs)
  have "list_all lexes (separated (Word, '','') (map literal_tokens xs))"
    using 3 by (intro separated_all) (auto simp: symbol_lexes list_all_iff)
  then show ?case by (simp add: symbol_lexes)
qed (simp_all add: number_lexes string_lexes)

lemma layout_lexes:
  assumes "\<And>fs f. fs \<in> set cs \<Longrightarrow> f \<in> set fs \<Longrightarrow> list_all lexes (g f)"
  shows "list_all lexes (token_layout g cs)"
  unfolding token_layout_def
proof (intro separated_all ballI)
  fix x assume "x \<in> set (map (\<lambda>fs. separated (Word, ''&&'') (map g fs)) cs)"
  then obtain fs where "fs \<in> set cs" "x = separated (Word, ''&&'') (map g fs)" by auto
  with assms show "list_all lexes x" by (auto intro!: separated_all simp: symbol_lexes)
qed (simp add: symbol_lexes)

lemma factor_lexes: "good_factor f \<Longrightarrow> list_all lexes (factor_tokens f)"
proof (induction f rule: factor_tokens.induct)
  case (1 f op v)
  then show ?case by (simp add: word_lexes operator_lexes literal_lexes)
next
  case (2 cs)
  then have "list_all lexes (token_layout factor_tokens cs)" by (intro layout_lexes) (auto simp: list_all_iff)
  then show ?case by (simp add: symbol_lexes)
qed

lemma lex_skips_space: "lex_token (CHR '' '' # s) = lex_token s"
  by (simp add: lex_token_def space_classes)

lemma tokenize_written: "list_all lexes ts \<Longrightarrow> tokenize (join_with '' '' (map snd ts)) = Inr ts"
proof (induction ts rule: induct_list012)
  case 1
  then show ?case by (simp add: tokenize.simps)
next
  case (2 t)
  then have "lex_token (snd t) = Some (t, [])" "snd t \<noteq> []" by (auto simp: lexes_def closed_by_def dest: spec [of _ "[]"])
  then show ?case by (simp add: tokenize.simps [of "snd t"] tokenize.simps [of "[]"])
next
  case (3 t u ts)
  let ?r = "join_with '' '' (map snd (u # ts))"
  have r: "?r \<noteq> []" using "3.prems" by (cases ts) (auto simp: lexes_def)
  have "lex_token (snd t @ '' '' @ ?r) = Some (t, '' '' @ ?r)" "snd t \<noteq> []"
    using "3.prems" by (auto simp: lexes_def closed_by_def)
  moreover have "tokenize ('' '' @ ?r) = tokenize ?r"
    using r by (simp add: tokenize.simps [of "CHR '' '' # ?r"] tokenize.simps [of ?r] lex_skips_space del: list.map join_with.simps)
  moreover have "tokenize ?r = Inr (u # ts)" using "3.prems" by (intro "3.IH"(2)) simp
  ultimately have "tokenize (snd t @ '' '' @ ?r) = Inr (t # u # ts)"
    by (simp add: tokenize.simps [of "snd t @ CHR '' '' # ?r"] del: list.map join_with.simps)
  then show ?case by simp
qed

lemma written_not_blank: "list_all lexes ts \<Longrightarrow> ts \<noteq> [] \<Longrightarrow> py_strip (join_with '' '' (map snd ts) @ w) \<noteq> []"
proof -
  assume l: "list_all lexes ts" and n: "ts \<noteq> []"
  let ?s = "join_with '' '' (map snd ts)"
  have "?s \<noteq> [] \<and> \<not> py_isspace (hd ?s)"
    using l n by (cases "(('' '' :: pystr), map snd ts)" rule: join_with.cases) (auto simp: lexes_def)
  then obtain c cs where c: "?s = c # cs" "\<not> py_isspace c" by (cases ?s) auto
  then show ?thesis by (simp add: py_strip_def)
qed

lemma layout_good: "good_expr cs \<Longrightarrow> list_all lexes (token_layout factor_tokens cs)" "good_expr cs \<Longrightarrow> token_layout factor_tokens cs \<noteq> []"
proof -
  assume g: "good_expr cs"
  then show "list_all lexes (token_layout factor_tokens cs)"
    by (intro layout_lexes factor_lexes) (auto simp: good_expr_def list_all_iff)
  show "token_layout factor_tokens cs \<noteq> []"
    unfolding token_layout_def
  proof (intro separated_nonempty ballI)
    fix x assume "x \<in> set (map (\<lambda>fs. separated (Word, ''&&'') (map factor_tokens fs)) cs)"
    then obtain fs where "fs \<noteq> []" "x = separated (Word, ''&&'') (map factor_tokens fs)"
      using g by (auto simp: good_expr_def list_all_iff)
    then show "x \<noteq> []" using factor_tokens_nonempty by (simp add: separated_nonempty)
  qed (use g in \<open>simp add: good_expr_def\<close>)
qed



section \<open>The verdict of a filter\<close>

definition comparisons :: "(pystr \<times> comparison) list" where
  "comparisons = [(''>'', CGreater), (''<'', CLess), (''>='', CGreaterEq), (''<='', CLessEq)]"

text \<open>The predicates that answer every event: equality, the text tests, membership in a list, and an order comparison
  of a field with a literal of the field's own type.\<close>

definition safe_predicate :: "pystr \<Rightarrow> pystr \<Rightarrow> json \<Rightarrow> bool" where
  "safe_predicate field operator expected \<longleftrightarrow>
     operator \<in> {''=='', ''!='', ''contains'', ''startsWith'', ''endsWith''} \<or>
     operator = ''in'' \<and> (case expected of JArr xs \<Rightarrow> True | _ \<Rightarrow> False) \<or>
     map_of comparisons operator \<noteq> None \<and>
       (case expected of JInt i \<Rightarrow> field \<in> {''bytes'', ''http.status''} | JStr s \<Rightarrow> field \<in> {''protocol'', ''direction''} | _ \<Rightarrow> False)"

function safe_factor :: "factor \<Rightarrow> bool" where
  "safe_factor (FPred field operator expected) \<longleftrightarrow> safe_predicate field operator expected"
| "safe_factor (FGroup cs) \<longleftrightarrow> list_all (list_all safe_factor) cs"
  by pat_completeness auto
termination by (relation "measure size") (auto simp: factor_size)

text \<open>What the comparison means on the value the event has, a status that is missing being below and above nothing.\<close>

definition compares :: "comparison \<Rightarrow> json \<Rightarrow> json \<Rightarrow> bool" where
  "compares op v w = (case (v, w) of
     (JInt a, JInt b) \<Rightarrow> order_compare op a b
   | (JStr a, JStr b) \<Rightarrow> order_compare op a b
   | _ \<Rightarrow> False)"

definition predicate_meaning :: "(json \<Rightarrow> pystr) \<Rightarrow> json \<Rightarrow> pystr \<Rightarrow> json \<Rightarrow> bool" where
  "predicate_meaning show v operator expected \<longleftrightarrow>
     (let t = text_or_empty show v; e = str_of show expected in
      operator = ''=='' \<and> py_eq v expected \<or>
      operator = ''!='' \<and> \<not> py_eq v expected \<or>
      operator = ''contains'' \<and> (\<exists>us vs. t = us @ e @ vs) \<or>
      operator = ''startsWith'' \<and> (\<exists>vs. t = e @ vs) \<or>
      operator = ''endsWith'' \<and> (\<exists>us. t = us @ e) \<or>
      operator = ''in'' \<and> (\<exists>xs x. expected = JArr xs \<and> x \<in> set xs \<and> py_eq v x) \<or>
      (\<exists>op. map_of comparisons operator = Some op \<and> compares op v expected))"

text \<open>A disjunction of conjunctions, read as logic reads it.\<close>

inductive filter_holds :: "(json \<Rightarrow> pystr) \<Rightarrow> net_event \<Rightarrow> fexpr \<Rightarrow> bool" and factor_holds :: "(json \<Rightarrow> pystr) \<Rightarrow> net_event \<Rightarrow> factor \<Rightarrow> bool"
  for shw :: "json \<Rightarrow> pystr" and ev :: net_event where
  holds_conjunction: "fs \<in> set cs \<Longrightarrow> \<forall>f \<in> set fs. factor_holds shw ev f \<Longrightarrow> filter_holds shw ev cs"
| holds_predicate: "predicate_meaning shw (field_of ev field) operator expected \<Longrightarrow> factor_holds shw ev (FPred field operator expected)"
| holds_group: "filter_holds shw ev cs \<Longrightarrow> factor_holds shw ev (FGroup cs)"

inductive_simps filter_holds_iff: "filter_holds show ev cs"
inductive_simps factor_holds_iff [simp]: "factor_holds show ev (FPred field operator expected)" "factor_holds show ev (FGroup cs)"

definition status_typed :: "net_event \<Rightarrow> bool" where
  "status_typed ev \<longleftrightarrow> (case ev_status ev of JNull \<Rightarrow> True | JInt n \<Rightarrow> True | _ \<Rightarrow> False)"

lemma prefix_test: "take (length e) t = e \<longleftrightarrow> (\<exists>vs. t = e @ vs)"
  by (metis append_eq_conv_conj append_take_drop_id)

lemma suffix_test: "length e \<le> length t \<and> drop (length t - length e) t = e \<longleftrightarrow> (\<exists>us. t = us @ e)"
proof
  assume "length e \<le> length t \<and> drop (length t - length e) t = e"
  then show "\<exists>us. t = us @ e" by (metis append_take_drop_id)
qed auto

lemma int_compare [simp]: "(case number_of (JInt a) of None \<Rightarrow> Inl TypeError | Some x \<Rightarrow>
    (case number_of (JInt b) of None \<Rightarrow> Inl TypeError | Some y \<Rightarrow> Inr (num_compare op x y))) = (Inr (order_compare op a b) :: exc + bool)"
  by (cases op) (auto simp: number_of_def num_compare_def num_less_def num_eq_def order_compare_def)

lemma field_values:
  "field_of ev ''bytes'' = JInt (ev_size ev)" "field_of ev ''http.status'' = ev_status ev"
  "field_of ev ''protocol'' = JStr (ev_protocol ev)" "field_of ev ''direction'' = JStr (ev_direction ev)"
  by (simp_all add: field_of_def Let_def)

lemma ordered_answer:
  assumes "case expected of JInt i \<Rightarrow> field \<in> {''bytes'', ''http.status''} | JStr s \<Rightarrow> field \<in> {''protocol'', ''direction''} | _ \<Rightarrow> False"
    and "status_typed ev"
  shows "ordered op (field_of ev field) expected = Inr (compares op (field_of ev field) expected)"
  using assms by (auto simp: ordered_def compares_def field_values status_typed_def int_compare split: json.splits)

lemma predicate_answer:
  assumes s: "safe_predicate field operator expected" and t: "status_typed ev"
  shows "eval_predicate show ev field operator expected = Inr (predicate_meaning show (field_of ev field) operator expected)"
proof -
  consider (texts) "operator \<in> {''=='', ''!='', ''contains'', ''startsWith'', ''endsWith''}"
    | (member) xs where "operator = ''in''" "expected = JArr xs"
    | (order) op where "(operator, op) \<in> set comparisons" "ordered op (field_of ev field) expected = Inr (compares op (field_of ev field) expected)"
    using s unfolding safe_predicate_def
  proof (elim disjE conjE)
    assume "operator \<in> {''=='', ''!='', ''contains'', ''startsWith'', ''endsWith''}"
    then show thesis by (rule texts)
  next
    assume "operator = ''in''" "case expected of JArr xs \<Rightarrow> True | _ \<Rightarrow> False"
    then show thesis using member by (cases expected) simp_all
  next
    assume m: "map_of comparisons operator \<noteq> None"
      and e: "case expected of JInt i \<Rightarrow> field \<in> {''bytes'', ''http.status''} | JStr s \<Rightarrow> field \<in> {''protocol'', ''direction''} | _ \<Rightarrow> False"
    from m obtain op where "map_of comparisons operator = Some op" by blast
    then show thesis by (rule order [OF map_of_SomeD ordered_answer [OF e t]])
  qed
  then show ?thesis
  proof cases
    case texts
    then show ?thesis
      by (auto simp: eval_predicate_def predicate_meaning_def Let_def comparisons_def occurs_in_iff prefix_test suffix_test)
  next
    case member
    then show ?thesis by (auto simp: eval_predicate_def predicate_meaning_def Let_def comparisons_def py_in_def list_ex_iff)
  next
    case order
    then show ?thesis by (auto simp: eval_predicate_def predicate_meaning_def Let_def comparisons_def)
  qed
qed

lemma py_all_answers: "\<forall>x \<in> set xs. f x = Inr (p x) \<Longrightarrow> py_all f xs = Inr (\<forall>x \<in> set xs. p x)"
  by (induction xs) auto

lemma py_any_answers: "\<forall>x \<in> set xs. f x = Inr (p x) \<Longrightarrow> py_any f xs = Inr (\<exists>x \<in> set xs. p x)"
  by (induction xs) auto

lemma disjunction_answer:
  assumes "\<And>fs f. fs \<in> set cs \<Longrightarrow> f \<in> set fs \<Longrightarrow> eval_factor show ev f = Inr (factor_holds show ev f)"
  shows "py_any (py_all (eval_factor show ev)) cs = Inr (filter_holds show ev cs)"
proof -
  have "py_all (eval_factor show ev) fs = Inr (\<forall>f \<in> set fs. factor_holds show ev f)" if "fs \<in> set cs" for fs
    using assms that by (intro py_all_answers) blast
  then have "py_any (py_all (eval_factor show ev)) cs = Inr (\<exists>fs \<in> set cs. \<forall>f \<in> set fs. factor_holds show ev f)"
    by (intro py_any_answers) blast
  then show ?thesis by (auto simp: filter_holds_iff)
qed

lemma factor_answer:
  "safe_factor f \<Longrightarrow> status_typed ev \<Longrightarrow> eval_factor show ev f = Inr (factor_holds show ev f)"
proof (induction f rule: safe_factor.induct)
  case (1 field operator expected)
  then show ?case by (simp add: predicate_answer)
next
  case (2 cs)
  then have "py_any (py_all (eval_factor show ev)) cs = Inr (filter_holds show ev cs)"
    by (intro disjunction_answer) (auto simp: list_all_iff)
  then show ?case by simp
qed

text \<open>C21: A filter of equalities, text tests, memberships in written lists and order comparisons of typed fields answers
  every event, and its answer is that of logic: some conjunction all of whose factors hold. The short circuits of
  \<open>all\<close> and \<open>any\<close> change nothing, and no such filter ends a capture with an exception.\<close>
theorem safe_filter_answers:
  assumes "list_all (list_all safe_factor) cs" and "status_typed ev"
  shows "eval_filter show ev cs = Inr (filter_holds show ev cs)"
  unfolding eval_filter_def using assms by (intro disjunction_answer factor_answer) (auto simp: list_all_iff)

definition ex_traffic :: net_event where
  "ex_traffic = \<lparr>ev_protocol = ''http'', ev_direction = ''out'', ev_size = 512, ev_method = JStr ''GET'', ev_url = JStr ''/x'',
     ev_host = JNull, ev_status = JInt 404, ev_process = JNull, ev_metadata = []\<rparr>"

lemma safe_filter_answers_witness:
  "eval_filter dumps ex_traffic [[FPred ''http.status'' ''>='' (JInt 400), FPred ''protocol'' ''=='' (JStr ''http'')]]
    = Inr (filter_holds dumps ex_traffic [[FPred ''http.status'' ''>='' (JInt 400), FPred ''protocol'' ''=='' (JStr ''http'')]])"
  by (rule safe_filter_answers) (simp_all add: safe_predicate_def comparisons_def status_typed_def ex_traffic_def)


section \<open>Two observations\<close>

text \<open>
  \<open>in\<close> with a string asks for a text in a text, so an event that lacks the member has no answer: the exception reaches the
  controller, which fails the whole capture.
\<close>

lemma membership_stops_capture:
  "compile_filter fl ''dns.qname in lan'' = Inr [[FPred ''dns.qname'' ''in'' (JStr ''lan'')]]"
  "eval_filter show ex_traffic [[FPred ''dns.qname'' ''in'' (JStr ''lan'')]] = Inl TypeError"
proof -
  let ?ts = "[(Word, ''dns.qname''), (Word, ''in''), (Word, ''lan'')]"
  have "good_field ''dns.qname''" "good_field ''lan''" by code_simp+
  then have l: "list_all lexes ?ts" by (simp add: word_lexes operator_words)
  show "compile_filter fl ''dns.qname in lan'' = Inr [[FPred ''dns.qname'' ''in'' (JStr ''lan'')]]"
    using tokenize_written [OF l] written_not_blank [OF l, of "[]"]
    by (simp add: compile_filter_def parse_disjunction_def parse_conjunction_def operands_def peek_def
        parse_predicate_def supported_operators_def numeral_nat)
  show "eval_filter show ex_traffic [[FPred ''dns.qname'' ''in'' (JStr ''lan'')]] = Inl TypeError"
    by (simp add: eval_filter_def eval_predicate_def Let_def field_of_def ex_traffic_def member_or_null_def py_in_def)
qed

text \<open>A space after the last token is no token, so an expression with one is refused.\<close>

lemma tokenize_trailing: "list_all lexes ts \<Longrightarrow> ts \<noteq> [] \<Longrightarrow> tokenize (join_with '' '' (map snd ts) @ '' '') = Inl FilterSyntaxError"
proof (induction ts rule: induct_list012)
  case (2 t)
  then have "lex_token (snd t @ '' '') = Some (t, '' '')" by (simp add: lexes_def closed_by_def)
  moreover have "tokenize '' '' = Inl FilterSyntaxError"
    by (simp add: tokenize.simps [of "'' ''"] lex_token_def space_classes)
  ultimately show ?case by (simp add: tokenize.simps [of "snd t @ '' ''"])
next
  case (3 t u ts)
  let ?r = "join_with '' '' (map snd (u # ts)) @ '' ''"
  have "lex_token (snd t @ '' '' @ ?r) = Some (t, '' '' @ ?r)"
    using "3.prems" by (auto simp: lexes_def closed_by_def)
  moreover have "tokenize ('' '' @ ?r) = tokenize ?r"
    by (simp add: tokenize.simps [of "CHR '' '' # ?r"] tokenize.simps [of ?r] lex_skips_space del: list.map join_with.simps)
  moreover have "tokenize ?r = Inl FilterSyntaxError" using "3.prems" by (intro "3.IH"(2)) simp_all
  ultimately have "tokenize (snd t @ '' '' @ ?r) = Inl FilterSyntaxError"
    by (simp add: tokenize.simps [of "snd t @ CHR '' '' # ?r"] del: list.map join_with.simps)
  then show ?case by simp
qed simp

lemma trailing_space_refused:
  assumes "good_expr cs"
  shows "compile_filter fl (write_filter cs @ '' '') = Inl FilterSyntaxError"
  using tokenize_trailing written_not_blank [where w = "'' ''"] layout_good [OF assms]
  by (simp add: compile_filter_def write_filter_def)

end
