(* ===== verification/Spec2Isabelle.thy ===== *)
theory Spec2Isabelle
  imports JobPromises JobLifecycle QueuePasses SurvivabilityProperties WorkflowResults WorkflowExecution SecurityKernel TcpProperties
    WorkflowEditing StorageCapacity FailureTaxonomy ResourceGovernor LeasePool ZeroTrust TracePropagation
    NetworkBudget DnsProperties FilterProperties
begin

text \<open>
  A verification library for the core of Arenyxa (\<^verbatim>\<open>src/arenyxa\<close>, Python). File names below are relative to that directory.

  \<^bold>\<open>The program.\<close> Arenyxa is a workbench for captured network traffic, crawling and automation with a desktop, a command
  line, a server and worker processes over one application layer. Its logic that can be checked is in these parts:
  the distributed runtime (\<^verbatim>\<open>enterprise/\<close>), in which workers lease jobs from a durable queue in an SQL store; the platform
  jobs of one process (\<^verbatim>\<open>application/job_system.py\<close> on \<^verbatim>\<open>infrastructure/database_jobs.py\<close>); the security kernel
  (\<^verbatim>\<open>security/\<close>), which every protected operation of the application layer asks; the resource governance and the failure
  taxonomy (\<^verbatim>\<open>application/reliability.py\<close>), which say how much may run and what may be retried; the workflow graph
  (\<^verbatim>\<open>application/workflow_graph.py\<close>) with the engine that executes it and the durable runs of workflows (\<^verbatim>\<open>application/workflows.py\<close>, \<^verbatim>\<open>workflow_runtime*.py\<close>); the analysis of captured traffic
  (\<^verbatim>\<open>infrastructure/capture/\<close>), of which the reassembly of TCP streams, the decoder of DNS messages and the filter language
  are modelled; and the guard every outgoing connection of the crawlers and proxies passes (\<^verbatim>\<open>security/network_guard.py\<close>). The job executor asks the security kernel before it admits a job, and the
  survivability policy whether it admits heavy ones; the kernel writes every decision to the audit log; the worker identities
  and trace contexts go with the rows of the queue.

  \<^bold>\<open>Conventions.\<close> A Python exception is a value of \<open>exc\<close> (theory \<open>Prelude\<close>) and an operation that may raise is in the sum
  \<open>exc + 'a\<close>. State is passed explicitly; a transaction of the store raises and changes nothing, or commits. A table is a list of
  rows, its \<open>UPDATE ... WHERE\<close> is \<open>upd_where\<close>, its primary key \<open>row_of\<close>. A text is a list of characters of at most one byte (code
  points below 256). Floats are rational numbers. Instants, identifiers drawn at random, and whether a call to the store,
  the file system or the thread pool fails, are arguments. A JSON object is the list of its members (\<open>Json\<close>, \<open>PyJson\<close>).

  \<^bold>\<open>The durable job queue\<close> (\<^verbatim>\<open>enterprise/distributed_queue*.py\<close>, \<^verbatim>\<open>distributed_protocol.py\<close>, \<^verbatim>\<open>runtime_storage*.py\<close>,
  \<^verbatim>\<open>job_lifecycle.py\<close>, \<^verbatim>\<open>infrastructure/timebase.py\<close>). \<open>DistributedProtocol\<close> has the limits and the job state machine,
  \<open>QueueState\<close> the rows and the journal, \<open>QueueOps\<close> the operations of \<open>DurableDistributedQueue\<close>, \<open>QueueRecovery\<close> the worker registry
  and the recovery passes, \<open>QueueMaintenance\<close> retention and start-up, \<open>JobLifecycle\<close> the facade of a worker. \<open>QueueHistory\<close> makes
  every operation a step (\<open>run_op\<close>), in any interleaving. \<open>QueueInvariant\<close>, \<open>QueueTransactions\<close>, \<open>QueueAdmission\<close>, \<open>QueueSweeps\<close>,
  \<open>QueueRepair\<close>, \<open>QueueProgress\<close> and \<open>QueueSafety\<close> carry the invariant (jobs, leases and counters agree) and the order in which rows
  may change; \<open>QueueProperties\<close>, \<open>QueueContracts\<close> and \<open>QueuePasses\<close> state what follows. The digest of the lease tokens is a
  parameter; \<open>env_ok\<close> asks that it is never empty and that the lease clock is an epoch time.

  \<^bold>\<open>The platform jobs.\<close> \<open>PlatformJobs\<close> has the rows and their operations. \<open>JobSystem\<close> has the executor as a step relation: a step
  (\<open>job_step\<close>) is a section the code runs under one lock, one transaction of the store, or one call on a future, so that
  submitters, workers, the retirement callbacks, \<open>cancel\<close> and \<open>shutdown\<close> interleave freely, and \<open>job_reach\<close> adds restarts of the
  process. \<open>JobInvariant\<close> proves the invariant of one job for every step, \<open>JobSlots\<close> adds the account of the slots, \<open>JobProperties\<close> has
  the lemmas on rows, drains, the job that can never be retired and the way out of the others, and \<open>JobPromises\<close> the properties.
  The bound of ten steps in the progress property is the length of the longest way from a waiting future to its retirement.

  \<^bold>\<open>Workflow runs.\<close> \<open>RevisionStore\<close> has the durable side: the output revision with its records, the execution row with its
  additive counters, paged reading, recovery at start-up (\<^verbatim>\<open>infrastructure/database_datasets.py\<close>, \<^verbatim>\<open>database_workflows.py\<close>,
  \<^verbatim>\<open>database_maintenance.py\<close>) and the schema of a stream (\<^verbatim>\<open>application/data_lineage.py\<close>). \<open>WorkflowRuntime\<close> has the run
  (\<^verbatim>\<open>application/workflow_runtime_engine.py\<close>, \<^verbatim>\<open>workflow_runtime_resume.py\<close>): a step (\<open>wf_step\<close>) is one record, one transaction,
  the loss of the process, the recovery or a resume, and its event says whether the transaction committed, raised, or did both.
  The engine that turns a record into outputs and the SHA-256 digest are arguments. \<open>WorkflowExactlyOnce\<close> proves the invariant:
  what is written, what is pending and what is still to be read add up to the output of the whole source. \<open>WorkflowResults\<close> has the
  properties. A node that was not reached has no row (the code inserts zero counts), and authorization and lineage are left out.

  \<^bold>\<open>The workflow engine\<close> (\<^verbatim>\<open>application/workflows.py\<close>, \<^verbatim>\<open>workflow_contract.py\<close>). \<open>PyEquality\<close> has Python's equality of JSON values,
  \<open>WorkflowNodes\<close> the contract of the nodes, the variables of their configuration and the built-in handlers, \<open>WorkflowEngine\<close> the
  execution: bounded buffers, failure edges, the cancellation token, the lifecycles of handlers. Its two loops are partial functions,
  so that not ending would be a value. \<open>WorkflowFlow\<close> keeps the account of the items through one item and one node,
  \<open>WorkflowDataflow\<close> the order of the visits, and \<open>WorkflowExecution\<close> proves that an execution ends, loses nothing and finds cycles
  exactly. \<open>record_engine\<close> is the engine as the runs of the last paragraph use it. Handlers are functions of the item and the
  configuration; the browser action and the extensions are arguments.

  \<^bold>\<open>Security.\<close> \<open>SecurityModels\<close> (\<^verbatim>\<open>security/models.py\<close>), \<open>Capabilities\<close> (\<^verbatim>\<open>security/capabilities.py\<close>), \<open>AuditLog\<close> and
  \<open>AuditProperties\<close> (\<^verbatim>\<open>security/audit.py\<close>), \<open>SecurityKernel\<close> (\<^verbatim>\<open>security/kernel.py\<close>), \<open>ZeroTrust\<close> (\<^verbatim>\<open>security/zero_trust.py\<close>),
  \<open>WorkerIdentity\<close> (\<^verbatim>\<open>security/worker_identity.py\<close>) and \<open>TraceContext\<close>, \<open>TracePropagation\<close>
  (\<^verbatim>\<open>observability/trace_context.py\<close>). The digest of the audit chain is a parameter, collision-freedom a hypothesis of the one
  theorem that needs it; lines of the audit files are rows or text that is no row; ISO timestamps are instants; of the
  metadata of a session only \<open>root_integrity_verified\<close> is kept; the \<open>ipaddress\<close> library is a parameter.

  \<^bold>\<open>Network.\<close> \<open>IpAddress\<close> is the part of Python's \<open>ipaddress\<close> module (3.11 and 3.12) the others use: parsing, printing, the
  classes of addresses, and that a printed address is read back. \<open>NetworkGuard\<close> has the policy, the checks of a target and the
  budgets of \<^verbatim>\<open>security/network_guard.py\<close>; \<open>NetworkBudget\<close> proves what a connection may rely on, for every answer of the name
  service, and bounds the counters and the rates over any sequence of openings and closings. The clock is an argument of every
  call; only the rates assume that it does not run backwards. \<open>DnsDecoder\<close> is
  \<^verbatim>\<open>infrastructure/capture/protocol_dns.py\<close>: its recursions follow the code's own budgets (128 steps for a name, 32 texts, 64
  parameters), and every access outside the bytes is an exception of the model. \<open>DnsProperties\<close> shows that forged bytes raise
  \<open>ValueError\<close> only, which names are read (\<open>spelled\<close> is what the bytes at a position spell), and that written messages are read
  back. \<open>CaptureFilter\<close> is \<^verbatim>\<open>infrastructure/capture/filtering.py\<close>: the tokens, the recursive descent and the evaluation with the
  exceptions of Python's comparisons; the closures of the code are a tree. Its parser has fuel for the depth of parentheses
  (one more than the tokens) and of lists (twice the tokens and one), which \<open>compile_ends\<close> of \<open>FilterProperties\<close> shows to be enough;
  Python's limit on nested calls is not modelled. \<open>FilterProperties\<close> also has the round trip of written expressions and the verdict
  of filters that answer every event. A filter text has code points below 256; the \<open>repr\<close> of a float literal, the name service
  and the SHA-256 digest are arguments.

  \<^bold>\<open>The other components.\<close> \<open>TcpReassembly\<close> and \<open>TcpProperties\<close>; \<open>WorkflowGraph\<close>, \<open>WorkflowTopology\<close> and \<open>WorkflowEditing\<close>;
  \<open>Survivability\<close> and \<open>SurvivabilityProperties\<close> (\<^verbatim>\<open>application/survivability.py\<close>: the runtime state that the resource governor and
  the reports of components determine, and with it which jobs the executor admits; its sections may interleave);
  \<open>FailureTaxonomy\<close>, \<open>ResourceGovernor\<close> and \<open>LeasePool\<close> (three classes of \<^verbatim>\<open>application/reliability.py\<close>; error numbers are those
  of Linux); \<open>StorageCapacity\<close> (\<^verbatim>\<open>enterprise/storage_capacity.py\<close>).

  \<^bold>\<open>Where the code does otherwise than it says.\<close> \<open>reregister_breaks_slot_bound\<close> (\<open>QueueProperties\<close>): a worker that registers
  again with fewer slots than leases breaks the bound the queue checks. \<open>truncation_undetected\<close> and \<open>recovery_error_cleared\<close>
  (\<open>AuditProperties\<close>): the newest rows of the audit chain can be cut unseen, and a write to a corrupt recovery chain clears its
  error. \<open>parallel_edges_misjudged\<close> (\<open>WorkflowEditing\<close>): a node that names a target twice defeats the validation.
  \<open>peer_to_peer_fails_open\<close> (\<open>ZeroTrust\<close>). \<open>oversized_result_never_retires\<close> (\<open>JobPromises\<close>): a result of more than 1 MiB keeps
  its job, its slot and the shutdown of the process for ever. \<open>unconfirmed_checkpoint_counts_twice\<close> and
  \<open>published_execution_marked_failed\<close> (\<open>WorkflowResults\<close>): a checkpoint whose confirming read fails is counted twice, and a published
  execution can end up marked as failed. \<open>incident_lifts_read_only\<close>, \<open>safe_mode_report_hidden\<close>, \<open>recovery_forgotten\<close>, \<open>long_name_kept\<close>
  and \<open>infinite_sequence_raises\<close> (\<open>SurvivabilityProperties\<close>): states of the survivability manager that are lost or never cleared.
  \<open>validate_rejects_lists\<close> (\<open>WorkflowNodes\<close>): a required field that holds a list fails the validation.
  \<open>mapped_address_admitted\<close>, \<open>scoped_address_admitted\<close>, \<open>mapped_unspecified_admitted\<close> and \<open>tracked_targets_uncounted\<close>
  (\<open>NetworkBudget\<close>): the metadata address in another spelling is admitted, and the budget of distinct targets counts new ones
  only. \<open>longest_by_pointer\<close> and \<open>dotted_label_ambiguous\<close> (\<open>DnsProperties\<close>): a legal name is refused behind a pointer, and a dot in a
  label is not told from the dots between labels. \<open>membership_stops_capture\<close> and \<open>trailing_space_refused\<close> (\<open>FilterProperties\<close>): a
  membership in a text fails the capture, and a space at the end is a syntax error.

  \<^bold>\<open>Not modelled.\<close> The user interface and the command line; the other decoders of captured protocols, which follow the pattern of the
  modelled one with tables of their own, and the proxies, which are sockets and TLS; the crawlers and browsers, which are glue around HTTP and browser engines; identities, enrolment,
  vault and hardware keys, whose content is the \<^verbatim>\<open>cryptography\<close> package and TPM calls; the PostgreSQL backend of the queue; the
  operating-system probes; the copy for Windows 7 under \<^verbatim>\<open>legacy/\<close>, which repeats older versions of the same modules.
\<close>

end
